(* ===== verification/Forik_Prelude.thy ===== *)
theory Forik_Prelude
  imports Main "HOL-Library.Word" "HOL-Library.Monad_Syntax"
begin

unbundle bit_operations_syntax

text \<open>
  Shared vocabulary of the ForikOS development: the machine integer types, the assertion
  primitive, bounds-checked access to byte buffers, and the list and word lemmas that the
  component theories share.

  Results. A kernel routine is a function into \<open>option\<close>. \<open>None\<close> means that control does not
  come back to the caller: \<^verbatim>\<open>panic_spin\<close> (src/lib/debug.c) was entered through \<^verbatim>\<open>ASSERT\<close> or
  \<^verbatim>\<open>PANIC\<close> and spins for ever with interrupts off, or the code touched memory outside the object
  it was given. The error codes of the code (\<open>-1\<close>, \<open>NULL\<close>, \<open>false\<close>) are ordinary values.
\<close>

type_synonym u8 = "8 word"
type_synonym u16 = "16 word"
type_synonym u32 = "32 word"

named_theorems forik_defs "definitions unfolded to evaluate concrete runs"

declare Option.bind_cong [fundef_cong]

subsection \<open>Assertions and the end of control\<close>

text \<open>\<^verbatim>\<open>ASSERT(CONDITION)\<close> of src/include/lib/debug.h: continue, or spin in \<^verbatim>\<open>panic_spin\<close>.\<close>

definition ASSERT :: "bool \<Rightarrow> unit option" where
  "ASSERT c = (if c then Some () else None)"

lemma ASSERT_True [simp]: "ASSERT True = Some ()"
  by (simp add: ASSERT_def)

lemma ASSERT_False [simp]: "ASSERT False = None"
  by (simp add: ASSERT_def)

lemma ASSERT_eq_Some [simp]: "(ASSERT c = Some u) = c"
  by (simp add: ASSERT_def)

lemma ASSERT_eq_None [simp]: "(ASSERT c = None) = (\<not> c)"
  by (simp add: ASSERT_def)

lemma ASSERT_bind: "(ASSERT c \<bind> f) = (if c then f () else None)"
  by (simp add: ASSERT_def)

lemma bind_SomeE:
  assumes "Option.bind m f = Some y"
  obtains x where "m = Some x" and "f x = Some y"
  using assms by (cases m) auto

subsection \<open>Bounds-checked buffers\<close>

text \<open>
  A buffer is the list of its cells. Reading or writing past its end is undefined in C and has
  the result \<open>None\<close> here.
\<close>

definition rd :: "'a list \<Rightarrow> nat \<Rightarrow> 'a option" where
  "rd xs i = (if i < length xs then Some (xs ! i) else None)"

definition wr :: "'a list \<Rightarrow> nat \<Rightarrow> 'a \<Rightarrow> 'a list option" where
  "wr xs i v = (if i < length xs then Some (xs[i := v]) else None)"

lemma rd_in [simp]: "i < length xs \<Longrightarrow> rd xs i = Some (xs ! i)"
  by (simp add: rd_def)

lemma rd_out [simp]: "length xs \<le> i \<Longrightarrow> rd xs i = None"
  by (simp add: rd_def)

lemma rd_eq_Some: "(rd xs i = Some x) = (i < length xs \<and> xs ! i = x)"
  by (auto simp: rd_def)

lemma wr_in [simp]: "i < length xs \<Longrightarrow> wr xs i v = Some (xs[i := v])"
  by (simp add: wr_def)

lemma wr_out [simp]: "length xs \<le> i \<Longrightarrow> wr xs i v = None"
  by (simp add: wr_def)

lemma wr_eq_Some: "(wr xs i v = Some ys) = (i < length xs \<and> ys = xs[i := v])"
  by (auto simp: wr_def)

lemma wr_length: "wr xs i v = Some ys \<Longrightarrow> length ys = length xs"
  by (auto simp: wr_eq_Some)

subsection \<open>Lists\<close>

lemma takeWhile_drop_Cons:
  "i < length xs \<Longrightarrow>
   takeWhile P (drop i xs) = (if P (xs ! i) then xs ! i # takeWhile P (drop (Suc i) xs) else [])"
  by (subst Cons_nth_drop_Suc [symmetric]) simp_all

lemma set_drop_Cons: "i < length xs \<Longrightarrow> set (drop i xs) = insert (xs ! i) (set (drop (Suc i) xs))"
  by (subst Cons_nth_drop_Suc [symmetric]) simp_all

lemma list_update_splice:
  "d < length xs \<Longrightarrow> xs[d := v] = take d xs @ v # drop (Suc d) xs"
  by (rule upd_conv_take_nth_drop)

subsection \<open>Bits of words\<close>

lemma word_and_push_bit_eq_0: "(w AND push_bit k 1 = 0) = (\<not> bit w k)" if "k < LENGTH('a)"
  for w :: "'a::len word"
proof
  assume "w AND push_bit k 1 = 0"
  moreover have "bit (w AND push_bit k 1) k = bit w k"
    using that by (simp add: bit_simps)
  ultimately show "\<not> bit w k"
    by simp
next
  assume "\<not> bit w k"
  then show "w AND push_bit k 1 = 0"
    by (intro bit_eqI) (auto simp: bit_simps)
qed

lemma bit_or_push_bit: "k < LENGTH('a) \<Longrightarrow> bit (w OR push_bit k 1) j = (j = k \<or> bit w j)"
  for w :: "'a::len word"
  by (auto simp: bit_simps)

lemma bit_and_not_push_bit: "bit (w AND NOT (push_bit k 1)) j = (j \<noteq> k \<and> bit w j)"
  for w :: "'a::len word"
  by (auto simp: bit_simps dest: bit_imp_le_length)

lemma byte_full_iff: "((w :: u8) = 255) = (\<forall>k<8. bit w k)"
proof
  assume "\<forall>k<8. bit w k"
  then have "w = mask 8"
    by (intro bit_eqI) (auto simp: bit_simps)
  then show "w = 255"
    by (simp add: mask_eq_exp_minus_1)
next
  assume "w = 255"
  then have "w = mask 8"
    by (simp add: mask_eq_exp_minus_1)
  then show "\<forall>k<8. bit w k"
    by (simp add: bit_simps)
qed

end
