(* ===== verification/Cstring.thy ===== *)
theory Cstring
  imports Forik_Prelude
begin

text \<open>
  The byte and string routines of src/lib/string.c. A pointer is a buffer together with an
  offset into it, and every routine checks each access against the end of its buffer, so a run
  past the end of a buffer is the result \<open>None\<close>. Pointers into buffers are never \<^verbatim>\<open>NULL\<close>, which
  is what the assertions at the head of each routine demand. \<^verbatim>\<open>char\<close> is signed on the target, so
  the comparisons of \<^verbatim>\<open>memcmp\<close>, \<^verbatim>\<open>strcmp\<close> and \<^verbatim>\<open>strchr\<close> read a byte through \<^term>\<open>sint\<close>.
\<close>

section \<open>The routines\<close>

fun memset :: "u8 list \<Rightarrow> nat \<Rightarrow> u8 \<Rightarrow> nat \<Rightarrow> u8 list option" where
  "memset dst d value 0 = Some dst"
| "memset dst d value (Suc n) = do {
     dst' \<leftarrow> wr dst d value;
     memset dst' (Suc d) value n
   }"

fun memcpy :: "u8 list \<Rightarrow> nat \<Rightarrow> u8 list \<Rightarrow> nat \<Rightarrow> nat \<Rightarrow> u8 list option" where
  "memcpy dst d src s 0 = Some dst"
| "memcpy dst d src s (Suc n) = do {
     x \<leftarrow> rd src s;
     dst' \<leftarrow> wr dst d x;
     memcpy dst' (Suc d) src (Suc s) n
   }"

fun memcmp :: "u8 list \<Rightarrow> nat \<Rightarrow> u8 list \<Rightarrow> nat \<Rightarrow> nat \<Rightarrow> int option" where
  "memcmp a i b j 0 = Some 0"
| "memcmp a i b j (Suc n) = do {
     x \<leftarrow> rd a i;
     y \<leftarrow> rd b j;
     if x \<noteq> y then Some (if sint x > sint y then 1 else -1)
     else memcmp a (Suc i) b (Suc j) n
   }"

text \<open>\<^verbatim>\<open>while((*dst_++ = *src_++));\<close> copies up to and including the terminator.\<close>

function strcpy :: "u8 list \<Rightarrow> nat \<Rightarrow> u8 list \<Rightarrow> nat \<Rightarrow> u8 list option" where
  "strcpy dst d src s = do {
     c \<leftarrow> rd src s;
     dst' \<leftarrow> wr dst d c;
     if c = 0 then Some dst' else strcpy dst' (Suc d) src (Suc s)
   }"
  by pat_completeness auto
termination
  by (relation "measure (\<lambda>(dst, d, src, s). length src - s)") (auto simp: rd_eq_Some)

text \<open>\<^verbatim>\<open>while(*p++);\<close> leaves \<^verbatim>\<open>p\<close> one past the terminator.\<close>

function skip_str :: "u8 list \<Rightarrow> nat \<Rightarrow> nat option" where
  "skip_str str p = do {
     c \<leftarrow> rd str p;
     if c = 0 then Some (Suc p) else skip_str str (Suc p)
   }"
  by pat_completeness auto
termination
  by (relation "measure (\<lambda>(str, p). length str - p)") (auto simp: rd_eq_Some)

definition strlen :: "u8 list \<Rightarrow> nat \<Rightarrow> nat option" where
  "strlen str s = do {
     p \<leftarrow> skip_str str s;
     Some (p - s - 1)
   }"

function strcmp :: "u8 list \<Rightarrow> nat \<Rightarrow> u8 list \<Rightarrow> nat \<Rightarrow> int option" where
  "strcmp a i b j = do {
     x \<leftarrow> rd a i;
     y \<leftarrow> rd b j;
     if x \<noteq> 0 \<and> x = y then strcmp a (Suc i) b (Suc j)
     else Some (if sint x < sint y then -1 else if sint x > sint y then 1 else 0)
   }"
  by pat_completeness auto
termination
  by (relation "measure (\<lambda>(a, i, b, j). length a - i)") (auto simp: rd_eq_Some)

text \<open>
  \<^verbatim>\<open>*str == ch\<close> compares a signed \<^verbatim>\<open>char\<close> with a \<^verbatim>\<open>uint8_t\<close> after promotion to \<^verbatim>\<open>int\<close>. A found
  position is \<open>Some (Some p)\<close>, the null pointer is \<open>Some None\<close>.
\<close>

definition char_eq :: "u8 \<Rightarrow> u8 \<Rightarrow> bool" where
  "char_eq c ch \<longleftrightarrow> sint c = uint ch"

function strchr :: "u8 list \<Rightarrow> nat \<Rightarrow> u8 \<Rightarrow> nat option option" where
  "strchr str s ch = do {
     c \<leftarrow> rd str s;
     if c \<noteq> 0 then (if char_eq c ch then Some (Some s) else strchr str (Suc s) ch)
     else Some None
   }"
  by pat_completeness auto
termination
  by (relation "measure (\<lambda>(str, s, ch). length str - s)") (auto simp: rd_eq_Some)

function strrchr_loop :: "u8 list \<Rightarrow> nat \<Rightarrow> u8 \<Rightarrow> nat option \<Rightarrow> nat option option" where
  "strrchr_loop str s ch last_char = do {
     c \<leftarrow> rd str s;
     if c \<noteq> 0 then strrchr_loop str (Suc s) ch (if char_eq c ch then Some s else last_char)
     else Some last_char
   }"
  by pat_completeness auto
termination
  by (relation "measure (\<lambda>(str, s, ch, l). length str - s)") (auto simp: rd_eq_Some)

definition strrchr :: "u8 list \<Rightarrow> nat \<Rightarrow> u8 \<Rightarrow> nat option option" where
  "strrchr str s ch = strrchr_loop str s ch None"

definition strcat :: "u8 list \<Rightarrow> nat \<Rightarrow> u8 list \<Rightarrow> nat \<Rightarrow> u8 list option" where
  "strcat dst d src s = do {
     p \<leftarrow> skip_str dst d;
     strcpy dst (p - 1) src s
   }"

function strchrs_loop :: "u8 list \<Rightarrow> nat \<Rightarrow> u8 \<Rightarrow> nat \<Rightarrow> nat option" where
  "strchrs_loop str p ch ch_cnt = do {
     c \<leftarrow> rd str p;
     if c \<noteq> 0 then strchrs_loop str (Suc p) ch (if char_eq c ch then Suc ch_cnt else ch_cnt)
     else Some ch_cnt
   }"
  by pat_completeness auto
termination
  by (relation "measure (\<lambda>(str, p, ch, n). length str - p)") (auto simp: rd_eq_Some)

definition strchrs :: "u8 list \<Rightarrow> nat \<Rightarrow> u8 \<Rightarrow> nat option" where
  "strchrs str p ch = strchrs_loop str p ch 0"

declare strcpy.simps [simp del] skip_str.simps [simp del] strcmp.simps [simp del]
  strchr.simps [simp del] strrchr_loop.simps [simp del] strchrs_loop.simps [simp del]

section \<open>The string held by a buffer\<close>

definition cstr :: "u8 list \<Rightarrow> nat \<Rightarrow> u8 list" where
  "cstr b i = takeWhile (\<lambda>c. c \<noteq> 0) (drop i b)"

definition terminated :: "u8 list \<Rightarrow> nat \<Rightarrow> bool" where
  "terminated b i \<longleftrightarrow> 0 \<in> set (drop i b)"

definition str_bytes :: "string \<Rightarrow> u8 list" where
  "str_bytes s = map of_char s"

lemma terminated_lt: "terminated b i \<Longrightarrow> i < length b"
  by (rule ccontr) (simp add: terminated_def)

lemma cstr_step:
  assumes "i < length b"
  shows "cstr b i = (if b ! i = 0 then [] else b ! i # cstr b (Suc i))"
  using takeWhile_drop_Cons [OF assms, of "\<lambda>c. c \<noteq> 0"] by (auto simp: cstr_def)

lemma terminated_step: "i < length b \<Longrightarrow> terminated b i = (b ! i = 0 \<or> terminated b (Suc i))"
  by (auto simp: terminated_def set_drop_Cons)

lemma cstr_no_nul: "0 \<notin> set (cstr b i)"
  by (auto simp: cstr_def dest: set_takeWhileD)

lemma terminated_length: "terminated b i \<Longrightarrow> i + length (cstr b i) < length b"
proof -
  assume t: "terminated b i"
  then have "takeWhile (\<lambda>c. c \<noteq> 0) (drop i b) \<noteq> drop i b"
    by (auto simp: terminated_def takeWhile_eq_all_conv)
  then have "length (cstr b i) \<noteq> length (drop i b)"
    by (metis cstr_def takeWhile_eq_take take_all order_refl)
  moreover have "length (cstr b i) \<le> length (drop i b)"
    unfolding cstr_def by (rule length_takeWhile_le)
  ultimately show ?thesis
    using terminated_lt [OF t] by simp
qed

lemma cstr_append:
  assumes "0 \<notin> set xs" and "length p = i"
  shows "cstr (p @ xs @ 0 # ys) i = xs"
proof -
  have "takeWhile (\<lambda>c. c \<noteq> 0) (xs @ 0 # ys) = xs @ takeWhile (\<lambda>c. c \<noteq> 0) (0 # ys)"
    using assms(1) by (intro takeWhile_append2) auto
  then show ?thesis
    using assms(2) by (simp add: cstr_def)
qed

lemma terminated_append: "length p = i \<Longrightarrow> terminated (p @ xs @ 0 # ys) i"
  by (simp add: terminated_def)

lemma cstr_prefix: "take (length (cstr b i)) (drop i b) = cstr b i"
  by (simp add: cstr_def takeWhile_eq_take [symmetric])

lemma terminated_at: "terminated b i \<Longrightarrow> b ! (i + length (cstr b i)) = 0"
proof -
  assume t: "terminated b i"
  then have "length (cstr b i) < length (drop i b)"
    using terminated_length [OF t] by simp
  then have "drop i b ! length (cstr b i) = 0"
    unfolding cstr_def using nth_length_takeWhile by blast
  then show ?thesis
    using terminated_lt [OF t] by simp
qed

lemma skip_str_eq:
  "skip_str b i = (if terminated b i then Some (i + length (cstr b i) + 1) else None)"
proof (induction b i rule: skip_str.induct)
  case (1 b i)
  show ?case
  proof (cases "i < length b")
    case True
    then show ?thesis
      using "1.IH" [of "b ! i"]
      by (subst skip_str.simps) (auto simp: cstr_step terminated_step)
  next
    case False
    then show ?thesis
      by (subst skip_str.simps) (auto dest: terminated_lt)
  qed
qed

text \<open>\<^verbatim>\<open>strlen\<close> is the length of the string, and runs off the buffer exactly when no terminator follows.\<close>

lemma strlen_eq: "strlen b i = (if terminated b i then Some (length (cstr b i)) else None)"
  by (simp add: strlen_def skip_str_eq)

section \<open>Copying routines as list surgery\<close>

text \<open>\<^verbatim>\<open>memset\<close> and \<^verbatim>\<open>memcpy\<close> replace one block of the buffer, or run off its end.\<close>

lemma memset_eq:
  "memset b d v n =
     (if n = 0 \<or> d + n \<le> length b then Some (take d b @ replicate n v @ drop (d + n) b) else None)"
proof (induction n arbitrary: b d)
  case (Suc n)
  show ?case
  proof (cases "d < length b")
    case True
    then show ?thesis
      using Suc.IH [of "b[d := v]" "Suc d"]
      by (auto simp: take_Suc_conv_app_nth drop_update_swap list_update_splice min_def
            replicate_append_same ac_simps)
  next
    case False
    then show ?thesis by simp
  qed
qed simp

lemma memset_length: "memset b d v n = Some b' \<Longrightarrow> length b' = length b"
  by (auto simp: memset_eq split: if_splits)

lemma memcpy_eq:
  "memcpy b d src s n =
     (if n = 0 \<or> d + n \<le> length b \<and> s + n \<le> length src
      then Some (take d b @ take n (drop s src) @ drop (d + n) b) else None)"
proof (induction n arbitrary: b d s)
  case (Suc n)
  show ?case
  proof (cases "d < length b \<and> s < length src")
    case True
    then have "take (Suc n) (drop s src) = src ! s # take n (drop (Suc s) src)"
      by (subst Cons_nth_drop_Suc [symmetric]) simp_all
    then show ?thesis
      using True Suc.IH [of "b[d := src ! s]" "Suc d" "Suc s"]
      by (auto simp: take_Suc_conv_app_nth list_update_splice min_def ac_simps)
  next
    case False
    then show ?thesis by (auto simp: rd_def)
  qed
qed simp

lemma memcpy_length: "memcpy b d src s n = Some b' \<Longrightarrow> length b' = length b"
  by (auto simp: memcpy_eq split: if_splits)

lemma memcmp_eq_0:
  "i + n \<le> length a \<Longrightarrow> j + n \<le> length b \<Longrightarrow>
   (memcmp a i b j n = Some 0) = (take n (drop i a) = take n (drop j b))"
proof (induction n arbitrary: i j)
  case (Suc n)
  then have ab: "i < length a" "j < length b"
    by auto
  have "take (Suc n) (drop i a) = a ! i # take n (drop (Suc i) a)"
    and "take (Suc n) (drop j b) = b ! j # take n (drop (Suc j) b)"
    using ab by (simp_all add: Cons_nth_drop_Suc [symmetric])
  then show ?case
    using Suc.prems Suc.IH [of "Suc i" "Suc j"] ab by simp
qed simp

lemma strcpy_eq:
  assumes "terminated src s"
  shows "strcpy b d src s =
     (if d + length (cstr src s) < length b
      then Some (take d b @ cstr src s @ 0 # drop (Suc (d + length (cstr src s))) b) else None)"
  using assms
proof (induction b d src s rule: strcpy.induct)
  case (1 b d src s)
  from "1.prems" have s: "s < length src"
    by (rule terminated_lt)
  show ?case
  proof (cases "d < length b")
    case d: True
    show ?thesis
    proof (cases "src ! s = 0")
      case True
      then show ?thesis
        using s d by (subst strcpy.simps) (simp add: cstr_step list_update_splice)
    next
      case False
      moreover from this have "terminated src (Suc s)"
        using "1.prems" s by (simp add: terminated_step)
      ultimately show ?thesis
        using s d "1.IH" [of "src ! s" "b[d := src ! s]"]
        by (subst strcpy.simps)
           (auto simp: cstr_step list_update_splice take_Suc_conv_app_nth min_def ac_simps)
    qed
  next
    case False
    then show ?thesis
      using s by (subst strcpy.simps) simp
  qed
qed

lemma strcpy_length: "strcpy b d src s = Some b' \<Longrightarrow> length b' = length b"
proof (induction b d src s rule: strcpy.induct)
  case (1 b d src s)
  from "1.prems" show ?case
    by (subst (asm) strcpy.simps)
       (auto simp: bind_eq_Some_conv rd_eq_Some wr_eq_Some dest!: "1.IH" [rotated 3] split: if_splits)
qed

text \<open>\<^verbatim>\<open>strcpy\<close> leaves the source string at the destination and the bytes before it alone.\<close>

lemma strcpy_cstr:
  assumes "terminated src s" and "strcpy b d src s = Some b'"
  shows "cstr b' d = cstr src s" and "take d b' = take d b" and "terminated b' d"
proof -
  from assms have room: "d + length (cstr src s) < length b"
    and b': "b' = take d b @ cstr src s @ 0 # drop (Suc (d + length (cstr src s))) b"
    by (auto simp: strcpy_eq split: if_splits)
  have d: "length (take d b) = d"
    using room by simp
  show "cstr b' d = cstr src s"
    unfolding b' by (rule cstr_append [OF cstr_no_nul d])
  show "terminated b' d"
    unfolding b' by (rule terminated_append [OF d])
  show "take d b' = take d b"
    unfolding b' using room by simp
qed

lemma strcat_eq:
  assumes "terminated dst d" and "terminated src s"
  shows "strcat dst d src s =
     (if d + length (cstr dst d) + length (cstr src s) < length dst
      then Some (take (d + length (cstr dst d)) dst @ cstr src s @
                 0 # drop (Suc (d + length (cstr dst d) + length (cstr src s))) dst)
      else None)"
  using assms by (simp add: strcat_def skip_str_eq strcpy_eq)

text \<open>\<^verbatim>\<open>strcat\<close> concatenates the two strings.\<close>

lemma strcat_cstr:
  assumes "terminated dst d" and "terminated src s" and "strcat dst d src s = Some b'"
  shows "cstr b' d = cstr dst d @ cstr src s" and "terminated b' d" and "length b' = length dst"
proof -
  let ?n = "d + length (cstr dst d)"
  from assms have room: "?n + length (cstr src s) < length dst"
    and b': "b' = take ?n dst @ cstr src s @ 0 # drop (Suc (?n + length (cstr src s))) dst"
    by (auto simp: strcat_eq split: if_splits)
  have "take ?n dst = take d dst @ cstr dst d"
    by (simp add: take_add cstr_prefix)
  then have b'': "b' = take d dst @ (cstr dst d @ cstr src s) @
      0 # drop (Suc (?n + length (cstr src s))) dst"
    using b' by simp
  have d: "length (take d dst) = d"
    using room by simp
  show "cstr b' d = cstr dst d @ cstr src s"
    unfolding b'' by (rule cstr_append [OF _ d]) (simp add: cstr_no_nul)
  show "terminated b' d"
    unfolding b'' by (rule terminated_append [OF d])
  show "length b' = length dst"
    unfolding b'' using room by simp
qed

section \<open>Comparison and search\<close>

lemma sint_byte_eq: "(sint (x :: u8) = sint y) = (x = y)"
  by (metis signed_word_eqI)

fun scmp :: "u8 list \<Rightarrow> u8 list \<Rightarrow> int" where
  "scmp [] [] = 0"
| "scmp [] (y # ys) = (if 0 < sint y then -1 else 1)"
| "scmp (x # xs) [] = (if sint x < 0 then -1 else 1)"
| "scmp (x # xs) (y # ys) =
     (if x = y then scmp xs ys else if sint x < sint y then -1 else 1)"

text \<open>\<^verbatim>\<open>strcmp\<close> is the lexicographic comparison of signed bytes, the empty rest ranking as a zero byte.\<close>

lemma strcmp_eq_scmp:
  "terminated a i \<Longrightarrow> terminated b j \<Longrightarrow> strcmp a i b j = Some (scmp (cstr a i) (cstr b j))"
proof (induction a i b j rule: strcmp.induct)
  case (1 a i b j)
  from "1.prems" have ij: "i < length a" "j < length b"
    by (auto dest: terminated_lt)
  show ?case
  proof (cases "a ! i \<noteq> 0 \<and> a ! i = b ! j")
    case True
    with "1.prems" ij have "terminated a (Suc i)" "terminated b (Suc j)"
      by (auto simp: terminated_step)
    then show ?thesis
      using True ij "1.IH" [of "a ! i" "b ! j"] by (subst strcmp.simps) (simp add: cstr_step)
  next
    case False
    then show ?thesis
      using ij sint_byte_eq [of "a ! i" "b ! j"] sint_byte_eq [of "a ! i" 0] sint_byte_eq [of "b ! j" 0]
      by (subst strcmp.simps) (auto simp: cstr_step)
  qed
qed

lemma scmp_eq_0: "(scmp xs ys = 0) = (xs = ys)"
  by (induction xs ys rule: scmp.induct) auto

lemma strcmp_eq_0:
  "terminated a i \<Longrightarrow> terminated b j \<Longrightarrow> (strcmp a i b j = Some 0) = (cstr a i = cstr b j)"
  by (simp add: strcmp_eq_scmp scmp_eq_0)

text \<open>An ASCII character is found where it is; a byte from 128 on is never found.\<close>

lemma char_eq_ascii: "uint ch < 128 \<Longrightarrow> char_eq c ch = (c = ch)"
proof -
  assume "uint ch < 128"
  then have "sint ch = uint ch"
    unfolding sint_uint
    by (intro signed_take_bit_int_eq_self) (auto intro: order_trans [OF _ uint_ge_0])
  then show ?thesis
    using sint_byte_eq [of c ch] by (auto simp: char_eq_def)
qed

lemma char_eq_high: "128 \<le> uint ch \<Longrightarrow> \<not> char_eq c ch"
  using sint_lt [of c] by (simp add: char_eq_def)

fun rindex :: "('a \<Rightarrow> bool) \<Rightarrow> 'a list \<Rightarrow> nat option" where
  "rindex P [] = None"
| "rindex P (x # xs) =
     (case rindex P xs of Some k \<Rightarrow> Some (Suc k) | None \<Rightarrow> if P x then Some 0 else None)"

lemma rindex_None: "(rindex P xs = None) = (\<forall>x \<in> set xs. \<not> P x)"
  by (induction xs) (auto split: option.splits)

lemma rindex_Some:
  "rindex P xs = Some k \<Longrightarrow>
   k < length xs \<and> P (xs ! k) \<and> (\<forall>x \<in> set (drop (Suc k) xs). \<not> P x)"
proof (induction xs arbitrary: k)
  case (Cons x xs)
  then show ?case
    by (cases k) (auto simp: rindex_None split: option.splits if_splits)
qed simp

lemma strrchr_loop_eq:
  "terminated b i \<Longrightarrow> strrchr_loop b i ch l =
     Some (case rindex (\<lambda>c. char_eq c ch) (cstr b i) of Some k \<Rightarrow> Some (i + k) | None \<Rightarrow> l)"
proof (induction b i ch l rule: strrchr_loop.induct)
  case (1 b i ch l)
  from "1.prems" have i: "i < length b"
    by (rule terminated_lt)
  show ?case
    using i "1.prems" "1.IH" [of "b ! i"]
    by (subst strrchr_loop.simps) (auto simp: cstr_step terminated_step split: option.splits)
qed

text \<open>\<^verbatim>\<open>strrchr\<close> finds the last occurrence, or returns the null pointer when there is none.\<close>

lemma strrchr_eq:
  "terminated b i \<Longrightarrow>
   strrchr b i ch = Some (map_option (\<lambda>k. i + k) (rindex (\<lambda>c. char_eq c ch) (cstr b i)))"
  by (auto simp: strrchr_def strrchr_loop_eq split: option.splits)

lemma strchrs_loop_eq:
  "terminated b i \<Longrightarrow>
   strchrs_loop b i ch n = Some (n + length (filter (\<lambda>c. char_eq c ch) (cstr b i)))"
proof (induction b i ch n rule: strchrs_loop.induct)
  case (1 b i ch n)
  from "1.prems" have i: "i < length b"
    by (rule terminated_lt)
  show ?case
    using i "1.prems" "1.IH" [of "b ! i"]
    by (subst strchrs_loop.simps) (auto simp: cstr_step terminated_step)
qed

lemma strchrs_eq:
  "terminated b i \<Longrightarrow> strchrs b i ch = Some (length (filter (\<lambda>c. char_eq c ch) (cstr b i)))"
  by (simp add: strchrs_def strchrs_loop_eq)

section \<open>Properties\<close>

text \<open>
  Copying and then appending strings: in a buffer with room for both, \<^verbatim>\<open>strcpy\<close> followed by
  \<^verbatim>\<open>strcat\<close> returns and leaves the concatenation, \<^verbatim>\<open>strlen\<close> of it is the sum of the lengths, and
  \<^verbatim>\<open>strcmp\<close> with any string is 0 exactly for the concatenation itself.
\<close>

theorem strcpy_strcat_concat:
  assumes "terminated a 0" and "terminated b 0" and "terminated c 0"
    and "length (cstr a 0) + length (cstr b 0) < length buf"
  shows "\<exists>b1 b2. strcpy buf 0 a 0 = Some b1 \<and> strcat b1 0 b 0 = Some b2 \<and> length b2 = length buf \<and>
    cstr b2 0 = cstr a 0 @ cstr b 0 \<and> strlen b2 0 = Some (length (cstr a 0) + length (cstr b 0)) \<and>
    (strcmp b2 0 c 0 = Some 0 \<longleftrightarrow> cstr c 0 = cstr a 0 @ cstr b 0)"
proof -
  obtain b1 where b1: "strcpy buf 0 a 0 = Some b1"
    using strcpy_eq [OF assms(1), of buf 0] assms(4) by simp
  note c1 = strcpy_cstr [OF assms(1) b1]
  have l1: "length b1 = length buf"
    by (rule strcpy_length [OF b1])
  obtain b2 where b2: "strcat b1 0 b 0 = Some b2"
    using strcat_eq [OF c1(3) assms(2)] c1(1) l1 assms(4) by simp
  note c2 = strcat_cstr [OF c1(3) assms(2) b2]
  show ?thesis
    using b1 b2 c1(1) c2 l1 strcmp_eq_0 [OF c2(2) assms(3)] by (auto simp: strlen_eq)
qed

theorem strcpy_strcat_concat_witness:
  "\<exists>b1 b2. strcpy (replicate 8 9) 0 [97, 0] 0 = Some b1 \<and> strcat b1 0 [98, 99, 0] 0 = Some b2 \<and>
    length b2 = length (replicate 8 (9 :: u8)) \<and> cstr b2 0 = cstr [97, 0] 0 @ cstr [98, 99, 0] 0 \<and>
    strlen b2 0 = Some (length (cstr [97, 0] 0) + length (cstr [98, 99, 0] 0)) \<and>
    (strcmp b2 0 [97, 98, 99, 0] 0 = Some 0 \<longleftrightarrow> cstr [97, 98, 99, 0] 0 = cstr [97, 0] 0 @ cstr [98, 99, 0] 0)"
  by (rule strcpy_strcat_concat) (simp_all add: terminated_def cstr_def)

text \<open>
  The search routines compare a signed character with an unsigned one: a byte from 128 on is never
  found, although it is in the string.
\<close>

theorem strrchr_misses_high_bytes:
  assumes "terminated b 0" and "128 \<le> uint ch"
  shows "strrchr b 0 ch = Some None"
  using strrchr_eq [OF assms(1), of ch] char_eq_high [OF assms(2)] by (simp add: rindex_None [THEN iffD2])

theorem strrchr_misses_high_bytes_witness: "strrchr [65, 200, 0] 0 200 = Some None"
  by (rule strrchr_misses_high_bytes) (simp_all add: terminated_def)

end
