(* ===== verification/Bitmap.thy ===== *)
theory Bitmap
  imports Cstring
begin

text \<open>
  The bitmaps of src/lib/bitmap.c, which account for physical pages, virtual pages, pids, inodes
  and disk blocks, and the interface \<open>index_pool\<close> that their clients rely on.

  \<^verbatim>\<open>struct bitmap\<close> holds a byte count and a pointer. The pointer is modelled by the bytes that are
  readable from it, \<open>bits\<close>; there may be more of them than \<open>btmp_bytes_len\<close>, since the pools place
  several bitmaps one after the other. Bit indices are natural numbers: a bitmap of this kernel has
  fewer than \<open>2 ^ 28\<close> bytes, so no index computed below reaches \<open>2 ^ 31\<close> and the \<^verbatim>\<open>uint32_t\<close> and
  \<^verbatim>\<open>int\<close> arithmetic of the source does not wrap.
\<close>

section \<open>The routines\<close>

record bitmap =
  btmp_bytes_len :: nat
  bits :: "u8 list"

definition BITMAP_MASK :: u8 where
  "BITMAP_MASK = 1"

definition bitmap_init :: "bitmap \<Rightarrow> bitmap option" where
  "bitmap_init btmp = do {
     b \<leftarrow> memset (bits btmp) 0 0 (btmp_bytes_len btmp);
     Some (btmp\<lparr>bits := b\<rparr>)
   }"

definition bitmap_scan_test :: "bitmap \<Rightarrow> nat \<Rightarrow> bool option" where
  "bitmap_scan_test btmp bit_idx = do {
     let byte_idx = bit_idx div 8;
     let bit_odd = bit_idx mod 8;
     x \<leftarrow> rd (bits btmp) byte_idx;
     Some (x AND push_bit bit_odd BITMAP_MASK \<noteq> 0)
   }"

text \<open>The first loop of \<^verbatim>\<open>bitmap_scan\<close>; it reads the byte before it checks the bound.\<close>

function scan_bytes :: "bitmap \<Rightarrow> nat \<Rightarrow> nat option" where
  "scan_bytes btmp idx_byte = do {
     x \<leftarrow> rd (bits btmp) idx_byte;
     if x = 0xff \<and> idx_byte < btmp_bytes_len btmp then scan_bytes btmp (Suc idx_byte)
     else Some idx_byte
   }"
  by pat_completeness auto
termination
  by (relation "measure (\<lambda>(btmp, i). btmp_bytes_len btmp - i)") auto

text \<open>The second loop: \<^verbatim>\<open>(uint8_t)(BITMAP_MASK << idx_bit) & bits[idx_byte]\<close>.\<close>

function scan_bits :: "u8 \<Rightarrow> nat \<Rightarrow> nat" where
  "scan_bits x idx_bit =
     (if push_bit idx_bit BITMAP_MASK AND x \<noteq> 0 then scan_bits x (Suc idx_bit) else idx_bit)"
  by pat_completeness auto
termination
proof (relation "measure (\<lambda>(x, i). 8 - i)")
  fix x idx_bit
  assume "push_bit idx_bit BITMAP_MASK AND x \<noteq> 0"
  then have "idx_bit < 8"
    by (rule contrapos_np) (auto simp: BITMAP_MASK_def bit_simps intro!: bit_eqI)
  then show "((x, Suc idx_bit), (x, idx_bit)) \<in> measure (\<lambda>(x, i). 8 - i)"
    by simp
qed simp

text \<open>The third loop, which looks for \<open>cnt\<close> clear bits in a row and reports \<open>-1\<close> when it ends.\<close>

fun scan_run :: "bitmap \<Rightarrow> nat \<Rightarrow> nat \<Rightarrow> nat \<Rightarrow> nat \<Rightarrow> int option" where
  "scan_run btmp cnt 0 next_bit count = Some (-1)"
| "scan_run btmp cnt (Suc bit_left) next_bit count = do {
     set \<leftarrow> bitmap_scan_test btmp next_bit;
     let count' = (if \<not> set then count + 1 else 0);
     if count' = cnt then Some (int next_bit - int cnt + 1)
     else scan_run btmp cnt bit_left (Suc next_bit) count'
   }"

definition bitmap_scan :: "bitmap \<Rightarrow> nat \<Rightarrow> int option" where
  "bitmap_scan btmp cnt = do {
     idx_byte \<leftarrow> scan_bytes btmp 0;
     ASSERT (idx_byte < btmp_bytes_len btmp);
     if idx_byte = btmp_bytes_len btmp then Some (-1)
     else do {
       x \<leftarrow> rd (bits btmp) idx_byte;
       let idx_bit = scan_bits x 0;
       let bit_idx_start = idx_byte * 8 + idx_bit;
       if cnt = 1 then Some (int bit_idx_start)
       else scan_run btmp cnt (btmp_bytes_len btmp * 8 - bit_idx_start) (bit_idx_start + 1) 1
     }
   }"

definition bitmap_set :: "bitmap \<Rightarrow> nat \<Rightarrow> int \<Rightarrow> bitmap option" where
  "bitmap_set btmp bit_idx value = do {
     ASSERT (value = 0 \<or> value = 1);
     let byte_idx = bit_idx div 8;
     let bit_odd = bit_idx mod 8;
     x \<leftarrow> rd (bits btmp) byte_idx;
     b \<leftarrow> wr (bits btmp) byte_idx
        (if value \<noteq> 0 then x OR push_bit bit_odd BITMAP_MASK
         else x AND NOT (push_bit bit_odd BITMAP_MASK));
     Some (btmp\<lparr>bits := b\<rparr>)
   }"

declare scan_bytes.simps [simp del] scan_bits.simps [simp del]

section \<open>What the bits mean\<close>

definition bm_wf :: "bitmap \<Rightarrow> bool" where
  "bm_wf b \<longleftrightarrow> btmp_bytes_len b \<le> length (bits b)"

definition bm_cap :: "bitmap \<Rightarrow> nat" where
  "bm_cap b = 8 * btmp_bytes_len b"

definition bm_bit :: "bitmap \<Rightarrow> nat \<Rightarrow> bool" where
  "bm_bit b i = bit (bits b ! (i div 8)) (i mod 8)"

definition bm_used :: "bitmap \<Rightarrow> nat set" where
  "bm_used b = {i. i < bm_cap b \<and> bm_bit b i}"

definition free_run :: "bitmap \<Rightarrow> nat \<Rightarrow> nat \<Rightarrow> bool" where
  "free_run b i n \<longleftrightarrow> (\<forall>j. i \<le> j \<and> j < i + n \<longrightarrow> \<not> bm_bit b j)"

lemma bitmap_scan_test_eq:
  "bitmap_scan_test b i = (if i < 8 * length (bits b) then Some (bm_bit b i) else None)"
proof (cases "i < 8 * length (bits b)")
  case True
  then have "i div 8 < length (bits b)"
    by (simp add: less_mult_imp_div_less mult.commute)
  then show ?thesis
    using True word_and_push_bit_eq_0 [of "i mod 8" "bits b ! (i div 8)"]
    by (simp add: bitmap_scan_test_def bm_bit_def BITMAP_MASK_def)
next
  case False
  then have "length (bits b) \<le> i div 8"
    by simp
  then show ?thesis
    using False by (simp add: bitmap_scan_test_def)
qed

lemma bm_index: "i < bm_cap b \<Longrightarrow> bm_wf b \<Longrightarrow> i div 8 < length (bits b)"
  by (auto simp: bm_cap_def bm_wf_def)

lemma bitmap_set_Some:
  assumes "i div 8 < length (bits b)" and "v = 0 \<or> v = 1"
  obtains b' where "bitmap_set b i v = Some b'"
    and "btmp_bytes_len b' = btmp_bytes_len b" and "length (bits b') = length (bits b)"
    and "\<And>j. bm_bit b' j = (if j = i then v = 1 else bm_bit b j)"
proof -
  let ?x = "bits b ! (i div 8)"
  let ?y = "if v \<noteq> 0 then ?x OR push_bit (i mod 8) BITMAP_MASK
            else ?x AND NOT (push_bit (i mod 8) BITMAP_MASK)"
  let ?b = "b\<lparr>bits := (bits b)[i div 8 := ?y]\<rparr>"
  have eq: "bitmap_set b i v = Some ?b"
    using assms by (simp add: bitmap_set_def Let_def)
  have y: "bit ?y k = (if k = i mod 8 then v = 1 else bit ?x k)" for k
    using assms(2) bit_or_push_bit [of "i mod 8" ?x k] bit_and_not_push_bit [of ?x "i mod 8" k]
    by (auto simp: BITMAP_MASK_def)
  have "bm_bit ?b j = (if j = i then v = 1 else bm_bit b j)" for j
  proof (cases "j div 8 = i div 8")
    case True
    then have "j = i \<longleftrightarrow> j mod 8 = i mod 8"
      by (metis div_mult_mod_eq)
    then show ?thesis
      using True assms(1) by (simp add: bm_bit_def y)
  next
    case False
    then show ?thesis
      by (auto simp: bm_bit_def)
  qed
  then show thesis
    using that [of ?b] eq by simp
qed

lemma bitmap_set_used:
  assumes "bm_wf b" and "i < bm_cap b" and "v = 0 \<or> v = 1"
  obtains b' where "bitmap_set b i v = Some b'" and "bm_wf b'" and "bm_cap b' = bm_cap b"
    and "bm_used b' = (if v = 1 then insert i (bm_used b) else bm_used b - {i})"
proof -
  obtain b' where b': "bitmap_set b i v = Some b'" "btmp_bytes_len b' = btmp_bytes_len b"
      "length (bits b') = length (bits b)" "\<And>j. bm_bit b' j = (if j = i then v = 1 else bm_bit b j)"
    using bitmap_set_Some [OF bm_index [OF assms(2,1)] assms(3)] by metis
  have "bm_used b' = (if v = 1 then insert i (bm_used b) else bm_used b - {i})"
    using assms(2,3) b'(2,4) by (auto simp: bm_used_def bm_cap_def)
  then show thesis
    using that [of b'] b' assms(1) by (simp add: bm_wf_def bm_cap_def)
qed

lemma bitmap_init_used:
  assumes "bm_wf b"
  obtains b' where "bitmap_init b = Some b'" and "bm_wf b'" and "bm_cap b' = bm_cap b"
    and "bm_used b' = {}"
proof -
  let ?n = "btmp_bytes_len b"
  let ?b = "b\<lparr>bits := replicate ?n 0 @ drop ?n (bits b)\<rparr>"
  have "bitmap_init b = Some ?b"
    using assms by (simp add: bitmap_init_def memset_eq bm_wf_def)
  moreover have "\<not> bm_bit ?b i" if "i < bm_cap ?b" for i
    using that by (auto simp: bm_bit_def bm_cap_def nth_append)
  ultimately show thesis
    using that [of ?b] assms by (auto simp: bm_wf_def bm_cap_def bm_used_def)
qed

section \<open>The scan finds the first fit\<close>

lemma scan_bits_least:
  assumes "x \<noteq> 0xff" and "k \<le> 8" and "\<forall>j<k. bit x j"
  shows "scan_bits x k < 8 \<and> \<not> bit x (scan_bits x k) \<and> (\<forall>j < scan_bits x k. bit x j)"
  using assms
proof (induction x k rule: scan_bits.induct)
  case (1 x k)
  from "1.prems" have "k < 8"
    using byte_full_iff [of x] by (metis le_neq_implies_less)
  moreover from this have "(push_bit k BITMAP_MASK AND x \<noteq> 0) = bit x k"
    using word_and_push_bit_eq_0 [of k x] by (simp add: BITMAP_MASK_def and.commute)
  ultimately show ?case
    using "1.IH" "1.prems"
    by (subst (1 2 3) scan_bits.simps) (auto simp: less_Suc_eq)
qed

lemma scan_bytes_skips:
  assumes "bm_wf b" and "\<forall>j<k. bits b ! j = 0xff" and "scan_bytes b k = Some r" and "k \<le> btmp_bytes_len b"
  shows "r \<le> btmp_bytes_len b \<and> (\<forall>j<r. bits b ! j = 0xff) \<and>
         (r < btmp_bytes_len b \<longrightarrow> bits b ! r \<noteq> 0xff)"
  using assms
proof (induction b k rule: scan_bytes.induct)
  case (1 b k)
  from "1.prems"(3) have k: "k < length (bits b)"
    by (auto simp: scan_bytes.simps [of b k] bind_eq_Some_conv rd_eq_Some)
  show ?case
  proof (cases "bits b ! k = 0xff \<and> k < btmp_bytes_len b")
    case True
    with "1.prems"(3) k have "scan_bytes b (Suc k) = Some r"
      by (simp add: scan_bytes.simps [of b k])
    then show ?thesis
      using True k "1.prems"(1,2) by (intro "1.IH" [of "bits b ! k"]) (auto simp: less_Suc_eq)
  next
    case False
    with "1.prems"(3) k have "r = k"
      by (auto simp: scan_bytes.simps [of b k])
    then show ?thesis
      using False "1.prems"(2,4) by auto
  qed
qed

lemma scan_bytes_total:
  assumes "bm_wf b" and "k \<le> i" and "i < btmp_bytes_len b" and "bits b ! i \<noteq> 0xff"
  shows "\<exists>r. scan_bytes b k = Some r"
  using assms
proof (induction b k rule: scan_bytes.induct)
  case (1 b k)
  then have "k < length (bits b)" "k < btmp_bytes_len b"
    by (auto simp: bm_wf_def)
  then show ?case
    using "1.prems" "1.IH" by (subst scan_bytes.simps) (auto simp: le_Suc_eq Suc_le_eq order_less_le)
qed

lemma full_bytes_bits: "\<forall>j<r. bits b ! j = 0xff \<Longrightarrow> i < 8 * r \<Longrightarrow> bm_bit b i"
  using byte_full_iff [of "bits b ! (i div 8)"]
  by (auto simp: bm_bit_def dest!: less_mult_imp_div_less [of i _ 8, simplified mult.commute])

text \<open>
  The run loop, started after \<open>count\<close> clear bits: it reports the first run of \<open>cnt\<close> clear bits that
  ends within the \<open>bit_left\<close> bits still to be read, and \<open>-1\<close> when there is none.
\<close>

definition first_fit :: "bitmap \<Rightarrow> nat \<Rightarrow> nat \<Rightarrow> nat \<Rightarrow> int \<Rightarrow> bool" where
  "first_fit b cnt lo hi r \<longleftrightarrow>
     (if r = -1 then \<forall>i. lo \<le> i \<and> i + cnt \<le> hi \<longrightarrow> \<not> free_run b i cnt
      else 0 \<le> r \<and> lo \<le> nat r \<and> nat r + cnt \<le> hi \<and> free_run b (nat r) cnt \<and>
        (\<forall>i. lo \<le> i \<and> i < nat r \<longrightarrow> \<not> free_run b i cnt))"

lemma first_fit_extend:
  assumes "first_fit b cnt lo hi r" and "\<And>i. lo' \<le> i \<Longrightarrow> i < lo \<Longrightarrow> \<not> free_run b i cnt" and "lo' \<le> lo"
  shows "first_fit b cnt lo' hi r"
  using assms unfolding first_fit_def by (auto split: if_splits) (meson not_less)+

lemma scan_run_first:
  assumes "0 < cnt" and "count < cnt" and "count \<le> nb" and "free_run b (nb - count) count"
    and "nb + bit_left \<le> 8 * length (bits b)"
  shows "\<exists>r. scan_run b cnt bit_left nb count = Some r \<and>
    first_fit b cnt (nb - count) (nb + bit_left) r"
  using assms
proof (induction bit_left arbitrary: nb count)
  case 0
  then have "i + cnt \<le> nb \<Longrightarrow> \<not> nb - count \<le> i" for i
    by arith
  then show ?case by (auto simp: first_fit_def)
next
  case (Suc l)
  have test: "bitmap_scan_test b nb = Some (bm_bit b nb)"
    using Suc.prems(5) by (simp add: bitmap_scan_test_eq)
  show ?case
  proof (cases "bm_bit b nb")
    case True
    have skip: "\<not> free_run b i cnt" if "nb - count \<le> i" and "i \<le> nb" for i
      using that True Suc.prems(2,3) unfolding free_run_def by (intro notI) (auto dest!: spec [of _ nb])
    have "free_run b (Suc nb - 0) 0"
      by (auto simp: free_run_def)
    then obtain r where r: "scan_run b cnt l (Suc nb) 0 = Some r"
      and fit: "first_fit b cnt (Suc nb) (Suc nb + l) r"
      using Suc.IH [of 0 "Suc nb"] Suc.prems by auto
    have "scan_run b cnt (Suc l) nb count = Some r"
      using test True r Suc.prems(1) by simp
    moreover have "first_fit b cnt (nb - count) (Suc nb + l) r"
      using fit skip by (rule first_fit_extend) auto
    ultimately show ?thesis
      by simp
  next
    case False
    have run: "free_run b (nb - count) (Suc count)"
      using False Suc.prems(3,4) by (auto simp: free_run_def less_Suc_eq)
    show ?thesis
    proof (cases "Suc count = cnt")
      case True
      then have "scan_run b cnt (Suc l) nb count = Some (int nb - int cnt + 1)"
        using test False by simp
      moreover have "int nb - int cnt + 1 = int (nb - count)"
        using True Suc.prems(3) by auto
      ultimately have "scan_run b cnt (Suc l) nb count = Some (int (nb - count))"
        by simp
      moreover have "first_fit b cnt (nb - count) (nb + Suc l) (int (nb - count))"
        using True run Suc.prems(3) by (auto simp: first_fit_def simp del: of_nat_diff)
      ultimately show ?thesis
        by blast
    next
      case neq: False
      then show ?thesis
        using Suc.IH [of "Suc count" "Suc nb"] Suc.prems test False run by auto
    qed
  qed
qed

text \<open>The start of every scan: the first clear bit.\<close>

lemma scan_start:
  assumes "bm_wf b" and "i < bm_cap b" and "\<not> bm_bit b i"
  obtains k j where "scan_bytes b 0 = Some k" and "k < btmp_bytes_len b"
    and "j = k * 8 + scan_bits (bits b ! k) 0" and "j < bm_cap b" and "\<not> bm_bit b j"
    and "\<And>m. m < j \<Longrightarrow> bm_bit b m"
proof -
  have i: "i div 8 < btmp_bytes_len b"
    using assms(2) by (auto simp: bm_cap_def)
  have "bits b ! (i div 8) \<noteq> 0xff"
    using assms(3) byte_full_iff [of "bits b ! (i div 8)"] by (auto simp: bm_bit_def)
  then obtain k where k: "scan_bytes b 0 = Some k"
    using scan_bytes_total [OF assms(1) _ i] by auto
  have skipped: "\<forall>m<k. bits b ! m = 0xff" and "k \<le> btmp_bytes_len b"
    and stop: "k < btmp_bytes_len b \<longrightarrow> bits b ! k \<noteq> 0xff"
    using scan_bytes_skips [OF assms(1) _ k] by auto
  have k_lt: "k < btmp_bytes_len b"
  proof (rule ccontr)
    assume "\<not> k < btmp_bytes_len b"
    then have "bits b ! (i div 8) = 0xff"
      using skipped i by auto
    then show False
      using \<open>bits b ! (i div 8) \<noteq> 0xff\<close> by simp
  qed
  let ?z = "scan_bits (bits b ! k) 0"
  have z: "?z < 8" "\<not> bit (bits b ! k) ?z" "\<forall>m < ?z. bit (bits b ! k) m"
    using scan_bits_least [of "bits b ! k" 0] stop k_lt by auto
  have "bm_bit b m" if m: "m < k * 8 + ?z" for m
  proof (cases "m < 8 * k")
    case True
    then show ?thesis
      using full_bytes_bits [OF skipped] by simp
  next
    case False
    then obtain d where d: "m = 8 * k + d" "d < ?z"
      using m by (metis add_less_cancel_left le_Suc_ex mult.commute not_less)
    then have "m div 8 = k" "m mod 8 < ?z"
      using z(1) by auto
    then show ?thesis
      using z(3) by (simp add: bm_bit_def)
  qed
  moreover have "\<not> bm_bit b (k * 8 + ?z)" "k * 8 + ?z < bm_cap b"
    using z(1,2) k_lt by (auto simp: bm_bit_def bm_cap_def)
  ultimately show thesis
    using that [OF k k_lt refl] by blast
qed

lemma bitmap_scan_one:
  assumes "bm_wf b" and "i < bm_cap b" and "\<not> bm_bit b i"
  shows "\<exists>j. bitmap_scan b 1 = Some (int j) \<and> j < bm_cap b \<and> \<not> bm_bit b j \<and> (\<forall>m<j. bm_bit b m)"
proof -
  obtain k j where "scan_bytes b 0 = Some k" "k < btmp_bytes_len b"
      "j = k * 8 + scan_bits (bits b ! k) 0" "j < bm_cap b" "\<not> bm_bit b j" "\<And>m. m < j \<Longrightarrow> bm_bit b m"
    using scan_start [OF assms] by blast
  then show ?thesis
    using assms(1) by (intro exI [of _ j]) (auto simp: bitmap_scan_def Let_def bm_wf_def)
qed

text \<open>When every bit is set the assertion of line 46 fires: the caller never sees \<open>-1\<close>.\<close>

lemma bitmap_scan_full:
  assumes "bm_wf b" and "\<And>i. i < bm_cap b \<Longrightarrow> bm_bit b i"
  shows "bitmap_scan b cnt = None"
proof (cases "scan_bytes b 0")
  case (Some k)
  have "\<not> k < btmp_bytes_len b"
  proof
    assume k: "k < btmp_bytes_len b"
    then have "bits b ! k \<noteq> 0xff"
      using scan_bytes_skips [OF assms(1) _ Some] by auto
    then obtain m where "m < 8" "\<not> bit (bits b ! k) m"
      using byte_full_iff by blast
    then have "8 * k + m < bm_cap b" "\<not> bm_bit b (8 * k + m)"
      using k by (auto simp: bm_cap_def bm_bit_def)
    then show False
      using assms(2) by blast
  qed
  then show ?thesis
    using Some by (simp add: bitmap_scan_def)
qed (simp add: bitmap_scan_def)

lemma bitmap_scan_run:
  assumes "bm_wf b" and "btmp_bytes_len b < length (bits b)" and "2 \<le> cnt"
    and "i < bm_cap b" and "\<not> bm_bit b i"
  shows "\<exists>r. bitmap_scan b cnt = Some r \<and> first_fit b cnt 0 (bm_cap b + 1) r"
proof -
  obtain k j where k: "scan_bytes b 0 = Some k" "k < btmp_bytes_len b"
      and j: "j = k * 8 + scan_bits (bits b ! k) 0" "j < bm_cap b" "\<not> bm_bit b j"
      and below: "\<And>m. m < j \<Longrightarrow> bm_bit b m"
    using scan_start [OF assms(1,4,5)] by blast
  have eq: "bitmap_scan b cnt = scan_run b cnt (bm_cap b - j) (Suc j) 1"
    using k j(1) assms(1,3) by (auto simp: bitmap_scan_def Let_def bm_wf_def bm_cap_def mult.commute)
  have early: "\<not> free_run b m cnt" if "m < j" for m
    using that below [of m] assms(3) unfolding free_run_def by (intro notI) (auto dest!: spec [of _ m])
  have "free_run b (Suc j - 1) 1"
    using j(3) by (auto simp: free_run_def less_Suc_eq_le)
  then obtain r where r: "scan_run b cnt (bm_cap b - j) (Suc j) 1 = Some r"
    and fit: "first_fit b cnt j (bm_cap b + 1) r"
    using scan_run_first [of cnt 1 "Suc j" b "bm_cap b - j"] assms(2,3) j(2)
    by (auto simp: bm_cap_def)
  have "first_fit b cnt 0 (bm_cap b + 1) r"
    using fit early by (rule first_fit_extend) auto
  then show ?thesis
    using eq r by simp
qed

section \<open>Pools of indices\<close>

text \<open>
  What the kernel relies on when it hands out pids, page frames, inodes and disk blocks: an index
  that was not in use, marked as used, and given back by \<open>release\<close>. The lemmas below are proved
  once, for any such pool.
\<close>

locale index_pool =
  fixes inv :: "'s \<Rightarrow> bool" and used :: "'s \<Rightarrow> nat set" and cap :: "'s \<Rightarrow> nat"
    and alloc :: "'s \<Rightarrow> (nat \<times> 's) option" and release :: "'s \<Rightarrow> nat \<Rightarrow> 's option"
  assumes used_bound: "inv s \<Longrightarrow> used s \<subseteq> {..<cap s}"
    and alloc_step: "inv s \<Longrightarrow> alloc s = Some (i, s') \<Longrightarrow>
      inv s' \<and> cap s' = cap s \<and> i < cap s \<and> i \<notin> used s \<and> used s' = insert i (used s)"
    and alloc_total: "inv s \<Longrightarrow> used s \<noteq> {..<cap s} \<Longrightarrow> alloc s \<noteq> None"
    and release_step: "inv s \<Longrightarrow> i < cap s \<Longrightarrow>
      \<exists>s'. release s i = Some s' \<and> inv s' \<and> cap s' = cap s \<and> used s' = used s - {i}"
begin

primrec alloc_many :: "nat \<Rightarrow> 's \<Rightarrow> (nat list \<times> 's) option" where
  "alloc_many 0 s = Some ([], s)"
| "alloc_many (Suc n) s =
     (case alloc s of None \<Rightarrow> None
      | Some (i, s1) \<Rightarrow>
          (case alloc_many n s1 of None \<Rightarrow> None | Some (is, s2) \<Rightarrow> Some (i # is, s2)))"

lemma finite_used: "inv s \<Longrightarrow> finite (used s)"
  using used_bound finite_subset by blast

lemma alloc_many_step:
  "inv s \<Longrightarrow> alloc_many n s = Some (is, s') \<Longrightarrow>
   inv s' \<and> cap s' = cap s \<and> length is = n \<and> distinct is \<and> set is \<inter> used s = {} \<and>
   set is \<subseteq> {..<cap s} \<and> used s' = used s \<union> set is"
proof (induction n arbitrary: s "is")
  case (Suc n)
  then obtain i s1 js where i: "alloc s = Some (i, s1)"
    and js: "alloc_many n s1 = Some (js, s')" and "is": "is = i # js"
    by (auto split: option.splits prod.splits)
  from alloc_step [OF Suc.prems(1) i] Suc.IH [OF _ js] show ?case
    unfolding "is" by auto
qed simp

lemma alloc_many_total:
  "inv s \<Longrightarrow> card (used s) + n \<le> cap s \<Longrightarrow> alloc_many n s \<noteq> None"
proof (induction n arbitrary: s)
  case (Suc n)
  have "used s \<noteq> {..<cap s}"
    using Suc.prems(2) by (metis card_lessThan add_Suc_right not_less_eq_eq order_refl trans_le_add1)
  then obtain i s1 where i: "alloc s = Some (i, s1)"
    using alloc_total [OF Suc.prems(1)] by auto
  from alloc_step [OF Suc.prems(1) i] finite_used [OF Suc.prems(1)] Suc.prems(2)
  have "inv s1" "card (used s1) + n \<le> cap s1"
    by auto
  then show ?case
    using i Suc.IH [of s1] by (auto split: option.splits)
qed simp

lemma alloc_release:
  assumes "inv s" and "alloc s = Some (i, s1)"
  obtains s2 where "release s1 i = Some s2" and "inv s2" and "cap s2 = cap s" and "used s2 = used s"
proof -
  from alloc_step [OF assms]
  have s1: "inv s1" "cap s1 = cap s" "i < cap s" "i \<notin> used s" "used s1 = insert i (used s)"
    by auto
  then obtain s2 where "release s1 i = Some s2" "inv s2" "cap s2 = cap s1" "used s2 = used s1 - {i}"
    using release_step [of s1 i] by auto
  then show thesis
    using that [of s2] s1 by simp
qed

end

text \<open>
  The way every client uses a bitmap: scan for one bit, then set it. \<open>scan_and_set\<close> is this pair of
  calls, and a bitmap with it and with \<^verbatim>\<open>bitmap_set(.., 0)\<close> is an index pool.
\<close>

definition scan_and_set :: "bitmap \<Rightarrow> (nat \<times> bitmap) option" where
  "scan_and_set b = do {
     i \<leftarrow> bitmap_scan b 1;
     b' \<leftarrow> bitmap_set b (nat i) 1;
     Some (nat i, b')
   }"

lemma bm_used_full: "(bm_used b = {..<bm_cap b}) = (\<forall>i<bm_cap b. bm_bit b i)"
  by (auto simp: bm_used_def)

lemma scan_and_set_eq:
  assumes "bm_wf b"
  shows "scan_and_set b = None \<and> bm_used b = {..<bm_cap b} \<or>
    (\<exists>j b'. scan_and_set b = Some (j, b') \<and> bitmap_scan b 1 = Some (int j) \<and>
       bitmap_set b j 1 = Some b' \<and> bm_wf b' \<and> bm_cap b' = bm_cap b \<and> j < bm_cap b \<and>
       j \<notin> bm_used b \<and> bm_used b' = insert j (bm_used b))"
proof (cases "\<forall>i<bm_cap b. bm_bit b i")
  case True
  then show ?thesis
    using bitmap_scan_full [OF assms] by (simp add: scan_and_set_def bm_used_full)
next
  case False
  then obtain j where j: "bitmap_scan b 1 = Some (int j)" "j < bm_cap b" "\<not> bm_bit b j"
    using bitmap_scan_one [OF assms] by blast
  obtain b' where b': "bitmap_set b j 1 = Some b'" "bm_wf b'" "bm_cap b' = bm_cap b"
      "bm_used b' = insert j (bm_used b)"
    using bitmap_set_used [OF assms j(2), of 1] by auto
  have "scan_and_set b = Some (j, b')"
    using j(1) b'(1) by (simp add: scan_and_set_def)
  moreover have "j \<notin> bm_used b"
    using j(3) by (simp add: bm_used_def)
  ultimately show ?thesis
    using j b' by blast
qed

interpretation bitmap_pool: index_pool bm_wf bm_used bm_cap scan_and_set "\<lambda>b i. bitmap_set b i 0"
proof unfold_locales
  show "bm_wf s \<Longrightarrow> bm_used s \<subseteq> {..<bm_cap s}" for s
    by (auto simp: bm_used_def)
  show "bm_wf s \<Longrightarrow> scan_and_set s = Some (i, s') \<Longrightarrow>
      bm_wf s' \<and> bm_cap s' = bm_cap s \<and> i < bm_cap s \<and> i \<notin> bm_used s \<and>
      bm_used s' = insert i (bm_used s)" for s i s'
    using scan_and_set_eq [of s] by auto
  show "bm_wf s \<Longrightarrow> bm_used s \<noteq> {..<bm_cap s} \<Longrightarrow> scan_and_set s \<noteq> None" for s
    using scan_and_set_eq [of s] by auto
  show "bm_wf s \<Longrightarrow> i < bm_cap s \<Longrightarrow>
      \<exists>s'. bitmap_set s i 0 = Some s' \<and> bm_wf s' \<and> bm_cap s' = bm_cap s \<and> bm_used s' = bm_used s - {i}"
    for s i
    using bitmap_set_used [of s i 0] by (metis zero_neq_one)
qed

section \<open>Properties\<close>

text \<open>
  A scan for one bit returns the least index whose bit is clear, whenever some bit is clear:
  every index below it is in use, and it is inside the bitmap.
\<close>

theorem bitmap_scan_least_free:
  assumes "bm_wf b" and "i < bm_cap b" and "\<not> bm_bit b i"
  shows "\<exists>j\<le>i. bitmap_scan b 1 = Some (int j) \<and> \<not> bm_bit b j \<and> (\<forall>m<j. bm_bit b m)"
  using bitmap_scan_one [OF assms(1-3)] assms(3) by (metis linorder_not_le)

theorem bitmap_scan_least_free_witness:
  "\<exists>j\<le>12. bitmap_scan \<lparr>btmp_bytes_len = 2, bits = [0xff, 0x07, 0]\<rparr> 1 = Some (int j) \<and>
     \<not> bm_bit \<lparr>btmp_bytes_len = 2, bits = [0xff, 0x07, 0]\<rparr> j \<and>
     (\<forall>m<j. bm_bit \<lparr>btmp_bytes_len = 2, bits = [0xff, 0x07, 0]\<rparr> m)"
  by (rule bitmap_scan_least_free) (simp_all add: bm_wf_def bm_cap_def bm_bit_def bit_numeral_rec)

text \<open>
  A bitmap used through scan and set is a pool of indices: asking for as many indices as are
  free succeeds, the indices are new and pairwise different, and exactly they become used.
\<close>

theorem bitmap_alloc_many:
  assumes "bm_wf b" and "card (bm_used b) + n \<le> bm_cap b"
  shows "\<exists>is b'. bitmap_pool.alloc_many n b = Some (is, b') \<and> length is = n \<and> distinct is \<and>
    set is \<inter> bm_used b = {} \<and> set is \<subseteq> {..<bm_cap b} \<and> bm_used b' = bm_used b \<union> set is"
  using bitmap_pool.alloc_many_total [OF assms] bitmap_pool.alloc_many_step [OF assms(1), of n] by fast

theorem bitmap_alloc_many_witness:
  "\<exists>is b'. bitmap_pool.alloc_many 3 \<lparr>btmp_bytes_len = 1, bits = [0]\<rparr> = Some (is, b') \<and> length is = 3 \<and>
     distinct is \<and> set is \<inter> bm_used \<lparr>btmp_bytes_len = 1, bits = [0]\<rparr> = {} \<and>
     set is \<subseteq> {..<bm_cap \<lparr>btmp_bytes_len = 1, bits = [0]\<rparr>} \<and>
     bm_used b' = bm_used \<lparr>btmp_bytes_len = 1, bits = [0]\<rparr> \<union> set is"
  by (rule bitmap_alloc_many) (simp_all add: bm_wf_def bm_cap_def bm_used_def bm_bit_def cong: conj_cong)

text \<open>
  A search for a run of bits can return a run that ends one bit past the bitmap: with 16 bits of
  which only the last is clear, and a clear bit in the byte that follows in memory, the search for
  two bits succeeds at index 15.
\<close>

theorem bitmap_scan_overrun:
  "bitmap_scan \<lparr>btmp_bytes_len = 2, bits = [0xff, 0x7f, 0]\<rparr> 2 = Some 15 \<and>
   bm_cap \<lparr>btmp_bytes_len = 2, bits = [0xff, 0x7f, 0]\<rparr> = 16"
  by code_simp

end
