(* ===== verification/Klist.thy ===== *)
theory Klist
  imports Forik_Prelude
begin

text \<open>
  The intrusive doubly linked lists of src/lib/list.c. The links of every \<^verbatim>\<open>struct list_elem\<close> in
  memory are two maps from addresses to addresses; a \<^verbatim>\<open>struct list\<close> at address \<open>l\<close> has its head node at
  \<open>l\<close> and its tail node at \<open>l + 8\<close>. The routines update the links exactly as the code does. The
  loops follow \<open>next\<close> pointers with no bound, so they are partial functions whose result \<open>None\<close>
  means that the loop never ends; on a well-formed list they are proved to return.

  \<^verbatim>\<open>list_insert_before\<close> and \<^verbatim>\<open>list_remove\<close> switch interrupts off and restore the saved status before
  they return, which leaves the interrupt status as it was.
\<close>

section \<open>Nodes and lists in memory\<close>

type_synonym addr = u32

definition NULL :: addr where
  "NULL = 0"

record links =
  lprev :: "addr \<Rightarrow> addr"
  lnext :: "addr \<Rightarrow> addr"

definition list_head :: "addr \<Rightarrow> addr" where
  "list_head l = l"

definition list_tail :: "addr \<Rightarrow> addr" where
  "list_tail l = l + 8"

lemma head_neq_tail [simp]: "list_head l \<noteq> list_tail l"
  by (simp add: list_head_def list_tail_def)

definition set_prev :: "addr \<Rightarrow> addr \<Rightarrow> links \<Rightarrow> links" where
  "set_prev e p h = h\<lparr>lprev := (lprev h)(e := p)\<rparr>"

definition set_next :: "addr \<Rightarrow> addr \<Rightarrow> links \<Rightarrow> links" where
  "set_next e p h = h\<lparr>lnext := (lnext h)(e := p)\<rparr>"

section \<open>The routines\<close>

definition list_init :: "addr \<Rightarrow> links \<Rightarrow> links" where
  "list_init l h =
     set_next (list_tail l) NULL (set_prev (list_tail l) (list_head l)
       (set_next (list_head l) (list_tail l) (set_prev (list_head l) NULL h)))"

definition list_insert_before :: "addr \<Rightarrow> addr \<Rightarrow> links \<Rightarrow> links" where
  "list_insert_before before elem h0 =
     (let h1 = set_next (lprev h0 before) elem h0;
          h2 = set_prev elem (lprev h1 before) h1;
          h3 = set_next elem before h2
      in set_prev before elem h3)"

definition list_push :: "addr \<Rightarrow> addr \<Rightarrow> links \<Rightarrow> links" where
  "list_push plist elem h = list_insert_before (lnext h (list_head plist)) elem h"

definition list_append :: "addr \<Rightarrow> addr \<Rightarrow> links \<Rightarrow> links" where
  "list_append plist elem h = list_insert_before (list_tail plist) elem h"

definition list_remove :: "addr \<Rightarrow> links \<Rightarrow> links" where
  "list_remove pelem h0 =
     (let h1 = set_next (lprev h0 pelem) (lnext h0 pelem) h0
      in set_prev (lnext h1 pelem) (lprev h1 pelem) h1)"

definition list_pop :: "addr \<Rightarrow> links \<Rightarrow> addr \<times> links" where
  "list_pop plist h = (let elem = lnext h (list_head plist) in (elem, list_remove elem h))"

partial_function (option) elem_find_loop :: "links \<Rightarrow> addr \<Rightarrow> addr \<Rightarrow> addr \<Rightarrow> bool option" where
  "elem_find_loop h tail elem obj_elem =
     (if elem \<noteq> tail then
        if elem = obj_elem then Some True else elem_find_loop h tail (lnext h elem) obj_elem
      else Some False)"

definition elem_find :: "addr \<Rightarrow> addr \<Rightarrow> links \<Rightarrow> bool option" where
  "elem_find plist obj_elem h =
     elem_find_loop h (list_tail plist) (lnext h (list_head plist)) obj_elem"

definition list_empty :: "addr \<Rightarrow> links \<Rightarrow> bool" where
  "list_empty plist h \<longleftrightarrow> lnext h (list_head plist) = list_tail plist"

text \<open>
  \<^verbatim>\<open>list_traversal\<close> calls back for every element until the callback returns true. The callback may
  change the state that holds the links (\<open>getl\<close> reads them), as \<^verbatim>\<open>init_adopt_a_child\<close> does.
\<close>

partial_function (option) traversal_loop ::
  "('s \<Rightarrow> links) \<Rightarrow> (addr \<Rightarrow> 's \<Rightarrow> bool \<times> 's) \<Rightarrow> addr \<Rightarrow> addr \<Rightarrow> 's \<Rightarrow> (addr \<times> 's) option" where
  "traversal_loop getl func tail elem s =
     (if elem \<noteq> tail then
        (let (stop, s') = func elem s
         in if stop then Some (elem, s') else traversal_loop getl func tail (lnext (getl s') elem) s')
      else Some (NULL, s))"

definition list_traversal ::
  "('s \<Rightarrow> links) \<Rightarrow> addr \<Rightarrow> (addr \<Rightarrow> 's \<Rightarrow> bool \<times> 's) \<Rightarrow> 's \<Rightarrow> (addr \<times> 's) option" where
  "list_traversal getl plist func s =
     (let elem = lnext (getl s) (list_head plist)
      in if list_empty plist (getl s) then Some (NULL, s)
         else traversal_loop getl func (list_tail plist) elem s)"

partial_function (option) list_len_loop :: "links \<Rightarrow> addr \<Rightarrow> addr \<Rightarrow> u32 \<Rightarrow> u32 option" where
  "list_len_loop h tail elem len =
     (if elem \<noteq> tail then list_len_loop h tail (lnext h elem) (len + 1) else Some len)"

definition list_len :: "addr \<Rightarrow> links \<Rightarrow> u32 option" where
  "list_len plist h = list_len_loop h (list_tail plist) (lnext h (list_head plist)) 0"

section \<open>Well-formed lists\<close>

text \<open>\<open>dlseg h p xs q\<close>: following \<open>next\<close> from \<open>p\<close> visits \<open>xs\<close> and then \<open>q\<close>, and \<open>prev\<close> goes back.\<close>

fun dlseg :: "links \<Rightarrow> addr \<Rightarrow> addr list \<Rightarrow> addr \<Rightarrow> bool" where
  "dlseg h p [] q \<longleftrightarrow> lnext h p = q \<and> lprev h q = p"
| "dlseg h p (x # xs) q \<longleftrightarrow> lnext h p = x \<and> lprev h x = p \<and> dlseg h x xs q"

definition list_rep :: "links \<Rightarrow> addr \<Rightarrow> addr list \<Rightarrow> bool" where
  "list_rep h l xs \<longleftrightarrow>
     dlseg h (list_head l) xs (list_tail l) \<and> distinct (list_head l # xs @ [list_tail l])"

definition list_nodes :: "addr \<Rightarrow> addr list \<Rightarrow> addr set" where
  "list_nodes l xs = insert (list_head l) (insert (list_tail l) (set xs))"

lemma links_upd [simp]:
  "lprev (set_prev e p h) = (lprev h)(e := p)" "lnext (set_prev e p h) = lnext h"
  "lnext (set_next e p h) = (lnext h)(e := p)" "lprev (set_next e p h) = lprev h"
  by (simp_all add: set_prev_def set_next_def)

lemma dlseg_append:
  "dlseg h p (xs @ x # ys) q = (dlseg h p xs x \<and> dlseg h x ys q)"
  by (induction xs arbitrary: p) auto

lemma dlseg_cong:
  "(\<And>e. e \<in> insert p (set xs) \<Longrightarrow> lnext h' e = lnext h e) \<Longrightarrow>
   (\<And>e. e \<in> insert q (set xs) \<Longrightarrow> lprev h' e = lprev h e) \<Longrightarrow>
   dlseg h' p xs q = dlseg h p xs q"
  by (induction xs arbitrary: p) auto

lemma dlseg_last_prev: "dlseg h p xs q \<Longrightarrow> lprev h q = last (p # xs)"
  by (induction xs arbitrary: p) auto

text \<open>A list is not disturbed by writes to other nodes.\<close>

lemma list_rep_frame:
  assumes "list_rep h l xs"
    and "\<And>e. e \<in> list_nodes l xs \<Longrightarrow> lnext h' e = lnext h e \<and> lprev h' e = lprev h e"
  shows "list_rep h' l xs"
  using assms dlseg_cong [of "list_head l" xs h' h "list_tail l"]
  by (auto simp: list_rep_def list_nodes_def)

lemma list_rep_first: "list_rep h l xs \<Longrightarrow> lnext h (list_head l) = hd (xs @ [list_tail l])"
  by (cases xs) (auto simp: list_rep_def)

lemma dlseg_unique: "dlseg h p xs q \<Longrightarrow> dlseg h p ys q \<Longrightarrow> q \<notin> set xs \<Longrightarrow> q \<notin> set ys \<Longrightarrow> xs = ys"
proof (induction xs arbitrary: p ys)
  case Nil
  then show ?case by (cases ys) auto
next
  case (Cons x xs)
  then show ?case by (cases ys) auto
qed

lemma list_rep_unique: "list_rep h l xs \<Longrightarrow> list_rep h l ys \<Longrightarrow> xs = ys"
  by (auto simp: list_rep_def intro: dlseg_unique)

section \<open>The routines on well-formed lists\<close>

lemma list_init_rep: "list_rep (list_init l h) l []"
  by (auto simp: list_rep_def list_init_def dest: sym)

lemma dlseg_insert_before:
  assumes "dlseg h p xs b" and "distinct (p # xs)" and "b \<notin> set (p # xs)" and "e \<notin> set (p # xs)" and "e \<noteq> b"
  shows "dlseg (list_insert_before b e h) p (xs @ [e]) b"
proof (cases xs rule: rev_cases)
  case Nil
  then show ?thesis
    using assms by (auto simp: list_insert_before_def Let_def)
next
  case (snoc ys y)
  have y: "lprev h b = y" and seg: "dlseg h p ys y"
    using assms(1) unfolding snoc by (auto simp: dlseg_append)
  have "dlseg (list_insert_before b e h) p ys y"
    using seg assms(2-5) unfolding snoc
    by (subst dlseg_cong [where h = h]) (auto simp: list_insert_before_def Let_def y)
  then show ?thesis
    using assms(2-5) unfolding snoc
    by (auto simp: dlseg_append list_insert_before_def Let_def y)
qed

lemma insert_before_frame:
  assumes "n \<noteq> e" and "n \<noteq> b" and "n \<noteq> lprev h b"
  shows "lnext (list_insert_before b e h) n = lnext h n \<and> lprev (list_insert_before b e h) n = lprev h n"
  using assms by (auto simp: list_insert_before_def Let_def)

lemma insert_before_rep:
  assumes "list_rep h l (xs @ ys)" and "e \<notin> list_nodes l (xs @ ys)" and "b = hd (ys @ [list_tail l])"
  shows "list_rep (list_insert_before b e h) l (xs @ e # ys)"
proof -
  from assms have d: "distinct (list_head l # (xs @ e # ys) @ [list_tail l])"
    by (auto simp: list_rep_def list_nodes_def)
  have b: "b \<notin> set (list_head l # xs)" "e \<noteq> b"
    using assms by (cases ys; auto simp: list_rep_def list_nodes_def)+
  have seg: "dlseg h (list_head l) xs b"
    using assms(1,3) by (cases ys) (auto simp: list_rep_def dlseg_append)
  have ins: "dlseg (list_insert_before b e h) (list_head l) (xs @ [e]) b"
    using d b by (intro dlseg_insert_before seg) auto
  have "dlseg (list_insert_before b e h) (list_head l) (xs @ e # ys) (list_tail l)"
  proof (cases ys)
    case Nil
    then show ?thesis
      using ins assms(3) by simp
  next
    case (Cons y zs)
    have rest: "dlseg h b zs (list_tail l)"
      using assms(1,3) Cons by (auto simp: list_rep_def dlseg_append)
    have "lprev h b \<in> set (list_head l # xs)"
      using dlseg_last_prev [OF seg] by (metis last_in_set list.discI)
    moreover have "set (list_head l # xs) \<inter> set (b # zs @ [list_tail l]) = {}" "b \<notin> set (zs @ [list_tail l])"
      using d assms(3) Cons by auto
    ultimately have "dlseg (list_insert_before b e h) b zs (list_tail l)"
      using rest d Cons assms(3)
      by (subst dlseg_cong [where h = h]) (auto simp: list_insert_before_def Let_def)
    then show ?thesis
      using ins assms(3) Cons by (simp add: dlseg_append)
  qed
  then show ?thesis
    using d by (simp add: list_rep_def)
qed

lemma list_append_rep:
  "list_rep h l xs \<Longrightarrow> e \<notin> list_nodes l xs \<Longrightarrow> list_rep (list_append l e h) l (xs @ [e])"
  using insert_before_rep [of h l xs "[]" e "list_tail l"] by (simp add: list_append_def)

lemma list_push_rep:
  "list_rep h l xs \<Longrightarrow> e \<notin> list_nodes l xs \<Longrightarrow> list_rep (list_push l e h) l (e # xs)"
  using insert_before_rep [of h l "[]" xs e] by (simp add: list_push_def list_rep_first)

lemma last_in_list_nodes: "dlseg h (list_head l) xs q \<Longrightarrow> lprev h q \<in> list_nodes l xs"
  using dlseg_last_prev [of h "list_head l" xs q] by (auto simp: list_nodes_def)

lemma list_append_frame:
  assumes "list_rep h l xs" and "n \<notin> insert e (list_nodes l xs)"
  shows "lnext (list_append l e h) n = lnext h n \<and> lprev (list_append l e h) n = lprev h n"
proof -
  have "lprev h (list_tail l) \<in> list_nodes l xs"
    using assms(1) by (intro last_in_list_nodes) (simp add: list_rep_def)
  then show ?thesis
    unfolding list_append_def using assms(2)
    by (intro insert_before_frame) (auto simp: list_nodes_def)
qed

lemma list_push_frame:
  assumes "list_rep h l xs" and "n \<notin> insert e (list_nodes l xs)"
  shows "lnext (list_push l e h) n = lnext h n \<and> lprev (list_push l e h) n = lprev h n"
proof -
  have "lnext h (list_head l) = hd (xs @ [list_tail l])" "lprev h (hd (xs @ [list_tail l])) = list_head l"
    using assms(1) by (cases xs; simp add: list_rep_def)+
  moreover have "hd (xs @ [list_tail l]) \<in> list_nodes l xs"
    by (cases xs) (auto simp: list_nodes_def)
  ultimately show ?thesis
    unfolding list_push_def using assms(2)
    by (intro insert_before_frame) (auto simp: list_nodes_def)
qed

lemma dlseg_remove:
  assumes "dlseg h p xs e" and "dlseg h e ys q" and "distinct (p # xs @ e # ys @ [q])"
  shows "dlseg (list_remove e h) p (xs @ ys) q"
proof -
  let ?h = "list_remove e h"
  have pe: "lprev h e = last (p # xs)" and en: "lnext h e = hd (ys @ [q])"
    using dlseg_last_prev [OF assms(1)] assms(2) by (auto, cases ys, auto)
  have upd: "lnext ?h = (lnext h)(last (p # xs) := hd (ys @ [q]))"
      "lprev ?h = (lprev h)(hd (ys @ [q]) := last (p # xs))"
    using pe en assms(3) by (auto simp: list_remove_def Let_def)
  have "last (p # xs) \<in> set (p # xs)"
    by (rule last_in_set) simp
  then have lst: "last (p # xs) \<notin> set (e # ys @ [q])"
    using assms(3) by auto
  have right: "dlseg ?h y zs q" if "ys = y # zs" for y zs
    using assms(2,3) that lst by (subst dlseg_cong [where h = h]) (auto simp: upd simp del: last.simps)
  have "hd (ys @ [q]) \<in> set (ys @ [q])"
    by (rule hd_in_set) simp
  then have hdn: "hd (ys @ [q]) \<notin> set (p # xs)"
    using assms(3) by auto
  have left: "dlseg ?h p ws w" if "xs = ws @ [w]" for ws w
    using assms(1,3) that hdn by (subst dlseg_cong [where h = h]) (auto simp: upd dlseg_append)
  have join: "dlseg ?h (last (p # xs)) ys q"
    using right by (cases ys) (auto simp: upd)
  show ?thesis
  proof (cases xs rule: rev_cases)
    case Nil
    then show ?thesis
      using join by simp
  next
    case (snoc ws w)
    then show ?thesis
      using join left by (simp add: dlseg_append)
  qed
qed

lemma list_remove_rep:
  assumes "list_rep h l (xs @ e # ys)"
  shows "list_rep (list_remove e h) l (xs @ ys)"
  using assms dlseg_remove [of h "list_head l" xs e ys "list_tail l"]
  by (auto simp: list_rep_def dlseg_append)

lemma list_remove_frame:
  assumes "list_rep h l (xs @ e # ys)" and "n \<notin> list_nodes l (xs @ e # ys)"
  shows "lnext (list_remove e h) n = lnext h n \<and> lprev (list_remove e h) n = lprev h n"
proof -
  have seg: "dlseg h (list_head l) xs e" "dlseg h e ys (list_tail l)"
    using assms(1) by (auto simp: list_rep_def dlseg_append)
  have "lprev h e \<in> insert (list_head l) (set xs)"
    using dlseg_last_prev [OF seg(1)] by auto
  moreover have "lnext h e \<in> insert (list_tail l) (set ys)"
    using seg(2) by (cases ys) auto
  ultimately have "n \<noteq> lprev h e" "n \<noteq> lnext h e"
    using assms(2) by (auto simp: list_nodes_def)
  moreover have "lprev h e \<noteq> e"
    using \<open>lprev h e \<in> _\<close> assms(1) by (auto simp: list_rep_def)
  ultimately show ?thesis
    by (simp add: list_remove_def Let_def)
qed

lemma list_pop_rep:
  assumes "list_rep h l (x # xs)"
  obtains h' where "list_pop l h = (x, h')" and "h' = list_remove x h" and "list_rep h' l xs"
  using assms list_remove_rep [of h l "[]" x xs]
  by (auto simp: list_pop_def Let_def list_rep_first)

lemma elem_find_loop_eq:
  "dlseg h p xs q \<Longrightarrow> q \<notin> set xs \<Longrightarrow>
   elem_find_loop h q (lnext h p) x = Some (x \<in> set xs)"
proof (induction xs arbitrary: p)
  case Nil
  then show ?case by (subst elem_find_loop.simps) simp
next
  case (Cons y ys)
  then show ?case by (subst elem_find_loop.simps) auto
qed

text \<open>\<^verbatim>\<open>elem_find\<close> returns on every well-formed list and decides membership.\<close>

lemma elem_find_rep: "list_rep h l xs \<Longrightarrow> elem_find l x h = Some (x \<in> set xs)"
  by (simp add: elem_find_def list_rep_def elem_find_loop_eq)

lemma list_empty_rep: "list_rep h l xs \<Longrightarrow> list_empty l h = (xs = [])"
  by (cases xs) (auto simp: list_empty_def list_rep_def)

lemma list_len_loop_eq:
  "dlseg h p xs q \<Longrightarrow> q \<notin> set xs \<Longrightarrow>
   list_len_loop h q (lnext h p) n = Some (n + of_nat (length xs))"
proof (induction xs arbitrary: p n)
  case Nil
  then show ?case by (subst list_len_loop.simps) simp
next
  case (Cons y ys)
  then show ?case by (subst list_len_loop.simps) (auto simp: algebra_simps)
qed

lemma list_len_rep: "list_rep h l xs \<Longrightarrow> list_len l h = Some (of_nat (length xs))"
  using list_len_loop_eq [of h "list_head l" xs "list_tail l" 0] by (simp add: list_len_def list_rep_def)

text \<open>
  \<^verbatim>\<open>list_traversal\<close> with a callback that leaves the links of the list alone: the callbacks run from the
  front, threading the state, up to the first that returns true.
\<close>

fun visit :: "(addr \<Rightarrow> 's \<Rightarrow> bool \<times> 's) \<Rightarrow> addr list \<Rightarrow> 's \<Rightarrow> addr \<times> 's" where
  "visit func [] s = (NULL, s)"
| "visit func (x # xs) s = (let (stop, s') = func x s in if stop then (x, s') else visit func xs s')"

lemma traversal_loop_eq:
  assumes "\<And>x t. getl (snd (func x t)) = getl t"
  shows "dlseg (getl s) p xs q \<Longrightarrow> q \<notin> set xs \<Longrightarrow>
    traversal_loop getl func q (lnext (getl s) p) s = Some (visit func xs s)"
proof (induction xs arbitrary: p s)
  case Nil
  then show ?case by (subst traversal_loop.simps) simp
next
  case (Cons y ys)
  obtain stop s' where f: "func y s = (stop, s')"
    by fastforce
  then have same: "getl s' = getl s"
    using assms [of y s] by simp
  moreover have "traversal_loop getl func q (lnext (getl s') y) s' = Some (visit func ys s')"
    using Cons.prems same by (intro Cons.IH) auto
  ultimately show ?case
    using Cons.prems f by (subst traversal_loop.simps) auto
qed

lemma list_traversal_rep:
  assumes "\<And>x t. getl (snd (func x t)) = getl t" and "list_rep (getl s) l xs"
  shows "list_traversal getl l func s = Some (visit func xs s)"
proof (cases xs)
  case Nil
  then show ?thesis
    using assms(2) by (simp add: list_traversal_def Let_def list_empty_rep)
next
  case (Cons y ys)
  then have "\<not> list_empty l (getl s)"
    using list_empty_rep [OF assms(2)] by simp
  moreover have "traversal_loop getl func (list_tail l) (lnext (getl s) (list_head l)) s
      = Some (visit func xs s)"
    using assms(2) by (intro traversal_loop_eq assms(1)) (auto simp: list_rep_def)
  ultimately show ?thesis
    by (simp add: list_traversal_def Let_def)
qed

lemma visit_pure:
  assumes "\<And>x t. func x t = (P x t, t)"
  shows "visit func xs s = (case find (\<lambda>x. P x s) xs of None \<Rightarrow> (NULL, s) | Some x \<Rightarrow> (x, s))"
  by (induction xs) (auto simp: assms)

section \<open>Queues\<close>

text \<open>
  The first-in first-out contract that the scheduler, the semaphores and the keyboard driver rely
  on. \<open>room s x\<close> says that \<open>x\<close> may be put into \<open>s\<close>: the element is not yet linked, or the buffer is
  not full.
\<close>

locale fifo =
  fixes inv :: "'s \<Rightarrow> bool" and contents :: "'s \<Rightarrow> 'a list" and room :: "'s \<Rightarrow> 'a \<Rightarrow> bool"
    and enq :: "'a \<Rightarrow> 's \<Rightarrow> 's" and deq :: "'s \<Rightarrow> 'a \<times> 's" and is_empty :: "'s \<Rightarrow> bool"
  assumes enq_step: "inv s \<Longrightarrow> room s x \<Longrightarrow> inv (enq x s) \<and> contents (enq x s) = contents s @ [x]"
    and deq_step: "inv s \<Longrightarrow> contents s = x # xs \<Longrightarrow>
      fst (deq s) = x \<and> inv (snd (deq s)) \<and> contents (snd (deq s)) = xs"
    and empty_iff: "inv s \<Longrightarrow> is_empty s = (contents s = [])"
begin

primrec deq_many :: "nat \<Rightarrow> 's \<Rightarrow> 'a list \<times> 's" where
  "deq_many 0 s = ([], s)"
| "deq_many (Suc n) s =
     (let (x, s1) = deq s; (xs, s2) = deq_many n s1 in (x # xs, s2))"

lemma deq_many_step:
  "inv s \<Longrightarrow> contents s = xs @ ys \<Longrightarrow> length xs = n \<Longrightarrow>
   fst (deq_many n s) = xs \<and> inv (snd (deq_many n s)) \<and> contents (snd (deq_many n s)) = ys"
proof (induction n arbitrary: s xs)
  case (Suc n)
  then obtain x zs where xs: "xs = x # zs"
    by (cases xs) auto
  have "fst (deq s) = x" "inv (snd (deq s))" "contents (snd (deq s)) = zs @ ys"
    using deq_step [OF Suc.prems(1), of x "zs @ ys"] Suc.prems(2) xs by auto
  then show ?case
    using Suc.IH [of "snd (deq s)" zs] Suc.prems(3) xs by (auto simp: Let_def split: prod.splits)
qed simp

text \<open>An element waits for exactly those that were queued before it.\<close>

lemma enq_then_deq:
  assumes "inv s" and "room s x"
  shows "fst (deq_many (Suc (length (contents s))) (enq x s)) = contents s @ [x]"
  using deq_many_step [of "enq x s" "contents s @ [x]" "[]" "Suc (length (contents s))"]
    enq_step [OF assms] by simp

end

definition list_of :: "addr \<Rightarrow> links \<Rightarrow> addr list" where
  "list_of l h = (THE xs. list_rep h l xs)"

lemma list_of_eq: "list_rep h l xs \<Longrightarrow> list_of l h = xs"
  by (auto simp: list_of_def intro: list_rep_unique)

definition list_ok :: "addr \<Rightarrow> links \<Rightarrow> bool" where
  "list_ok l h \<longleftrightarrow> (\<exists>xs. list_rep h l xs)"

interpretation klist: fifo "list_ok l" "list_of l"
  "\<lambda>h e. e \<notin> list_nodes l (list_of l h)" "list_append l" "list_pop l" "list_empty l" for l
proof unfold_locales
  show "list_ok l h \<Longrightarrow> e \<notin> list_nodes l (list_of l h) \<Longrightarrow>
      list_ok l (list_append l e h) \<and> list_of l (list_append l e h) = list_of l h @ [e]" for h e
    unfolding list_ok_def using list_append_rep list_of_eq by metis
  show "list_ok l h \<Longrightarrow> list_of l h = x # xs \<Longrightarrow>
      fst (list_pop l h) = x \<and> list_ok l (snd (list_pop l h)) \<and> list_of l (snd (list_pop l h)) = xs"
    for h x xs
    unfolding list_ok_def using list_of_eq list_pop_rep fst_conv snd_conv by metis
  show "list_ok l h \<Longrightarrow> list_empty l h = (list_of l h = [])" for h
    by (auto simp: list_ok_def list_of_eq list_empty_rep)
qed

section \<open>Properties\<close>


definition sample_list :: links where
  "sample_list = list_append 0x10 0x44 (list_append 0x10 0x40 (list_init 0x80 (list_init 0x10 \<lparr>lprev = (\<lambda>_. 0), lnext = (\<lambda>_. 0)\<rparr>)))"


end
