(* ===== verification/Paging.thy ===== *)
theory Paging
  imports Klist
begin

text \<open>
  The page tables of src/mm/memory.c. Physical memory is a map from physical addresses to 32-bit
  words, of which only the words of page directories and page tables matter here. \<open>mmu\<close> is the
  translation the processor does through \<^verbatim>\<open>cr3\<close>, without the TLB; an access through a missing entry is
  a page fault, \<open>None\<close>. The kernel reads and writes the tables through virtual addresses: the last
  entry of every page directory points to the directory itself, so \<^verbatim>\<open>pde_ptr\<close> and \<^verbatim>\<open>pte_ptr\<close> give the
  virtual addresses of the entries.
\<close>

section \<open>Translation\<close>

definition PDE_IDX :: "u32 \<Rightarrow> u32" where
  "PDE_IDX addr = drop_bit 22 (addr AND 0xffc00000)"

definition PTE_IDX :: "u32 \<Rightarrow> u32" where
  "PTE_IDX addr = drop_bit 12 (addr AND 0x003ff000)"

definition pte_ptr :: "u32 \<Rightarrow> u32" where
  "pte_ptr vaddr = 0xffc00000 + drop_bit 10 (vaddr AND 0xffc00000) + PTE_IDX vaddr * 4"

definition pde_ptr :: "u32 \<Rightarrow> u32" where
  "pde_ptr vaddr = 0xfffff000 + PDE_IDX vaddr * 4"

definition pde_addr :: "u32 \<Rightarrow> u32 \<Rightarrow> u32" where
  "pde_addr cr v = (cr AND 0xfffff000) + PDE_IDX v * 4"

definition pte_addr :: "(u32 \<Rightarrow> u32) \<Rightarrow> u32 \<Rightarrow> u32 \<Rightarrow> u32" where
  "pte_addr mem cr v = (mem (pde_addr cr v) AND 0xfffff000) + PTE_IDX v * 4"

definition mmu :: "(u32 \<Rightarrow> u32) \<Rightarrow> u32 \<Rightarrow> u32 \<Rightarrow> u32 option" where
  "mmu mem cr v =
     (if mem (pde_addr cr v) AND 1 = 0 then None
      else if mem (pte_addr mem cr v) AND 1 = 0 then None
      else Some ((mem (pte_addr mem cr v) AND 0xfffff000) + (v AND 0xfff)))"

text \<open>A 32-bit load and store at a virtual address.\<close>

definition vread :: "(u32 \<Rightarrow> u32) \<Rightarrow> u32 \<Rightarrow> u32 \<Rightarrow> u32 option" where
  "vread mem cr v = map_option mem (mmu mem cr v)"

definition vwrite :: "(u32 \<Rightarrow> u32) \<Rightarrow> u32 \<Rightarrow> u32 \<Rightarrow> u32 \<Rightarrow> (u32 \<Rightarrow> u32) option" where
  "vwrite mem cr v x = map_option (\<lambda>a. mem(a := x)) (mmu mem cr v)"

definition addr_v2p :: "(u32 \<Rightarrow> u32) \<Rightarrow> u32 \<Rightarrow> u32 \<Rightarrow> u32 option" where
  "addr_v2p mem cr vaddr = do {
     x \<leftarrow> vread mem cr (pte_ptr vaddr);
     Some ((x AND 0xfffff000) + (vaddr AND 0xfff))
   }"

definition PG_P_1 :: u32 where "PG_P_1 = 1"
definition PG_RW_W :: u32 where "PG_RW_W = 2"
definition PG_US_U :: u32 where "PG_US_U = 4"

text \<open>\<^verbatim>\<open>memset\<close> of the page of page table entries that holds the entry at virtual address \<open>pte\<close>.\<close>

definition vzero_page :: "(u32 \<Rightarrow> u32) \<Rightarrow> u32 \<Rightarrow> u32 \<Rightarrow> (u32 \<Rightarrow> u32) option" where
  "vzero_page mem cr pte =
     map_option (\<lambda>a. \<lambda>x. if x - a < 0x1000 then 0 else mem x) (mmu mem cr (pte AND 0xfffff000))"

section \<open>Frames and indices\<close>

definition frame :: "u32 \<Rightarrow> u32" where
  "frame x = x AND 0xfffff000"

definition page_off :: "u32 \<Rightarrow> u32" where
  "page_off x = x AND 0xfff"

lemma page_off_mod: "page_off x = x mod 4096"
proof -
  have "page_off x = take_bit 12 x"
    by (simp add: page_off_def take_bit_eq_mask mask_eq_exp_minus_1)
  then show ?thesis
    by (simp add: take_bit_eq_mod)
qed

lemma unat_page_off: "unat (page_off x) = unat x mod 4096"
  by (simp add: page_off_mod unat_mod)

lemma frame_plus_off: "frame x + page_off x = x"
proof -
  have "frame x + page_off x = frame x OR page_off x"
    by (rule disjunctive_add_eq_or) (simp add: frame_def page_off_def and.assoc and.left_commute)
  also have "\<dots> = x AND (0xfffff000 OR 0xfff)"
    by (simp only: frame_def page_off_def bit.conj_disj_distrib)
  also have "(0xfffff000 :: u32) OR 0xfff = - 1"
    by simp
  finally show ?thesis
    by simp
qed

lemma unat_frame: "unat (frame x) = unat x div 4096 * 4096"
proof -
  have "frame x = x - page_off x"
    using frame_plus_off [of x] by (metis add_diff_cancel_right')
  moreover have "page_off x \<le> x"
    by (simp add: word_le_nat_alt unat_page_off)
  ultimately have "unat (frame x) = unat x - unat x mod 4096"
    by (simp add: unat_sub unat_page_off)
  then show ?thesis
    by (simp add: minus_mod_eq_div_mult)
qed

lemma div_mod_parts: "r < m \<Longrightarrow> (q * m + r) div m = q" "r < m \<Longrightarrow> (q * m + r) mod m = r" for m :: nat
  by simp_all

lemma unat_frame_add: "unat d < 4096 \<Longrightarrow> unat (frame a + d) = unat a div 4096 * 4096 + unat d"
proof -
  assume d: "unat d < 4096"
  have "unat a < 1048576 * 4096"
    using unsigned_less [of a, where ?'a = nat] by simp
  then have "unat a div 4096 < 1048576"
    by (rule less_mult_imp_div_less)
  then show ?thesis
    using d by (simp add: unat_plus_if' unat_frame)
qed

lemma frame_add_eq_iff:
  assumes "unat o1 < 4096" and "unat o2 < 4096"
  shows "(frame a + o1 = frame b + o2) = (frame a = frame b \<and> o1 = o2)"
proof
  assume "frame a + o1 = frame b + o2"
  then have "unat a div 4096 * 4096 + unat o1 = unat b div 4096 * 4096 + unat o2"
    using unat_frame_add assms by metis
  then have "unat a div 4096 = unat b div 4096" "unat o1 = unat o2"
    using div_mod_parts assms by metis+
  then show "frame a = frame b \<and> o1 = o2"
    by (simp add: word_unat_eq_iff unat_frame)
qed simp

lemma frame_of_add: "unat d < 4096 \<Longrightarrow> frame (frame a + d) = frame a"
  by (simp add: word_unat_eq_iff unat_frame unat_frame_add)

lemma PDE_IDX_drop: "PDE_IDX v = drop_bit 22 v"
proof -
  have "(0xffc00000 :: u32) = push_bit 22 (mask 10)"
    by (simp add: mask_eq_exp_minus_1)
  then have "PDE_IDX v = drop_bit 22 (v AND push_bit 22 (mask 10))"
    by (simp only: PDE_IDX_def)
  also have "\<dots> = drop_bit 22 v"
    by (auto simp: bit_eq_iff bit_simps dest: bit_imp_le_length)
  finally show ?thesis .
qed

lemma PTE_IDX_drop: "PTE_IDX v = take_bit 10 (drop_bit 12 v)"
proof -
  have "(0x003ff000 :: u32) = push_bit 12 (mask 10)"
    by (simp add: mask_eq_exp_minus_1)
  then have "PTE_IDX v = drop_bit 12 (v AND push_bit 12 (mask 10))"
    by (simp only: PTE_IDX_def)
  also have "\<dots> = take_bit 10 (drop_bit 12 v)"
    by (auto simp: bit_eq_iff bit_simps)
  finally show ?thesis .
qed

lemma unat_PDE_IDX: "unat (PDE_IDX v) = unat v div 4096 div 1024"
  by (simp add: PDE_IDX_drop unat_drop_bit_eq flip: div_mult2_eq)
     (simp only: flip: unat_drop_bit_eq, simp add: drop_bit_eq_div unat_div)

lemma unat_PTE_IDX: "unat (PTE_IDX v) = unat v div 4096 mod 1024"
  by (simp add: PTE_IDX_drop take_bit_eq_mod unat_mod drop_bit_eq_div unat_div)

lemma PDE_IDX_less: "unat (PDE_IDX v) < 1024"
proof -
  have "unat v < 1024 * 1024 * 4096"
    using unsigned_less [of v, where ?'a = nat] by simp
  then show ?thesis
    unfolding unat_PDE_IDX by (intro less_mult_imp_div_less) simp
qed

lemma PTE_IDX_less: "unat (PTE_IDX v) < 1024"
  by (simp add: unat_PTE_IDX)

lemma unat_idx4: "unat i < 1024 \<Longrightarrow> unat (i * 4) = unat i * 4" for i :: u32
  using unat_mult_lem [of i 4] by simp

lemma idx4_less: "unat i < 1024 \<Longrightarrow> unat (i * 4) < 4096" for i :: u32
  by (simp add: unat_idx4)

lemma idx4_inj: "unat i < 1024 \<Longrightarrow> unat j < 1024 \<Longrightarrow> (i * 4 = j * 4) = (i = j)" for i j :: u32
  by (simp add: word_unat_eq_iff unat_idx4)

lemma same_page_iff: "(frame v = frame w) = (PDE_IDX v = PDE_IDX w \<and> PTE_IDX v = PTE_IDX w)"
proof -
  have "(x = y) = (x div 1024 = y div 1024 \<and> x mod 1024 = y mod 1024)" for x y :: nat
    by (metis div_mult_mod_eq)
  from this [of "unat v div 4096" "unat w div 4096"] show ?thesis
    by (simp add: word_unat_eq_iff unat_frame unat_PDE_IDX unat_PTE_IDX)
qed

section \<open>The self map\<close>

text \<open>The virtual addresses that \<^verbatim>\<open>pde_ptr\<close> and \<^verbatim>\<open>pte_ptr\<close> compute, taken apart.\<close>

lemma unat_pde_ptr: "unat (pde_ptr v) = 0xfffff * 4096 + unat (PDE_IDX v * 4)"
  using PDE_IDX_less [of v] by (simp add: pde_ptr_def unat_plus_if' unat_idx4)

lemma unat_pte_ptr: "unat (pte_ptr v) = (1023 * 1024 + unat (PDE_IDX v)) * 4096 + unat (PTE_IDX v * 4)"
proof -
  have "(0xffc00000 :: u32) = push_bit 22 (mask 10)"
    by (simp add: mask_eq_exp_minus_1)
  then have "drop_bit 10 (v AND 0xffc00000) = drop_bit 10 (v AND push_bit 22 (mask 10))"
    by simp
  also have "\<dots> = push_bit 12 (drop_bit 22 v)"
    by (auto simp: bit_eq_iff bit_simps dest: bit_imp_le_length)
  finally have "drop_bit 10 (v AND 0xffc00000) = PDE_IDX v * 4096"
    by (simp add: PDE_IDX_drop push_bit_eq_mult)
  moreover have "unat (PDE_IDX v * 4096) = unat (PDE_IDX v) * 4096"
    using PDE_IDX_less [of v] unat_mult_lem [of "PDE_IDX v" 4096] by simp
  ultimately show ?thesis
    using PDE_IDX_less [of v] PTE_IDX_less [of v]
    by (simp add: pte_ptr_def unat_plus_if' unat_idx4)
qed

lemma pde_ptr_parts:
  "PDE_IDX (pde_ptr v) = 0x3ff" "PTE_IDX (pde_ptr v) = 0x3ff" "page_off (pde_ptr v) = PDE_IDX v * 4"
  unfolding word_unat_eq_iff unat_PDE_IDX unat_PTE_IDX unat_page_off unat_pde_ptr
    div_mod_parts [OF idx4_less [OF PDE_IDX_less]] by simp_all

lemma pte_ptr_parts:
  "PDE_IDX (pte_ptr v) = 0x3ff" "PTE_IDX (pte_ptr v) = PDE_IDX v" "page_off (pte_ptr v) = PTE_IDX v * 4"
  unfolding word_unat_eq_iff unat_PDE_IDX [of "pte_ptr v"] unat_PTE_IDX [of "pte_ptr v"] unat_page_off unat_pte_ptr
    div_mod_parts [OF idx4_less [OF PTE_IDX_less]] div_mod_parts [OF PDE_IDX_less] by simp_all

text \<open>
  The page directory in the frame of \<open>cr\<close> is its own last page table, so the entry that translates
  a page is read and written at \<^verbatim>\<open>pde_ptr\<close> and \<^verbatim>\<open>pte_ptr\<close> of the page.
\<close>

definition self_map :: "(u32 \<Rightarrow> u32) \<Rightarrow> u32 \<Rightarrow> bool" where
  "self_map mem cr \<longleftrightarrow> mem (frame cr + 0xffc) AND 1 \<noteq> 0 \<and> frame (mem (frame cr + 0xffc)) = frame cr"

lemma mmu_alt:
  "mmu mem cr v =
     (if mem (frame cr + PDE_IDX v * 4) AND 1 = 0 then None
      else if mem (frame (mem (frame cr + PDE_IDX v * 4)) + PTE_IDX v * 4) AND 1 = 0 then None
      else Some (frame (mem (frame (mem (frame cr + PDE_IDX v * 4)) + PTE_IDX v * 4)) + page_off v))"
  by (simp add: mmu_def pde_addr_def pte_addr_def frame_def page_off_def)

lemma mmu_pde_ptr: "self_map mem cr \<Longrightarrow> mmu mem cr (pde_ptr v) = Some (pde_addr cr v)"
  by (simp add: mmu_alt pde_ptr_parts self_map_def pde_addr_def flip: frame_def)

lemma mmu_pte_ptr:
  "self_map mem cr \<Longrightarrow>
   mmu mem cr (pte_ptr v) = (if mem (pde_addr cr v) AND 1 = 0 then None else Some (pte_addr mem cr v))"
  by (simp add: mmu_alt pte_ptr_parts self_map_def pde_addr_def pte_addr_def flip: frame_def)

lemma addr_v2p_mmu: "self_map mem cr \<Longrightarrow> mmu mem cr v = Some p \<Longrightarrow> addr_v2p mem cr v = Some p"
  by (auto simp: addr_v2p_def vread_def mmu_pte_ptr mmu_def [of mem cr v] split: if_splits)

section \<open>Changing the tables\<close>

definition pde_of :: "(u32 \<Rightarrow> u32) \<Rightarrow> u32 \<Rightarrow> u32 \<Rightarrow> u32" where
  "pde_of mem cr i = mem (frame cr + i * 4)"

definition present :: "u32 \<Rightarrow> bool" where
  "present x \<longleftrightarrow> x AND 1 \<noteq> 0"

text \<open>
  The loader lets the entries 0 and 768 of the kernel's directory share a page table, so the first
  four megabytes appear twice; no other table is shared.
\<close>

definition aliased :: "u32 \<Rightarrow> u32 \<Rightarrow> bool" where
  "aliased i j \<longleftrightarrow> i = 0 \<and> j = 768 \<or> i = 768 \<and> j = 0"

definition tables_ok :: "(u32 \<Rightarrow> u32) \<Rightarrow> u32 \<Rightarrow> u32 set \<Rightarrow> bool" where
  "tables_ok mem cr F \<longleftrightarrow> self_map mem cr \<and> frame cr \<notin> F \<and>
     (\<forall>i<0x3ff. present (pde_of mem cr i) \<longrightarrow> frame (pde_of mem cr i) \<noteq> frame cr \<and> frame (pde_of mem cr i) \<notin> F) \<and>
     (\<forall>i<0x3ff. \<forall>j<0x3ff. present (pde_of mem cr i) \<and> present (pde_of mem cr j) \<and>
        frame (pde_of mem cr i) = frame (pde_of mem cr j) \<longrightarrow> i = j \<or> aliased i j)"

lemma mmu_parts:
  "mmu mem cr v =
     (if present (pde_of mem cr (PDE_IDX v)) \<and> present (mem (pte_addr mem cr v))
      then Some (frame (mem (pte_addr mem cr v)) + page_off v) else None)"
  by (simp add: mmu_def present_def pde_of_def pde_addr_def frame_def page_off_def)

lemma pte_addr_alt: "pte_addr mem cr v = frame (pde_of mem cr (PDE_IDX v)) + PTE_IDX v * 4"
  by (simp add: pte_addr_def pde_addr_def pde_of_def frame_def)

lemma entry_flags:
  assumes "frame q = q"
  shows "frame (q OR PG_US_U OR PG_RW_W OR PG_P_1) = q" and "present (q OR PG_US_U OR PG_RW_W OR PG_P_1)"
proof -
  have "frame (q OR PG_US_U OR PG_RW_W OR PG_P_1) = frame q"
    by (simp add: frame_def PG_US_U_def PG_RW_W_def PG_P_1_def bit.conj_disj_distrib2)
  then show "frame (q OR PG_US_U OR PG_RW_W OR PG_P_1) = q"
    using assms by simp
  have "bit (q OR PG_US_U OR PG_RW_W OR PG_P_1) 0"
    by (simp add: PG_P_1_def bit_simps)
  then show "present (q OR PG_US_U OR PG_RW_W OR PG_P_1)"
    by (simp add: present_def and_one_eq odd_iff_mod_2_eq_one bit_0)
qed

lemma in_frame: "frame a = a \<Longrightarrow> (x - a < 0x1000) = (frame x = a)"
proof
  assume a: "frame a = a" and "x - a < 0x1000"
  then have "unat (x - a) < 4096"
    by (simp add: word_less_nat_alt)
  then have "frame (frame a + (x - a)) = frame a"
    by (rule frame_of_add)
  then show "frame x = a"
    using a by simp
next
  assume "frame x = a"
  then have "x - a = page_off x"
    using frame_plus_off [of x] by (metis add_diff_cancel_left')
  then show "x - a < 0x1000"
    by (simp add: word_less_nat_alt unat_page_off)
qed

lemma pde_slot: "(frame a + PTE_IDX v * 4 = frame b + i * 4) = (frame a = frame b \<and> PTE_IDX v = i)" if "i \<le> 0x3ff"
proof -
  have i: "unat i < 1024"
    using that by (simp add: word_le_nat_alt)
  show ?thesis
    using frame_add_eq_iff [OF idx4_less [OF PTE_IDX_less [of v]] idx4_less [OF i]] idx4_inj [OF PTE_IDX_less [of v] i]
    by simp
qed

lemma tables_okD:
  assumes "tables_ok mem cr F"
  shows "self_map mem cr" "frame cr \<notin> F"
    "i < 0x3ff \<Longrightarrow> present (pde_of mem cr i) \<Longrightarrow> frame (pde_of mem cr i) \<noteq> frame cr \<and> frame (pde_of mem cr i) \<notin> F"
    "i < 0x3ff \<Longrightarrow> j < 0x3ff \<Longrightarrow> present (pde_of mem cr i) \<Longrightarrow> present (pde_of mem cr j) \<Longrightarrow>
       frame (pde_of mem cr i) = frame (pde_of mem cr j) \<Longrightarrow> i = j \<or> aliased i j"
  using assms unfolding tables_ok_def by blast+

lemma tables_ok_cong:
  assumes "\<And>i. i \<le> 0x3ff \<Longrightarrow> pde_of m' cr i = pde_of m cr i"
  shows "tables_ok m' cr F = tables_ok m cr F"
proof -
  have "m' (frame cr + 0xffc) = m (frame cr + 0xffc)"
    using assms [of "0x3ff"] by (simp add: pde_of_def)
  then have "self_map m' cr = self_map m cr"
    by (simp add: self_map_def)
  then show ?thesis
    using assms unfolding tables_ok_def by (simp add: less_imp_le)
qed

lemma idx_le: "PDE_IDX v \<le> 0x3ff" "PTE_IDX v \<le> 0x3ff"
  using PDE_IDX_less [of v] PTE_IDX_less [of v] by (simp_all add: word_le_nat_alt)

lemma idx_lt: "PDE_IDX v \<noteq> 0x3ff \<Longrightarrow> PDE_IDX v < 0x3ff"
  using idx_le(1) [of v] by simp

text \<open>Writing the entry of a page whose table is there.\<close>

lemma set_pte:
  assumes mem'_def: "mem' = mem(pte_addr mem cr v := x)"
    and ok: "tables_ok mem cr F" and v: "PDE_IDX v \<noteq> 0x3ff" "present (pde_of mem cr (PDE_IDX v))"
  shows "i \<le> 0x3ff \<Longrightarrow> pde_of mem' cr i = pde_of mem cr i" and "tables_ok mem' cr F"
    and "PDE_IDX w \<noteq> 0x3ff \<Longrightarrow> \<not> aliased (PDE_IDX v) (PDE_IDX w) \<Longrightarrow>
      mmu mem' cr w = (if frame w = frame v then if present x then Some (frame x + page_off w) else None else mmu mem cr w)"
proof -
  note F = tables_okD(3) [OF ok idx_lt [OF v(1)] v(2)]
  have pde: "pde_of mem' cr i = pde_of mem cr i" if "i \<le> 0x3ff" for i
    using F pde_slot [OF that, where a = "pde_of mem cr (PDE_IDX v)" and v = v and b = cr]
    by (auto simp: pde_of_def mem'_def pte_addr_alt)
  then show "i \<le> 0x3ff \<Longrightarrow> pde_of mem' cr i = pde_of mem cr i" .
  have pde': "pde_of mem' cr i = pde_of mem cr i" if "i < 0x3ff" for i
    using that by (simp add: pde)
  have "self_map mem' cr"
    using tables_okD(1) [OF ok] pde [of "0x3ff"] by (simp add: self_map_def pde_of_def)
  then show "tables_ok mem' cr F"
    using ok by (simp add: tables_ok_def pde')
  show "mmu mem' cr w = (if frame w = frame v then if present x then Some (frame x + page_off w) else None else mmu mem cr w)"
    if w: "PDE_IDX w \<noteq> 0x3ff" "\<not> aliased (PDE_IDX v) (PDE_IDX w)"
  proof (cases "present (pde_of mem cr (PDE_IDX w))")
    case True
    have pw: "pde_of mem' cr (PDE_IDX w) = pde_of mem cr (PDE_IDX w)"
      by (rule pde [OF idx_le(1)])
    have "(pte_addr mem cr w = pte_addr mem cr v) =
        (frame (pde_of mem cr (PDE_IDX w)) = frame (pde_of mem cr (PDE_IDX v)) \<and> PTE_IDX w = PTE_IDX v)"
      unfolding pte_addr_alt by (rule pde_slot [OF idx_le(2)])
    also have "\<dots> = (frame w = frame v)"
      using tables_okD(4) [OF ok idx_lt [OF v(1)] idx_lt [OF w(1)] v(2) True] w(2)
      by (auto simp: same_page_iff)
    finally have slot: "(pte_addr mem cr w = pte_addr mem cr v) = (frame w = frame v)" .
    have "pte_addr mem' cr w = pte_addr mem cr w"
      by (simp add: pte_addr_alt pw)
    moreover have "mem' (pte_addr mem cr w) = (if frame w = frame v then x else mem (pte_addr mem cr w))"
      by (simp add: mem'_def slot)
    ultimately show ?thesis
      using True by (simp add: mmu_parts pw)
  next
    case False
    then have "frame w \<noteq> frame v"
      using v(2) by (auto simp: same_page_iff)
    then show ?thesis
      using False pde [OF idx_le(1)] by (simp add: mmu_parts)
  qed
qed


text \<open>A new page table in the frame \<open>q\<close> for a page whose directory entry is not present.\<close>

lemma add_table:
  assumes ok: "tables_ok mem cr F" and v: "PDE_IDX v \<noteq> 0x3ff" "\<not> present (pde_of mem cr (PDE_IDX v))"
    and q: "q \<in> F" "frame q = q" and x: "present x" "frame x = q"
    and mem1: "mem1 = mem(pde_addr cr v := x)"
    and mem2: "mem2 = (\<lambda>a. if frame a = q then 0 else mem1 a)"
  shows "i \<le> 0x3ff \<Longrightarrow> pde_of mem1 cr i = (if i = PDE_IDX v then x else pde_of mem cr i)"
    and "i \<le> 0x3ff \<Longrightarrow> pde_of mem2 cr i = (if i = PDE_IDX v then x else pde_of mem cr i)"
    and "self_map mem1 cr"
    and "tables_ok mem2 cr (F - {q})"
    and "mem2 (pte_addr mem2 cr v) = 0"
    and "PDE_IDX w \<noteq> 0x3ff \<Longrightarrow> mmu mem2 cr w = mmu mem cr w"
proof -
  have cr: "frame cr \<noteq> q"
    using tables_okD(2) [OF ok] q(1) by auto
  have pde1: "pde_of mem1 cr i = (if i = PDE_IDX v then x else pde_of mem cr i)" if "i \<le> 0x3ff" for i
  proof -
    have i: "unat i < 1024"
      using that by (simp add: word_le_nat_alt)
    show ?thesis
      using idx4_inj [OF i PDE_IDX_less [of v]]
      by (simp add: pde_of_def mem1 pde_addr_def flip: frame_def)
  qed
  then show "i \<le> 0x3ff \<Longrightarrow> pde_of mem1 cr i = (if i = PDE_IDX v then x else pde_of mem cr i)" .
  have pde2: "pde_of mem2 cr i = (if i = PDE_IDX v then x else pde_of mem cr i)" if "i \<le> 0x3ff" for i
  proof -
    have "unat (i * 4) < 4096"
      using that by (intro idx4_less) (simp add: word_le_nat_alt)
    then have "frame (frame cr + i * 4) \<noteq> q"
      using cr by (simp add: frame_of_add)
    then show ?thesis
      using pde1 [OF that] by (simp add: pde_of_def mem2)
  qed
  then show "i \<le> 0x3ff \<Longrightarrow> pde_of mem2 cr i = (if i = PDE_IDX v then x else pde_of mem cr i)" .
  show "self_map mem1 cr"
    using tables_okD(1) [OF ok] pde1 [of "0x3ff"] v(1) by (auto simp: self_map_def pde_of_def)
  have sm: "self_map mem2 cr"
    using tables_okD(1) [OF ok] pde2 [of "0x3ff"] v(1) by (auto simp: self_map_def pde_of_def)
  have pde3: "pde_of mem2 cr i = (if i = PDE_IDX v then x else pde_of mem cr i)" if "i < 0x3ff" for i
    using that by (simp add: pde2)
  have ne: "frame (pde_of mem cr i) \<noteq> q" if "i < 0x3ff" "present (pde_of mem cr i)" for i
    using tables_okD(3) [OF ok that] q(1) by auto
  show "tables_ok mem2 cr (F - {q})"
    unfolding tables_ok_def
    using sm cr x q(1) tables_okD(2) [OF ok] tables_okD(3) [OF ok] tables_okD(4) [OF ok]
    by (auto simp: pde3 dest: ne)
  have off: "frame (frame a + PTE_IDX w * 4) = frame a" for a w
    by (rule frame_of_add [OF idx4_less [OF PTE_IDX_less]])
  have zero: "mem2 (pte_addr mem2 cr w) = 0" if "PDE_IDX w = PDE_IDX v" for w
  proof -
    have "frame (pte_addr mem2 cr w) = q"
      using pde2 [OF idx_le(1), of w] that x(2) off [of x w] by (simp add: pte_addr_alt)
    then show ?thesis
      by (simp add: mem2)
  qed
  then show "mem2 (pte_addr mem2 cr v) = 0"
    by simp
  show "mmu mem2 cr w = mmu mem cr w" if w: "PDE_IDX w \<noteq> 0x3ff"
  proof (cases "PDE_IDX w = PDE_IDX v")
    case True
    then show ?thesis
      using zero [OF True] v(2) by (simp add: mmu_parts present_def)
  next
    case False
    have pa: "pde_of mem2 cr (PDE_IDX w) = pde_of mem cr (PDE_IDX w)" "pte_addr mem2 cr w = pte_addr mem cr w"
      using pde2 [OF idx_le(1), of w] False by (simp_all add: pte_addr_alt)
    show ?thesis
    proof (cases "present (pde_of mem cr (PDE_IDX w))")
      case True
      note F = tables_okD(3) [OF ok idx_lt [OF w] True]
      have "pte_addr mem cr w \<noteq> pde_addr cr v"
        using F pde_slot [OF idx_le(1) [of v], where v = w and a = "pde_of mem cr (PDE_IDX w)" and b = cr]
        by (simp add: pte_addr_alt pde_addr_def flip: frame_def)
      then have "mem2 (pte_addr mem cr w) = mem (pte_addr mem cr w)"
        using F q(1) by (auto simp: mem2 mem1 pte_addr_alt off)
      then show ?thesis
        by (simp add: mmu_parts pa)
    qed (simp add: mmu_parts pa)
  qed
qed

end
