(* ===== verification/Thread.thy ===== *)
theory Thread
  imports Bitmap Paging
begin

text \<open>
  The scheduler of src/thread/thread.c with the interrupt status of src/kernel/interrupt.c, the
  context switch of src/thread/switch.asm and the address space switch of src/user/process.c. An
  address space is given by \<open>cr3\<close> and the page tables in \<open>phys\<close>.

  The kernel state \<open>kstate\<close> has the globals the scheduler touches. A \<^verbatim>\<open>struct task_struct\<close> lives at
  the address of its page: \<open>tasks\<close> maps that address to its fields, and its two list tags are nodes
  of \<open>lnks\<close> at their offsets in the structure. \<open>cur\<close> is what \<^verbatim>\<open>running_thread()\<close> computes from the
  stack pointer.

  Control transfer. \<^verbatim>\<open>switch_to\<close> leaves the caller suspended inside \<^verbatim>\<open>schedule\<close> and lets the next
  thread go on where it was suspended. All that the suspended caller still does in these routines is
  to restore an interrupt status (\<^verbatim>\<open>intr_set_status(old_status)\<close> in \<^verbatim>\<open>thread_block\<close> and \<^verbatim>\<open>thread_yield\<close>,
  the \<^verbatim>\<open>iret\<close> of an interrupt, \<^verbatim>\<open>intr_enable\<close> in \<^verbatim>\<open>kernel_thread\<close>). \<open>resume t\<close> is the status thread \<open>t\<close>
  will restore, \<open>schedule\<close> takes the one of its caller as its first argument, and \<open>switch_to\<close> applies
  the one of the thread it switches to. So a routine that blocks returns the state in which the
  processor runs the next thread.
\<close>

section \<open>Interrupt status\<close>

datatype intr_status = INTR_OFF | INTR_ON

section \<open>Tasks\<close>

datatype task_status =
    TASK_RUNNING | TASK_READY | TASK_BLOCKED | TASK_WAITING | TASK_HANGING | TASK_DIED

definition TASK_NAME_LEN :: nat where
  "TASK_NAME_LEN = 16"

definition MAX_FILES_OPEN_PER_PROC :: nat where
  "MAX_FILES_OPEN_PER_PROC = 8"

definition PG_SIZE :: u32 where
  "PG_SIZE = 4096"

record virtual_addr =
  vaddr_bitmap :: bitmap
  vaddr_start :: u32

record mem_block_desc =
  block_size :: u32
  blocks_per_arena :: u32
  free_list :: addr

record task_struct =
  self_kstack :: u32
  pid :: int
  status :: task_status
  name :: "u8 list"
  priority :: u8
  ticks :: u8
  elapsed_ticks :: u32
  pgdir :: addr
  user_vaddr :: virtual_addr
  u_block_desc :: "mem_block_desc list"
  fd_table :: "int list"
  cwd_inode_nr :: u32
  parent_pid :: int
  exit_status :: int
  stack_magic :: u32

record pid_pool =
  pid_bitmap :: bitmap
  pid_start :: int
  pid_lock :: addr

text \<open>Byte offsets of \<^verbatim>\<open>general_tag\<close> and \<^verbatim>\<open>all_list_tag\<close> in \<^verbatim>\<open>struct task_struct\<close>.\<close>

definition general_tag :: "addr \<Rightarrow> addr" where
  "general_tag t = t + 36"

definition all_list_tag :: "addr \<Rightarrow> addr" where
  "all_list_tag t = t + 44"

definition general_tag_entry :: "addr \<Rightarrow> addr" where
  "general_tag_entry tag = tag - 36"

definition all_list_tag_entry :: "addr \<Rightarrow> addr" where
  "all_list_tag_entry tag = tag - 44"

lemma tag_entry [simp]:
  "general_tag_entry (general_tag t) = t" "all_list_tag_entry (all_list_tag t) = t"
  by (simp_all add: general_tag_def general_tag_entry_def all_list_tag_def all_list_tag_entry_def)

lemma tag_inj [simp]:
  "(general_tag t = general_tag t') = (t = t')" "(all_list_tag t = all_list_tag t') = (t = t')"
  by (simp_all add: general_tag_def all_list_tag_def)

record kstate =
  intr :: intr_status
  cur :: addr
  tasks :: "addr \<Rightarrow> task_struct"
  lnks :: links
  thread_ready_list :: addr
  thread_all_list :: addr
  idle_thread :: addr
  main_thread :: addr
  resume :: "addr \<Rightarrow> intr_status"
  sema_value :: "addr \<Rightarrow> u8"
  lock_holder :: "addr \<Rightarrow> addr"
  lock_repeat_nr :: "addr \<Rightarrow> u32"
  the_pid_pool :: pid_pool
  phys :: "u32 \<Rightarrow> u32"
  cr3 :: u32
  tss_esp0 :: u32
  timer_ticks :: u32

definition upd_task :: "addr \<Rightarrow> (task_struct \<Rightarrow> task_struct) \<Rightarrow> 'a kstate_scheme \<Rightarrow> 'a kstate_scheme" where
  "upd_task t f s = s\<lparr>tasks := (tasks s)(t := f (tasks s t))\<rparr>"

definition running_thread :: "'a kstate_scheme \<Rightarrow> addr" where
  "running_thread s = cur s"

section \<open>Interrupt control\<close>

definition intr_get_status :: "'a kstate_scheme \<Rightarrow> intr_status" where
  "intr_get_status s = intr s"

definition intr_enable :: "'a kstate_scheme \<Rightarrow> intr_status \<times> 'a kstate_scheme" where
  "intr_enable s = (if intr_get_status s = INTR_ON then (INTR_ON, s) else (INTR_OFF, s\<lparr>intr := INTR_ON\<rparr>))"

definition intr_disable :: "'a kstate_scheme \<Rightarrow> intr_status \<times> 'a kstate_scheme" where
  "intr_disable s = (if intr_get_status s = INTR_ON then (INTR_ON, s\<lparr>intr := INTR_OFF\<rparr>) else (INTR_OFF, s))"

definition intr_set_status :: "intr_status \<Rightarrow> 'a kstate_scheme \<Rightarrow> intr_status \<times> 'a kstate_scheme" where
  "intr_set_status st s = (if st = INTR_ON then intr_enable s else intr_disable s)"

lemma intr_disable_eq [simp]: "intr_disable s = (intr s, s\<lparr>intr := INTR_OFF\<rparr>)"
  by (cases "intr s") (simp_all add: intr_disable_def intr_get_status_def)

lemma intr_set_status_eq [simp]: "snd (intr_set_status st s) = s\<lparr>intr := st\<rparr>"
  by (cases st; cases "intr s")
     (simp_all add: intr_set_status_def intr_enable_def intr_get_status_def)

section \<open>Address space and context switch\<close>

definition page_dir_activate :: "addr \<Rightarrow> 'a kstate_scheme \<Rightarrow> 'a kstate_scheme option" where
  "page_dir_activate p_thread s = do {
     pagedir_phy_addr \<leftarrow> (if pgdir (tasks s p_thread) \<noteq> NULL
        then addr_v2p (phys s) (cr3 s) (pgdir (tasks s p_thread)) else Some 0x100000);
     Some (s\<lparr>cr3 := pagedir_phy_addr\<rparr>)
   }"

definition update_tss_esp :: "addr \<Rightarrow> 'a kstate_scheme \<Rightarrow> 'a kstate_scheme" where
  "update_tss_esp pthread s = s\<lparr>tss_esp0 := pthread + PG_SIZE\<rparr>"

definition process_activate :: "addr \<Rightarrow> 'a kstate_scheme \<Rightarrow> 'a kstate_scheme option" where
  "process_activate p_thread s = do {
     ASSERT (p_thread \<noteq> NULL);
     s1 \<leftarrow> page_dir_activate p_thread s;
     Some (if pgdir (tasks s1 p_thread) \<noteq> NULL then update_tss_esp p_thread s1 else s1)
   }"

definition switch_to :: "intr_status \<Rightarrow> addr \<Rightarrow> addr \<Rightarrow> 'a kstate_scheme \<Rightarrow> 'a kstate_scheme" where
  "switch_to ret c n s =
     (let s1 = s\<lparr>resume := (resume s)(c := ret), cur := n\<rparr> in s1\<lparr>intr := resume s1 n\<rparr>)"

section \<open>Scheduling\<close>

definition thread_unblock :: "addr \<Rightarrow> 'a kstate_scheme \<Rightarrow> 'a kstate_scheme option" where
  "thread_unblock pthread s0 = do {
     let (old_status, s) = intr_disable s0;
     let st = status (tasks s pthread);
     ASSERT (st = TASK_BLOCKED \<or> st = TASK_WAITING \<or> st = TASK_HANGING);
     s1 \<leftarrow> (if st \<noteq> TASK_READY then do {
        found \<leftarrow> elem_find (thread_ready_list s) (general_tag pthread) (lnks s);
        ASSERT (\<not> found);
        found' \<leftarrow> elem_find (thread_ready_list s) (general_tag pthread) (lnks s);
        ASSERT (\<not> found');
        let s' = s\<lparr>lnks := list_push (thread_ready_list s) (general_tag pthread) (lnks s)\<rparr>;
        Some (upd_task pthread (status_update (\<lambda>_. TASK_READY)) s')
      } else Some s);
     Some (snd (intr_set_status old_status s1))
   }"

definition schedule :: "intr_status \<Rightarrow> 'a kstate_scheme \<Rightarrow> 'a kstate_scheme option" where
  "schedule ret s = do {
     ASSERT (intr_get_status s = INTR_OFF);
     let c = running_thread s;
     s1 \<leftarrow> (if status (tasks s c) = TASK_RUNNING then do {
        found \<leftarrow> elem_find (thread_ready_list s) (general_tag c) (lnks s);
        ASSERT (\<not> found);
        let s' = s\<lparr>lnks := list_append (thread_ready_list s) (general_tag c) (lnks s)\<rparr>;
        Some (upd_task c (\<lambda>t. t\<lparr>ticks := priority t, status := TASK_READY\<rparr>) s')
      } else Some s);
     s2 \<leftarrow> (if list_empty (thread_ready_list s1) (lnks s1) then thread_unblock (idle_thread s1) s1
            else Some s1);
     ASSERT (\<not> list_empty (thread_ready_list s2) (lnks s2));
     let (thread_tag, l) = list_pop (thread_ready_list s2) (lnks s2);
     let nxt = general_tag_entry thread_tag;
     let s3 = upd_task nxt (status_update (\<lambda>_. TASK_RUNNING)) (s2\<lparr>lnks := l\<rparr>);
     s4 \<leftarrow> process_activate nxt s3;
     Some (switch_to ret c nxt s4)
   }"

definition thread_block :: "task_status \<Rightarrow> 'a kstate_scheme \<Rightarrow> 'a kstate_scheme option" where
  "thread_block stat s = do {
     ASSERT (stat = TASK_BLOCKED \<or> stat = TASK_WAITING \<or> stat = TASK_HANGING);
     let (old_status, s1) = intr_disable s;
     let s2 = upd_task (running_thread s1) (status_update (\<lambda>_. stat)) s1;
     schedule old_status s2
   }"

definition thread_yield :: "'a kstate_scheme \<Rightarrow> 'a kstate_scheme option" where
  "thread_yield s = do {
     let c = running_thread s;
     let (old_status, s1) = intr_disable s;
     found \<leftarrow> elem_find (thread_ready_list s1) (general_tag c) (lnks s1);
     ASSERT (\<not> found);
     let s2 = s1\<lparr>lnks := list_append (thread_ready_list s1) (general_tag c) (lnks s1)\<rparr>;
     let s3 = upd_task c (status_update (\<lambda>_. TASK_READY)) s2;
     schedule old_status s3
   }"

text \<open>The clock interrupt handler of src/device/timer.c, entered with interrupts off.\<close>

definition intr_timer_handler :: "'a kstate_scheme \<Rightarrow> 'a kstate_scheme option" where
  "intr_timer_handler s = do {
     let c = running_thread s;
     ASSERT (stack_magic (tasks s c) = 0x19870916);
     let s1 = upd_task c (\<lambda>t. t\<lparr>elapsed_ticks := elapsed_ticks t + 1\<rparr>) s;
     let s2 = s1\<lparr>timer_ticks := timer_ticks s1 + 1\<rparr>;
     if ticks (tasks s2 c) = 0 then schedule INTR_ON s2
     else Some (upd_task c (\<lambda>t. t\<lparr>ticks := ticks t - 1\<rparr>) s2)
   }"

text \<open>
  A clock interrupt as a whole: the processor clears IF on entry, the handler runs, and the \<^verbatim>\<open>iret\<close>
  of the thread that then has the processor sets IF again when the handler did not switch.
\<close>

definition clock_tick :: "'a kstate_scheme \<Rightarrow> 'a kstate_scheme option" where
  "clock_tick s = (if intr s = INTR_ON then do {
       s1 \<leftarrow> intr_timer_handler (s\<lparr>intr := INTR_OFF\<rparr>);
       Some (if ticks (tasks s (cur s)) = 0 then s1 else s1\<lparr>intr := INTR_ON\<rparr>)
     } else Some s)"

end
