(* ===== verification/Sched_Inv.thy ===== *)
theory Sched_Inv
  imports Thread
begin

text \<open>
  The invariant of the scheduler and its preservation by every scheduling routine.

  \<open>Q\<close> is the set of the queues that link tasks through their \<^verbatim>\<open>general_tag\<close> (the ready list and the
  wait lists of the semaphores), \<open>W q\<close> the tasks on queue \<open>q\<close>, front first, and \<open>as\<close> the tasks of
  \<^verbatim>\<open>thread_all_list\<close>. \<open>lists_ok\<close> says that memory holds exactly these lists, \<open>sched_ok\<close> adds how they
  agree with the status of every task.
\<close>

section \<open>The lists of tasks\<close>

definition layout_ok :: "addr set \<Rightarrow> addr list \<Rightarrow> bool" where
  "layout_ok Ls as \<longleftrightarrow>
     (\<forall>l\<in>Ls. \<forall>l'\<in>Ls. l \<noteq> l' \<longrightarrow> {list_head l, list_tail l} \<inter> {list_head l', list_tail l'} = {}) \<and>
     (\<forall>l\<in>Ls. \<forall>t\<in>set as. {list_head l, list_tail l} \<inter> {general_tag t, all_list_tag t} = {}) \<and>
     (\<forall>t\<in>set as. \<forall>t'\<in>set as. general_tag t \<noteq> all_list_tag t')"

definition lists_ok :: "links \<Rightarrow> addr \<Rightarrow> addr list \<Rightarrow> addr set \<Rightarrow> (addr \<Rightarrow> addr list) \<Rightarrow> bool" where
  "lists_ok L al as Q W \<longleftrightarrow>
     layout_ok (insert al Q) as \<and> al \<notin> Q \<and> list_rep L al (map all_list_tag as) \<and>
     (\<forall>q\<in>Q. list_rep L q (map general_tag (W q)) \<and> set (W q) \<subseteq> set as) \<and>
     (\<forall>q\<in>Q. \<forall>q'\<in>Q. q \<noteq> q' \<longrightarrow> set (W q) \<inter> set (W q') = {})"

lemma layout_heads:
  assumes "layout_ok Ls as" and "l \<in> Ls" and "l' \<in> Ls" and "l \<noteq> l'"
  shows "{list_head l, list_tail l} \<inter> {list_head l', list_tail l'} = {}"
  using assms unfolding layout_ok_def by (elim conjE) (drule (1) bspec, drule (1) bspec, erule mp)

lemma layout_tags:
  assumes "layout_ok Ls as" and "l \<in> Ls" and "t \<in> set as"
  shows "{list_head l, list_tail l} \<inter> {general_tag t, all_list_tag t} = {}"
  using assms unfolding layout_ok_def by (elim conjE) (rotate_tac 2, drule (1) bspec, erule (1) bspec)

lemma layout_heads_disjoint:
  assumes "layout_ok Ls as" and "l \<in> Ls" and "set ts \<subseteq> set as"
  shows "{list_head l, list_tail l} \<inter> general_tag ` set ts = {}"
    and "{list_head l, list_tail l} \<inter> all_list_tag ` set ts = {}"
proof -
  have "{list_head l, list_tail l} \<inter> {general_tag t, all_list_tag t} = {}" if "t \<in> set ts" for t
    using layout_tags [OF assms(1,2)] assms(3) that by (rule_tac layout_tags [OF assms(1,2)]) (erule (1) subsetD)
  then show "{list_head l, list_tail l} \<inter> general_tag ` set ts = {}"
    and "{list_head l, list_tail l} \<inter> all_list_tag ` set ts = {}"
    by fastforce+
qed

lemma disjoint_Un4:
  "A \<inter> C = {} \<Longrightarrow> A \<inter> D = {} \<Longrightarrow> C \<inter> B = {} \<Longrightarrow> B \<inter> D = {} \<Longrightarrow> (A \<union> B) \<inter> (C \<union> D) = {}"
  by blast

lemma list_nodes_Un: "list_nodes l xs = {list_head l, list_tail l} \<union> set xs"
  by (auto simp: list_nodes_def)

lemma layout_disjoint:
  assumes "layout_ok Ls as" and "l \<in> Ls" and "l' \<in> Ls" and "l \<noteq> l'"
    and "set ts \<subseteq> set as" and "set ts' \<subseteq> set as" and "set ts \<inter> set ts' = {}"
  shows "list_nodes l (map general_tag ts) \<inter> list_nodes l' (map general_tag ts') = {}"
  unfolding list_nodes_Un set_map
proof (rule disjoint_Un4)
  show "general_tag ` set ts \<inter> general_tag ` set ts' = {}"
    using assms(7) by auto
qed (rule layout_heads [OF assms(1-4)] layout_heads_disjoint(1) [OF assms(1,2,6)]
      layout_heads_disjoint(1) [OF assms(1,3,5)])+

lemma layout_disjoint_all:
  assumes "layout_ok (insert al Q) as" and "q \<in> Q" and "al \<notin> Q" and "set ts \<subseteq> set as"
  shows "list_nodes q (map general_tag ts) \<inter> list_nodes al (map all_list_tag as) = {}"
  unfolding list_nodes_Un set_map
proof (rule disjoint_Un4)
  have q: "q \<in> insert al Q" "al \<in> insert al Q" "q \<noteq> al"
    using assms(2,3) by auto
  show "{list_head q, list_tail q} \<inter> {list_head al, list_tail al} = {}"
    by (rule layout_heads [OF assms(1) q])
  show "{list_head q, list_tail q} \<inter> all_list_tag ` set as = {}"
    by (rule layout_heads_disjoint(2) [OF assms(1) q(1) subset_refl])
  show "{list_head al, list_tail al} \<inter> general_tag ` set ts = {}"
    by (rule layout_heads_disjoint(1) [OF assms(1) q(2) assms(4)])
  show "general_tag ` set ts \<inter> all_list_tag ` set as = {}"
    using assms(4) assms(1) [unfolded layout_ok_def] by (blast dest: subsetD)
qed

text \<open>Changing one queue leaves the others and the list of all tasks as they are.\<close>

lemma lists_ok_update:
  assumes ok: "lists_ok L al as Q W" and q: "q \<in> Q"
    and rep: "list_rep L' q (map general_tag ts)" and sub: "set ts \<subseteq> set as"
    and dist: "\<And>q'. q' \<in> Q \<Longrightarrow> q' \<noteq> q \<Longrightarrow> set ts \<inter> set (W q') = {}"
    and frame: "\<And>n. n \<notin> list_nodes q (map general_tag (W q)) \<union> list_nodes q (map general_tag ts) \<Longrightarrow>
      lnext L' n = lnext L n \<and> lprev L' n = lprev L n"
  shows "lists_ok L' al as Q (W(q := ts))"
proof -
  note parts = ok [unfolded lists_ok_def]
  have lay: "layout_ok (insert al Q) as"
    using parts by blast
  have others: "list_rep L' q' (map general_tag (W q'))" if "q' \<in> Q" "q' \<noteq> q" for q'
  proof (rule list_rep_frame)
    show "list_rep L q' (map general_tag (W q'))"
      using parts that by blast
    fix e assume e: "e \<in> list_nodes q' (map general_tag (W q'))"
    have "set (W q') \<subseteq> set as" "set (W q) \<subseteq> set as" "set (W q') \<inter> set (W q) = {}"
      using parts that q by blast+
    then have "list_nodes q' (map general_tag (W q')) \<inter> list_nodes q (map general_tag (W q)) = {}"
      and "list_nodes q' (map general_tag (W q')) \<inter> list_nodes q (map general_tag ts) = {}"
      using layout_disjoint [OF lay, of q' q] that q sub dist [OF that, unfolded Int_commute [of "set ts"]]
      by (simp_all add: Int_commute)
    then show "lnext L' e = lnext L e \<and> lprev L' e = lprev L e"
      using e by (intro frame) blast
  qed
  have "list_rep L' al (map all_list_tag as)"
  proof (rule list_rep_frame)
    show "list_rep L al (map all_list_tag as)"
      using parts by blast
    fix e assume e: "e \<in> list_nodes al (map all_list_tag as)"
    have "set (W q) \<subseteq> set as" "al \<notin> Q"
      using parts q by blast+
    then have "list_nodes q (map general_tag (W q)) \<inter> list_nodes al (map all_list_tag as) = {}"
      and "list_nodes q (map general_tag ts) \<inter> list_nodes al (map all_list_tag as) = {}"
      using layout_disjoint_all [OF lay q] sub by auto
    then show "lnext L' e = lnext L e \<and> lprev L' e = lprev L e"
      using e by (intro frame) blast
  qed
  moreover have "set ((W(q := ts)) q1) \<inter> set ((W(q := ts)) q2) = {}" if "q1 \<in> Q" "q2 \<in> Q" "q1 \<noteq> q2" for q1 q2
    using that parts dist [of q1] dist [of q2] by (cases "q1 = q"; cases "q2 = q") (auto simp: Int_commute)
  moreover have "list_rep L' q1 (map general_tag ((W(q := ts)) q1)) \<and> set ((W(q := ts)) q1) \<subseteq> set as"
    if "q1 \<in> Q" for q1
    using that parts others rep sub by (cases "q1 = q") auto
  ultimately show ?thesis
    using parts unfolding lists_ok_def by blast
qed

lemma tag_notin_nodes:
  assumes "lists_ok L al as Q W" and "q \<in> Q" and "t \<in> set as" and "t \<notin> set (W q)"
  shows "general_tag t \<notin> list_nodes q (map general_tag (W q))"
  using assms unfolding lists_ok_def layout_ok_def list_nodes_def by auto

lemma lists_append:
  assumes "lists_ok L al as Q W" and "q \<in> Q" and "t \<in> set as" and "\<And>q'. q' \<in> Q \<Longrightarrow> t \<notin> set (W q')"
  shows "lists_ok (list_append q (general_tag t) L) al as Q (W(q := W q @ [t]))"
proof (rule lists_ok_update [OF assms(1,2)])
  have rep: "list_rep L q (map general_tag (W q))" "set (W q) \<subseteq> set as"
    using assms(1,2) by (auto simp: lists_ok_def)
  show "list_rep (list_append q (general_tag t) L) q (map general_tag (W q @ [t]))"
    using list_append_rep [OF rep(1) tag_notin_nodes [OF assms(1-3) assms(4) [OF assms(2)]]] by simp
  show "set (W q @ [t]) \<subseteq> set as"
    using rep(2) assms(3) by simp
  show "set (W q @ [t]) \<inter> set (W q') = {}" if "q' \<in> Q" "q' \<noteq> q" for q'
    using assms(1,2) that assms(4) [OF that(1)] by (auto simp: lists_ok_def)
  show "lnext (list_append q (general_tag t) L) n = lnext L n \<and>
      lprev (list_append q (general_tag t) L) n = lprev L n"
    if "n \<notin> list_nodes q (map general_tag (W q)) \<union> list_nodes q (map general_tag (W q @ [t]))" for n
    using that by (intro list_append_frame [OF rep(1)]) (auto simp: list_nodes_def)
qed

lemma lists_push:
  assumes "lists_ok L al as Q W" and "q \<in> Q" and "t \<in> set as" and "\<And>q'. q' \<in> Q \<Longrightarrow> t \<notin> set (W q')"
  shows "lists_ok (list_push q (general_tag t) L) al as Q (W(q := t # W q))"
proof (rule lists_ok_update [OF assms(1,2)])
  have rep: "list_rep L q (map general_tag (W q))" "set (W q) \<subseteq> set as"
    using assms(1,2) by (auto simp: lists_ok_def)
  show "list_rep (list_push q (general_tag t) L) q (map general_tag (t # W q))"
    using list_push_rep [OF rep(1) tag_notin_nodes [OF assms(1-3) assms(4) [OF assms(2)]]] by simp
  show "set (t # W q) \<subseteq> set as"
    using rep(2) assms(3) by simp
  show "set (t # W q) \<inter> set (W q') = {}" if "q' \<in> Q" "q' \<noteq> q" for q'
    using assms(1,2) that assms(4) [OF that(1)] by (auto simp: lists_ok_def)
  show "lnext (list_push q (general_tag t) L) n = lnext L n \<and>
      lprev (list_push q (general_tag t) L) n = lprev L n"
    if "n \<notin> list_nodes q (map general_tag (W q)) \<union> list_nodes q (map general_tag (t # W q))" for n
    using that by (intro list_push_frame [OF rep(1)]) (auto simp: list_nodes_def)
qed

lemma lists_remove:
  assumes "lists_ok L al as Q W" and "q \<in> Q" and "W q = us @ t # vs"
  shows "lists_ok (list_remove (general_tag t) L) al as Q (W(q := us @ vs))"
proof (rule lists_ok_update [OF assms(1,2)])
  have rep: "list_rep L q (map general_tag us @ general_tag t # map general_tag vs)" "set (W q) \<subseteq> set as"
    using assms(1) [unfolded lists_ok_def] assms(2) assms(3) by force+
  show "list_rep (list_remove (general_tag t) L) q (map general_tag (us @ vs))"
    using list_remove_rep [OF rep(1)] by simp
  show "set (us @ vs) \<subseteq> set as"
    using rep(2) assms(3) by auto
  show "set (us @ vs) \<inter> set (W q') = {}" if "q' \<in> Q" "q' \<noteq> q" for q'
  proof -
    have "set (W q) \<inter> set (W q') = {}"
      using assms(1) [unfolded lists_ok_def] assms(2) that by blast
    then show ?thesis
      using assms(3) by auto
  qed
  show "lnext (list_remove (general_tag t) L) n = lnext L n \<and>
      lprev (list_remove (general_tag t) L) n = lprev L n"
    if "n \<notin> list_nodes q (map general_tag (W q)) \<union> list_nodes q (map general_tag (us @ vs))" for n
    using that assms(3) by (intro list_remove_frame [OF rep(1)]) simp
qed

lemma lists_pop:
  assumes "lists_ok L al as Q W" and "q \<in> Q" and "W q = t # ts"
  obtains L' where "list_pop q L = (general_tag t, L')" and "lists_ok L' al as Q (W(q := ts))"
proof -
  have "list_rep L q (general_tag t # map general_tag ts)"
    using assms by (auto simp: lists_ok_def)
  then have "list_pop q L = (general_tag t, list_remove (general_tag t) L)"
    by (auto elim: list_pop_rep)
  then show thesis
    using that lists_remove [OF assms(1,2), of "[]" t ts] assms(3) by simp
qed

lemma lists_find:
  assumes "lists_ok L al as Q W" and "q \<in> Q"
  shows "elem_find q (general_tag t) L = Some (t \<in> set (W q))"
  using assms elem_find_rep [of L q "map general_tag (W q)" "general_tag t"] by (auto simp: lists_ok_def)

lemma lists_empty:
  assumes "lists_ok L al as Q W" and "q \<in> Q"
  shows "list_empty q L = (W q = [])"
  using assms list_empty_rep [of L q "map general_tag (W q)"] by (auto simp: lists_ok_def)

section \<open>The invariant\<close>

text \<open>
  The address spaces: from every address space a task may run in, the page directory of every task
  can be found, so that switching between them never faults. The kernel threads run on the page
  directory at 0x100000.
\<close>

definition spaces_ok :: "(u32 \<Rightarrow> u32) \<Rightarrow> u32 \<Rightarrow> (addr \<Rightarrow> addr) \<Rightarrow> addr list \<Rightarrow> bool" where
  "spaces_ok mem cr dir as \<longleftrightarrow> (\<exists>C. 0x100000 \<in> C \<and> cr \<in> C \<and>
     (\<forall>c\<in>C. \<forall>t\<in>set as. dir t \<noteq> NULL \<longrightarrow> (\<exists>p\<in>C. addr_v2p mem c (dir t) = Some p)))"

lemma spaces_ok_switch:
  assumes "spaces_ok mem cr dir as" and "t \<in> set as"
  obtains p where "dir t \<noteq> NULL \<Longrightarrow> addr_v2p mem cr (dir t) = Some p"
    and "spaces_ok mem (if dir t \<noteq> NULL then p else 0x100000) dir as"
proof -
  obtain C where C: "0x100000 \<in> C" "cr \<in> C"
      "\<forall>c\<in>C. \<forall>t\<in>set as. dir t \<noteq> NULL \<longrightarrow> (\<exists>p\<in>C. addr_v2p mem c (dir t) = Some p)"
    using assms(1) unfolding spaces_ok_def by blast
  show thesis
  proof (cases "dir t = NULL")
    case True
    then show thesis
      using C by (intro that [of 0]) (auto simp: spaces_ok_def)
  next
    case False
    then obtain p where "p \<in> C" "addr_v2p mem cr (dir t) = Some p"
      using C assms(2) by blast
    then show thesis
      using C False by (intro that [of p]) (auto simp: spaces_ok_def)
  qed
qed

text \<open>
  \<open>sched_pre\<close> holds whenever \<^verbatim>\<open>schedule\<close> is entered, also when the current thread has already been
  queued or has given up the processor; \<open>sched_ok\<close> holds while a thread runs.
\<close>

definition sched_pre :: "'a kstate_scheme \<Rightarrow> addr list \<Rightarrow> addr set \<Rightarrow> (addr \<Rightarrow> addr list) \<Rightarrow> bool" where
  "sched_pre s as Q W \<longleftrightarrow>
     lists_ok (lnks s) (thread_all_list s) as Q W \<and> thread_ready_list s \<in> Q \<and>
     cur s \<in> set as \<and> idle_thread s \<in> set as \<and> NULL \<notin> set as \<and>
     (\<forall>t\<in>set as. status (tasks s t) = TASK_READY \<longleftrightarrow> t \<in> set (W (thread_ready_list s))) \<and>
     (\<forall>t\<in>set as. status (tasks s t) = TASK_RUNNING \<longrightarrow> t = cur s) \<and>
     (\<forall>q\<in>Q - {thread_ready_list s}. \<forall>t\<in>set (W q). status (tasks s t) = TASK_BLOCKED \<and> t \<noteq> idle_thread s) \<and>
     status (tasks s (idle_thread s)) \<in> {TASK_RUNNING, TASK_READY, TASK_BLOCKED} \<and>
     spaces_ok (phys s) (cr3 s) (\<lambda>t. pgdir (tasks s t)) as"

definition sched_ok :: "'a kstate_scheme \<Rightarrow> addr list \<Rightarrow> addr set \<Rightarrow> (addr \<Rightarrow> addr list) \<Rightarrow> bool" where
  "sched_ok s as Q W \<longleftrightarrow> sched_pre s as Q W \<and> status (tasks s (cur s)) = TASK_RUNNING"

text \<open>The ready queue as \<^verbatim>\<open>schedule\<close> sees it when it picks the next thread.\<close>

definition run_queue :: "'a kstate_scheme \<Rightarrow> (addr \<Rightarrow> addr list) \<Rightarrow> addr list" where
  "run_queue s W =
     (let rs = W (thread_ready_list s) @ (if status (tasks s (cur s)) = TASK_RUNNING then [cur s] else [])
      in if rs = [] then [idle_thread s] else rs)"

definition requeued :: "'a kstate_scheme \<Rightarrow> addr \<Rightarrow> task_struct" where
  "requeued s =
     (if status (tasks s (cur s)) = TASK_RUNNING
      then (tasks s)(cur s := (tasks s (cur s))\<lparr>ticks := priority (tasks s (cur s)), status := TASK_READY\<rparr>)
      else tasks s)"

lemma sched_preD:
  assumes "sched_pre s as Q W"
  shows "lists_ok (lnks s) (thread_all_list s) as Q W" "thread_ready_list s \<in> Q"
    "cur s \<in> set as" "idle_thread s \<in> set as" "NULL \<notin> set as"
    "t \<in> set as \<Longrightarrow> (status (tasks s t) = TASK_READY) = (t \<in> set (W (thread_ready_list s)))"
    "t \<in> set as \<Longrightarrow> status (tasks s t) = TASK_RUNNING \<Longrightarrow> t = cur s"
    "q \<in> Q \<Longrightarrow> q \<noteq> thread_ready_list s \<Longrightarrow> t \<in> set (W q) \<Longrightarrow>
       status (tasks s t) = TASK_BLOCKED \<and> t \<noteq> idle_thread s"
    "status (tasks s (idle_thread s)) \<in> {TASK_RUNNING, TASK_READY, TASK_BLOCKED}"
    "spaces_ok (phys s) (cr3 s) (\<lambda>t. pgdir (tasks s t)) as"
  using assms unfolding sched_pre_def by blast+

lemma W_subset: "lists_ok L al as Q W \<Longrightarrow> q \<in> Q \<Longrightarrow> set (W q) \<subseteq> set as"
  by (simp add: lists_ok_def)

lemma running_not_queued:
  assumes "sched_pre s as Q W" and "t \<in> set as" and "status (tasks s t) = TASK_RUNNING" and "q \<in> Q"
  shows "t \<notin> set (W q)"
  using sched_preD(6) [OF assms(1,2)] sched_preD(8) [OF assms(1,4), of t] assms(3)
  by (cases "q = thread_ready_list s") auto

lemma process_activate_eq:
  assumes "p \<noteq> NULL" and "pgdir (tasks s p) \<noteq> NULL \<Longrightarrow> addr_v2p (phys s) (cr3 s) (pgdir (tasks s p)) = Some d"
  shows "process_activate p s = Some (s\<lparr>cr3 := if pgdir (tasks s p) \<noteq> NULL then d else 0x100000,
     tss_esp0 := if pgdir (tasks s p) \<noteq> NULL then p + PG_SIZE else tss_esp0 s\<rparr>)"
  using assms by (cases "pgdir (tasks s p) = NULL")
    (auto simp: process_activate_def page_dir_activate_def update_tss_esp_def)

lemma idle_case:
  assumes "sched_pre s as Q W" and "status (tasks s (cur s)) \<noteq> TASK_RUNNING"
    and "W (thread_ready_list s) = []"
  shows "status (tasks s (idle_thread s)) = TASK_BLOCKED" and "q \<in> Q \<Longrightarrow> idle_thread s \<notin> set (W q)"
proof -
  show "status (tasks s (idle_thread s)) = TASK_BLOCKED"
    using sched_preD(6,7) [OF assms(1) sched_preD(4) [OF assms(1)]] sched_preD(9) [OF assms(1)] assms(2,3)
    by auto
  show "idle_thread s \<notin> set (W q)" if "q \<in> Q"
    using sched_preD(8) [OF assms(1) that, of "idle_thread s"] assms(3)
    by (cases "q = thread_ready_list s") auto
qed

lemma thread_unblock_eq:
  assumes ok: "lists_ok (lnks s) al as Q W" and q: "thread_ready_list s \<in> Q"
    and t: "t \<notin> set (W (thread_ready_list s))"
    and st: "status (tasks s t) \<in> {TASK_BLOCKED, TASK_WAITING, TASK_HANGING}"
  shows "thread_unblock t s = Some (s\<lparr>
     lnks := list_push (thread_ready_list s) (general_tag t) (lnks s),
     tasks := (tasks s)(t := (tasks s t)\<lparr>status := TASK_READY\<rparr>)\<rparr>)"
  using lists_find [OF ok q, of t] t st
  by (auto simp: thread_unblock_def Let_def upd_task_def ASSERT_bind)

lemma requeue_step:
  assumes pre: "sched_pre s as Q W"
  obtains L where
    "lists_ok L (thread_all_list s) as Q (W(thread_ready_list s :=
       W (thread_ready_list s) @ (if status (tasks s (cur s)) = TASK_RUNNING then [cur s] else [])))"
    and "(if status (tasks s (cur s)) = TASK_RUNNING then do {
        found \<leftarrow> elem_find (thread_ready_list s) (general_tag (cur s)) (lnks s);
        ASSERT (\<not> found);
        let s' = s\<lparr>lnks := list_append (thread_ready_list s) (general_tag (cur s)) (lnks s)\<rparr>;
        Some (upd_task (cur s) (\<lambda>t. t\<lparr>ticks := priority t, status := TASK_READY\<rparr>) s')
      } else Some s) = Some (s\<lparr>lnks := L, tasks := requeued s\<rparr>)"
proof (cases "status (tasks s (cur s)) = TASK_RUNNING")
  case True
  note nq = running_not_queued [OF pre sched_preD(3) [OF pre] True]
  show thesis
  proof (rule that [of "list_append (thread_ready_list s) (general_tag (cur s)) (lnks s)"])
    show "lists_ok (list_append (thread_ready_list s) (general_tag (cur s)) (lnks s)) (thread_all_list s) as Q
        (W(thread_ready_list s :=
           W (thread_ready_list s) @ (if status (tasks s (cur s)) = TASK_RUNNING then [cur s] else [])))"
      using lists_append [OF sched_preD(1,2,3) [OF pre] nq] True by simp
  qed (use True nq [OF sched_preD(2) [OF pre]] lists_find [OF sched_preD(1,2) [OF pre]] in
      \<open>simp add: upd_task_def requeued_def Let_def\<close>)
next
  case False
  then show thesis
    using sched_preD(1) [OF pre] by (intro that [of "lnks s"]) (simp_all add: requeued_def)
qed

lemma refill_step:
  assumes pre: "sched_pre s as Q W"
    and ok: "lists_ok L (thread_all_list s) as Q (W(thread_ready_list s := rs))"
    and rs: "rs = W (thread_ready_list s) @ (if status (tasks s (cur s)) = TASK_RUNNING then [cur s] else [])"
    and s1: "s1 = s\<lparr>lnks := L, tasks := requeued s\<rparr>"
  obtains L' where "lists_ok L' (thread_all_list s) as Q (W(thread_ready_list s := run_queue s W))"
    and "(if list_empty (thread_ready_list s) L then thread_unblock (idle_thread s) s1 else Some s1)
      = Some (s\<lparr>lnks := L', tasks := (if rs = []
          then (tasks s)(idle_thread s := (tasks s (idle_thread s))\<lparr>status := TASK_READY\<rparr>)
          else requeued s)\<rparr>)"
proof (cases "rs = []")
  case True
  then have nr: "status (tasks s (cur s)) \<noteq> TASK_RUNNING" and we: "W (thread_ready_list s) = []"
    using rs by (auto split: if_splits)
  have we': "W(thread_ready_list s := rs) = W"
    using True we by auto
  note idle = idle_case [OF pre nr we]
  have rq: "run_queue s W = [idle_thread s]" "requeued s = tasks s"
    using nr we by (simp_all add: run_queue_def requeued_def)
  show thesis
  proof (rule that [of "list_push (thread_ready_list s) (general_tag (idle_thread s)) L"])
    show "lists_ok (list_push (thread_ready_list s) (general_tag (idle_thread s)) L) (thread_all_list s) as Q
        (W(thread_ready_list s := run_queue s W))"
      using lists_push [OF ok [unfolded we'] sched_preD(2,4) [OF pre] idle(2)] by (simp add: rq we)
  next
    have ok1: "lists_ok (lnks s1) (thread_all_list s) as Q W"
      using ok by (simp add: s1 we')
    have "thread_unblock (idle_thread s1) s1 = Some (s1\<lparr>
        lnks := list_push (thread_ready_list s1) (general_tag (idle_thread s1)) (lnks s1),
        tasks := (tasks s1)(idle_thread s1 := (tasks s1 (idle_thread s1))\<lparr>status := TASK_READY\<rparr>)\<rparr>)"
      using idle sched_preD(2) [OF pre] by (intro thread_unblock_eq [OF ok1]) (simp_all add: s1 rq)
    moreover have "list_empty (thread_ready_list s1) (lnks s1)"
      using lists_empty [OF ok1, of "thread_ready_list s"] sched_preD(2) [OF pre] we by (simp add: s1)
    ultimately show "(if list_empty (thread_ready_list s) L then thread_unblock (idle_thread s) s1
        else Some s1) = Some (s\<lparr>lnks := list_push (thread_ready_list s) (general_tag (idle_thread s)) L,
          tasks := (if rs = [] then (tasks s)(idle_thread s := (tasks s (idle_thread s))\<lparr>status := TASK_READY\<rparr>)
            else requeued s)\<rparr>)"
      using True by (simp add: s1 rq)
  qed
next
  case False
  then have rq: "run_queue s W = rs"
    by (simp add: run_queue_def rs)
  show thesis
    using ok False lists_empty [OF ok, of "thread_ready_list s"] sched_preD(2) [OF pre]
    by (intro that [of L]) (simp_all add: rq s1)
qed

lemma run_queue_subset:
  assumes "sched_pre s as Q W"
  shows "set (run_queue s W) \<subseteq> set as"
  using W_subset [OF sched_preD(1,2) [OF assms]] sched_preD(3,4) [OF assms]
  by (auto simp: run_queue_def Let_def)

lemma run_queue_not_Nil [simp]: "run_queue s W \<noteq> []"
  by (simp add: run_queue_def Let_def)

lemma schedule_eq:
  assumes pre: "sched_pre s as Q W" and off: "intr s = INTR_OFF" and rq: "run_queue s W = n # ns"
  obtains L' where "lists_ok L' (thread_all_list s) as Q (W(thread_ready_list s := ns))"
    and "schedule ret s = Option.bind (process_activate n
           (s\<lparr>lnks := L', tasks := (requeued s)(n := (requeued s n)\<lparr>status := TASK_RUNNING\<rparr>)\<rparr>))
         (\<lambda>s4. Some (switch_to ret (cur s) n s4))"
proof -
  let ?r = "thread_ready_list s"
  obtain rs where rs: "rs = W ?r @ (if status (tasks s (cur s)) = TASK_RUNNING then [cur s] else [])"
    by blast
  obtain L where L: "lists_ok L (thread_all_list s) as Q (W(?r := rs))"
    and e1: "(if status (tasks s (cur s)) = TASK_RUNNING then do {
        found \<leftarrow> elem_find ?r (general_tag (cur s)) (lnks s);
        ASSERT (\<not> found);
        let s' = s\<lparr>lnks := list_append ?r (general_tag (cur s)) (lnks s)\<rparr>;
        Some (upd_task (cur s) (\<lambda>t. t\<lparr>ticks := priority t, status := TASK_READY\<rparr>) s')
      } else Some s) = Some (s\<lparr>lnks := L, tasks := requeued s\<rparr>)"
    using requeue_step [OF pre] unfolding rs by blast
  obtain L1 where L1: "lists_ok L1 (thread_all_list s) as Q (W(?r := run_queue s W))"
    and e2: "(if list_empty ?r L then thread_unblock (idle_thread s) (s\<lparr>lnks := L, tasks := requeued s\<rparr>)
        else Some (s\<lparr>lnks := L, tasks := requeued s\<rparr>)) = Some (s\<lparr>lnks := L1, tasks := (if rs = []
          then (tasks s)(idle_thread s := (tasks s (idle_thread s))\<lparr>status := TASK_READY\<rparr>)
          else requeued s)\<rparr>)"
    by (rule refill_step [OF pre L rs refl])
  have r: "?r \<in> Q"
    by (rule sched_preD(2) [OF pre])
  have ne: "\<not> list_empty ?r L1"
    using lists_empty [OF L1 r] by simp
  obtain L2 where pop: "list_pop ?r L1 = (general_tag n, L2)"
    and L2: "lists_ok L2 (thread_all_list s) as Q (W(?r := ns))"
    using lists_pop [OF L1 r, of n ns] rq by auto
  have "n = idle_thread s \<and> requeued s = tasks s" if "rs = []"
    using that rq rs by (auto simp: run_queue_def requeued_def Let_def split: if_splits)
  then have t: "(T n)\<lparr>status := TASK_RUNNING\<rparr> = (requeued s n)\<lparr>status := TASK_RUNNING\<rparr> \<and>
      T(n := x) = (requeued s)(n := x)"
    if "T = (if rs = [] then (tasks s)(idle_thread s := (tasks s (idle_thread s))\<lparr>status := TASK_READY\<rparr>)
          else requeued s)" for T x
    using that by auto
  show thesis
  proof (rule that [OF L2])
    show "schedule ret s = Option.bind (process_activate n
        (s\<lparr>lnks := L2, tasks := (requeued s)(n := (requeued s n)\<lparr>status := TASK_RUNNING\<rparr>)\<rparr>))
      (\<lambda>s4. Some (switch_to ret (cur s) n s4))"
      unfolding schedule_def running_thread_def intr_get_status_def Let_def
      using off e1 e2 ne pop t [OF refl]
      by (simp add: upd_task_def Let_def cong: if_cong)
  qed
qed

section \<open>Every scheduling routine returns and keeps the invariant\<close>

text \<open>The state after the processor went to thread \<open>n\<close>, with the links \<open>L\<close>.\<close>

definition switched :: "intr_status \<Rightarrow> addr \<Rightarrow> links \<Rightarrow> 'a kstate_scheme \<Rightarrow> 'a kstate_scheme" where
  "switched ret n L s = s\<lparr>lnks := L,
     tasks := (requeued s)(n := (requeued s n)\<lparr>status := TASK_RUNNING\<rparr>),
     cr3 := if pgdir (requeued s n) \<noteq> NULL
       then the (addr_v2p (phys s) (cr3 s) (pgdir (requeued s n))) else 0x100000,
     tss_esp0 := if pgdir (requeued s n) \<noteq> NULL then n + PG_SIZE else tss_esp0 s,
     resume := (resume s)(cur s := ret), cur := n, intr := ((resume s)(cur s := ret)) n\<rparr>"

lemma switched_simps [simp]:
  "lnks (switched ret n L s) = L" "cur (switched ret n L s) = n"
  "tasks (switched ret n L s) = (requeued s)(n := (requeued s n)\<lparr>status := TASK_RUNNING\<rparr>)"
  "thread_ready_list (switched ret n L s) = thread_ready_list s"
  "thread_all_list (switched ret n L s) = thread_all_list s"
  "idle_thread (switched ret n L s) = idle_thread s"
  "sema_value (switched ret n L s) = sema_value s"
  "lock_holder (switched ret n L s) = lock_holder s"
  "lock_repeat_nr (switched ret n L s) = lock_repeat_nr s" "phys (switched ret n L s) = phys s"
  "resume (switched ret n L s) = (resume s)(cur s := ret)"
  "intr (switched ret n L s) = ((resume s)(cur s := ret)) n"
  by (simp_all add: switched_def)

lemma requeued_status:
  "status (requeued s t) =
     (if t = cur s \<and> status (tasks s t) = TASK_RUNNING then TASK_READY else status (tasks s t))"
  by (auto simp: requeued_def)

lemma requeued_pgdir [simp]: "pgdir (requeued s t) = pgdir (tasks s t)"
  by (auto simp: requeued_def)

lemma lists_ok_distinct: "lists_ok L al as Q W \<Longrightarrow> q \<in> Q \<Longrightarrow> distinct (W q)"
  by (auto simp: lists_ok_def list_rep_def distinct_map)

lemma run_queue_set:
  assumes "sched_pre s as Q W" and "t \<in> set as" and "status (tasks s t) \<noteq> TASK_BLOCKED"
  shows "t \<in> set (run_queue s W) \<longleftrightarrow> status (requeued s t) = TASK_READY"
proof -
  have i: "idle_thread s \<noteq> t" if "W (thread_ready_list s) = []" "status (tasks s (cur s)) \<noteq> TASK_RUNNING"
    using idle_case(1) [OF assms(1) that(2,1)] assms(3) by auto
  have "t \<in> set (run_queue s W) \<longleftrightarrow>
      t \<in> set (W (thread_ready_list s)) \<or> status (tasks s (cur s)) = TASK_RUNNING \<and> t = cur s"
    using i by (auto simp: run_queue_def Let_def)
  then show ?thesis
    using sched_preD(6) [OF assms(1,2)] by (cases "t = cur s") (simp_all add: requeued_status)
qed

lemma run_queue_blocked:
  assumes "sched_pre s as Q W" and "t \<in> set (run_queue s W)" and "status (tasks s t) = TASK_BLOCKED"
  shows "run_queue s W = [t]" and "t = idle_thread s"
proof -
  have "t \<notin> set (W (thread_ready_list s))"
    using sched_preD(6) [OF assms(1), of t] assms(3) run_queue_subset [OF assms(1)] assms(2) by auto
  then have "W (thread_ready_list s) = [] \<and> status (tasks s (cur s)) \<noteq> TASK_RUNNING \<and> t = idle_thread s"
    using assms(2,3) by (auto simp: run_queue_def Let_def split: if_splits)
  then show "run_queue s W = [t]" and "t = idle_thread s"
    by (simp_all add: run_queue_def Let_def)
qed

lemma schedule_ok:
  assumes pre: "sched_pre s as Q W" and off: "intr s = INTR_OFF" and rq: "run_queue s W = n # ns"
  obtains L' where "schedule ret s = Some (switched ret n L' s)"
    and "sched_ok (switched ret n L' s) as Q (W(thread_ready_list s := ns))"
proof -
  obtain L' where L': "lists_ok L' (thread_all_list s) as Q (W(thread_ready_list s := ns))"
    and eq: "schedule ret s = Option.bind (process_activate n
           (s\<lparr>lnks := L', tasks := (requeued s)(n := (requeued s n)\<lparr>status := TASK_RUNNING\<rparr>)\<rparr>))
         (\<lambda>s4. Some (switch_to ret (cur s) n s4))"
    by (rule schedule_eq [OF pre off rq])
  have n: "n \<in> set as" "n \<noteq> NULL"
    using run_queue_subset [OF pre] sched_preD(5) [OF pre] rq by auto
  obtain d where d: "pgdir (tasks s n) \<noteq> NULL \<Longrightarrow> addr_v2p (phys s) (cr3 s) (pgdir (tasks s n)) = Some d"
    and sp: "spaces_ok (phys s) (if pgdir (tasks s n) \<noteq> NULL then d else 0x100000) (\<lambda>t. pgdir (tasks s t)) as"
    using spaces_ok_switch [OF sched_preD(10) [OF pre] n(1)] by metis
  have st: "schedule ret s = Some (switched ret n L' s)"
    using d process_activate_eq [OF n(2), of "s\<lparr>lnks := L',
      tasks := (requeued s)(n := (requeued s n)\<lparr>status := TASK_RUNNING\<rparr>)\<rparr>" d]
    by (auto simp: eq switched_def switch_to_def Let_def)
  have sp': "spaces_ok (phys (switched ret n L' s)) (cr3 (switched ret n L' s))
      (\<lambda>t. pgdir (tasks (switched ret n L' s) t)) as"
  proof -
    have "(\<lambda>t. pgdir (tasks (switched ret n L' s) t)) = (\<lambda>t. pgdir (tasks s t))"
      by auto
    moreover have "cr3 (switched ret n L' s) = (if pgdir (tasks s n) \<noteq> NULL then d else 0x100000)"
      using d by (auto simp: switched_def)
    ultimately show ?thesis
      using sp by simp
  qed
  have nns: "n \<notin> set ns"
  proof
    assume nn: "n \<in> set ns"
    then have "ns \<noteq> []" by auto
    then have "run_queue s W = W (thread_ready_list s) @
        (if status (tasks s (cur s)) = TASK_RUNNING then [cur s] else [])"
      using rq by (auto simp: run_queue_def Let_def split: if_splits)
    moreover have "distinct (W (thread_ready_list s))"
      by (rule lists_ok_distinct [OF sched_preD(1,2) [OF pre]])
    ultimately have "distinct (n # ns)"
      using rq running_not_queued [OF pre sched_preD(3) [OF pre] _ sched_preD(2) [OF pre]] by auto
    then show False using nn by simp
  qed
  have ready: "(status (requeued s t) = TASK_READY) = (t \<in> set ns)" if "t \<in> set as" "t \<noteq> n" for t
  proof (cases "status (tasks s t) = TASK_BLOCKED")
    case True
    then have "t \<notin> set (run_queue s W)"
      using run_queue_blocked(1) [OF pre _ True] rq that(2) by auto
    then show ?thesis
      using True rq by (auto simp: requeued_status)
  next
    case False
    then show ?thesis
      using run_queue_set [OF pre that(1) False] rq that(2) by simp
  qed
  have "sched_pre (switched ret n L' s) as Q (W(thread_ready_list s := ns))"
    unfolding sched_pre_def
  proof (intro conjI ballI impI)
    fix t assume t: "t \<in> set as"
    show "(status (tasks (switched ret n L' s) t) = TASK_READY) =
        (t \<in> set ((W(thread_ready_list s := ns)) (thread_ready_list (switched ret n L' s))))"
      using ready [OF t] nns by auto
    show "t = cur (switched ret n L' s)" if "status (tasks (switched ret n L' s) t) = TASK_RUNNING"
      using that sched_preD(7) [OF pre t] by (auto simp: requeued_status split: if_splits)
  next
    fix q t
    assume q: "q \<in> Q - {thread_ready_list (switched ret n L' s)}" and t: "t \<in> set ((W(thread_ready_list s := ns)) q)"
    then have w: "status (tasks s t) = TASK_BLOCKED" "t \<noteq> idle_thread s"
      using sched_preD(8) [OF pre, of q t] by auto
    then have "t \<noteq> n"
      using run_queue_blocked(2) [OF pre _ w(1)] rq by auto
    then show "status (tasks (switched ret n L' s) t) = TASK_BLOCKED" "t \<noteq> idle_thread (switched ret n L' s)"
      using w by (simp_all add: requeued_status)
  qed (use L' n sched_preD(2-5,9) [OF pre] sp' in \<open>auto simp: requeued_status\<close>)
  then have "sched_ok (switched ret n L' s) as Q (W(thread_ready_list s := ns))"
    by (simp add: sched_ok_def)
  then show thesis
    using st that by blast
qed

lemma sched_okD:
  assumes "sched_ok s as Q W"
  shows "sched_pre s as Q W" and "status (tasks s (cur s)) = TASK_RUNNING"
    and "q \<in> Q \<Longrightarrow> cur s \<notin> set (W q)"
proof -
  show p: "sched_pre s as Q W" and r: "status (tasks s (cur s)) = TASK_RUNNING"
    using assms by (simp_all add: sched_ok_def)
  show "q \<in> Q \<Longrightarrow> cur s \<notin> set (W q)"
    using running_not_queued [OF p _ r] sched_preD(3) [OF p] by blast
qed

lemma upd_task_simps [simp]:
  "tasks (upd_task t f s) = (tasks s)(t := f (tasks s t))"
  "lnks (upd_task t f s) = lnks s" "cur (upd_task t f s) = cur s" "intr (upd_task t f s) = intr s"
  "thread_ready_list (upd_task t f s) = thread_ready_list s"
  "thread_all_list (upd_task t f s) = thread_all_list s"
  "idle_thread (upd_task t f s) = idle_thread s"
  "sema_value (upd_task t f s) = sema_value s"
  "lock_holder (upd_task t f s) = lock_holder s"
  "lock_repeat_nr (upd_task t f s) = lock_repeat_nr s"
  "resume (upd_task t f s) = resume s" "phys (upd_task t f s) = phys s" "cr3 (upd_task t f s) = cr3 s"
  by (simp_all add: upd_task_def)

text \<open>
  The current thread leaves the processor: it changes its status and joins at most one queue, for
  which the links \<open>L\<close> and the queues \<open>W'\<close> say what was done.
\<close>

lemma leave_pre:
  assumes ok: "sched_ok s as Q W" and L: "lists_ok L (thread_all_list s) as Q W'"
    and st: "stat \<noteq> TASK_RUNNING" "(stat = TASK_READY) = (cur s \<in> set (W' (thread_ready_list s)))"
    and idle: "cur s = idle_thread s \<Longrightarrow> stat = TASK_READY \<or> stat = TASK_BLOCKED"
    and W': "\<And>q. q \<in> Q \<Longrightarrow> set (W' q) - {cur s} = set (W q)"
    and w: "\<And>q. q \<in> Q \<Longrightarrow> q \<noteq> thread_ready_list s \<Longrightarrow> cur s \<in> set (W' q) \<Longrightarrow>
      stat = TASK_BLOCKED \<and> cur s \<noteq> idle_thread s"
  shows "sched_pre (upd_task (cur s) (status_update (\<lambda>_. stat)) (s\<lparr>lnks := L, intr := INTR_OFF\<rparr>)) as Q W'"
proof -
  note pre = sched_okD(1) [OF ok]
  have mem: "t \<in> set (W' q) \<longleftrightarrow> t \<in> set (W q)" if "q \<in> Q" "t \<noteq> cur s" for t q
    using W' [OF that(1)] that(2) by blast
  show ?thesis
    unfolding sched_pre_def
  proof (intro conjI ballI impI)
    let ?s = "upd_task (cur s) (status_update (\<lambda>_. stat)) (s\<lparr>lnks := L, intr := INTR_OFF\<rparr>)"
    fix t assume t: "t \<in> set as"
    show "(status (tasks ?s t) = TASK_READY) = (t \<in> set (W' (thread_ready_list ?s)))"
      using st(2) sched_preD(6) [OF pre t] mem [OF sched_preD(2) [OF pre]] by (cases "t = cur s") simp_all
    show "t = cur ?s" if "status (tasks ?s t) = TASK_RUNNING"
      using that sched_preD(7) [OF pre t] by (cases "t = cur s") simp_all
  next
    let ?s = "upd_task (cur s) (status_update (\<lambda>_. stat)) (s\<lparr>lnks := L, intr := INTR_OFF\<rparr>)"
    fix q t assume "q \<in> Q - {thread_ready_list ?s}" and t: "t \<in> set (W' q)"
    then have q: "q \<in> Q" "q \<noteq> thread_ready_list s" by simp_all
    have "status (tasks ?s t) = TASK_BLOCKED \<and> t \<noteq> idle_thread ?s"
      using w [OF q] t mem [OF q(1), of t] sched_preD(8) [OF pre q, of t] by (cases "t = cur s") simp_all
    then show "status (tasks ?s t) = TASK_BLOCKED" "t \<noteq> idle_thread ?s"
      by blast+
  next
    let ?s = "upd_task (cur s) (status_update (\<lambda>_. stat)) (s\<lparr>lnks := L, intr := INTR_OFF\<rparr>)"
    have "(\<lambda>t. pgdir (tasks ?s t)) = (\<lambda>t. pgdir (tasks s t))"
      by auto
    then show "spaces_ok (phys ?s) (cr3 ?s) (\<lambda>t. pgdir (tasks ?s t)) as"
      using sched_preD(10) [OF pre] by simp
  qed (use L idle sched_preD(2-5,9) [OF pre] in auto)
qed

lemma lnks_same: "s\<lparr>lnks := lnks s, intr := i\<rparr> = s\<lparr>intr := i\<rparr>"
  by simp

lemma intr_lnks: "s\<lparr>intr := i, lnks := l\<rparr> = s\<lparr>lnks := l, intr := i\<rparr>"
  by simp

lemma thread_block_eq:
  assumes ok: "sched_ok s as Q W" and st: "stat \<in> {TASK_BLOCKED, TASK_WAITING, TASK_HANGING}"
    and idle: "cur s = idle_thread s \<Longrightarrow> stat = TASK_BLOCKED"
    and rq: "W (thread_ready_list s) @ [idle_thread s] = n # ns"
  obtains L' s' where "thread_block stat s = Some s'"
    and "s' = switched (intr s) n L' (upd_task (cur s) (status_update (\<lambda>_. stat)) (s\<lparr>intr := INTR_OFF\<rparr>))"
    and "sched_ok s' as Q (W(thread_ready_list s := tl (W (thread_ready_list s))))"
proof -
  let ?s = "upd_task (cur s) (status_update (\<lambda>_. stat)) (s\<lparr>intr := INTR_OFF\<rparr>)"
  note pre = sched_okD(1) [OF ok]
  have p: "sched_pre ?s as Q W"
    using leave_pre [OF ok sched_preD(1) [OF pre], of stat] st idle sched_okD(3) [OF ok]
      sched_preD(2) [OF pre] by (auto simp: lnks_same)
  have rq': "run_queue ?s W = n # tl (W (thread_ready_list s))"
    using rq st by (cases "W (thread_ready_list s)") (auto simp: run_queue_def)
  obtain L' where "schedule (intr s) ?s = Some (switched (intr s) n L' ?s)"
    and ok': "sched_ok (switched (intr s) n L' ?s) as Q (W(thread_ready_list s := tl (W (thread_ready_list s))))"
    using schedule_ok [OF p _ rq', of "intr s"] by auto
  then have "thread_block stat s = Some (switched (intr s) n L' ?s)"
    using st by (auto simp: thread_block_def running_thread_def Let_def ASSERT_bind)
  then show thesis
    by (rule that [OF _ refl ok'])
qed

lemma thread_block_ok:
  assumes "sched_ok s as Q W" and st: "stat \<in> {TASK_BLOCKED, TASK_WAITING, TASK_HANGING}"
    and "cur s = idle_thread s \<Longrightarrow> stat = TASK_BLOCKED"
    and "W (thread_ready_list s) @ [idle_thread s] = n # ns"
  obtains s' where "thread_block stat s = Some s'"
    and "sched_ok s' as Q (W(thread_ready_list s := tl (W (thread_ready_list s))))"
    and "cur s' = n" and "status (tasks s' (cur s)) = (if n = cur s then TASK_RUNNING else stat)"
  by (rule thread_block_eq [OF assms]) (assumption+, use st in \<open>auto intro!: that simp: requeued_status\<close>)

lemma thread_yield_ok:
  assumes ok: "sched_ok s as Q W" and rq: "W (thread_ready_list s) @ [cur s] = n # ns"
  obtains s' where "thread_yield s = Some s'" and "sched_ok s' as Q (W(thread_ready_list s := ns))"
    and "cur s' = n"
proof -
  let ?r = "thread_ready_list s"
  let ?s = "upd_task (cur s) (status_update (\<lambda>_. TASK_READY))
    (s\<lparr>lnks := list_append ?r (general_tag (cur s)) (lnks s), intr := INTR_OFF\<rparr>)"
  note pre = sched_okD(1) [OF ok] and nq = sched_okD(3) [OF ok]
  have L: "lists_ok (list_append ?r (general_tag (cur s)) (lnks s)) (thread_all_list s) as Q (W(?r := W ?r @ [cur s]))"
    by (rule lists_append [OF sched_preD(1,2,3) [OF pre] nq])
  have "sched_pre ?s as Q (W(?r := W ?r @ [cur s]))"
    by (rule leave_pre [OF ok L]) (use nq in auto)
  then obtain L' where sch: "schedule (intr s) ?s = Some (switched (intr s) n L' ?s)"
    and ok': "sched_ok (switched (intr s) n L' ?s) as Q (W(?r := ns))"
    using schedule_ok [of ?s as Q "W(?r := W ?r @ [cur s])" n ns "intr s"] rq
    by (auto simp: run_queue_def)
  have "thread_yield s = Some (switched (intr s) n L' ?s)"
    using sch lists_find [OF sched_preD(1,2) [OF pre], of "cur s"] nq [OF sched_preD(2) [OF pre]]
    by (simp add: thread_yield_def running_thread_def Let_def intr_lnks)
  then show thesis
    by (rule that [OF _ ok']) simp
qed

lemma thread_unblock_ok:
  assumes ok: "sched_ok s as Q W" and t: "t \<in> set as" "\<And>q. q \<in> Q \<Longrightarrow> t \<notin> set (W q)"
    and st: "status (tasks s t) \<in> {TASK_BLOCKED, TASK_WAITING, TASK_HANGING}"
  obtains s' where "thread_unblock t s = Some s'"
    and "sched_ok s' as Q (W(thread_ready_list s := t # W (thread_ready_list s)))"
    and "cur s' = cur s" and "tasks s' = (tasks s)(t := (tasks s t)\<lparr>status := TASK_READY\<rparr>)"
    and "intr s' = intr s" and "thread_ready_list s' = thread_ready_list s"
    and "sema_value s' = sema_value s" and "lock_holder s' = lock_holder s"
    and "lock_repeat_nr s' = lock_repeat_nr s" and "idle_thread s' = idle_thread s"
proof -
  let ?r = "thread_ready_list s"
  let ?s = "s\<lparr>lnks := list_push ?r (general_tag t) (lnks s),
    tasks := (tasks s)(t := (tasks s t)\<lparr>status := TASK_READY\<rparr>)\<rparr>"
  note pre = sched_okD(1) [OF ok]
  have eq: "thread_unblock t s = Some ?s"
    by (rule thread_unblock_eq [OF sched_preD(1,2) [OF pre] t(2) [OF sched_preD(2) [OF pre]] st])
  have tc: "t \<noteq> cur s"
    using st sched_okD(2) [OF ok] by auto
  have L: "lists_ok (list_push ?r (general_tag t) (lnks s)) (thread_all_list s) as Q (W(?r := t # W ?r))"
    by (rule lists_push [OF sched_preD(1,2) [OF pre] t])
  have "sched_pre ?s as Q (W(?r := t # W ?r))"
    unfolding sched_pre_def
  proof (intro conjI ballI impI)
    fix u assume u: "u \<in> set as"
    show "(status (tasks ?s u) = TASK_READY) = (u \<in> set ((W(?r := t # W ?r)) (thread_ready_list ?s)))"
      using sched_preD(6) [OF pre u] by simp
    show "u = cur ?s" if "status (tasks ?s u) = TASK_RUNNING"
      using that sched_preD(7) [OF pre u] by (cases "u = t") simp_all
  next
    fix q u assume "q \<in> Q - {thread_ready_list ?s}" and u: "u \<in> set ((W(?r := t # W ?r)) q)"
    then have q: "q \<in> Q" "q \<noteq> ?r" by simp_all
    then have "status (tasks s u) = TASK_BLOCKED \<and> u \<noteq> idle_thread s" "u \<noteq> t"
      using sched_preD(8) [OF pre q, of u] u t(2) [OF q(1)] by auto
    then show "status (tasks ?s u) = TASK_BLOCKED" "u \<noteq> idle_thread ?s"
      by simp_all
  next
    have "(\<lambda>u. pgdir (tasks ?s u)) = (\<lambda>u. pgdir (tasks s u))"
      by auto
    then show "spaces_ok (phys ?s) (cr3 ?s) (\<lambda>u. pgdir (tasks ?s u)) as"
      using sched_preD(10) [OF pre] by simp
  qed (use L sched_preD(2-5,9) [OF pre] in auto)
  then have "sched_ok ?s as Q (W(?r := t # W ?r))"
    using sched_okD(2) [OF ok] tc by (simp add: sched_ok_def)
  then show thesis
    by (rule that [OF eq]) simp_all
qed

lemma sched_ok_frame:
  assumes "sched_ok s as Q W" and "lnks s' = lnks s" and "cur s' = cur s"
    and "thread_ready_list s' = thread_ready_list s" and "thread_all_list s' = thread_all_list s"
    and "idle_thread s' = idle_thread s" and "\<And>t. status (tasks s' t) = status (tasks s t)"
    and "phys s' = phys s" and "cr3 s' = cr3 s" and "\<And>t. pgdir (tasks s' t) = pgdir (tasks s t)"
  shows "sched_ok s' as Q W"
  using assms(1) unfolding sched_ok_def sched_pre_def assms(2-) .

text \<open>
  The clock interrupt: the time slice shrinks by one, or, when it is used up, the thread goes to the
  back of the ready queue with a full slice and the front thread runs.
\<close>

lemma clock_tick_ok:
  assumes ok: "sched_ok s as Q W" and on: "intr s = INTR_ON"
    and magic: "stack_magic (tasks s (cur s)) = 0x19870916"
  shows "ticks (tasks s (cur s)) \<noteq> 0 \<Longrightarrow> \<exists>s'. clock_tick s = Some s' \<and> sched_ok s' as Q W \<and> cur s' = cur s \<and>
      intr s' = INTR_ON \<and> ticks (tasks s' (cur s)) = ticks (tasks s (cur s)) - 1"
    and "ticks (tasks s (cur s)) = 0 \<Longrightarrow> W (thread_ready_list s) @ [cur s] = n # ns \<Longrightarrow>
      \<exists>s'. clock_tick s = Some s' \<and> sched_ok s' as Q (W(thread_ready_list s := ns)) \<and> cur s' = n \<and>
        ticks (tasks s' (cur s)) = priority (tasks s (cur s))"
proof -
  let ?f = "\<lambda>t. t\<lparr>elapsed_ticks := elapsed_ticks t + 1\<rparr>"
  let ?s = "(upd_task (cur s) ?f (s\<lparr>intr := INTR_OFF\<rparr>))\<lparr>timer_ticks := timer_ticks s + 1\<rparr>"
  have h: "intr_timer_handler (s\<lparr>intr := INTR_OFF\<rparr>) = (if ticks (tasks s (cur s)) = 0
      then schedule INTR_ON ?s else Some (upd_task (cur s) (\<lambda>t. t\<lparr>ticks := ticks t - 1\<rparr>) ?s))"
    using magic by (simp add: intr_timer_handler_def running_thread_def Let_def upd_task_def)
  have ok': "sched_ok ?s as Q W"
    by (rule sched_ok_frame [OF ok]) simp_all
  show "\<exists>s'. clock_tick s = Some s' \<and> sched_ok s' as Q W \<and> cur s' = cur s \<and>
      intr s' = INTR_ON \<and> ticks (tasks s' (cur s)) = ticks (tasks s (cur s)) - 1"
    if nz: "ticks (tasks s (cur s)) \<noteq> 0"
    using nz on
    by (auto simp: clock_tick_def h intro!: sched_ok_frame [OF ok])
  show "\<exists>s'. clock_tick s = Some s' \<and> sched_ok s' as Q (W(thread_ready_list s := ns)) \<and> cur s' = n \<and>
        ticks (tasks s' (cur s)) = priority (tasks s (cur s))"
    if z: "ticks (tasks s (cur s)) = 0" and rq: "W (thread_ready_list s) @ [cur s] = n # ns"
  proof -
    have "run_queue ?s W = n # ns"
      using rq sched_okD(2) [OF ok] by (auto simp: run_queue_def Let_def)
    then obtain L' where "schedule INTR_ON ?s = Some (switched INTR_ON n L' ?s)"
      and "sched_ok (switched INTR_ON n L' ?s) as Q (W(thread_ready_list s := ns))"
      using schedule_ok [OF sched_okD(1) [OF ok'], of n ns INTR_ON] by auto
    then show ?thesis
      using z on sched_okD(2) [OF ok] by (auto simp: clock_tick_def h requeued_def)
  qed
qed

section \<open>Round robin\<close>

text \<open>\<open>n\<close> clock interrupts with no other event.\<close>

primrec run_ticks :: "nat \<Rightarrow> 'a kstate_scheme \<Rightarrow> 'a kstate_scheme option" where
  "run_ticks 0 s = Some s"
| "run_ticks (Suc n) s = clock_tick s \<bind> run_ticks n"

lemma run_ticks_add: "run_ticks (m + n) s = run_ticks m s \<bind> run_ticks n"
proof (induction m arbitrary: s)
  case (Suc m)
  then show ?case
    by (cases "clock_tick s") simp_all
qed simp

text \<open>
  \<open>rr_ok\<close>: interrupts are on, no stack has overflowed into its task structure, and every ready thread
  was preempted or has never run, so that it goes on with interrupts on.
\<close>

definition rr_ok :: "'a kstate_scheme \<Rightarrow> addr list \<Rightarrow> addr set \<Rightarrow> (addr \<Rightarrow> addr list) \<Rightarrow> bool" where
  "rr_ok s as Q W \<longleftrightarrow> sched_ok s as Q W \<and> intr s = INTR_ON \<and>
     (\<forall>t\<in>set as. stack_magic (tasks s t) = 0x19870916) \<and>
     (\<forall>t\<in>set (W (thread_ready_list s)). resume s t = INTR_ON)"

lemma clock_tick_down:
  assumes rr: "rr_ok s as Q W" and nz: "ticks (tasks s (cur s)) \<noteq> 0"
  obtains s' where "clock_tick s = Some s'" and "rr_ok s' as Q W" and "cur s' = cur s"
    and "thread_ready_list s' = thread_ready_list s"
    and "ticks (tasks s' (cur s)) = ticks (tasks s (cur s)) - 1"
    and "\<And>t. t \<noteq> cur s \<Longrightarrow> tasks s' t = tasks s t"
proof -
  have ok: "sched_ok s as Q W" and on: "intr s = INTR_ON"
    and m: "\<And>t. t \<in> set as \<Longrightarrow> stack_magic (tasks s t) = 0x19870916"
    and r: "\<forall>t\<in>set (W (thread_ready_list s)). resume s t = INTR_ON"
    using rr by (simp_all add: rr_ok_def)
  let ?f = "\<lambda>t. t\<lparr>elapsed_ticks := elapsed_ticks t + 1\<rparr>"
  let ?s = "upd_task (cur s) (\<lambda>t. t\<lparr>ticks := ticks t - 1\<rparr>)
    ((upd_task (cur s) ?f (s\<lparr>intr := INTR_OFF\<rparr>))\<lparr>timer_ticks := timer_ticks s + 1\<rparr>)\<lparr>intr := INTR_ON\<rparr>"
  have c: "cur s \<in> set as"
    by (rule sched_preD(3) [OF sched_okD(1) [OF ok]])
  have eq: "clock_tick s = Some ?s"
    using m [OF c] nz on by (simp add: clock_tick_def intr_timer_handler_def running_thread_def Let_def upd_task_def)
  have "sched_ok ?s as Q W"
    by (rule sched_ok_frame [OF ok]) simp_all
  then have "rr_ok ?s as Q W"
    using m r by (auto simp: rr_ok_def)
  then show thesis
    by (rule that [OF eq]) simp_all
qed

lemma clock_tick_switch:
  assumes rr: "rr_ok s as Q W" and z: "ticks (tasks s (cur s)) = 0"
    and rq: "W (thread_ready_list s) @ [cur s] = n # ns"
  obtains s' where "clock_tick s = Some s'" and "rr_ok s' as Q (W(thread_ready_list s := ns))" and "cur s' = n"
    and "thread_ready_list s' = thread_ready_list s"
    and "ticks (tasks s' (cur s)) = priority (tasks s (cur s))"
    and "\<And>t. t \<noteq> cur s \<Longrightarrow> ticks (tasks s' t) = ticks (tasks s t)"
proof -
  have ok: "sched_ok s as Q W" and on: "intr s = INTR_ON"
    and m: "\<And>t. t \<in> set as \<Longrightarrow> stack_magic (tasks s t) = 0x19870916"
    and r: "\<forall>t\<in>set (W (thread_ready_list s)). resume s t = INTR_ON"
    using rr by (simp_all add: rr_ok_def)
  let ?s = "(upd_task (cur s) (\<lambda>t. t\<lparr>elapsed_ticks := elapsed_ticks t + 1\<rparr>) (s\<lparr>intr := INTR_OFF\<rparr>))
    \<lparr>timer_ticks := timer_ticks s + 1\<rparr>"
  have c: "cur s \<in> set as"
    by (rule sched_preD(3) [OF sched_okD(1) [OF ok]])
  have h: "clock_tick s = schedule INTR_ON ?s"
    using m [OF c] z on by (simp add: clock_tick_def intr_timer_handler_def running_thread_def Let_def upd_task_def)
  have ok': "sched_ok ?s as Q W"
    by (rule sched_ok_frame [OF ok]) simp_all
  have "run_queue ?s W = n # ns"
    using rq sched_okD(2) [OF ok] by (auto simp: run_queue_def Let_def)
  then obtain L' where eq: "schedule INTR_ON ?s = Some (switched INTR_ON n L' ?s)"
    and okn: "sched_ok (switched INTR_ON n L' ?s) as Q (W(thread_ready_list s := ns))"
    using schedule_ok [OF sched_okD(1) [OF ok'], of n ns INTR_ON] by auto
  have sub: "set (n # ns) \<subseteq> insert (cur s) (set (W (thread_ready_list s)))"
    using arg_cong [OF rq, of set] by auto
  then have "rr_ok (switched INTR_ON n L' ?s) as Q (W(thread_ready_list s := ns))"
    using okn m r unfolding rr_ok_def by (auto simp: requeued_def)
  then show thesis
    by (rule that [OF h [unfolded eq]]) (use sched_okD(2) [OF ok] in \<open>auto simp: requeued_def\<close>)
qed

lemma run_slice:
  "rr_ok s as Q W \<Longrightarrow> ticks (tasks s (cur s)) = of_nat k \<Longrightarrow> k < 256 \<Longrightarrow>
   W (thread_ready_list s) @ [cur s] = n # ns \<Longrightarrow>
   \<exists>s'. run_ticks (Suc k) s = Some s' \<and> rr_ok s' as Q (W(thread_ready_list s := ns)) \<and> cur s' = n \<and>
     thread_ready_list s' = thread_ready_list s \<and> (\<forall>t. t \<noteq> cur s \<longrightarrow> ticks (tasks s' t) = ticks (tasks s t))"
proof (induction k arbitrary: s)
  case 0
  then have z: "ticks (tasks s (cur s)) = 0"
    by simp
  obtain s' where "clock_tick s = Some s'" and "rr_ok s' as Q (W(thread_ready_list s := ns))" and "cur s' = n"
    and "thread_ready_list s' = thread_ready_list s"
    and "\<And>t. t \<noteq> cur s \<Longrightarrow> ticks (tasks s' t) = ticks (tasks s t)"
    by (rule clock_tick_switch [OF 0(1) z 0(4)]) blast
  moreover from this have "run_ticks (Suc 0) s = Some s'"
    by simp
  ultimately show ?case
    by blast
next
  case (Suc k)
  have "(of_nat (Suc k) :: u8) \<noteq> 0"
    using Suc.prems(3) by (simp add: word_of_nat_eq_0_iff nat_dvd_not_less del: of_nat_Suc)
  then obtain s1 where s1: "clock_tick s = Some s1" "rr_ok s1 as Q W" "cur s1 = cur s"
      "thread_ready_list s1 = thread_ready_list s" "ticks (tasks s1 (cur s)) = ticks (tasks s (cur s)) - 1"
      "\<And>t. t \<noteq> cur s \<Longrightarrow> tasks s1 t = tasks s t"
    using clock_tick_down [OF Suc.prems(1)] Suc.prems(2) by metis
  obtain s' where s': "run_ticks (Suc k) s1 = Some s'" "rr_ok s' as Q (W(thread_ready_list s1 := ns))" "cur s' = n"
      "thread_ready_list s' = thread_ready_list s1" "\<forall>t. t \<noteq> cur s1 \<longrightarrow> ticks (tasks s' t) = ticks (tasks s1 t)"
  proof -
    have "ticks (tasks s1 (cur s1)) = of_nat k" "k < 256" "W (thread_ready_list s1) @ [cur s1] = n # ns"
      using Suc.prems s1 by simp_all
    then show thesis
      using Suc.IH [OF s1(2)] that by blast
  qed
  moreover have "run_ticks (Suc (Suc k)) s = Some s'"
    using s1(1) s'(1) by simp
  ultimately show ?case
    using s1(3,4,6) by metis
qed

text \<open>The clock interrupts after which the thread behind \<open>us\<close> in the ready queue runs.\<close>

definition turn_after :: "'a kstate_scheme \<Rightarrow> addr list \<Rightarrow> nat" where
  "turn_after s us = (\<Sum>u\<leftarrow>cur s # us. Suc (unat (ticks (tasks s u))))"

lemma run_turn:
  "rr_ok s as Q W \<Longrightarrow> W (thread_ready_list s) = us @ t # vs \<Longrightarrow>
   \<exists>s' W'. run_ticks (turn_after s us) s = Some s' \<and> rr_ok s' as Q W' \<and> cur s' = t"
proof (induction us arbitrary: s W vs)
  case Nil
  then obtain s' where "run_ticks (Suc (unat (ticks (tasks s (cur s))))) s = Some s'"
      "rr_ok s' as Q (W(thread_ready_list s := vs @ [cur s]))" "cur s' = t"
    using run_slice [OF Nil.prems(1), of "unat (ticks (tasks s (cur s)))" t "vs @ [cur s]"]
      unsigned_less [of "ticks (tasks s (cur s))"] by auto
  then show ?case
    by (auto simp: turn_after_def)
next
  case (Cons u us)
  let ?k = "unat (ticks (tasks s (cur s)))"
  obtain s1 where s1: "run_ticks (Suc ?k) s = Some s1"
      "rr_ok s1 as Q (W(thread_ready_list s := us @ t # vs @ [cur s]))" "cur s1 = u"
      "thread_ready_list s1 = thread_ready_list s" "\<And>x. x \<noteq> cur s \<Longrightarrow> ticks (tasks s1 x) = ticks (tasks s x)"
    using run_slice [OF Cons.prems(1), of ?k u "us @ t # vs @ [cur s]"] Cons.prems(2)
      unsigned_less [of "ticks (tasks s (cur s))"] by auto
  have "cur s \<notin> set (u # us)"
    using Cons.prems sched_okD(3) sched_preD(2) [OF sched_okD(1)] unfolding rr_ok_def by fastforce
  then have "(\<Sum>x\<leftarrow>u # us. Suc (unat (ticks (tasks s1 x)))) = (\<Sum>x\<leftarrow>u # us. Suc (unat (ticks (tasks s x))))"
    using s1(5) by (intro arg_cong [where f = sum_list] map_cong refl) (metis)
  then have t: "turn_after s (u # us) = Suc ?k + turn_after s1 us"
    using s1(3) by (simp add: turn_after_def)
  have "\<exists>s' W'. run_ticks (turn_after s1 us) s1 = Some s' \<and> rr_ok s' as Q W' \<and> cur s' = t"
    using s1(4) by (intro Cons.IH [OF s1(2), of "vs @ [cur s]"]) simp
  then show ?case
    unfolding t run_ticks_add using s1(1) by simp
qed

section \<open>A concrete kernel\<close>

text \<open>
  Three threads: main runs, idle and a third one are ready, and there is one lock at 0x500 whose
  wait queue is empty. The lists are built by the list routines.
\<close>

definition sample_task :: "task_status \<Rightarrow> task_struct" where
  "sample_task st = \<lparr>self_kstack = 0, pid = 1, status = st, name = [], priority = 2, ticks = 0,
     elapsed_ticks = 0, pgdir = NULL,
     user_vaddr = \<lparr>vaddr_bitmap = \<lparr>btmp_bytes_len = 0, bits = []\<rparr>, vaddr_start = 0\<rparr>, u_block_desc = [],
     fd_table = [], cwd_inode_nr = 0, parent_pid = -1, exit_status = 0, stack_magic = 0x19870916\<rparr>"

definition sample_links :: links where
  "sample_links =
     list_append 0x100 (general_tag 0x3000) (list_append 0x100 (general_tag 0x2000)
      (list_append 0x200 (all_list_tag 0x3000) (list_append 0x200 (all_list_tag 0x2000)
       (list_append 0x200 (all_list_tag 0x1000)
        (list_init 0x508 (list_init 0x200 (list_init 0x100 \<lparr>lprev = (\<lambda>_. 0), lnext = (\<lambda>_. 0)\<rparr>)))))))"

definition sample_kstate :: kstate where
  "sample_kstate = \<lparr>intr = INTR_ON, cur = 0x1000,
     tasks = (\<lambda>t. sample_task (if t = 0x1000 then TASK_RUNNING else TASK_READY)),
     lnks = sample_links, thread_ready_list = 0x100, thread_all_list = 0x200, idle_thread = 0x2000,
     main_thread = 0x1000, resume = (\<lambda>_. INTR_ON), sema_value = (\<lambda>_. 1), lock_holder = (\<lambda>_. NULL),
     lock_repeat_nr = (\<lambda>_. 0),
     the_pid_pool = \<lparr>pid_bitmap = \<lparr>btmp_bytes_len = 0, bits = []\<rparr>, pid_start = 1, pid_lock = 0\<rparr>,
     phys = (\<lambda>_. 0), cr3 = 0x100000, tss_esp0 = 0, timer_ticks = 0\<rparr>"

definition sample_queues :: "addr \<Rightarrow> addr list" where
  "sample_queues = (\<lambda>_. [])(0x100 := [0x2000, 0x3000])"

lemma sample_lists:
  "lists_ok sample_links 0x200 [0x1000, 0x2000, 0x3000] {0x100, 0x508} sample_queues"
  by (simp add: lists_ok_def layout_ok_def list_rep_def list_head_def list_tail_def general_tag_def
      all_list_tag_def sample_queues_def sample_links_def list_append_def list_insert_before_def
      list_init_def NULL_def Let_def) auto

lemma sample_ok: "sched_ok sample_kstate [0x1000, 0x2000, 0x3000] {0x100, 0x508} sample_queues"
proof -
  have "spaces_ok (phys sample_kstate) (cr3 sample_kstate) (\<lambda>t. pgdir (tasks sample_kstate t)) as" for as
    unfolding spaces_ok_def by (rule exI [of _ "{0x100000}"]) (simp add: sample_kstate_def sample_task_def)
  then show ?thesis
    using sample_lists
    by (simp add: sched_ok_def sched_pre_def sample_queues_def) (simp add: sample_kstate_def sample_task_def NULL_def)
qed

section \<open>Properties\<close>

text \<open>
  Whenever \<^verbatim>\<open>schedule\<close> is entered with interrupts off in a consistent kernel, no assertion fires:
  the front of the ready queue gets the processor (the caller itself joins the end of the queue if it
  is still running, and the idle thread is woken when the queue is empty), the invariant holds again
  with exactly one running thread, and only the tasks that leave or get the processor are changed.
\<close>

theorem schedule_picks_front:
  assumes "sched_pre s as Q W" and "intr s = INTR_OFF" and "run_queue s W = n # ns"
  shows "\<exists>s'. schedule ret s = Some s' \<and> sched_ok s' as Q (W(thread_ready_list s := ns)) \<and> cur s' = n \<and>
    (\<forall>t\<in>set as. status (tasks s' t) = TASK_RUNNING \<longleftrightarrow> t = n) \<and>
    (\<forall>t. t \<noteq> n \<longrightarrow> t \<noteq> cur s \<longrightarrow> tasks s' t = tasks s t) \<and> intr s' = (if n = cur s then ret else resume s n)"
proof -
  obtain L' where st: "schedule ret s = Some (switched ret n L' s)"
    and ok: "sched_ok (switched ret n L' s) as Q (W(thread_ready_list s := ns))"
    by (rule schedule_ok [OF assms])
  have "\<forall>t\<in>set as. status (tasks (switched ret n L' s) t) = TASK_RUNNING \<longleftrightarrow> t = n"
    using sched_preD(7) [OF sched_okD(1) [OF ok]] sched_okD(2) [OF ok] unfolding switched_simps(2) by blast
  then show ?thesis
    using st ok by (intro exI [of _ "switched ret n L' s"]) (auto simp: requeued_def)
qed

theorem schedule_picks_front_witness:
  "\<exists>s'. schedule INTR_ON (sample_kstate\<lparr>intr := INTR_OFF\<rparr>) = Some s' \<and>
     sched_ok s' [0x1000, 0x2000, 0x3000] {0x100, 0x508}
       (sample_queues(thread_ready_list (sample_kstate\<lparr>intr := INTR_OFF\<rparr>) := [0x3000, 0x1000])) \<and>
     cur s' = 0x2000 \<and>
     (\<forall>t\<in>set [0x1000, 0x2000, 0x3000]. status (tasks s' t) = TASK_RUNNING \<longleftrightarrow> t = 0x2000) \<and>
     (\<forall>t. t \<noteq> 0x2000 \<longrightarrow> t \<noteq> cur (sample_kstate\<lparr>intr := INTR_OFF\<rparr>) \<longrightarrow>
        tasks s' t = tasks (sample_kstate\<lparr>intr := INTR_OFF\<rparr>) t) \<and>
     intr s' = (if 0x2000 = cur (sample_kstate\<lparr>intr := INTR_OFF\<rparr>) then INTR_ON
       else resume (sample_kstate\<lparr>intr := INTR_OFF\<rparr>) 0x2000)"
proof (rule schedule_picks_front)
  have "sched_ok (sample_kstate\<lparr>intr := INTR_OFF\<rparr>) [0x1000, 0x2000, 0x3000] {0x100, 0x508} sample_queues"
    by (rule sched_ok_frame [OF sample_ok]) simp_all
  then show "sched_pre (sample_kstate\<lparr>intr := INTR_OFF\<rparr>) [0x1000, 0x2000, 0x3000] {0x100, 0x508} sample_queues"
    by (rule sched_okD)
qed (simp_all add: run_queue_def sample_kstate_def sample_queues_def sample_task_def)



text \<open>
  C24. \<^verbatim>\<open>thread_block\<close> always hands the processor over: to the front of the ready queue, or to the idle
  thread when nothing is ready; the caller keeps the requested status and is in no queue it was not
  put into.
\<close>

theorem thread_block_hands_over:
  assumes "sched_ok s as Q W" and "stat \<in> {TASK_BLOCKED, TASK_WAITING, TASK_HANGING}"
    and "cur s \<noteq> idle_thread s"
  shows "\<exists>s'. thread_block stat s = Some s' \<and> cur s' = hd (W (thread_ready_list s) @ [idle_thread s]) \<and>
    status (tasks s' (cur s)) = stat \<and>
    sched_ok s' as Q (W(thread_ready_list s := tl (W (thread_ready_list s))))"
proof -
  obtain n ns where n: "W (thread_ready_list s) @ [idle_thread s] = n # ns"
    by (cases "W (thread_ready_list s) @ [idle_thread s]") auto
  have idle: "cur s = idle_thread s \<Longrightarrow> stat = TASK_BLOCKED"
    using assms(3) by simp
  obtain s' where s': "thread_block stat s = Some s'"
      "sched_ok s' as Q (W(thread_ready_list s := tl (W (thread_ready_list s))))"
      "cur s' = n" "status (tasks s' (cur s)) = (if n = cur s then TASK_RUNNING else stat)"
    by (rule thread_block_ok [OF assms(1,2) idle n])
  have "n \<noteq> cur s"
    using n sched_okD(3) [OF assms(1) sched_preD(2) [OF sched_okD(1) [OF assms(1)]]] assms(3)
    by (cases "W (thread_ready_list s)") auto
  then show ?thesis
    using s' n by auto
qed

theorem thread_block_hands_over_witness:
  "\<exists>s'. thread_block TASK_WAITING sample_kstate = Some s' \<and>
     cur s' = hd (sample_queues (thread_ready_list sample_kstate) @ [idle_thread sample_kstate]) \<and>
     status (tasks s' (cur sample_kstate)) = TASK_WAITING \<and>
     sched_ok s' [0x1000, 0x2000, 0x3000] {0x100, 0x508}
       (sample_queues(thread_ready_list sample_kstate := tl (sample_queues (thread_ready_list sample_kstate))))"
  by (rule thread_block_hands_over [OF sample_ok]) (simp_all add: sample_kstate_def)

end
