(* ===== verification/Sync.thy ===== *)
theory Sync
  imports Sched_Inv
begin

text \<open>
  Semaphores and locks, src/thread/sync.c. A \<^verbatim>\<open>struct semaphore\<close> at \<open>p\<close> has its list of waiters at
  \<open>p + 4\<close>, a \<^verbatim>\<open>struct lock\<close> at \<open>l\<close> its semaphore at \<open>l + 4\<close>; the scalar fields are maps of the kernel
  state.

  \<^verbatim>\<open>sema_down\<close> may give up the processor in the middle of its loop. \<open>sema_down_loop\<close> is one run from
  the head of the loop: it returns \<open>(True, s)\<close> when the semaphore was taken, and \<open>(False, s)\<close> when the
  thread went to sleep, \<open>s\<close> then being the state in which the next thread runs. A thread that sleeps
  has \<open>sema_down_loop\<close>, with the interrupt status it saved on entry, still to do when it gets the
  processor back.
\<close>

section \<open>Semaphores\<close>

definition sema_waiters :: "addr \<Rightarrow> addr" where
  "sema_waiters psema = psema + 4"

definition lock_semaphore :: "addr \<Rightarrow> addr" where
  "lock_semaphore plock = plock + 4"

definition set_sema_value :: "addr \<Rightarrow> u8 \<Rightarrow> 'a kstate_scheme \<Rightarrow> 'a kstate_scheme" where
  "set_sema_value psema v s = s\<lparr>sema_value := (sema_value s)(psema := v)\<rparr>"

definition sema_init :: "addr \<Rightarrow> u8 \<Rightarrow> 'a kstate_scheme \<Rightarrow> 'a kstate_scheme" where
  "sema_init psema val s =
     (let s1 = set_sema_value psema val s in s1\<lparr>lnks := list_init (sema_waiters psema) (lnks s1)\<rparr>)"

definition sema_down_loop :: "intr_status \<Rightarrow> addr \<Rightarrow> 'a kstate_scheme \<Rightarrow> (bool \<times> 'a kstate_scheme) option" where
  "sema_down_loop old_status psema s =
     (if sema_value s psema = 0 then do {
        found \<leftarrow> elem_find (sema_waiters psema) (general_tag (running_thread s)) (lnks s);
        ASSERT (\<not> found);
        found' \<leftarrow> elem_find (sema_waiters psema) (general_tag (running_thread s)) (lnks s);
        ASSERT (\<not> found');
        let s1 = s\<lparr>lnks := list_append (sema_waiters psema) (general_tag (running_thread s)) (lnks s)\<rparr>;
        s2 \<leftarrow> thread_block TASK_BLOCKED s1;
        Some (False, s2)
      } else do {
        let s1 = set_sema_value psema (sema_value s psema - 1) s;
        ASSERT (sema_value s1 psema = 0);
        Some (True, snd (intr_set_status old_status s1))
      })"

definition sema_down :: "addr \<Rightarrow> 'a kstate_scheme \<Rightarrow> (bool \<times> 'a kstate_scheme) option" where
  "sema_down psema s = (let (old_status, s1) = intr_disable s in sema_down_loop old_status psema s1)"

definition sema_up :: "addr \<Rightarrow> 'a kstate_scheme \<Rightarrow> 'a kstate_scheme option" where
  "sema_up psema s0 = do {
     let (old_status, s) = intr_disable s0;
     ASSERT (sema_value s psema = 0);
     s1 \<leftarrow> (if \<not> list_empty (sema_waiters psema) (lnks s) then do {
        let (tag, l) = list_pop (sema_waiters psema) (lnks s);
        thread_unblock (general_tag_entry tag) (s\<lparr>lnks := l\<rparr>)
      } else Some s);
     let s2 = set_sema_value psema (sema_value s1 psema + 1) s1;
     ASSERT (sema_value s2 psema = 1);
     Some (snd (intr_set_status old_status s2))
   }"

section \<open>Locks\<close>

definition set_lock :: "addr \<Rightarrow> addr \<Rightarrow> u32 \<Rightarrow> 'a kstate_scheme \<Rightarrow> 'a kstate_scheme" where
  "set_lock plock holder repeat_nr s =
     s\<lparr>lock_holder := (lock_holder s)(plock := holder),
       lock_repeat_nr := (lock_repeat_nr s)(plock := repeat_nr)\<rparr>"

definition lock_init :: "addr \<Rightarrow> 'a kstate_scheme \<Rightarrow> 'a kstate_scheme" where
  "lock_init plock s = sema_init (lock_semaphore plock) 1 (set_lock plock NULL 0 s)"

text \<open>What \<^verbatim>\<open>lock_acquire\<close> does once \<^verbatim>\<open>sema_down\<close> has returned to it.\<close>

definition lock_taken :: "addr \<Rightarrow> bool \<times> 'a kstate_scheme \<Rightarrow> (bool \<times> 'a kstate_scheme) option" where
  "lock_taken plock = (\<lambda>(taken, s).
     if taken then do {
       ASSERT (lock_repeat_nr s plock = 0);
       Some (True, set_lock plock (running_thread s) 1 s)
     } else Some (False, s))"

definition lock_acquire :: "addr \<Rightarrow> 'a kstate_scheme \<Rightarrow> (bool \<times> 'a kstate_scheme) option" where
  "lock_acquire plock s =
     (if lock_holder s plock \<noteq> running_thread s
      then sema_down (lock_semaphore plock) s \<bind> lock_taken plock
      else Some (True, set_lock plock (lock_holder s plock) (lock_repeat_nr s plock + 1) s))"

text \<open>A thread that slept in \<^verbatim>\<open>lock_acquire\<close> and has the processor again.\<close>

definition lock_acquire_resume :: "intr_status \<Rightarrow> addr \<Rightarrow> 'a kstate_scheme \<Rightarrow> (bool \<times> 'a kstate_scheme) option" where
  "lock_acquire_resume old_status plock s =
     sema_down_loop old_status (lock_semaphore plock) s \<bind> lock_taken plock"

definition lock_release :: "addr \<Rightarrow> 'a kstate_scheme \<Rightarrow> 'a kstate_scheme option" where
  "lock_release plock s = do {
     ASSERT (lock_holder s plock = running_thread s);
     if lock_repeat_nr s plock > 1
     then Some (set_lock plock (lock_holder s plock) (lock_repeat_nr s plock - 1) s)
     else do {
       ASSERT (lock_repeat_nr s plock = 1);
       sema_up (lock_semaphore plock) (set_lock plock NULL 0 s)
     }
   }"

text \<open>
  A call of \<^verbatim>\<open>lock_acquire\<close> by a routine whose model has no intermediate state: the routine goes on only
  if the lock was free or already its own, otherwise it does not come back in this activation.
\<close>

definition with_lock :: "addr \<Rightarrow> 'a kstate_scheme \<Rightarrow> 'a kstate_scheme option" where
  "with_lock plock s = do {
     (taken, s1) \<leftarrow> lock_acquire plock s;
     ASSERT taken;
     Some s1
   }"

section \<open>Semaphores and the scheduler\<close>

lemma set_sema_simps [simp]:
  "sema_value (set_sema_value p v s) = (sema_value s)(p := v)"
  "lnks (set_sema_value p v s) = lnks s" "cur (set_sema_value p v s) = cur s"
  "tasks (set_sema_value p v s) = tasks s" "intr (set_sema_value p v s) = intr s"
  "thread_ready_list (set_sema_value p v s) = thread_ready_list s"
  "thread_all_list (set_sema_value p v s) = thread_all_list s"
  "idle_thread (set_sema_value p v s) = idle_thread s"
  "lock_holder (set_sema_value p v s) = lock_holder s"
  "lock_repeat_nr (set_sema_value p v s) = lock_repeat_nr s"
  "resume (set_sema_value p v s) = resume s"
  "phys (set_sema_value p v s) = phys s" "cr3 (set_sema_value p v s) = cr3 s"
  by (simp_all add: set_sema_value_def)

lemma set_lock_simps [simp]:
  "lock_holder (set_lock p h n s) = (lock_holder s)(p := h)"
  "lock_repeat_nr (set_lock p h n s) = (lock_repeat_nr s)(p := n)"
  "sema_value (set_lock p h n s) = sema_value s"
  "lnks (set_lock p h n s) = lnks s" "cur (set_lock p h n s) = cur s"
  "tasks (set_lock p h n s) = tasks s" "intr (set_lock p h n s) = intr s"
  "thread_ready_list (set_lock p h n s) = thread_ready_list s"
  "thread_all_list (set_lock p h n s) = thread_all_list s"
  "idle_thread (set_lock p h n s) = idle_thread s"
  "resume (set_lock p h n s) = resume s"
  "phys (set_lock p h n s) = phys s" "cr3 (set_lock p h n s) = cr3 s"
  by (simp_all add: set_lock_def)

lemma sema_down_take:
  "sema_value s p = 1 \<Longrightarrow> sema_down p s = Some (True, (set_sema_value p 0 s)\<lparr>intr := intr s\<rparr>)"
  by (simp add: sema_down_def sema_down_loop_def set_sema_value_def Let_def)

lemma sema_loop_take:
  "sema_value s p = 1 \<Longrightarrow> sema_down_loop old p s = Some (True, (set_sema_value p 0 s)\<lparr>intr := old\<rparr>)"
  by (simp add: sema_down_loop_def set_sema_value_def Let_def)

text \<open>
  A semaphore at 0: the caller joins the end of the waiters and the front of the ready queue runs.
\<close>

lemma sema_loop_block:
  assumes ok: "sched_ok s as Q W" and q: "sema_waiters p \<in> Q" "sema_waiters p \<noteq> thread_ready_list s"
    and v: "sema_value s p = 0" and ni: "cur s \<noteq> idle_thread s"
    and rq: "W (thread_ready_list s) @ [idle_thread s] = n # ns"
  obtains s' where "sema_down_loop old p s = Some (False, s')"
    and "sched_ok s' as Q (W(sema_waiters p := W (sema_waiters p) @ [cur s],
           thread_ready_list s := tl (W (thread_ready_list s))))"
    and "cur s' = n" and "sema_value s' = sema_value s" and "lock_holder s' = lock_holder s"
    and "lock_repeat_nr s' = lock_repeat_nr s" and "thread_ready_list s' = thread_ready_list s"
    and "idle_thread s' = idle_thread s" and "thread_all_list s' = thread_all_list s"
    and "resume s' = (resume s)(cur s := intr s)" and "intr s' = (if n = cur s then intr s else resume s n)"
proof -
  let ?q = "sema_waiters p" and ?r = "thread_ready_list s"
  let ?s = "upd_task (cur s) (status_update (\<lambda>_. TASK_BLOCKED))
    (s\<lparr>lnks := list_append ?q (general_tag (cur s)) (lnks s), intr := INTR_OFF\<rparr>)"
  note pre = sched_okD(1) [OF ok] and nq = sched_okD(3) [OF ok]
  have L: "lists_ok (list_append ?q (general_tag (cur s)) (lnks s)) (thread_all_list s) as Q (W(?q := W ?q @ [cur s]))"
    by (rule lists_append [OF sched_preD(1) [OF pre] q(1) sched_preD(3) [OF pre] nq])
  have "sched_pre ?s as Q (W(?q := W ?q @ [cur s]))"
    by (rule leave_pre [OF ok L]) (use nq q ni sched_preD(2) [OF pre] in auto)
  moreover have "run_queue ?s (W(?q := W ?q @ [cur s])) = n # tl (W ?r)"
    using rq q(2) by (cases "W ?r") (auto simp: run_queue_def)
  ultimately obtain L' where sch: "schedule (intr s) ?s = Some (switched (intr s) n L' ?s)"
    and ok': "sched_ok (switched (intr s) n L' ?s) as Q (W(?q := W ?q @ [cur s], ?r := tl (W ?r)))"
    using schedule_ok [of ?s as Q "W(?q := W ?q @ [cur s])" n "tl (W ?r)" "intr s"] by auto
  have "sema_down_loop old p s = Some (False, switched (intr s) n L' ?s)"
    using sch v lists_find [OF sched_preD(1) [OF pre] q(1), of "cur s"] nq [OF q(1)]
    by (simp add: sema_down_loop_def thread_block_def running_thread_def Let_def intr_lnks)
  then show thesis
    by (rule that [OF _ ok']) simp_all
qed

lemma sema_up_ok:
  assumes ok: "sched_ok s as Q W" and q: "sema_waiters p \<in> Q" "sema_waiters p \<noteq> thread_ready_list s"
    and v: "sema_value s p = 0"
  obtains s' where "sema_up p s = Some s'"
    and "sched_ok s' as Q (case W (sema_waiters p) of [] \<Rightarrow> W
           | t # ts \<Rightarrow> W(sema_waiters p := ts, thread_ready_list s := t # W (thread_ready_list s)))"
    and "cur s' = cur s" and "sema_value s' = (sema_value s)(p := 1)" and "intr s' = intr s"
    and "lock_holder s' = lock_holder s" and "lock_repeat_nr s' = lock_repeat_nr s"
    and "thread_ready_list s' = thread_ready_list s" and "idle_thread s' = idle_thread s"
proof (cases "W (sema_waiters p)")
  case Nil
  note pre = sched_okD(1) [OF ok]
  have "list_empty (sema_waiters p) (lnks s)"
    using lists_empty [OF sched_preD(1) [OF pre] q(1)] Nil by simp
  then have "sema_up p s = Some (set_sema_value p 1 s)"
    using v by (simp add: sema_up_def Let_def set_sema_value_def)
  moreover have "sched_ok (set_sema_value p 1 s) as Q W"
    by (rule sched_ok_frame [OF ok]) simp_all
  ultimately show thesis
    using that [where s' = "set_sema_value p 1 s"] by (simp add: Nil)
next
  case (Cons t ts)
  let ?q = "sema_waiters p" and ?r = "thread_ready_list s"
  note pre = sched_okD(1) [OF ok]
  obtain L where pop: "list_pop ?q (lnks s) = (general_tag t, L)"
    and L: "lists_ok L (thread_all_list s) as Q (W(?q := ts))"
    by (rule lists_pop [OF sched_preD(1) [OF pre] q(1) Cons])
  let ?s = "s\<lparr>intr := INTR_OFF, lnks := L\<rparr>"
  have t: "t \<in> set as" "status (tasks s t) = TASK_BLOCKED" "\<And>q'. q' \<in> Q \<Longrightarrow> t \<notin> set ((W(?q := ts)) q')"
  proof -
    show "t \<in> set as"
      using W_subset [OF sched_preD(1) [OF pre] q(1)] Cons by auto
    show "status (tasks s t) = TASK_BLOCKED"
      using sched_preD(8) [OF pre q, of t] Cons by auto
    show "t \<notin> set ((W(?q := ts)) q')" if "q' \<in> Q" for q'
    proof (cases "q' = ?q")
      case True
      then show ?thesis
        using lists_ok_distinct [OF sched_preD(1) [OF pre] q(1)] Cons by auto
    next
      case False
      then have "set (W ?q) \<inter> set (W q') = {}"
        using sched_preD(1) [OF pre] q(1) that unfolding lists_ok_def by blast
      then show ?thesis
        using False Cons by auto
    qed
  qed
  have shrink: "set ((W(?q := ts)) q') \<subseteq> set (W q')" for q'
    using Cons by auto
  have oks: "sched_ok ?s as Q (W(?q := ts))"
    using ok L q shrink unfolding sched_ok_def sched_pre_def by (auto simp: Cons)
  have st: "status (tasks ?s t) \<in> {TASK_BLOCKED, TASK_WAITING, TASK_HANGING}"
    using t(2) by simp
  obtain s1 where s1: "thread_unblock t ?s = Some s1"
    and ok1: "sched_ok s1 as Q ((W(?q := ts))(thread_ready_list ?s := t # (W(?q := ts)) (thread_ready_list ?s)))"
    and f0: "cur s1 = cur ?s" "sema_value s1 = sema_value ?s" "lock_holder s1 = lock_holder ?s"
      "lock_repeat_nr s1 = lock_repeat_nr ?s" "thread_ready_list s1 = thread_ready_list ?s"
      "idle_thread s1 = idle_thread ?s"
    by (rule thread_unblock_ok [OF oks t(1) t(3) st])
  have ok1: "sched_ok s1 as Q ((W(?q := ts))(?r := t # W ?r))"
    using ok1 q(2) by simp
  note f = f0 [simplified]
  have "\<not> list_empty ?q (lnks s)"
    using lists_empty [OF sched_preD(1) [OF pre] q(1)] Cons by simp
  then have "sema_up p s = Some ((set_sema_value p 1 s1)\<lparr>intr := intr s\<rparr>)"
    using v pop s1 f by (simp add: sema_up_def Let_def)
  moreover have "sched_ok ((set_sema_value p 1 s1)\<lparr>intr := intr s\<rparr>) as Q ((W(?q := ts))(?r := t # W ?r))"
    by (rule sched_ok_frame [OF ok1]) simp_all
  ultimately show thesis
    using that [where s' = "(set_sema_value p 1 s1)\<lparr>intr := intr s\<rparr>"] by (simp add: Cons f)
qed

section \<open>An uncontended lock\<close>

text \<open>
  A lock that nobody holds and nobody waits for: taking it and giving it back costs nothing and
  leaves the state as it was, which is how the routines that guard their data with a lock use it.
\<close>

definition lock_free :: "addr \<Rightarrow> 'a kstate_scheme \<Rightarrow> bool" where
  "lock_free l s \<longleftrightarrow> lock_holder s l = NULL \<and> lock_repeat_nr s l = 0 \<and>
     sema_value s (lock_semaphore l) = 1 \<and> list_empty (sema_waiters (lock_semaphore l)) (lnks s) \<and> cur s \<noteq> NULL"

definition lock_mine :: "addr \<Rightarrow> 'a kstate_scheme \<Rightarrow> bool" where
  "lock_mine l s \<longleftrightarrow> lock_holder s l = cur s \<and> lock_repeat_nr s l = 1 \<and>
     sema_value s (lock_semaphore l) = 0 \<and> list_empty (sema_waiters (lock_semaphore l)) (lnks s) \<and> cur s \<noteq> NULL"

definition locked :: "addr \<Rightarrow> 'a kstate_scheme \<Rightarrow> 'a kstate_scheme" where
  "locked l s = s\<lparr>sema_value := (sema_value s)(lock_semaphore l := 0),
     lock_holder := (lock_holder s)(l := cur s), lock_repeat_nr := (lock_repeat_nr s)(l := 1)\<rparr>"

definition unlocked :: "addr \<Rightarrow> 'a kstate_scheme \<Rightarrow> 'a kstate_scheme" where
  "unlocked l s = s\<lparr>sema_value := (sema_value s)(lock_semaphore l := 1),
     lock_holder := (lock_holder s)(l := NULL), lock_repeat_nr := (lock_repeat_nr s)(l := 0)\<rparr>"

lemma with_lock_free: "lock_free l s \<Longrightarrow> with_lock l s = Some (locked l s)"
  by (auto simp: with_lock_def lock_free_def lock_acquire_def running_thread_def sema_down_take
      lock_taken_def locked_def set_lock_def set_sema_value_def)

lemma lock_release_mine: "lock_mine l s \<Longrightarrow> lock_release l s = Some (unlocked l s)"
  by (simp add: lock_release_def lock_mine_def running_thread_def sema_up_def set_lock_def
      set_sema_value_def unlocked_def Let_def)

lemma locked_mine: "lock_free l s \<Longrightarrow> lock_mine l (locked l s)"
  by (simp add: lock_free_def lock_mine_def locked_def)

lemma unlocked_locked: "lock_free l s \<Longrightarrow> unlocked l (locked l s) = s"
  by (simp add: lock_free_def unlocked_def locked_def fun_upd_idem)

end
