(* ===== verification/Lock_Machine.thy ===== *)
theory Lock_Machine
  imports Sync
begin

text \<open>
  The lock of src/thread/sync.c as a concurrent system: any number of threads that acquire, sleep
  on, wake up for and release one lock, interleaved by the clock, by yields and by blocking on other
  events. A configuration has the kernel state, the threads that sleep inside \<^verbatim>\<open>lock_acquire\<close> with
  the interrupt status they saved, and the threads that have come out of \<^verbatim>\<open>lock_acquire\<close> and not yet out
  of the matching \<^verbatim>\<open>lock_release\<close>. The last two are bookkeeping that the code does not have; every
  change of the kernel state is a routine of the model.
\<close>

section \<open>The steps\<close>

record lconf =
  ks :: kstate
  pend :: "addr \<Rightarrow> intr_status option"
  crit :: "addr set"

inductive lstep :: "addr \<Rightarrow> lconf \<Rightarrow> lconf \<Rightarrow> bool" for l where
  acquire: "pend c (cur (ks c)) = None \<Longrightarrow> cur (ks c) \<noteq> idle_thread (ks c) \<Longrightarrow>
    lock_acquire l (ks c) = Some (True, s') \<Longrightarrow>
    lstep l c (c\<lparr>ks := s', crit := insert (cur (ks c)) (crit c)\<rparr>)"
| sleep: "pend c (cur (ks c)) = None \<Longrightarrow> cur (ks c) \<noteq> idle_thread (ks c) \<Longrightarrow>
    lock_acquire l (ks c) = Some (False, s') \<Longrightarrow>
    lstep l c (c\<lparr>ks := s', pend := (pend c)(cur (ks c) := Some (intr (ks c)))\<rparr>)"
| retry_take: "pend c (cur (ks c)) = Some old \<Longrightarrow>
    lock_acquire_resume old l (ks c) = Some (True, s') \<Longrightarrow>
    lstep l c (c\<lparr>ks := s', pend := (pend c)(cur (ks c) := None), crit := insert (cur (ks c)) (crit c)\<rparr>)"
| retry_sleep: "pend c (cur (ks c)) = Some old \<Longrightarrow>
    lock_acquire_resume old l (ks c) = Some (False, s') \<Longrightarrow>
    lstep l c (c\<lparr>ks := s'\<rparr>)"
| release: "pend c (cur (ks c)) = None \<Longrightarrow> lock_release l (ks c) = Some s' \<Longrightarrow>
    lstep l c (c\<lparr>ks := s', crit := if lock_holder s' l = cur (ks c) then crit c else crit c - {cur (ks c)}\<rparr>)"
| tick: "pend c (cur (ks c)) = None \<Longrightarrow> clock_tick (ks c) = Some s' \<Longrightarrow> lstep l c (c\<lparr>ks := s'\<rparr>)"
| yield: "pend c (cur (ks c)) = None \<Longrightarrow> thread_yield (ks c) = Some s' \<Longrightarrow> lstep l c (c\<lparr>ks := s'\<rparr>)"
| block: "pend c (cur (ks c)) = None \<Longrightarrow> cur (ks c) = idle_thread (ks c) \<longrightarrow> stat = TASK_BLOCKED \<Longrightarrow>
    thread_block stat (ks c) = Some s' \<Longrightarrow> lstep l c (c\<lparr>ks := s'\<rparr>)"

abbreviation lreach :: "addr \<Rightarrow> lconf \<Rightarrow> lconf \<Rightarrow> bool" where
  "lreach l \<equiv> (lstep l)\<^sup>*\<^sup>*"

section \<open>What no routine of the scheduler changes\<close>

definition sync_part :: "'a kstate_scheme \<Rightarrow> (addr \<Rightarrow> u8) \<times> (addr \<Rightarrow> addr) \<times> (addr \<Rightarrow> u32) \<times> addr \<times> addr" where
  "sync_part s = (sema_value s, lock_holder s, lock_repeat_nr s, thread_ready_list s, idle_thread s)"

lemma sync_part_simps [simp]:
  "sync_part (s\<lparr>intr := i\<rparr>) = sync_part s" "sync_part (s\<lparr>lnks := L\<rparr>) = sync_part s"
  "sync_part (upd_task t f s) = sync_part s" "sync_part (switch_to r c n s) = sync_part s"
  "sync_part (s\<lparr>timer_ticks := k\<rparr>) = sync_part s"
  by (simp_all add: sync_part_def switch_to_def Let_def upd_task_def)

lemma sync_thread_unblock: "thread_unblock t s = Some s' \<Longrightarrow> sync_part s' = sync_part s"
  by (auto simp: thread_unblock_def Let_def ASSERT_bind split: if_splits elim!: bind_SomeE)

lemma sync_process_activate: "process_activate t s = Some s' \<Longrightarrow> sync_part s' = sync_part s"
  by (auto simp: process_activate_def page_dir_activate_def update_tss_esp_def sync_part_def Let_def
      ASSERT_bind bind_eq_Some_conv split: if_splits)

lemma sync_schedule: "schedule r s = Some s' \<Longrightarrow> sync_part s' = sync_part s"
  by (auto simp: schedule_def Let_def ASSERT_bind split: if_splits prod.splits elim!: bind_SomeE
      dest!: sync_thread_unblock sync_process_activate)

lemma sync_thread_block: "thread_block st s = Some s' \<Longrightarrow> sync_part s' = sync_part s"
  by (auto simp: thread_block_def Let_def ASSERT_bind split: if_splits dest!: sync_schedule)

lemma sync_thread_yield: "thread_yield s = Some s' \<Longrightarrow> sync_part s' = sync_part s"
  by (auto simp: thread_yield_def Let_def ASSERT_bind split: if_splits elim!: bind_SomeE dest!: sync_schedule)

lemma sync_clock_tick: "clock_tick s = Some s' \<Longrightarrow> sync_part s' = sync_part s"
  by (auto simp: clock_tick_def intr_timer_handler_def Let_def ASSERT_bind
      split: if_splits elim!: bind_SomeE dest!: sync_schedule)

section \<open>The invariant\<close>

text \<open>
  \<open>lock_state\<close>: the semaphore, the holder and the threads in the critical section agree.
  \<open>sleepers\<close>: exactly threads inside \<^verbatim>\<open>lock_acquire\<close> wait on the semaphore, and a thread inside
  \<^verbatim>\<open>lock_acquire\<close> is on the wait queue, on the ready queue or running. \<open>no_lost_wakeup\<close>: when the lock
  is free and somebody waits for it, then a thread that will retry is ready or running.
\<close>

definition lock_state :: "addr \<Rightarrow> lconf \<Rightarrow> bool" where
  "lock_state l c \<longleftrightarrow>
     crit c = (if lock_holder (ks c) l = NULL then {} else {lock_holder (ks c) l}) \<and>
     sema_value (ks c) (lock_semaphore l) = (if lock_holder (ks c) l = NULL then 1 else 0) \<and>
     (lock_holder (ks c) l = NULL \<longrightarrow> lock_repeat_nr (ks c) l = 0)"

definition lock_waiters :: "addr \<Rightarrow> addr" where
  "lock_waiters l = sema_waiters (lock_semaphore l)"

definition sleepers :: "addr \<Rightarrow> lconf \<Rightarrow> addr list \<Rightarrow> (addr \<Rightarrow> addr list) \<Rightarrow> bool" where
  "sleepers l c as W \<longleftrightarrow>
     (\<forall>t\<in>set (W (lock_waiters l)). pend c t \<noteq> None) \<and>
     (\<forall>t\<in>set as. pend c t \<noteq> None \<longrightarrow> t \<noteq> idle_thread (ks c) \<and>
        t \<in> set (W (lock_waiters l)) \<union> set (W (thread_ready_list (ks c))) \<union> {cur (ks c)})"

definition no_lost_wakeup :: "addr \<Rightarrow> lconf \<Rightarrow> (addr \<Rightarrow> addr list) \<Rightarrow> bool" where
  "no_lost_wakeup l c W \<longleftrightarrow>
     sema_value (ks c) (lock_semaphore l) = 1 \<longrightarrow> W (lock_waiters l) \<noteq> [] \<longrightarrow>
     (\<exists>t\<in>set (W (thread_ready_list (ks c))) \<union> {cur (ks c)}. pend c t \<noteq> None)"

definition lock_inv :: "addr \<Rightarrow> lconf \<Rightarrow> addr list \<Rightarrow> addr set \<Rightarrow> (addr \<Rightarrow> addr list) \<Rightarrow> bool" where
  "lock_inv l c as Q W \<longleftrightarrow>
     sched_ok (ks c) as Q W \<and> lock_waiters l \<in> Q \<and> lock_waiters l \<noteq> thread_ready_list (ks c) \<and>
     lock_state l c \<and> sleepers l c as W \<and> no_lost_wakeup l c W"

lemma lock_invD:
  assumes "lock_inv l c as Q W"
  shows "sched_ok (ks c) as Q W" "lock_waiters l \<in> Q" "lock_waiters l \<noteq> thread_ready_list (ks c)"
    "lock_state l c" "sleepers l c as W" "no_lost_wakeup l c W"
  using assms by (simp_all add: lock_inv_def)

text \<open>The processor moves on while nobody touches the lock.\<close>

lemma lock_inv_move:
  assumes inv: "lock_inv l c as Q W" and ok: "sched_ok s' as Q (W(thread_ready_list (ks c) := ns))"
    and sync: "sync_part s' = sync_part (ks c)"
    and keep: "\<And>t. pend c t \<noteq> None \<Longrightarrow>
      t \<in> set ns \<union> {cur s'} \<longleftrightarrow> t \<in> set (W (thread_ready_list (ks c))) \<union> {cur (ks c)}"
  shows "lock_inv l (c\<lparr>ks := s'\<rparr>) as Q (W(thread_ready_list (ks c) := ns))"
proof -
  let ?W = "W(thread_ready_list (ks c) := ns)"
  note d = lock_invD [OF inv]
  have f: "sema_value s' = sema_value (ks c)" "lock_holder s' = lock_holder (ks c)"
      "lock_repeat_nr s' = lock_repeat_nr (ks c)" "thread_ready_list s' = thread_ready_list (ks c)"
      "idle_thread s' = idle_thread (ks c)" "?W (lock_waiters l) = W (lock_waiters l)"
    using sync d(3) by (simp_all add: sync_part_def)
  have "lock_state l (c\<lparr>ks := s'\<rparr>)"
    using d(4) by (simp add: lock_state_def f)
  moreover have "sleepers l (c\<lparr>ks := s'\<rparr>) as ?W"
    using d(5) keep unfolding sleepers_def by (simp add: f del: fun_upd_apply) (simp, blast)
  moreover have "no_lost_wakeup l (c\<lparr>ks := s'\<rparr>) ?W"
  proof (unfold no_lost_wakeup_def, intro impI)
    assume "sema_value (ks (c\<lparr>ks := s'\<rparr>)) (lock_semaphore l) = 1" and "?W (lock_waiters l) \<noteq> []"
    then have "sema_value (ks c) (lock_semaphore l) = 1" "W (lock_waiters l) \<noteq> []"
      by (simp_all add: f(1) d(3))
    then obtain t where t: "t \<in> set (W (thread_ready_list (ks c))) \<union> {cur (ks c)}" "pend c t \<noteq> None"
      using d(6) unfolding no_lost_wakeup_def by blast
    then have "t \<in> set ns \<union> {cur s'}"
      using keep by blast
    then show "\<exists>t\<in>set (?W (thread_ready_list (ks (c\<lparr>ks := s'\<rparr>)))) \<union> {cur (ks (c\<lparr>ks := s'\<rparr>))}.
        pend (c\<lparr>ks := s'\<rparr>) t \<noteq> None"
      using t(2) by (intro bexI [of _ t]) (simp_all add: f(4))
  qed
  ultimately show ?thesis
    using ok d(2,3) by (simp add: lock_inv_def f)
qed

text \<open>The current thread takes the free lock, or enters it once more.\<close>

lemma lock_inv_take:
  assumes inv: "lock_inv l c as Q W" and ok: "sched_ok s' as Q W"
    and f: "cur s' = cur (ks c)" "thread_ready_list s' = thread_ready_list (ks c)"
      "idle_thread s' = idle_thread (ks c)" "lock_holder s' l = cur (ks c)"
      "sema_value s' (lock_semaphore l) = 0"
    and free: "lock_holder (ks c) l \<in> {NULL, cur (ks c)}"
  shows "lock_inv l \<lparr>ks = s', pend = (pend c)(cur (ks c) := None), crit = insert (cur (ks c)) (crit c)\<rparr> as Q W"
proof -
  note d = lock_invD [OF inv]
  have nn: "cur (ks c) \<noteq> NULL"
    using sched_preD(3,5) [OF sched_okD(1) [OF d(1)]] by auto
  have nw: "cur (ks c) \<notin> set (W (lock_waiters l))"
    by (rule sched_okD(3) [OF d(1,2)])
  show ?thesis
    using d(2-5) ok nn nw free
    by (auto simp: lock_inv_def lock_state_def sleepers_def no_lost_wakeup_def f)
qed

text \<open>The current thread finds the lock taken and goes to sleep.\<close>

lemma lock_inv_sleep:
  assumes inv: "lock_inv l c as Q W" and held: "sema_value (ks c) (lock_semaphore l) = 0"
    and ni: "cur (ks c) \<noteq> idle_thread (ks c)"
  obtains s' W' where "sema_down_loop old (lock_semaphore l) (ks c) = Some (False, s')"
    and "lock_inv l \<lparr>ks = s', pend = (pend c)(cur (ks c) := Some x), crit = crit c\<rparr> as Q W'"
proof -
  let ?s = "ks c"
  let ?r = "thread_ready_list ?s" and ?q = "lock_waiters l"
  note d = lock_invD [OF inv]
  obtain n ns where n: "W ?r @ [idle_thread ?s] = n # ns"
    by (cases "W ?r @ [idle_thread ?s]") auto
  obtain s' where s': "sema_down_loop old (lock_semaphore l) ?s = Some (False, s')"
    and ok: "sched_ok s' as Q (W(?q := W ?q @ [cur ?s], ?r := tl (W ?r)))"
    and f: "cur s' = n" "sema_value s' = sema_value ?s" "lock_holder s' = lock_holder ?s"
      "lock_repeat_nr s' = lock_repeat_nr ?s" "thread_ready_list s' = ?r" "idle_thread s' = idle_thread ?s"
    using sema_loop_block [OF d(1) _ _ held ni n, of old] d(2,3) unfolding lock_waiters_def by metis
  have "set (W ?r) \<subseteq> insert n (set (tl (W ?r)))"
    using n by (cases "W ?r") auto
  then have "lock_inv l \<lparr>ks = s', pend = (pend c)(cur (ks c) := Some x), crit = crit c\<rparr> as Q
      (W(?q := W ?q @ [cur ?s], ?r := tl (W ?r)))"
    using d(2-5) ok ni held by (auto simp: lock_inv_def lock_state_def sleepers_def no_lost_wakeup_def f)
  then show thesis
    using that s' by blast
qed

lemma lock_inv_release:
  assumes inv: "lock_inv l c as Q W" and h: "lock_holder (ks c) l = cur (ks c)"
    and r: "lock_repeat_nr (ks c) l = 1" and p: "pend c (cur (ks c)) = None"
  obtains s' W' where "lock_release l (ks c) = Some s'" and "lock_holder s' l = NULL"
    and "lock_inv l \<lparr>ks = s', pend = pend c, crit = crit c - {cur (ks c)}\<rparr> as Q W'"
proof -
  let ?s = "set_lock l NULL 0 (ks c)"
  let ?r = "thread_ready_list (ks c)" and ?q = "lock_waiters l"
  note d = lock_invD [OF inv]
  have nn: "cur (ks c) \<noteq> NULL"
    using sched_preD(3,5) [OF sched_okD(1) [OF d(1)]] by auto
  have ok: "sched_ok ?s as Q W"
    by (rule sched_ok_frame [OF d(1)]) simp_all
  have q: "sema_waiters (lock_semaphore l) \<in> Q" "sema_waiters (lock_semaphore l) \<noteq> thread_ready_list ?s"
      "sema_value ?s (lock_semaphore l) = 0"
    using d(2-4) h nn by (simp_all add: lock_waiters_def lock_state_def)
  define W' where "W' = (case W ?q of [] \<Rightarrow> W | t # ts \<Rightarrow> W(?q := ts, ?r := t # W ?r))"
  obtain s' where s': "sema_up (lock_semaphore l) ?s = Some s'" and ok0: "sched_ok s' as Q
      (case W (sema_waiters (lock_semaphore l)) of [] \<Rightarrow> W | t # ts \<Rightarrow>
         W(sema_waiters (lock_semaphore l) := ts, thread_ready_list ?s := t # W (thread_ready_list ?s)))"
    and f0: "cur s' = cur ?s" "sema_value s' = (sema_value ?s)(lock_semaphore l := 1)"
      "lock_holder s' = lock_holder ?s" "lock_repeat_nr s' = lock_repeat_nr ?s"
      "thread_ready_list s' = thread_ready_list ?s" "idle_thread s' = idle_thread ?s"
    by (rule sema_up_ok [OF ok q])
  note f = f0 [unfolded set_lock_simps]
  have ok': "sched_ok s' as Q W'"
    using ok0 unfolding W'_def lock_waiters_def set_lock_simps .
  have "lock_inv l \<lparr>ks = s', pend = pend c, crit = crit c - {cur (ks c)}\<rparr> as Q W'"
    using d(2-5) ok' nn h by (cases "W ?q")
      (auto simp: lock_inv_def lock_state_def sleepers_def no_lost_wakeup_def f W'_def)
  moreover have "lock_release l (ks c) = Some s'"
    using s' h r by (simp add: lock_release_def running_thread_def)
  ultimately show thesis
    using that f by simp
qed

section \<open>Every step returns and keeps the invariant\<close>

lemma lconf_updates:
  "c\<lparr>ks := s, crit := X\<rparr> = \<lparr>ks = s, pend = pend c, crit = X\<rparr>"
  "c\<lparr>ks := s, pend := p\<rparr> = \<lparr>ks = s, pend = p, crit = crit c\<rparr>"
  "c\<lparr>ks := s, pend := p, crit := X\<rparr> = \<lparr>ks = s, pend = p, crit = X\<rparr>"
  "c\<lparr>ks := s\<rparr> = \<lparr>ks = s, pend = pend c, crit = crit c\<rparr>"
  by simp_all

lemma lock_acquire_inv:
  assumes inv: "lock_inv l c as Q W" and ni: "cur (ks c) \<noteq> idle_thread (ks c)"
    and p: "pend c (cur (ks c)) = None"
  shows "(\<exists>s'. lock_acquire l (ks c) = Some (True, s') \<and> lock_holder (ks c) l \<in> {NULL, cur (ks c)} \<and>
        lock_inv l (c\<lparr>ks := s', crit := insert (cur (ks c)) (crit c)\<rparr>) as Q W) \<or>
    (\<exists>s' W'. lock_acquire l (ks c) = Some (False, s') \<and> lock_holder (ks c) l \<notin> {NULL, cur (ks c)} \<and>
        lock_inv l (c\<lparr>ks := s', pend := (pend c)(cur (ks c) := Some (intr (ks c)))\<rparr>) as Q W')"
proof -
  note d = lock_invD [OF inv]
  have nn: "cur (ks c) \<noteq> NULL"
    using sched_preD(3,5) [OF sched_okD(1) [OF d(1)]] by auto
  have same: "(pend c)(cur (ks c) := None) = pend c"
    using p by auto
  consider (again) "lock_holder (ks c) l = cur (ks c)" | (free) "lock_holder (ks c) l = NULL"
    | (held) "lock_holder (ks c) l \<notin> {NULL, cur (ks c)}"
    by blast
  then show ?thesis
  proof cases
    case again
    let ?s = "set_lock l (cur (ks c)) (lock_repeat_nr (ks c) l + 1) (ks c)"
    have "sched_ok ?s as Q W"
      by (rule sched_ok_frame [OF d(1)]) simp_all
    then have "lock_inv l \<lparr>ks = ?s, pend = (pend c)(cur (ks c) := None), crit = insert (cur (ks c)) (crit c)\<rparr> as Q W"
      using again nn d(4) by (intro lock_inv_take [OF inv]) (simp_all add: lock_state_def)
    then show ?thesis
      using again by (simp add: lock_acquire_def running_thread_def same lconf_updates)
  next
    case free
    let ?s = "set_lock l (cur (ks c)) 1 ((set_sema_value (lock_semaphore l) 0 (ks c))\<lparr>intr := intr (ks c)\<rparr>)"
    have v: "sema_value (ks c) (lock_semaphore l) = 1" "lock_repeat_nr (ks c) l = 0"
      using free d(4) by (simp_all add: lock_state_def)
    have "sched_ok ?s as Q W"
      by (rule sched_ok_frame [OF d(1)]) simp_all
    then have "lock_inv l \<lparr>ks = ?s, pend = (pend c)(cur (ks c) := None), crit = insert (cur (ks c)) (crit c)\<rparr> as Q W"
      using free by (intro lock_inv_take [OF inv]) simp_all
    moreover have "lock_acquire l (ks c) = Some (True, ?s)"
      using free nn v sema_down_take [OF v(1)]
      by (simp add: lock_acquire_def lock_taken_def running_thread_def)
    ultimately show ?thesis
      using free by (simp add: same lconf_updates)
  next
    case held
    let ?c = "c\<lparr>ks := (ks c)\<lparr>intr := INTR_OFF\<rparr>\<rparr>"
    have "sched_ok (ks ?c) as Q W"
      by (rule sched_ok_frame [OF d(1)]) simp_all
    then have inv': "lock_inv l ?c as Q W"
      using d(2-6) by (simp add: lock_inv_def lock_state_def sleepers_def no_lost_wakeup_def)
    have v: "sema_value (ks ?c) (lock_semaphore l) = 0" "cur (ks ?c) \<noteq> idle_thread (ks ?c)"
      using held d(4) ni by (simp_all add: lock_state_def)
    obtain s' W' where "sema_down_loop (intr (ks c)) (lock_semaphore l) (ks ?c) = Some (False, s')"
      and "lock_inv l \<lparr>ks = s', pend = (pend ?c)(cur (ks ?c) := Some (intr (ks c))), crit = crit ?c\<rparr> as Q W'"
      by (rule lock_inv_sleep [OF inv' v])
    then show ?thesis
      using held by (auto simp: lock_acquire_def sema_down_def lock_taken_def running_thread_def lconf_updates)
  qed
qed

lemma lock_resume_inv:
  assumes inv: "lock_inv l c as Q W" and p: "pend c (cur (ks c)) = Some old"
  shows "(\<exists>s'. lock_acquire_resume old l (ks c) = Some (True, s') \<and> lock_holder (ks c) l = NULL \<and>
        lock_inv l (c\<lparr>ks := s', pend := (pend c)(cur (ks c) := None), crit := insert (cur (ks c)) (crit c)\<rparr>) as Q W) \<or>
    (\<exists>s' W'. lock_acquire_resume old l (ks c) = Some (False, s') \<and> lock_holder (ks c) l \<noteq> NULL \<and>
        lock_inv l (c\<lparr>ks := s'\<rparr>) as Q W')"
proof -
  note d = lock_invD [OF inv]
  have ni: "cur (ks c) \<noteq> idle_thread (ks c)"
    using d(5) p sched_preD(3) [OF sched_okD(1) [OF d(1)]] by (auto simp: sleepers_def)
  show ?thesis
  proof (cases "lock_holder (ks c) l = NULL")
    case True
    let ?s = "set_lock l (cur (ks c)) 1 ((set_sema_value (lock_semaphore l) 0 (ks c))\<lparr>intr := old\<rparr>)"
    have v: "sema_value (ks c) (lock_semaphore l) = 1" "lock_repeat_nr (ks c) l = 0"
      using True d(4) by (simp_all add: lock_state_def)
    have "sched_ok ?s as Q W"
      by (rule sched_ok_frame [OF d(1)]) simp_all
    then have "lock_inv l \<lparr>ks = ?s, pend = (pend c)(cur (ks c) := None), crit = insert (cur (ks c)) (crit c)\<rparr> as Q W"
      using True by (intro lock_inv_take [OF inv]) simp_all
    moreover have "lock_acquire_resume old l (ks c) = Some (True, ?s)"
      using True v by (simp add: lock_acquire_resume_def sema_loop_take lock_taken_def running_thread_def)
    ultimately show ?thesis
      using True by (simp add: lconf_updates)
  next
    case False
    then have v: "sema_value (ks c) (lock_semaphore l) = 0"
      using d(4) by (simp add: lock_state_def)
    obtain s' W' where "sema_down_loop old (lock_semaphore l) (ks c) = Some (False, s')"
      and "lock_inv l \<lparr>ks = s', pend = (pend c)(cur (ks c) := Some old), crit = crit c\<rparr> as Q W'"
      by (rule lock_inv_sleep [OF inv v ni])
    moreover have "(pend c)(cur (ks c) := Some old) = pend c"
      using p by auto
    ultimately show ?thesis
      using False by (auto simp: lock_acquire_resume_def lock_taken_def lconf_updates)
  qed
qed

lemma lock_yield_inv:
  assumes inv: "lock_inv l c as Q W" and y: "thread_yield (ks c) = Some s'"
  shows "\<exists>W'. lock_inv l (c\<lparr>ks := s'\<rparr>) as Q W'"
proof -
  let ?r = "thread_ready_list (ks c)"
  note d = lock_invD [OF inv]
  obtain n ns where n: "W ?r @ [cur (ks c)] = n # ns"
    by (cases "W ?r @ [cur (ks c)]") auto
  have "sched_ok s' as Q (W(?r := ns)) \<and> cur s' = n"
    using thread_yield_ok [OF d(1) n] y by (metis option.inject)
  moreover have "set ns \<union> {n} = set (W ?r) \<union> {cur (ks c)}"
    using arg_cong [OF n, of set] by auto
  ultimately show ?thesis
    using lock_inv_move [OF inv, of s' ns] sync_thread_yield [OF y] by auto
qed

lemma lock_tick_inv:
  assumes inv: "lock_inv l c as Q W" and y: "clock_tick (ks c) = Some s'"
  shows "\<exists>W'. lock_inv l (c\<lparr>ks := s'\<rparr>) as Q W'"
proof (cases "intr (ks c)")
  case INTR_OFF
  then have "s' = ks c"
    using y by (simp add: clock_tick_def)
  then show ?thesis
    using inv by auto
next
  case INTR_ON
  let ?r = "thread_ready_list (ks c)"
  note d = lock_invD [OF inv]
  have m: "stack_magic (tasks (ks c) (cur (ks c))) = 0x19870916"
    using y INTR_ON by (auto simp: clock_tick_def intr_timer_handler_def running_thread_def
        ASSERT_bind Let_def elim!: bind_SomeE split: if_splits)
  obtain n ns where n: "W ?r @ [cur (ks c)] = n # ns"
    by (cases "W ?r @ [cur (ks c)]") auto
  have "sched_ok s' as Q W \<and> cur s' = cur (ks c) \<or> sched_ok s' as Q (W(?r := ns)) \<and> cur s' = n"
    using clock_tick_ok [OF d(1) INTR_ON m] n y by (metis option.inject)
  moreover have "set ns \<union> {n} = set (W ?r) \<union> {cur (ks c)}"
    using arg_cong [OF n, of set] by auto
  ultimately show ?thesis
    using lock_inv_move [OF inv, of s' ns] lock_inv_move [OF inv, of s' "W ?r"] sync_clock_tick [OF y]
    by auto
qed

lemma lock_block_inv:
  assumes inv: "lock_inv l c as Q W" and y: "thread_block stat (ks c) = Some s'"
    and p: "pend c (cur (ks c)) = None" and idle: "cur (ks c) = idle_thread (ks c) \<longrightarrow> stat = TASK_BLOCKED"
  shows "\<exists>W'. lock_inv l (c\<lparr>ks := s'\<rparr>) as Q W'"
proof -
  let ?r = "thread_ready_list (ks c)"
  note d = lock_invD [OF inv]
  have st: "stat \<in> {TASK_BLOCKED, TASK_WAITING, TASK_HANGING}"
    using y by (auto simp: thread_block_def ASSERT_bind split: if_splits)
  obtain n ns where n: "W ?r @ [idle_thread (ks c)] = n # ns"
    by (cases "W ?r @ [idle_thread (ks c)]") auto
  have ok: "sched_ok s' as Q (W(?r := tl (W ?r))) \<and> cur s' = n"
    using thread_block_ok [OF d(1) st _ n] idle y by (metis option.inject)
  have "n \<in> set (W ?r) \<or> pend c n = None \<and> W ?r = []"
  proof (cases "W ?r")
    case Nil
    then show ?thesis
      using n d(5) sched_preD(4) [OF sched_okD(1) [OF d(1)]] by (auto simp: sleepers_def)
  qed (use n in auto)
  then have "t \<in> set (tl (W ?r)) \<union> {n} \<longleftrightarrow> t \<in> set (W ?r) \<union> {cur (ks c)}" if "pend c t \<noteq> None" for t
    using that p n by (cases "W ?r") auto
  then show ?thesis
    using lock_inv_move [OF inv, of s' "tl (W ?r)"] ok sync_thread_block [OF y] by auto
qed

lemma lock_release_inv:
  assumes inv: "lock_inv l c as Q W" and y: "lock_release l (ks c) = Some s'"
    and p: "pend c (cur (ks c)) = None"
  shows "\<exists>W'. lock_inv l (c\<lparr>ks := s', crit := if lock_holder s' l = cur (ks c) then crit c
    else crit c - {cur (ks c)}\<rparr>) as Q W'"
proof -
  note d = lock_invD [OF inv]
  have nn: "cur (ks c) \<noteq> NULL"
    using sched_preD(3,5) [OF sched_okD(1) [OF d(1)]] by auto
  have h: "lock_holder (ks c) l = cur (ks c)"
    using y by (auto simp: lock_release_def running_thread_def ASSERT_bind split: if_splits)
  show ?thesis
  proof (cases "lock_repeat_nr (ks c) l > 1")
    case True
    then have s': "s' = set_lock l (cur (ks c)) (lock_repeat_nr (ks c) l - 1) (ks c)"
      using y h by (simp add: lock_release_def running_thread_def)
    have "sched_ok s' as Q W"
      by (rule sched_ok_frame [OF d(1)]) (simp_all add: s')
    then have "lock_inv l (c\<lparr>ks := s'\<rparr>) as Q W"
      using d(2-6) h nn by (simp add: lock_inv_def lock_state_def sleepers_def no_lost_wakeup_def s')
    then show ?thesis
      by (auto simp: s')
  next
    case False
    then have r: "lock_repeat_nr (ks c) l = 1"
      using y h by (auto simp: lock_release_def running_thread_def ASSERT_bind split: if_splits)
    obtain s1 W' where "lock_release l (ks c) = Some s1" "lock_holder s1 l = NULL"
      and "lock_inv l \<lparr>ks = s1, pend = pend c, crit = crit c - {cur (ks c)}\<rparr> as Q W'"
      by (rule lock_inv_release [OF inv h r p])
    then show ?thesis
      using y nn by (auto simp: lconf_updates(1))
  qed
qed

lemma lstep_inv:
  assumes "lstep l c c'" and "lock_inv l c as Q W"
  shows "\<exists>W'. lock_inv l c' as Q W'"
  using assms
proof cases
  case (acquire s')
  then show ?thesis
    using lock_acquire_inv [OF assms(2) acquire(3,2)] by auto
next
  case (sleep s')
  then show ?thesis
    using lock_acquire_inv [OF assms(2) sleep(3,2)] by auto
next
  case (retry_take old s')
  then show ?thesis
    using lock_resume_inv [OF assms(2) retry_take(2)] by auto
next
  case (retry_sleep old s')
  then show ?thesis
    using lock_resume_inv [OF assms(2) retry_sleep(2)] by auto
next
  case (release s')
  then show ?thesis
    using lock_release_inv [OF assms(2) release(3,2)] by auto
next
  case (tick s')
  then show ?thesis
    using lock_tick_inv [OF assms(2) tick(3)] by auto
next
  case (yield s')
  then show ?thesis
    using lock_yield_inv [OF assms(2) yield(3)] by auto
next
  case (block stat s')
  then show ?thesis
    using lock_block_inv [OF assms(2) block(4,2,3)] by auto
qed

lemma lreach_inv:
  assumes "lreach l c c'" and "lock_inv l c as Q W"
  shows "\<exists>W'. lock_inv l c' as Q W'"
  using assms
proof (induction rule: rtranclp_induct)
  case (step y z)
  then show ?case
    using lstep_inv by blast
qed blast

text \<open>A system that has just initialised the lock.\<close>

definition lock_start :: "addr \<Rightarrow> kstate \<Rightarrow> lconf" where
  "lock_start l s = \<lparr>ks = s, pend = (\<lambda>_. None), crit = {}\<rparr>"

lemma lock_start_inv:
  assumes "sched_ok s as Q W" and "lock_waiters l \<in> Q" and "lock_waiters l \<noteq> thread_ready_list s"
    and "W (lock_waiters l) = []" and "lock_holder s l = NULL" and "lock_repeat_nr s l = 0"
    and "sema_value s (lock_semaphore l) = 1"
  shows "lock_inv l (lock_start l s) as Q W"
  using assms by (simp add: lock_inv_def lock_start_def lock_state_def sleepers_def no_lost_wakeup_def)

lemma sample_lock_inv:
  "lock_inv 0x500 (lock_start 0x500 sample_kstate) [0x1000, 0x2000, 0x3000] {0x100, 0x508} sample_queues"
  by (rule lock_start_inv [OF sample_ok])
     (simp_all add: sample_kstate_def sample_queues_def lock_waiters_def sema_waiters_def lock_semaphore_def)

lemma sample_lock_step:
  obtains s' where "lreach 0x500 (lock_start 0x500 sample_kstate)
    ((lock_start 0x500 sample_kstate)\<lparr>ks := s', crit := {0x1000}\<rparr>)"
proof -
  have "lock_acquire 0x500 sample_kstate \<noteq> None \<and> fst (the (lock_acquire 0x500 sample_kstate))"
    by (simp add: lock_acquire_def running_thread_def sample_kstate_def NULL_def lock_taken_def
        sema_down_def sema_down_loop_def)
  then obtain s' where "lock_acquire 0x500 sample_kstate = Some (True, s')"
    by (cases "lock_acquire 0x500 sample_kstate") auto
  then have "lstep 0x500 (lock_start 0x500 sample_kstate)
      ((lock_start 0x500 sample_kstate)\<lparr>ks := s', crit := insert (cur (ks (lock_start 0x500 sample_kstate)))
         (crit (lock_start 0x500 sample_kstate))\<rparr>)"
    by (intro lstep.acquire) (simp_all add: lock_start_def sample_kstate_def)
  then show thesis
    by (intro that [of s'] r_into_rtranclp) (simp add: lock_start_def sample_kstate_def)
qed

section \<open>Properties\<close>







end
