(* ===== verification/Ioqueue.thy ===== *)
theory Ioqueue
  imports Sync
begin

text \<open>
  The ring buffer between interrupt handlers and threads, src/device/ioqueue.c. \<^verbatim>\<open>head\<close> and \<^verbatim>\<open>tail\<close>
  are \<^verbatim>\<open>int32_t\<close> in the code; they start at 0 and only \<^verbatim>\<open>next_pos\<close> changes them, so they stay in
  \<open>0 .. 63\<close> and are natural numbers here.

  As in \<^verbatim>\<open>sema_down\<close>, a routine that puts its thread to sleep returns the state in which the next
  thread runs, with the result \<open>None\<close> for the byte. The sleeping consumer or producer goes on with
  \<open>ioq_getchar_resume\<close> or \<open>ioq_putchar_resume\<close>: release the lock and test the loop condition again.
\<close>

section \<open>The routines\<close>

definition bufsize :: nat where
  "bufsize = 64"

record ioqueue =
  ioq_lock :: addr
  producer :: addr
  consumer :: addr
  buf :: "u8 list"
  ioq_head :: nat
  ioq_tail :: nat

definition ioqueue_init :: "ioqueue \<Rightarrow> 'a kstate_scheme \<Rightarrow> ioqueue \<times> 'a kstate_scheme" where
  "ioqueue_init ioq s =
     (ioq\<lparr>producer := NULL, consumer := NULL, ioq_tail := 0, ioq_head := 0\<rparr>, lock_init (ioq_lock ioq) s)"

definition next_pos :: "nat \<Rightarrow> nat" where
  "next_pos pos = (pos + 1) mod bufsize"

definition ioq_full :: "ioqueue \<Rightarrow> 'a kstate_scheme \<Rightarrow> bool option" where
  "ioq_full ioq s = do {
     ASSERT (intr_get_status s = INTR_OFF);
     Some (next_pos (ioq_head ioq) = ioq_tail ioq)
   }"

definition ioq_empty :: "ioqueue \<Rightarrow> 'a kstate_scheme \<Rightarrow> bool option" where
  "ioq_empty ioq s = do {
     ASSERT (intr_get_status s = INTR_OFF);
     Some (ioq_head ioq = ioq_tail ioq)
   }"

text \<open>
  \<^verbatim>\<open>ioq_wait\<close> and \<^verbatim>\<open>wakeup\<close> get the address of the field \<^verbatim>\<open>producer\<close> or \<^verbatim>\<open>consumer\<close>, which is never null;
  here they get the value and return the new one.
\<close>

definition ioq_wait :: "addr \<Rightarrow> 'a kstate_scheme \<Rightarrow> (addr \<times> 'a kstate_scheme) option" where
  "ioq_wait waiter s = do {
     ASSERT (waiter = NULL);
     s1 \<leftarrow> thread_block TASK_BLOCKED s;
     Some (running_thread s, s1)
   }"

definition wakeup :: "addr \<Rightarrow> 'a kstate_scheme \<Rightarrow> (addr \<times> 'a kstate_scheme) option" where
  "wakeup waiter s = do {
     ASSERT (waiter \<noteq> NULL);
     s1 \<leftarrow> thread_unblock waiter s;
     Some (NULL, s1)
   }"

text \<open>The byte is taken from, or put into, the buffer and the cursor moves.\<close>

definition ioq_take :: "ioqueue \<Rightarrow> (u8 \<times> ioqueue) option" where
  "ioq_take ioq = do {
     byte \<leftarrow> rd (buf ioq) (ioq_tail ioq);
     Some (byte, ioq\<lparr>ioq_tail := next_pos (ioq_tail ioq)\<rparr>)
   }"

definition ioq_store :: "u8 \<Rightarrow> ioqueue \<Rightarrow> ioqueue option" where
  "ioq_store byte ioq = do {
     b \<leftarrow> wr (buf ioq) (ioq_head ioq) byte;
     Some (ioq\<lparr>buf := b, ioq_head := next_pos (ioq_head ioq)\<rparr>)
   }"

definition ioq_get_loop :: "ioqueue \<Rightarrow> 'a kstate_scheme \<Rightarrow> (u8 option \<times> ioqueue \<times> 'a kstate_scheme) option" where
  "ioq_get_loop ioq s = do {
     empty \<leftarrow> ioq_empty ioq s;
     if empty then do {
       (taken, s1) \<leftarrow> lock_acquire (ioq_lock ioq) s;
       if \<not> taken then Some (None, ioq, s1)
       else do {
         (w, s2) \<leftarrow> ioq_wait (consumer ioq) s1;
         Some (None, ioq\<lparr>consumer := w\<rparr>, s2)
       }
     } else do {
       (byte, ioq1) \<leftarrow> ioq_take ioq;
       if producer ioq1 \<noteq> NULL then do {
         (w, s1) \<leftarrow> wakeup (producer ioq1) s;
         Some (Some byte, ioq1\<lparr>producer := w\<rparr>, s1)
       } else Some (Some byte, ioq1, s)
     }
   }"

definition ioq_getchar :: "ioqueue \<Rightarrow> 'a kstate_scheme \<Rightarrow> (u8 option \<times> ioqueue \<times> 'a kstate_scheme) option" where
  "ioq_getchar ioq s = do {
     ASSERT (intr_get_status s = INTR_OFF);
     ioq_get_loop ioq s
   }"

definition ioq_getchar_resume :: "ioqueue \<Rightarrow> 'a kstate_scheme \<Rightarrow> (u8 option \<times> ioqueue \<times> 'a kstate_scheme) option" where
  "ioq_getchar_resume ioq s = do {
     s1 \<leftarrow> lock_release (ioq_lock ioq) s;
     ioq_get_loop ioq s1
   }"

definition ioq_put_loop :: "u8 \<Rightarrow> ioqueue \<Rightarrow> 'a kstate_scheme \<Rightarrow> (bool \<times> ioqueue \<times> 'a kstate_scheme) option" where
  "ioq_put_loop byte ioq s = do {
     full \<leftarrow> ioq_full ioq s;
     if full then do {
       (taken, s1) \<leftarrow> lock_acquire (ioq_lock ioq) s;
       if \<not> taken then Some (False, ioq, s1)
       else do {
         (w, s2) \<leftarrow> ioq_wait (producer ioq) s1;
         Some (False, ioq\<lparr>producer := w\<rparr>, s2)
       }
     } else do {
       ioq1 \<leftarrow> ioq_store byte ioq;
       if consumer ioq1 \<noteq> NULL then do {
         (w, s1) \<leftarrow> wakeup (consumer ioq1) s;
         Some (True, ioq1\<lparr>consumer := w\<rparr>, s1)
       } else Some (True, ioq1, s)
     }
   }"

definition ioq_putchar :: "u8 \<Rightarrow> ioqueue \<Rightarrow> 'a kstate_scheme \<Rightarrow> (bool \<times> ioqueue \<times> 'a kstate_scheme) option" where
  "ioq_putchar byte ioq s = do {
     ASSERT (intr_get_status s = INTR_OFF);
     ioq_put_loop byte ioq s
   }"

definition ioq_putchar_resume :: "u8 \<Rightarrow> ioqueue \<Rightarrow> 'a kstate_scheme \<Rightarrow> (bool \<times> ioqueue \<times> 'a kstate_scheme) option" where
  "ioq_putchar_resume byte ioq s = do {
     s1 \<leftarrow> lock_release (ioq_lock ioq) s;
     ioq_put_loop byte ioq s1
   }"

section \<open>The bytes in the buffer\<close>

definition ioq_ok :: "ioqueue \<Rightarrow> bool" where
  "ioq_ok ioq \<longleftrightarrow> length (buf ioq) = bufsize \<and> ioq_head ioq < bufsize \<and> ioq_tail ioq < bufsize"

definition ioq_count :: "ioqueue \<Rightarrow> nat" where
  "ioq_count ioq = (ioq_head ioq + bufsize - ioq_tail ioq) mod bufsize"

definition ioq_contents :: "ioqueue \<Rightarrow> u8 list" where
  "ioq_contents ioq = map (\<lambda>k. buf ioq ! ((ioq_tail ioq + k) mod bufsize)) [0..<ioq_count ioq]"

lemma ioq_okD: "ioq_ok q \<Longrightarrow> ioq_head q < 64" "ioq_ok q \<Longrightarrow> ioq_tail q < 64" "ioq_ok q \<Longrightarrow> length (buf q) = 64"
  by (simp_all add: ioq_ok_def bufsize_def)

lemma wrap_mod: "a < 64 \<Longrightarrow> k < 64 \<Longrightarrow> (a + k) mod 64 = (if a + k < 64 then a + k else a + k - 64)" for a k :: nat
  by (auto simp: mod_if)

lemma next_pos_eq: "p < 64 \<Longrightarrow> next_pos p = (if p = 63 then 0 else p + 1)"
  by (auto simp: next_pos_def bufsize_def)

lemma ioq_count_eq:
  "ioq_ok q \<Longrightarrow> ioq_count q =
     (if ioq_tail q \<le> ioq_head q then ioq_head q - ioq_tail q else ioq_head q + 64 - ioq_tail q)"
  using ioq_okD [of q] by (auto simp: ioq_count_def bufsize_def mod_if)

lemma ioq_count_lt: "ioq_count q < 64"
  by (simp add: ioq_count_def bufsize_def)

lemma ioq_ok_next:
  "ioq_ok q \<Longrightarrow> ioq_ok (q\<lparr>ioq_tail := next_pos (ioq_tail q)\<rparr>)"
  "ioq_ok q \<Longrightarrow> ioq_ok (q\<lparr>buf := (buf q)[i := x], ioq_head := next_pos (ioq_head q)\<rparr>)"
  by (simp_all add: ioq_ok_def next_pos_def bufsize_def)

lemma ioq_slot_free:
  assumes "ioq_ok q"
  shows "(ioq_tail q + ioq_count q) mod bufsize = ioq_head q"
    and "k < ioq_count q \<Longrightarrow> ioq_head q \<noteq> (ioq_tail q + k) mod bufsize"
  using ioq_okD [OF assms] ioq_count_lt [of q] ioq_count_eq [OF assms]
  by (auto simp: wrap_mod bufsize_def split: if_splits)

lemma ioq_full_iff: "ioq_ok q \<Longrightarrow> (next_pos (ioq_head q) = ioq_tail q) = (length (ioq_contents q) = bufsize - 1)"
  using ioq_okD [of q] by (auto simp: next_pos_eq ioq_contents_def ioq_count_eq bufsize_def)

lemma ioq_empty_iff: "ioq_ok q \<Longrightarrow> (ioq_head q = ioq_tail q) = (ioq_contents q = [])"
  using ioq_okD [of q] by (auto simp: ioq_contents_def ioq_count_eq)

lemma ioq_store_ok:
  assumes "ioq_ok q" and "length (ioq_contents q) < bufsize - 1"
  obtains q' where "ioq_store x q = Some q'" and "ioq_ok q'" and "ioq_contents q' = ioq_contents q @ [x]"
    and "producer q' = producer q" and "consumer q' = consumer q" and "ioq_lock q' = ioq_lock q"
proof -
  let ?q = "q\<lparr>buf := (buf q)[ioq_head q := x], ioq_head := next_pos (ioq_head q)\<rparr>"
  have nf: "next_pos (ioq_head q) \<noteq> ioq_tail q"
    using assms ioq_full_iff by fastforce
  have ok: "ioq_ok ?q"
    by (rule ioq_ok_next(2) [OF assms(1)])
  have cnt: "ioq_count ?q = Suc (ioq_count q)"
    using nf ioq_okD [OF assms(1)] unfolding ioq_count_eq [OF ok] ioq_count_eq [OF assms(1)]
    by (auto simp: next_pos_eq split: if_splits)
  have "map (\<lambda>k. buf ?q ! ((ioq_tail q + k) mod bufsize)) [0..<ioq_count q] = ioq_contents q"
    unfolding ioq_contents_def using ioq_slot_free(2) [OF assms(1)] by (intro map_cong) auto
  moreover have "buf ?q ! ((ioq_tail q + ioq_count q) mod bufsize) = x"
    unfolding ioq_slot_free(1) [OF assms(1)] using ioq_okD [OF assms(1)] by simp
  ultimately have "ioq_contents ?q = ioq_contents q @ [x]"
    by (simp add: ioq_contents_def [of ?q] cnt)
  moreover have "ioq_store x q = Some ?q"
    using assms(1) by (simp add: ioq_store_def ioq_ok_def)
  ultimately show thesis
    using that [of ?q] ok by simp
qed

lemma ioq_take_ok:
  assumes "ioq_ok q" and "ioq_contents q = x # xs"
  obtains q' where "ioq_take q = Some (x, q')" and "ioq_ok q'" and "ioq_contents q' = xs"
    and "producer q' = producer q" and "consumer q' = consumer q" and "ioq_lock q' = ioq_lock q"
proof -
  let ?q = "q\<lparr>ioq_tail := next_pos (ioq_tail q)\<rparr>"
  note h = ioq_okD [OF assms(1)]
  have ok: "ioq_ok ?q"
    by (rule ioq_ok_next(1) [OF assms(1)])
  have "ioq_count q = length (x # xs)"
    unfolding assms(2) [symmetric] by (simp add: ioq_contents_def)
  then have cnt: "ioq_count q = Suc (ioq_count ?q)"
    using h unfolding ioq_count_eq [OF ok] ioq_count_eq [OF assms(1)]
    by (auto simp: next_pos_eq split: if_splits)
  have "ioq_contents q = buf q ! (ioq_tail q) # map (\<lambda>k. buf q ! ((ioq_tail q + Suc k) mod bufsize)) [0..<ioq_count ?q]"
    unfolding ioq_contents_def cnt using h
    by (simp add: upt_conv_Cons map_Suc_upt [symmetric] bufsize_def comp_def del: upt_Suc)
  moreover have "(ioq_tail q + Suc k) mod bufsize = (next_pos (ioq_tail q) + k) mod bufsize" for k
    by (simp add: next_pos_def mod_simps)
  ultimately have x: "x = buf q ! ioq_tail q" "ioq_contents ?q = xs"
    using assms(2) by (simp_all add: ioq_contents_def)
  moreover have "ioq_take q = Some (x, ?q)"
    using h x by (simp add: ioq_take_def)
  ultimately show thesis
    using that [of ?q] ok by simp
qed

interpretation ring: fifo ioq_ok ioq_contents "\<lambda>q x. length (ioq_contents q) < bufsize - 1"
  "\<lambda>x q. the (ioq_store x q)" "\<lambda>q. the (ioq_take q)" "\<lambda>q. ioq_head q = ioq_tail q"
proof unfold_locales
  show "ioq_ok q \<Longrightarrow> length (ioq_contents q) < bufsize - 1 \<Longrightarrow>
      ioq_ok (the (ioq_store x q)) \<and> ioq_contents (the (ioq_store x q)) = ioq_contents q @ [x]" for q x
    by (rule ioq_store_ok [of q x]) simp_all
  show "ioq_ok q \<Longrightarrow> ioq_contents q = x # xs \<Longrightarrow> fst (the (ioq_take q)) = x \<and>
      ioq_ok (snd (the (ioq_take q))) \<and> ioq_contents (snd (the (ioq_take q))) = xs" for q x xs
    by (rule ioq_take_ok [of q x xs]) simp_all
  show "ioq_ok q \<Longrightarrow> (ioq_head q = ioq_tail q) = (ioq_contents q = [])" for q
    by (rule ioq_empty_iff)
qed

section \<open>Putting and getting\<close>

lemma ioq_putchar_quiet:
  assumes "ioq_ok q" and "length (ioq_contents q) < bufsize - 1" and "intr s = INTR_OFF" and "consumer q = NULL"
  obtains q' where "ioq_putchar x q s = Some (True, q', s)" and "ioq_ok q'"
    and "ioq_contents q' = ioq_contents q @ [x]" and "producer q' = producer q" and "consumer q' = NULL"
proof (rule ioq_store_ok [OF assms(1,2), of x])
  fix q' assume q': "ioq_store x q = Some q'" "ioq_ok q'" "ioq_contents q' = ioq_contents q @ [x]"
    "producer q' = producer q" "consumer q' = consumer q"
  have "next_pos (ioq_head q) \<noteq> ioq_tail q"
    using ioq_full_iff [OF assms(1)] assms(2) by simp
  then have "ioq_putchar x q s = Some (True, q', s)"
    using q' assms(3,4) by (simp add: ioq_putchar_def ioq_put_loop_def ioq_full_def intr_get_status_def)
  then show thesis
    using that q' assms(4) by simp
qed

lemma ioq_getchar_quiet:
  assumes "ioq_ok q" and "ioq_contents q = x # xs" and "intr s = INTR_OFF" and "producer q = NULL"
  obtains q' where "ioq_getchar q s = Some (Some x, q', s)" and "ioq_ok q'"
    and "ioq_contents q' = xs" and "producer q' = NULL" and "consumer q' = consumer q"
proof (rule ioq_take_ok [OF assms(1,2)])
  fix q' assume q': "ioq_take q = Some (x, q')" "ioq_ok q'" "ioq_contents q' = xs"
    "producer q' = producer q" "consumer q' = consumer q"
  have "ioq_head q \<noteq> ioq_tail q"
    using ioq_empty_iff [OF assms(1)] assms(2) by simp
  then have "ioq_getchar q s = Some (Some x, q', s)"
    using q' assms(3,4) by (simp add: ioq_getchar_def ioq_get_loop_def ioq_empty_def intr_get_status_def)
  then show thesis
    using that q' assms(4) by simp
qed

text \<open>A string of bytes put, and a number of bytes got, with no thread asleep on the queue.\<close>

fun put_all :: "u8 list \<Rightarrow> ioqueue \<Rightarrow> 'a kstate_scheme \<Rightarrow> (ioqueue \<times> 'a kstate_scheme) option" where
  "put_all [] q s = Some (q, s)"
| "put_all (x # xs) q s = do { (ok, q1, s1) \<leftarrow> ioq_putchar x q s; ASSERT ok; put_all xs q1 s1 }"

fun get_all :: "nat \<Rightarrow> ioqueue \<Rightarrow> 'a kstate_scheme \<Rightarrow> (u8 list \<times> ioqueue \<times> 'a kstate_scheme) option" where
  "get_all 0 q s = Some ([], q, s)"
| "get_all (Suc n) q s = do {
     (r, q1, s1) \<leftarrow> ioq_getchar q s;
     x \<leftarrow> r;
     (xs, q2, s2) \<leftarrow> get_all n q1 s1;
     Some (x # xs, q2, s2)
   }"

lemma put_all_quiet:
  "ioq_ok q \<Longrightarrow> length (ioq_contents q) + length xs < bufsize \<Longrightarrow> intr s = INTR_OFF \<Longrightarrow> consumer q = NULL \<Longrightarrow>
   \<exists>q'. put_all xs q s = Some (q', s) \<and> ioq_ok q' \<and> ioq_contents q' = ioq_contents q @ xs \<and>
     producer q' = producer q \<and> consumer q' = NULL"
proof (induction xs arbitrary: q)
  case (Cons x xs)
  then have room: "length (ioq_contents q) < bufsize - 1"
    by simp
  obtain q1 where q1: "ioq_putchar x q s = Some (True, q1, s)" "ioq_ok q1"
      "ioq_contents q1 = ioq_contents q @ [x]" "producer q1 = producer q" "consumer q1 = NULL"
    by (rule ioq_putchar_quiet [OF Cons.prems(1) room Cons.prems(3,4)])
  then show ?case
    using Cons.IH [of q1] Cons.prems by auto
qed simp

lemma get_all_quiet:
  "ioq_ok q \<Longrightarrow> ioq_contents q = xs @ ys \<Longrightarrow> intr s = INTR_OFF \<Longrightarrow> producer q = NULL \<Longrightarrow>
   \<exists>q'. get_all (length xs) q s = Some (xs, q', s) \<and> ioq_ok q' \<and> ioq_contents q' = ys"
proof (induction xs arbitrary: q)
  case (Cons x xs)
  then have c: "ioq_contents q = x # (xs @ ys)"
    by simp
  obtain q1 where q1: "ioq_getchar q s = Some (Some x, q1, s)" "ioq_ok q1" "ioq_contents q1 = xs @ ys"
      "producer q1 = NULL"
    by (rule ioq_getchar_quiet [OF Cons.prems(1) c Cons.prems(3,4)])
  then obtain q2 where "get_all (length xs) q1 s = Some (xs, q2, s)" "ioq_ok q2" "ioq_contents q2 = ys"
    using Cons.IH [of q1] Cons.prems(3) by blast
  then show ?case
    using q1 by simp
qed simp

lemma ioq_putchar_wake:
  assumes ok: "ioq_ok q" "length (ioq_contents q) < bufsize - 1" and off: "intr s = INTR_OFF"
    and sok: "sched_ok s as Q W" and t: "consumer q = t" "t \<in> set as" "\<And>q'. q' \<in> Q \<Longrightarrow> t \<notin> set (W q')"
    and st: "status (tasks s t) = TASK_BLOCKED"
  obtains q' s' where "ioq_putchar x q s = Some (True, q', s')" and "ioq_ok q'"
    and "ioq_contents q' = ioq_contents q @ [x]" and "consumer q' = NULL"
    and "sched_ok s' as Q (W(thread_ready_list s := t # W (thread_ready_list s)))"
    and "cur s' = cur s" and "intr s' = INTR_OFF" and "producer q' = producer q"
proof (rule ioq_store_ok [OF ok, of x])
  fix q' assume q': "ioq_store x q = Some q'" "ioq_ok q'" "ioq_contents q' = ioq_contents q @ [x]"
    "producer q' = producer q" "consumer q' = consumer q" "ioq_lock q' = ioq_lock q"
  have nn: "t \<noteq> NULL"
    using t(2) sched_preD(5) [OF sched_okD(1) [OF sok]] by auto
  have st': "status (tasks s t) \<in> {TASK_BLOCKED, TASK_WAITING, TASK_HANGING}"
    using st by simp
  obtain s' where s': "thread_unblock t s = Some s'"
      "sched_ok s' as Q (W(thread_ready_list s := t # W (thread_ready_list s)))" "cur s' = cur s" "intr s' = intr s"
    by (rule thread_unblock_ok [OF sok t(2,3) st'])
  have "next_pos (ioq_head q) \<noteq> ioq_tail q"
    using ioq_full_iff [OF ok(1)] ok(2) by simp
  then have "ioq_putchar x q s = Some (True, q'\<lparr>consumer := NULL\<rparr>, s')"
    using q' s'(1) off nn t(1)
    by (simp add: ioq_putchar_def ioq_put_loop_def ioq_full_def intr_get_status_def wakeup_def)
  moreover have "ioq_ok (q'\<lparr>consumer := NULL\<rparr>)" "ioq_contents (q'\<lparr>consumer := NULL\<rparr>) = ioq_contents q @ [x]"
    using q' by (simp_all add: ioq_ok_def ioq_contents_def ioq_count_def)
  ultimately show thesis
    using that [of "q'\<lparr>consumer := NULL\<rparr>" s'] s' off q' by simp
qed

section \<open>Properties\<close>

definition sample_ioq :: ioqueue where
  "sample_ioq = \<lparr>ioq_lock = 0x500, producer = NULL, consumer = NULL, buf = replicate 64 7, ioq_head = 2, ioq_tail = 62\<rparr>"

lemma sample_ioq_ok: "ioq_ok sample_ioq" "length (ioq_contents sample_ioq) = 4"
  by (simp_all add: ioq_ok_def sample_ioq_def bufsize_def ioq_contents_def ioq_count_def)

text \<open>
  C33. The ring buffer is a queue: bytes put into it, as long as fewer than 64 are in it at a time, come
  out in the order in which they were put in, behind those that were already there, wherever the
  cursors stand.
\<close>

theorem ioqueue_in_order:
  assumes "ioq_ok q" and "intr s = INTR_OFF" and "consumer q = NULL" and "producer q = NULL"
    and "length (ioq_contents q) + length xs < 64"
  shows "\<exists>q1 q2. put_all xs q s = Some (q1, s) \<and>
    get_all (length (ioq_contents q) + length xs) q1 s = Some (ioq_contents q @ xs, q2, s) \<and> ioq_contents q2 = []"
proof -
  obtain q1 where q1: "put_all xs q s = Some (q1, s)" "ioq_ok q1" "ioq_contents q1 = ioq_contents q @ xs"
      "producer q1 = NULL"
    using put_all_quiet [OF assms(1), of xs s] assms(2-5) by (auto simp: bufsize_def)
  then show ?thesis
    using get_all_quiet [of q1 "ioq_contents q @ xs" "[]" s] assms(2) by auto
qed

theorem ioqueue_in_order_witness:
  "\<exists>q1 q2. put_all [1, 2] sample_ioq (sample_kstate\<lparr>intr := INTR_OFF\<rparr>) = Some (q1, sample_kstate\<lparr>intr := INTR_OFF\<rparr>) \<and>
     get_all (length (ioq_contents sample_ioq) + length [1, 2 :: u8]) q1 (sample_kstate\<lparr>intr := INTR_OFF\<rparr>) =
       Some (ioq_contents sample_ioq @ [1, 2], q2, sample_kstate\<lparr>intr := INTR_OFF\<rparr>) \<and> ioq_contents q2 = []"
  by (rule ioqueue_in_order) (simp_all add: sample_ioq_ok, simp_all add: sample_ioq_def)

text \<open>
  C34. A consumer that sleeps on the queue is woken by the first byte: it becomes the front of the ready
  queue, the queue forgets it, and the byte is in the buffer.
\<close>

theorem ioq_putchar_wakes_consumer:
  assumes "ioq_ok q" and "length (ioq_contents q) < 63" and "intr s = INTR_OFF" and "sched_ok s as Q W"
    and "consumer q \<in> set as" and "\<forall>q'\<in>Q. consumer q \<notin> set (W q')"
    and "status (tasks s (consumer q)) = TASK_BLOCKED"
  shows "\<exists>q' s'. ioq_putchar x q s = Some (True, q', s') \<and> ioq_contents q' = ioq_contents q @ [x] \<and>
    consumer q' = NULL \<and>
    sched_ok s' as Q (W(thread_ready_list s := consumer q # W (thread_ready_list s)))"
proof -
  have room: "length (ioq_contents q) < bufsize - 1"
    using assms(2) by (simp add: bufsize_def)
  show ?thesis
    using ioq_putchar_wake [OF assms(1) room assms(3,4) refl assms(5) _ assms(7), of x] assms(6) by metis
qed

definition sample_sleeper :: kstate where
  "sample_sleeper = sample_kstate\<lparr>intr := INTR_OFF, tasks := (tasks sample_kstate)(0x4000 := sample_task TASK_BLOCKED),
     lnks := list_append 0x200 (all_list_tag 0x4000) sample_links\<rparr>"

lemma sample_sleeper_ok:
  "sched_ok sample_sleeper [0x1000, 0x2000, 0x3000, 0x4000] {0x100, 0x508} sample_queues"
proof -
  have "lists_ok (list_append 0x200 (all_list_tag 0x4000) sample_links) 0x200 [0x1000, 0x2000, 0x3000, 0x4000]
      {0x100, 0x508} sample_queues"
    by (simp add: lists_ok_def layout_ok_def list_rep_def list_head_def list_tail_def general_tag_def
      all_list_tag_def sample_queues_def sample_links_def list_append_def list_insert_before_def
      list_init_def NULL_def Let_def) auto
  moreover have "spaces_ok (phys sample_sleeper) (cr3 sample_sleeper) (\<lambda>t. pgdir (tasks sample_sleeper t)) as" for as
    unfolding spaces_ok_def
    by (rule exI [of _ "{0x100000}"]) (simp add: sample_sleeper_def sample_kstate_def sample_task_def)
  ultimately show ?thesis
    by (simp add: sched_ok_def sched_pre_def sample_queues_def)
       (simp add: sample_sleeper_def sample_kstate_def sample_task_def NULL_def)
qed

theorem ioq_putchar_wakes_consumer_witness:
  "\<exists>q' s'. ioq_putchar 65 (sample_ioq\<lparr>consumer := 0x4000\<rparr>) sample_sleeper = Some (True, q', s') \<and>
     ioq_contents q' = ioq_contents (sample_ioq\<lparr>consumer := 0x4000\<rparr>) @ [65] \<and> consumer q' = NULL \<and>
     sched_ok s' [0x1000, 0x2000, 0x3000, 0x4000] {0x100, 0x508}
       (sample_queues(thread_ready_list sample_sleeper :=
          consumer (sample_ioq\<lparr>consumer := 0x4000\<rparr>) # sample_queues (thread_ready_list sample_sleeper)))"
proof (rule ioq_putchar_wakes_consumer [OF _ _ _ sample_sleeper_ok])
  show "ioq_ok (sample_ioq\<lparr>consumer := 0x4000\<rparr>)" "length (ioq_contents (sample_ioq\<lparr>consumer := 0x4000\<rparr>)) < 63"
    using sample_ioq_ok by (simp_all add: ioq_ok_def ioq_contents_def ioq_count_def)
qed (simp_all add: sample_sleeper_def sample_queues_def sample_task_def)

end
