(* ===== verification/Keyboard.thy ===== *)
theory Keyboard
  imports Cstring Ioqueue
begin

text \<open>
  The keyboard interrupt handler of src/device/keyboard.c: a state machine over scan codes that keeps
  the state of the modifier keys and feeds the characters to the queue \<^verbatim>\<open>kbd_buf\<close>. The byte read from
  the port is an argument of the handler; the messages it prints with \<^verbatim>\<open>put_str\<close> are collected in
  \<open>kbd_msgs\<close>.
\<close>

section \<open>The key map\<close>

definition keymap_plain :: "u8 list" where
  "keymap_plain = [0, 27] @ str_bytes ''1234567890-='' @ [8, 9] @ str_bytes ''qwertyuiop[]'' @ [13, 0] @
     str_bytes ''asdfghjkl;'' @ [39, 96, 0, 92] @ str_bytes ''zxcvbnm,./'' @ [0, 42, 0, 32, 0]"

definition keymap_shift :: "u8 list" where
  "keymap_shift = [0, 27] @ str_bytes ''!@#$%^&*()_+'' @ [8, 9] @ str_bytes ''QWERTYUIOP{}'' @ [13, 0] @
     str_bytes ''ASDFGHJKL:'' @ [34, 126, 0, 124] @ str_bytes ''ZXCVBNM<>?'' @ [0, 42, 0, 32, 0]"

definition keymap :: "nat \<Rightarrow> bool \<Rightarrow> u8 option" where
  "keymap index shift = rd (if shift then keymap_shift else keymap_plain) index"

section \<open>The handler\<close>

record kbd =
  ctrl_status :: bool
  shift_status :: bool
  alt_status :: bool
  caps_lock_status :: bool
  ext_scancode :: bool
  kbd_buf :: ioqueue
  kbd_msgs :: "string list"

definition shift_l_make :: u16 where "shift_l_make = 0x2a"
definition shift_r_make :: u16 where "shift_r_make = 0x36"
definition alt_l_make :: u16 where "alt_l_make = 0x38"
definition alt_r_make :: u16 where "alt_r_make = 0xe038"
definition ctrl_l_make :: u16 where "ctrl_l_make = 0x1d"
definition ctrl_r_make :: u16 where "ctrl_r_make = 0xe01d"
definition caps_lock_make :: u16 where "caps_lock_make = 0x3a"

lemmas make_codes = shift_l_make_def shift_r_make_def alt_l_make_def alt_r_make_def ctrl_l_make_def
  ctrl_r_make_def caps_lock_make_def

text \<open>The branch of a break code: a modifier key was released.\<close>

definition kbd_break :: "u16 \<Rightarrow> kbd \<Rightarrow> kbd" where
  "kbd_break make_code k =
     (if make_code = ctrl_l_make \<or> make_code = ctrl_r_make then k\<lparr>ctrl_status := False\<rparr>
      else if make_code = shift_l_make \<or> make_code = shift_r_make then k\<lparr>shift_status := False\<rparr>
      else if make_code = alt_l_make \<or> make_code = alt_r_make then k\<lparr>alt_status := False\<rparr>
      else k)"

text \<open>Which column of the key map a make code selects.\<close>

definition kbd_shift :: "u16 \<Rightarrow> bool \<Rightarrow> bool \<Rightarrow> bool" where
  "kbd_shift scancode shift_down_last caps_lock_last =
     (if scancode < 0x0e \<or> scancode = 0x29 \<or> scancode = 0x1a \<or> scancode = 0x1b \<or> scancode = 0x2b \<or>
         scancode = 0x27 \<or> scancode = 0x28 \<or> scancode = 0x33 \<or> scancode = 0x34 \<or> scancode = 0x35
      then shift_down_last
      else if shift_down_last \<and> caps_lock_last then False
      else if shift_down_last \<or> caps_lock_last then True
      else False)"

text \<open>A make code with no character: a modifier key was pressed.\<close>

definition kbd_modifier :: "u16 \<Rightarrow> kbd \<Rightarrow> kbd" where
  "kbd_modifier scancode k =
     (if scancode = ctrl_l_make \<or> scancode = ctrl_r_make then k\<lparr>ctrl_status := True\<rparr>
      else if scancode = shift_l_make \<or> scancode = shift_r_make then k\<lparr>shift_status := True\<rparr>
      else if scancode = alt_l_make \<or> scancode = alt_r_make then k\<lparr>alt_status := True\<rparr>
      else if scancode = caps_lock_make then k\<lparr>caps_lock_status := \<not> caps_lock_status k\<rparr>
      else k)"

definition intr_keyboard_handler ::
  "u8 \<Rightarrow> kbd \<Rightarrow> 'a kstate_scheme \<Rightarrow> (kbd \<times> 'a kstate_scheme) option" where
  "intr_keyboard_handler inp k s =
     (let ctrl_down_last = ctrl_status k; shift_down_last = shift_status k; caps_lock_last = caps_lock_status k;
          scancode0 = (ucast inp :: u16)
      in if scancode0 = 0xe0 then Some (k\<lparr>ext_scancode := True\<rparr>, s)
         else
           let scancode1 = (if ext_scancode k then 0xe000 OR scancode0 else scancode0);
               k1 = (if ext_scancode k then k\<lparr>ext_scancode := False\<rparr> else k)
           in if scancode1 AND 0x0080 \<noteq> 0 then Some (kbd_break (scancode1 AND 0xff7f) k1, s)
              else if 0 < scancode1 \<and> scancode1 < 0x3b \<or> scancode1 = alt_r_make \<or> scancode1 = ctrl_r_make then do {
                let shift = kbd_shift scancode1 shift_down_last caps_lock_last;
                let scancode = scancode1 AND 0x00ff;
                cur_char \<leftarrow> keymap (unat scancode) shift;
                if cur_char \<noteq> 0 then do {
                  let c = (if ctrl_down_last \<and> cur_char = 108 \<or> ctrl_down_last \<and> cur_char = 117
                           then cur_char - 97 else cur_char);
                  full \<leftarrow> ioq_full (kbd_buf k1) s;
                  if \<not> full then do {
                    (_, q, s1) \<leftarrow> ioq_putchar c (kbd_buf k1) s;
                    Some (k1\<lparr>kbd_buf := q\<rparr>, s1)
                  } else Some (k1, s)
                } else Some (kbd_modifier scancode k1, s)
              }
              else Some (k1\<lparr>kbd_msgs := kbd_msgs k1 @ [''unknown key'']\<rparr>, s))"

text \<open>Scan codes as they arrive, one interrupt each.\<close>

fun kbd_run :: "u8 list \<Rightarrow> kbd \<Rightarrow> 'a kstate_scheme \<Rightarrow> (kbd \<times> 'a kstate_scheme) option" where
  "kbd_run [] k s = Some (k, s)"
| "kbd_run (c # cs) k s = do { (k1, s1) \<leftarrow> intr_keyboard_handler c k s; kbd_run cs k1 s1 }"

definition keyboard_init :: "kbd \<Rightarrow> 'a kstate_scheme \<Rightarrow> kbd \<times> 'a kstate_scheme" where
  "keyboard_init k s = (let (q, s1) = ioqueue_init (kbd_buf k) s in (k\<lparr>kbd_buf := q\<rparr>, s1))"

section \<open>What the handler does\<close>

lemma keymap_length: "length keymap_plain = 59" "length keymap_shift = 59"
  by (simp_all add: keymap_plain_def keymap_shift_def str_bytes_def)

text \<open>The keys with a character, and the character as the handler computes it.\<close>

definition key_char :: "u8 \<Rightarrow> bool \<Rightarrow> bool \<Rightarrow> bool \<Rightarrow> u8" where
  "key_char c shift caps ctrl =
     (let ch = (if kbd_shift (ucast c) shift caps then keymap_shift else keymap_plain) ! unat c
      in if ctrl \<and> (ch = 108 \<or> ch = 117) then ch - 97 else ch)"

definition char_key :: "u8 \<Rightarrow> bool" where
  "char_key c \<longleftrightarrow> 0 < c \<and> c < 0x3b \<and> c \<notin> {0x1d, 0x2a, 0x36, 0x38, 0x3a}"

lemma keymap_zeros:
  "map fst (filter (\<lambda>p. snd p = 0) (enumerate 0 keymap_plain)) = [0, 0x1d, 0x2a, 0x36, 0x38, 0x3a]"
  "map fst (filter (\<lambda>p. snd p = 0) (enumerate 0 keymap_shift)) = [0, 0x1d, 0x2a, 0x36, 0x38, 0x3a]"
  by (simp_all add: keymap_plain_def keymap_shift_def str_bytes_def)

lemma zero_listed: "n < length xs \<Longrightarrow> xs ! n = 0 \<Longrightarrow> n \<in> set (map fst (filter (\<lambda>p. snd p = 0) (enumerate 0 xs)))"
  using image_eqI [of n fst "(n, xs ! n)"] by (simp add: in_set_enumerate_eq)

lemma char_key_entry:
  assumes "char_key c"
  shows "keymap_plain ! unat c \<noteq> 0" and "keymap_shift ! unat c \<noteq> 0" and "unat c < 59"
proof -
  show lt: "unat c < 59"
    using assms by (simp add: char_key_def word_less_nat_alt)
  have "unat c \<notin> set [0, 0x1d, 0x2a, 0x36, 0x38, 0x3a]"
    using assms unfolding char_key_def by (auto simp: word_unat_eq_iff word_less_nat_alt)
  then show "keymap_plain ! unat c \<noteq> 0" and "keymap_shift ! unat c \<noteq> 0"
    using zero_listed [of "unat c" keymap_plain] zero_listed [of "unat c" keymap_shift] lt
    unfolding keymap_zeros keymap_length by blast+
qed

lemma byte_high_iff: "bit (c :: u8) 7 \<longleftrightarrow> 128 \<le> unat c"
proof -
  have "bit c 7 = odd (unat c div 128)"
    using bit_unsigned_iff [of c 7, where 'a = nat] by (simp add: bit_iff_odd)
  moreover have "unat c < 256"
    using unsigned_less [of c, where 'a = nat] by simp
  moreover have "unat c div 128 = (if unat c < 128 then 0 else 1)" if "unat c < 256"
    using that by (auto intro: div_nat_eqI)
  ultimately show ?thesis
    by auto
qed

lemma ucast_bits:
  fixes c :: u8
  shows "(ucast c :: u16) AND 0x80 = 0 \<longleftrightarrow> unat c < 128"
    and "(ucast c :: u16) AND 0xff = ucast c"
    and "(ucast (c OR 0x80) :: u16) AND 0x80 \<noteq> 0"
    and "unat c < 128 \<Longrightarrow> (ucast (c OR 0x80) :: u16) AND 0xff7f = ucast c"
proof -
  have p: "(0x80 :: u16) = push_bit 7 1" "(0xff :: u16) = mask 8" "(0x80 :: u8) = push_bit 7 1"
    "(0xff7f :: u16) = NOT (push_bit 7 1)"
    by (simp_all add: mask_eq_exp_minus_1)
  show "(ucast c :: u16) AND 0x80 = 0 \<longleftrightarrow> unat c < 128"
    using byte_high_iff [of c] unfolding p(1) by (subst word_and_push_bit_eq_0) (auto simp: bit_simps)
  show "(ucast c :: u16) AND 0xff = ucast c"
    unfolding p(2) by (rule bit_eqI) (auto simp: bit_simps dest: bit_imp_le_length)
  show "(ucast (c OR 0x80) :: u16) AND 0x80 \<noteq> 0"
    unfolding p(1,3) by (subst word_and_push_bit_eq_0) (auto simp: bit_simps)
  show "(ucast (c OR 0x80) :: u16) AND 0xff7f = ucast c" if "unat c < 128"
  proof -
    have "\<not> bit c 7"
      using that byte_high_iff by simp
    then show ?thesis
      unfolding p(3,4)
      by (intro bit_eqI, subst bit_and_not_push_bit, subst bit_ucast_iff, subst bit_or_push_bit)
        (auto simp: bit_ucast_iff)
  qed
qed

lemma unat_ucast_u16: "unat (ucast (c :: u8) :: u16) = unat c"
  using unsigned_less [of c, where 'a = nat] by (simp add: unsigned_ucast_eq take_bit_nat_eq_self)

lemma ucast_u16_inj: "(ucast (c :: u8) :: u16) = ucast d \<longleftrightarrow> c = d"
  by (simp add: word_unat_eq_iff unat_ucast_u16)

text \<open>A key with a character, pressed while there is room in the queue and nobody sleeps on it.\<close>

definition kbd_quiet :: "kbd \<Rightarrow> 'a kstate_scheme \<Rightarrow> bool" where
  "kbd_quiet k s \<longleftrightarrow> \<not> ext_scancode k \<and> ioq_ok (kbd_buf k) \<and> consumer (kbd_buf k) = NULL \<and> intr s = INTR_OFF"

lemma kbd_press:
  assumes c: "char_key c" and k: "kbd_quiet k s" and room: "length (ioq_contents (kbd_buf k)) < bufsize - 1"
  obtains q where "intr_keyboard_handler c k s = Some (k\<lparr>kbd_buf := q\<rparr>, s)" and "kbd_quiet (k\<lparr>kbd_buf := q\<rparr>) s"
    and "ioq_contents q = ioq_contents (kbd_buf k) @ [key_char c (shift_status k) (caps_lock_status k) (ctrl_status k)]"
proof -
  let ?x = "key_char c (shift_status k) (caps_lock_status k) (ctrl_status k)"
  have k': "\<not> ext_scancode k" "ioq_ok (kbd_buf k)" "consumer (kbd_buf k) = NULL" "intr s = INTR_OFF"
    using k by (simp_all add: kbd_quiet_def)
  obtain q where q: "ioq_putchar ?x (kbd_buf k) s = Some (True, q, s)" "ioq_ok q"
      "ioq_contents q = ioq_contents (kbd_buf k) @ [?x]" "consumer q = NULL"
    by (rule ioq_putchar_quiet [OF k'(2) room k'(4,3)])
  note e = char_key_entry [OF c]
  have cc: "(ucast c :: u16) \<noteq> 0xe0" "(ucast c :: u16) AND 0x80 = 0" "0 < (ucast c :: u16)" "(ucast c :: u16) < 0x3b"
    using e(3) c ucast_bits(1) [of c]
    by (auto simp: word_unat_eq_iff unat_ucast_u16 word_less_nat_alt char_key_def)
  have "ioq_full (kbd_buf k) s = Some False"
    using ioq_full_iff [OF k'(2)] room k'(4) by (simp add: ioq_full_def intr_get_status_def)
  moreover have "keymap (unat ((ucast c :: u16) AND 0xff)) b = Some ((if b then keymap_shift else keymap_plain) ! unat c)" for b
    using e(3) by (simp add: ucast_bits(2) unat_ucast_u16 keymap_def keymap_length)
  moreover have "(if b then keymap_shift else keymap_plain) ! unat c \<noteq> 0" for b
    using e by simp
  ultimately have "intr_keyboard_handler c k s = Some (k\<lparr>kbd_buf := q\<rparr>, s)"
    using q(1) cc k'(1) unfolding intr_keyboard_handler_def key_char_def Let_def
    by (simp add: conj_disj_distribL)
  then show thesis
    using that q k' by (simp add: kbd_quiet_def)
qed

lemma kbd_release_key:
  assumes c: "char_key c" and k: "kbd_quiet k s"
  shows "intr_keyboard_handler (c OR 0x80) k s = Some (k, s)"
proof -
  have lt: "unat c < 59" "c \<notin> {0x1d, 0x2a, 0x36, 0x38}"
    using char_key_entry(3) [OF c] c by (auto simp: char_key_def)
  have ne: "(ucast c :: u16) \<noteq> ctrl_l_make" "(ucast c :: u16) \<noteq> ctrl_r_make" "(ucast c :: u16) \<noteq> shift_l_make"
      "(ucast c :: u16) \<noteq> shift_r_make" "(ucast c :: u16) \<noteq> alt_l_make" "(ucast c :: u16) \<noteq> alt_r_make"
    using lt unfolding make_codes by (auto simp: word_unat_eq_iff unat_ucast_u16)
  have "(ucast (c OR 0x80) :: u16) \<noteq> 0xe0"
  proof
    assume "(ucast (c OR 0x80) :: u16) = 0xe0"
    then have "(ucast c :: u16) = 0xe0 AND 0xff7f"
      using ucast_bits(4) [of c] lt(1) by simp
    then show False
      using lt(1) by (simp add: word_unat_eq_iff unat_ucast_u16)
  qed
  then show ?thesis
    using k ucast_bits(3) [of c] ucast_bits(4) [of c] lt(1) ne
    by (simp add: intr_keyboard_handler_def Let_def kbd_quiet_def kbd_break_def)
qed

text \<open>Every key pressed and released in turn.\<close>

definition strokes :: "u8 list \<Rightarrow> u8 list" where
  "strokes cs = concat (map (\<lambda>c. [c, c OR 0x80]) cs)"

lemma kbd_strokes:
  "\<forall>c\<in>set cs. char_key c \<Longrightarrow> kbd_quiet k s \<Longrightarrow> length (ioq_contents (kbd_buf k)) + length cs < bufsize \<Longrightarrow>
   \<exists>q. kbd_run (strokes cs) k s = Some (k\<lparr>kbd_buf := q\<rparr>, s) \<and> kbd_quiet (k\<lparr>kbd_buf := q\<rparr>) s \<and>
     ioq_contents q = ioq_contents (kbd_buf k) @
       map (\<lambda>c. key_char c (shift_status k) (caps_lock_status k) (ctrl_status k)) cs"
proof (induction cs arbitrary: k)
  case Nil
  then show ?case
    by (auto simp: strokes_def intro!: exI [of _ "kbd_buf k"])
next
  case (Cons c cs)
  have c: "char_key c" and room: "length (ioq_contents (kbd_buf k)) < bufsize - 1"
    using Cons.prems by auto
  obtain q where q: "intr_keyboard_handler c k s = Some (k\<lparr>kbd_buf := q\<rparr>, s)" "kbd_quiet (k\<lparr>kbd_buf := q\<rparr>) s"
    "ioq_contents q = ioq_contents (kbd_buf k) @ [key_char c (shift_status k) (caps_lock_status k) (ctrl_status k)]"
    by (rule kbd_press [OF c Cons.prems(2) room])
  have "kbd_run (strokes (c # cs)) k s = kbd_run (strokes cs) (k\<lparr>kbd_buf := q\<rparr>) s"
    using q(1) kbd_release_key [OF c q(2)] by (simp add: strokes_def)
  then show ?case
    using Cons.IH [OF _ q(2)] Cons.prems q(3) by auto
qed

lemma kbd_run_append: "kbd_run (xs @ ys) k s = kbd_run xs k s \<bind> (\<lambda>(k1, s1). kbd_run ys k1 s1)"
proof (induction xs arbitrary: k s)
  case (Cons x xs)
  then show ?case
    by (cases "intr_keyboard_handler x k s") auto
qed simp

text \<open>The modifier keys.\<close>

lemma kbd_modifiers:
  assumes "\<not> ext_scancode k"
  shows "intr_keyboard_handler 0x2a k s = Some (k\<lparr>shift_status := True\<rparr>, s)"
    and "intr_keyboard_handler 0x36 k s = Some (k\<lparr>shift_status := True\<rparr>, s)"
    and "intr_keyboard_handler 0xaa k s = Some (k\<lparr>shift_status := False\<rparr>, s)"
    and "intr_keyboard_handler 0xb6 k s = Some (k\<lparr>shift_status := False\<rparr>, s)"
    and "intr_keyboard_handler 0x1d k s = Some (k\<lparr>ctrl_status := True\<rparr>, s)"
    and "intr_keyboard_handler 0x9d k s = Some (k\<lparr>ctrl_status := False\<rparr>, s)"
    and "intr_keyboard_handler 0x3a k s = Some (k\<lparr>caps_lock_status := \<not> caps_lock_status k\<rparr>, s)"
    and "intr_keyboard_handler 0xba k s = Some (k, s)"
    and "kbd_run [0xe0, 0x1d] k s = Some (k\<lparr>ctrl_status := True, ext_scancode := False\<rparr>, s)"
    and "kbd_run [0xe0, 0x9d] k s = Some (k\<lparr>ctrl_status := False, ext_scancode := False\<rparr>, s)"
  using assms
  by (simp_all add: intr_keyboard_handler_def Let_def kbd_break_def kbd_modifier_def make_codes keymap_def
      keymap_length kbd_shift_def, simp_all add: keymap_plain_def keymap_shift_def str_bytes_def)

lemma keymap_total: "n < 59 \<Longrightarrow> \<exists>x. keymap n b = Some x"
  by (simp add: keymap_def keymap_length)

lemma make_index:
  assumes "0 < x \<and> x < 0x3b \<or> x = alt_r_make \<or> x = ctrl_r_make"
  shows "unat (x AND 0x00ff) < 59"
proof -
  consider "unat x < 59" | "x = alt_r_make" | "x = ctrl_r_make"
    using assms by (auto simp: word_less_nat_alt)
  then show ?thesis
  proof cases
    case 1
    moreover have "unat (x AND 0xff) \<le> unat x"
      by (metis and.commute word_and_le1 word_le_nat_alt)
    ultimately show ?thesis
      by simp
  qed (simp_all add: make_codes)
qed

lemma kbd_any_code:
  assumes ok: "ioq_ok (kbd_buf k)" and q: "consumer (kbd_buf k) = NULL" and off: "intr s = INTR_OFF"
  shows "\<exists>k' xs. intr_keyboard_handler c k s = Some (k', s) \<and> ioq_ok (kbd_buf k') \<and> consumer (kbd_buf k') = NULL \<and>
    ioq_contents (kbd_buf k') = ioq_contents (kbd_buf k) @ xs \<and> length xs \<le> 1"
proof -
  have put: "\<exists>k' xs. (do { full \<leftarrow> ioq_full (kbd_buf k) s;
       if \<not> full then do { (_, q, s1) \<leftarrow> ioq_putchar x (kbd_buf k) s; Some (k1\<lparr>kbd_buf := q\<rparr>, s1) } else Some (k1, s) })
      = Some (k', s) \<and> ioq_ok (kbd_buf k') \<and> consumer (kbd_buf k') = NULL \<and>
        ioq_contents (kbd_buf k') = ioq_contents (kbd_buf k) @ xs \<and> length xs \<le> 1"
    if k1: "kbd_buf k1 = kbd_buf k" for x and k1 :: kbd
  proof (cases "length (ioq_contents (kbd_buf k)) < bufsize - 1")
    case True
    obtain q' where "ioq_putchar x (kbd_buf k) s = Some (True, q', s)" "ioq_ok q'"
      "ioq_contents q' = ioq_contents (kbd_buf k) @ [x]" "consumer q' = NULL"
      by (rule ioq_putchar_quiet [OF ok True off q])
    moreover have "ioq_full (kbd_buf k) s = Some False"
      using ioq_full_iff [OF ok] True off by (simp add: ioq_full_def intr_get_status_def)
    ultimately show ?thesis
      by auto
  next
    case False
    moreover have "length (ioq_contents (kbd_buf k)) < bufsize"
      using ioq_count_lt [of "kbd_buf k"] by (simp add: ioq_contents_def bufsize_def)
    ultimately have "ioq_full (kbd_buf k) s = Some True"
      using ioq_full_iff [OF ok] off by (simp add: ioq_full_def intr_get_status_def)
    then show ?thesis
      using ok q k1 by auto
  qed
  define x where "x = (if ext_scancode k then 0xe000 OR (ucast c :: u16) else ucast c)"
  define k1 where "k1 = (if ext_scancode k then k\<lparr>ext_scancode := False\<rparr> else k)"
  have kb: "kbd_buf k1 = kbd_buf k"
    by (simp add: k1_def)
  consider (ext) "(ucast c :: u16) = 0xe0" | (brk) "(ucast c :: u16) \<noteq> 0xe0" "x AND 0x80 \<noteq> 0"
    | (make) "(ucast c :: u16) \<noteq> 0xe0" "x AND 0x80 = 0" "0 < x \<and> x < 0x3b \<or> x = alt_r_make \<or> x = ctrl_r_make"
    | (unknown) "(ucast c :: u16) \<noteq> 0xe0" "x AND 0x80 = 0" "\<not> (0 < x \<and> x < 0x3b \<or> x = alt_r_make \<or> x = ctrl_r_make)"
    by blast
  then show ?thesis
  proof cases
    case ext
    then show ?thesis
      using ok q by (auto simp: intr_keyboard_handler_def Let_def)
  next
    case brk
    then show ?thesis
      using ok q kb unfolding intr_keyboard_handler_def Let_def x_def [symmetric] k1_def [symmetric]
      by (auto simp: kbd_break_def)
  next
    case make
    obtain ch where "keymap (unat (x AND 0xff)) (kbd_shift x (shift_status k) (caps_lock_status k)) = Some ch"
      using keymap_total [OF make_index [OF make(3)]] by blast
    note ch = this
    show ?thesis
    proof (cases "ch = 0")
      case True
      then show ?thesis
        using make ch ok q kb unfolding intr_keyboard_handler_def Let_def x_def [symmetric] k1_def [symmetric]
        by (auto simp: kbd_modifier_def)
    next
      case False
      define y where "y = (if ctrl_status k \<and> ch = 108 \<or> ctrl_status k \<and> ch = 117 then ch - 97 else ch)"
      have "intr_keyboard_handler c k s = (do { full \<leftarrow> ioq_full (kbd_buf k) s;
         if \<not> full then do { (_, q, s1) \<leftarrow> ioq_putchar y (kbd_buf k) s; Some (k1\<lparr>kbd_buf := q\<rparr>, s1) } else Some (k1, s) })"
        using make ch False
        unfolding intr_keyboard_handler_def Let_def x_def [symmetric] k1_def [symmetric] y_def kb by simp
      then show ?thesis
        using put [OF kb, of y] by simp
    qed
  next
    case unknown
    then show ?thesis
      using ok q kb unfolding intr_keyboard_handler_def Let_def x_def [symmetric] k1_def [symmetric]
      by auto
  qed
qed

section \<open>Properties\<close>

definition sample_kbd :: kbd where
  "sample_kbd = \<lparr>ctrl_status = False, shift_status = False, alt_status = False, caps_lock_status = False,
     ext_scancode = False, kbd_buf = sample_ioq, kbd_msgs = []\<rparr>"

lemma sample_kbd_quiet: "kbd_quiet sample_kbd (sample_kstate\<lparr>intr := INTR_OFF\<rparr>)"
  using sample_ioq_ok(1) by (simp add: kbd_quiet_def sample_kbd_def) (simp add: sample_ioq_def)



text \<open>
  The letter keys honour shift and caps lock: a letter key gives its capital exactly when one of
  the two is active and not both.
\<close>

theorem keyboard_letter_case:
  "list_all (\<lambda>(c, low). \<forall>shift caps. key_char c shift caps False = (if shift \<noteq> caps then low - 32 else low))
    (zip ([0x10, 0x11, 0x12, 0x13, 0x14, 0x15, 0x16, 0x17, 0x18, 0x19] @
          [0x1e, 0x1f, 0x20, 0x21, 0x22, 0x23, 0x24, 0x25, 0x26] @ [0x2c, 0x2d, 0x2e, 0x2f, 0x30, 0x31, 0x32])
         (str_bytes ''qwertyuiopasdfghjklzxcvbnm''))"
  by (simp add: key_char_def Let_def kbd_shift_def keymap_plain_def keymap_shift_def str_bytes_def)

text \<open>
  The handler is total: for every byte the keyboard may send, in every state of the modifiers, with
  interrupts off it returns without blocking or failing an assertion, keeps the queue well-formed,
  adds at most one character to it, and drops the character when the queue is full.
\<close>

theorem keyboard_handler_total:
  assumes "ioq_ok (kbd_buf k)" and "consumer (kbd_buf k) = NULL" and "intr s = INTR_OFF"
  shows "\<exists>k' xs. intr_keyboard_handler c k s = Some (k', s) \<and> ioq_ok (kbd_buf k') \<and>
    ioq_contents (kbd_buf k') = ioq_contents (kbd_buf k) @ xs \<and> length xs \<le> 1"
  using kbd_any_code [OF assms, of c] by blast

theorem keyboard_handler_total_witness:
  "\<exists>k' xs. intr_keyboard_handler 0x1e sample_kbd (sample_kstate\<lparr>intr := INTR_OFF\<rparr>) = Some (k', sample_kstate\<lparr>intr := INTR_OFF\<rparr>) \<and>
    ioq_ok (kbd_buf k') \<and> ioq_contents (kbd_buf k') = ioq_contents (kbd_buf sample_kbd) @ xs \<and> length xs \<le> 1"
  by (rule keyboard_handler_total) (use sample_kbd_quiet in \<open>simp_all add: kbd_quiet_def\<close>)

end
