(* ===== verification/Memory.thy ===== *)
theory Memory
  imports Sync
begin

text \<open>
  The memory manager of src/mm/memory.c: physical frames, virtual addresses, page tables and the heap
  of blocks. The state is the kernel state extended by the globals of that file.

  Memory has typed views: page directories and page tables are words of \<open>phys\<close>; the list nodes inside
  free blocks are nodes of \<open>lnks\<close>; the header \<^verbatim>\<open>struct arena\<close> at the start of a page is an entry of
  \<open>arenas\<close>. \<^verbatim>\<open>memset\<close> of a range of virtual addresses clears the list nodes and arena headers in it
  (\<open>mem_zero\<close>). Each \<^verbatim>\<open>struct bitmap\<close> has its own bytes. A pointer to a block descriptor is the array
  and the index; its list \<^verbatim>\<open>free_list\<close> lies 8 bytes into the descriptor of 24 bytes.
\<close>

section \<open>State\<close>

datatype pool_flags = PF_KERNEL | PF_USER

definition DESC_CNT :: nat where
  "DESC_CNT = 7"

definition K_HEAP_START :: u32 where
  "K_HEAP_START = 0xc0100000"

record pool =
  pool_bitmap :: bitmap
  phy_addr_start :: u32
  pool_size :: u32
  pool_lock :: addr

datatype desc_ptr = K_desc nat | U_desc addr nat

record arena =
  arena_desc :: "desc_ptr option"
  arena_cnt :: u32
  arena_large :: bool

definition ARENA_SIZE :: u32 where
  "ARENA_SIZE = 12"

record mstate = kstate +
  kernel_pool :: pool
  user_pool :: pool
  kernel_vaddr :: virtual_addr
  k_block_descs :: "mem_block_desc list"
  k_descs_addr :: addr
  arenas :: "addr \<Rightarrow> arena"

definition get_pool :: "pool_flags \<Rightarrow> 'a mstate_scheme \<Rightarrow> pool" where
  "get_pool pf s = (if pf = PF_KERNEL then kernel_pool s else user_pool s)"

definition set_pool :: "pool_flags \<Rightarrow> pool \<Rightarrow> 'a mstate_scheme \<Rightarrow> 'a mstate_scheme" where
  "set_pool pf p s = (if pf = PF_KERNEL then s\<lparr>kernel_pool := p\<rparr> else s\<lparr>user_pool := p\<rparr>)"

definition DIV_ROUND_UP :: "u32 \<Rightarrow> u32 \<Rightarrow> u32" where
  "DIV_ROUND_UP X STEP = (X + STEP - 1) div STEP"

section \<open>Virtual addresses\<close>

text \<open>\<^verbatim>\<open>while (cnt < pg_cnt) bitmap_set(.., bit_idx_start + cnt++, v);\<close>\<close>

fun bitmap_set_range :: "bitmap \<Rightarrow> nat \<Rightarrow> nat \<Rightarrow> int \<Rightarrow> bitmap option" where
  "bitmap_set_range b start 0 v = Some b"
| "bitmap_set_range b start (Suc n) v = do {
     b1 \<leftarrow> bitmap_set b start v;
     bitmap_set_range b1 (Suc start) n v
   }"

definition vaddr_get :: "pool_flags \<Rightarrow> u32 \<Rightarrow> 'a mstate_scheme \<Rightarrow> (u32 \<times> 'a mstate_scheme) option" where
  "vaddr_get pf pg_cnt s =
     (if pf = PF_KERNEL then do {
        bit_idx_start \<leftarrow> bitmap_scan (vaddr_bitmap (kernel_vaddr s)) (unat pg_cnt);
        if bit_idx_start = -1 then Some (NULL, s)
        else do {
          b \<leftarrow> bitmap_set_range (vaddr_bitmap (kernel_vaddr s)) (nat bit_idx_start) (unat pg_cnt) 1;
          Some (vaddr_start (kernel_vaddr s) + of_int bit_idx_start * PG_SIZE,
                s\<lparr>kernel_vaddr := (kernel_vaddr s)\<lparr>vaddr_bitmap := b\<rparr>\<rparr>)
        }
      } else do {
        let c = running_thread s;
        let uv = user_vaddr (tasks s c);
        bit_idx_start \<leftarrow> bitmap_scan (vaddr_bitmap uv) (unat pg_cnt);
        if bit_idx_start = -1 then Some (NULL, s)
        else do {
          b \<leftarrow> bitmap_set_range (vaddr_bitmap uv) (nat bit_idx_start) (unat pg_cnt) 1;
          let start = vaddr_start uv + of_int bit_idx_start * PG_SIZE;
          ASSERT (start < 0xc0000000 - PG_SIZE);
          Some (start, upd_task c (user_vaddr_update (\<lambda>_. uv\<lparr>vaddr_bitmap := b\<rparr>)) s)
        }
      })"

section \<open>Frames and mappings\<close>

definition palloc :: "pool \<Rightarrow> (u32 \<times> pool) option" where
  "palloc m_pool = do {
     bit_idx \<leftarrow> bitmap_scan (pool_bitmap m_pool) 1;
     if bit_idx = -1 then Some (NULL, m_pool)
     else do {
       b \<leftarrow> bitmap_set (pool_bitmap m_pool) (nat bit_idx) 1;
       Some (of_int bit_idx * PG_SIZE + phy_addr_start m_pool, m_pool\<lparr>pool_bitmap := b\<rparr>)
     }
   }"

definition page_table_add :: "u32 \<Rightarrow> u32 \<Rightarrow> 'a mstate_scheme \<Rightarrow> 'a mstate_scheme option" where
  "page_table_add vaddr page_phyaddr s = do {
     let pde = pde_ptr vaddr;
     let pte = pte_ptr vaddr;
     x \<leftarrow> vread (phys s) (cr3 s) pde;
     if x AND 1 \<noteq> 0 then do {
       y \<leftarrow> vread (phys s) (cr3 s) pte;
       ASSERT (y AND 1 = 0);
       m \<leftarrow> vwrite (phys s) (cr3 s) pte (page_phyaddr OR PG_US_U OR PG_RW_W OR PG_P_1);
       Some (s\<lparr>phys := m\<rparr>)
     } else do {
       (pde_phyaddr, kp) \<leftarrow> palloc (kernel_pool s);
       m1 \<leftarrow> vwrite (phys s) (cr3 s) pde (pde_phyaddr OR PG_US_U OR PG_RW_W OR PG_P_1);
       m2 \<leftarrow> vzero_page m1 (cr3 s) pte;
       y \<leftarrow> vread m2 (cr3 s) pte;
       ASSERT (y AND 1 = 0);
       m3 \<leftarrow> vwrite m2 (cr3 s) pte (page_phyaddr OR PG_US_U OR PG_RW_W OR PG_P_1);
       Some (s\<lparr>kernel_pool := kp, phys := m3\<rparr>)
     }
   }"

text \<open>The loop of \<^verbatim>\<open>malloc_page\<close>; \<open>False\<close> is the early return of the null pointer.\<close>

fun map_pages :: "pool_flags \<Rightarrow> nat \<Rightarrow> u32 \<Rightarrow> 'a mstate_scheme \<Rightarrow> (bool \<times> 'a mstate_scheme) option" where
  "map_pages pf 0 vaddr s = Some (True, s)"
| "map_pages pf (Suc cnt) vaddr s = do {
     (page_phyaddr, p) \<leftarrow> palloc (get_pool pf s);
     if page_phyaddr = NULL then Some (False, set_pool pf p s)
     else do {
       s1 \<leftarrow> page_table_add vaddr page_phyaddr (set_pool pf p s);
       map_pages pf cnt (vaddr + PG_SIZE) s1
     }
   }"

definition malloc_page :: "pool_flags \<Rightarrow> u32 \<Rightarrow> 'a mstate_scheme \<Rightarrow> (u32 \<times> 'a mstate_scheme) option" where
  "malloc_page pf pg_cnt s = do {
     ASSERT (pg_cnt > 0 \<and> pg_cnt < 3840);
     (start, s1) \<leftarrow> vaddr_get pf pg_cnt s;
     if start = NULL then Some (NULL, s1)
     else do {
       (ok, s2) \<leftarrow> map_pages pf (unat pg_cnt) start s1;
       Some (if ok then start else NULL, s2)
     }
   }"

text \<open>\<^verbatim>\<open>memset(v, 0, n)\<close> on the typed views.\<close>

definition mem_zero :: "u32 \<Rightarrow> u32 \<Rightarrow> 'a mstate_scheme \<Rightarrow> 'a mstate_scheme" where
  "mem_zero v n s = s\<lparr>
     lnks := \<lparr>lprev = (\<lambda>x. if x - v < n then 0 else lprev (lnks s) x),
              lnext = (\<lambda>x. if x - v < n then 0 else lnext (lnks s) x)\<rparr>,
     arenas := (\<lambda>x. if x - v < n then \<lparr>arena_desc = None, arena_cnt = 0, arena_large = False\<rparr> else arenas s x)\<rparr>"

definition get_pages :: "pool_flags \<Rightarrow> u32 \<Rightarrow> 'a mstate_scheme \<Rightarrow> (u32 \<times> 'a mstate_scheme) option" where
  "get_pages pf pg_cnt s = do {
     s1 \<leftarrow> with_lock (pool_lock (get_pool pf s)) s;
     (vaddr, s2) \<leftarrow> malloc_page pf pg_cnt s1;
     let s3 = (if vaddr \<noteq> NULL then mem_zero vaddr (pg_cnt * PG_SIZE) s2 else s2);
     s4 \<leftarrow> lock_release (pool_lock (get_pool pf s3)) s3;
     Some (vaddr, s4)
   }"

definition get_kernel_pages :: "u32 \<Rightarrow> 'a mstate_scheme \<Rightarrow> (u32 \<times> 'a mstate_scheme) option" where
  "get_kernel_pages pg_cnt s = get_pages PF_KERNEL pg_cnt s"

definition get_user_pages :: "u32 \<Rightarrow> 'a mstate_scheme \<Rightarrow> (u32 \<times> 'a mstate_scheme) option" where
  "get_user_pages pg_cnt s = get_pages PF_USER pg_cnt s"

text \<open>The end of \<^verbatim>\<open>get_a_page\<close> and of \<^verbatim>\<open>get_a_page_without_opvaddrbitmap\<close>, with the lock held.\<close>

definition install_page :: "pool_flags \<Rightarrow> u32 \<Rightarrow> 'a mstate_scheme \<Rightarrow> (u32 \<times> 'a mstate_scheme) option" where
  "install_page pf vaddr s = do {
     (page_phyaddr, p) \<leftarrow> palloc (get_pool pf s);
     let s1 = set_pool pf p s;
     if page_phyaddr = NULL then do {
       s2 \<leftarrow> lock_release (pool_lock (get_pool pf s1)) s1;
       Some (NULL, s2)
     } else do {
       s2 \<leftarrow> page_table_add vaddr page_phyaddr s1;
       s3 \<leftarrow> lock_release (pool_lock (get_pool pf s2)) s2;
       Some (vaddr, s3)
     }
   }"

definition get_a_page :: "pool_flags \<Rightarrow> u32 \<Rightarrow> 'a mstate_scheme \<Rightarrow> (u32 \<times> 'a mstate_scheme) option" where
  "get_a_page pf vaddr s = do {
     s1 \<leftarrow> with_lock (pool_lock (get_pool pf s)) s;
     let c = running_thread s1;
     s2 \<leftarrow> (if pgdir (tasks s1 c) \<noteq> NULL \<and> pf = PF_USER then do {
          let uv = user_vaddr (tasks s1 c);
          let bit_idx = (vaddr - vaddr_start uv) div PG_SIZE;
          ASSERT (0 \<le> sint bit_idx);
          b \<leftarrow> bitmap_set (vaddr_bitmap uv) (unat bit_idx) 1;
          Some (upd_task c (user_vaddr_update (\<lambda>_. uv\<lparr>vaddr_bitmap := b\<rparr>)) s1)
        } else if pgdir (tasks s1 c) = NULL \<and> pf = PF_KERNEL then do {
          let bit_idx = (vaddr - vaddr_start (kernel_vaddr s1)) div PG_SIZE;
          ASSERT (0 < sint bit_idx);
          b \<leftarrow> bitmap_set (vaddr_bitmap (kernel_vaddr s1)) (unat bit_idx) 1;
          Some (s1\<lparr>kernel_vaddr := (kernel_vaddr s1)\<lparr>vaddr_bitmap := b\<rparr>\<rparr>)
        } else None);
     install_page pf vaddr s2
   }"

definition get_a_page_without_opvaddrbitmap ::
  "pool_flags \<Rightarrow> u32 \<Rightarrow> 'a mstate_scheme \<Rightarrow> (u32 \<times> 'a mstate_scheme) option" where
  "get_a_page_without_opvaddrbitmap pf vaddr s = do {
     s1 \<leftarrow> with_lock (pool_lock (get_pool pf s)) s;
     install_page pf vaddr s1
   }"

section \<open>Giving frames back\<close>

definition pfree :: "u32 \<Rightarrow> 'a mstate_scheme \<Rightarrow> 'a mstate_scheme option" where
  "pfree pg_phy_addr s = do {
     let pf = (if pg_phy_addr \<ge> phy_addr_start (user_pool s) then PF_USER else PF_KERNEL);
     let p = get_pool pf s;
     let bit_idx = (pg_phy_addr - phy_addr_start p) div PG_SIZE;
     b \<leftarrow> bitmap_set (pool_bitmap p) (unat bit_idx) 0;
     Some (set_pool pf (p\<lparr>pool_bitmap := b\<rparr>) s)
   }"

definition free_a_phy_page :: "u32 \<Rightarrow> 'a mstate_scheme \<Rightarrow> 'a mstate_scheme option" where
  "free_a_phy_page pg_phy_addr s = do {
     let pf = (if pg_phy_addr \<ge> phy_addr_start (user_pool s) then PF_USER else PF_KERNEL);
     let p = get_pool pf s;
     let bit_idx = (pg_phy_addr - phy_addr_start p) div PG_SIZE;
     b \<leftarrow> bitmap_set (pool_bitmap p) (unat bit_idx) 0;
     Some (set_pool pf (p\<lparr>pool_bitmap := b\<rparr>) s)
   }"

definition page_table_pte_remove :: "u32 \<Rightarrow> 'a mstate_scheme \<Rightarrow> 'a mstate_scheme option" where
  "page_table_pte_remove vaddr s = do {
     x \<leftarrow> vread (phys s) (cr3 s) (pte_ptr vaddr);
     m \<leftarrow> vwrite (phys s) (cr3 s) (pte_ptr vaddr) (x AND NOT PG_P_1);
     Some (s\<lparr>phys := m\<rparr>)
   }"

definition vaddr_remove :: "pool_flags \<Rightarrow> u32 \<Rightarrow> u32 \<Rightarrow> 'a mstate_scheme \<Rightarrow> 'a mstate_scheme option" where
  "vaddr_remove pf vaddr pg_cnt s =
     (if pf = PF_KERNEL then do {
        let bit_idx_start = (vaddr - vaddr_start (kernel_vaddr s)) div PG_SIZE;
        b \<leftarrow> bitmap_set_range (vaddr_bitmap (kernel_vaddr s)) (unat bit_idx_start) (unat pg_cnt) 0;
        Some (s\<lparr>kernel_vaddr := (kernel_vaddr s)\<lparr>vaddr_bitmap := b\<rparr>\<rparr>)
      } else do {
        let c = running_thread s;
        let uv = user_vaddr (tasks s c);
        let bit_idx_start = (vaddr - vaddr_start uv) div PG_SIZE;
        b \<leftarrow> bitmap_set_range (vaddr_bitmap uv) (unat bit_idx_start) (unat pg_cnt) 0;
        Some (upd_task c (user_vaddr_update (\<lambda>_. uv\<lparr>vaddr_bitmap := b\<rparr>)) s)
      })"

text \<open>The two loops of \<^verbatim>\<open>mfree_page\<close> differ in the range that the frame must lie in.\<close>

fun unmap_pages :: "bool \<Rightarrow> nat \<Rightarrow> u32 \<Rightarrow> 'a mstate_scheme \<Rightarrow> 'a mstate_scheme option" where
  "unmap_pages user 0 vaddr s = Some s"
| "unmap_pages user (Suc n) vaddr s = do {
     pg_phy_addr \<leftarrow> addr_v2p (phys s) (cr3 s) vaddr;
     ASSERT (pg_phy_addr mod PG_SIZE = 0 \<and>
       (if user then pg_phy_addr \<ge> phy_addr_start (user_pool s)
        else pg_phy_addr \<ge> phy_addr_start (kernel_pool s) \<and> pg_phy_addr < phy_addr_start (user_pool s)));
     s1 \<leftarrow> pfree pg_phy_addr s;
     s2 \<leftarrow> page_table_pte_remove vaddr s1;
     unmap_pages user n (vaddr + PG_SIZE) s2
   }"

definition mfree_page :: "pool_flags \<Rightarrow> u32 \<Rightarrow> u32 \<Rightarrow> 'a mstate_scheme \<Rightarrow> 'a mstate_scheme option" where
  "mfree_page pf vaddr pg_cnt s = do {
     ASSERT (pg_cnt \<ge> 1 \<and> vaddr mod PG_SIZE = 0);
     pg_phy_addr \<leftarrow> addr_v2p (phys s) (cr3 s) vaddr;
     ASSERT (pg_phy_addr mod PG_SIZE = 0 \<and> pg_phy_addr \<ge> 0x102000);
     s1 \<leftarrow> unmap_pages (pg_phy_addr \<ge> phy_addr_start (user_pool s)) (unat pg_cnt) vaddr s;
     vaddr_remove pf vaddr pg_cnt s1
   }"

section \<open>The heap of blocks\<close>

definition get_desc :: "desc_ptr \<Rightarrow> 'a mstate_scheme \<Rightarrow> mem_block_desc option" where
  "get_desc d s = (case d of K_desc i \<Rightarrow> rd (k_block_descs s) i | U_desc t i \<Rightarrow> rd (u_block_desc (tasks s t)) i)"

definition arena2block :: "addr \<Rightarrow> u32 \<Rightarrow> 'a mstate_scheme \<Rightarrow> addr option" where
  "arena2block a idx s = do {
     dp \<leftarrow> arena_desc (arenas s a);
     d \<leftarrow> get_desc dp s;
     Some (a + ARENA_SIZE + idx * block_size d)
   }"

definition block2arena :: "addr \<Rightarrow> addr" where
  "block2arena b = b AND 0xfffff000"

text \<open>The first descriptor whose blocks are large enough, or \<^verbatim>\<open>DESC_CNT\<close>.\<close>

fun find_desc :: "u32 \<Rightarrow> mem_block_desc list \<Rightarrow> nat \<Rightarrow> nat" where
  "find_desc sz [] i = i"
| "find_desc sz (d # ds) i = (if sz \<le> block_size d then i else find_desc sz ds (Suc i))"

text \<open>The blocks \<open>idx\<close>, \<open>idx + 1\<close>, ... of a new arena join the free list.\<close>

fun add_blocks :: "nat \<Rightarrow> u32 \<Rightarrow> addr \<Rightarrow> mem_block_desc \<Rightarrow> 'a mstate_scheme \<Rightarrow> 'a mstate_scheme option" where
  "add_blocks 0 idx a d s = Some s"
| "add_blocks (Suc n) idx a d s = do {
     b \<leftarrow> arena2block a idx s;
     found \<leftarrow> elem_find (free_list d) b (lnks s);
     ASSERT (\<not> found);
     add_blocks n (idx + 1) a d (s\<lparr>lnks := list_append (free_list d) b (lnks s)\<rparr>)
   }"

definition set_arena :: "addr \<Rightarrow> arena \<Rightarrow> 'a mstate_scheme \<Rightarrow> 'a mstate_scheme" where
  "set_arena a x s = s\<lparr>arenas := (arenas s)(a := x)\<rparr>"

definition new_arena :: "pool_flags \<Rightarrow> desc_ptr \<Rightarrow> mem_block_desc \<Rightarrow> 'a mstate_scheme \<Rightarrow> (bool \<times> 'a mstate_scheme) option" where
  "new_arena PF dp d s = do {
     (a, s1) \<leftarrow> malloc_page PF 1 s;
     if a = NULL then Some (False, s1)
     else do {
       let s2 = mem_zero a PG_SIZE s1;
       let s3 = set_arena a \<lparr>arena_desc = Some dp, arena_cnt = blocks_per_arena d, arena_large = False\<rparr> s2;
       let (old_status, s4) = intr_disable s3;
       s5 \<leftarrow> add_blocks (unat (blocks_per_arena d)) 0 a d s4;
       Some (True, snd (intr_set_status old_status s5))
     }
   }"

text \<open>The part of \<^verbatim>\<open>sys_malloc\<close> between \<^verbatim>\<open>lock_acquire\<close> and \<^verbatim>\<open>lock_release\<close>.\<close>

definition malloc_large :: "pool_flags \<Rightarrow> u32 \<Rightarrow> 'a mstate_scheme \<Rightarrow> (u32 \<times> 'a mstate_scheme) option" where
  "malloc_large PF sz s = do {
     let page_cnt = DIV_ROUND_UP (sz + ARENA_SIZE) PG_SIZE;
     (a, s1) \<leftarrow> malloc_page PF page_cnt s;
     if a \<noteq> NULL then do {
       let s2 = mem_zero a (page_cnt * PG_SIZE) s1;
       Some (a + ARENA_SIZE, set_arena a \<lparr>arena_desc = None, arena_cnt = page_cnt, arena_large = True\<rparr> s2)
     } else Some (NULL, s1)
   }"

definition malloc_small ::
  "pool_flags \<Rightarrow> (nat \<Rightarrow> desc_ptr) \<Rightarrow> mem_block_desc list \<Rightarrow> u32 \<Rightarrow> 'a mstate_scheme \<Rightarrow> (u32 \<times> 'a mstate_scheme) option" where
  "malloc_small PF dptr descs sz s = do {
     let desc_idx = find_desc sz descs 0;
     d \<leftarrow> rd descs desc_idx;
     (ok, s1) \<leftarrow> (if list_empty (free_list d) (lnks s) then new_arena PF (dptr desc_idx) d s else Some (True, s));
     if \<not> ok then Some (NULL, s1)
     else do {
       let (b, l) = list_pop (free_list d) (lnks s1);
       let s2 = mem_zero b (block_size d) (s1\<lparr>lnks := l\<rparr>);
       let a = block2arena b;
       Some (b, set_arena a ((arenas s2 a)\<lparr>arena_cnt := arena_cnt (arenas s2 a) - 1\<rparr>) s2)
     }
   }"

definition sys_malloc :: "u32 \<Rightarrow> 'a mstate_scheme \<Rightarrow> (u32 \<times> 'a mstate_scheme) option" where
  "sys_malloc sz s = do {
     let c = running_thread s;
     let PF = (if pgdir (tasks s c) = NULL then PF_KERNEL else PF_USER);
     let descs = (if pgdir (tasks s c) = NULL then k_block_descs s else u_block_desc (tasks s c));
     let dptr = (if pgdir (tasks s c) = NULL then K_desc else U_desc c);
     if \<not> (sz > 0 \<and> sz < pool_size (get_pool PF s)) then Some (NULL, s)
     else do {
       s1 \<leftarrow> with_lock (pool_lock (get_pool PF s)) s;
       (r, s2) \<leftarrow> (if sz > 1024 then malloc_large PF sz s1 else malloc_small PF dptr descs sz s1);
       s3 \<leftarrow> lock_release (pool_lock (get_pool PF s2)) s2;
       Some (r, s3)
     }
   }"

text \<open>The blocks of an arena that has become free leave the free list.\<close>

fun drop_blocks :: "nat \<Rightarrow> u32 \<Rightarrow> addr \<Rightarrow> mem_block_desc \<Rightarrow> 'a mstate_scheme \<Rightarrow> 'a mstate_scheme option" where
  "drop_blocks 0 idx a d s = Some s"
| "drop_blocks (Suc n) idx a d s = do {
     b \<leftarrow> arena2block a idx s;
     found \<leftarrow> elem_find (free_list d) b (lnks s);
     ASSERT found;
     drop_blocks n (idx + 1) a d (s\<lparr>lnks := list_remove b (lnks s)\<rparr>)
   }"

definition free_block :: "pool_flags \<Rightarrow> addr \<Rightarrow> addr \<Rightarrow> 'a mstate_scheme \<Rightarrow> 'a mstate_scheme option" where
  "free_block PF a b s = do {
     dp \<leftarrow> arena_desc (arenas s a);
     d \<leftarrow> get_desc dp s;
     let s1 = s\<lparr>lnks := list_append (free_list d) b (lnks s)\<rparr>;
     let s2 = set_arena a ((arenas s1 a)\<lparr>arena_cnt := arena_cnt (arenas s1 a) + 1\<rparr>) s1;
     if arena_cnt (arenas s2 a) = blocks_per_arena d then do {
       s3 \<leftarrow> drop_blocks (unat (blocks_per_arena d)) 0 a d s2;
       mfree_page PF a 1 s3
     } else Some s2
   }"

definition sys_free :: "addr \<Rightarrow> 'a mstate_scheme \<Rightarrow> 'a mstate_scheme option" where
  "sys_free ptr s = do {
     ASSERT (ptr \<noteq> NULL);
     let kernel = (pgdir (tasks s (running_thread s)) = NULL);
     ASSERT (kernel \<longrightarrow> ptr \<ge> K_HEAP_START);
     let PF = (if kernel then PF_KERNEL else PF_USER);
     s1 \<leftarrow> with_lock (pool_lock (get_pool PF s)) s;
     let a = block2arena ptr;
     s2 \<leftarrow> (if arena_desc (arenas s1 a) = None \<and> arena_large (arenas s1 a)
            then mfree_page PF a (arena_cnt (arenas s1 a)) s1 else free_block PF a ptr s1);
     lock_release (pool_lock (get_pool PF s2)) s2
   }"

section \<open>Initialisation\<close>

fun block_desc_loop :: "nat \<Rightarrow> nat \<Rightarrow> u16 \<Rightarrow> addr \<Rightarrow> links \<Rightarrow> mem_block_desc list \<times> links" where
  "block_desc_loop 0 i bsize base l = ([], l)"
| "block_desc_loop (Suc n) i bsize base l =
     (let fl = base + 24 * of_nat i + 8;
          d = \<lparr>block_size = ucast bsize, blocks_per_arena = (PG_SIZE - ARENA_SIZE) div ucast bsize, free_list = fl\<rparr>;
          (ds, l1) = block_desc_loop n (Suc i) (bsize * 2) base (list_init fl l)
      in (d # ds, l1))"

text \<open>\<open>base\<close> is the address of the array \<^verbatim>\<open>desc_array\<close>; the result is its contents.\<close>

definition block_desc_init :: "addr \<Rightarrow> links \<Rightarrow> mem_block_desc list \<times> links" where
  "block_desc_init base l = block_desc_loop DESC_CNT 0 16 base l"

text \<open>
  The three bitmaps lie one after the other from \<^verbatim>\<open>MEM_BITMAP_BASE\<close>; \<open>rest\<close> are the bytes of memory
  that follow the last one, which a search for a run of pages may look at.
\<close>

definition mem_pool_init :: "u32 \<Rightarrow> u8 list \<Rightarrow> 'a mstate_scheme \<Rightarrow> 'a mstate_scheme option" where
  "mem_pool_init all_mem rest s = do {
     let page_table_size = PG_SIZE * 256;
     let used_mem = page_table_size + 0x100000;
     let free_mem = all_mem - used_mem;
     let all_free_pages = (ucast (free_mem div PG_SIZE) :: u16);
     let kernel_free_pages = all_free_pages div 2;
     let user_free_pages = all_free_pages - kernel_free_pages;
     let kbm_length = unat kernel_free_pages div 8;
     let ubm_length = unat user_free_pages div 8;
     let kp_start = used_mem;
     let up_start = kp_start + ucast kernel_free_pages * PG_SIZE;
     kb \<leftarrow> bitmap_init \<lparr>btmp_bytes_len = kbm_length, bits = replicate kbm_length 0\<rparr>;
     ub \<leftarrow> bitmap_init \<lparr>btmp_bytes_len = ubm_length, bits = replicate ubm_length 0\<rparr>;
     let s1 = s\<lparr>kernel_pool := (kernel_pool s)\<lparr>pool_bitmap := kb, phy_addr_start := kp_start,
                  pool_size := ucast kernel_free_pages * PG_SIZE\<rparr>,
                user_pool := (user_pool s)\<lparr>pool_bitmap := ub, phy_addr_start := up_start,
                  pool_size := ucast user_free_pages * PG_SIZE\<rparr>\<rparr>;
     let s2 = lock_init (pool_lock (kernel_pool s1)) s1;
     let s3 = lock_init (pool_lock (user_pool s2)) s2;
     vb \<leftarrow> bitmap_init \<lparr>btmp_bytes_len = kbm_length, bits = replicate kbm_length 0 @ rest\<rparr>;
     Some (s3\<lparr>kernel_vaddr := \<lparr>vaddr_bitmap = vb, vaddr_start = K_HEAP_START\<rparr>\<rparr>)
   }"

text \<open>\<open>mem_bytes_total\<close> is the word the loader left at 0xb00.\<close>

definition mem_init :: "u32 \<Rightarrow> u8 list \<Rightarrow> 'a mstate_scheme \<Rightarrow> 'a mstate_scheme option" where
  "mem_init mem_bytes_total rest s = do {
     s1 \<leftarrow> mem_pool_init mem_bytes_total rest s;
     let (ds, l) = block_desc_init (k_descs_addr s1) (lnks s1);
     Some (s1\<lparr>k_block_descs := ds, lnks := l\<rparr>)
   }"

end
