(* ===== verification/Memory_Inv.thy ===== *)
theory Memory_Inv
  imports Memory
begin

text \<open>
  Correctness of the memory manager: the frame pools are pools of indices, installing a page changes
  the translation of that page only, allocating pages maps fresh frames and freeing them undoes it.
\<close>

section \<open>Frames of a pool\<close>

definition frame_at :: "pool \<Rightarrow> nat \<Rightarrow> u32" where
  "frame_at p i = of_nat i * PG_SIZE + phy_addr_start p"

definition pool_ok :: "pool \<Rightarrow> bool" where
  "pool_ok p \<longleftrightarrow> bm_wf (pool_bitmap p) \<and> frame (phy_addr_start p) = phy_addr_start p \<and> phy_addr_start p \<noteq> 0 \<and>
     unat (phy_addr_start p) + bm_cap (pool_bitmap p) * 4096 \<le> 2 ^ 32"

definition pool_frames :: "pool \<Rightarrow> u32 set" where
  "pool_frames p = frame_at p ` {..<bm_cap (pool_bitmap p)}"

definition free_frames :: "pool \<Rightarrow> u32 set" where
  "free_frames p = frame_at p ` ({..<bm_cap (pool_bitmap p)} - bm_used (pool_bitmap p))"

definition same_pool :: "pool \<Rightarrow> pool \<Rightarrow> bool" where
  "same_pool p p' \<longleftrightarrow> phy_addr_start p' = phy_addr_start p \<and> pool_size p' = pool_size p \<and>
     pool_lock p' = pool_lock p \<and> bm_cap (pool_bitmap p') = bm_cap (pool_bitmap p)"

lemma PG_SIZE_num [simp]: "PG_SIZE = 4096"
  by (simp add: PG_SIZE_def)

lemma unat_frame_at:
  assumes "pool_ok p" and "i < bm_cap (pool_bitmap p)"
  shows "unat (frame_at p i) = unat (phy_addr_start p) + i * 4096"
proof -
  have lt: "unat (phy_addr_start p) + i * 4096 < 2 ^ 32"
  proof -
    have "Suc i * 4096 \<le> bm_cap (pool_bitmap p) * 4096"
      using assms(2) by (intro mult_le_mono1) simp
    then show ?thesis
      using assms(1) unfolding pool_ok_def mult_Suc by linarith
  qed
  then have i: "unat (of_nat i :: u32) = i"
    by (simp add: unat_of_nat)
  have "unat (of_nat i :: u32) * unat (4096 :: u32) < 2 ^ LENGTH(32)"
    using lt unfolding i by simp
  then have "unat (of_nat i * 4096 :: u32) = unat (of_nat i :: u32) * unat (4096 :: u32)"
    by (rule unat_mult_lem [THEN iffD1])
  then have m: "unat (of_nat i * 4096 :: u32) = i * 4096"
    unfolding i by simp
  have "unat (of_nat i * 4096 :: u32) + unat (phy_addr_start p) < 2 ^ LENGTH(32)"
    using lt unfolding m by simp
  then have "unat (of_nat i * 4096 + phy_addr_start p) = i * 4096 + unat (phy_addr_start p)"
    by (simp only: unat_add_lem [THEN iffD1] m)
  then show ?thesis
    unfolding frame_at_def PG_SIZE_num by linarith
qed

lemma frame_at_inj:
  "pool_ok p \<Longrightarrow> i < bm_cap (pool_bitmap p) \<Longrightarrow> j < bm_cap (pool_bitmap p) \<Longrightarrow> (frame_at p i = frame_at p j) = (i = j)"
  by (auto simp: word_unat_eq_iff unat_frame_at)

lemma frame_at_frame:
  assumes "pool_ok p" and "i < bm_cap (pool_bitmap p)"
  shows "frame (frame_at p i) = frame_at p i" and "frame_at p i \<noteq> 0"
proof -
  have "unat (phy_addr_start p) = unat (phy_addr_start p) div 4096 * 4096"
    using assms(1) unat_frame [of "phy_addr_start p"] by (simp add: pool_ok_def)
  then have "unat (phy_addr_start p) + i * 4096 = (unat (phy_addr_start p) div 4096 + i) * 4096"
    by (metis add_mult_distrib)
  moreover have "x = k * 4096 \<Longrightarrow> x div 4096 * 4096 = x" for x k :: nat
    by simp
  ultimately show "frame (frame_at p i) = frame_at p i"
    unfolding word_unat_eq_iff unat_frame unat_frame_at [OF assms] by blast
  show "frame_at p i \<noteq> 0"
    using assms(1) by (simp add: word_unat_eq_iff unat_frame_at [OF assms] pool_ok_def)
qed

text \<open>A frame pool used through \<^verbatim>\<open>palloc\<close> is a pool of indices.\<close>

definition frame_alloc :: "pool \<Rightarrow> (nat \<times> pool) option" where
  "frame_alloc p = map_option (\<lambda>(q, p'). (unat ((q - phy_addr_start p) div PG_SIZE), p')) (palloc p)"

lemma palloc_eq:
  assumes "pool_ok p"
  shows "palloc p = (case scan_and_set (pool_bitmap p) of None \<Rightarrow> None
    | Some (i, b) \<Rightarrow> Some (frame_at p i, p\<lparr>pool_bitmap := b\<rparr>))"
proof -
  have wf: "bm_wf (pool_bitmap p)"
    using assms by (simp add: pool_ok_def)
  show ?thesis
  proof (cases "bm_used (pool_bitmap p) = {..<bm_cap (pool_bitmap p)}")
    case True
    then show ?thesis
      using bitmap_scan_full [OF wf, of 1]
      by (simp add: palloc_def bm_used_full scan_and_set_def)
  next
    case False
    then obtain j b' where "scan_and_set (pool_bitmap p) = Some (j, b')" "bitmap_scan (pool_bitmap p) 1 = Some (int j)"
        "bitmap_set (pool_bitmap p) j 1 = Some b'"
      using scan_and_set_eq [OF wf] by auto
    then show ?thesis
      by (simp add: palloc_def frame_at_def)
  qed
qed

lemma pool_ok_bitmap:
  "pool_ok p \<Longrightarrow> bm_wf b \<Longrightarrow> bm_cap b = bm_cap (pool_bitmap p) \<Longrightarrow> pool_ok (p\<lparr>pool_bitmap := b\<rparr>)"
  by (simp add: pool_ok_def)

lemma frame_at_index:
  assumes "pool_ok p" and "i < bm_cap (pool_bitmap p)"
  shows "unat ((frame_at p i - phy_addr_start p) div 4096) = i"
proof -
  have "phy_addr_start p \<le> frame_at p i"
    using unat_frame_at [OF assms] by (simp add: word_le_nat_alt)
  then have "unat (frame_at p i - phy_addr_start p) = i * 4096"
    using unat_frame_at [OF assms] by (simp add: unat_sub)
  then show ?thesis
    by (simp add: unat_div)
qed

interpretation frames: index_pool pool_ok "\<lambda>p. bm_used (pool_bitmap p)" "\<lambda>p. bm_cap (pool_bitmap p)"
  frame_alloc "\<lambda>p i. map_option (\<lambda>b. p\<lparr>pool_bitmap := b\<rparr>) (bitmap_set (pool_bitmap p) i 0)"
proof unfold_locales
  show "pool_ok p \<Longrightarrow> bm_used (pool_bitmap p) \<subseteq> {..<bm_cap (pool_bitmap p)}" for p
    using bitmap_pool.used_bound by (auto simp: pool_ok_def)
  show "pool_ok p' \<and> bm_cap (pool_bitmap p') = bm_cap (pool_bitmap p) \<and> i < bm_cap (pool_bitmap p) \<and>
      i \<notin> bm_used (pool_bitmap p) \<and> bm_used (pool_bitmap p') = insert i (bm_used (pool_bitmap p))"
    if ok: "pool_ok p" and a: "frame_alloc p = Some (i, p')" for p i p'
  proof -
    obtain j b where j: "scan_and_set (pool_bitmap p) = Some (j, b)" "p' = p\<lparr>pool_bitmap := b\<rparr>"
        "i = unat ((frame_at p j - phy_addr_start p) div 4096)"
      using a ok by (auto simp: frame_alloc_def palloc_eq split: option.splits)
    have "bm_wf (pool_bitmap p)"
      using ok by (simp add: pool_ok_def)
    note st = bitmap_pool.alloc_step [OF this j(1)]
    then have "i = j"
      using j(3) frame_at_index [OF ok] by simp
    then show ?thesis
      using st pool_ok_bitmap [OF ok] by (simp add: j(2))
  qed
  show "frame_alloc p \<noteq> None" if "pool_ok p" "bm_used (pool_bitmap p) \<noteq> {..<bm_cap (pool_bitmap p)}" for p
    using bitmap_pool.alloc_total [of "pool_bitmap p"] that
    by (auto simp: frame_alloc_def palloc_eq pool_ok_def split: option.splits)
  show "\<exists>p'. map_option (\<lambda>b. p\<lparr>pool_bitmap := b\<rparr>) (bitmap_set (pool_bitmap p) i 0) = Some p' \<and> pool_ok p' \<and>
      bm_cap (pool_bitmap p') = bm_cap (pool_bitmap p) \<and> bm_used (pool_bitmap p') = bm_used (pool_bitmap p) - {i}"
    if ok: "pool_ok p" and i: "i < bm_cap (pool_bitmap p)" for p i
  proof -
    have "bm_wf (pool_bitmap p)"
      using ok by (simp add: pool_ok_def)
    from bitmap_pool.release_step [OF this i] show ?thesis
      using pool_ok_bitmap [OF ok] by auto
  qed
qed

lemma palloc_frame:
  assumes ok: "pool_ok p" and ne: "free_frames p \<noteq> {}"
  obtains q p' where "palloc p = Some (q, p')" and "q \<in> free_frames p" and "frame q = q" and "q \<noteq> 0"
    and "pool_ok p'" and "same_pool p p'" and "free_frames p' = free_frames p - {q}"
proof -
  have wf: "bm_wf (pool_bitmap p)"
    using ok by (simp add: pool_ok_def)
  have "bm_used (pool_bitmap p) \<noteq> {..<bm_cap (pool_bitmap p)}"
    using ne by (auto simp: free_frames_def)
  then obtain j b where j: "scan_and_set (pool_bitmap p) = Some (j, b)" "bm_wf b" "bm_cap b = bm_cap (pool_bitmap p)"
      "j < bm_cap (pool_bitmap p)" "j \<notin> bm_used (pool_bitmap p)" "bm_used b = insert j (bm_used (pool_bitmap p))"
    using scan_and_set_eq [OF wf] by auto
  have "free_frames (p\<lparr>pool_bitmap := b\<rparr>) = free_frames p - {frame_at p j}"
  proof -
    have at: "frame_at (p\<lparr>pool_bitmap := b\<rparr>) = frame_at p"
      by (auto simp: frame_at_def)
    have "inj_on (frame_at p) {..<bm_cap (pool_bitmap p)}"
      using frame_at_inj [OF ok] by (auto simp: inj_on_def)
    then have "frame_at p ` ({..<bm_cap (pool_bitmap p)} - bm_used (pool_bitmap p) - {j}) =
        frame_at p ` ({..<bm_cap (pool_bitmap p)} - bm_used (pool_bitmap p)) - frame_at p ` {j}"
      using j(4) by (intro inj_on_image_set_diff) auto
    moreover have "{..<bm_cap (pool_bitmap p)} - insert j (bm_used (pool_bitmap p)) =
        {..<bm_cap (pool_bitmap p)} - bm_used (pool_bitmap p) - {j}"
      by blast
    ultimately show ?thesis
      by (simp add: free_frames_def at j(3,6))
  qed
  moreover have "frame_at p j \<in> free_frames p"
    using j(4,5) by (auto simp: free_frames_def)
  ultimately show thesis
    using that [of "frame_at p j" "p\<lparr>pool_bitmap := b\<rparr>"] j ok frame_at_frame [OF ok j(4)] pool_ok_bitmap [OF ok]
    by (simp add: palloc_eq same_pool_def)
qed

lemma palloc_full:
  assumes "pool_ok p" and "free_frames p = {}"
  shows "palloc p = None"
proof -
  have wf: "bm_wf (pool_bitmap p)"
    using assms(1) by (simp add: pool_ok_def)
  have "j < bm_cap (pool_bitmap p) \<Longrightarrow> j \<in> bm_used (pool_bitmap p)" for j
    using assms(2) unfolding free_frames_def by blast
  then have "scan_and_set (pool_bitmap p) = None"
    using scan_and_set_eq [OF wf] by blast
  then show ?thesis
    by (simp add: palloc_eq [OF assms(1)])
qed

section \<open>Installing a page\<close>

lemma finite_free_frames: "finite (free_frames p)"
  by (simp add: free_frames_def)

lemma tables_ok_mono: "tables_ok mem cr F \<Longrightarrow> F' \<subseteq> F \<Longrightarrow> tables_ok mem cr F'"
  unfolding tables_ok_def by blast

lemma card_diff_one: "finite F \<Longrightarrow> card F \<le> card (F - {q}) + 1"
  by (metis card_Diff1_le card_Suc_Diff1 Diff_insert_absorb Suc_eq_plus1 insert_Diff le_add1 order_refl Diff_empty Diff_insert0)

lemma present_read: "x AND 1 = 0 \<longleftrightarrow> \<not> present x"
  by (simp add: present_def)

lemma page_table_add_old:
  assumes ok: "tables_ok (phys s) (cr3 s) F" and q: "frame q = q" and v: "PDE_IDX v \<noteq> 0x3ff"
    and un: "mmu (phys s) (cr3 s) v = None" and pr: "present (pde_of (phys s) (cr3 s) (PDE_IDX v))"
  shows "page_table_add v q s = Some (s\<lparr>phys := (phys s)(pte_addr (phys s) (cr3 s) v := q OR PG_US_U OR PG_RW_W OR PG_P_1)\<rparr>)"
proof -
  note sm = tables_okD(1) [OF ok]
  have d: "present (phys s (pde_addr (cr3 s) v))"
    using pr by (simp add: pde_of_def pde_addr_def flip: frame_def)
  have np: "\<not> present (phys s (pte_addr (phys s) (cr3 s) v))"
    using un pr by (simp add: mmu_parts split: if_splits)
  show ?thesis
    using d np by (simp add: page_table_add_def Let_def vread_def vwrite_def mmu_pde_ptr [OF sm] mmu_pte_ptr [OF sm] present_read)
qed

lemma frame_ptr_parts: "PDE_IDX (frame x) = PDE_IDX x" "PTE_IDX (frame x) = PTE_IDX x" "page_off (frame x) = 0"
  by (simp_all add: word_unat_eq_iff unat_PDE_IDX unat_PTE_IDX unat_page_off unat_frame)

lemma frame_pde_addr: "frame (pde_addr cr v) = frame cr"
  using frame_of_add [OF idx4_less [OF PDE_IDX_less], of cr v] by (simp add: pde_addr_def flip: frame_def)

lemma frame_pte_addr: "frame (pte_addr m cr v) = frame (pde_of m cr (PDE_IDX v))"
  unfolding pte_addr_alt by (rule frame_of_add [OF idx4_less [OF PTE_IDX_less]])

lemma page_table_add_new:
  assumes ok: "tables_ok (phys s) (cr3 s) F" and k: "pool_ok (kernel_pool s)" and sub: "free_frames (kernel_pool s) \<subseteq> F"
    and q: "frame q = q" and v: "PDE_IDX v \<noteq> 0x3ff"
    and np: "\<not> present (pde_of (phys s) (cr3 s) (PDE_IDX v))" and room: "free_frames (kernel_pool s) \<noteq> {}"
  obtains t kp m where "palloc (kernel_pool s) = Some (t, kp)" and "t \<in> free_frames (kernel_pool s)"
    and "page_table_add v q s = Some (s\<lparr>kernel_pool := kp, phys := m(pte_addr m (cr3 s) v := q OR PG_US_U OR PG_RW_W OR PG_P_1)\<rparr>)"
    and "pool_ok kp" and "same_pool (kernel_pool s) kp" and "free_frames kp = free_frames (kernel_pool s) - {t}"
    and "tables_ok m (cr3 s) (F - {t})"
    and "\<And>i. i \<le> 0x3ff \<Longrightarrow> pde_of m (cr3 s) i = (if i = PDE_IDX v then t OR PG_US_U OR PG_RW_W OR PG_P_1 else pde_of (phys s) (cr3 s) i)"
    and "\<And>w. PDE_IDX w \<noteq> 0x3ff \<Longrightarrow> mmu m (cr3 s) w = mmu (phys s) (cr3 s) w"
    and "\<And>a. frame a \<noteq> frame (cr3 s) \<Longrightarrow> frame a \<noteq> t \<Longrightarrow> m a = phys s a"
proof -
  let ?cr = "cr3 s"
  obtain t kp where t: "palloc (kernel_pool s) = Some (t, kp)" "t \<in> free_frames (kernel_pool s)" "frame t = t" "t \<noteq> 0"
      "pool_ok kp" "same_pool (kernel_pool s) kp" "free_frames kp = free_frames (kernel_pool s) - {t}"
    by (rule palloc_frame [OF k room])
  define x where "x = t OR PG_US_U OR PG_RW_W OR PG_P_1"
  define m1 where "m1 = (phys s)(pde_addr ?cr v := x)"
  define m where "m = (\<lambda>a. if frame a = t then 0 else m1 a)"
  have x: "present x" "frame x = t"
    using entry_flags [OF t(3)] by (simp_all add: x_def)
  note at = add_table [OF ok v np subsetD [OF sub t(2)] t(3) x m1_def m_def]
  have sm: "self_map (phys s) ?cr" "self_map m1 ?cr" "self_map m ?cr"
    using tables_okD(1) [OF ok] at(3) tables_okD(1) [OF at(4)] .
  have d: "\<not> present (phys s (pde_addr ?cr v))"
    using np by (simp add: pde_of_def pde_addr_def flip: frame_def)
  have d1: "present (m1 (pde_addr ?cr v))"
    by (simp add: m1_def x)
  have d2: "m (pde_addr ?cr v) = x"
    using at(2) [OF idx_le(1) [of v]] by (simp add: pde_of_def pde_addr_def flip: frame_def)
  have z: "mmu m1 ?cr (pte_ptr v AND 0xfffff000) = Some t"
  proof -
    have "pde_of m1 ?cr 0x3ff = pde_of (phys s) ?cr 0x3ff"
      using at(1) [of "0x3ff"] v by auto
    then have p: "present (pde_of m1 ?cr 0x3ff)" "frame (pde_of m1 ?cr 0x3ff) = frame ?cr"
      using sm(1) by (simp_all add: self_map_def present_def pde_of_def)
    have "pte_addr m1 ?cr (frame (pte_ptr v)) = frame ?cr + PDE_IDX v * 4"
      by (simp add: pte_addr_alt frame_ptr_parts pte_ptr_parts p)
    moreover have "m1 (frame ?cr + PDE_IDX v * 4) = x"
      using at(1) [OF idx_le(1) [of v]] by (simp add: pde_of_def)
    ultimately have "mmu m1 ?cr (frame (pte_ptr v)) = Some t"
      using x p by (simp add: mmu_parts frame_ptr_parts pte_ptr_parts)
    then show ?thesis
      by (simp add: frame_def)
  qed
  have vz: "vzero_page m1 ?cr (pte_ptr v) = Some m"
    by (simp add: vzero_page_def z in_frame [OF t(3)] m_def)
  have "page_table_add v q s = Some (s\<lparr>kernel_pool := kp, phys := m(pte_addr m ?cr v := q OR PG_US_U OR PG_RW_W OR PG_P_1)\<rparr>)"
    using d x(1) vz at(5) d2
    by (simp add: page_table_add_def Let_def vread_def vwrite_def mmu_pde_ptr [OF sm(1)] mmu_pte_ptr [OF sm(3)]
        present_read t(1) flip: x_def m1_def) (simp add: present_def)
  moreover have "m a = phys s a" if "frame a \<noteq> frame ?cr" "frame a \<noteq> t" for a
    using that frame_pde_addr by (auto simp: m_def m1_def)
  ultimately show thesis
    using that [of t kp m] t at(2) [folded x_def] at(4,6) by (auto simp: x_def)
qed

text \<open>
  Installing a page: it becomes mapped, no other page changes its translation (the twin of a page in
  the shared table apart), and at most one frame of the kernel pool is used for a new page table.
\<close>

lemma page_table_add_ok:
  assumes ok: "tables_ok (phys s) (cr3 s) F" and k: "pool_ok (kernel_pool s)" and sub: "free_frames (kernel_pool s) \<subseteq> F"
    and q: "frame q = q" and v: "PDE_IDX v \<noteq> 0x3ff" and un: "mmu (phys s) (cr3 s) v = None"
    and room: "free_frames (kernel_pool s) \<noteq> {}"
  obtains m kp where "page_table_add v q s = Some (s\<lparr>kernel_pool := kp, phys := m\<rparr>)"
    and "tables_ok m (cr3 s) (F - (free_frames (kernel_pool s) - free_frames kp))" and "pool_ok kp" and "same_pool (kernel_pool s) kp"
    and "free_frames kp \<subseteq> free_frames (kernel_pool s)" and "card (free_frames (kernel_pool s)) \<le> card (free_frames kp) + 1"
    and "\<And>w. PDE_IDX w \<noteq> 0x3ff \<Longrightarrow> \<not> aliased (PDE_IDX v) (PDE_IDX w) \<Longrightarrow>
      mmu m (cr3 s) w = (if frame w = frame v then Some (q + page_off w) else mmu (phys s) (cr3 s) w)"
    and "\<And>a. frame a \<in> F \<Longrightarrow> frame a \<notin> free_frames (kernel_pool s) \<Longrightarrow> m a = phys s a"
proof -
  let ?x = "q OR PG_US_U OR PG_RW_W OR PG_P_1"
  note x = entry_flags [OF q]
  show thesis
  proof (cases "present (pde_of (phys s) (cr3 s) (PDE_IDX v))")
    case True
    note st = set_pte [OF refl ok v True, where x = ?x]
    have eq: "page_table_add v q s =
        Some (s\<lparr>kernel_pool := kernel_pool s, phys := (phys s)(pte_addr (phys s) (cr3 s) v := ?x)\<rparr>)"
      using page_table_add_old [OF ok q v un True] by simp
    have keep: "((phys s)(pte_addr (phys s) (cr3 s) v := ?x)) a = phys s a" if "frame a \<in> F" for a
      using that tables_okD(3) [OF ok idx_lt [OF v] True] frame_pte_addr by auto
    show thesis
      by (rule that [OF eq]) (use st(2,3) k x keep in \<open>auto simp: same_pool_def\<close>)
  next
    case False
    obtain t kp m where t: "t \<in> free_frames (kernel_pool s)"
        "page_table_add v q s = Some (s\<lparr>kernel_pool := kp, phys := m(pte_addr m (cr3 s) v := ?x)\<rparr>)"
        "pool_ok kp" "same_pool (kernel_pool s) kp" "free_frames kp = free_frames (kernel_pool s) - {t}"
      and m: "tables_ok m (cr3 s) (F - {t})"
        "pde_of m (cr3 s) (PDE_IDX v) = t OR PG_US_U OR PG_RW_W OR PG_P_1"
        "\<And>w. PDE_IDX w \<noteq> 0x3ff \<Longrightarrow> mmu m (cr3 s) w = mmu (phys s) (cr3 s) w"
        "\<And>a. frame a \<noteq> frame (cr3 s) \<Longrightarrow> frame a \<noteq> t \<Longrightarrow> m a = phys s a"
      using page_table_add_new [OF ok k sub q v False room] idx_le(1) [of v] by metis
    have "frame t = t"
      using t(1) frame_at_frame(1) [OF k] by (auto simp: free_frames_def)
    then have pr: "present (pde_of m (cr3 s) (PDE_IDX v))"
      using entry_flags(2) m(2) by simp
    note st = set_pte [OF refl m(1) v pr, where x = ?x]
    have diff: "free_frames (kernel_pool s) - free_frames kp = {t}"
      using t(1,5) by auto
    have keep: "(m(pte_addr m (cr3 s) v := ?x)) a = phys s a" if "frame a \<in> F" "frame a \<notin> free_frames (kernel_pool s)" for a
    proof -
      have "frame (pte_addr m (cr3 s) v) = t"
        using entry_flags(1) [OF \<open>frame t = t\<close>] m(2) by (simp add: frame_pte_addr)
      moreover have "frame a \<noteq> t" "frame a \<noteq> frame (cr3 s)"
        using that t(1) tables_okD(2) [OF ok] by auto
      ultimately show ?thesis
        using m(4) by auto
    qed
    show thesis
      by (rule that [OF t(2)]) (use st(2,3) x t m(3) card_diff_one [OF finite_free_frames] diff keep in auto)
  qed
qed

text \<open>What it writes: the directory and the table of the page, which may be a new one from the kernel pool.\<close>

lemma page_table_add_changes:
  assumes ok: "tables_ok (phys s) (cr3 s) F" and k: "pool_ok (kernel_pool s)" and sub: "free_frames (kernel_pool s) \<subseteq> F"
    and q: "frame q = q" and v: "PDE_IDX v \<noteq> 0x3ff" and un: "mmu (phys s) (cr3 s) v = None"
    and room: "free_frames (kernel_pool s) \<noteq> {}" and eq: "page_table_add v q s = Some s'"
    and t: "t = frame (pde_of (phys s') (cr3 s) (PDE_IDX v))"
  shows "frame a \<noteq> frame (cr3 s) \<Longrightarrow> frame a \<noteq> t \<Longrightarrow> phys s' a = phys s a"
    and "i \<le> 0x3ff \<Longrightarrow> i \<noteq> PDE_IDX v \<Longrightarrow> pde_of (phys s') (cr3 s) i = pde_of (phys s) (cr3 s) i"
    and "t \<in> free_frames (kernel_pool s) \<or> present (pde_of (phys s) (cr3 s) (PDE_IDX v)) \<and> t = frame (pde_of (phys s) (cr3 s) (PDE_IDX v))"
proof -
  let ?x = "q OR PG_US_U OR PG_RW_W OR PG_P_1" and ?i = "PDE_IDX v"
  have "(frame a \<noteq> frame (cr3 s) \<longrightarrow> frame a \<noteq> t \<longrightarrow> phys s' a = phys s a) \<and>
    (i \<le> 0x3ff \<longrightarrow> i \<noteq> ?i \<longrightarrow> pde_of (phys s') (cr3 s) i = pde_of (phys s) (cr3 s) i) \<and>
    (t \<in> free_frames (kernel_pool s) \<or> present (pde_of (phys s) (cr3 s) ?i) \<and> t = frame (pde_of (phys s) (cr3 s) ?i))"
  proof (cases "present (pde_of (phys s) (cr3 s) ?i)")
    case True
    have m: "phys s' = (phys s)(pte_addr (phys s) (cr3 s) v := ?x)"
      using page_table_add_old [OF ok q v un True] eq by auto
    have pde: "i \<le> 0x3ff \<Longrightarrow> pde_of (phys s') (cr3 s) i = pde_of (phys s) (cr3 s) i" for i
      unfolding m by (rule set_pte(1) [OF refl ok v True])
    then have "t = frame (pde_of (phys s) (cr3 s) ?i)"
      using t idx_le(1) by simp
    then show ?thesis
      using True pde by (auto simp: m frame_pte_addr)
  next
    case False
    obtain r kp m where r: "r \<in> free_frames (kernel_pool s)"
        "page_table_add v q s = Some (s\<lparr>kernel_pool := kp, phys := m(pte_addr m (cr3 s) v := ?x)\<rparr>)" "tables_ok m (cr3 s) (F - {r})"
        "\<And>i. i \<le> 0x3ff \<Longrightarrow> pde_of m (cr3 s) i = (if i = ?i then r OR PG_US_U OR PG_RW_W OR PG_P_1 else pde_of (phys s) (cr3 s) i)"
        "\<And>a. frame a \<noteq> frame (cr3 s) \<Longrightarrow> frame a \<noteq> r \<Longrightarrow> m a = phys s a"
      by (rule page_table_add_new [OF ok k sub q v False room]) blast
    have "frame r = r"
      using r(1) frame_at_frame(1) [OF k] by (auto simp: free_frames_def)
    then have x: "present (pde_of m (cr3 s) ?i)" "frame (pde_of m (cr3 s) ?i) = r"
      using entry_flags r(4) [OF idx_le(1) [of v]] by simp_all
    have m: "phys s' = m(pte_addr m (cr3 s) v := ?x)"
      using r(2) eq by auto
    have pde: "i \<le> 0x3ff \<Longrightarrow> pde_of (phys s') (cr3 s) i = pde_of m (cr3 s) i" for i
      unfolding m by (rule set_pte(1) [OF refl r(3) v x(1)])
    then have "t = r"
      using t x(2) idx_le(1) [of v] by simp
    then show ?thesis
      using pde r(1,4,5) x(2) by (auto simp: m frame_pte_addr)
  qed
  then show "frame a \<noteq> frame (cr3 s) \<Longrightarrow> frame a \<noteq> t \<Longrightarrow> phys s' a = phys s a"
    and "i \<le> 0x3ff \<Longrightarrow> i \<noteq> PDE_IDX v \<Longrightarrow> pde_of (phys s') (cr3 s) i = pde_of (phys s) (cr3 s) i"
    and "t \<in> free_frames (kernel_pool s) \<or> present (pde_of (phys s) (cr3 s) (PDE_IDX v)) \<and> t = frame (pde_of (phys s) (cr3 s) (PDE_IDX v))"
    by blast+
qed

section \<open>Mapping a range of pages\<close>

definition mem_only :: "'a mstate_scheme \<Rightarrow> 'a mstate_scheme \<Rightarrow> bool" where
  "mem_only s s' \<longleftrightarrow> (\<exists>k u m. s' = s\<lparr>kernel_pool := k, user_pool := u, phys := m\<rparr>)"

lemma mem_only_trans: "mem_only s s1 \<Longrightarrow> mem_only s1 s2 \<Longrightarrow> mem_only s s2"
  by (clarsimp simp: mem_only_def) blast

lemma mem_onlyI: "mem_only s (s\<lparr>kernel_pool := k, phys := m\<rparr>)" "mem_only s (set_pool pf p s)" "mem_only s s"
proof -
  have "s\<lparr>kernel_pool := k, phys := m\<rparr> = s\<lparr>kernel_pool := k, user_pool := user_pool s, phys := m\<rparr>"
    by simp
  then show "mem_only s (s\<lparr>kernel_pool := k, phys := m\<rparr>)"
    unfolding mem_only_def by blast
  have "set_pool pf p s = s\<lparr>kernel_pool := kernel_pool (set_pool pf p s), user_pool := user_pool (set_pool pf p s), phys := phys s\<rparr>"
    by (simp add: set_pool_def)
  then show "mem_only s (set_pool pf p s)"
    unfolding mem_only_def by blast
  have "s = s\<lparr>kernel_pool := kernel_pool s, user_pool := user_pool s, phys := phys s\<rparr>"
    by simp
  then show "mem_only s s"
    unfolding mem_only_def by blast
qed

lemma mem_only_cr3: "mem_only s s' \<Longrightarrow> cr3 s' = cr3 s"
  by (auto simp: mem_only_def)

text \<open>
  The state of memory. \<open>D\<close> is the set of frames that are in use as data; the frames that are free and
  the frames of \<open>D\<close> hold no page table, and the kernel pool lies below the user pool.
\<close>

definition memory_ok :: "u32 set \<Rightarrow> 'a mstate_scheme \<Rightarrow> bool" where
  "memory_ok D s \<longleftrightarrow> pool_ok (kernel_pool s) \<and> pool_ok (user_pool s) \<and>
     unat (phy_addr_start (kernel_pool s)) + bm_cap (pool_bitmap (kernel_pool s)) * 4096 \<le> unat (phy_addr_start (user_pool s)) \<and>
     D \<inter> (free_frames (kernel_pool s) \<union> free_frames (user_pool s)) = {} \<and>
     tables_ok (phys s) (cr3 s) (free_frames (kernel_pool s) \<union> free_frames (user_pool s) \<union> D)"

lemma memory_okD:
  assumes "memory_ok D s"
  shows "pool_ok (kernel_pool s)" "pool_ok (user_pool s)" "pool_ok (get_pool pf s)"
    "tables_ok (phys s) (cr3 s) (free_frames (kernel_pool s) \<union> free_frames (user_pool s) \<union> D)"
    "D \<inter> free_frames (get_pool pf s) = {}"
  using assms by (auto simp: memory_ok_def get_pool_def)

lemma pools_apart:
  assumes "memory_ok D s" and "q \<in> pool_frames (kernel_pool s)" and "r \<in> pool_frames (user_pool s)"
  shows "q < phy_addr_start (user_pool s)" and "phy_addr_start (user_pool s) \<le> r"
proof -
  obtain i j where i: "q = frame_at (kernel_pool s) i" "i < bm_cap (pool_bitmap (kernel_pool s))"
    and j: "r = frame_at (user_pool s) j" "j < bm_cap (pool_bitmap (user_pool s))"
    using assms(2,3) by (auto simp: pool_frames_def)
  have "Suc i * 4096 \<le> bm_cap (pool_bitmap (kernel_pool s)) * 4096"
    using i(2) by (intro mult_le_mono1) simp
  then have "unat (phy_addr_start (kernel_pool s)) + i * 4096 < unat (phy_addr_start (user_pool s))"
    using assms(1) unfolding memory_ok_def mult_Suc by linarith
  then show "q < phy_addr_start (user_pool s)"
    using unat_frame_at [OF memory_okD(1) [OF assms(1)] i(2)] by (simp add: word_less_nat_alt i(1))
  show "phy_addr_start (user_pool s) \<le> r"
    using unat_frame_at [OF memory_okD(2) [OF assms(1)] j(2)] by (simp add: word_le_nat_alt j(1))
qed

lemma free_sub_pool: "free_frames p \<subseteq> pool_frames p"
  by (auto simp: free_frames_def pool_frames_def)

lemma free_disjoint:
  assumes "memory_ok D s"
  shows "free_frames (kernel_pool s) \<inter> free_frames (user_pool s) = {}"
  using pools_apart [OF assms] free_sub_pool by fastforce

definition page_at :: "u32 \<Rightarrow> nat \<Rightarrow> u32" where
  "page_at v j = v + of_nat j * PG_SIZE"

text \<open>Addresses above the first four megabytes and below the window of the page tables.\<close>

definition range_ok :: "u32 \<Rightarrow> nat \<Rightarrow> bool" where
  "range_ok v n \<longleftrightarrow> frame v = v \<and> 2 ^ 22 \<le> unat v \<and> unat v + n * 4096 \<le> 0xffc00000"

lemma range_ok_Suc:
  assumes "range_ok v (Suc n)"
  shows "range_ok (v + 4096) n" and "unat (v + 4096) = unat v + 4096"
proof -
  have "unat v + unat (4096 :: u32) < 2 ^ LENGTH(32)"
    using assms by (simp add: range_ok_def)
  then have u: "unat (v + 4096) = unat v + 4096"
    by (simp only: unat_add_lem [THEN iffD1]) simp
  then show "unat (v + 4096) = unat v + 4096" .
  have "unat v div 4096 * 4096 = unat v"
    using assms unat_frame [of v] by (simp add: range_ok_def)
  then obtain k where "unat v = k * 4096"
    by metis
  then have "unat (v + 4096) = Suc k * 4096"
    unfolding u by simp
  then have "unat (v + 4096) div 4096 * 4096 = unat (v + 4096)"
    by (simp only: div_mult_self_is_m)
  then have "frame (v + 4096) = v + 4096"
    by (simp add: word_unat_eq_iff unat_frame)
  then show "range_ok (v + 4096) n"
    using assms by (simp add: range_ok_def u)
qed

lemma range_ok_PDE:
  assumes "range_ok v (Suc n)"
  shows "PDE_IDX v \<noteq> 0x3ff" and "PDE_IDX v \<noteq> 0"
proof -
  have "unat v < 1023 * 1024 * 4096" "1024 * 4096 \<le> unat v"
    using assms by (simp_all add: range_ok_def)
  then have "unat v div 4096 div 1024 < 1023" "1 \<le> unat v div 4096 div 1024"
    by (auto intro!: less_mult_imp_div_less simp: less_eq_div_iff_mult_less_eq)
  then show "PDE_IDX v \<noteq> 0x3ff" and "PDE_IDX v \<noteq> 0"
    by (auto simp: word_unat_eq_iff unat_PDE_IDX)
qed

lemma page_at_Suc: "page_at v (Suc j) = page_at (v + 4096) j" and page_at_0 [simp]: "page_at v 0 = v"
  by (simp_all add: page_at_def algebra_simps)

lemma page_at_range:
  "range_ok v n \<Longrightarrow> j < n \<Longrightarrow> unat (page_at v j) = unat v + j * 4096 \<and> range_ok (page_at v j) (n - j)"
proof (induction j arbitrary: v n)
  case (Suc j)
  then obtain m where n: "n = Suc m" and j: "j < m"
    by (cases n) auto
  note r = range_ok_Suc [OF Suc.prems(1) [unfolded n]]
  from Suc.IH [OF r(1) j] show ?case
    unfolding page_at_Suc n r(2) by simp
qed simp

lemma page_at_props:
  assumes "range_ok v n" and "j < n"
  shows "frame (page_at v j) = page_at v j" and "PDE_IDX (page_at v j) \<noteq> 0x3ff" and "PDE_IDX (page_at v j) \<noteq> 0"
proof -
  from page_at_range [OF assms] have r: "range_ok (page_at v j) (Suc (n - j - 1))"
    using assms(2) by (simp add: Suc_diff_Suc)
  show "PDE_IDX (page_at v j) \<noteq> 0x3ff" and "PDE_IDX (page_at v j) \<noteq> 0"
    by (rule range_ok_PDE [OF r])+
  show "frame (page_at v j) = page_at v j"
    using r unfolding range_ok_def by blast
qed

lemma page_at_inj: "range_ok v n \<Longrightarrow> i < n \<Longrightarrow> j < n \<Longrightarrow> (page_at v i = page_at v j) = (i = j)"
  using page_at_range [of v n i] page_at_range [of v n j] by (auto simp: word_unat_eq_iff)

definition room_for :: "pool_flags \<Rightarrow> nat \<Rightarrow> 'a mstate_scheme \<Rightarrow> bool" where
  "room_for pf n s \<longleftrightarrow> (if pf = PF_KERNEL then 2 * n \<le> card (free_frames (kernel_pool s))
     else n \<le> card (free_frames (kernel_pool s)) \<and> n \<le> card (free_frames (user_pool s)))"

text \<open>What a range of new pages may look like: each page has a frame of its own.\<close>

definition mapped_range :: "'a mstate_scheme \<Rightarrow> 'a mstate_scheme \<Rightarrow> u32 \<Rightarrow> u32 list \<Rightarrow> bool" where
  "mapped_range s s' v fs \<longleftrightarrow>
     (\<forall>w. PDE_IDX w \<noteq> 0x3ff \<and> PDE_IDX w \<noteq> 0 \<longrightarrow>
        (\<forall>j<length fs. frame w = page_at v j \<longrightarrow> mmu (phys s') (cr3 s') w = Some (fs ! j + page_off w)) \<and>
        ((\<forall>j<length fs. frame w \<noteq> page_at v j) \<longrightarrow> mmu (phys s') (cr3 s') w = mmu (phys s) (cr3 s) w))"

lemma memory_ok_step:
  assumes ok: "memory_ok D s" and q: "q \<in> free_frames (get_pool pf s)"
    and p: "pool_ok p" "same_pool (get_pool pf s) p" "free_frames p = free_frames (get_pool pf s) - {q}"
    and m: "tables_ok m (cr3 (set_pool pf p s)) ((free_frames (kernel_pool s) \<union> free_frames (user_pool s) \<union> D) -
        (free_frames (kernel_pool (set_pool pf p s)) - free_frames kp))"
      "pool_ok kp" "same_pool (kernel_pool (set_pool pf p s)) kp" "free_frames kp \<subseteq> free_frames (kernel_pool (set_pool pf p s))"
  shows "memory_ok (insert q D) ((set_pool pf p s)\<lparr>kernel_pool := kp, phys := m\<rparr>)"
proof -
  note D = memory_okD(5) [OF ok, of PF_KERNEL] memory_okD(5) [OF ok, of PF_USER] free_disjoint [OF ok]
  have F: "free_frames kp \<union> free_frames (user_pool (set_pool pf p s)) \<union> insert q D \<subseteq>
      (free_frames (kernel_pool s) \<union> free_frames (user_pool s) \<union> D) - (free_frames (kernel_pool (set_pool pf p s)) - free_frames kp)"
    using q p(3) m(4) D by (cases pf) (auto simp: get_pool_def set_pool_def)
  have "insert q D \<inter> (free_frames kp \<union> free_frames (user_pool (set_pool pf p s))) = {}"
    using q p(3) m(4) D by (cases pf) (auto simp: get_pool_def set_pool_def)
  then show ?thesis
    using tables_ok_mono [OF m(1) F] ok p(1,2) m(2,3) unfolding memory_ok_def
    by (cases pf) (auto simp: get_pool_def set_pool_def same_pool_def)
qed

lemma map_one_page:
  assumes ok: "memory_ok D s" and r: "range_ok v (Suc k)" and un: "mmu (phys s) (cr3 s) v = None"
    and room: "room_for pf (Suc n) s"
  obtains q p s2 where "palloc (get_pool pf s) = Some (q, p)" and "q \<noteq> 0"
    and "page_table_add v q (set_pool pf p s) = Some s2" and "memory_ok (insert q D) s2" and "mem_only s s2"
    and "room_for pf n s2" and "q \<in> free_frames (get_pool pf s)" and "q \<notin> free_frames (get_pool pf s2)"
    and "\<And>pg. same_pool (get_pool pg s) (get_pool pg s2)"
    and "\<And>pg. free_frames (get_pool pg s2) \<subseteq> free_frames (get_pool pg s)"
    and "\<And>w. PDE_IDX w \<noteq> 0x3ff \<Longrightarrow> PDE_IDX w \<noteq> 0 \<Longrightarrow>
      mmu (phys s2) (cr3 s2) w = (if frame w = v then Some (q + page_off w) else mmu (phys s) (cr3 s) w)"
    and "\<And>a. frame a \<in> D \<Longrightarrow> phys s2 a = phys s a"
proof -
  let ?F = "free_frames (kernel_pool s) \<union> free_frames (user_pool s) \<union> D"
  note kok = memory_okD(1) [OF ok] and uok = memory_okD(2) [OF ok] and pok = memory_okD(3) [OF ok, of pf]
    and tok = memory_okD(4) [OF ok]
  have "0 < card (free_frames (get_pool pf s))"
    using room by (auto simp: room_for_def get_pool_def split: if_splits)
  then have ne: "free_frames (get_pool pf s) \<noteq> {}"
    by auto
  obtain q p where q: "palloc (get_pool pf s) = Some (q, p)" "q \<in> free_frames (get_pool pf s)" "frame q = q" "q \<noteq> 0"
      "pool_ok p" "same_pool (get_pool pf s) p" "free_frames p = free_frames (get_pool pf s) - {q}"
    by (rule palloc_frame [OF pok ne])
  let ?s1 = "set_pool pf p s"
  have cp: "card (free_frames (get_pool pf s)) \<le> card (free_frames p) + 1"
    using card_diff_one [OF finite_free_frames] q(7) by simp
  have s1: "pool_ok (kernel_pool ?s1)" "pool_ok (user_pool ?s1)" "phys ?s1 = phys s" "cr3 ?s1 = cr3 s"
      "free_frames (kernel_pool ?s1) \<subseteq> ?F"
    using q(5,7) kok uok by (auto simp: set_pool_def get_pool_def split: if_splits)
  have t1: "tables_ok (phys ?s1) (cr3 ?s1) ?F"
    using tok s1 by simp
  have "0 < card (free_frames (kernel_pool ?s1))"
    using room cp by (auto simp: room_for_def get_pool_def set_pool_def split: if_splits)
  then have ne1: "free_frames (kernel_pool ?s1) \<noteq> {}"
    by auto
  have un1: "mmu (phys ?s1) (cr3 ?s1) v = None"
    using un s1 by simp
  obtain m kp where m: "page_table_add v q ?s1 = Some (?s1\<lparr>kernel_pool := kp, phys := m\<rparr>)"
      "tables_ok m (cr3 ?s1) (?F - (free_frames (kernel_pool ?s1) - free_frames kp))" "pool_ok kp" "same_pool (kernel_pool ?s1) kp"
      "free_frames kp \<subseteq> free_frames (kernel_pool ?s1)" "card (free_frames (kernel_pool ?s1)) \<le> card (free_frames kp) + 1"
      "\<And>w. PDE_IDX w \<noteq> 0x3ff \<Longrightarrow> \<not> aliased (PDE_IDX v) (PDE_IDX w) \<Longrightarrow>
        mmu m (cr3 ?s1) w = (if frame w = frame v then Some (q + page_off w) else mmu (phys ?s1) (cr3 ?s1) w)"
      "\<And>a. frame a \<in> ?F \<Longrightarrow> frame a \<notin> free_frames (kernel_pool ?s1) \<Longrightarrow> m a = phys ?s1 a"
    by (rule page_table_add_ok [OF t1 s1(1,5) q(3) range_ok_PDE(1) [OF r] un1 ne1]) blast
  let ?s2 = "?s1\<lparr>kernel_pool := kp, phys := m\<rparr>"
  have al: "\<not> aliased (PDE_IDX v) (PDE_IDX w)" if "PDE_IDX w \<noteq> 0" for w
    using that range_ok_PDE(2) [OF r] by (simp add: aliased_def)
  have fv: "frame v = v"
    using r unfolding range_ok_def by blast
  show thesis
  proof (rule that [OF q(1,4) m(1) _ _ _ q(2)])
    show "memory_ok (insert q D) ?s2"
      by (rule memory_ok_step [OF ok q(2) q(5-7) m(2-5)])
    show "mem_only s ?s2"
      by (rule mem_only_trans [OF mem_onlyI(2) mem_onlyI(1)])
    show "room_for pf n ?s2"
      using room cp m(6) by (auto simp: room_for_def get_pool_def set_pool_def split: if_splits)
    show "q \<notin> free_frames (get_pool pf ?s2)"
      using m(5) q(7) by (auto simp: get_pool_def set_pool_def split: if_splits)
    show "same_pool (get_pool pg s) (get_pool pg ?s2)" for pg
      using m(4) q(6) by (auto simp: get_pool_def set_pool_def same_pool_def split: if_splits)
    show "free_frames (get_pool pg ?s2) \<subseteq> free_frames (get_pool pg s)" for pg
      using m(5) q(7) by (auto simp: get_pool_def set_pool_def split: if_splits)
    show "mmu (phys ?s2) (cr3 ?s2) w = (if frame w = v then Some (q + page_off w) else mmu (phys s) (cr3 s) w)"
      if "PDE_IDX w \<noteq> 0x3ff" "PDE_IDX w \<noteq> 0" for w
      using m(7) [OF that(1) al [OF that(2)]] s1 fv by simp
    show "phys ?s2 a = phys s a" if "frame a \<in> D" for a
    proof -
      have "frame a \<notin> free_frames (kernel_pool ?s1)"
        using that memory_okD(5) [OF ok, of PF_KERNEL] q(7) by (auto simp: get_pool_def set_pool_def split: if_splits)
      then show ?thesis
        using m(8) [of a] that s1 by simp
    qed
  qed
qed

lemma map_pages_ok:
  assumes "memory_ok D s" and "range_ok v n" and "\<And>j. j < n \<Longrightarrow> mmu (phys s) (cr3 s) (page_at v j) = None"
    and "room_for pf n s"
  shows "\<exists>s' fs. map_pages pf n v s = Some (True, s') \<and> memory_ok (D \<union> set fs) s' \<and> mem_only s s' \<and> length fs = n \<and> distinct fs \<and>
    set fs \<subseteq> free_frames (get_pool pf s) \<and> set fs \<inter> free_frames (get_pool pf s') = {} \<and>
    (\<forall>pg. same_pool (get_pool pg s) (get_pool pg s') \<and> free_frames (get_pool pg s') \<subseteq> free_frames (get_pool pg s)) \<and>
    mapped_range s s' v fs"
  using assms
proof (induction n arbitrary: v s D)
  case 0
  then show ?case
    by (auto simp: same_pool_def mapped_range_def intro!: mem_onlyI exI [of _ "[]"])
next
  case (Suc n)
  have un: "mmu (phys s) (cr3 s) v = None"
    using Suc.prems(3) [of 0] by simp
  obtain q p s2 where q: "palloc (get_pool pf s) = Some (q, p)" "q \<noteq> 0"
      "page_table_add v q (set_pool pf p s) = Some s2" "memory_ok (insert q D) s2" "mem_only s s2"
      "room_for pf n s2" "q \<in> free_frames (get_pool pf s)" "q \<notin> free_frames (get_pool pf s2)"
      "\<And>pg. same_pool (get_pool pg s) (get_pool pg s2)"
      "\<And>pg. free_frames (get_pool pg s2) \<subseteq> free_frames (get_pool pg s)"
      "\<And>w. PDE_IDX w \<noteq> 0x3ff \<Longrightarrow> PDE_IDX w \<noteq> 0 \<Longrightarrow>
        mmu (phys s2) (cr3 s2) w = (if frame w = v then Some (q + page_off w) else mmu (phys s) (cr3 s) w)"
    by (rule map_one_page [OF Suc.prems(1,2) un Suc.prems(4)]) blast
  note r = range_ok_Suc(1) [OF Suc.prems(2)]
  have pg: "page_at (v + 4096) j \<noteq> v" if "j < n" for j
    using page_at_inj [OF Suc.prems(2), of "Suc j" 0] that by (simp add: page_at_Suc)
  have un2: "mmu (phys s2) (cr3 s2) (page_at (v + 4096) j) = None" if "j < n" for j
    using q(11) [of "page_at (v + 4096) j"] Suc.prems(3) [of "Suc j"] pg [OF that] that
      page_at_props [OF r that] by (simp add: page_at_Suc)
  obtain s' fs where s': "map_pages pf n (v + 4096) s2 = Some (True, s')" "memory_ok (insert q D \<union> set fs) s'" "mem_only s2 s'"
      "length fs = n" "distinct fs" "set fs \<subseteq> free_frames (get_pool pf s2)" "set fs \<inter> free_frames (get_pool pf s') = {}"
      "\<And>pg. same_pool (get_pool pg s2) (get_pool pg s')" "\<And>pg. free_frames (get_pool pg s') \<subseteq> free_frames (get_pool pg s2)"
      "mapped_range s2 s' (v + 4096) fs"
    using Suc.IH [OF q(4) r un2 q(6)] by blast
  have "map_pages pf (Suc n) v s = Some (True, s')"
    using q(1-3) s'(1) by (simp add: NULL_def)
  moreover have "mapped_range s s' v (q # fs)"
    unfolding mapped_range_def
  proof (intro allI impI conjI)
    fix w j
    assume w: "PDE_IDX w \<noteq> 0x3ff \<and> PDE_IDX w \<noteq> 0" and j: "j < length (q # fs)" "frame w = page_at v j"
    show "mmu (phys s') (cr3 s') w = Some ((q # fs) ! j + page_off w)"
    proof (cases j)
      case 0
      then have "\<forall>i<length fs. frame w \<noteq> page_at (v + 4096) i"
        using j(2) pg [THEN not_sym] s'(4) by simp
      then have "mmu (phys s') (cr3 s') w = mmu (phys s2) (cr3 s2) w"
        using s'(10) w unfolding mapped_range_def by blast
      then show ?thesis
        using q(11) [of w] w j(2) 0 by simp
    next
      case (Suc i)
      then show ?thesis
        using s'(10) w j unfolding mapped_range_def by (auto simp: page_at_Suc)
    qed
  next
    fix w
    assume w: "PDE_IDX w \<noteq> 0x3ff \<and> PDE_IDX w \<noteq> 0" and j: "\<forall>j<length (q # fs). frame w \<noteq> page_at v j"
    have nv: "frame w \<noteq> v" and nr: "\<forall>i<length fs. frame w \<noteq> page_at (v + 4096) i"
      using j by (auto simp: page_at_Suc [symmetric] dest!: spec [of _ 0])
    then show "mmu (phys s') (cr3 s') w = mmu (phys s) (cr3 s) w"
      using s'(10) q(11) [of w] w unfolding mapped_range_def by simp
  qed
  moreover have "mem_only s s'" "\<And>pg. same_pool (get_pool pg s) (get_pool pg s')"
      "\<And>pg. free_frames (get_pool pg s') \<subseteq> free_frames (get_pool pg s)"
    using mem_only_trans [OF q(5) s'(3)] q(9) s'(8) subset_trans [OF s'(9) q(10)] by (simp_all add: same_pool_def)
  moreover have "distinct (q # fs)" "set (q # fs) \<subseteq> free_frames (get_pool pf s)"
      "set (q # fs) \<inter> free_frames (get_pool pf s') = {}"
    using q(7,8) q(10) [of pf] s'(5,6,7) s'(9) [of pf] by auto
  ultimately show ?case
    using s'(2,4) by (intro exI [of _ s'] exI [of _ "q # fs"]) simp
qed

end
