(* ===== verification/Page_Alloc.thy ===== *)
theory Page_Alloc
  imports Memory_Inv
begin

text \<open>
  Allocation and release of ranges of pages: \<^verbatim>\<open>malloc_page\<close> and \<^verbatim>\<open>mfree_page\<close> over the virtual address
  bitmaps, the frame pools and the page tables.
\<close>

section \<open>Runs of bits\<close>

lemma set_range_ok:
  assumes "bm_wf b" and "start + n \<le> bm_cap b" and "v = 0 \<or> v = 1"
  shows "\<exists>b'. bitmap_set_range b start n v = Some b' \<and> btmp_bytes_len b' = btmp_bytes_len b \<and>
    length (bits b') = length (bits b) \<and>
    (\<forall>j. bm_bit b' j = (if start \<le> j \<and> j < start + n then v = 1 else bm_bit b j))"
  using assms(1,2)
proof (induction n arbitrary: start b)
  case (Suc n)
  have "start < bm_cap b"
    using Suc.prems by simp
  then obtain b1 where b1: "bitmap_set b start v = Some b1" "btmp_bytes_len b1 = btmp_bytes_len b"
      "length (bits b1) = length (bits b)" "\<And>j. bm_bit b1 j = (if j = start then v = 1 else bm_bit b j)"
    using bitmap_set_Some [OF bm_index [OF _ Suc.prems(1)] assms(3)] by metis
  have "bm_wf b1" "Suc start + n \<le> bm_cap b1"
    using Suc.prems b1 by (simp_all add: bm_wf_def bm_cap_def)
  from Suc.IH [OF this] obtain b' where "bitmap_set_range b1 (Suc start) n v = Some b'"
      "btmp_bytes_len b' = btmp_bytes_len b1" "length (bits b') = length (bits b1)"
      "\<forall>j. bm_bit b' j = (if Suc start \<le> j \<and> j < Suc start + n then v = 1 else bm_bit b1 j)"
    by blast
  then show ?case
    using b1 by (intro exI [of _ b']) (auto simp: le_eq_less_or_eq Suc_le_eq)
qed auto

lemma scan_finds_run:
  assumes wf: "bm_wf b" and len: "btmp_bytes_len b < length (bits b)" and n: "0 < n"
    and i: "i + n \<le> bm_cap b" "free_run b i n"
  shows "\<exists>r. bitmap_scan b n = Some (int r) \<and> r + n \<le> bm_cap b \<and> free_run b r n"
proof -
  have bit: "i < bm_cap b" "\<not> bm_bit b i"
    using i n by (auto simp: free_run_def)
  show ?thesis
  proof (cases "n = 1")
    case True
    then show ?thesis
      using bitmap_scan_one [OF wf bit] by (auto simp: free_run_def less_Suc_eq_le)
  next
    case False
    then obtain z where z: "bitmap_scan b n = Some z" "first_fit b n 0 (bm_cap b + 1) z"
      using bitmap_scan_run [OF wf len _ bit, of n] n by auto
    have "z \<noteq> -1"
      using z(2) i by (auto simp: first_fit_def split: if_splits)
    then have r: "0 \<le> z" "free_run b (nat z) n" "\<forall>j<nat z. \<not> free_run b j n"
      using z(2) by (auto simp: first_fit_def split: if_splits)
    then have "nat z \<le> i"
      using i(2) by (meson linorder_not_le)
    then show ?thesis
      using z(1) r i(1) by (intro exI [of _ "nat z"]) auto
  qed
qed

section \<open>Virtual address spaces\<close>

definition vspace :: "pool_flags \<Rightarrow> 'a mstate_scheme \<Rightarrow> virtual_addr" where
  "vspace pf s = (if pf = PF_KERNEL then kernel_vaddr s else user_vaddr (tasks s (cur s)))"

definition vbits :: "pool_flags \<Rightarrow> 'a mstate_scheme \<Rightarrow> bitmap" where
  "vbits pf s = vaddr_bitmap (vspace pf s)"

definition set_vbits :: "pool_flags \<Rightarrow> bitmap \<Rightarrow> 'a mstate_scheme \<Rightarrow> 'a mstate_scheme" where
  "set_vbits pf b s =
     (if pf = PF_KERNEL then s\<lparr>kernel_vaddr := (kernel_vaddr s)\<lparr>vaddr_bitmap := b\<rparr>\<rparr>
      else upd_task (cur s) (user_vaddr_update (\<lambda>_. (user_vaddr (tasks s (cur s)))\<lparr>vaddr_bitmap := b\<rparr>)) s)"

text \<open>The pages whose bits are clear are not mapped, and a process stays below the kernel.\<close>

definition vspace_ok :: "pool_flags \<Rightarrow> 'a mstate_scheme \<Rightarrow> bool" where
  "vspace_ok pf s \<longleftrightarrow> bm_wf (vbits pf s) \<and> btmp_bytes_len (vbits pf s) < length (bits (vbits pf s)) \<and>
     range_ok (vaddr_start (vspace pf s)) (bm_cap (vbits pf s)) \<and>
     (pf = PF_USER \<longrightarrow> unat (vaddr_start (vspace pf s)) + bm_cap (vbits pf s) * 4096 < 0xc0000000 - 4096) \<and>
     (\<forall>i<bm_cap (vbits pf s). \<not> bm_bit (vbits pf s) i \<longrightarrow>
        mmu (phys s) (cr3 s) (page_at (vaddr_start (vspace pf s)) i) = None)"

lemma set_vbits_simps [simp]:
  "vbits pf (set_vbits pf b s) = b" "vaddr_start (vspace pf (set_vbits pf b s)) = vaddr_start (vspace pf s)"
  "phys (set_vbits pf b s) = phys s" "cr3 (set_vbits pf b s) = cr3 s"
  "kernel_pool (set_vbits pf b s) = kernel_pool s" "user_pool (set_vbits pf b s) = user_pool s"
  "get_pool pg (set_vbits pf b s) = get_pool pg s"
  by (simp_all add: vbits_def vspace_def set_vbits_def upd_task_def get_pool_def)

lemma memory_ok_vbits [simp]: "memory_ok D (set_vbits pf b s) = memory_ok D s"
  by (simp add: memory_ok_def)

lemma room_for_vbits [simp]: "room_for pg n (set_vbits pf b s) = room_for pg n s"
  by (simp add: room_for_def)

lemma vbits_mem_only: "mem_only s s' \<Longrightarrow> vspace pf s' = vspace pf s" "mem_only s s' \<Longrightarrow> vbits pf s' = vbits pf s"
  by (auto simp: mem_only_def vspace_def vbits_def)

lemma range_ok_sub: "range_ok v n \<Longrightarrow> i + k \<le> n \<Longrightarrow> 0 < k \<Longrightarrow> range_ok (page_at v i) k"
proof -
  assume r: "range_ok v n" and k: "i + k \<le> n" "0 < k"
  have "range_ok (page_at v i) (n - i)"
    using page_at_range [OF r, of i] k by simp
  moreover have "k * 4096 \<le> (n - i) * 4096"
    using k by simp
  ultimately show "range_ok (page_at v i) k"
    unfolding range_ok_def by linarith
qed

lemma page_at_add: "page_at (page_at v i) j = page_at v (i + j)"
  by (simp add: page_at_def algebra_simps)

lemma vaddr_get_ok:
  assumes ok: "vspace_ok pf s" and n: "0 < unat c"
    and i: "i + unat c \<le> bm_cap (vbits pf s)" "free_run (vbits pf s) i (unat c)"
  obtains r b where "vaddr_get pf c s = Some (page_at (vaddr_start (vspace pf s)) r, set_vbits pf b s)"
    and "r + unat c \<le> bm_cap (vbits pf s)" and "free_run (vbits pf s) r (unat c)"
    and "btmp_bytes_len b = btmp_bytes_len (vbits pf s)" and "length (bits b) = length (bits (vbits pf s))"
    and "\<And>j. bm_bit b j = (r \<le> j \<and> j < r + unat c \<or> bm_bit (vbits pf s) j)"
proof -
  let ?b = "vbits pf s" and ?v = "vaddr_start (vspace pf s)"
  have wf: "bm_wf ?b" and len: "btmp_bytes_len ?b < length (bits ?b)" and rng: "range_ok ?v (bm_cap ?b)"
    using ok by (simp_all add: vspace_ok_def)
  obtain r where r: "bitmap_scan ?b (unat c) = Some (int r)" "r + unat c \<le> bm_cap ?b" "free_run ?b r (unat c)"
    using scan_finds_run [OF wf len n i] by blast
  obtain b where b: "bitmap_set_range ?b r (unat c) 1 = Some b" "btmp_bytes_len b = btmp_bytes_len ?b"
      "length (bits b) = length (bits ?b)"
      "\<And>j. bm_bit b j = (if r \<le> j \<and> j < r + unat c then (1 :: int) = 1 else bm_bit ?b j)"
    using set_range_ok [OF wf r(2), of 1] by auto
  have below: "?v + of_nat r * 4096 < 0xbffff000" if "pf = PF_USER"
  proof -
    have "r < bm_cap ?b"
      using r(2) n by simp
    then have u: "unat (page_at ?v r) = unat ?v + r * 4096" and "r * 4096 \<le> bm_cap ?b * 4096"
      using page_at_range [OF rng] by simp_all
    moreover have "unat ?v + bm_cap ?b * 4096 < 0xc0000000 - 4096"
      using ok that by (simp add: vspace_ok_def)
    ultimately have "unat (page_at ?v r) < 0xc0000000 - 4096"
      by linarith
    then show ?thesis
      by (simp add: page_at_def word_less_nat_alt)
  qed
  have "vaddr_get pf c s = Some (page_at ?v r, set_vbits pf b s)"
    using r(1) b(1) below
    by (cases pf) (simp_all add: vaddr_get_def vbits_def vspace_def set_vbits_def running_thread_def page_at_def Let_def)
  then show thesis
    by (rule that) (use r b in auto)
qed

lemma malloc_page_ok:
  assumes ok: "memory_ok D s" and vok: "vspace_ok pf s" and n: "0 < n" "n < 3840"
    and i: "i + n \<le> bm_cap (vbits pf s)" "free_run (vbits pf s) i n" and room: "room_for pf n s"
  shows "\<exists>r fs s'. malloc_page pf (of_nat n) s = Some (page_at (vaddr_start (vspace pf s)) r, s') \<and>
    page_at (vaddr_start (vspace pf s)) r \<noteq> NULL \<and>
    r + n \<le> bm_cap (vbits pf s) \<and> free_run (vbits pf s) r n \<and> length fs = n \<and> distinct fs \<and>
    set fs \<subseteq> free_frames (get_pool pf s) \<and> memory_ok (D \<union> set fs) s' \<and> vspace_ok pf s' \<and>
    mapped_range s s' (page_at (vaddr_start (vspace pf s)) r) fs \<and>
    bm_cap (vbits pf s') = bm_cap (vbits pf s) \<and> vaddr_start (vspace pf s') = vaddr_start (vspace pf s) \<and>
    (\<forall>j. bm_bit (vbits pf s') j = (r \<le> j \<and> j < r + n \<or> bm_bit (vbits pf s) j)) \<and>
    (\<forall>pg. same_pool (get_pool pg s) (get_pool pg s'))"
proof -
  let ?v = "vaddr_start (vspace pf s)" and ?b = "vbits pf s" and ?c = "of_nat n :: u32"
  have c: "unat ?c = n"
    using n by (simp add: unat_of_nat)
  have guard: "?c > 0 \<and> ?c < 3840"
    using n c by (simp add: word_less_nat_alt)
  obtain r b where g: "vaddr_get pf ?c s = Some (page_at ?v r, set_vbits pf b s)"
      and r: "r + n \<le> bm_cap ?b" "free_run ?b r n"
      and b: "btmp_bytes_len b = btmp_bytes_len ?b" "length (bits b) = length (bits ?b)"
        "\<And>j. bm_bit b j = (r \<le> j \<and> j < r + n \<or> bm_bit ?b j)"
    using vaddr_get_ok [OF vok, of ?c i] n(1) i unfolding c by blast
  let ?s = "set_vbits pf b s" and ?p = "page_at ?v r"
  have rng: "range_ok ?v (bm_cap ?b)"
    using vok by (simp add: vspace_ok_def)
  note pr = range_ok_sub [OF rng r(1) n(1)]
  have nn: "?p \<noteq> NULL"
    using pr by (auto simp: range_ok_def NULL_def)
  have un: "mmu (phys ?s) (cr3 ?s) (page_at ?p j) = None" if "j < n" for j
    using vok that r by (auto simp: vspace_ok_def page_at_add free_run_def)
  obtain s' fs where s': "map_pages pf n ?p ?s = Some (True, s')" "memory_ok (D \<union> set fs) s'" "mem_only ?s s'"
      "length fs = n" "distinct fs" "set fs \<subseteq> free_frames (get_pool pf s)"
      "\<And>pg. same_pool (get_pool pg s) (get_pool pg s')" "mapped_range ?s s' ?p fs"
    using map_pages_ok [of D ?s ?p n pf] ok pr un room by auto
  have m: "malloc_page pf ?c s = Some (?p, s')"
    using guard g nn s'(1) by (simp add: malloc_page_def c)
  have vb: "vbits pf s' = b" "vaddr_start (vspace pf s') = ?v"
    using vbits_mem_only [OF s'(3), of pf] by simp_all
  have cap: "bm_cap b = bm_cap ?b" "bm_wf b = bm_wf ?b"
    using b(1,2) by (simp_all add: bm_cap_def bm_wf_def)
  have "vspace_ok pf s'"
  proof -
    have "mmu (phys s') (cr3 s') (page_at ?v j) = None" if j: "j < bm_cap ?b" "\<not> bm_bit b j" for j
    proof -
      note pp = page_at_props [OF rng j(1)]
      have "frame (page_at ?v j) \<noteq> page_at ?p k" if "k < n" for k
        using page_at_inj [OF rng j(1), of "r + k"] that r(1) j(2) b(3) [of j] by (auto simp: pp(1) page_at_add)
      then have "mmu (phys s') (cr3 s') (page_at ?v j) = mmu (phys s) (cr3 s) (page_at ?v j)"
        using s'(4,8) pp(2,3) unfolding mapped_range_def by simp
      then show ?thesis
        using vok j b(3) [of j] by (simp add: vspace_ok_def)
    qed
    then show ?thesis
      using vok b(1,2) unfolding vspace_ok_def vb cap by simp
  qed
  moreover have "mapped_range s s' ?p fs"
    using s'(8) by (simp add: mapped_range_def)
  ultimately show ?thesis
    using m nn r s' b(3) vb cap by (intro exI [of _ r] exI [of _ fs] exI [of _ s']) simp
qed

section \<open>Releasing pages\<close>

lemma entry_clear: "\<not> present (x AND NOT PG_P_1)"
proof -
  have "(x AND NOT PG_P_1) AND 1 = 0"
    by (simp add: PG_P_1_def and.assoc)
  then show ?thesis
    by (simp add: present_def)
qed

lemma pte_remove_ok:
  assumes ok: "tables_ok (phys s) (cr3 s) F" and v: "PDE_IDX v \<noteq> 0x3ff" "PDE_IDX v \<noteq> 0"
    and m: "mmu (phys s) (cr3 s) v = Some f"
  obtains m' where "page_table_pte_remove v s = Some (s\<lparr>phys := m'\<rparr>)" and "tables_ok m' (cr3 s) F"
    and "\<And>w. PDE_IDX w \<noteq> 0x3ff \<Longrightarrow> PDE_IDX w \<noteq> 0 \<Longrightarrow>
      mmu m' (cr3 s) w = (if frame w = frame v then None else mmu (phys s) (cr3 s) w)"
proof -
  note sm = tables_okD(1) [OF ok]
  have pr: "present (pde_of (phys s) (cr3 s) (PDE_IDX v))"
    using m by (simp add: mmu_parts split: if_splits)
  then have d: "phys s (pde_addr (cr3 s) v) AND 1 \<noteq> 0"
    by (simp add: present_def pde_of_def pde_addr_def flip: frame_def)
  let ?x = "phys s (pte_addr (phys s) (cr3 s) v) AND NOT PG_P_1"
  have "page_table_pte_remove v s = Some (s\<lparr>phys := (phys s)(pte_addr (phys s) (cr3 s) v := ?x)\<rparr>)"
    using d by (simp add: page_table_pte_remove_def vread_def vwrite_def mmu_pte_ptr [OF sm])
  moreover note st = set_pte [OF refl ok v(1) pr, where x = ?x]
  moreover have "\<not> aliased (PDE_IDX v) (PDE_IDX w)" if "PDE_IDX w \<noteq> 0" for w
    using that v(2) by (simp add: aliased_def)
  ultimately show thesis
    using that entry_clear by simp
qed

lemma pfree_ok:
  assumes ok: "memory_ok D s" and f: "f \<in> D" "f \<in> pool_frames (get_pool pf s)"
  obtains p where "pfree f s = Some (set_pool pf p s)" and "memory_ok (D - {f}) (set_pool pf p s)"
    and "same_pool (get_pool pf s) p" and "free_frames p = insert f (free_frames (get_pool pf s))"
proof -
  let ?p = "get_pool pf s"
  note pok = memory_okD(3) [OF ok, of pf]
  obtain i where i: "f = frame_at ?p i" "i < bm_cap (pool_bitmap ?p)"
    using f(2) by (auto simp: pool_frames_def)
  have wf: "bm_wf (pool_bitmap ?p)"
    using pok by (simp add: pool_ok_def)
  obtain b where b: "bitmap_set (pool_bitmap ?p) i 0 = Some b" "bm_wf b" "bm_cap b = bm_cap (pool_bitmap ?p)"
      "bm_used b = bm_used (pool_bitmap ?p) - {i}"
    using bitmap_pool.release_step [OF wf i(2)] by blast
  let ?q = "?p\<lparr>pool_bitmap := b\<rparr>"
  have side: "(if f \<ge> phy_addr_start (user_pool s) then PF_USER else PF_KERNEL) = pf"
  proof (cases pf)
    case PF_KERNEL
    then have "unat f < unat (phy_addr_start (user_pool s))"
    proof -
      have "Suc i * 4096 \<le> bm_cap (pool_bitmap (kernel_pool s)) * 4096"
        using i(2) PF_KERNEL by (intro mult_le_mono1) (simp add: get_pool_def)
      then show ?thesis
        using ok unat_frame_at [OF pok i(2)] i(1) PF_KERNEL unfolding memory_ok_def mult_Suc get_pool_def by simp
    qed
    then show ?thesis
      using PF_KERNEL by (simp add: word_le_nat_alt)
  next
    case PF_USER
    then show ?thesis
      using unat_frame_at [OF pok i(2)] i(1) by (simp add: word_le_nat_alt get_pool_def)
  qed
  have "pfree f s = Some (set_pool pf ?q s)"
    using b(1) frame_at_index [OF pok i(2)] by (simp add: pfree_def side Let_def i(1) [symmetric])
  moreover have at: "frame_at ?q = frame_at ?p"
    by (auto simp: frame_at_def)
  have "f \<notin> free_frames ?p"
    using memory_okD(5) [OF ok, of pf] f(1) by blast
  then have "i \<in> bm_used (pool_bitmap ?p)"
    using i unfolding free_frames_def by blast
  then have "{..<bm_cap (pool_bitmap ?p)} - (bm_used (pool_bitmap ?p) - {i}) =
      insert i ({..<bm_cap (pool_bitmap ?p)} - bm_used (pool_bitmap ?p))"
    using i(2) by auto
  then have ff: "free_frames ?q = insert f (free_frames ?p)"
    by (simp add: free_frames_def at b(3,4) i(1))
  have apart: "f \<notin> free_frames (user_pool s)" "f \<notin> free_frames (kernel_pool s)"
    using memory_okD(5) [OF ok, of PF_USER] memory_okD(5) [OF ok, of PF_KERNEL] f(1) by (auto simp: get_pool_def)
  have "memory_ok (D - {f}) (set_pool pf ?q s)"
  proof -
    have "free_frames (kernel_pool (set_pool pf ?q s)) \<union> free_frames (user_pool (set_pool pf ?q s)) \<union> (D - {f}) =
        free_frames (kernel_pool s) \<union> free_frames (user_pool s) \<union> D"
      using ff f(1) by (cases pf) (auto simp: set_pool_def get_pool_def)
    moreover have "(D - {f}) \<inter> (free_frames (kernel_pool (set_pool pf ?q s)) \<union> free_frames (user_pool (set_pool pf ?q s))) = {}"
      using ff memory_okD(5) [OF ok, of PF_USER] memory_okD(5) [OF ok, of PF_KERNEL]
      by (cases pf) (auto simp: set_pool_def get_pool_def)
    ultimately show ?thesis
      using ok b(2,3) pool_ok_bitmap [OF pok b(2,3)] unfolding memory_ok_def
      by (cases pf) (auto simp: set_pool_def get_pool_def)
  qed
  ultimately show thesis
    using that [of ?q] ff b(3) by (simp add: same_pool_def)
qed

lemma frame_mod: "frame f = f \<Longrightarrow> f mod 4096 = 0"
proof -
  assume "frame f = f"
  then have "f + page_off f = f"
    using frame_plus_off [of f] by simp
  then show ?thesis
    by (simp add: page_off_mod)
qed

lemma unmap_one:
  assumes ok: "memory_ok D s" and f: "f \<in> D" "f \<in> pool_frames (get_pool pf s)"
    and v: "frame v = v" "PDE_IDX v \<noteq> 0x3ff" "PDE_IDX v \<noteq> 0" and m: "mmu (phys s) (cr3 s) v = Some f"
  obtains s2 where "unmap_pages (pf = PF_USER) (Suc n) v s = unmap_pages (pf = PF_USER) n (v + 4096) s2"
    and "memory_ok (D - {f}) s2" and "mem_only s s2" and "\<And>pg. same_pool (get_pool pg s) (get_pool pg s2)"
    and "\<And>pg. free_frames (get_pool pg s2) = (if pg = pf then insert f (free_frames (get_pool pg s)) else free_frames (get_pool pg s))"
    and "\<And>w. PDE_IDX w \<noteq> 0x3ff \<Longrightarrow> PDE_IDX w \<noteq> 0 \<Longrightarrow>
      mmu (phys s2) (cr3 s2) w = (if frame w = v then None else mmu (phys s) (cr3 s) w)"
proof -
  note pok = memory_okD(3) [OF ok, of pf]
  obtain i where i: "f = frame_at (get_pool pf s) i" "i < bm_cap (pool_bitmap (get_pool pf s))"
    using f(2) by (auto simp: pool_frames_def)
  have al: "f mod PG_SIZE = 0"
    using frame_at_frame(1) [OF pok i(2)] i(1) frame_mod by simp
  have low: "phy_addr_start (get_pool pf s) \<le> f"
    using unat_frame_at [OF pok i(2)] i(1) by (simp add: word_le_nat_alt)
  obtain p where p: "pfree f s = Some (set_pool pf p s)" "memory_ok (D - {f}) (set_pool pf p s)"
      "same_pool (get_pool pf s) p" "free_frames p = insert f (free_frames (get_pool pf s))"
    by (rule pfree_ok [OF ok f])
  have high: "f < phy_addr_start (user_pool s)" if "pf = PF_KERNEL"
  proof -
    have "Suc i * 4096 \<le> bm_cap (pool_bitmap (kernel_pool s)) * 4096"
      using i(2) that by (intro mult_le_mono1) (simp add: get_pool_def)
    then show ?thesis
      using ok unat_frame_at [OF pok i(2)] i(1) that unfolding memory_ok_def mult_Suc get_pool_def
      by (simp add: word_less_nat_alt)
  qed
  let ?s1 = "set_pool pf p s"
  have s1: "phys ?s1 = phys s" "cr3 ?s1 = cr3 s"
    by (simp_all add: set_pool_def)
  note t1 = memory_okD(4) [OF p(2)]
  obtain m' where m': "page_table_pte_remove v ?s1 = Some (?s1\<lparr>phys := m'\<rparr>)"
      "tables_ok m' (cr3 ?s1) (free_frames (kernel_pool ?s1) \<union> free_frames (user_pool ?s1) \<union> (D - {f}))"
      "\<And>w. PDE_IDX w \<noteq> 0x3ff \<Longrightarrow> PDE_IDX w \<noteq> 0 \<Longrightarrow>
        mmu m' (cr3 ?s1) w = (if frame w = frame v then None else mmu (phys ?s1) (cr3 ?s1) w)"
    using pte_remove_ok [OF t1 v(2,3), of f] m s1 by metis
  let ?s2 = "?s1\<lparr>phys := m'\<rparr>"
  have a: "addr_v2p (phys s) (cr3 s) v = Some f"
    by (rule addr_v2p_mmu [OF tables_okD(1) [OF memory_okD(4) [OF ok]] m])
  have eq: "unmap_pages (pf = PF_USER) (Suc n) v s = unmap_pages (pf = PF_USER) n (v + 4096) ?s2"
    using a al low high p(1) m'(1) by (cases pf) (simp_all add: get_pool_def)
  have mo: "?s2 = s\<lparr>kernel_pool := kernel_pool ?s1, user_pool := user_pool ?s1, phys := m'\<rparr>"
    by (simp add: set_pool_def)
  show thesis
  proof (rule that [OF eq])
    show "memory_ok (D - {f}) ?s2"
      using p(2) m'(2) by (simp add: memory_ok_def)
    show "mem_only s ?s2"
      using mo unfolding mem_only_def by blast
    show "same_pool (get_pool pg s) (get_pool pg ?s2)" for pg
      using p(3) by (cases pf; cases pg) (simp_all add: get_pool_def set_pool_def same_pool_def)
    show "free_frames (get_pool pg ?s2) = (if pg = pf then insert f (free_frames (get_pool pg s)) else free_frames (get_pool pg s))" for pg
      using p(4) by (cases pf; cases pg) (simp_all add: get_pool_def set_pool_def)
    show "mmu (phys ?s2) (cr3 ?s2) w = (if frame w = v then None else mmu (phys s) (cr3 s) w)"
      if "PDE_IDX w \<noteq> 0x3ff" "PDE_IDX w \<noteq> 0" for w
      using m'(3) [OF that] s1 v(1) by simp
  qed
qed

lemma pool_frames_same: "same_pool p p' \<Longrightarrow> pool_frames p' = pool_frames p"
  by (simp add: same_pool_def pool_frames_def frame_at_def)

lemma unmap_pages_ok:
  assumes "memory_ok D s" and "range_ok v (length fs)" and "distinct fs" and "set fs \<subseteq> D"
    and "set fs \<subseteq> pool_frames (get_pool pf s)"
    and "\<And>j. j < length fs \<Longrightarrow> mmu (phys s) (cr3 s) (page_at v j) = Some (fs ! j)"
  shows "\<exists>s'. unmap_pages (pf = PF_USER) (length fs) v s = Some s' \<and> memory_ok (D - set fs) s' \<and> mem_only s s' \<and>
    (\<forall>pg. same_pool (get_pool pg s) (get_pool pg s')) \<and>
    (\<forall>pg. free_frames (get_pool pg s') = (if pg = pf then set fs \<union> free_frames (get_pool pg s) else free_frames (get_pool pg s))) \<and>
    (\<forall>w. PDE_IDX w \<noteq> 0x3ff \<and> PDE_IDX w \<noteq> 0 \<longrightarrow> mmu (phys s') (cr3 s') w =
       (if \<exists>j<length fs. frame w = page_at v j then None else mmu (phys s) (cr3 s) w))"
  using assms
proof (induction fs arbitrary: v s D)
  case Nil
  then show ?case
    by (auto simp: same_pool_def intro: mem_onlyI)
next
  case (Cons f fs)
  let ?n = "length fs"
  have r: "range_ok v (Suc ?n)" and f: "f \<in> D" "f \<in> pool_frames (get_pool pf s)" and m: "mmu (phys s) (cr3 s) v = Some f"
    using Cons.prems(2,4,5) Cons.prems(6) [of 0] by simp_all
  have fv: "frame v = v"
    using r unfolding range_ok_def by blast
  obtain s2 where s2: "unmap_pages (pf = PF_USER) (Suc ?n) v s = unmap_pages (pf = PF_USER) ?n (v + 4096) s2"
      "memory_ok (D - {f}) s2" "mem_only s s2" "\<And>pg. same_pool (get_pool pg s) (get_pool pg s2)"
      "\<And>pg. free_frames (get_pool pg s2) = (if pg = pf then insert f (free_frames (get_pool pg s)) else free_frames (get_pool pg s))"
      "\<And>w. PDE_IDX w \<noteq> 0x3ff \<Longrightarrow> PDE_IDX w \<noteq> 0 \<Longrightarrow>
        mmu (phys s2) (cr3 s2) w = (if frame w = v then None else mmu (phys s) (cr3 s) w)"
    by (rule unmap_one [OF Cons.prems(1) f fv range_ok_PDE [OF r] m]) blast
  note r2 = range_ok_Suc(1) [OF r]
  have ne: "page_at (v + 4096) j \<noteq> v" if "j < ?n" for j
    using page_at_inj [OF r, of "Suc j" 0] that by (simp add: page_at_Suc)
  have m2: "mmu (phys s2) (cr3 s2) (page_at (v + 4096) j) = Some (fs ! j)" if "j < ?n" for j
    using s2(6) [OF page_at_props(2,3) [OF r2 that]] page_at_props(1) [OF r2 that] ne [OF that]
      Cons.prems(6) [of "Suc j"] that by (simp add: page_at_Suc)
  have sub: "distinct fs" "set fs \<subseteq> D - {f}" "set fs \<subseteq> pool_frames (get_pool pf s2)"
    using Cons.prems(3,4,5) pool_frames_same [OF s2(4)] by auto
  obtain s' where s': "unmap_pages (pf = PF_USER) ?n (v + 4096) s2 = Some s'" "memory_ok (D - {f} - set fs) s'" "mem_only s2 s'"
      "\<And>pg. same_pool (get_pool pg s2) (get_pool pg s')"
      "\<And>pg. free_frames (get_pool pg s') = (if pg = pf then set fs \<union> free_frames (get_pool pg s2) else free_frames (get_pool pg s2))"
      "\<And>w. PDE_IDX w \<noteq> 0x3ff \<Longrightarrow> PDE_IDX w \<noteq> 0 \<Longrightarrow> mmu (phys s') (cr3 s') w =
         (if \<exists>j<?n. frame w = page_at (v + 4096) j then None else mmu (phys s2) (cr3 s2) w)"
    using Cons.IH [OF s2(2) r2 sub m2] by blast
  have ex: "(\<exists>j<length (f # fs). frame w = page_at v j) = (frame w = v \<or> (\<exists>j<?n. frame w = page_at (v + 4096) j))" for w
    unfolding length_Cons by (auto simp: page_at_Suc Ex_less_Suc2)
  have "D - set (f # fs) = D - {f} - set fs"
    by auto
  moreover have "same_pool (get_pool pg s) (get_pool pg s')" for pg
    using s2(4) [of pg] s'(4) [of pg] by (simp add: same_pool_def)
  moreover have "mmu (phys s') (cr3 s') w = (if \<exists>j<length (f # fs). frame w = page_at v j then None else mmu (phys s) (cr3 s) w)"
    if "PDE_IDX w \<noteq> 0x3ff \<and> PDE_IDX w \<noteq> 0" for w
    unfolding ex using s'(6) [of w] s2(6) [of w] that by auto
  ultimately show ?case
    using s2(1) s'(1,2) mem_only_trans [OF s2(3) s'(3)] s'(5) s2(5) by (intro exI [of _ s']) auto
qed

lemma page_index:
  assumes "range_ok v n" and "r < n"
  shows "unat ((page_at v r - v) div 4096) = r"
proof -
  have u: "unat (page_at v r) = unat v + r * 4096"
    using page_at_range [OF assms] by simp
  then have "v \<le> page_at v r"
    by (simp add: word_le_nat_alt)
  then have "unat (page_at v r - v) = r * 4096"
    using u by (simp add: unat_sub)
  then show ?thesis
    by (simp add: unat_div)
qed

lemma vaddr_remove_ok:
  assumes wf: "bm_wf (vbits pf s)" and rng: "range_ok (vaddr_start (vspace pf s)) (bm_cap (vbits pf s))"
    and r: "r + unat c \<le> bm_cap (vbits pf s)" "0 < unat c"
  obtains b where "vaddr_remove pf (page_at (vaddr_start (vspace pf s)) r) c s = Some (set_vbits pf b s)"
    and "btmp_bytes_len b = btmp_bytes_len (vbits pf s)" and "length (bits b) = length (bits (vbits pf s))"
    and "\<And>j. bm_bit b j = (\<not> (r \<le> j \<and> j < r + unat c) \<and> bm_bit (vbits pf s) j)"
proof -
  have idx: "unat ((page_at (vaddr_start (vspace pf s)) r - vaddr_start (vspace pf s)) div 4096) = r"
    using r by (intro page_index [OF rng]) simp
  obtain b where b: "bitmap_set_range (vbits pf s) r (unat c) 0 = Some b"
      "btmp_bytes_len b = btmp_bytes_len (vbits pf s)" "length (bits b) = length (bits (vbits pf s))"
      "\<And>j. bm_bit b j = (if r \<le> j \<and> j < r + unat c then (0 :: int) = 1 else bm_bit (vbits pf s) j)"
    using set_range_ok [OF wf r(1), of 0] by auto
  have "vaddr_remove pf (page_at (vaddr_start (vspace pf s)) r) c s = Some (set_vbits pf b s)"
    using idx b(1)
    by (cases pf) (simp_all add: vaddr_remove_def vbits_def vspace_def set_vbits_def running_thread_def Let_def)
  then show thesis
    by (rule that) (use b in auto)
qed

lemma mfree_page_ok:
  assumes ok: "memory_ok D s" and low: "0x102000 \<le> phy_addr_start (kernel_pool s)"
    and wf: "bm_wf (vbits pf s)" and rng: "range_ok (vaddr_start (vspace pf s)) (bm_cap (vbits pf s))"
    and n: "0 < n" "n < 2 ^ 32" "length fs = n" and r: "r + n \<le> bm_cap (vbits pf s)"
    and fs: "distinct fs" "set fs \<subseteq> D" "set fs \<subseteq> pool_frames (get_pool pf s)"
    and m: "\<And>j. j < n \<Longrightarrow> mmu (phys s) (cr3 s) (page_at (vaddr_start (vspace pf s)) (r + j)) = Some (fs ! j)"
  shows "\<exists>s'. mfree_page pf (page_at (vaddr_start (vspace pf s)) r) (of_nat n) s = Some s' \<and> memory_ok (D - set fs) s' \<and>
    (\<forall>pg. free_frames (get_pool pg s') = (if pg = pf then set fs \<union> free_frames (get_pool pg s) else free_frames (get_pool pg s))) \<and>
    (\<forall>j. bm_bit (vbits pf s') j = (\<not> (r \<le> j \<and> j < r + n) \<and> bm_bit (vbits pf s) j)) \<and>
    (\<forall>w. PDE_IDX w \<noteq> 0x3ff \<and> PDE_IDX w \<noteq> 0 \<longrightarrow> mmu (phys s') (cr3 s') w =
       (if \<exists>j<n. frame w = page_at (vaddr_start (vspace pf s)) (r + j) then None else mmu (phys s) (cr3 s) w)) \<and>
    (\<forall>pg. same_pool (get_pool pg s) (get_pool pg s')) \<and>
    (\<exists>s1 b. s' = set_vbits pf b s1 \<and> mem_only s s1 \<and> btmp_bytes_len b = btmp_bytes_len (vbits pf s) \<and>
       length (bits b) = length (bits (vbits pf s)))"
proof -
  let ?v0 = "vaddr_start (vspace pf s)" and ?c = "of_nat n :: u32"
  let ?v = "page_at ?v0 r"
  have c: "unat ?c = n"
    using n(2) by (simp add: unat_of_nat)
  note pr = range_ok_sub [OF rng r n(1)]
  have fv: "frame ?v = ?v"
    using pr unfolding range_ok_def by blast
  have m0: "mmu (phys s) (cr3 s) ?v = Some (fs ! 0)"
    using m [of 0] n(1) by simp
  have a: "addr_v2p (phys s) (cr3 s) ?v = Some (fs ! 0)"
    by (rule addr_v2p_mmu [OF tables_okD(1) [OF memory_okD(4) [OF ok]] m0])
  have f0: "fs ! 0 \<in> D" "fs ! 0 \<in> pool_frames (get_pool pf s)"
    using fs n(1,3) by auto
  then obtain i where i: "fs ! 0 = frame_at (get_pool pf s) i" "i < bm_cap (pool_bitmap (get_pool pf s))"
    by (auto simp: pool_frames_def)
  note pok = memory_okD(3) [OF ok, of pf]
  note u = unat_frame_at [OF pok i(2)]
  have ku: "unat (phy_addr_start (kernel_pool s)) \<le> unat (phy_addr_start (user_pool s))"
    using ok unfolding memory_ok_def by linarith
  have g1: "fs ! 0 mod 4096 = 0" "0x102000 \<le> fs ! 0"
    using frame_at_frame(1) [OF pok i(2)] frame_mod u low ku i(1)
    by (cases pf; simp add: word_le_nat_alt get_pool_def)+
  have side: "(phy_addr_start (user_pool s) \<le> fs ! 0) = (pf = PF_USER)"
  proof (cases pf)
    case PF_KERNEL
    have "Suc i * 4096 \<le> bm_cap (pool_bitmap (kernel_pool s)) * 4096"
      using i(2) PF_KERNEL by (intro mult_le_mono1) (simp add: get_pool_def)
    then show ?thesis
      using ok u i(1) PF_KERNEL unfolding memory_ok_def mult_Suc get_pool_def by (simp add: word_le_nat_alt)
  qed (use u i(1) in \<open>simp add: word_le_nat_alt get_pool_def\<close>)
  obtain s1 where s1: "unmap_pages (pf = PF_USER) n ?v s = Some s1" "memory_ok (D - set fs) s1" "mem_only s s1"
      "\<And>pg. free_frames (get_pool pg s1) = (if pg = pf then set fs \<union> free_frames (get_pool pg s) else free_frames (get_pool pg s))"
      "\<And>w. PDE_IDX w \<noteq> 0x3ff \<Longrightarrow> PDE_IDX w \<noteq> 0 \<Longrightarrow> mmu (phys s1) (cr3 s1) w =
       (if \<exists>j<n. frame w = page_at ?v j then None else mmu (phys s) (cr3 s) w)"
      "\<And>pg. same_pool (get_pool pg s) (get_pool pg s1)"
    using unmap_pages_ok [OF ok _ fs, of ?v] pr m n(3) by (auto simp: page_at_add)
  note vs = vbits_mem_only [OF s1(3), of pf]
  obtain b where b: "vaddr_remove pf ?v ?c s1 = Some (set_vbits pf b s1)"
      "\<And>j. bm_bit b j = (\<not> (r \<le> j \<and> j < r + n) \<and> bm_bit (vbits pf s) j)"
      "btmp_bytes_len b = btmp_bytes_len (vbits pf s)" "length (bits b) = length (bits (vbits pf s))"
    using vaddr_remove_ok [of pf s1 r ?c] wf rng r n(1) unfolding vs c by metis
  have "?c \<ge> 1"
    using c n(1) by (simp add: word_le_nat_alt)
  then have "mfree_page pf ?v ?c s = Some (set_vbits pf b s1)"
    using a g1 side s1(1) b(1) frame_mod [OF fv] by (simp add: mfree_page_def c)
  then show ?thesis
    using s1(2-6) b(2-4) by (intro exI [of _ "set_vbits pf b s1"]) (auto simp: page_at_add)
qed

section \<open>A small machine\<close>

text \<open>
  A page directory at 0x100000 as the loader leaves it, sixteen frames in each pool and sixteen pages
  of kernel heap.
\<close>

definition sample_phys :: "u32 \<Rightarrow> u32" where
  "sample_phys a = (if a = 0x100ffc then 0x100003 else if a = 0x100000 \<or> a = 0x100c00 then 0x101003 else 0)"

definition sample_pool :: "u32 \<Rightarrow> pool" where
  "sample_pool a = \<lparr>pool_bitmap = \<lparr>btmp_bytes_len = 2, bits = [0, 0, 0]\<rparr>, phy_addr_start = a, pool_size = 0x10000, pool_lock = a\<rparr>"

definition sample_mem :: mstate where
  "sample_mem = kstate.extend (sample_kstate\<lparr>phys := sample_phys, cr3 := 0x100000\<rparr>)
     \<lparr>kernel_pool = sample_pool 0x200000, user_pool = sample_pool 0x210000,
      kernel_vaddr = \<lparr>vaddr_bitmap = \<lparr>btmp_bytes_len = 2, bits = [0, 0, 0]\<rparr>, vaddr_start = K_HEAP_START\<rparr>,
      k_block_descs = [], k_descs_addr = 0, arenas = (\<lambda>_. \<lparr>arena_desc = None, arena_cnt = 0, arena_large = False\<rparr>)\<rparr>"

lemma sample_mem_simps [simp]:
  "phys sample_mem = sample_phys" "cr3 sample_mem = 0x100000" "kernel_pool sample_mem = sample_pool 0x200000"
  "user_pool sample_mem = sample_pool 0x210000" "vaddr_start (kernel_vaddr sample_mem) = 0xc0100000"
  "vaddr_bitmap (kernel_vaddr sample_mem) = \<lparr>btmp_bytes_len = 2, bits = [0, 0, 0]\<rparr>"
  by (simp_all add: sample_mem_def K_HEAP_START_def kstate.defs)

lemma sample_pde:
  assumes "i \<le> 0x3ff"
  shows "pde_of sample_phys 0x100000 i = (if i = 0x3ff then 0x100003 else if i = 0 \<or> i = 768 then 0x101003 else 0)"
proof -
  have i: "unat i < 1024"
    using assms by (simp add: word_le_nat_alt)
  have e: "(0x100000 + i * 4 = 0x100000 + k * 4) = (i = k)" if "unat k < 1024" for k
    using idx4_inj [OF i that] by simp
  show ?thesis
    using e [of "0x3ff"] e [of 0] e [of 768] by (simp add: pde_of_def sample_phys_def frame_def)
qed

lemma sample_pools:
  assumes "frame a = a" and "0x200000 \<le> unat a" and "unat a \<le> 0x300000"
  shows "pool_ok (sample_pool a)" and "bm_cap (pool_bitmap (sample_pool a)) = 16"
    and "bm_used (pool_bitmap (sample_pool a)) = {}" and "card (free_frames (sample_pool a)) = 16"
    and "f \<in> free_frames (sample_pool a) \<Longrightarrow> unat a \<le> unat f"
proof -
  show cap: "bm_cap (pool_bitmap (sample_pool a)) = 16"
    by (simp add: bm_cap_def sample_pool_def)
  have "\<not> bm_bit (pool_bitmap (sample_pool a)) i" if "i < 16" for i
  proof -
    have "i div 8 < 2"
      using that by simp
    then show ?thesis
      by (auto simp: bm_bit_def sample_pool_def less_2_cases_iff)
  qed
  then show u: "bm_used (pool_bitmap (sample_pool a)) = {}"
    by (auto simp: bm_used_def cap)
  show ok: "pool_ok (sample_pool a)"
    using assms by (auto simp: pool_ok_def cap) (auto simp: sample_pool_def bm_wf_def)
  have "inj_on (frame_at (sample_pool a)) {..<16}"
    using frame_at_inj [OF ok] by (auto simp: inj_on_def cap)
  then show "card (free_frames (sample_pool a)) = 16"
    by (simp add: free_frames_def cap u card_image)
  show "f \<in> free_frames (sample_pool a) \<Longrightarrow> unat a \<le> unat f"
    using unat_frame_at [OF ok] by (auto simp: free_frames_def cap) (simp add: sample_pool_def)
qed

lemma sample_memory_ok: "memory_ok {} sample_mem"
proof -
  let ?F = "free_frames (sample_pool 0x200000) \<union> free_frames (sample_pool 0x210000)"
  have a: "frame 0x200000 = 0x200000" "frame 0x210000 = 0x210000"
    by (simp_all add: frame_def)
  have big: "0x200000 \<le> unat f" if "f \<in> ?F" for f
    using that sample_pools(5) [OF a(1), of f] sample_pools(5) [OF a(2), of f] by auto
  have nf: "0x100000 \<notin> ?F" "0x101000 \<notin> ?F"
    using big [of "0x100000"] big [of "0x101000"] by (auto simp del: Un_iff)
  have "tables_ok sample_phys 0x100000 ?F"
    unfolding tables_ok_def
  proof (intro conjI allI impI)
    show "self_map sample_phys 0x100000"
      by (simp add: self_map_def frame_def sample_phys_def)
    show "frame 0x100000 \<notin> ?F"
      using nf by (simp add: frame_def)
    fix i :: u32
    assume i: "i < 0x3ff"
    then have pi: "pde_of sample_phys 0x100000 i = (if i = 0 \<or> i = 768 then 0x101003 else 0)"
      using sample_pde [of i] by auto
    assume pr: "present (pde_of sample_phys 0x100000 i)"
    then have z: "i = 0 \<or> i = 768"
      using pi by (auto simp: present_def split: if_splits)
    then show "frame (pde_of sample_phys 0x100000 i) \<noteq> frame 0x100000" "frame (pde_of sample_phys 0x100000 i) \<notin> ?F"
      using pi nf by (auto simp: frame_def simp del: Un_iff)
  next
    fix i j :: u32
    assume "i < 0x3ff" "j < 0x3ff" and pr: "present (pde_of sample_phys 0x100000 i) \<and> present (pde_of sample_phys 0x100000 j) \<and>
      frame (pde_of sample_phys 0x100000 i) = frame (pde_of sample_phys 0x100000 j)"
    then show "i = j \<or> aliased i j"
      using sample_pde [of i] sample_pde [of j] by (auto simp: present_def aliased_def split: if_splits)
  qed
  moreover have "pool_ok (sample_pool 0x200000)" "pool_ok (sample_pool 0x210000)"
    by (rule sample_pools(1) [OF a(1)], simp, simp) (rule sample_pools(1) [OF a(2)], simp, simp)
  moreover have "phy_addr_start (sample_pool a) = a" for a
    by (simp add: sample_pool_def)
  ultimately show ?thesis
    by (simp add: memory_ok_def) (simp add: sample_pool_def bm_cap_def)
qed

lemma sample_heap_page: "mmu sample_phys 0x100000 (page_at 0xc0100000 i) = None" if "i < 16"
proof -
  have r: "range_ok 0xc0100000 16"
    by (simp add: range_ok_def frame_def)
  have u: "unat (page_at 0xc0100000 i) div 4096 = 0xc0100 + i"
    using page_at_range [OF r that] by simp
  have "PDE_IDX (page_at 0xc0100000 i) = 768"
    using that by (simp add: word_unat_eq_iff unat_PDE_IDX u)
  then have "pde_of sample_phys 0x100000 (PDE_IDX (page_at 0xc0100000 i)) = 0x101003"
    using sample_pde [of 768] by simp
  moreover have "PTE_IDX (page_at 0xc0100000 i) * 4 < 0x1000"
    using idx4_less [OF PTE_IDX_less, of "page_at 0xc0100000 i"] by (simp add: word_less_nat_alt)
  then have "sample_phys (0x101000 + PTE_IDX (page_at 0xc0100000 i) * 4) = 0"
    unfolding sample_phys_def by (auto simp: word_less_nat_alt word_unat_eq_iff unat_plus_if')
  ultimately show ?thesis
    by (simp add: mmu_parts pte_addr_alt) (simp add: frame_def present_def)
qed

lemma sample_vspace_ok: "vspace_ok PF_KERNEL sample_mem"
  using sample_heap_page
  by (simp add: vspace_ok_def vbits_def vspace_def bm_wf_def bm_cap_def) (simp add: range_ok_def frame_def)

lemma sample_free_run: "free_run (vbits PF_KERNEL sample_mem) 0 3"
  by (auto simp: free_run_def vbits_def vspace_def bm_bit_def)

lemma sample_room: "room_for PF_KERNEL 3 sample_mem"
proof -
  have "card (free_frames (sample_pool 0x200000)) = 16"
    by (rule sample_pools(4)) (simp_all add: frame_def)
  then show ?thesis
    by (simp add: room_for_def)
qed

section \<open>Properties\<close>

text \<open>
  C14. Installing a page in the page tables through the self map: \<^verbatim>\<open>page_table_add\<close> of an unmapped page
  succeeds, also when it has to create the page table, the processor then translates the page to the
  given frame, and no other page changes its translation. The four megabytes that share a table with
  the page and the window of the page tables themselves are apart.
\<close>

theorem page_table_add_maps:
  assumes "memory_ok D s" and "frame q = q" and "PDE_IDX v \<noteq> 0x3ff" and "mmu (phys s) (cr3 s) v = None"
    and "free_frames (kernel_pool s) \<noteq> {}"
  shows "\<exists>s'. page_table_add v q s = Some s' \<and> mem_only s s' \<and>
    (\<forall>w. PDE_IDX w \<noteq> 0x3ff \<and> \<not> aliased (PDE_IDX v) (PDE_IDX w) \<longrightarrow>
       mmu (phys s') (cr3 s') w = (if frame w = frame v then Some (q + page_off w) else mmu (phys s) (cr3 s) w))"
proof -
  have sub: "free_frames (kernel_pool s) \<subseteq> free_frames (kernel_pool s) \<union> free_frames (user_pool s) \<union> D"
    by blast
  obtain m kp where "page_table_add v q s = Some (s\<lparr>kernel_pool := kp, phys := m\<rparr>)"
      "\<And>w. PDE_IDX w \<noteq> 0x3ff \<Longrightarrow> \<not> aliased (PDE_IDX v) (PDE_IDX w) \<Longrightarrow>
        mmu m (cr3 s) w = (if frame w = frame v then Some (q + page_off w) else mmu (phys s) (cr3 s) w)"
    by (rule page_table_add_ok [OF memory_okD(4) [OF assms(1)] memory_okD(1) [OF assms(1)] sub assms(2-5)]) blast
  then show ?thesis
    by (intro exI [of _ "s\<lparr>kernel_pool := kp, phys := m\<rparr>"]) (auto intro: mem_onlyI)
qed

theorem page_table_add_maps_witness:
  "\<exists>s'. page_table_add 0xc0100000 0x205000 sample_mem = Some s' \<and> mem_only sample_mem s' \<and>
    (\<forall>w. PDE_IDX w \<noteq> 0x3ff \<and> \<not> aliased (PDE_IDX 0xc0100000) (PDE_IDX w) \<longrightarrow>
       mmu (phys s') (cr3 s') w =
         (if frame w = frame 0xc0100000 then Some (0x205000 + page_off w) else mmu (phys sample_mem) (cr3 sample_mem) w))"
proof (rule page_table_add_maps [OF sample_memory_ok])
  show "mmu (phys sample_mem) (cr3 sample_mem) 0xc0100000 = None"
    using sample_heap_page [of 0] by simp
  show "free_frames (kernel_pool sample_mem) \<noteq> {}"
    using sample_room by (auto simp: room_for_def)
qed (simp_all add: frame_def PDE_IDX_drop)

text \<open>
  C4. \<^verbatim>\<open>malloc_page\<close> returns the address of a run of virtual pages whose bits were clear, sets exactly
  their bits, backs every page with a frame of its own that was free in the pool, and leaves the
  translation of all other pages alone; the invariants of memory hold again.
\<close>

theorem malloc_page_maps:
  assumes "memory_ok D s" and "vspace_ok pf s" and "0 < n" and "n < 3840"
    and "i + n \<le> bm_cap (vbits pf s)" and "free_run (vbits pf s) i n" and "room_for pf n s"
  shows "\<exists>r fs s'. malloc_page pf (of_nat n) s = Some (page_at (vaddr_start (vspace pf s)) r, s') \<and>
    free_run (vbits pf s) r n \<and> (\<forall>j. bm_bit (vbits pf s') j = (r \<le> j \<and> j < r + n \<or> bm_bit (vbits pf s) j)) \<and>
    length fs = n \<and> distinct fs \<and> set fs \<subseteq> free_frames (get_pool pf s) \<and>
    mapped_range s s' (page_at (vaddr_start (vspace pf s)) r) fs \<and> memory_ok (D \<union> set fs) s' \<and> vspace_ok pf s'"
  using malloc_page_ok [OF assms] by blast

theorem malloc_page_maps_witness:
  "\<exists>r fs s'. malloc_page PF_KERNEL (of_nat 3) sample_mem = Some (page_at (vaddr_start (vspace PF_KERNEL sample_mem)) r, s') \<and>
    free_run (vbits PF_KERNEL sample_mem) r 3 \<and>
    (\<forall>j. bm_bit (vbits PF_KERNEL s') j = (r \<le> j \<and> j < r + 3 \<or> bm_bit (vbits PF_KERNEL sample_mem) j)) \<and>
    length fs = 3 \<and> distinct fs \<and> set fs \<subseteq> free_frames (get_pool PF_KERNEL sample_mem) \<and>
    mapped_range sample_mem s' (page_at (vaddr_start (vspace PF_KERNEL sample_mem)) r) fs \<and>
    memory_ok ({} \<union> set fs) s' \<and> vspace_ok PF_KERNEL s'"
  by (rule malloc_page_maps [OF sample_memory_ok sample_vspace_ok _ _ _ sample_free_run sample_room])
     (simp_all add: vbits_def vspace_def bm_cap_def)



text \<open>
  Running out of frames stops the machine: when the pool has no free frame left, \<^verbatim>\<open>malloc_page\<close> does
  not return the null pointer that its callers test for but halts in the assertion of \<^verbatim>\<open>bitmap_scan\<close>.
\<close>

theorem malloc_page_exhausted:
  assumes "memory_ok D s" and "vspace_ok pf s" and "0 < n" and "n < 3840"
    and "i + n \<le> bm_cap (vbits pf s)" and "free_run (vbits pf s) i n" and "free_frames (get_pool pf s) = {}"
  shows "malloc_page pf (of_nat n) s = None"
proof -
  let ?c = "of_nat n :: u32"
  have c: "unat ?c = n"
    using assms(4) by (simp add: unat_of_nat)
  obtain r b where g: "vaddr_get pf ?c s = Some (page_at (vaddr_start (vspace pf s)) r, set_vbits pf b s)"
      and r: "r + n \<le> bm_cap (vbits pf s)"
    using vaddr_get_ok [OF assms(2), of ?c i] assms(3,5,6) unfolding c by blast
  have "range_ok (vaddr_start (vspace pf s)) (bm_cap (vbits pf s))"
    using assms(2) by (simp add: vspace_ok_def)
  from range_ok_sub [OF this r assms(3)] have "page_at (vaddr_start (vspace pf s)) r \<noteq> NULL"
    by (auto simp: range_ok_def NULL_def)
  moreover have "palloc (get_pool pf s) = None"
    by (rule palloc_full [OF memory_okD(3) [OF assms(1)] assms(7)])
  then have "map_pages pf n v (set_vbits pf b s) = None" for v
    using assms(3) by (cases n) simp_all
  ultimately show ?thesis
    using g by (simp add: malloc_page_def c)
qed

text \<open>The small machine with every frame of the kernel pool in use.\<close>

definition sample_full :: mstate where
  "sample_full = sample_mem\<lparr>kernel_pool := (sample_pool 0x200000)\<lparr>pool_bitmap := \<lparr>btmp_bytes_len = 2, bits = [255, 255, 0]\<rparr>\<rparr>\<rparr>"

lemma sample_full_ok: "memory_ok {} sample_full" "vspace_ok PF_KERNEL sample_full"
  "free_frames (get_pool PF_KERNEL sample_full) = {}" "vbits PF_KERNEL sample_full = vbits PF_KERNEL sample_mem"
proof -
  let ?p = "(sample_pool 0x200000)\<lparr>pool_bitmap := \<lparr>btmp_bytes_len = 2, bits = [255, 255, 0]\<rparr>\<rparr>"
  have b: "bm_bit (pool_bitmap ?p) i" if "i < 16" for i
    using full_bytes_bits [of 2 "pool_bitmap ?p" i] that by (auto simp: less_2_cases_iff)
  then have f: "free_frames ?p = {}"
    by (auto simp: free_frames_def bm_used_def bm_cap_def)
  then show "free_frames (get_pool PF_KERNEL sample_full) = {}"
    by (simp add: sample_full_def get_pool_def)
  have p: "pool_ok ?p"
    by (simp add: pool_ok_def bm_wf_def bm_cap_def frame_def) (simp add: sample_pool_def)
  have "tables_ok sample_phys 0x100000 (free_frames (sample_pool 0x210000))"
    using tables_ok_mono [OF memory_okD(4) [OF sample_memory_ok]] by simp
  then show "memory_ok {} sample_full"
    using memory_okD(2) [OF sample_memory_ok] p
    by (simp add: memory_ok_def sample_full_def f) (simp add: sample_pool_def bm_cap_def)
  show "vbits PF_KERNEL sample_full = vbits PF_KERNEL sample_mem"
    by (simp add: vbits_def vspace_def sample_full_def)
  then show "vspace_ok PF_KERNEL sample_full"
    using sample_vspace_ok by (simp add: vspace_ok_def) (simp add: vspace_def sample_full_def)
qed

theorem malloc_page_exhausted_witness: "malloc_page PF_KERNEL (of_nat 3) sample_full = None"
proof (rule malloc_page_exhausted [OF sample_full_ok(1,2) _ _ _ _ sample_full_ok(3)])
  show "free_run (vbits PF_KERNEL sample_full) 0 3"
    using sample_free_run sample_full_ok(4) by simp
qed (simp_all add: sample_full_ok(4), simp add: vbits_def vspace_def bm_cap_def)

end
