(* ===== verification/Heap_Layout.thy ===== *)
theory Heap_Layout
  imports Page_Alloc
begin

text \<open>
  What the initialisation of the memory manager sets up: the two frame pools, and the block sizes of
  the heap with the place of every block in its arena.
\<close>

section \<open>The frame pools\<close>

lemma bitmap_init_zero: "bitmap_init \<lparr>btmp_bytes_len = n, bits = replicate n 0 @ r\<rparr> =
    Some \<lparr>btmp_bytes_len = n, bits = replicate n 0 @ r\<rparr>"
  by (simp add: bitmap_init_def memset_eq)

lemma fresh_bitmap:
  "bm_wf \<lparr>btmp_bytes_len = n, bits = replicate n 0 @ r\<rparr>" "bm_cap \<lparr>btmp_bytes_len = n, bits = replicate n 0 @ r\<rparr> = 8 * n"
  "bm_used \<lparr>btmp_bytes_len = n, bits = replicate n 0 @ r\<rparr> = {}"
proof -
  show "bm_wf \<lparr>btmp_bytes_len = n, bits = replicate n 0 @ r\<rparr>" "bm_cap \<lparr>btmp_bytes_len = n, bits = replicate n 0 @ r\<rparr> = 8 * n"
    by (simp_all add: bm_wf_def bm_cap_def)
  have "\<not> bm_bit \<lparr>btmp_bytes_len = n, bits = replicate n 0 @ r\<rparr> i" if "i < 8 * n" for i
  proof -
    have "i div 8 < n"
      using that by (simp add: less_mult_imp_div_less mult.commute)
    then show ?thesis
      by (simp add: bm_bit_def nth_append)
  qed
  then show "bm_used \<lparr>btmp_bytes_len = n, bits = replicate n 0 @ r\<rparr> = {}"
    by (auto simp: bm_used_def bm_cap_def)
qed

lemma lock_init_pools [simp]:
  "kernel_pool (lock_init l s) = kernel_pool s" "user_pool (lock_init l s) = user_pool s"
  by (simp_all add: lock_init_def sema_init_def set_lock_def set_sema_value_def Let_def)

text \<open>The pages \<^verbatim>\<open>mem_pool_init\<close> counts, as a 16-bit number, and how it divides them.\<close>

definition free_pages :: "u32 \<Rightarrow> u16" where
  "free_pages all_mem = ucast ((all_mem - 0x200000) div 4096)"

lemma mem_pool_init_eq:
  fixes all_mem :: u32
  defines "k \<equiv> free_pages all_mem div 2" and "u \<equiv> free_pages all_mem - free_pages all_mem div 2"
  shows "\<exists>s'. mem_pool_init all_mem rest s = Some s' \<and>
    kernel_pool s' = \<lparr>pool_bitmap = \<lparr>btmp_bytes_len = unat k div 8, bits = replicate (unat k div 8) 0\<rparr>,
      phy_addr_start = 0x200000, pool_size = ucast k * 4096, pool_lock = pool_lock (kernel_pool s)\<rparr> \<and>
    user_pool s' = \<lparr>pool_bitmap = \<lparr>btmp_bytes_len = unat u div 8, bits = replicate (unat u div 8) 0\<rparr>,
      phy_addr_start = 0x200000 + ucast k * 4096, pool_size = ucast u * 4096, pool_lock = pool_lock (user_pool s)\<rparr>"
proof -
  have z: "bitmap_init \<lparr>btmp_bytes_len = n, bits = replicate n 0\<rparr> = Some \<lparr>btmp_bytes_len = n, bits = replicate n 0\<rparr>" for n
    using bitmap_init_zero [of n "[]"] by simp
  show ?thesis
    by (auto simp: mem_pool_init_def z bitmap_init_zero k_def u_def free_pages_def Let_def)
qed

lemma unat_ucast_page: "unat (ucast x * 4096 :: u32) = unat x * 4096" for x :: u16
proof -
  have "unat x < 65536"
    using unsigned_less [of x] by simp
  moreover have u: "unat (ucast x :: u32) = unat x"
    by (simp add: unsigned_ucast_eq take_bit_nat_eq_self [OF less_trans [OF \<open>unat x < 65536\<close>]])
  ultimately have "unat (ucast x :: u32) * unat (4096 :: u32) < 2 ^ LENGTH(32)"
    by simp
  then have "unat (ucast x * 4096 :: u32) = unat (ucast x :: u32) * unat (4096 :: u32)"
    by (rule unat_mult_lem [THEN iffD1])
  then show ?thesis
    by (simp add: u)
qed

lemma free_pages_small:
  assumes "0x200000 \<le> unat all_mem" and "unat all_mem < 0x200000 + 2 ^ 28"
  shows "unat (free_pages all_mem) = (unat all_mem - 0x200000) div 4096"
proof -
  have "0x200000 \<le> all_mem"
    using assms(1) by (simp add: word_le_nat_alt)
  then have d: "unat (all_mem - 0x200000) = unat all_mem - 0x200000"
    by (simp add: unat_sub)
  have "unat all_mem - 0x200000 < 65536 * 4096"
    using assms by simp
  then have "(unat all_mem - 0x200000) div 4096 < 65536"
    by (rule less_mult_imp_div_less)
  then show ?thesis
    unfolding free_pages_def by (simp add: unsigned_ucast_eq unat_div d take_bit_nat_eq_self)
qed

text \<open>
  The frame pools that \<^verbatim>\<open>mem_pool_init\<close> sets up on a machine with less than 258 megabytes: both are
  well formed and empty, the kernel pool ends where the user pool starts or before, and every frame
  lies in memory that exists and above the kernel image and its page tables.
\<close>

theorem mem_pool_init_pools:
  assumes "0x200000 \<le> unat all_mem" and "unat all_mem < 0x200000 + 2 ^ 28"
  shows "\<exists>s'. mem_pool_init all_mem rest s = Some s' \<and> pool_ok (kernel_pool s') \<and> pool_ok (user_pool s') \<and>
    unat (phy_addr_start (kernel_pool s')) + bm_cap (pool_bitmap (kernel_pool s')) * 4096 \<le> unat (phy_addr_start (user_pool s')) \<and>
    unat (phy_addr_start (user_pool s')) + bm_cap (pool_bitmap (user_pool s')) * 4096 \<le> unat all_mem \<and>
    phy_addr_start (kernel_pool s') = 0x200000 \<and>
    free_frames (kernel_pool s') = pool_frames (kernel_pool s') \<and> free_frames (user_pool s') = pool_frames (user_pool s') \<and>
    (\<forall>p\<in>{kernel_pool s', user_pool s'}. unat (pool_size p) < bm_cap (pool_bitmap p) * 4096 + 8 * 4096)"
proof -
  let ?f = "free_pages all_mem"
  let ?k = "?f div 2" and ?u = "?f - ?f div 2"
  obtain s' where s': "mem_pool_init all_mem rest s = Some s'"
    and K: "kernel_pool s' = \<lparr>pool_bitmap = \<lparr>btmp_bytes_len = unat ?k div 8, bits = replicate (unat ?k div 8) 0\<rparr>,
      phy_addr_start = 0x200000, pool_size = ucast ?k * 4096, pool_lock = pool_lock (kernel_pool s)\<rparr>"
    and U: "user_pool s' = \<lparr>pool_bitmap = \<lparr>btmp_bytes_len = unat ?u div 8, bits = replicate (unat ?u div 8) 0\<rparr>,
      phy_addr_start = 0x200000 + ucast ?k * 4096, pool_size = ucast ?u * 4096, pool_lock = pool_lock (user_pool s)\<rparr>"
    using mem_pool_init_eq [of all_mem rest s] by blast
  have le: "?f div 2 \<le> ?f"
    by (simp add: word_le_nat_alt unat_div)
  have k: "unat ?k = unat ?f div 2" and u: "unat ?u = unat ?f - unat ?f div 2"
    using le by (simp_all add: unat_div unat_sub)
  have f: "unat ?f * 4096 \<le> unat all_mem - 0x200000"
    using free_pages_small [OF assms] by simp
  have st: "unat (0x200000 + ucast ?k * 4096 :: u32) = 0x200000 + unat ?f div 2 * 4096"
    using unat_ucast_page [of ?k] k f assms(2) by (simp add: unat_plus_if')
  have al: "frame (0x200000 + ucast ?k * 4096 :: u32) = 0x200000 + ucast ?k * 4096"
  proof -
    have "(0x200 + unat ?f div 2) * 4096 = 0x200000 + unat ?f div 2 * 4096"
      by simp
    then show ?thesis
      unfolding word_unat_eq_iff unat_frame st by (metis div_mult_self_is_m zero_less_numeral)
  qed
  note fb = fresh_bitmap [of _ "[]", simplified]
  have small: "x div 8 * 8 \<le> x" "x < x div 8 * 8 + 8" for x :: nat
    by simp_all
  have cap: "bm_cap (pool_bitmap (kernel_pool s')) = unat ?k div 8 * 8" "bm_cap (pool_bitmap (user_pool s')) = unat ?u div 8 * 8"
    by (simp_all add: K U fb)
  have ends: "0x200000 + unat ?k div 8 * 8 * 4096 \<le> unat (0x200000 + ucast ?k * 4096 :: u32)"
      "unat (0x200000 + ucast ?k * 4096 :: u32) + unat ?u div 8 * 8 * 4096 \<le> unat all_mem"
    unfolding st using small(1) [of "unat ?k"] small(1) [of "unat ?u"] f assms(1) k u by linarith+
  have pk: "pool_ok (kernel_pool s')"
    using ends assms(2) by (simp add: pool_ok_def K fb) (simp add: frame_def)
  have "(0x200000 + ucast ?k * 4096 :: u32) \<noteq> 0"
    using st by (metis add_is_0 unat_0 zero_neq_numeral)
  then have pu: "pool_ok (user_pool s')"
    using ends assms(2) al by (simp add: pool_ok_def U fb)
  have ff: "free_frames (kernel_pool s') = pool_frames (kernel_pool s')" "free_frames (user_pool s') = pool_frames (user_pool s')"
    by (simp_all add: free_frames_def pool_frames_def K U fb)
  have sz: "unat (pool_size (kernel_pool s')) < bm_cap (pool_bitmap (kernel_pool s')) * 4096 + 8 * 4096"
      "unat (pool_size (user_pool s')) < bm_cap (pool_bitmap (user_pool s')) * 4096 + 8 * 4096"
    unfolding cap using small(2) [of "unat ?k"] small(2) [of "unat ?u"] unat_ucast_page [of ?k] unat_ucast_page [of ?u]
    by (simp_all add: K U)
  show ?thesis
    using s' pk pu ff sz ends cap by (intro exI [of _ s']) (simp add: K U)
qed

theorem mem_pool_init_pools_witness:
  "\<exists>s'. mem_pool_init 0x2000000 [] sample_mem = Some s' \<and> pool_ok (kernel_pool s') \<and> pool_ok (user_pool s') \<and>
    unat (phy_addr_start (kernel_pool s')) + bm_cap (pool_bitmap (kernel_pool s')) * 4096 \<le> unat (phy_addr_start (user_pool s')) \<and>
    unat (phy_addr_start (user_pool s')) + bm_cap (pool_bitmap (user_pool s')) * 4096 \<le> unat (0x2000000 :: u32) \<and>
    phy_addr_start (kernel_pool s') = 0x200000 \<and>
    free_frames (kernel_pool s') = pool_frames (kernel_pool s') \<and> free_frames (user_pool s') = pool_frames (user_pool s') \<and>
    (\<forall>p\<in>{kernel_pool s', user_pool s'}. unat (pool_size p) < bm_cap (pool_bitmap p) * 4096 + 8 * 4096)"
  by (rule mem_pool_init_pools) simp_all

text \<open>
  With 512 megabytes, the size the comment in the source gives as the maximum, the number of free
  pages does not fit its 16-bit variable: the two pools together get 254 of the 510 free megabytes.
\<close>

theorem mem_pool_init_wraps:
  "\<exists>s'. mem_pool_init 0x20000000 rest s = Some s' \<and>
     unat (pool_size (kernel_pool s')) + unat (pool_size (user_pool s')) = 254 * 1024 * 1024"
proof -
  have "free_pages 0x20000000 = 0xfe00"
    by (simp add: free_pages_def word_unat_eq_iff unsigned_ucast_eq take_bit_eq_mod)
  then have "\<exists>s'. mem_pool_init 0x20000000 rest s = Some s' \<and> pool_size (kernel_pool s') = ucast (0x7f00 :: u16) * 4096 \<and>
      pool_size (user_pool s') = ucast (0x7f00 :: u16) * 4096"
    using mem_pool_init_eq [of "0x20000000" rest s] by auto
  then show ?thesis
    using unat_ucast_page [of "0x7f00"] by auto
qed

section \<open>Blocks and arenas\<close>

lemma block_desc_sizes:
  "map (\<lambda>d. (block_size d, blocks_per_arena d)) (fst (block_desc_init base l)) =
     [(16, 255), (32, 127), (64, 63), (128, 31), (256, 15), (512, 7), (1024, 3)]"
proof -
  have n: "DESC_CNT = Suc (Suc (Suc (Suc (Suc (Suc (Suc 0))))))"
    by (simp add: DESC_CNT_def)
  show ?thesis
    by (simp add: block_desc_init_def n ARENA_SIZE_def Let_def split_beta)
qed

lemma block_desc_cases:
  assumes "d \<in> set (fst (block_desc_init base l))"
  shows "unat (block_size d) * unat (blocks_per_arena d) + 12 \<le> 4096" and "0 < unat (block_size d)"
    and "unat (block_size d) \<le> 1024" and "unat (blocks_per_arena d) \<le> 255"
proof -
  have "(block_size d, blocks_per_arena d) \<in> set (map (\<lambda>d. (block_size d, blocks_per_arena d)) (fst (block_desc_init base l)))"
    using assms by auto
  then show "unat (block_size d) * unat (blocks_per_arena d) + 12 \<le> 4096" and "0 < unat (block_size d)"
    and "unat (block_size d) \<le> 1024" and "unat (blocks_per_arena d) \<le> 255"
    unfolding block_desc_sizes by auto
qed

lemma find_desc_found:
  assumes "d \<in> set ds" and "sz \<le> block_size d"
  shows "\<exists>j<length ds. find_desc sz ds i = i + j \<and> sz \<le> block_size (ds ! j) \<and> (\<forall>m<j. block_size (ds ! m) < sz)"
  using assms
proof (induction ds arbitrary: i)
  case (Cons e ds)
  show ?case
  proof (cases "sz \<le> block_size e")
    case False
    then have "d \<in> set ds"
      using Cons.prems by auto
    from Cons.IH [OF this Cons.prems(2), of "Suc i"]
    obtain j where "j < length ds" "find_desc sz ds (Suc i) = Suc i + j" "sz \<le> block_size (ds ! j)"
        "\<forall>m<j. block_size (ds ! m) < sz"
      by blast
    then show ?thesis
      using False by (intro exI [of _ "Suc j"]) (auto simp: nth_Cons not_le split: nat.splits)
  qed (auto intro!: exI [of _ 0])
qed simp

text \<open>
  The geometry of the heap. A request of up to 1024 bytes is served from the first descriptor that
  is large enough. In an arena of that descriptor the blocks lie one after the other between the
  header and the end of the page, and \<^verbatim>\<open>block2arena\<close> finds the arena of every block again.
\<close>

theorem heap_blocks_tile:
  assumes "0 < sz" and "sz \<le> 1024" and "frame a = a"
  shows "\<exists>d. rd (fst (block_desc_init base l)) (find_desc sz (fst (block_desc_init base l)) 0) = Some d \<and> sz \<le> block_size d \<and>
    (\<forall>(s :: 'a mstate_scheme) p i. arena_desc (arenas s a) = Some p \<and> get_desc p s = Some d \<and> i < blocks_per_arena d \<longrightarrow>
       (\<exists>b. arena2block a i s = Some b \<and> block2arena b = a \<and> unat b = unat a + 12 + unat i * unat (block_size d) \<and>
          unat b + unat (block_size d) \<le> unat a + 4096))"
proof -
  let ?ds = "fst (block_desc_init base l)"
  have len: "length ?ds = 7" and last: "block_size (?ds ! 6) = 1024"
    using block_desc_sizes [of base l] map_eq_imp_length_eq
    by (auto dest: arg_cong [where f = length] arg_cong [where f = "\<lambda>xs. fst (xs ! 6)"])
  obtain j where j: "j < length ?ds" "find_desc sz ?ds 0 = j" "sz \<le> block_size (?ds ! j)"
    using find_desc_found [of "?ds ! 6" ?ds sz 0] len last assms(2) by auto
  let ?d = "?ds ! j"
  have mem: "?d \<in> set ?ds"
    using j(1) by simp
  note dc = block_desc_cases [OF mem]
  have geo: "\<exists>b. arena2block a i s = Some b \<and> block2arena b = a \<and> unat b = unat a + 12 + unat i * unat (block_size ?d) \<and>
      unat b + unat (block_size ?d) \<le> unat a + 4096"
    if h: "arena_desc (arenas s a) = Some p \<and> get_desc p s = Some ?d \<and> i < blocks_per_arena ?d" for s :: "'a mstate_scheme" and p i
  proof -
    have "Suc (unat i) * unat (block_size ?d) \<le> unat (blocks_per_arena ?d) * unat (block_size ?d)"
      using h by (intro mult_le_mono1) (simp add: word_less_nat_alt)
    then have fit: "12 + unat i * unat (block_size ?d) + unat (block_size ?d) \<le> 4096"
      using dc(1) by (simp add: mult.commute)
    have m: "unat (i * block_size ?d) = unat i * unat (block_size ?d)"
      using fit by (intro unat_mult_lem [THEN iffD1]) simp
    let ?o = "12 + i * block_size ?d"
    have o: "unat ?o = 12 + unat i * unat (block_size ?d)"
      using fit m by (simp add: unat_plus_if')
    then have lt: "unat ?o < 4096"
      using fit dc(2) by simp
    have "arena2block a i s = Some (frame a + ?o)"
      using h assms(3) by (simp add: arena2block_def ARENA_SIZE_def algebra_simps)
    moreover have "block2arena (frame a + ?o) = a"
      using frame_of_add [OF lt, of a] assms(3) by (simp add: block2arena_def frame_def)
    moreover have "unat (frame a + ?o) = unat a + unat ?o"
      using unat_frame_add [OF lt, of a] unat_frame [of a] assms(3) by simp
    ultimately show ?thesis
      using o fit by (intro exI [of _ "frame a + ?o"]) simp
  qed
  show ?thesis
    using j geo by (intro exI [of _ ?d]) auto
qed

theorem heap_blocks_tile_witness:
  "\<exists>d. rd (fst (block_desc_init 0x5000 (lnks sample_mem))) (find_desc 100 (fst (block_desc_init 0x5000 (lnks sample_mem))) 0) = Some d \<and>
    100 \<le> block_size d \<and>
    (\<forall>(s :: mstate) p i. arena_desc (arenas s 0xc0100000) = Some p \<and> get_desc p s = Some d \<and> i < blocks_per_arena d \<longrightarrow>
       (\<exists>b. arena2block 0xc0100000 i s = Some b \<and> block2arena b = 0xc0100000 \<and>
          unat b = unat (0xc0100000 :: u32) + 12 + unat i * unat (block_size d) \<and>
          unat b + unat (block_size d) \<le> unat (0xc0100000 :: u32) + 4096))"
  by (rule heap_blocks_tile) (simp_all add: frame_def)

end
