(* ===== verification/Stdio.thy ===== *)
theory Stdio
  imports Cstring
begin

text \<open>
  Formatted output, src/lib/stdio.c. The variable arguments are a list: an argument is a 32-bit
  integer or a string, and taking an argument of the wrong kind, or one that was not passed, is
  undefined in C and \<open>None\<close> here.
\<close>

section \<open>Integers to text\<close>

text \<open>
  A base of 0 divides by zero and a base of 1 recurses without end; both are \<open>None\<close>. The callers
  pass 10 and 16.
\<close>

function itoa :: "u32 \<Rightarrow> u8 list \<Rightarrow> nat \<Rightarrow> u8 \<Rightarrow> (u8 list \<times> nat) option" where
  "itoa val buf p base =
     (if base < 2 then None
      else do {
        let m = val mod ucast base;
        let i = val div ucast base;
        (buf1, p1) \<leftarrow> (if i \<noteq> 0 then itoa i buf p base else Some (buf, p));
        b \<leftarrow> wr buf1 p1 (if m < 10 then ucast (m + 48) else ucast (m - 10 + 65));
        Some (b, p1 + 1)
      })"
  by pat_completeness auto
termination
proof (relation "measure (\<lambda>(val, _). unat val)")
  fix val :: u32 and base :: u8 and m i
  assume b: "\<not> base < 2" and i: "i = val div ucast base" "i \<noteq> 0"
  have "2 \<le> unat base"
    using b by (simp add: word_less_nat_alt)
  then have "2 \<le> unat (ucast base :: u32)"
    using unsigned_less [of base, where 'a = nat] by (simp add: unsigned_ucast_eq take_bit_nat_eq_self)
  moreover have "unat val \<noteq> 0"
    using i by (auto simp: unat_eq_0)
  ultimately show "((i, buf, p, base), (val, buf, p, base)) \<in> measure (\<lambda>(val, _). unat val)" for buf p
    by (simp add: i(1) unat_div)
qed simp

declare itoa.simps [simp del]

section \<open>Formats\<close>

datatype arg = AInt u32 | AStr "u8 list"

text \<open>
  The loop of \<^verbatim>\<open>vsprintf\<close>: \<open>p\<close> is \<^verbatim>\<open>buf_ptr\<close>, \<open>i\<close> is \<^verbatim>\<open>index_ptr\<close>. The switch has no default: an unknown
  character after \<^verbatim>\<open>%\<close> stays in \<^verbatim>\<open>index_char\<close> and is looked at again by the loop.
\<close>

function vsprintf_loop :: "u8 list \<Rightarrow> nat \<Rightarrow> u8 list \<Rightarrow> nat \<Rightarrow> arg list \<Rightarrow> u8 list option" where
  "vsprintf_loop str p fmt i args = do {
     index_char \<leftarrow> rd fmt i;
     if index_char = 0 then Some str
     else if index_char \<noteq> 37 then do {
       str1 \<leftarrow> wr str p index_char;
       vsprintf_loop str1 (p + 1) fmt (i + 1) args
     }
     else do {
       c \<leftarrow> rd fmt (i + 1);
       if c = 115 then
         (case args of AStr arg_str # as \<Rightarrow> do {
             str1 \<leftarrow> strcpy str p arg_str 0;
             n \<leftarrow> strlen arg_str 0;
             vsprintf_loop str1 (p + n) fmt (i + 2) as
           }
          | _ \<Rightarrow> None)
       else if c = 99 then
         (case args of AInt v # as \<Rightarrow> do {
             str1 \<leftarrow> wr str p (ucast v);
             vsprintf_loop str1 (p + 1) fmt (i + 2) as
           }
          | _ \<Rightarrow> None)
       else if c = 100 then
         (case args of AInt v # as \<Rightarrow> do {
             (str1, p1) \<leftarrow> (if v <s 0 then do { b \<leftarrow> wr str p 45; Some (b, p + 1) } else Some (str, p));
             (str2, p2) \<leftarrow> itoa (if v <s 0 then 0 - v else v) str1 p1 10;
             vsprintf_loop str2 p2 fmt (i + 2) as
           }
          | _ \<Rightarrow> None)
       else if c = 120 then
         (case args of AInt v # as \<Rightarrow> do {
             (str1, p1) \<leftarrow> itoa v str p 16;
             vsprintf_loop str1 p1 fmt (i + 2) as
           }
          | _ \<Rightarrow> None)
       else vsprintf_loop str p fmt (i + 1) args
     }
   }"
  by pat_completeness auto
termination
  by (relation "measure (\<lambda>(str, p, fmt, i, args). length fmt - i)") (auto simp: rd_eq_Some)

declare vsprintf_loop.simps [simp del]

text \<open>The result is the length that \<^verbatim>\<open>strlen\<close> then finds, and the buffer.\<close>

definition vsprintf :: "u8 list \<Rightarrow> u8 list \<Rightarrow> arg list \<Rightarrow> (nat \<times> u8 list) option" where
  "vsprintf str fmt ap = do {
     str1 \<leftarrow> vsprintf_loop str 0 fmt 0 ap;
     n \<leftarrow> strlen str1 0;
     Some (n, str1)
   }"

definition sprintf :: "u8 list \<Rightarrow> u8 list \<Rightarrow> arg list \<Rightarrow> (nat \<times> u8 list) option" where
  "sprintf buf fmt args = vsprintf buf fmt args"

text \<open>\<^verbatim>\<open>printf\<close> formats into a zeroed buffer of 1024 bytes and passes the text to \<^verbatim>\<open>write\<close>.\<close>

definition printf :: "(nat \<Rightarrow> u8 list \<Rightarrow> nat \<Rightarrow> 'w \<Rightarrow> ('r \<times> 'w) option) \<Rightarrow> u8 list \<Rightarrow> arg list \<Rightarrow> 'w \<Rightarrow> ('r \<times> 'w) option" where
  "printf write fmt args w = do {
     (_, buf) \<leftarrow> vsprintf (replicate 1024 0) fmt args;
     n \<leftarrow> strlen buf 0;
     write 1 buf n w
   }"

section \<open>The digits\<close>

definition digit :: "nat \<Rightarrow> u8" where
  "digit m = (if m < 10 then of_nat (m + 48) else of_nat (m + 55))"

fun digits :: "nat \<Rightarrow> nat \<Rightarrow> u8 list" where
  "digits b n = (if b < 2 \<or> n < b then [digit n] else digits b (n div b) @ [digit (n mod b)])"

declare digits.simps [simp del]

definition digit_val :: "u8 \<Rightarrow> nat" where
  "digit_val c = (if unat c < 58 then unat c - 48 else unat c - 55)"

definition digits_val :: "nat \<Rightarrow> u8 list \<Rightarrow> nat" where
  "digits_val b cs = foldl (\<lambda>a c. a * b + digit_val c) 0 cs"

lemma unat_of_nat_u8: "k < 256 \<Longrightarrow> unat (of_nat k :: u8) = k"
  by (simp add: unsigned_of_nat take_bit_nat_eq_self)

lemma unat_digit: "m < 36 \<Longrightarrow> unat (digit m) = (if m < 10 then m + 48 else m + 55)"
  using unat_of_nat_u8 [of "m + 48"] unat_of_nat_u8 [of "m + 55"] by (simp add: digit_def del: of_nat_add)

lemma digit_val_digit: "m < 36 \<Longrightarrow> digit_val (digit m) = m"
  by (simp add: digit_val_def unat_digit)

lemma digit_nonzero: "m < 36 \<Longrightarrow> digit m \<noteq> 0"
  using unat_digit [of m] by (auto split: if_splits)

lemma digits_val_digits: "2 \<le> b \<Longrightarrow> b \<le> 36 \<Longrightarrow> digits_val b (digits b n) = n"
proof (induction b n rule: digits.induct)
  case (1 b n)
  then show ?case
    by (subst digits.simps) (auto simp: digits_val_def digit_val_digit less_le_trans [of "n mod b" b])
qed

lemma digits_nonzero: "2 \<le> b \<Longrightarrow> b \<le> 36 \<Longrightarrow> 0 \<notin> set (digits b n)"
proof (induction b n rule: digits.induct)
  case (1 b n)
  have "n mod b < 36"
    using "1.prems" mod_less_divisor [of b n] by linarith
  then show ?case
    using 1 digit_nonzero [of n] digit_nonzero [of "n mod b"] by (subst digits.simps) auto
qed

lemma ucast_digit:
  assumes "unat m < 16"
  shows "(if (m :: u32) < 10 then ucast (m + 48) else ucast (m - 10 + 65)) = digit (unat m)"
proof -
  have u: "(ucast (of_nat k :: u32) :: u8) = of_nat k" for k
    by (rule bit_eqI) (simp add: bit_simps)
  show ?thesis
    using u [of "unat m + 48"] u [of "55 + unat m"] by (simp add: digit_def word_less_nat_alt)
qed

lemma itoa_eq:
  assumes "2 \<le> unat base" and "unat base \<le> 16" and "p + length (digits (unat base) (unat val)) \<le> length buf"
  shows "itoa val buf p base = Some (take p buf @ digits (unat base) (unat val) @
      drop (p + length (digits (unat base) (unat val))) buf, p + length (digits (unat base) (unat val)))"
  using assms
proof (induction val buf p base rule: itoa.induct)
  case (1 val buf p base)
  let ?b = "unat base" and ?v = "unat val"
  have nb: "\<not> base < 2"
    using "1.prems"(1) by (simp add: word_less_nat_alt)
  have ub: "unat (ucast base :: u32) = ?b"
    using unsigned_less [of base, where 'a = nat] by (simp add: unsigned_ucast_eq take_bit_nat_eq_self)
  have ui: "unat (val div ucast base) = ?v div ?b" and um: "unat (val mod ucast base) = ?v mod ?b"
    by (simp_all add: unat_div unat_mod ub)
  have "unat (val mod ucast base) < 16"
    using "1.prems"(1,2) um mod_less_divisor [of ?b ?v] by linarith
  note dg = ucast_digit [OF this, unfolded um]
  have zero: "(val div ucast base \<noteq> 0) = (\<not> ?v < ?b)"
    using "1.prems"(1) ui by (auto simp: unat_eq_0 [symmetric] div_eq_0_iff)
  show ?case
  proof (cases "?v < ?b")
    case True
    then have ds: "digits ?b ?v = [digit (?v mod ?b)]"
      by (subst digits.simps) simp
    then show ?thesis
      using True nb zero dg "1.prems"(3)
      by (subst itoa.simps) (simp add: Let_def list_update_splice)
  next
    case False
    then have ds: "digits ?b ?v = digits ?b (?v div ?b) @ [digit (?v mod ?b)]"
      using "1.prems"(1) by (subst digits.simps) simp
    let ?ds = "digits ?b (?v div ?b)"
    have room: "p + length ?ds < length buf"
      using "1.prems"(3) by (simp add: ds)
    have ih: "itoa (val div ucast base) buf p base =
        Some (take p buf @ ?ds @ drop (p + length ?ds) buf, p + length ?ds)"
      using "1.IH" [OF nb refl refl] False zero "1.prems"(1,2) room by (simp add: ui)
    have "(take p buf @ ?ds @ drop (p + length ?ds) buf)[p + length ?ds := x] =
        take p buf @ ?ds @ x # drop (Suc (p + length ?ds)) buf" for x
      using room by (simp add: list_update_append list_update_splice)
    then show ?thesis
      using False nb zero dg room ih
      by (subst itoa.simps) (simp add: Let_def ds)
  qed
qed

section \<open>What a format means\<close>

definition render_dec :: "u32 \<Rightarrow> u8 list" where
  "render_dec v = (if v <s 0 then 45 # digits 10 (unat (0 - v)) else digits 10 (unat v))"

fun render :: "u8 list \<Rightarrow> arg list \<Rightarrow> u8 list option" where
  "render [] args = Some []"
| "render [c] args = Some (if c = 37 then [] else [c])"
| "render (c # d # cs) args =
     (if c \<noteq> 37 then map_option ((#) c) (render (d # cs) args)
      else if d = 115 then
        (case args of AStr t # as \<Rightarrow> if terminated t 0 then map_option ((@) (cstr t 0)) (render cs as) else None
         | _ \<Rightarrow> None)
      else if d = 99 then (case args of AInt v # as \<Rightarrow> map_option ((#) (ucast v)) (render cs as) | _ \<Rightarrow> None)
      else if d = 100 then (case args of AInt v # as \<Rightarrow> map_option ((@) (render_dec v)) (render cs as) | _ \<Rightarrow> None)
      else if d = 120 then (case args of AInt v # as \<Rightarrow> map_option ((@) (digits 16 (unat v))) (render cs as) | _ \<Rightarrow> None)
      else render (d # cs) args)"

lemma rd_fmt: "terminated fmt i \<Longrightarrow> rd fmt i = Some (hd (cstr fmt i @ [0]))"
  using terminated_lt [of fmt i] by (simp add: cstr_step)

lemma cstr_Cons:
  assumes "terminated fmt i" and "cstr fmt i = c # cs"
  shows "cstr fmt (i + 1) = cs" and "terminated fmt (i + 1)" and "c \<noteq> 0"
  using assms terminated_lt [OF assms(1)] terminated_step [of i fmt] by (auto simp: cstr_step split: if_splits)

lemma wr_zero: "wr (pre @ replicate (Suc n) 0) (length pre) c = Some ((pre @ [c]) @ replicate n 0)"
  by (simp add: list_update_append)

lemma itoa_zero:
  assumes "2 \<le> unat base" and "unat base \<le> 16" and "length (digits (unat base) (unat v)) \<le> n"
  shows "itoa v (pre @ replicate n 0) (length pre) base =
    Some ((pre @ digits (unat base) (unat v)) @ replicate (n - length (digits (unat base) (unat v))) 0,
          length pre + length (digits (unat base) (unat v)))"
  using itoa_eq [OF assms(1,2), of "length pre" v "pre @ replicate n 0"] assms(3) by simp

lemma strcpy_zero:
  assumes "terminated t 0" and "length (cstr t 0) < n"
  shows "strcpy (pre @ replicate n 0) (length pre) t 0 =
    Some ((pre @ cstr t 0) @ replicate (n - length (cstr t 0)) 0)"
proof -
  have "0 # replicate (n - Suc (length (cstr t 0))) 0 = replicate (n - length (cstr t 0)) (0 :: u8)"
    using assms(2) by (metis Suc_diff_Suc replicate_Suc)
  then show ?thesis
    using assms by (simp add: strcpy_eq)
qed

lemma render_plain: "c \<noteq> 37 \<Longrightarrow> render (c # cs) args = map_option ((#) c) (render cs args)"
  by (cases cs) auto

lemma render_skip:
  "d \<notin> {115, 99, 100, 120} \<Longrightarrow> render (37 # d # ds) args = render (d # ds) args"
  by simp

text \<open>
  One conversion: it consumes one argument and writes \<open>out\<close>, the rest of the format follows.
\<close>

definition conv :: "u8 \<Rightarrow> arg \<Rightarrow> u8 list option" where
  "conv d a = (case a of AStr t \<Rightarrow> if d = 115 \<and> terminated t 0 then Some (cstr t 0) else None
     | AInt v \<Rightarrow> if d = 99 then Some [ucast v] else if d = 100 then Some (render_dec v)
        else if d = 120 then Some (digits 16 (unat v)) else None)"

lemma render_conv:
  assumes "d \<in> {115, 99, 100, 120}" and "render (37 # d # ds) args = Some out"
  obtains a as u v where "args = a # as" and "conv d a = Some u" and "render ds as = Some v" and "out = u @ v"
  using assms by (auto simp: conv_def split: list.splits arg.splits if_splits)

lemma vsprintf_conv:
  assumes fmt: "rd fmt i = Some 37" "rd fmt (i + 1) = Some d" and d: "d \<in> {115, 99, 100, 120}"
    and a: "conv d a = Some u" and room: "length u < n"
  shows "vsprintf_loop (pre @ replicate n 0) (length pre) fmt i (a # as) =
    vsprintf_loop ((pre @ u) @ replicate (n - length u) 0) (length (pre @ u)) fmt (i + 2) as"
proof (cases a)
  case (AStr t)
  then have t: "d = 115" "terminated t 0" "u = cstr t 0"
    using a by (auto simp: conv_def split: if_splits)
  then show ?thesis
    using AStr fmt room strcpy_zero [OF t(2), of n pre]
    by (subst vsprintf_loop.simps) (simp add: strlen_eq)
next
  case (AInt v)
  then consider (c) "d = 99" "u = [ucast v]" | (dec) "d = 100" "u = render_dec v" | (hex) "d = 120" "u = digits 16 (unat v)"
    using a by (auto simp: conv_def split: if_splits)
  then show ?thesis
  proof cases
    case c
    obtain n' where "n = Suc n'"
      using room by (cases n) auto
    then show ?thesis
      using AInt c fmt wr_zero [of pre n' "ucast v"] by (subst vsprintf_loop.simps) simp
  next
    case dec
    show ?thesis
    proof (cases "v <s 0")
      case True
      then have u: "u = 45 # digits 10 (unat (0 - v))"
        using dec by (simp add: render_dec_def)
      obtain n' where n': "n = Suc n'" "length (digits 10 (unat (0 - v))) \<le> n'"
        using room u by (cases n) auto
      have "itoa (0 - v) ((pre @ [45]) @ replicate n' 0) (length pre + 1) 10 =
          Some (((pre @ [45]) @ digits 10 (unat (0 - v))) @ replicate (n' - length (digits 10 (unat (0 - v)))) 0,
            length (pre @ [45]) + length (digits 10 (unat (0 - v))))"
        using itoa_zero [of 10 "0 - v" n' "pre @ [45]"] n'(2) by simp
      then show ?thesis
        using AInt dec(1) True fmt u n' wr_zero [of pre n' 45] by (subst vsprintf_loop.simps) simp
    next
      case False
      then have u: "u = digits 10 (unat v)"
        using dec by (simp add: render_dec_def)
      then show ?thesis
        using AInt dec False fmt room itoa_zero [of 10 v n pre] by (subst vsprintf_loop.simps) simp
    qed
  next
    case hex
    then show ?thesis
      using AInt fmt room itoa_zero [of 16 v n pre] by (subst vsprintf_loop.simps) simp
  qed
qed

lemma vsprintf_loop_render:
  "terminated fmt i \<Longrightarrow> render (cstr fmt i) args = Some out \<Longrightarrow> length out < n \<Longrightarrow>
   vsprintf_loop (pre @ replicate n 0) (length pre) fmt i args = Some (pre @ out @ replicate (n - length out) 0)"
proof (induction "length (cstr fmt i)" arbitrary: i args pre n out rule: less_induct)
  case less
  note rdi = rd_fmt [OF less.prems(1)]
  show ?case
  proof (cases "cstr fmt i")
    case Nil
    then show ?thesis
      using rdi less.prems(2) by (subst vsprintf_loop.simps) simp
  next
    case (Cons c cs)
    note c1 = cstr_Cons [OF less.prems(1) Cons]
    show ?thesis
    proof (cases "c = 37")
      case False
      then obtain out' where out': "render cs args = Some out'" "out = c # out'"
        using less.prems(2) Cons by (auto simp: render_plain)
      obtain n' where n': "n = Suc n'" "length out' < n'"
        using less.prems(3) out' by (cases n) auto
      have "vsprintf_loop ((pre @ [c]) @ replicate n' 0) (length (pre @ [c])) fmt (i + 1) args =
          Some ((pre @ [c]) @ out' @ replicate (n' - length out') 0)"
        using less.hyps [of "i + 1" args out' n' "pre @ [c]"] c1 out'(1) n'(2) Cons by simp
      then show ?thesis
        using False c1(3) rdi Cons n' out' wr_zero [of pre n' c] by (subst vsprintf_loop.simps) simp
    next
      case c: True
      note rdi1 = rd_fmt [OF c1(2), unfolded c1(1)]
      show ?thesis
      proof (cases "hd (cs @ [0]) \<in> {115, 99, 100, 120}")
        case True
        then obtain d ds where cs: "cs = d # ds" and d: "d \<in> {115, 99, 100, 120}"
          by (cases cs) auto
        have c2: "cstr fmt (i + 2) = ds" "terminated fmt (i + 2)"
          using cstr_Cons [OF c1(2)] c1(1) cs by simp_all
        obtain a as u v where arg: "args = a # as" "conv d a = Some u" "render ds as = Some v" "out = u @ v"
        proof -
          have "render (37 # d # ds) args = Some out"
            using less.prems(2) Cons c cs by simp
          then show thesis
            using that by (rule render_conv [OF d])
        qed
        have "vsprintf_loop (pre @ replicate n 0) (length pre) fmt i (a # as) =
            vsprintf_loop ((pre @ u) @ replicate (n - length u) 0) (length (pre @ u)) fmt (i + 2) as"
          using rdi rdi1 Cons c cs less.prems(3) arg(4) by (intro vsprintf_conv [OF _ _ d arg(2)]) simp_all
        also have "\<dots> = Some ((pre @ u) @ v @ replicate (n - length u - length v) 0)"
          using less.prems(3) arg c2 Cons cs by (intro less.hyps) simp_all
        finally show ?thesis
          by (simp add: arg)
      next
        case False
        have "vsprintf_loop (pre @ replicate n 0) (length pre) fmt i args =
            vsprintf_loop (pre @ replicate n 0) (length pre) fmt (i + 1) args"
          using rdi rdi1 Cons c False by (subst vsprintf_loop.simps) simp
        moreover have "render cs args = Some out"
          using less.prems(2) Cons c False by (cases cs) (auto simp: render_skip)
        ultimately show ?thesis
          using less.hyps [of "i + 1" args out n pre] c1 Cons less.prems(3) by simp
      qed
    qed
  qed
qed

lemma sprintf_render:
  assumes "terminated fmt 0" and "render (cstr fmt 0) args = Some out" and "length out < n" and "0 \<notin> set out"
  shows "sprintf (replicate n 0) fmt args = Some (length out, out @ replicate (n - length out) 0)"
proof -
  have "replicate (n - length out) (0 :: u8) = 0 # replicate (n - Suc (length out)) 0"
    using assms(3) by (metis Suc_diff_Suc replicate_Suc)
  then have t: "terminated (out @ replicate (n - length out) 0) 0" "cstr (out @ replicate (n - length out) 0) 0 = out"
    using terminated_append [of "[]" 0 out] cstr_append [OF assms(4), of "[]" 0] by simp_all
  have "vsprintf_loop (replicate n 0) 0 fmt 0 args = Some (out @ replicate (n - length out) 0)"
    using vsprintf_loop_render [OF assms(1-3), of "[]"] by simp
  then show ?thesis
    using t by (simp add: sprintf_def vsprintf_def strlen_eq)
qed

section \<open>Properties\<close>

text \<open>
  C37. \<^verbatim>\<open>itoa\<close> is correct for the bases 2 to 16: when the buffer has room it returns, writes only the cells
  it fills, and the characters it wrote, read back as a number in that base, give the value.
\<close>

theorem itoa_round_trip:
  assumes "2 \<le> unat base" and "unat base \<le> 16" and "p + length (digits (unat base) (unat v)) \<le> length buf"
  shows "\<exists>ds. itoa v buf p base = Some (take p buf @ ds @ drop (p + length ds) buf, p + length ds) \<and>
    digits_val (unat base) ds = unat v"
  using itoa_eq [OF assms] digits_val_digits [of "unat base" "unat v"] assms(1,2)
  by (intro exI [of _ "digits (unat base) (unat v)"]) simp

theorem itoa_round_trip_witness:
  "\<exists>ds. itoa 1234 (replicate 8 0) 1 16 = Some (take 1 (replicate 8 0) @ ds @ drop (1 + length ds) (replicate 8 0), 1 + length ds) \<and>
    digits_val (unat (16 :: u8)) ds = unat (1234 :: u32)"
  by (rule itoa_round_trip) (simp_all add: digits.simps)

text \<open>
  On a zeroed buffer that is longer than the text, \<^verbatim>\<open>sprintf\<close> returns, leaves exactly the text that
  the format and the arguments denote, and returns its length.
\<close>

theorem sprintf_writes_text:
  assumes "terminated fmt 0" and "render (cstr fmt 0) args = Some out" and "length out < n" and "0 \<notin> set out"
  shows "\<exists>buf. sprintf (replicate n 0) fmt args = Some (length out, buf) \<and> cstr buf 0 = out \<and> length buf = n"
proof -
  have "replicate (n - length out) (0 :: u8) = 0 # replicate (n - Suc (length out)) 0"
    using assms(3) by (metis Suc_diff_Suc replicate_Suc)
  then show ?thesis
    using sprintf_render [OF assms] cstr_append [OF assms(4), of "[]" 0] assms(3) by simp
qed

theorem sprintf_writes_text_witness:
  "\<exists>buf. sprintf (replicate 64 0) (str_bytes ''%s: %d%c'' @ [0]) [AStr (str_bytes ''pid'' @ [0]), AInt (- 5), AInt 33] =
      Some (length (str_bytes ''pid: -5!''), buf) \<and> cstr buf 0 = str_bytes ''pid: -5!'' \<and> length buf = 64"
  by (rule sprintf_writes_text)
     (simp_all add: terminated_def cstr_def str_bytes_def render_dec_def digits.simps digit_def word_sless_alt)

text \<open>
  On a buffer that is not zeroed the result is wrong: \<^verbatim>\<open>vsprintf\<close> writes no terminator, so formatting
  two characters into a buffer that held five others reports five and leaves the old ones behind.
\<close>

theorem sprintf_dirty_buffer:
  "sprintf (str_bytes ''abcde'' @ [0, 0]) (str_bytes ''xy'' @ [0]) [] = Some (5, str_bytes ''xycde'' @ [0, 0])"
  by (simp add: sprintf_def vsprintf_def vsprintf_loop.simps str_bytes_def strlen_eq terminated_def cstr_def)

end
