(* ===== verification/Ide.thy ===== *)
theory Ide
  imports Heap_Layout Stdio
begin

text \<open>
  The disk driver, src/device/ide.c. The state is the kernel state extended by the two channels, the
  task-file registers of each channel and the contents of the drives; a drive is a map from sector
  numbers to sectors of 512 bytes, named by its channel and its \<^verbatim>\<open>dev_no\<close>.

  The drive itself is hardware and modelled by what the ATA standard says of the registers the driver
  writes: a read or write command transfers as many sectors as the sector count register says (0
  stands for 256), from the sector whose number is spread over the three LBA registers and the low
  half of the device register (\<open>reg_lba\<close>, \<open>reg_count\<close>). \<open>drive_status n\<close> is what the \<open>n\<close>-th read of the
  status register gives, \<open>identify_data\<close> the 512 bytes that answer an identify command.

  A transfer ends with the drive's interrupt. \<open>wait_done\<close> is the driver's \<^verbatim>\<open>sema_down\<close> on \<^verbatim>\<open>disk_done\<close>
  together with the interrupt that ends it; the path of a thread that really sleeps there is that of
  \<open>sema_down_loop\<close>. Sector counts are natural numbers: the callers transfer at most a few
  hundred sectors.
\<close>

section \<open>Data\<close>

record super_block =
  sb_magic :: u32
  sb_sec_cnt :: u32
  inode_cnt :: u32
  part_lba_base :: u32
  block_bitmap_lba :: u32
  block_bitmap_sects :: u32
  inode_bitmap_lba :: u32
  inode_bitmap_sects :: u32
  inode_table_lba :: u32
  inode_table_sects :: u32
  data_start_lba :: u32
  root_inode_no :: u32
  dir_entry_size :: u32

record disk =
  disk_name :: "u8 list"
  my_channel :: nat
  dev_no :: u8

record partition =
  start_lba :: u32
  sec_cnt :: u32
  my_disk :: disk
  part_name :: "u8 list"
  sb :: super_block
  block_bitmap :: bitmap
  inode_bitmap :: bitmap
  open_inodes :: addr

record ide_channel =
  ch_name :: "u8 list"
  port_base :: u16
  irq_no :: u8
  ch_lock :: addr
  expecting_intr :: bool
  disk_done :: addr

record ata_regs =
  reg_sect_cnt :: u8
  reg_lba_l :: u8
  reg_lba_m :: u8
  reg_lba_h :: u8
  reg_dev :: u8
  reg_cmd :: u8

text \<open>An element of \<^verbatim>\<open>prim_parts\<close> or \<^verbatim>\<open>logic_parts\<close> of a drive.\<close>

datatype part_ptr = Prim nat u8 nat | Logic nat u8 nat

record dstate = mstate +
  channels :: "nat \<Rightarrow> ide_channel"
  regs :: "nat \<Rightarrow> ata_regs"
  platter :: "nat \<Rightarrow> u8 \<Rightarrow> u32 \<Rightarrow> u8 list"
  identify_data :: "nat \<Rightarrow> u8 \<Rightarrow> u8 list"
  drive_status :: "nat \<Rightarrow> u8"
  status_reads :: nat
  ext_lba_base :: u32
  p_no :: u8
  l_no :: u8
  parts :: "part_ptr \<Rightarrow> partition"
  partition_list :: "part_ptr list"

definition max_lba :: u32 where
  "max_lba = 80 * 1024 * 1024 div 512 - 1"

definition BIT_STAT_BSY :: u8 where "BIT_STAT_BSY = 0x80"
definition BIT_STAT_DRQ :: u8 where "BIT_STAT_DRQ = 0x8"
definition BIT_DEV_MBS :: u8 where "BIT_DEV_MBS = 0xa0"
definition BIT_DEV_LBA :: u8 where "BIT_DEV_LBA = 0x40"
definition BIT_DEV_DEV :: u8 where "BIT_DEV_DEV = 0x10"
definition CMD_IDENTIFY :: u8 where "CMD_IDENTIFY = 0xec"
definition CMD_READ_SECTOR :: u8 where "CMD_READ_SECTOR = 0x20"
definition CMD_WRITE_SECTOR :: u8 where "CMD_WRITE_SECTOR = 0x30"

section \<open>The drive\<close>

definition reg_lba :: "ata_regs \<Rightarrow> u32" where
  "reg_lba r = ucast (reg_lba_l r) OR push_bit 8 (ucast (reg_lba_m r)) OR push_bit 16 (ucast (reg_lba_h r)) OR
     push_bit 24 (ucast (reg_dev r AND 0xf))"

definition reg_count :: "ata_regs \<Rightarrow> nat" where
  "reg_count r = (if reg_sect_cnt r = 0 then 256 else unat (reg_sect_cnt r))"

definition reg_drive :: "ata_regs \<Rightarrow> u8" where
  "reg_drive r = (if reg_dev r AND BIT_DEV_DEV = 0 then 0 else 1)"

definition sectors :: "(u32 \<Rightarrow> u8 list) \<Rightarrow> u32 \<Rightarrow> nat \<Rightarrow> u8 list" where
  "sectors d lba n = concat (map (\<lambda>i. d (lba + of_nat i)) [0..<n])"

definition put_sectors :: "(u32 \<Rightarrow> u8 list) \<Rightarrow> u32 \<Rightarrow> nat \<Rightarrow> u8 list \<Rightarrow> u32 \<Rightarrow> u8 list" where
  "put_sectors d lba n bs = (\<lambda>x. if unat (x - lba) < n then take 512 (drop (512 * unat (x - lba)) bs) else d x)"

section \<open>The registers\<close>

definition set_reg :: "nat \<Rightarrow> (ata_regs \<Rightarrow> ata_regs) \<Rightarrow> 'a dstate_scheme \<Rightarrow> 'a dstate_scheme" where
  "set_reg c f s = s\<lparr>regs := (regs s)(c := f (regs s c))\<rparr>"

definition select_disk :: "disk \<Rightarrow> 'a dstate_scheme \<Rightarrow> 'a dstate_scheme" where
  "select_disk hdd s =
     (let reg_device = BIT_DEV_MBS OR BIT_DEV_LBA;
          reg_device = (if dev_no hdd = 1 then reg_device OR BIT_DEV_DEV else reg_device)
      in set_reg (my_channel hdd) (reg_dev_update (\<lambda>_. reg_device)) s)"

definition select_sector :: "disk \<Rightarrow> u32 \<Rightarrow> u8 \<Rightarrow> 'a dstate_scheme \<Rightarrow> 'a dstate_scheme option" where
  "select_sector hdd lba cnt s = do {
     ASSERT (lba \<le> max_lba);
     let c = my_channel hdd;
     let s1 = set_reg c (reg_sect_cnt_update (\<lambda>_. cnt)) s;
     let s2 = set_reg c (reg_lba_l_update (\<lambda>_. ucast lba)) s1;
     let s3 = set_reg c (reg_lba_m_update (\<lambda>_. ucast (drop_bit 8 lba))) s2;
     let s4 = set_reg c (reg_lba_h_update (\<lambda>_. ucast (drop_bit 16 lba))) s3;
     Some (set_reg c (reg_dev_update (\<lambda>_. BIT_DEV_MBS OR BIT_DEV_LBA OR (if dev_no hdd = 1 then BIT_DEV_DEV else 0) OR
       ucast (drop_bit 24 lba))) s4)
   }"

definition set_channel :: "nat \<Rightarrow> (ide_channel \<Rightarrow> ide_channel) \<Rightarrow> 'a dstate_scheme \<Rightarrow> 'a dstate_scheme" where
  "set_channel c f s = s\<lparr>channels := (channels s)(c := f (channels s c))\<rparr>"

definition cmd_out :: "nat \<Rightarrow> u8 \<Rightarrow> 'a dstate_scheme \<Rightarrow> 'a dstate_scheme" where
  "cmd_out c cmd s = set_reg c (reg_cmd_update (\<lambda>_. cmd)) (set_channel c (expecting_intr_update (\<lambda>_. True)) s)"

text \<open>\<^verbatim>\<open>insw\<close> and \<^verbatim>\<open>outsw\<close> of the sectors the registers select.\<close>

definition size_in_byte :: "u8 \<Rightarrow> nat" where
  "size_in_byte cnt = (if cnt = 0 then 256 * 512 else unat cnt * 512)"

definition read_from_sector :: "disk \<Rightarrow> u8 \<Rightarrow> 'a dstate_scheme \<Rightarrow> u8 list" where
  "read_from_sector hdd cnt s =
     (let r = regs s (my_channel hdd)
      in take (size_in_byte cnt)
           (if reg_cmd r = CMD_IDENTIFY then identify_data s (my_channel hdd) (reg_drive r)
            else sectors (platter s (my_channel hdd) (reg_drive r)) (reg_lba r) (reg_count r)))"

definition write2sector :: "disk \<Rightarrow> u8 list \<Rightarrow> u8 \<Rightarrow> 'a dstate_scheme \<Rightarrow> 'a dstate_scheme option" where
  "write2sector hdd buf cnt s = do {
     ASSERT (size_in_byte cnt \<le> length buf);
     let c = my_channel hdd;
     let r = regs s c;
     let d = platter s c (reg_drive r);
     Some (s\<lparr>platter := (platter s)(c := (platter s c)(reg_drive r :=
        put_sectors d (reg_lba r) (reg_count r) (take (size_in_byte cnt) buf)))\<rparr>)
   }"

definition inb_status :: "'a dstate_scheme \<Rightarrow> u8 \<times> 'a dstate_scheme" where
  "inb_status s = (drive_status s (status_reads s), s\<lparr>status_reads := status_reads s + 1\<rparr>)"

text \<open>
  \<^verbatim>\<open>while (time_limit -= 10 >= 0)\<close>: the comparison binds tighter than the assignment, so each round
  takes 1 from \<^verbatim>\<open>time_limit\<close> and the loop ends when nothing is left. The sleep of ten milliseconds
  after a busy status only passes time.
\<close>

fun busy_wait_loop :: "nat \<Rightarrow> 'a dstate_scheme \<Rightarrow> bool \<times> 'a dstate_scheme" where
  "busy_wait_loop 0 s = (False, s)"
| "busy_wait_loop (Suc time_limit) s =
     (if time_limit = 0 then (False, s)
      else let (st, s1) = inb_status s
           in if st AND BIT_STAT_BSY = 0 then let (st', s2) = inb_status s1 in (st' AND BIT_STAT_DRQ \<noteq> 0, s2)
              else busy_wait_loop time_limit s1)"

definition busy_wait :: "disk \<Rightarrow> 'a dstate_scheme \<Rightarrow> bool \<times> 'a dstate_scheme" where
  "busy_wait hdd s = busy_wait_loop 30000 s"

section \<open>Interrupt and transfer\<close>

definition intr_hd_handler :: "u8 \<Rightarrow> 'a dstate_scheme \<Rightarrow> 'a dstate_scheme option" where
  "intr_hd_handler irq s = do {
     ASSERT (irq = 0x2e \<or> irq = 0x2f);
     let ch_no = unat (irq - 0x2e);
     let channel = channels s ch_no;
     ASSERT (irq_no channel = irq);
     if expecting_intr channel then do {
       let s1 = set_channel ch_no (expecting_intr_update (\<lambda>_. False)) s;
       s2 \<leftarrow> sema_up (disk_done channel) s1;
       Some (snd (inb_status s2))
     } else Some s
   }"

definition wait_done :: "disk \<Rightarrow> 'a dstate_scheme \<Rightarrow> 'a dstate_scheme option" where
  "wait_done hdd s = do {
     s1 \<leftarrow> intr_hd_handler (irq_no (channels s (my_channel hdd))) s;
     (taken, s2) \<leftarrow> sema_down (disk_done (channels s1 (my_channel hdd))) s1;
     ASSERT taken;
     Some s2
   }"

definition secs_op :: "nat \<Rightarrow> nat \<Rightarrow> nat" where
  "secs_op secs_done cnt = (if secs_done + 256 \<le> cnt then 256 else cnt - secs_done)"

text \<open>The bytes read so far and those still to come; \<open>None\<close> is the \<^verbatim>\<open>PANIC\<close> after a failed wait.\<close>

function ide_read_loop :: "disk \<Rightarrow> u32 \<Rightarrow> nat \<Rightarrow> nat \<Rightarrow> 'a dstate_scheme \<Rightarrow> (u8 list \<times> 'a dstate_scheme) option" where
  "ide_read_loop hdd lba secs_done cnt s =
     (if secs_done < cnt then do {
        let n = secs_op secs_done cnt;
        s1 \<leftarrow> select_sector hdd (lba + of_nat secs_done) (of_nat n) s;
        let s2 = cmd_out (my_channel hdd) CMD_READ_SECTOR s1;
        s3 \<leftarrow> wait_done hdd s2;
        let (ready, s4) = busy_wait hdd s3;
        ASSERT ready;
        let bs = read_from_sector hdd (of_nat n) s4;
        (rest, s5) \<leftarrow> ide_read_loop hdd lba (secs_done + n) cnt s4;
        Some (bs @ rest, s5)
      } else Some ([], s))"
  by pat_completeness auto
termination
  by (relation "measure (\<lambda>(hdd, lba, secs_done, cnt, s). cnt - secs_done)") (auto simp: secs_op_def)

definition ide_read :: "disk \<Rightarrow> u32 \<Rightarrow> nat \<Rightarrow> 'a dstate_scheme \<Rightarrow> (u8 list \<times> 'a dstate_scheme) option" where
  "ide_read hdd lba cnt s = do {
     ASSERT (lba \<le> max_lba);
     ASSERT (cnt > 0);
     s1 \<leftarrow> with_lock (ch_lock (channels s (my_channel hdd))) s;
     let s2 = select_disk hdd s1;
     (bs, s3) \<leftarrow> ide_read_loop hdd lba 0 cnt s2;
     s4 \<leftarrow> lock_release (ch_lock (channels s3 (my_channel hdd))) s3;
     Some (bs, s4)
   }"

function ide_write_loop :: "disk \<Rightarrow> u32 \<Rightarrow> u8 list \<Rightarrow> nat \<Rightarrow> nat \<Rightarrow> 'a dstate_scheme \<Rightarrow> 'a dstate_scheme option" where
  "ide_write_loop hdd lba buf secs_done cnt s =
     (if secs_done < cnt then do {
        let n = secs_op secs_done cnt;
        s1 \<leftarrow> select_sector hdd (lba + of_nat secs_done) (of_nat n) s;
        let s2 = cmd_out (my_channel hdd) CMD_WRITE_SECTOR s1;
        let (ready, s3) = busy_wait hdd s2;
        ASSERT ready;
        s4 \<leftarrow> write2sector hdd (drop (secs_done * 512) buf) (of_nat n) s3;
        s5 \<leftarrow> wait_done hdd s4;
        ide_write_loop hdd lba buf (secs_done + n) cnt s5
      } else Some s)"
  by pat_completeness auto
termination
  by (relation "measure (\<lambda>(hdd, lba, buf, secs_done, cnt, s). cnt - secs_done)") (auto simp: secs_op_def)

definition ide_write :: "disk \<Rightarrow> u32 \<Rightarrow> u8 list \<Rightarrow> nat \<Rightarrow> 'a dstate_scheme \<Rightarrow> 'a dstate_scheme option" where
  "ide_write hdd lba buf cnt s = do {
     ASSERT (lba \<le> max_lba);
     ASSERT (cnt > 0);
     s1 \<leftarrow> with_lock (ch_lock (channels s (my_channel hdd))) s;
     let s2 = select_disk hdd s1;
     s3 \<leftarrow> ide_write_loop hdd lba buf 0 cnt s2;
     lock_release (ch_lock (channels s3 (my_channel hdd))) s3
   }"

declare ide_read_loop.simps [simp del] ide_write_loop.simps [simp del]

section \<open>Drive information and partitions\<close>

text \<open>\<^verbatim>\<open>buf\<close> gets the bytes of \<open>dst\<close> from \<open>start\<close> on with neighbours swapped, and a final zero.\<close>

function swap_pairs_loop :: "u8 list \<Rightarrow> nat \<Rightarrow> u8 list \<Rightarrow> nat \<Rightarrow> nat \<Rightarrow> u8 list option" where
  "swap_pairs_loop dst start buf idx len =
     (if idx < len then do {
        x \<leftarrow> rd dst (start + idx);
        b1 \<leftarrow> wr buf (idx + 1) x;
        y \<leftarrow> rd dst (start + idx + 1);
        b2 \<leftarrow> wr b1 idx y;
        swap_pairs_loop dst start b2 (idx + 2) len
      } else wr buf idx 0)"
  by pat_completeness auto
termination
  by (relation "measure (\<lambda>(dst, start, buf, idx, len). len - idx)") auto

declare swap_pairs_loop.simps [simp del]

definition swap_pairs_bytes :: "u8 list \<Rightarrow> nat \<Rightarrow> u8 list \<Rightarrow> nat \<Rightarrow> u8 list option" where
  "swap_pairs_bytes dst start buf len = swap_pairs_loop dst start buf 0 len"

definition le32 :: "u8 list \<Rightarrow> nat \<Rightarrow> u32 option" where
  "le32 bs i = do {
     b0 \<leftarrow> rd bs i; b1 \<leftarrow> rd bs (i + 1); b2 \<leftarrow> rd bs (i + 2); b3 \<leftarrow> rd bs (i + 3);
     Some (ucast b0 OR push_bit 8 (ucast b1) OR push_bit 16 (ucast b2) OR push_bit 24 (ucast b3))
   }"

text \<open>
  What \<^verbatim>\<open>identify_disk\<close> prints: serial number, model and number of sectors. The buffer \<^verbatim>\<open>buf\<close> is
  uninitialised at first; \<open>buf\<close> are its 64 bytes.
\<close>

definition identify_disk :: "disk \<Rightarrow> u8 list \<Rightarrow> 'a dstate_scheme \<Rightarrow> ((u8 list \<times> u8 list \<times> u32) \<times> 'a dstate_scheme) option" where
  "identify_disk hdd buf s = do {
     let s1 = select_disk hdd s;
     let s2 = cmd_out (my_channel hdd) CMD_IDENTIFY s1;
     s3 \<leftarrow> wait_done hdd s2;
     let (ready, s4) = busy_wait hdd s3;
     ASSERT ready;
     let id_info = read_from_sector hdd 1 s4;
     sn \<leftarrow> swap_pairs_bytes id_info (10 * 2) buf 20;
     md \<leftarrow> swap_pairs_bytes id_info (27 * 2) (replicate 64 0) 40;
     n \<leftarrow> le32 id_info (60 * 2);
     Some ((sn, md, n), s4)
   }"

text \<open>Entry \<open>i\<close> of the partition table of a boot sector: type, first sector, number of sectors.\<close>

definition table_entry :: "u8 list \<Rightarrow> nat \<Rightarrow> (u8 \<times> u32 \<times> u32) option" where
  "table_entry bs i = do {
     let p = 446 + i * 16;
     fs_type \<leftarrow> rd bs (p + 4);
     lba \<leftarrow> le32 bs (p + 8);
     cnt \<leftarrow> le32 bs (p + 12);
     Some (fs_type, lba, cnt)
   }"

definition fmt_part_name :: "u8 list" where
  "fmt_part_name = str_bytes ''%s%d'' @ [0]"

definition set_part :: "part_ptr \<Rightarrow> disk \<Rightarrow> u32 \<Rightarrow> u32 \<Rightarrow> u32 \<Rightarrow> 'a dstate_scheme \<Rightarrow> 'a dstate_scheme option" where
  "set_part q hdd lba cnt nr s = do {
     let p = (parts s q)\<lparr>start_lba := lba, sec_cnt := cnt, my_disk := hdd\<rparr>;
     (_, nm) \<leftarrow> sprintf (part_name p) fmt_part_name [AStr (disk_name hdd), AInt nr];
     Some (s\<lparr>parts := (parts s)(q := p\<lparr>part_name := nm\<rparr>), partition_list := partition_list s @ [q]\<rparr>)
   }"

text \<open>
  The loop over the four entries of the boot sector \<open>bs\<close> at address \<open>a\<close>, read from sector \<open>ext_lba\<close>. An
  extended partition starts a scan of its own before the loop goes on. A table whose chain of
  extended partitions is circular is scanned without end: the result is then \<open>None\<close>.
\<close>

partial_function (option) scan_loop ::
  "disk \<Rightarrow> u32 \<Rightarrow> addr \<Rightarrow> u8 list \<Rightarrow> nat \<Rightarrow> 'a dstate_scheme \<Rightarrow> 'a dstate_scheme option" where
  "scan_loop hdd ext_lba a bs part_idx s =
     (if part_idx < 4 then Option.bind (table_entry bs part_idx) (\<lambda>(fs_type, lba, cnt).
        if fs_type = 0x5 then
          Option.bind (let lba' = (if ext_lba_base s \<noteq> 0 then lba + ext_lba_base s else lba);
                           s0 = (if ext_lba_base s \<noteq> 0 then s else s\<lparr>ext_lba_base := lba\<rparr>)
                       in Option.bind (sys_malloc 512 s0) (\<lambda>(a1, s1).
                            Option.bind (ide_read hdd lba' 1 s1) (\<lambda>(bs1, s2). scan_loop hdd lba' a1 bs1 0 s2)))
            (\<lambda>s3. scan_loop hdd ext_lba a bs (Suc part_idx) s3)
        else if fs_type \<noteq> 0 then
          if ext_lba = 0 then
            Option.bind (set_part (Prim (my_channel hdd) (dev_no hdd) (unat (p_no s))) hdd (ext_lba + lba) cnt (ucast (p_no s) + 1) s)
              (\<lambda>s1. Option.bind (ASSERT (p_no s1 + 1 < 4)) (\<lambda>_.
                 scan_loop hdd ext_lba a bs (Suc part_idx) (s1\<lparr>p_no := p_no s1 + 1\<rparr>)))
          else
            Option.bind (set_part (Logic (my_channel hdd) (dev_no hdd) (unat (l_no s))) hdd (ext_lba + lba) cnt (ucast (l_no s) + 5) s)
              (\<lambda>s1. let s2 = s1\<lparr>l_no := l_no s1 + 1\<rparr>
                    in if l_no s2 \<ge> 8 then Some s2 else scan_loop hdd ext_lba a bs (Suc part_idx) s2)
        else scan_loop hdd ext_lba a bs (Suc part_idx) s)
      else sys_free a s)"

definition partition_scan :: "disk \<Rightarrow> u32 \<Rightarrow> 'a dstate_scheme \<Rightarrow> 'a dstate_scheme option" where
  "partition_scan hdd ext_lba s = do {
     (a, s1) \<leftarrow> sys_malloc 512 s;
     (bs, s2) \<leftarrow> ide_read hdd ext_lba 1 s1;
     scan_loop hdd ext_lba a bs 0 s2
   }"

end
