(* ===== verification/Ide_Transfer.thy ===== *)
theory Ide_Transfer
  imports Ide
begin

text \<open>
  The transfers of the disk driver read and write the sectors they are asked for: splitting a request
  into commands of at most 256 sectors, spreading the sector number over the registers and waiting
  for the drive add up to one read or write of the whole range.
\<close>

section \<open>Sector numbers in the registers\<close>

lemma max_lba_num: "max_lba = 0x27fff"
  by (simp add: max_lba_def)

lemma reg_lba_select:
  assumes "lba \<le> max_lba"
  shows "reg_lba \<lparr>reg_sect_cnt = c, reg_lba_l = ucast lba, reg_lba_m = ucast (drop_bit 8 lba), reg_lba_h = ucast (drop_bit 16 lba),
      reg_dev = BIT_DEV_MBS OR BIT_DEV_LBA OR (if d = 1 then BIT_DEV_DEV else 0) OR ucast (drop_bit 24 lba), reg_cmd = cmd\<rparr> = lba"
    and "d = 0 \<or> d = 1 \<Longrightarrow>
      reg_drive \<lparr>reg_sect_cnt = c, reg_lba_l = ucast lba, reg_lba_m = ucast (drop_bit 8 lba), reg_lba_h = ucast (drop_bit 16 lba),
      reg_dev = BIT_DEV_MBS OR BIT_DEV_LBA OR (if d = 1 then BIT_DEV_DEV else 0) OR ucast (drop_bit 24 lba), reg_cmd = cmd\<rparr> = d"
proof -
  have lt: "unat lba < 2 ^ 24"
    using assms by (simp add: max_lba_num word_le_nat_alt)
  then have z: "drop_bit 24 lba = 0"
    by (simp add: word_unat_eq_iff drop_bit_eq_div unat_div)
  have hi: "\<not> bit lba n" if "24 \<le> n" for n
  proof -
    have "bit lba n = bit (drop_bit 24 lba) (n - 24)"
      using that by (simp add: bit_simps)
    then show ?thesis
      by (simp add: z)
  qed
  have dev: "(BIT_DEV_MBS OR BIT_DEV_LBA OR (if d = 1 then BIT_DEV_DEV else 0)) AND 0xf = 0"
    by (simp add: BIT_DEV_MBS_def BIT_DEV_LBA_def BIT_DEV_DEV_def)
  have "ucast (ucast lba :: u8) OR push_bit 8 (ucast (ucast (drop_bit 8 lba) :: u8)) OR
      push_bit 16 (ucast (ucast (drop_bit 16 lba) :: u8)) = lba"
  proof (rule bit_eqI)
    fix n
    show "bit (ucast (ucast lba :: u8) OR push_bit 8 (ucast (ucast (drop_bit 8 lba) :: u8)) OR
        push_bit 16 (ucast (ucast (drop_bit 16 lba) :: u8)) :: u32) n = bit lba n"
      using hi [of n]
      by (cases "n < 8"; cases "n < 16"; cases "n < 24") (auto simp: bit_simps)
  qed
  then show "reg_lba \<lparr>reg_sect_cnt = c, reg_lba_l = ucast lba, reg_lba_m = ucast (drop_bit 8 lba), reg_lba_h = ucast (drop_bit 16 lba),
      reg_dev = BIT_DEV_MBS OR BIT_DEV_LBA OR (if d = 1 then BIT_DEV_DEV else 0) OR ucast (drop_bit 24 lba), reg_cmd = cmd\<rparr> = lba"
    using dev by (simp add: reg_lba_def z)
  show "d = 0 \<or> d = 1 \<Longrightarrow>
      reg_drive \<lparr>reg_sect_cnt = c, reg_lba_l = ucast lba, reg_lba_m = ucast (drop_bit 8 lba), reg_lba_h = ucast (drop_bit 16 lba),
      reg_dev = BIT_DEV_MBS OR BIT_DEV_LBA OR (if d = 1 then BIT_DEV_DEV else 0) OR ucast (drop_bit 24 lba), reg_cmd = cmd\<rparr> = d"
    by (auto simp: reg_drive_def z BIT_DEV_MBS_def BIT_DEV_LBA_def BIT_DEV_DEV_def)
qed

lemma count_u8:
  assumes "0 < n" and "n \<le> 256"
  shows "(if (of_nat n :: u8) = 0 then 256 else unat (of_nat n :: u8)) = n"
    and "size_in_byte (of_nat n) = n * 512"
proof -
  have "(of_nat 256 :: u8) = 0"
    by simp
  moreover have "unat (of_nat n :: u8) = n" if "n \<noteq> 256"
    using assms that by (simp add: unat_of_nat)
  ultimately show c: "(if (of_nat n :: u8) = 0 then 256 else unat (of_nat n :: u8)) = n"
    using assms by (cases "n = 256") (auto simp: unat_eq_0)
  then show "size_in_byte (of_nat n) = n * 512"
    by (auto simp: size_in_byte_def split: if_splits)
qed

section \<open>Ranges of sectors\<close>

definition drive_ok :: "(u32 \<Rightarrow> u8 list) \<Rightarrow> bool" where
  "drive_ok d \<longleftrightarrow> (\<forall>x. length (d x) = 512)"

lemma sectors_length: "drive_ok d \<Longrightarrow> length (sectors d lba n) = n * 512"
  by (simp add: sectors_def drive_ok_def length_concat comp_def sum_list_triv)

lemma sectors_add: "sectors d lba (m + n) = sectors d lba m @ sectors d (lba + of_nat m) n"
proof -
  have "[0..<m + n] = [0..<m] @ map (\<lambda>i. i + m) [0..<n]"
    by (simp only: upt_add_eq_append [of 0 m n, simplified] map_add_upt add.commute)
  then show ?thesis
    by (simp add: sectors_def comp_def ac_simps)
qed

lemma put_sectors_add:
  assumes "unat lba + m + n \<le> 2 ^ 32" and "length bs \<ge> (m + n) * 512"
  shows "put_sectors (put_sectors d lba m bs) (lba + of_nat m) n (take (n * 512) (drop (m * 512) bs)) = put_sectors d lba (m + n) bs"
proof
  fix x
  show "put_sectors (put_sectors d lba m bs) (lba + of_nat m) n (take (n * 512) (drop (m * 512) bs)) x = put_sectors d lba (m + n) bs x"
  proof (cases "unat (x - lba) < m")
    case True
    have e: "x - (lba + of_nat m) = x - lba - of_nat m"
      by simp
    have "unat (x - lba - of_nat m) \<ge> n"
    proof -
      let ?y = "x - lba"
      have y: "unat ?y < m" and m: "m < 2 ^ 32 \<or> n = 0"
        using True assms(1) by auto
      show ?thesis
      proof (cases "n = 0")
        case False
        then have um: "unat (of_nat m :: u32) = m"
          using m by (simp add: unat_of_nat)
        then have "unat (?y - of_nat m) = unat ?y + 2 ^ 32 - m"
          using y by (simp add: unat_sub_if')
        then show ?thesis
          using assms(1) y by linarith
      qed simp
    qed
    then show ?thesis
      using True unfolding put_sectors_def e by simp
  next
    case False
    have e: "x - (lba + of_nat m) = x - lba - of_nat m"
      by simp
    show ?thesis
    proof (cases "m < 2 ^ 32")
      case True
      then have um: "unat (of_nat m :: u32) = m"
        by (simp add: unat_of_nat)
      then have "of_nat m \<le> x - lba"
        using False by (simp add: word_le_nat_alt)
      then have u: "unat (x - lba - of_nat m) = unat (x - lba) - m"
        by (simp add: unat_sub um)
      show ?thesis
      proof (cases "unat (x - lba) < m + n")
        case True
        then have "512 * (unat (x - lba) - m) + 512 \<le> n * 512"
          using False by linarith
        moreover have "512 * (unat (x - lba) - m) + m * 512 = 512 * unat (x - lba)"
          using False by simp
        ultimately have "take 512 (drop (512 * (unat (x - lba) - m)) (take (n * 512) (drop (m * 512) bs))) =
            take 512 (drop (512 * unat (x - lba)) bs)"
          by (simp add: drop_take min_absorb1 add.commute)
        moreover have "unat (x - lba) - m < n"
          using False True by linarith
        ultimately show ?thesis
          using False True unfolding put_sectors_def e u by simp
      next
        case out: False
        then have "\<not> unat (x - lba) - m < n"
          using False by linarith
        then show ?thesis
          using out False unfolding put_sectors_def e u by simp
      qed
    next
      case big: False
      then show ?thesis
        using assms(1) unsigned_less [of "x - lba", where ?'a = nat] False by simp
    qed
  qed
qed

lemma sectors_put:
  assumes "drive_ok d" and "length bs = n * 512" and "unat lba + n \<le> 2 ^ 32"
  shows "sectors (put_sectors d lba n bs) lba n = bs"
proof -
  have "put_sectors d lba n bs (lba + of_nat i) = take 512 (drop (512 * i) bs)" if "i < n" for i
  proof -
    have "unat (of_nat i :: u32) = i"
      using that assms(3) by (simp add: unat_of_nat)
    then show ?thesis
      using that by (simp add: put_sectors_def)
  qed
  then have "sectors (put_sectors d lba n bs) lba n = concat (map (\<lambda>i. take 512 (drop (512 * i) bs)) [0..<n])"
    unfolding sectors_def by (intro arg_cong [where f = concat] map_cong) auto
  also have "\<dots> = bs"
    using assms(2)
  proof (induction n arbitrary: bs)
    case (Suc n)
    have "[0..<Suc n] = 0 # map Suc [0..<n]"
      by (simp add: upt_conv_Cons map_Suc_upt del: upt_Suc)
    moreover have "concat (map (\<lambda>i. take 512 (drop (512 * i) (drop 512 bs))) [0..<n]) = drop 512 bs"
      using Suc.prems by (intro Suc.IH) simp
    ultimately show ?case
      by (simp add: comp_def add.commute del: upt_Suc)
  qed simp
  finally show ?thesis .
qed

section \<open>One command\<close>

text \<open>
  A channel that is idle: its lock is free, no interrupt is expected, nobody waits for one, and the
  drive answers at once.
\<close>

definition chan_idle :: "disk \<Rightarrow> 'a dstate_scheme \<Rightarrow> bool" where
  "chan_idle hdd s \<longleftrightarrow>
     (let c = my_channel hdd; ch = channels s c in
      c < 2 \<and> (dev_no hdd = 0 \<or> dev_no hdd = 1) \<and> irq_no ch = 0x2e + of_nat c \<and> \<not> expecting_intr ch \<and>
      sema_value s (disk_done ch) = 0 \<and> list_empty (sema_waiters (disk_done ch)) (lnks s) \<and>
      disk_done ch \<noteq> lock_semaphore (ch_lock ch) \<and>
      (\<forall>n. drive_status s n AND BIT_STAT_BSY = 0 \<and> drive_status s n AND BIT_STAT_DRQ \<noteq> 0))"

text \<open>What a transfer changes apart from the sectors.\<close>

definition ide_eff :: "'a dstate_scheme \<Rightarrow> 'a dstate_scheme \<Rightarrow> bool" where
  "ide_eff s s' \<longleftrightarrow> (\<exists>r n. s' = s\<lparr>regs := r, status_reads := n\<rparr>)"

lemma ide_eff_refl: "ide_eff s s"
proof -
  have "s = s\<lparr>regs := regs s, status_reads := status_reads s\<rparr>"
    by simp
  then show ?thesis
    unfolding ide_eff_def by blast
qed

lemma ide_eff_trans: "ide_eff s s1 \<Longrightarrow> ide_eff s1 s2 \<Longrightarrow> ide_eff s s2"
  by (clarsimp simp: ide_eff_def) blast

lemma chan_idle_eff: "ide_eff s s' \<Longrightarrow> chan_idle hdd s' = chan_idle hdd s"
  by (auto simp: ide_eff_def chan_idle_def Let_def)

lemma chan_idle_platter: "chan_idle hdd (s\<lparr>platter := d\<rparr>) = chan_idle hdd s"
  by (simp add: chan_idle_def Let_def)

lemma wait_done_idle:
  assumes "chan_idle hdd s"
  shows "wait_done hdd (set_channel (my_channel hdd) (expecting_intr_update (\<lambda>_. True)) s) =
    Some (s\<lparr>status_reads := status_reads s + 1\<rparr>)"
proof -
  let ?c = "my_channel hdd" and ?ch = "channels s (my_channel hdd)"
  let ?d = "disk_done ?ch"
  let ?s = "set_channel ?c (expecting_intr_update (\<lambda>_. True)) s"
  have h: "?c < 2" "irq_no ?ch = 0x2e + of_nat ?c" "\<not> expecting_intr ?ch" "sema_value s ?d = 0"
      "list_empty (sema_waiters ?d) (lnks s)"
    using assms by (auto simp: chan_idle_def Let_def)
  have c: "?c = 0 \<or> ?c = 1"
    using h(1) by auto
  have idx: "unat (irq_no ?ch - 0x2e) = ?c" and irq: "irq_no ?ch = 0x2e \<or> irq_no ?ch = 0x2f"
    using c h(2) by auto
  have ch: "channels s = (channels s)(?c := ?ch\<lparr>expecting_intr := False\<rparr>)"
    using h(3) by (auto simp: fun_eq_iff)
  have val: "sema_value s = (sema_value s)(?d := 0)"
    using h(4) by (simp add: fun_upd_idem)
  have "intr_hd_handler (irq_no ?ch) ?s =
      Some ((set_sema_value ?d 1 (s\<lparr>channels := (channels s)(?c := ?ch\<lparr>expecting_intr := False\<rparr>)\<rparr>))\<lparr>status_reads := status_reads s + 1\<rparr>)"
    using idx irq h(4,5)
    by (simp add: intr_hd_handler_def set_channel_def sema_up_def set_sema_value_def inb_status_def Let_def)
  then have "intr_hd_handler (irq_no ?ch) ?s = Some (set_sema_value ?d 1 (s\<lparr>status_reads := status_reads s + 1\<rparr>))"
    by (simp add: ch [symmetric] set_sema_value_def)
  moreover have "sema_down ?d (set_sema_value ?d 1 (s\<lparr>status_reads := status_reads s + 1\<rparr>)) =
      Some (True, s\<lparr>status_reads := status_reads s + 1\<rparr>)"
    by (subst sema_down_take) (simp_all add: set_sema_value_def val [symmetric])
  ultimately show ?thesis
    by (simp add: wait_done_def) (simp add: set_channel_def set_sema_value_def)
qed

lemma busy_wait_ready:
  assumes "\<forall>n. drive_status s n AND BIT_STAT_BSY = 0 \<and> drive_status s n AND BIT_STAT_DRQ \<noteq> 0"
  shows "busy_wait hdd s = (True, s\<lparr>status_reads := status_reads s + 2\<rparr>)"
proof -
  have "busy_wait_loop (Suc (Suc n)) s = (True, s\<lparr>status_reads := status_reads s + 2\<rparr>)" for n
    using assms by (simp add: inb_status_def)
  from this [of 29998] show ?thesis
    by (simp add: busy_wait_def)
qed

text \<open>The registers after \<^verbatim>\<open>select_sector\<close> and a command.\<close>

definition cmd_regs :: "disk \<Rightarrow> u32 \<Rightarrow> nat \<Rightarrow> u8 \<Rightarrow> ata_regs" where
  "cmd_regs hdd lba n cmd = \<lparr>reg_sect_cnt = of_nat n, reg_lba_l = ucast lba, reg_lba_m = ucast (drop_bit 8 lba),
     reg_lba_h = ucast (drop_bit 16 lba),
     reg_dev = BIT_DEV_MBS OR BIT_DEV_LBA OR (if dev_no hdd = 1 then BIT_DEV_DEV else 0) OR ucast (drop_bit 24 lba), reg_cmd = cmd\<rparr>"

lemma ata_regs_all: "r\<lparr>reg_sect_cnt := a, reg_lba_l := b, reg_lba_m := c, reg_lba_h := d, reg_dev := e, reg_cmd := f\<rparr> =
    \<lparr>reg_sect_cnt = a, reg_lba_l = b, reg_lba_m = c, reg_lba_h = d, reg_dev = e, reg_cmd = f\<rparr>"
  by (cases r) simp

lemma select_cmd:
  assumes "lba \<le> max_lba"
  shows "select_sector hdd lba (of_nat n) s = Some s1 \<Longrightarrow>
    cmd_out (my_channel hdd) cmd s1 =
      set_channel (my_channel hdd) (expecting_intr_update (\<lambda>_. True)) (s\<lparr>regs := (regs s)(my_channel hdd := cmd_regs hdd lba n cmd)\<rparr>)"
    and "\<exists>s1. select_sector hdd lba (of_nat n) s = Some s1"
  using assms by (auto simp: select_sector_def cmd_out_def set_reg_def set_channel_def cmd_regs_def ata_regs_all Let_def)

lemma cmd_regs_sel:
  assumes "lba \<le> max_lba" and "dev_no hdd = 0 \<or> dev_no hdd = 1" and "0 < n" and "n \<le> 256"
  shows "reg_lba (cmd_regs hdd lba n cmd) = lba" and "reg_drive (cmd_regs hdd lba n cmd) = dev_no hdd"
    and "reg_count (cmd_regs hdd lba n cmd) = n" and "reg_cmd (cmd_regs hdd lba n cmd) = cmd"
proof -
  show "reg_count (cmd_regs hdd lba n cmd) = n"
    unfolding reg_count_def cmd_regs_def ata_regs.simps by (rule count_u8(1) [OF assms(3,4)])
qed (use reg_lba_select [OF assms(1)] assms(2) in \<open>simp_all add: cmd_regs_def\<close>)

section \<open>Whole transfers\<close>

definition drive :: "disk \<Rightarrow> 'a dstate_scheme \<Rightarrow> u32 \<Rightarrow> u8 list" where
  "drive hdd s = platter s (my_channel hdd) (dev_no hdd)"

definition set_drive :: "disk \<Rightarrow> (u32 \<Rightarrow> u8 list) \<Rightarrow> 'a dstate_scheme \<Rightarrow> 'a dstate_scheme" where
  "set_drive hdd d s = s\<lparr>platter := (platter s)(my_channel hdd := (platter s (my_channel hdd))(dev_no hdd := d))\<rparr>"

lemma drive_set [simp]: "drive hdd (set_drive hdd d s) = d"
  by (simp add: drive_def set_drive_def)

lemma set_drive_twice [simp]: "set_drive hdd d (set_drive hdd d' s) = set_drive hdd d s"
  by (simp add: set_drive_def)

lemma set_drive_same [simp]: "set_drive hdd (drive hdd s) s = s"
  by (simp add: drive_def set_drive_def)

lemma drive_eff: "ide_eff s s' \<Longrightarrow> drive hdd s' = drive hdd s"
  by (auto simp: ide_eff_def drive_def)

lemma chan_idle_drive [simp]: "chan_idle hdd (set_drive hdd d s) = chan_idle hdd s"
  by (simp add: set_drive_def chan_idle_platter)

lemma ide_eff_drive: "ide_eff s s' \<Longrightarrow> ide_eff (set_drive hdd d s) (set_drive hdd d s')"
proof -
  assume "ide_eff s s'"
  then obtain r n where "s' = s\<lparr>regs := r, status_reads := n\<rparr>"
    unfolding ide_eff_def by blast
  then have "set_drive hdd d s' = (set_drive hdd d s)\<lparr>regs := r, status_reads := n\<rparr>"
    by (simp add: set_drive_def)
  then show ?thesis
    unfolding ide_eff_def by blast
qed

lemma cmd_neq: "CMD_READ_SECTOR \<noteq> CMD_IDENTIFY"
  by (simp add: CMD_READ_SECTOR_def CMD_IDENTIFY_def)

lemma chunk_bounds:
  assumes "secs_done < cnt"
  shows "0 < secs_op secs_done cnt" and "secs_op secs_done cnt \<le> 256" and "secs_done + secs_op secs_done cnt \<le> cnt"
  using assms by (auto simp: secs_op_def)

lemma lba_range:
  assumes "unat lba + cnt \<le> unat max_lba + 1" and "i < cnt"
  shows "lba + of_nat i \<le> max_lba" and "unat (lba + of_nat i) = unat lba + i"
proof -
  have i: "unat (of_nat i :: u32) = i"
    using assms by (simp add: max_lba_num unat_of_nat)
  then show u: "unat (lba + of_nat i) = unat lba + i"
    using assms by (subst unat_add_lem [THEN iffD1]) (simp_all add: max_lba_num)
  then show "lba + of_nat i \<le> max_lba"
    using assms by (simp add: word_le_nat_alt)
qed

lemma ide_read_loop_ok:
  assumes "chan_idle hdd s" and "drive_ok (drive hdd s)" and "unat lba + cnt \<le> unat max_lba + 1" and "k \<le> cnt"
  shows "\<exists>s'. ide_read_loop hdd lba k cnt s = Some (sectors (drive hdd s) (lba + of_nat k) (cnt - k), s') \<and> ide_eff s s'"
  using assms
proof (induction "cnt - k" arbitrary: k s rule: less_induct)
  case (less k s)
  show ?case
  proof (cases "k < cnt")
    case True
    let ?n = "secs_op k cnt" and ?c = "my_channel hdd"
    let ?r = "cmd_regs hdd (lba + of_nat k) ?n CMD_READ_SECTOR"
    let ?s1 = "s\<lparr>regs := (regs s)(?c := ?r)\<rparr>"
    let ?s4 = "?s1\<lparr>status_reads := status_reads s + 3\<rparr>"
    note cb = chunk_bounds [OF True] and lr = lba_range [OF less.prems(3) True]
    have shorter: "cnt - (k + ?n) < cnt - k"
      using cb True by linarith
    have dev: "dev_no hdd = 0 \<or> dev_no hdd = 1"
      and rdy: "\<forall>n. drive_status s n AND BIT_STAT_BSY = 0 \<and> drive_status s n AND BIT_STAT_DRQ \<noteq> 0"
      using less.prems(1) by (auto simp: chan_idle_def Let_def)
    note cr = cmd_regs_sel [OF lr(1) dev cb(1,2), of CMD_READ_SECTOR]
    obtain s1 where s1: "select_sector hdd (lba + of_nat k) (of_nat ?n) s = Some s1"
      using select_cmd(2) [OF lr(1)] by blast
    have eff: "ide_eff s ?s4"
      unfolding ide_eff_def by blast
    have "chan_idle hdd ?s1"
      using less.prems(1) by (simp add: chan_idle_def Let_def)
    then have w: "wait_done hdd (cmd_out ?c CMD_READ_SECTOR s1) = Some (?s1\<lparr>status_reads := status_reads s + 1\<rparr>)"
      unfolding select_cmd(1) [OF lr(1) s1] by (simp add: wait_done_idle)
    have b: "busy_wait hdd (?s1\<lparr>status_reads := status_reads s + 1\<rparr>) = (True, ?s4)"
      by (subst busy_wait_ready) (use rdy in simp_all)
    have "read_from_sector hdd (of_nat ?n) ?s4 = sectors (drive hdd s) (lba + of_nat k) ?n"
      using sectors_length [OF less.prems(2)]
      by (simp add: read_from_sector_def cr Let_def count_u8(2) [OF cb(1,2)] drive_def cmd_neq)
    moreover obtain s5 where s5: "ide_read_loop hdd lba (k + ?n) cnt ?s4 =
        Some (sectors (drive hdd s) (lba + of_nat (k + ?n)) (cnt - (k + ?n)), s5)" "ide_eff ?s4 s5"
      using less.hyps [of "k + ?n" ?s4] shorter less.prems cb(3) chan_idle_eff [OF eff] drive_eff [OF eff] by auto
    moreover have "sectors (drive hdd s) (lba + of_nat k) (cnt - k) =
        sectors (drive hdd s) (lba + of_nat k) ?n @ sectors (drive hdd s) (lba + of_nat (k + ?n)) (cnt - (k + ?n))"
      using sectors_add [of "drive hdd s" "lba + of_nat k" ?n "cnt - (k + ?n)"] cb(3) by (simp add: add.assoc)
    ultimately have "ide_read_loop hdd lba k cnt s = Some (sectors (drive hdd s) (lba + of_nat k) (cnt - k), s5)"
      using True s1 w b by (simp add: ide_read_loop.simps [of hdd lba k] Let_def)
    then show ?thesis
      using ide_eff_trans [OF eff s5(2)] by blast
  next
    case False
    have "ide_read_loop hdd lba k cnt s = Some ([], s)"
      using False by (subst ide_read_loop.simps) simp
    moreover have "k = cnt"
      using False less.prems(4) by simp
    ultimately show ?thesis
      using ide_eff_refl [of s] by (intro exI [of _ s]) (simp add: sectors_def)
  qed
qed

lemma ide_write_loop_ok:
  assumes "chan_idle hdd s" and "unat lba + cnt \<le> unat max_lba + 1" and "k \<le> cnt" and "cnt * 512 \<le> length buf"
    and "drive hdd s = put_sectors d lba k buf"
  shows "\<exists>s'. ide_write_loop hdd lba buf k cnt s = Some s' \<and> ide_eff (set_drive hdd (put_sectors d lba cnt buf) s) s'"
  using assms
proof (induction "cnt - k" arbitrary: k s rule: less_induct)
  case (less k s)
  show ?case
  proof (cases "k < cnt")
    case True
    let ?n = "secs_op k cnt" and ?c = "my_channel hdd"
    let ?r = "cmd_regs hdd (lba + of_nat k) ?n CMD_WRITE_SECTOR"
    let ?s1 = "s\<lparr>regs := (regs s)(?c := ?r)\<rparr>" and ?x = "expecting_intr_update (\<lambda>_. True)"
    let ?d = "put_sectors d lba (k + ?n) buf"
    let ?s2 = "?s1\<lparr>status_reads := status_reads s + 2\<rparr>"
    let ?s5 = "(set_drive hdd ?d s)\<lparr>regs := (regs s)(?c := ?r), status_reads := status_reads s + 3\<rparr>"
    note cb = chunk_bounds [OF True] and lr = lba_range [OF less.prems(2) True]
    have shorter: "cnt - (k + ?n) < cnt - k"
      using cb True by linarith
    have dev: "dev_no hdd = 0 \<or> dev_no hdd = 1"
      and rdy: "\<forall>n. drive_status s n AND BIT_STAT_BSY = 0 \<and> drive_status s n AND BIT_STAT_DRQ \<noteq> 0"
      using less.prems(1) by (auto simp: chan_idle_def Let_def)
    note cr = cmd_regs_sel [OF lr(1) dev cb(1,2), of CMD_WRITE_SECTOR]
    obtain s1 where s1: "select_sector hdd (lba + of_nat k) (of_nat ?n) s = Some s1"
      using select_cmd(2) [OF lr(1)] by blast
    have b: "busy_wait hdd (cmd_out ?c CMD_WRITE_SECTOR s1) = (True, set_channel ?c ?x ?s2)"
      unfolding select_cmd(1) [OF lr(1) s1]
      by (subst busy_wait_ready) (use rdy in \<open>simp_all add: set_channel_def\<close>)
    have len: "(k + ?n) * 512 \<le> cnt * 512"
      using cb(3) by (rule mult_le_mono1)
    then have room: "?n * 512 \<le> length (drop (k * 512) buf)"
      using less.prems(4) unfolding length_drop add_mult_distrib by linarith
    have "(k + ?n) * 512 \<le> length buf" "unat lba + k + ?n \<le> 2 ^ 32"
      using len less.prems(2,4) cb(3) by (simp_all add: max_lba_num)
    then have pd: "put_sectors (drive hdd s) (lba + of_nat k) ?n (take (?n * 512) (drop (k * 512) buf)) = ?d"
      unfolding less.prems(5) by (intro put_sectors_add)
    have w: "write2sector hdd (drop (k * 512) buf) (of_nat ?n) (set_channel ?c ?x ?s2) =
        Some (set_channel ?c ?x ((set_drive hdd ?d s)\<lparr>regs := (regs s)(?c := ?r), status_reads := status_reads s + 2\<rparr>))"
      using room pd by (simp add: write2sector_def count_u8(2) [OF cb(1,2)] cr Let_def set_channel_def)
        (simp add: drive_def set_drive_def)
    have "chan_idle hdd ((set_drive hdd ?d s)\<lparr>regs := (regs s)(?c := ?r), status_reads := status_reads s + 2\<rparr>)"
      using less.prems(1) by (simp add: chan_idle_def Let_def set_drive_def)
    then have wd: "wait_done hdd (set_channel ?c ?x ((set_drive hdd ?d s)\<lparr>regs := (regs s)(?c := ?r), status_reads := status_reads s + 2\<rparr>)) =
        Some ?s5"
      by (simp add: wait_done_idle)
    have eff: "ide_eff (set_drive hdd ?d s) ?s5"
      unfolding ide_eff_def by blast
    obtain s' where s': "ide_write_loop hdd lba buf (k + ?n) cnt ?s5 = Some s'"
        "ide_eff (set_drive hdd (put_sectors d lba cnt buf) ?s5) s'"
      using less.hyps [of "k + ?n" ?s5] shorter less.prems cb(3) chan_idle_eff [OF eff, of hdd] drive_eff [OF eff, of hdd] by auto
    have "ide_write_loop hdd lba buf k cnt s = Some s'"
      using True s1 b w wd s'(1) by (simp add: ide_write_loop.simps [of hdd lba buf k] Let_def)
    moreover have "ide_eff (set_drive hdd (put_sectors d lba cnt buf) s) (set_drive hdd (put_sectors d lba cnt buf) ?s5)"
      using ide_eff_drive [OF eff, of hdd] by simp
    ultimately show ?thesis
      using ide_eff_trans s'(2) by blast
  next
    case False
    have "ide_write_loop hdd lba buf k cnt s = Some s"
      using False by (subst ide_write_loop.simps) simp
    moreover have "k = cnt"
      using False less.prems(3) by simp
    then have "set_drive hdd (put_sectors d lba cnt buf) s = s"
      using less.prems(5) set_drive_same [of hdd s] by simp
    ultimately show ?thesis
      using ide_eff_refl [of s] by (intro exI [of _ s]) simp
  qed
qed

lemma put_sectors_0: "put_sectors d lba 0 bs = d"
  by (simp add: put_sectors_def)

lemma chan_idle_locked:
  assumes "chan_idle hdd s"
  shows "chan_idle hdd (locked (ch_lock (channels s (my_channel hdd))) s)"
  using assms by (auto simp: chan_idle_def locked_def Let_def)

lemma select_disk_eff: "ide_eff s (select_disk hdd s)"
proof -
  have "select_disk hdd s = s\<lparr>regs := regs (select_disk hdd s), status_reads := status_reads s\<rparr>"
    by (simp add: select_disk_def set_reg_def Let_def)
  then show ?thesis
    unfolding ide_eff_def by blast
qed

lemma release_after:
  assumes free: "lock_free l s" and eff: "ide_eff (set_drive hdd d (locked l s)) s'"
  shows "lock_release l s' = Some (unlocked l s')" and "ide_eff (set_drive hdd d s) (unlocked l s')"
    and "lock_free l (unlocked l s')"
proof -
  obtain r n where s': "s' = (set_drive hdd d (locked l s))\<lparr>regs := r, status_reads := n\<rparr>"
    using eff unfolding ide_eff_def by blast
  have "lock_mine l s'"
    using locked_mine [OF free] by (simp add: s' lock_mine_def set_drive_def)
  then show "lock_release l s' = Some (unlocked l s')"
    by (rule lock_release_mine)
  have "unlocked l s' = (set_drive hdd d s)\<lparr>regs := r, status_reads := n\<rparr>"
    using free by (simp add: s' lock_free_def unlocked_def locked_def set_drive_def fun_upd_idem)
  then show "ide_eff (set_drive hdd d s) (unlocked l s')" "lock_free l (unlocked l s')"
    using free unfolding ide_eff_def by (blast, simp add: lock_free_def set_drive_def)
qed

lemma locked_dstate [simp]:
  "channels (locked l s) = channels s" "drive hdd (locked l s) = drive hdd s"
  by (simp_all add: locked_def drive_def)

definition ide_ready :: "disk \<Rightarrow> 'a dstate_scheme \<Rightarrow> bool" where
  "ide_ready hdd s \<longleftrightarrow> chan_idle hdd s \<and> lock_free (ch_lock (channels s (my_channel hdd))) s \<and> drive_ok (drive hdd s)"

lemma ide_ready_eff: "ide_eff s s' \<Longrightarrow> ide_ready hdd s' = ide_ready hdd s"
  by (auto simp: ide_eff_def ide_ready_def chan_idle_def lock_free_def drive_def Let_def)

lemma ide_read_ok:
  assumes "ide_ready hdd s" and "0 < cnt" and "unat lba + cnt \<le> unat max_lba + 1"
  obtains s' where "ide_read hdd lba cnt s = Some (sectors (drive hdd s) lba cnt, s')" and "ide_eff s s'"
proof -
  let ?l = "ch_lock (channels s (my_channel hdd))"
  have idle: "chan_idle hdd s" and free: "lock_free ?l s" and dok: "drive_ok (drive hdd s)"
    using assms(1) by (simp_all add: ide_ready_def)
  have lba: "lba \<le> max_lba"
    using lba_range(1) [OF assms(3), of 0] assms(2) by simp
  let ?s2 = "select_disk hdd (locked ?l s)"
  note sd = select_disk_eff [of "locked ?l s" hdd]
  have "chan_idle hdd ?s2" "drive hdd ?s2 = drive hdd s"
    using chan_idle_eff [OF sd] chan_idle_locked [OF idle] drive_eff [OF sd] by simp_all
  then obtain s3 where s3: "ide_read_loop hdd lba 0 cnt ?s2 = Some (sectors (drive hdd s) lba cnt, s3)" "ide_eff ?s2 s3"
    using ide_read_loop_ok [of hdd ?s2 lba cnt 0] dok assms(3) by auto
  have e: "ide_eff (set_drive hdd (drive hdd s) (locked ?l s)) s3"
    using ide_eff_trans [OF sd s3(2)] set_drive_same [of hdd "locked ?l s"] by simp
  note ra = release_after [OF free e]
  have "channels s3 = channels s"
    using e by (auto simp: ide_eff_def set_drive_def)
  then have "ide_read hdd lba cnt s = Some (sectors (drive hdd s) lba cnt, unlocked ?l s3)"
    using lba assms(2) s3(1) ra(1) by (simp add: ide_read_def with_lock_free [OF free])
  then show thesis
    using ra(2) by (intro that [of "unlocked ?l s3"]) simp_all
qed

lemma ide_write_ok:
  assumes "ide_ready hdd s" and "0 < cnt" and "unat lba + cnt \<le> unat max_lba + 1" and "cnt * 512 \<le> length buf"
  obtains s' where "ide_write hdd lba buf cnt s = Some s'" and "ide_eff (set_drive hdd (put_sectors (drive hdd s) lba cnt buf) s) s'"
proof -
  let ?l = "ch_lock (channels s (my_channel hdd))" and ?d = "put_sectors (drive hdd s) lba cnt buf"
  have idle: "chan_idle hdd s" and free: "lock_free ?l s"
    using assms(1) by (simp_all add: ide_ready_def)
  have lba: "lba \<le> max_lba"
    using lba_range(1) [OF assms(3), of 0] assms(2) by simp
  let ?s2 = "select_disk hdd (locked ?l s)"
  note sd = select_disk_eff [of "locked ?l s" hdd]
  have "chan_idle hdd ?s2" "drive hdd ?s2 = put_sectors (drive hdd s) lba 0 buf"
    using chan_idle_eff [OF sd] chan_idle_locked [OF idle] drive_eff [OF sd] by (simp_all add: put_sectors_0)
  then obtain s3 where s3: "ide_write_loop hdd lba buf 0 cnt ?s2 = Some s3" "ide_eff (set_drive hdd ?d ?s2) s3"
    using ide_write_loop_ok [of hdd ?s2 lba cnt 0 buf "drive hdd s"] assms(3,4) by auto
  have e: "ide_eff (set_drive hdd ?d (locked ?l s)) s3"
    using ide_eff_trans [OF ide_eff_drive [OF sd] s3(2)] .
  note ra = release_after [OF free e]
  have "channels s3 = channels s"
    using e by (auto simp: ide_eff_def set_drive_def)
  then have "ide_write hdd lba buf cnt s = Some (unlocked ?l s3)"
    using lba assms(2) s3(1) ra(1) by (simp add: ide_write_def with_lock_free [OF free])
  then show thesis
    using ra(2) by (rule that)
qed

lemma drive_ok_put: "drive_ok d \<Longrightarrow> n * 512 \<le> length bs \<Longrightarrow> drive_ok (put_sectors d lba n bs)"
proof -
  assume d: "drive_ok d" and l: "n * 512 \<le> length bs"
  have "length (take 512 (drop (512 * i) bs)) = 512" if "i < n" for i
  proof -
    have "Suc i * 512 \<le> n * 512"
      using that by (intro mult_le_mono1) simp
    then show ?thesis
      using l by simp
  qed
  then show "drive_ok (put_sectors d lba n bs)"
    using d by (simp add: drive_ok_def put_sectors_def)
qed

lemma ide_ready_write:
  assumes "ide_ready hdd s" and "cnt * 512 \<le> length buf"
    and "ide_eff (set_drive hdd (put_sectors (drive hdd s) lba cnt buf) s) s'"
  shows "ide_ready hdd s'" and "drive hdd s' = put_sectors (drive hdd s) lba cnt buf"
proof -
  have "ide_ready hdd (set_drive hdd (put_sectors (drive hdd s) lba cnt buf) s)"
    using assms(1,2) drive_ok_put by (simp add: ide_ready_def) (simp add: set_drive_def lock_free_def)
  then show "ide_ready hdd s'"
    using ide_ready_eff [OF assms(3)] by simp
  show "drive hdd s' = put_sectors (drive hdd s) lba cnt buf"
    using drive_eff [OF assms(3)] by simp
qed

section \<open>Properties\<close>

text \<open>A machine with one channel that has its lock at 0x500 and its semaphore at 0x600, and an empty second drive.\<close>

definition sample_disk :: disk where
  "sample_disk = \<lparr>disk_name = str_bytes ''sdb'' @ [0], my_channel = 0, dev_no = 1\<rparr>"

definition sample_dstate :: dstate where
  "sample_dstate = mstate.extend
     (sample_mem\<lparr>sema_value := (\<lambda>a. if a = 0x600 then 0 else 1), lnks := list_init 0x708 (list_init 0x604 sample_links)\<rparr>)
     \<lparr>channels = (\<lambda>_. \<lparr>ch_name = [], port_base = 0x1f0, irq_no = 0x2e, ch_lock = 0x500, expecting_intr = False, disk_done = 0x600\<rparr>),
      regs = (\<lambda>_. \<lparr>reg_sect_cnt = 0, reg_lba_l = 0, reg_lba_m = 0, reg_lba_h = 0, reg_dev = 0, reg_cmd = 0\<rparr>),
      platter = (\<lambda>_ _ _. replicate 512 0), identify_data = (\<lambda>_ _. replicate 512 0), drive_status = (\<lambda>_. 0x58), status_reads = 0,
      ext_lba_base = 0, p_no = 0, l_no = 0,
      parts = (\<lambda>_. \<lparr>start_lba = 0, sec_cnt = 0, my_disk = sample_disk, part_name = replicate 8 0,
        sb = \<lparr>sb_magic = 0, sb_sec_cnt = 0, inode_cnt = 0, part_lba_base = 0, block_bitmap_lba = 0, block_bitmap_sects = 0,
          inode_bitmap_lba = 0, inode_bitmap_sects = 0, inode_table_lba = 0, inode_table_sects = 0, data_start_lba = 0,
          root_inode_no = 0, dir_entry_size = 0\<rparr>,
        block_bitmap = \<lparr>btmp_bytes_len = 0, bits = []\<rparr>, inode_bitmap = \<lparr>btmp_bytes_len = 0, bits = []\<rparr>, open_inodes = 0\<rparr>),
      partition_list = []\<rparr>"

lemma sample_ide_ready: "ide_ready sample_disk sample_dstate"
  by (simp add: ide_ready_def chan_idle_def lock_free_def drive_ok_def drive_def sample_dstate_def sample_mem_def sample_kstate_def
      sample_disk_def kstate.defs mstate.defs BIT_STAT_BSY_def BIT_STAT_DRQ_def lock_semaphore_def sema_waiters_def
      sample_links_def list_empty_def list_init_def list_append_def list_insert_before_def list_head_def list_tail_def
      general_tag_def all_list_tag_def NULL_def Let_def)

text \<open>
  The driver reads what was asked for: with an idle channel and a drive that answers, \<^verbatim>\<open>ide_read\<close> of
  any number of sectors within the supported range returns, and its result is the contents of the
  sectors one after the other, however the request is cut into commands of at most 256 sectors.
\<close>

theorem ide_read_sectors:
  assumes "ide_ready hdd s" and "0 < cnt" and "unat lba + cnt \<le> unat max_lba + 1"
  shows "\<exists>s'. ide_read hdd lba cnt s = Some (concat (map (\<lambda>i. drive hdd s (lba + of_nat i)) [0..<cnt]), s') \<and>
    drive hdd s' = drive hdd s \<and> ide_ready hdd s'"
proof -
  obtain s' where "ide_read hdd lba cnt s = Some (sectors (drive hdd s) lba cnt, s')" and eff: "ide_eff s s'"
    by (rule ide_read_ok [OF assms])
  then show ?thesis
    using drive_eff [OF eff] ide_ready_eff [OF eff] assms(1) by (intro exI [of _ s']) (simp add: sectors_def)
qed

theorem ide_read_sectors_witness:
  "\<exists>s'. ide_read sample_disk 40 300 sample_dstate =
       Some (concat (map (\<lambda>i. drive sample_disk sample_dstate (40 + of_nat i)) [0..<300]), s') \<and>
     drive sample_disk s' = drive sample_disk sample_dstate \<and> ide_ready sample_disk s'"
  by (rule ide_read_sectors [OF sample_ide_ready]) (simp_all add: max_lba_num)

text \<open>
  C11. Write and read back: the sectors that \<^verbatim>\<open>ide_write\<close> was given come back from \<^verbatim>\<open>ide_read\<close>, every other
  sector of the drive keeps its contents, and the channel is idle again.
\<close>

theorem ide_write_read_back:
  assumes "ide_ready hdd s" and "0 < cnt" and "unat lba + cnt \<le> unat max_lba + 1" and "length buf = cnt * 512"
  shows "\<exists>s1 s2. ide_write hdd lba buf cnt s = Some s1 \<and> ide_read hdd lba cnt s1 = Some (buf, s2) \<and> ide_ready hdd s2 \<and>
    (\<forall>x. cnt \<le> unat (x - lba) \<longrightarrow> drive hdd s2 x = drive hdd s x)"
proof -
  have len: "cnt * 512 \<le> length buf"
    using assms(4) by simp
  obtain s1 where s1: "ide_write hdd lba buf cnt s = Some s1" "ide_eff (set_drive hdd (put_sectors (drive hdd s) lba cnt buf) s) s1"
    by (rule ide_write_ok [OF assms(1-3) len])
  note w = ide_ready_write [OF assms(1) len s1(2)]
  obtain s2 where s2: "ide_read hdd lba cnt s1 = Some (sectors (drive hdd s1) lba cnt, s2)" and eff: "ide_eff s1 s2"
    by (rule ide_read_ok [OF w(1) assms(2,3)])
  have "unat lba + cnt \<le> 2 ^ 32"
    using assms(3) by (simp add: max_lba_num)
  then have "sectors (drive hdd s1) lba cnt = buf"
    unfolding w(2) using assms(1,4) by (intro sectors_put) (simp_all add: ide_ready_def)
  moreover have "drive hdd s2 x = drive hdd s x" if "cnt \<le> unat (x - lba)" for x
    using that drive_eff [OF eff] w(2) by (simp add: put_sectors_def)
  ultimately show ?thesis
    using s1(1) s2 w(1) ide_ready_eff [OF eff] by auto
qed

theorem ide_write_read_back_witness:
  "\<exists>s1 s2. ide_write sample_disk 40 (replicate 153600 7) 300 sample_dstate = Some s1 \<and>
     ide_read sample_disk 40 300 s1 = Some (replicate 153600 7, s2) \<and> ide_ready sample_disk s2 \<and>
     (\<forall>x. 300 \<le> unat (x - 40) \<longrightarrow> drive sample_disk s2 x = drive sample_disk sample_dstate x)"
  by (rule ide_write_read_back [OF sample_ide_ready]) (simp_all add: max_lba_num)

end
