(* ===== verification/Path.thy ===== *)
theory Path
  imports Cstring
begin

text \<open>
  Path names: \<^verbatim>\<open>path_parse\<close> and \<^verbatim>\<open>path_depth_cnt\<close> of src/fs/fs.c, \<^verbatim>\<open>wash_path\<close> and \<^verbatim>\<open>make_clear_abs_path\<close> of
  src/shell/buildin_cmd.c. A pointer into a buffer is an index, a null pointer is \<open>None\<close>. The byte 47
  is the slash.
\<close>

section \<open>Parsing\<close>

definition MAX_FILE_NAME_LEN :: nat where
  "MAX_FILE_NAME_LEN = 16"

definition MAX_PATH_LEN :: nat where
  "MAX_PATH_LEN = 512"

text \<open>\<^verbatim>\<open>while(*(++pathname) == '/');\<close>\<close>

function skip_slash :: "u8 list \<Rightarrow> nat \<Rightarrow> nat option" where
  "skip_slash path i = do {
     c \<leftarrow> rd path (i + 1);
     if c = 47 then skip_slash path (i + 1) else Some (i + 1)
   }"
  by pat_completeness auto
termination
  by (relation "measure (\<lambda>(path, i). length path - i)") (auto simp: rd_eq_Some)

text \<open>\<^verbatim>\<open>while (*pathname != '/' && *pathname != 0) *name_store++ = *pathname++;\<close>\<close>

function copy_name :: "u8 list \<Rightarrow> nat \<Rightarrow> u8 list \<Rightarrow> nat \<Rightarrow> (nat \<times> u8 list) option" where
  "copy_name path i name_store j = do {
     c \<leftarrow> rd path i;
     if c \<noteq> 47 \<and> c \<noteq> 0 then do {
       n \<leftarrow> wr name_store j c;
       copy_name path (i + 1) n (j + 1)
     } else Some (i, name_store)
   }"
  by pat_completeness auto
termination
  by (relation "measure (\<lambda>(path, i, n, j). length path - i)") (auto simp: rd_eq_Some)

declare skip_slash.simps [simp del] copy_name.simps [simp del]

definition path_parse :: "u8 list \<Rightarrow> nat \<Rightarrow> u8 list \<Rightarrow> (nat option \<times> u8 list) option" where
  "path_parse pathname i name_store = do {
     c0 \<leftarrow> rd pathname i;
     i1 \<leftarrow> (if c0 = 47 then skip_slash pathname i else Some i);
     (i2, name1) \<leftarrow> copy_name pathname i1 name_store 0;
     c \<leftarrow> rd pathname i2;
     Some (if c = 0 then None else Some i2, name1)
   }"

section \<open>What parsing means\<close>

text \<open>The components of a path: the nonempty strings between slashes.\<close>

function comps :: "u8 list \<Rightarrow> u8 list list" where
  "comps xs = (let ys = dropWhile (\<lambda>c. c = 47) xs in
     if ys = [] then [] else takeWhile (\<lambda>c. c \<noteq> 47) ys # comps (dropWhile (\<lambda>c. c \<noteq> 47) ys))"
  by pat_completeness auto
termination
proof (relation "measure length")
  fix xs ys :: "u8 list"
  assume ys: "ys = dropWhile (\<lambda>c. c = 47) xs" "ys \<noteq> []"
  then have "hd ys \<noteq> 47"
    using hd_dropWhile [of "\<lambda>c. c = 47" xs] by simp
  then have "length (dropWhile (\<lambda>c. c \<noteq> 47) ys) < length ys"
    using ys(2) by (cases ys) (auto intro: le_imp_less_Suc length_dropWhile_le)
  then show "(dropWhile (\<lambda>c. c \<noteq> 47) ys, xs) \<in> measure length"
    using ys(1) length_dropWhile_le [of "\<lambda>c. c = 47" xs] by simp
qed simp

declare comps.simps [simp del]

lemma cstr_drop:
  assumes "terminated b i" and "k \<le> length (cstr b i)"
  shows "cstr b (i + k) = drop k (cstr b i)" and "terminated b (i + k)"
proof -
  have "cstr b (i + k) = drop k (cstr b i) \<and> terminated b (i + k)"
    using assms(2)
  proof (induction k)
    case (Suc k)
    then have ih: "cstr b (i + k) = drop k (cstr b i)" "terminated b (i + k)" and k: "k < length (cstr b i)"
      by auto
    have ne: "cstr b (i + k) \<noteq> []"
      using ih(1) k by simp
    have lt: "i + k < length b"
      by (rule terminated_lt [OF ih(2)])
    then have nz: "b ! (i + k) \<noteq> 0" and c: "cstr b (i + k) = b ! (i + k) # cstr b (Suc (i + k))"
      using ne by (auto simp: cstr_step split: if_splits)
    have "cstr b (Suc (i + k)) = drop (Suc k) (cstr b i)"
      using c ih(1) k by (metis drop_Suc list.sel(3) tl_drop)
    moreover have "terminated b (Suc (i + k))"
      using ih(2) lt nz by (simp add: terminated_step)
    ultimately show ?case
      by simp
  qed (use assms(1) in simp)
  then show "cstr b (i + k) = drop k (cstr b i)" and "terminated b (i + k)"
    by blast+
qed

lemma rd_terminated: "terminated b i \<Longrightarrow> rd b i = Some (case cstr b i of [] \<Rightarrow> 0 | c # _ \<Rightarrow> c)"
  using terminated_lt [of b i] by (simp add: cstr_step)

lemma skip_slash_eq:
  "terminated p i \<Longrightarrow> cstr p i = 47 # xs \<Longrightarrow>
   skip_slash p i = Some (i + 1 + length (takeWhile (\<lambda>c. c = 47) xs))"
proof (induction xs arbitrary: i)
  case Nil
  have "cstr p (i + 1) = []" "terminated p (i + 1)"
    using cstr_drop [OF Nil(1), of 1] Nil(2) by simp_all
  then show ?case
    by (subst skip_slash.simps) (simp add: rd_terminated)
next
  case (Cons x xs)
  have "cstr p (i + 1) = x # xs" "terminated p (i + 1)"
    using cstr_drop [OF Cons.prems(1), of 1] Cons.prems(2) by simp_all
  then show ?case
    using Cons.IH [of "i + 1"] by (subst skip_slash.simps) (simp add: rd_terminated)
qed

lemma copy_name_eq:
  "terminated p i \<Longrightarrow> j + length (takeWhile (\<lambda>c. c \<noteq> 47) (cstr p i)) \<le> length nm \<Longrightarrow>
   copy_name p i nm j = Some (i + length (takeWhile (\<lambda>c. c \<noteq> 47) (cstr p i)),
     take j nm @ takeWhile (\<lambda>c. c \<noteq> 47) (cstr p i) @ drop (j + length (takeWhile (\<lambda>c. c \<noteq> 47) (cstr p i))) nm)"
proof (induction "cstr p i" arbitrary: i j nm)
  case Nil
  then show ?case
    using rd_terminated [OF Nil(2)] by (subst copy_name.simps) (simp add: Nil(1) [symmetric])
next
  case (Cons x xs)
  have c: "cstr p (i + 1) = xs" "terminated p (i + 1)"
    using cstr_drop [OF Cons.prems(1), of 1] Cons.hyps(2) [symmetric] by simp_all
  have x: "x \<noteq> 0"
    using Cons.hyps(2) cstr_no_nul [of p i] by (metis list.set_intros(1))
  have r: "rd p i = Some x"
    using rd_terminated [OF Cons.prems(1)] Cons.hyps(2) [symmetric] by simp
  show ?case
  proof (cases "x = 47")
    case True
    then show ?thesis
      using r by (subst copy_name.simps) (simp add: Cons.hyps(2) [symmetric])
  next
    case False
    have room: "Suc j + length (takeWhile (\<lambda>c. c \<noteq> 47) xs) \<le> length nm"
      using Cons.prems(2) False by (simp add: Cons.hyps(2) [symmetric])
    then have "copy_name p (i + 1) (nm[j := x]) (j + 1) = Some (i + 1 + length (takeWhile (\<lambda>c. c \<noteq> 47) xs),
        take (j + 1) (nm[j := x]) @ takeWhile (\<lambda>c. c \<noteq> 47) xs @
        drop (j + 1 + length (takeWhile (\<lambda>c. c \<noteq> 47) xs)) (nm[j := x]))"
      using Cons.hyps(1) [of "i + 1" "j + 1" "nm[j := x]"] c by simp
    then show ?thesis
      using r x False room
      by (subst copy_name.simps) (simp add: Cons.hyps(2) [symmetric] take_Suc_conv_app_nth)
  qed
qed

lemma dropWhile_length: "dropWhile P xs = drop (length (takeWhile P xs)) xs"
  by (rule dropWhile_eq_drop)

lemma path_parse_eq:
  assumes t: "terminated p i" and ys: "ys = dropWhile (\<lambda>c. c = 47) (cstr p i)"
    and room: "length (takeWhile (\<lambda>c. c \<noteq> 47) ys) \<le> length nm"
  obtains r where "path_parse p i nm = Some (r, takeWhile (\<lambda>c. c \<noteq> 47) ys @ drop (length (takeWhile (\<lambda>c. c \<noteq> 47) ys)) nm)"
    and "r = None \<longleftrightarrow> dropWhile (\<lambda>c. c \<noteq> 47) ys = []"
    and "\<And>j. r = Some j \<Longrightarrow> terminated p j \<and> cstr p j = dropWhile (\<lambda>c. c \<noteq> 47) ys \<and> i < j"
proof -
  let ?s = "length (takeWhile (\<lambda>c. c = 47) (cstr p i))"
  let ?n = "takeWhile (\<lambda>c. c \<noteq> 47) ys"
  have s: "?s \<le> length (cstr p i)"
    by (rule length_takeWhile_le)
  have i1: "cstr p (i + ?s) = ys" "terminated p (i + ?s)"
    using cstr_drop [OF t s] by (simp_all add: ys dropWhile_length)
  have skip: "(if (case cstr p i of [] \<Rightarrow> 0 | c # _ \<Rightarrow> c) = 47 then skip_slash p i else Some i) = Some (i + ?s)"
    using skip_slash_eq [OF t] by (cases "cstr p i") auto
  have n: "length ?n \<le> length ys"
    by (rule length_takeWhile_le)
  have i2: "cstr p (i + ?s + length ?n) = dropWhile (\<lambda>c. c \<noteq> 47) ys" "terminated p (i + ?s + length ?n)"
    using cstr_drop [OF i1(2), of "length ?n"] n by (simp_all add: i1(1) dropWhile_length)
  have copy: "copy_name p (i + ?s) nm 0 = Some (i + ?s + length ?n, ?n @ drop (length ?n) nm)"
    using copy_name_eq [OF i1(2), of 0 nm] room by (simp add: i1(1))
  define r where "r = (if dropWhile (\<lambda>c. c \<noteq> 47) ys = [] then None else Some (i + ?s + length ?n))"
  have z: "(case dropWhile (\<lambda>c. c \<noteq> 47) ys of [] \<Rightarrow> 0 | c # _ \<Rightarrow> c) = (0 :: u8) \<longleftrightarrow> dropWhile (\<lambda>c. c \<noteq> 47) ys = []"
    using cstr_no_nul [of p "i + ?s + length ?n"] unfolding i2(1)
    by (cases "dropWhile (\<lambda>c. c \<noteq> 47) ys") (auto simp del: dropWhile_eq_Nil_conv)
  have eq: "path_parse p i nm = Some (r, ?n @ drop (length ?n) nm)"
    unfolding path_parse_def using rd_terminated [OF t] skip copy rd_terminated [OF i2(2)] z
    by (simp add: i2(1) r_def)
  have lt: "i < i + ?s + length ?n" if "dropWhile (\<lambda>c. c \<noteq> 47) ys \<noteq> []"
  proof (rule ccontr)
    assume "\<not> i < i + ?s + length ?n"
    then have "takeWhile (\<lambda>c. c = 47) (cstr p i) = []" "takeWhile (\<lambda>c. c \<noteq> 47) ys = []"
      by auto
    then show False
      using that by (cases "cstr p i") (auto simp: ys split: if_splits)
  qed
  show thesis
    by (rule that [OF eq]) (use i2 lt in \<open>auto simp: r_def split: if_splits\<close>)
qed

section \<open>Depth\<close>

text \<open>
  The name buffer of \<^verbatim>\<open>path_depth_cnt\<close> is an uninitialised local: its contents on entry are the argument
  \<open>name\<close>. \<open>depth_loop\<close> is the loop; it takes the pointer and the name that the last \<^verbatim>\<open>path_parse\<close> left.
\<close>

lemma skip_slash_gt: "skip_slash p i = Some j \<Longrightarrow> i < j"
proof (induction p i rule: skip_slash.induct)
  case (1 p i)
  then show ?case
    by (subst (asm) (2) skip_slash.simps) (fastforce elim!: bind_SomeE split: if_splits)
qed

lemma copy_name_ge: "copy_name p i nm j = Some (k, nm') \<Longrightarrow> i \<le> k \<and> k < length p \<and> (k = i \<longrightarrow> p ! i = 47 \<or> p ! i = 0)"
proof (induction p i nm j rule: copy_name.induct)
  case (1 p i nm j)
  then show ?case
    by (subst (asm) (2) copy_name.simps) (fastforce elim!: bind_SomeE simp: rd_eq_Some split: if_splits)
qed

lemma path_parse_progress: "path_parse p i nm = Some (Some j, nm') \<Longrightarrow> i < j \<and> j < length p"
  by (auto simp: path_parse_def rd_eq_Some split: if_splits elim!: bind_SomeE dest!: skip_slash_gt copy_name_ge)
    (metis le_neq_implies_less)

function depth_loop :: "u8 list \<Rightarrow> nat option \<Rightarrow> u8 list \<Rightarrow> nat \<Rightarrow> nat option" where
  "depth_loop path p name depth = do {
     c \<leftarrow> rd name 0;
     if c \<noteq> 0 then do {
       name1 \<leftarrow> memset name 0 0 MAX_FILE_NAME_LEN;
       (p2, name2) \<leftarrow> (case p of Some i \<Rightarrow> path_parse path i name1 | None \<Rightarrow> Some (None, name1));
       depth_loop path p2 name2 (depth + 1)
     } else Some depth
   }"
  by pat_completeness auto
termination
proof (relation "measure (\<lambda>(path, p, name, depth). case p of Some i \<Rightarrow> length path - i + 2
    | None \<Rightarrow> if rd name 0 = Some 0 then 0 else 1)")
  fix path p name depth c name1 x p2 name2
  assume a: "rd name 0 = Some c" "c \<noteq> 0" "memset name 0 0 MAX_FILE_NAME_LEN = Some name1"
    "(case p of Some i \<Rightarrow> path_parse path i name1 | None \<Rightarrow> Some (None, name1)) = Some x" "(p2, name2) = x"
  have "rd name1 0 = Some 0"
    using a(1,3) by (auto simp: memset_eq MAX_FILE_NAME_LEN_def rd_eq_Some nth_append split: if_splits)
  then show "((path, p2, name2, depth + 1), (path, p, name, depth))
      \<in> measure (\<lambda>(path, p, name, depth). case p of Some i \<Rightarrow> length path - i + 2
        | None \<Rightarrow> if rd name 0 = Some 0 then 0 else 1)"
    using a by (auto split: option.splits dest!: path_parse_progress)
qed simp

declare depth_loop.simps [simp del]

definition path_depth_cnt :: "u8 list \<Rightarrow> u8 list \<Rightarrow> nat option" where
  "path_depth_cnt name pathname = do {
     (p, name1) \<leftarrow> path_parse pathname 0 name;
     depth_loop pathname p name1 0
   }"

text \<open>What is left of a path after the pointer, and a name in a zeroed buffer.\<close>

definition rest :: "u8 list \<Rightarrow> nat option \<Rightarrow> u8 list" where
  "rest path p = (case p of Some i \<Rightarrow> cstr path i | None \<Rightarrow> [])"

definition rest_ok :: "u8 list \<Rightarrow> nat option \<Rightarrow> bool" where
  "rest_ok path p \<longleftrightarrow> (\<forall>i. p = Some i \<longrightarrow> terminated path i)"

definition name_buf :: "u8 list \<Rightarrow> u8 list" where
  "name_buf n = n @ replicate (MAX_FILE_NAME_LEN - length n) 0"

lemma name_buf_length: "length n \<le> MAX_FILE_NAME_LEN \<Longrightarrow> length (name_buf n) = MAX_FILE_NAME_LEN"
  by (simp add: name_buf_def)

lemma memset_name: "length n = MAX_FILE_NAME_LEN \<Longrightarrow> memset n 0 0 MAX_FILE_NAME_LEN = Some (name_buf [])"
  by (simp add: memset_eq name_buf_def MAX_FILE_NAME_LEN_def)

lemma comps_step:
  assumes "comps xs = c # cs"
  defines "ys \<equiv> dropWhile (\<lambda>c. c = 47) xs"
  shows "takeWhile (\<lambda>c. c \<noteq> 47) ys = c" and "comps (dropWhile (\<lambda>c. c \<noteq> 47) ys) = cs" and "c \<noteq> []"
    and "ys \<noteq> []"
proof -
  show ne: "ys \<noteq> []"
  proof
    assume "ys = []"
    then have "comps xs = []"
      unfolding ys_def by (subst comps.simps) (simp only: Let_def if_True refl)
    then show False
      using assms(1) by simp
  qed
  have "comps xs = takeWhile (\<lambda>c. c \<noteq> 47) ys # comps (dropWhile (\<lambda>c. c \<noteq> 47) ys)"
    using ne unfolding ys_def by (subst comps.simps) (simp only: Let_def if_False)
  then show "takeWhile (\<lambda>c. c \<noteq> 47) ys = c" and "comps (dropWhile (\<lambda>c. c \<noteq> 47) ys) = cs"
    using assms(1) by simp_all
  moreover have "hd ys \<noteq> 47"
    using hd_dropWhile [of "\<lambda>c. c = 47" xs] ne by (simp add: ys_def)
  ultimately show "c \<noteq> []"
    using ne by (cases ys) auto
qed

lemma comps_Nil: "comps xs = [] \<Longrightarrow> dropWhile (\<lambda>c. c = 47) xs = []"
  by (subst (asm) comps.simps) (auto simp: Let_def split: if_splits)

lemma parse_none:
  assumes "terminated p i" and "comps (cstr p i) = []"
  shows "path_parse p i nm = Some (None, nm)"
  by (rule path_parse_eq [OF assms(1) refl, of nm]) (simp_all add: comps_Nil [OF assms(2)])

lemma parse_comp:
  assumes t: "terminated p i" and c: "comps (cstr p i) = c # cs" and room: "length c \<le> length nm"
  obtains r where "path_parse p i nm = Some (r, c @ drop (length c) nm)" and "rest_ok p r"
    and "comps (rest p r) = cs" and "c \<noteq> []" and "0 \<notin> set c" and "47 \<notin> set c"
proof -
  let ?ys = "dropWhile (\<lambda>c. c = 47) (cstr p i)"
  note st = comps_step [OF c]
  have room': "length (takeWhile (\<lambda>c. c \<noteq> 47) ?ys) \<le> length nm"
    using room st(1) by simp
  obtain r where r: "path_parse p i nm = Some (r, c @ drop (length c) nm)"
      "(r = None) = (dropWhile (\<lambda>c. c \<noteq> 47) ?ys = [])"
      "\<And>j. r = Some j \<Longrightarrow> terminated p j \<and> cstr p j = dropWhile (\<lambda>c. c \<noteq> 47) ?ys \<and> i < j"
    using path_parse_eq [OF t refl room'] unfolding st(1) by blast
  have "rest p r = dropWhile (\<lambda>c. c \<noteq> 47) ?ys"
    using r(2,3) by (cases r) (simp_all add: rest_def del: dropWhile_eq_Nil_conv)
  moreover have "rest_ok p r"
    using r(3) by (simp add: rest_ok_def)
  moreover have "0 \<notin> set c"
    using cstr_no_nul [of p i] unfolding st(1) [symmetric] by (auto dest!: set_takeWhileD set_dropWhileD)
  moreover have "47 \<notin> set c"
    unfolding st(1) [symmetric] by (auto dest!: set_takeWhileD)
  ultimately show thesis
    using that [of r] r(1) st by simp
qed

lemma depth_loop_eq:
  "rest_ok path p \<Longrightarrow> length name = MAX_FILE_NAME_LEN \<Longrightarrow> \<forall>c\<in>set (comps (rest path p)). length c \<le> MAX_FILE_NAME_LEN \<Longrightarrow>
   depth_loop path p name depth = Some (depth + (if name ! 0 = 0 then 0 else 1 + length (comps (rest path p))))"
proof (induction path p name depth rule: depth_loop.induct)
  case (1 path p name depth)
  have len: "0 < length name"
    using "1.prems"(2) by (simp add: MAX_FILE_NAME_LEN_def)
  have ms: "memset name 0 0 MAX_FILE_NAME_LEN = Some (name_buf [])"
    by (rule memset_name [OF "1.prems"(2)])
  have nb: "length (name_buf []) = MAX_FILE_NAME_LEN" "name_buf [] ! 0 = 0"
    by (simp_all add: name_buf_def MAX_FILE_NAME_LEN_def)
  show ?case
  proof (cases "name ! 0 = 0")
    case True
    then show ?thesis
      using len by (subst depth_loop.simps) simp
  next
    case nz: False
    have step: "depth_loop path p name depth = depth_loop path p2 name2 (depth + 1)"
      and ih: "rest_ok path p2 \<Longrightarrow> length name2 = MAX_FILE_NAME_LEN \<Longrightarrow>
        \<forall>c\<in>set (comps (rest path p2)). length c \<le> MAX_FILE_NAME_LEN \<Longrightarrow>
        depth_loop path p2 name2 (depth + 1) =
          Some (depth + 1 + (if name2 ! 0 = 0 then 0 else 1 + length (comps (rest path p2))))"
      if "(case p of Some i \<Rightarrow> path_parse path i (name_buf []) | None \<Rightarrow> Some (None, name_buf [])) = Some (p2, name2)"
      for p2 name2
      using "1.IH" [OF _ _ _ that refl] nz len ms that by (subst depth_loop.simps, simp_all)+
    show ?thesis
    proof (cases "comps (rest path p)")
      case Nil
      have "(case p of Some i \<Rightarrow> path_parse path i (name_buf []) | None \<Rightarrow> Some (None, name_buf [])) =
          Some (None, name_buf [])"
        using Nil "1.prems"(1) parse_none by (cases p) (auto simp: rest_def rest_ok_def)
      then show ?thesis
        using step ih nb nz Nil by (simp add: rest_ok_def rest_def comps.simps)
    next
      case (Cons c cs)
      then obtain i where i: "p = Some i" "terminated path i" "comps (cstr path i) = c # cs"
        using "1.prems"(1) by (cases p) (auto simp: rest_def rest_ok_def comps.simps)
      have room: "length c \<le> length (name_buf [])"
        using "1.prems"(3) Cons nb by simp
      obtain r where r: "path_parse path i (name_buf []) = Some (r, c @ drop (length c) (name_buf []))"
          "rest_ok path r" "comps (rest path r) = cs" "c \<noteq> []" "0 \<notin> set c"
        by (rule parse_comp [OF i(2,3) room])
      have c0: "(c @ drop (length c) (name_buf [])) ! 0 \<noteq> 0"
        using r(4,5) by (cases c) auto
      have "(case p of Some i \<Rightarrow> path_parse path i (name_buf []) | None \<Rightarrow> Some (None, name_buf [])) =
          Some (r, c @ drop (length c) (name_buf []))"
        using r(1) i(1) by simp
      then show ?thesis
        using step ih nz r c0 Cons "1.prems"(3) room nb by simp
    qed
  qed
qed

lemma path_depth_eq:
  assumes t: "terminated path 0" and n: "length name = MAX_FILE_NAME_LEN"
    and short: "\<forall>c\<in>set (comps (cstr path 0)). length c \<le> MAX_FILE_NAME_LEN"
  shows "path_depth_cnt name path = Some (if comps (cstr path 0) = [] then if name ! 0 = 0 then 0 else 1
    else length (comps (cstr path 0)))"
proof (cases "comps (cstr path 0)")
  case Nil
  then show ?thesis
    using parse_none [OF t Nil, of name] depth_loop_eq [of path None name 0] n
    by (simp add: path_depth_cnt_def rest_ok_def rest_def comps.simps)
next
  case (Cons c cs)
  have room: "length c \<le> length name"
    using short Cons n by simp
  obtain r where r: "path_parse path 0 name = Some (r, c @ drop (length c) name)"
      "rest_ok path r" "comps (rest path r) = cs" "c \<noteq> []" "0 \<notin> set c"
    by (rule parse_comp [OF t Cons room])
  have "(c @ drop (length c) name) ! 0 \<noteq> 0"
    using r(4,5) by (cases c) auto
  then show ?thesis
    using depth_loop_eq [OF r(2), of "c @ drop (length c) name" 0] r short Cons n room
    by (simp add: path_depth_cnt_def)
qed

section \<open>Normalising a path\<close>

text \<open>The string literals \<^verbatim>\<open>".."\<close>, \<^verbatim>\<open>"."\<close> and \<^verbatim>\<open>"/"\<close>.\<close>

definition dotdot :: "u8 list" where "dotdot = [46, 46, 0]"
definition dot :: "u8 list" where "dot = [46, 0]"
definition slash :: "u8 list" where "slash = [47, 0]"

text \<open>One round of the loop of \<^verbatim>\<open>wash_path\<close>: what becomes of \<^verbatim>\<open>new_abs_path\<close> for one name.\<close>

definition wash_name :: "u8 list \<Rightarrow> u8 list \<Rightarrow> u8 list option" where
  "wash_name name new_abs_path = do {
     is_dd \<leftarrow> strcmp dotdot 0 name 0;
     if is_dd = 0 then do {
       slash_ptr \<leftarrow> strrchr new_abs_path 0 47;
       k \<leftarrow> slash_ptr;
       if k \<noteq> 0 then wr new_abs_path k 0 else wr new_abs_path (k + 1) 0
     } else do {
       is_d \<leftarrow> strcmp dot 0 name 0;
       if is_d \<noteq> 0 then do {
         is_root \<leftarrow> strcmp new_abs_path 0 slash 0;
         new1 \<leftarrow> (if is_root \<noteq> 0 then strcat new_abs_path 0 slash 0 else Some new_abs_path);
         strcat new1 0 name 0
       } else Some new_abs_path
     }
   }"

function wash_loop :: "u8 list \<Rightarrow> nat option \<Rightarrow> u8 list \<Rightarrow> u8 list \<Rightarrow> u8 list option" where
  "wash_loop path sub_path name new_abs_path = do {
     c \<leftarrow> rd name 0;
     if c \<noteq> 0 then do {
       new1 \<leftarrow> wash_name name new_abs_path;
       name1 \<leftarrow> memset name 0 0 MAX_FILE_NAME_LEN;
       (p2, name2) \<leftarrow> (case sub_path of Some i \<Rightarrow> path_parse path i name1 | None \<Rightarrow> Some (None, name1));
       wash_loop path p2 name2 new1
     } else Some new_abs_path
   }"
  by pat_completeness auto
termination
proof (relation "measure (\<lambda>(path, p, name, new). case p of Some i \<Rightarrow> length path - i + 2
    | None \<Rightarrow> if rd name 0 = Some 0 then 0 else 1)")
  fix path p name new c new1 name1 x p2 name2
  assume a: "rd name 0 = Some c" "c \<noteq> 0" "memset name 0 0 MAX_FILE_NAME_LEN = Some name1"
    "(case p of Some i \<Rightarrow> path_parse path i name1 | None \<Rightarrow> Some (None, name1)) = Some x" "(p2, name2) = x"
  have "rd name1 0 = Some 0"
    using a(1,3) by (auto simp: memset_eq MAX_FILE_NAME_LEN_def rd_eq_Some nth_append split: if_splits)
  then show "((path, p2, name2, new1), (path, p, name, new))
      \<in> measure (\<lambda>(path, p, name, new). case p of Some i \<Rightarrow> length path - i + 2
        | None \<Rightarrow> if rd name 0 = Some 0 then 0 else 1)"
    using a by (auto split: option.splits dest!: path_parse_progress)
qed simp

declare wash_loop.simps [simp del]

definition wash_path :: "u8 list \<Rightarrow> u8 list \<Rightarrow> u8 list option" where
  "wash_path old_abs_path new_abs_path = do {
     c0 \<leftarrow> rd old_abs_path 0;
     ASSERT (c0 = 47);
     let name = replicate MAX_FILE_NAME_LEN 0;
     (sub_path, name1) \<leftarrow> path_parse old_abs_path 0 name;
     c \<leftarrow> rd name1 0;
     if c = 0 then do {
       n1 \<leftarrow> wr new_abs_path 0 47;
       wr n1 1 0
     } else do {
       n1 \<leftarrow> wr new_abs_path 0 0;
       n2 \<leftarrow> strcat n1 0 slash 0;
       wash_loop old_abs_path sub_path name1 n2
     }
   }"

text \<open>
  \<^verbatim>\<open>make_clear_abs_path\<close>: \<open>getcwd\<close> stands for the system call, which gets the zeroed buffer and its size
  and gives a success flag and the buffer.
\<close>

definition make_clear_abs_path ::
  "(u8 list \<Rightarrow> nat \<Rightarrow> (bool \<times> u8 list) option) \<Rightarrow> u8 list \<Rightarrow> u8 list \<Rightarrow> u8 list option" where
  "make_clear_abs_path getcwd path final_path = do {
     let abs_path = replicate MAX_PATH_LEN 0;
     c0 \<leftarrow> rd path 0;
     abs1 \<leftarrow> (if c0 \<noteq> 47 then do {
        a1 \<leftarrow> memset abs_path 0 0 MAX_PATH_LEN;
        (ok, a2) \<leftarrow> getcwd a1 MAX_PATH_LEN;
        if ok then do {
          x0 \<leftarrow> rd a2 0;
          x1 \<leftarrow> rd a2 1;
          if \<not> (x0 = 47 \<and> x1 = 0) then strcat a2 0 slash 0 else Some a2
        } else Some a2
      } else Some abs_path);
     abs2 \<leftarrow> strcat abs1 0 path 0;
     wash_path abs2 final_path
   }"

section \<open>What normalising means\<close>

definition norm_step :: "u8 list list \<Rightarrow> u8 list \<Rightarrow> u8 list list" where
  "norm_step st c = (if c = [46, 46] then butlast st else if c = [46] then st else st @ [c])"

definition norm :: "u8 list list \<Rightarrow> u8 list list" where
  "norm cs = foldl norm_step [] cs"

definition join :: "u8 list list \<Rightarrow> u8 list" where
  "join st = concat (map (\<lambda>c. 47 # c) st)"

definition abs_path :: "u8 list list \<Rightarrow> u8 list" where
  "abs_path st = (if st = [] then [47] else join st)"

definition good_comp :: "u8 list \<Rightarrow> bool" where
  "good_comp c \<longleftrightarrow> c \<noteq> [] \<and> 0 \<notin> set c \<and> 47 \<notin> set c \<and> length c < MAX_FILE_NAME_LEN"

text \<open>\<open>holds b st\<close>: the buffer holds the absolute path with the components \<open>st\<close>.\<close>

definition holds :: "u8 list \<Rightarrow> u8 list list \<Rightarrow> bool" where
  "holds b st \<longleftrightarrow> terminated b 0 \<and> cstr b 0 = abs_path st \<and> (\<forall>c\<in>set st. good_comp c)"

lemma join_snoc: "join (st @ [c]) = join st @ 47 # c"
  by (simp add: join_def)

lemma name_buf_str:
  assumes "good_comp c"
  shows "terminated (name_buf c) 0" and "cstr (name_buf c) 0 = c"
proof -
  have "name_buf c = [] @ c @ 0 # replicate (MAX_FILE_NAME_LEN - Suc (length c)) 0"
    using assms Suc_diff_Suc [of "length c" MAX_FILE_NAME_LEN]
    by (simp add: name_buf_def good_comp_def flip: replicate_Suc)
  then show "terminated (name_buf c) 0" and "cstr (name_buf c) 0 = c"
    using terminated_append [of "[]" 0] cstr_append [of c "[]" 0] assms by (auto simp: good_comp_def)
qed

lemma literals:
  "terminated dotdot 0" "cstr dotdot 0 = [46, 46]" "terminated dot 0" "cstr dot 0 = [46]"
  "terminated slash 0" "cstr slash 0 = [47]"
  by (simp_all add: terminated_def cstr_def dotdot_def dot_def slash_def)

lemma terminated_append_iff: "terminated (xs @ ys) 0 \<longleftrightarrow> 0 \<in> set xs \<or> 0 \<in> set ys"
  by (simp add: terminated_def)

lemma wr_cut:
  assumes "terminated b 0" and "k \<le> length (cstr b 0)"
  obtains b' where "wr b k 0 = Some b'" and "terminated b' 0" and "cstr b' 0 = take k (cstr b 0)"
    and "length b' = length b"
proof -
  have k: "k < length b"
    using terminated_length [OF assms(1)] assms(2) by simp
  have t: "take k b = take k (cstr b 0)"
    using cstr_prefix [of b 0] assms(2) by (metis drop0 min.absorb1 take_take)
  have b': "b[k := 0] = [] @ take k (cstr b 0) @ 0 # drop (Suc k) b"
    using k t by (simp add: list_update_splice)
  have nz: "0 \<notin> set (take k (cstr b 0))"
    using cstr_no_nul [of b 0] by (auto dest: in_set_takeD)
  show thesis
  proof (rule that)
    show "wr b k 0 = Some (b[k := 0])"
      using k by simp
    show "terminated (b[k := 0]) 0" "cstr (b[k := 0]) 0 = take k (cstr b 0)"
      unfolding b' using terminated_append [of "[]" 0] cstr_append [OF nz, of "[]" 0] by simp_all
  qed simp
qed

lemma rindex_slash:
  assumes "47 \<notin> set c"
  shows "rindex (\<lambda>x. char_eq x 47) (xs @ 47 # c) = Some (length xs)"
proof -
  have e: "char_eq x 47 = (x = 47)" for x
    by (rule char_eq_ascii) simp
  have "rindex (\<lambda>x. char_eq x 47) c = None"
    using assms by (auto simp: rindex_None e)
  then show ?thesis
    by (induction xs) (simp_all add: e)
qed

lemma wash_name_dotdot:
  assumes b: "holds b st"
  obtains b' where "wash_name (name_buf [46, 46]) b = Some b'" and "holds b' (butlast st)" and "length b' = length b"
proof -
  have g: "good_comp [46, 46]"
    by (simp add: good_comp_def MAX_FILE_NAME_LEN_def)
  have t: "terminated b 0" and c: "cstr b 0 = abs_path st" and gs: "\<forall>c\<in>set st. good_comp c"
    using b by (simp_all add: holds_def)
  have dd: "strcmp dotdot 0 (name_buf [46, 46]) 0 = Some 0"
    using strcmp_eq_0 [OF literals(1) name_buf_str(1) [OF g]] by (simp add: literals name_buf_str [OF g])
  show thesis
  proof (cases st rule: rev_cases)
    case Nil
    then have c': "cstr b 0 = [47]"
      using c by (simp add: abs_path_def)
    then have r: "strrchr b 0 47 = Some (Some 0)"
      using strrchr_eq [OF t, of 47] rindex_slash [of "[]" "[]"] by simp
    obtain b' where "wr b 1 0 = Some b'" "terminated b' 0" "cstr b' 0 = [47]" "length b' = length b"
      using wr_cut [OF t, of 1] c' by auto
    then show thesis
      using that [of b'] dd r Nil by (simp add: wash_name_def holds_def abs_path_def)
  next
    case (snoc us u)
    then have c': "cstr b 0 = join us @ 47 # u" and u: "47 \<notin> set u"
      using c gs by (simp_all add: abs_path_def join_snoc good_comp_def)
    then have r: "strrchr b 0 47 = Some (Some (length (join us)))"
      using strrchr_eq [OF t, of 47] rindex_slash [OF u, of "join us"] by simp
    show thesis
    proof (cases "us = []")
      case True
      then obtain b' where "wr b 1 0 = Some b'" "terminated b' 0" "cstr b' 0 = [47]" "length b' = length b"
        using wr_cut [OF t, of 1] c' by (auto simp: join_def)
      then show thesis
        using that [of b'] dd r True snoc by (simp add: wash_name_def holds_def abs_path_def join_def)
    next
      case False
      then have pos: "length (join us) \<noteq> 0"
        by (cases us) (simp_all add: join_def)
      obtain b' where "wr b (length (join us)) 0 = Some b'" "terminated b' 0"
          "cstr b' 0 = take (length (join us)) (cstr b 0)" "length b' = length b"
        by (rule wr_cut [OF t, of "length (join us)"]) (use c' in auto)
      then show thesis
        using that [of b'] dd r False snoc pos c' gs by (simp add: wash_name_def holds_def abs_path_def)
    qed
  qed
qed

lemma strcat_ok:
  assumes "terminated b 0" and "terminated src 0" and "length (cstr b 0) + length (cstr src 0) < length b"
  obtains b' where "strcat b 0 src 0 = Some b'" and "terminated b' 0" and "cstr b' 0 = cstr b 0 @ cstr src 0"
    and "length b' = length b"
proof -
  obtain b' where b': "strcat b 0 src 0 = Some b'"
    using strcat_eq [OF assms(1,2)] assms(3) by simp
  show thesis
    by (rule that [OF b']) (rule strcat_cstr [OF assms(1,2) b'])+
qed

lemma wash_name_comp:
  assumes b: "holds b st" and g: "good_comp c" and c: "c \<noteq> [46, 46]" "c \<noteq> [46]"
    and room: "length (join st) + length c + 2 \<le> length b"
  obtains b' where "wash_name (name_buf c) b = Some b'" and "holds b' (st @ [c])" and "length b' = length b"
proof -
  have t: "terminated b 0" and cb: "cstr b 0 = abs_path st" and gs: "\<forall>c\<in>set st. good_comp c"
    using b by (simp_all add: holds_def)
  note nb = name_buf_str [OF g]
  obtain x y z where x: "strcmp dotdot 0 (name_buf c) 0 = Some x" "x \<noteq> 0"
    and y: "strcmp dot 0 (name_buf c) 0 = Some y" "y \<noteq> 0"
    and z: "strcmp b 0 slash 0 = Some z" "z = 0 \<longleftrightarrow> st = []"
  proof -
    have "cstr b 0 = [47] \<longleftrightarrow> st = []"
    proof (cases st)
      case (Cons u us)
      then have "u \<noteq> []" using gs by (auto simp: good_comp_def)
      then show ?thesis using cb Cons by (auto simp: abs_path_def join_def)
    qed (simp add: cb abs_path_def)
    then show thesis
      using that strcmp_eq_scmp [OF literals(1) nb(1)] strcmp_eq_scmp [OF literals(3) nb(1)]
        strcmp_eq_scmp [OF t literals(5)] c by (simp add: literals nb scmp_eq_0)
  qed
  have step: "wash_name (name_buf c) b =
      (if st = [] then strcat b 0 (name_buf c) 0 else strcat b 0 slash 0 \<bind> (\<lambda>n. strcat n 0 (name_buf c) 0))"
    using x y z by (simp add: wash_name_def)
  show thesis
  proof (cases "st = []")
    case True
    obtain b' where "strcat b 0 (name_buf c) 0 = Some b'" "terminated b' 0" "cstr b' 0 = cstr b 0 @ c" "length b' = length b"
      using strcat_ok [OF t nb(1)] room cb True by (auto simp: nb abs_path_def join_def)
    then show thesis
      using that [of b'] True step cb g by (simp add: holds_def abs_path_def join_def)
  next
    case False
    obtain b1 where b1: "strcat b 0 slash 0 = Some b1" "terminated b1 0" "cstr b1 0 = cstr b 0 @ [47]" "length b1 = length b"
      using strcat_ok [OF t literals(5)] room cb False by (auto simp: literals abs_path_def)
    obtain b' where "strcat b1 0 (name_buf c) 0 = Some b'" "terminated b' 0" "cstr b' 0 = cstr b1 0 @ c" "length b' = length b1"
      using strcat_ok [OF b1(2) nb(1)] room cb b1 False by (auto simp: nb abs_path_def)
    then show thesis
      using that [of b'] False step cb g gs b1 by (simp add: holds_def abs_path_def join_snoc)
  qed
qed

lemma wash_name_dot:
  assumes "holds b st"
  shows "wash_name (name_buf [46]) b = Some b"
proof -
  have g: "good_comp [46]"
    by (simp add: good_comp_def MAX_FILE_NAME_LEN_def)
  show ?thesis
    using strcmp_eq_scmp [OF literals(1) name_buf_str(1) [OF g]] strcmp_eq_scmp [OF literals(3) name_buf_str(1) [OF g]]
    by (simp add: literals name_buf_str [OF g] wash_name_def scmp_eq_0)
qed

definition comps_size :: "u8 list list \<Rightarrow> nat" where
  "comps_size cs = (\<Sum>c\<leftarrow>cs. length c + 1)"

lemma length_join: "length (join st) = comps_size st"
  by (induction st) (simp_all add: join_def comps_size_def)

lemma comps_size_butlast: "comps_size (butlast st) \<le> comps_size st"
  by (cases st rule: rev_cases) (simp_all add: comps_size_def)

lemma wash_name_ok:
  assumes b: "holds b st" and g: "good_comp c" and room: "comps_size st + length c + 2 \<le> length b"
  obtains b' where "wash_name (name_buf c) b = Some b'" and "holds b' (norm_step st c)" and "length b' = length b"
    and "comps_size (norm_step st c) \<le> comps_size st + length c + 1"
proof -
  consider "c = [46, 46]" | "c = [46]" | "c \<noteq> [46, 46]" "c \<noteq> [46]"
    by blast
  then show thesis
  proof cases
    case 1
    then show thesis
      using wash_name_dotdot [OF b] that comps_size_butlast [of st]
      by (metis norm_step_def le_add1 order_trans add.assoc)
  next
    case 2
    then show thesis
      using wash_name_dot [OF b] b by (intro that [of b]) (simp_all add: norm_step_def)
  next
    case 3
    obtain b' where "wash_name (name_buf c) b = Some b'" "holds b' (st @ [c])" "length b' = length b"
      by (rule wash_name_comp [OF b g 3]) (use room in \<open>simp add: length_join\<close>)
    then show thesis
      using 3 by (intro that [of b']) (simp_all add: norm_step_def comps_size_def)
  qed
qed

lemma comp_first: "good_comp c \<Longrightarrow> rd (name_buf c) 0 = Some (hd c) \<and> hd c \<noteq> 0 \<and> length (name_buf c) = MAX_FILE_NAME_LEN"
  by (cases c) (auto simp: good_comp_def name_buf_def)

lemma wash_loop_ok:
  "rest_ok path p \<Longrightarrow> holds b st \<Longrightarrow> good_comp c \<Longrightarrow> comps (rest path p) = cs \<Longrightarrow> \<forall>c\<in>set cs. length c < MAX_FILE_NAME_LEN \<Longrightarrow>
   comps_size st + comps_size (c # cs) + 1 \<le> length b \<Longrightarrow>
   \<exists>b'. wash_loop path p (name_buf c) b = Some b' \<and> holds b' (foldl norm_step st (c # cs)) \<and> length b' = length b"
proof (induction cs arbitrary: p b st c)
  case Nil
  obtain b' where b': "wash_name (name_buf c) b = Some b'" "holds b' (norm_step st c)" "length b' = length b"
    by (rule wash_name_ok [OF Nil.prems(2,3)]) (use Nil.prems(6) in \<open>simp_all add: comps_size_def\<close>)
  have nb: "length (name_buf c) = MAX_FILE_NAME_LEN" "rd (name_buf c) 0 = Some (hd c)" "hd c \<noteq> 0"
    using comp_first [OF Nil.prems(3)] by simp_all
  have "(case p of Some i \<Rightarrow> path_parse path i (name_buf []) | None \<Rightarrow> Some (None, name_buf [])) = Some (None, name_buf [])"
    using Nil.prems(1,4) parse_none by (cases p) (auto simp: rest_def rest_ok_def)
  moreover have "wash_loop path None (name_buf []) b' = Some b'"
    by (subst wash_loop.simps) (simp add: name_buf_def MAX_FILE_NAME_LEN_def)
  ultimately have "wash_loop path p (name_buf c) b = Some b'"
    using b'(1) nb memset_name [OF nb(1)] by (subst wash_loop.simps) simp
  then show ?case
    using b' by simp
next
  case (Cons d ds)
  obtain b' where b': "wash_name (name_buf c) b = Some b'" "holds b' (norm_step st c)" "length b' = length b"
      "comps_size (norm_step st c) \<le> comps_size st + length c + 1"
    by (rule wash_name_ok [OF Cons.prems(2,3)]) (use Cons.prems(6) in \<open>simp_all add: comps_size_def\<close>)
  have nb: "length (name_buf c) = MAX_FILE_NAME_LEN" "rd (name_buf c) 0 = Some (hd c)" "hd c \<noteq> 0"
    using comp_first [OF Cons.prems(3)] by simp_all
  obtain i where i: "p = Some i" "terminated path i" "comps (cstr path i) = d # ds"
    using Cons.prems(1,4) by (cases p) (auto simp: rest_def rest_ok_def comps.simps)
  have room: "length d \<le> length (name_buf [])"
    using Cons.prems(5) by (simp add: name_buf_def)
  obtain r where r: "path_parse path i (name_buf []) = Some (r, d @ drop (length d) (name_buf []))"
      "rest_ok path r" "comps (rest path r) = ds" "d \<noteq> []" "0 \<notin> set d" "47 \<notin> set d"
    by (rule parse_comp [OF i(2,3) room])
  have d: "good_comp d" "d @ drop (length d) (name_buf []) = name_buf d"
    using r Cons.prems(5) by (simp_all add: good_comp_def name_buf_def)
  have "\<exists>b''. wash_loop path r (name_buf d) b' = Some b'' \<and>
      holds b'' (foldl norm_step (norm_step st c) (d # ds)) \<and> length b'' = length b'"
    using r b' Cons.prems d by (intro Cons.IH) (simp_all add: comps_size_def)
  moreover have "wash_loop path p (name_buf c) b = wash_loop path r (name_buf d) b'"
    using b'(1) nb memset_name [OF nb(1)] i(1) r(1) d(2) by (subst wash_loop.simps) simp
  ultimately show ?case
    using b'(3) by simp
qed

lemma wash_path_ok:
  assumes t: "terminated old 0" and sl: "cstr old 0 = 47 # xs"
    and short: "\<forall>c\<in>set (comps (cstr old 0)). length c < MAX_FILE_NAME_LEN"
    and room: "comps_size (comps (cstr old 0)) + 2 \<le> length new"
  obtains b where "wash_path old new = Some b" and "terminated b 0" and "length b = length new"
    and "cstr b 0 = abs_path (norm (comps (cstr old 0)))"
proof (cases "comps (cstr old 0)")
  case Nil
  have c0: "rd old 0 = Some 47"
    using rd_terminated [OF t] sl by simp
  obtain n0 n1 new' where new: "new = n0 # n1 # new'"
    using room by (cases new; cases "tl new") auto
  have "wash_path old new = Some (47 # 0 # new')"
    using c0 parse_none [OF t Nil, of "replicate MAX_FILE_NAME_LEN 0"]
    by (simp add: wash_path_def new MAX_FILE_NAME_LEN_def)
  then show thesis
    by (rule that) (simp_all add: Nil norm_def abs_path_def new terminated_def, simp add: cstr_def)
next
  case (Cons c cs)
  have c0: "rd old 0 = Some 47"
    using rd_terminated [OF t] sl by simp
  obtain n0 new' where new: "new = n0 # new'" "new' \<noteq> []"
    using room by (cases new; cases "tl new") auto
  have rm: "length c \<le> length (name_buf [])"
    using short Cons by (simp add: name_buf_def)
  obtain r where r: "path_parse old 0 (name_buf []) = Some (r, c @ drop (length c) (name_buf []))"
      "rest_ok old r" "comps (rest old r) = cs" "c \<noteq> []" "0 \<notin> set c" "47 \<notin> set c"
    by (rule parse_comp [OF t Cons rm])
  have g: "good_comp c"
    using r short Cons by (simp add: good_comp_def)
  then have c: "good_comp c" "c @ drop (length c) (name_buf []) = name_buf c" "rd (name_buf c) 0 = Some (hd c)" "hd c \<noteq> 0"
    using comp_first [OF g] by (simp_all add: name_buf_def)
  have e: "terminated (0 # new') 0" "cstr (0 # new') 0 = []"
    by (simp_all add: terminated_def cstr_def)
  obtain b1 where b1: "strcat (0 # new') 0 slash 0 = Some b1" "terminated b1 0" "cstr b1 0 = [47]" "length b1 = length new"
    by (rule strcat_ok [OF e(1) literals(5)]) (use e new in \<open>simp_all add: literals\<close>)
  have "holds b1 []"
    using b1 by (simp add: holds_def abs_path_def)
  then obtain b' where b': "wash_loop old r (name_buf c) b1 = Some b'"
      "holds b' (foldl norm_step [] (c # cs))" "length b' = length b1"
    using wash_loop_ok [OF r(2) _ c(1) r(3), of b1 "[]"] short Cons room b1(4) by (auto simp: comps_size_def)
  have "wash_path old new = Some b'"
    using c0 r(1) c b1(1) b'(1) new(1) by (simp add: wash_path_def name_buf_def)
  then show thesis
    by (rule that) (use b' b1 Cons in \<open>simp_all add: holds_def norm_def\<close>)
qed

text \<open>The normalised path has no dots left, and its text has exactly its components.\<close>

lemma norm_clean: "c \<in> set (norm cs) \<Longrightarrow> c \<in> set cs \<and> c \<noteq> [46] \<and> c \<noteq> [46, 46]"
proof -
  have "c \<in> set (foldl norm_step st cs) \<Longrightarrow> \<forall>d\<in>set st. d \<noteq> [46] \<and> d \<noteq> [46, 46] \<Longrightarrow>
      c \<in> set st \<union> set cs \<and> c \<noteq> [46] \<and> c \<noteq> [46, 46]" for st
  proof (induction cs arbitrary: st)
    case (Cons d cs)
    have "set (norm_step st d) \<subseteq> insert d (set st)" "\<forall>x\<in>set (norm_step st d). x \<noteq> [46] \<and> x \<noteq> [46, 46]"
      using Cons.prems(2) by (auto simp: norm_step_def dest: in_set_butlastD)
    then show ?case
      using Cons.IH [of "norm_step st d"] Cons.prems(1) by auto
  qed auto
  then show "c \<in> set (norm cs) \<Longrightarrow> c \<in> set cs \<and> c \<noteq> [46] \<and> c \<noteq> [46, 46]"
    by (fastforce simp: norm_def)
qed

lemma norm_id: "\<forall>c\<in>set cs. c \<noteq> [46] \<and> c \<noteq> [46, 46] \<Longrightarrow> norm cs = cs"
proof -
  have "\<forall>c\<in>set cs. c \<noteq> [46] \<and> c \<noteq> [46, 46] \<Longrightarrow> foldl norm_step st cs = st @ cs" for st
    by (induction cs arbitrary: st) (auto simp: norm_step_def)
  then show "\<forall>c\<in>set cs. c \<noteq> [46] \<and> c \<noteq> [46, 46] \<Longrightarrow> norm cs = cs"
    by (simp add: norm_def)
qed

lemma comps_join_append: "\<forall>c\<in>set st. c \<noteq> [] \<and> 47 \<notin> set c \<Longrightarrow> comps (join st) = st"
proof (induction st)
  case Nil
  then show ?case
    by (subst comps.simps) (simp add: join_def)
next
  case (Cons c st)
  have j: "join (c # st) = 47 # c @ join st"
    by (simp add: join_def)
  obtain x xs where c: "c = x # xs" "x \<noteq> 47"
    using Cons.prems by (cases c) auto
  have ys: "dropWhile (\<lambda>c. c = 47) (join (c # st)) = c @ join st"
    unfolding j using c by simp
  have hd: "join st = [] \<or> hd (join st) = 47"
    by (cases st) (simp_all add: join_def)
  have tw: "takeWhile (\<lambda>c. c \<noteq> 47) (c @ join st) = c" "dropWhile (\<lambda>c. c \<noteq> 47) (c @ join st) = join st"
    using Cons.prems hd by (cases "join st"; auto simp: takeWhile_append dropWhile_append)+
  have "comps (join (c # st)) = c # comps (join st)"
    unfolding comps.simps [of "join (c # st)"] Let_def ys tw using c by simp
  then show ?case
    using Cons by simp
qed

lemma comps_abs_path: "\<forall>c\<in>set st. c \<noteq> [] \<and> 47 \<notin> set c \<Longrightarrow> comps (abs_path st) = st"
  using comps_join_append [of st] by (auto simp: abs_path_def comps.simps)

lemma comps_good: "c \<in> set (comps xs) \<Longrightarrow> c \<noteq> [] \<and> 47 \<notin> set c"
proof (induction xs rule: comps.induct)
  case (1 xs)
  show ?case
  proof (cases "comps xs")
    case (Cons d ds)
    note st = comps_step [OF Cons]
    have ne: "dropWhile (\<lambda>c. c = 47) xs \<noteq> []"
      by (rule st(4))
    have "d \<noteq> [] \<and> 47 \<notin> set d"
      using st(3) unfolding st(1) [symmetric] by (auto dest: set_takeWhileD)
    then show ?thesis
      using 1(1) [OF refl ne] 1(2) Cons st(2) by auto
  qed (use 1(2) in simp)
qed

lemma comps_size_slash: "comps_size (comps xs) \<le> length xs" if "xs = [] \<or> hd xs = 47"
  using that
proof (induction xs rule: comps.induct)
  case (1 xs)
  show ?case
  proof (cases "comps xs")
    case Nil
    then show ?thesis
      by (simp add: comps_size_def)
  next
    case (Cons d ds)
    let ?ys = "dropWhile (\<lambda>c. c = 47) xs"
    note st = comps_step [OF Cons]
    have ne: "?ys \<noteq> []"
      by (rule st(4))
    have r: "dropWhile (\<lambda>c. c \<noteq> 47) ?ys = [] \<or> hd (dropWhile (\<lambda>c. c \<noteq> 47) ?ys) = 47"
      using hd_dropWhile [of "\<lambda>c. c \<noteq> 47" ?ys] by blast
    have "length xs = length (takeWhile (\<lambda>c. c = 47) xs) + length ?ys"
      by (metis length_append takeWhile_dropWhile_id)
    moreover have "takeWhile (\<lambda>c. c = 47) xs \<noteq> []"
      using 1(2) ne by (cases xs) auto
    then have "1 \<le> length (takeWhile (\<lambda>c. c = 47) xs)"
      by (cases "takeWhile (\<lambda>c. c = 47) xs") auto
    moreover have "length ?ys = length d + length (dropWhile (\<lambda>c. c \<noteq> 47) ?ys)"
      by (metis length_append st(1) takeWhile_dropWhile_id)
    ultimately show ?thesis
      using 1(1) [OF refl ne r] Cons st(2) by (simp add: comps_size_def)
  qed
qed

section \<open>Properties\<close>

text \<open>
  C29. \<^verbatim>\<open>wash_path\<close> normalises every absolute path whose names fit a directory entry, in any buffer that
  can hold the path: it returns, its result is the canonical text of the components with \<^verbatim>\<open>.\<close> and \<^verbatim>\<open>..\<close>
  resolved from the root (\<^verbatim>\<open>..\<close> at the root stays at the root), and parsing the result gives these
  components back, none of which is a dot name.
\<close>

theorem wash_path_normalises:
  assumes "terminated old 0" and "cstr old 0 = 47 # xs"
    and "\<forall>c\<in>set (comps (cstr old 0)). length c < MAX_FILE_NAME_LEN"
    and "length (cstr old 0) + 2 \<le> length new"
  shows "\<exists>b. wash_path old new = Some b \<and> cstr b 0 = abs_path (norm (comps (cstr old 0))) \<and>
    comps (cstr b 0) = norm (comps (cstr old 0)) \<and> [46] \<notin> set (comps (cstr b 0)) \<and> [46, 46] \<notin> set (comps (cstr b 0))"
proof -
  let ?n = "norm (comps (cstr old 0))"
  have "comps_size (comps (cstr old 0)) + 2 \<le> length new"
    using comps_size_slash [of "cstr old 0"] assms(2,4) by simp
  then obtain b where b: "wash_path old new = Some b" "cstr b 0 = abs_path ?n"
    by (rule wash_path_ok [OF assms(1-3)])
  have "comps (abs_path ?n) = ?n"
    using norm_clean comps_good by (intro comps_abs_path) blast
  then show ?thesis
    using b norm_clean [of "[46]"] norm_clean [of "[46, 46]"] by auto
qed

theorem wash_path_normalises_witness:
  "\<exists>b. wash_path (str_bytes ''/a/./b//../../..'' @ [0]) (replicate 64 0) = Some b \<and>
    cstr b 0 = abs_path (norm (comps (cstr (str_bytes ''/a/./b//../../..'' @ [0]) 0))) \<and>
    comps (cstr b 0) = norm (comps (cstr (str_bytes ''/a/./b//../../..'' @ [0]) 0)) \<and>
    [46] \<notin> set (comps (cstr b 0)) \<and> [46, 46] \<notin> set (comps (cstr b 0))"
proof (rule wash_path_normalises)
  show "\<forall>c\<in>set (comps (cstr (str_bytes ''/a/./b//../../..'' @ [0]) 0)). length c < MAX_FILE_NAME_LEN"
    by (simp add: cstr_def str_bytes_def comps.simps MAX_FILE_NAME_LEN_def)
qed (simp_all add: terminated_def cstr_def str_bytes_def)

text \<open>
  \<^verbatim>\<open>path_depth_cnt\<close> counts the components of a path that has some, whatever its uninitialised name
  buffer held; for a path without components the answer is that of the garbage in the buffer, 0 or 1.
\<close>

theorem path_depth_counts:
  assumes "terminated path 0" and "length name = 16" and "\<forall>c\<in>set (comps (cstr path 0)). length c \<le> 16"
  shows "path_depth_cnt name path = Some (if comps (cstr path 0) = [] then if name ! 0 = 0 then 0 else 1
    else length (comps (cstr path 0)))"
  using path_depth_eq [OF assms(1)] assms(2,3) by (simp add: MAX_FILE_NAME_LEN_def)

theorem path_depth_counts_witness:
  "path_depth_cnt (replicate 16 7) (str_bytes ''/usr//bin/'' @ [0]) =
     Some (if comps (cstr (str_bytes ''/usr//bin/'' @ [0]) 0) = [] then if replicate 16 (7 :: u8) ! 0 = 0 then 0 else 1
       else length (comps (cstr (str_bytes ''/usr//bin/'' @ [0]) 0)))"
proof (rule path_depth_counts)
  show "\<forall>c\<in>set (comps (cstr (str_bytes ''/usr//bin/'' @ [0]) 0)). length c \<le> 16"
    by (simp add: cstr_def str_bytes_def comps.simps)
qed (simp_all add: terminated_def)

end
