(* ===== verification/Inode.thy ===== *)
theory Inode
  imports Ide_Transfer Path
begin

text \<open>
  The inodes of the file system, src/fs/inode.c, with the bitmap routines of src/fs/file.c that they
  use. The state is the disk driver's state extended by the file system's globals.

  In memory a \<^verbatim>\<open>struct inode\<close> at address \<open>a\<close> is \<open>inodes s a\<close>; its list node \<^verbatim>\<open>inode_tag\<close> is the node
  \<open>inode_tag a\<close> of \<open>lnks\<close>. On the disk it is 76 bytes: nineteen words, the last two of which are the list
  node. \<^verbatim>\<open>bool\<close> is \<^verbatim>\<open>int\<close> in this code, so the structure has no padding.

  A buffer is the list of its bytes; \<open>ide_read_buf\<close> is \<^verbatim>\<open>ide_read\<close> into a buffer of a known length, and a
  transfer that is larger than the buffer has no result. Local variables that the code reads
  before it has written them are the fields \<open>junk_name\<close>, \<open>junk_entry\<close>, \<open>junk_lba\<close> and \<open>junk_pad\<close>.
  The results \<^verbatim>\<open>-1\<close> of functions that return sector or inode numbers are the word \<open>-1\<close>.
\<close>

section \<open>State\<close>

record inode =
  i_no :: u32
  i_size :: u32
  i_open_cnts :: u32
  write_deny :: u32
  i_sectors :: "u32 list"

record dir =
  dir_inode :: addr
  dir_pos :: u32
  dir_buf :: "u8 list"

record file_struct =
  fd_pos :: u32
  fd_flag :: u32
  fd_inode :: addr

record fstate = dstate +
  cur_part :: part_ptr
  devices :: "nat \<Rightarrow> u8 \<Rightarrow> disk"
  channel_cnt :: nat
  inodes :: "addr \<Rightarrow> inode"
  dirs :: "addr \<Rightarrow> dir"
  root_dir :: addr
  file_table :: "file_struct list"
  screen :: "u8 list"
  console_lock :: addr
  junk_name :: "u8 list"
  junk_entry :: "u8 list"
  junk_lba :: u32
  junk_pad :: "u8 list"

definition MAX_FILES_PER_PART :: u32 where "MAX_FILES_PER_PART = 4096"
definition BITS_PER_SECTOR :: u32 where "BITS_PER_SECTOR = 4096"
definition SECTOR_SIZE :: u32 where "SECTOR_SIZE = 512"
definition BLOCK_SIZE :: u32 where "BLOCK_SIZE = SECTOR_SIZE"
definition MAX_FILE_OPEN :: nat where "MAX_FILE_OPEN = 32"

definition sizeof_inode :: nat where
  "sizeof_inode = 76"

definition inode_tag :: "addr \<Rightarrow> addr" where
  "inode_tag a = a + 68"

definition inode_tag_entry :: "addr \<Rightarrow> addr" where
  "inode_tag_entry e = e - 68"

definition upd_inode :: "addr \<Rightarrow> (inode \<Rightarrow> inode) \<Rightarrow> 'a fstate_scheme \<Rightarrow> 'a fstate_scheme" where
  "upd_inode a f s = s\<lparr>inodes := (inodes s)(a := f (inodes s a))\<rparr>"

definition upd_part :: "part_ptr \<Rightarrow> (partition \<Rightarrow> partition) \<Rightarrow> 'a fstate_scheme \<Rightarrow> 'a fstate_scheme" where
  "upd_part q f s = s\<lparr>parts := (parts s)(q := f (parts s q))\<rparr>"

definition part_disk :: "part_ptr \<Rightarrow> 'a fstate_scheme \<Rightarrow> disk" where
  "part_disk q s = my_disk (parts s q)"

section \<open>Structures in byte buffers\<close>

definition le_bytes :: "u32 \<Rightarrow> u8 list" where
  "le_bytes w = [ucast w, ucast (drop_bit 8 w), ucast (drop_bit 16 w), ucast (drop_bit 24 w)]"

definition words_bytes :: "u32 list \<Rightarrow> u8 list" where
  "words_bytes ws = concat (map le_bytes ws)"

fun le32s :: "u8 list \<Rightarrow> nat \<Rightarrow> nat \<Rightarrow> u32 list option" where
  "le32s bs i 0 = Some []"
| "le32s bs i (Suc n) = do {
     w \<leftarrow> le32 bs i;
     ws \<leftarrow> le32s bs (i + 4) n;
     Some (w # ws)
   }"

text \<open>The words of an inode whose list node holds \<open>p\<close> and \<open>n\<close>.\<close>

definition inode_words :: "inode \<Rightarrow> addr \<Rightarrow> addr \<Rightarrow> u32 list" where
  "inode_words i p n = [i_no i, i_size i, i_open_cnts i, write_deny i] @ i_sectors i @ [p, n]"

definition inode_at :: "u8 list \<Rightarrow> nat \<Rightarrow> inode option" where
  "inode_at bs off = do {
     ws \<leftarrow> le32s bs off 19;
     Some \<lparr>i_no = ws ! 0, i_size = ws ! 1, i_open_cnts = ws ! 2, write_deny = ws ! 3, i_sectors = take 13 (drop 4 ws)\<rparr>
   }"

definition ide_read_buf :: "disk \<Rightarrow> u32 \<Rightarrow> u8 list \<Rightarrow> nat \<Rightarrow> 'a dstate_scheme \<Rightarrow> (u8 list \<times> 'a dstate_scheme) option" where
  "ide_read_buf hdd lba bf cnt s = do {
     ASSERT (cnt * 512 \<le> length bf);
     (bs, s1) \<leftarrow> ide_read hdd lba cnt s;
     Some (bs @ drop (cnt * 512) bf, s1)
   }"

section \<open>Bitmaps of a partition\<close>

datatype bitmap_type = INODE_BITMAP | BLOCK_BITMAP

definition inode_bitmap_alloc :: "part_ptr \<Rightarrow> 'a fstate_scheme \<Rightarrow> (u32 \<times> 'a fstate_scheme) option" where
  "inode_bitmap_alloc q s = do {
     bit_idx \<leftarrow> bitmap_scan (inode_bitmap (parts s q)) 1;
     if bit_idx = -1 then Some (-1, s)
     else do {
       b \<leftarrow> bitmap_set (inode_bitmap (parts s q)) (nat bit_idx) 1;
       Some (of_int bit_idx, upd_part q (inode_bitmap_update (\<lambda>_. b)) s)
     }
   }"

definition block_bitmap_alloc :: "part_ptr \<Rightarrow> 'a fstate_scheme \<Rightarrow> (u32 \<times> 'a fstate_scheme) option" where
  "block_bitmap_alloc q s = do {
     bit_idx \<leftarrow> bitmap_scan (block_bitmap (parts s q)) 1;
     if bit_idx = -1 then Some (-1, s)
     else do {
       b \<leftarrow> bitmap_set (block_bitmap (parts s q)) (nat bit_idx) 1;
       Some (data_start_lba (sb (parts s q)) + of_int bit_idx, upd_part q (block_bitmap_update (\<lambda>_. b)) s)
     }
   }"

definition bitmap_sync :: "part_ptr \<Rightarrow> u32 \<Rightarrow> bitmap_type \<Rightarrow> 'a fstate_scheme \<Rightarrow> 'a fstate_scheme option" where
  "bitmap_sync q bit_idx btmp_type s = do {
     let p = parts s q;
     let off_sec = bit_idx div 4096;
     let off_size = off_sec * BLOCK_SIZE;
     let (sec_lba, bytes) = (case btmp_type of
        INODE_BITMAP \<Rightarrow> (inode_bitmap_lba (sb p) + off_sec, bits (inode_bitmap p))
      | BLOCK_BITMAP \<Rightarrow> (block_bitmap_lba (sb p) + off_sec, bits (block_bitmap p)));
     ide_write (my_disk p) sec_lba (drop (unat off_size) bytes) 1 s
   }"

definition clear_block :: "part_ptr \<Rightarrow> u32 \<Rightarrow> 'a fstate_scheme \<Rightarrow> 'a fstate_scheme option" where
  "clear_block q bit_idx s = do {
     b \<leftarrow> bitmap_set (block_bitmap (parts s q)) (unat bit_idx) 0;
     Some (upd_part q (block_bitmap_update (\<lambda>_. b)) s)
   }"

section \<open>Inodes on the disk\<close>

record inode_position =
  two_sec :: bool
  sec_lba :: u32
  off_size :: u32

definition inode_locate :: "part_ptr \<Rightarrow> u32 \<Rightarrow> 'a fstate_scheme \<Rightarrow> inode_position option" where
  "inode_locate q inode_no s = do {
     ASSERT (inode_no < 4096);
     let off = inode_no * of_nat sizeof_inode;
     let off_sec = off div 512;
     let off_size_in_sec = off mod 512;
     let left_in_sec = 512 - off_size_in_sec;
     Some \<lparr>two_sec = (left_in_sec < of_nat sizeof_inode), sec_lba = inode_table_lba (sb (parts s q)) + off_sec,
           off_size = off_size_in_sec\<rparr>
   }"

text \<open>The sectors an inode lies in.\<close>

definition pos_secs :: "inode_position \<Rightarrow> nat" where
  "pos_secs pos = (if two_sec pos then 2 else 1)"

text \<open>\<^verbatim>\<open>uint8_t inode_no = inode->i_no\<close> keeps the low eight bits only.\<close>

definition inode_sync :: "part_ptr \<Rightarrow> inode \<Rightarrow> u8 list \<Rightarrow> 'a fstate_scheme \<Rightarrow> 'a fstate_scheme option" where
  "inode_sync q i io_buf s = do {
     let inode_no = (ucast (i_no i) :: u8);
     pos \<leftarrow> inode_locate q (ucast inode_no) s;
     ASSERT (sec_lba pos \<le> start_lba (parts s q) + sec_cnt (parts s q));
     let pure_inode = i\<lparr>i_open_cnts := 0, write_deny := 0\<rparr>;
     (inode_buf, s1) \<leftarrow> ide_read_buf (part_disk q s) (sec_lba pos) io_buf (pos_secs pos) s;
     inode_buf1 \<leftarrow> memcpy inode_buf (unat (off_size pos)) (words_bytes (inode_words pure_inode NULL NULL)) 0 sizeof_inode;
     ide_write (part_disk q s) (sec_lba pos) inode_buf1 (pos_secs pos) s1
   }"

definition inode_delete :: "part_ptr \<Rightarrow> u32 \<Rightarrow> u8 list \<Rightarrow> 'a fstate_scheme \<Rightarrow> 'a fstate_scheme option" where
  "inode_delete q inode_no io_buf s = do {
     ASSERT (inode_no < 4096);
     pos \<leftarrow> inode_locate q inode_no s;
     ASSERT (sec_lba pos \<le> start_lba (parts s q) + sec_cnt (parts s q));
     (inode_buf, s1) \<leftarrow> ide_read_buf (part_disk q s) (sec_lba pos) io_buf (pos_secs pos) s;
     inode_buf1 \<leftarrow> memset inode_buf (unat (off_size pos)) 0 sizeof_inode;
     ide_write (part_disk q s) (sec_lba pos) inode_buf1 (pos_secs pos) s1
   }"

section \<open>Inodes in memory\<close>

text \<open>The loop over \<^verbatim>\<open>open_inodes\<close>; \<open>Some None\<close> when it reaches the tail.\<close>

partial_function (option) find_inode :: "(addr \<Rightarrow> inode) \<Rightarrow> links \<Rightarrow> addr \<Rightarrow> addr \<Rightarrow> u32 \<Rightarrow> addr option option" where
  "find_inode ino l t elem inode_no =
     (if elem \<noteq> t then
        if i_no (ino (inode_tag_entry elem)) = inode_no then Some (Some (inode_tag_entry elem))
        else find_inode ino l t (lnext l elem) inode_no
      else Some None)"

text \<open>\<^verbatim>\<open>sys_malloc\<close> and \<^verbatim>\<open>sys_free\<close> with \<^verbatim>\<open>pgdir\<close> of the caller set to null meanwhile: the kernel's heap.\<close>

definition kernel_malloc :: "u32 \<Rightarrow> 'a fstate_scheme \<Rightarrow> (u32 \<times> 'a fstate_scheme) option" where
  "kernel_malloc sz s = do {
     let c = running_thread s;
     let cur_pagedir_bak = pgdir (tasks s c);
     (a, s1) \<leftarrow> sys_malloc sz (upd_task c (pgdir_update (\<lambda>_. NULL)) s);
     Some (a, upd_task c (pgdir_update (\<lambda>_. cur_pagedir_bak)) s1)
   }"

definition kernel_free :: "addr \<Rightarrow> 'a fstate_scheme \<Rightarrow> 'a fstate_scheme option" where
  "kernel_free a s = do {
     let c = running_thread s;
     let cur_pagedir_bak = pgdir (tasks s c);
     s1 \<leftarrow> sys_free a (upd_task c (pgdir_update (\<lambda>_. NULL)) s);
     Some (upd_task c (pgdir_update (\<lambda>_. cur_pagedir_bak)) s1)
   }"

text \<open>The inode at a position, read from the disk.\<close>

definition load_inode :: "part_ptr \<Rightarrow> inode_position \<Rightarrow> 'a fstate_scheme \<Rightarrow> (inode \<times> 'a fstate_scheme) option" where
  "load_inode q pos s = do {
     (inode_buf, s1) \<leftarrow> ide_read (part_disk q s) (sec_lba pos) (pos_secs pos) s;
     i \<leftarrow> inode_at inode_buf (unat (off_size pos));
     Some (i, s1)
   }"

definition inode_open :: "part_ptr \<Rightarrow> u32 \<Rightarrow> 'a fstate_scheme \<Rightarrow> (addr \<times> 'a fstate_scheme) option" where
  "inode_open q inode_no s = do {
     let l = open_inodes (parts s q);
     found \<leftarrow> find_inode (inodes s) (lnks s) (list_tail l) (lnext (lnks s) (list_head l)) inode_no;
     case found of
       Some a \<Rightarrow> Some (a, upd_inode a (\<lambda>i. i\<lparr>i_open_cnts := i_open_cnts i + 1\<rparr>) s)
     | None \<Rightarrow> do {
         pos \<leftarrow> inode_locate q inode_no s;
         (a, s1) \<leftarrow> kernel_malloc (of_nat sizeof_inode) s;
         (b, s2) \<leftarrow> sys_malloc (if two_sec pos then 1024 else 512) s1;
         (i, s3) \<leftarrow> load_inode q pos s2;
         let s4 = upd_inode a (\<lambda>_. i) s3;
         let s5 = s4\<lparr>lnks := list_push l (inode_tag a) (lnks s4)\<rparr>;
         let s6 = upd_inode a (i_open_cnts_update (\<lambda>_. 1)) s5;
         s7 \<leftarrow> sys_free b s6;
         Some (a, s7)
       }
   }"

definition inode_close :: "addr \<Rightarrow> 'a fstate_scheme \<Rightarrow> 'a fstate_scheme option" where
  "inode_close a s = do {
     let (old_status, s1) = intr_disable s;
     let s2 = upd_inode a (\<lambda>i. i\<lparr>i_open_cnts := i_open_cnts i - 1\<rparr>) s1;
     s3 \<leftarrow> (if i_open_cnts (inodes s2 a) = 0
            then kernel_free a (s2\<lparr>lnks := list_remove (inode_tag a) (lnks s2)\<rparr>) else Some s2);
     Some (snd (intr_set_status old_status s3))
   }"

definition inode_init :: "u32 \<Rightarrow> inode" where
  "inode_init inode_no = \<lparr>i_no = inode_no, i_size = 0, i_open_cnts = 0, write_deny = 0, i_sectors = replicate 13 0\<rparr>"

section \<open>Releasing an inode\<close>

text \<open>The 140 block addresses of a file: twelve from the inode and those of the table, or zeros.\<close>

definition collect_blocks :: "part_ptr \<Rightarrow> inode \<Rightarrow> 'a fstate_scheme \<Rightarrow> (u32 list \<times> 'a fstate_scheme) option" where
  "collect_blocks q i s = do {
     t \<leftarrow> rd (i_sectors i) 12;
     if t \<noteq> 0 then do {
       (bs, s1) \<leftarrow> ide_read (part_disk q s) t 1 s;
       ws \<leftarrow> le32s bs 0 128;
       Some (take 12 (i_sectors i) @ ws, s1)
     } else Some (take 12 (i_sectors i) @ replicate 128 0, s)
   }"

text \<open>The bit is cleared in the bitmap of \<open>part\<close>, and a sector of the bitmap of \<^verbatim>\<open>cur_part\<close> is written.\<close>

definition release_block :: "part_ptr \<Rightarrow> u32 \<Rightarrow> 'a fstate_scheme \<Rightarrow> 'a fstate_scheme option" where
  "release_block q lba s = do {
     let block_bitmap_idx = lba - data_start_lba (sb (parts s q));
     ASSERT (block_bitmap_idx > 0);
     s1 \<leftarrow> clear_block q block_bitmap_idx s;
     bitmap_sync (cur_part s1) block_bitmap_idx BLOCK_BITMAP s1
   }"

fun release_blocks :: "part_ptr \<Rightarrow> u32 list \<Rightarrow> 'a fstate_scheme \<Rightarrow> 'a fstate_scheme option" where
  "release_blocks q [] s = Some s"
| "release_blocks q (b # bs) s = do {
     s1 \<leftarrow> (if b \<noteq> 0 then release_block q b s else Some s);
     release_blocks q bs s1
   }"

definition inode_release :: "part_ptr \<Rightarrow> u32 \<Rightarrow> 'a fstate_scheme \<Rightarrow> 'a fstate_scheme option" where
  "inode_release q inode_no s = do {
     (a, s1) \<leftarrow> inode_open q inode_no s;
     let i = inodes s1 a;
     ASSERT (i_no i = inode_no);
     (all_blocks, s2) \<leftarrow> collect_blocks q i s1;
     t \<leftarrow> rd (i_sectors i) 12;
     s3 \<leftarrow> (if t \<noteq> 0 then release_block q t s2 else Some s2);
     s4 \<leftarrow> release_blocks q (take (if t \<noteq> 0 then 140 else 12) all_blocks) s3;
     b \<leftarrow> bitmap_set (inode_bitmap (parts s4 q)) (unat inode_no) 0;
     let s5 = upd_part q (inode_bitmap_update (\<lambda>_. b)) s4;
     s6 \<leftarrow> bitmap_sync (cur_part s5) inode_no INODE_BITMAP s5;
     (io, s7) \<leftarrow> sys_malloc 1024 s6;
     s8 \<leftarrow> inode_delete q inode_no (replicate 1024 0) s7;
     s9 \<leftarrow> sys_free io s8;
     inode_close a s9
   }"

end
