(* ===== verification/Console.thy ===== *)
theory Console
  imports Inode Stdio
begin

text \<open>
  The console (src/device/console.c) and \<^verbatim>\<open>printk\<close> (src/kernel/printk.c): output under the lock of the console. \<^verbatim>\<open>put_str\<close>, \<^verbatim>\<open>put_char\<close> and \<^verbatim>\<open>put_int\<close>
  (src/lib/print.asm) write at the end of \<open>screen\<close>. A thread that finds the lock taken sleeps; the routines here are for a thread that gets it, and are
  \<open>None\<close> otherwise.
\<close>

section \<open>Output without the lock\<close>

definition put_str :: "u8 list \<Rightarrow> 'a fstate_scheme \<Rightarrow> 'a fstate_scheme option" where
  "put_str str s = do {
     n \<leftarrow> strlen str 0;
     Some (s\<lparr>screen := screen s @ take n str\<rparr>)
   }"

definition put_char :: "u8 \<Rightarrow> 'a fstate_scheme \<Rightarrow> 'a fstate_scheme" where
  "put_char ch s = s\<lparr>screen := screen s @ [ch]\<rparr>"

text \<open>\<^verbatim>\<open>put_int\<close>: eight hexadecimal digits, without the zeros in front.\<close>

definition hex_digit :: "u32 \<Rightarrow> u8" where
  "hex_digit d = (if d > 9 then ucast (d - 10 + 65) else ucast (d + 48))"

definition put_int_buffer :: "u32 \<Rightarrow> u8 list" where
  "put_int_buffer num = map (\<lambda>edi. hex_digit (drop_bit (4 * (7 - edi)) num AND 0xf)) [0..<8]"

definition put_int_text :: "u32 \<Rightarrow> u8 list" where
  "put_int_text num = (let ds = dropWhile (\<lambda>c. c = 48) (put_int_buffer num) in if ds = [] then [48] else ds)"

definition put_int :: "u32 \<Rightarrow> 'a fstate_scheme \<Rightarrow> 'a fstate_scheme" where
  "put_int num s = s\<lparr>screen := screen s @ put_int_text num\<rparr>"

section \<open>The console\<close>

definition console_init :: "'a fstate_scheme \<Rightarrow> 'a fstate_scheme" where
  "console_init s = lock_init (console_lock s) s"

definition console_acquire :: "'a fstate_scheme \<Rightarrow> 'a fstate_scheme option" where
  "console_acquire s = with_lock (console_lock s) s"

definition console_release :: "'a fstate_scheme \<Rightarrow> 'a fstate_scheme option" where
  "console_release s = lock_release (console_lock s) s"

definition console_put_str :: "u8 list \<Rightarrow> 'a fstate_scheme \<Rightarrow> 'a fstate_scheme option" where
  "console_put_str str s = do {
     s1 \<leftarrow> console_acquire s;
     s2 \<leftarrow> put_str str s1;
     console_release s2
   }"

definition console_put_char :: "u8 \<Rightarrow> 'a fstate_scheme \<Rightarrow> 'a fstate_scheme option" where
  "console_put_char ch s = do {
     s1 \<leftarrow> console_acquire s;
     console_release (put_char ch s1)
   }"

definition console_put_int :: "u32 \<Rightarrow> 'a fstate_scheme \<Rightarrow> 'a fstate_scheme option" where
  "console_put_int num s = do {
     s1 \<leftarrow> console_acquire s;
     console_release (put_int num s1)
   }"

definition msg :: "string \<Rightarrow> u8 list" where
  "msg t = str_bytes t @ [0]"

definition printk :: "u8 list \<Rightarrow> arg list \<Rightarrow> 'a fstate_scheme \<Rightarrow> 'a fstate_scheme option" where
  "printk fmt args s = do {
     b0 \<leftarrow> memset (replicate 1024 0) 0 0 1024;
     (_, b) \<leftarrow> vsprintf b0 fmt args;
     console_put_str b s
   }"

section \<open>Failed assertions\<close>

text \<open>\<^verbatim>\<open>while(1);\<close>\<close>

partial_function (option) spin :: "'s \<Rightarrow> 's option" where
  "spin s = spin s"

text \<open>What \<^verbatim>\<open>panic_spin\<close> writes before it stops (src/lib/debug.c). It does not take the lock of the console.\<close>

definition panic_report :: "u8 list \<Rightarrow> u32 \<Rightarrow> u8 list \<Rightarrow> u8 list \<Rightarrow> 'a fstate_scheme \<Rightarrow> 'a fstate_scheme option" where
  "panic_report filename line func condition s = do {
     let s0 = snd (intr_disable s);
     s1 \<leftarrow> put_str (msg ''\<newline>\<newline>\<newline>!!!!!! error !!!!!!!!\<newline>'') s0;
     s2 \<leftarrow> put_str (msg ''filename:'') s1;
     s3 \<leftarrow> put_str filename s2;
     s4 \<leftarrow> put_str (msg ''\<newline>'') s3;
     s5 \<leftarrow> put_str (msg ''line:'') s4;
     s6 \<leftarrow> put_str (msg ''\<newline>'') (put_int line s5);
     s7 \<leftarrow> put_str (msg ''function:'') s6;
     s8 \<leftarrow> put_str func s7;
     s9 \<leftarrow> put_str (msg ''\<newline>'') s8;
     s10 \<leftarrow> put_str (msg ''condition:'') s9;
     s11 \<leftarrow> put_str condition s10;
     put_str (msg ''\<newline>'') s11
   }"

definition panic_spin :: "u8 list \<Rightarrow> u32 \<Rightarrow> u8 list \<Rightarrow> u8 list \<Rightarrow> 'a fstate_scheme \<Rightarrow> 'a fstate_scheme option" where
  "panic_spin filename line func condition s = do {
     s1 \<leftarrow> panic_report filename line func condition s;
     spin s1
   }"

section \<open>Output when nobody else writes\<close>

definition console_free :: "'a fstate_scheme \<Rightarrow> bool" where
  "console_free s \<longleftrightarrow> lock_free (console_lock s) s"

lemma console_free_screen [simp]: "console_free (s\<lparr>screen := x\<rparr>) = console_free s"
  by (simp add: console_free_def lock_free_def)

text \<open>After \<^verbatim>\<open>console_init\<close> the console is free, so that output under the lock is the same as output without it.\<close>

lemma console_init_free: "cur s \<noteq> NULL \<Longrightarrow> console_free (console_init s)"
  using list_empty_rep [OF list_init_rep]
  by (simp add: console_free_def console_init_def lock_free_def lock_init_def sema_init_def set_lock_def set_sema_value_def Let_def)

lemma console_free_same:
  "cur s' = cur s \<Longrightarrow> lnks s' = lnks s \<Longrightarrow> sema_value s' = sema_value s \<Longrightarrow> lock_holder s' = lock_holder s \<Longrightarrow> lock_repeat_nr s' = lock_repeat_nr s \<Longrightarrow>
    console_lock s' = console_lock s \<Longrightarrow> console_free s' = console_free s"
  by (simp add: console_free_def lock_free_def)

lemma console_round:
  assumes "console_free s"
  shows "console_acquire s = Some (locked (console_lock s) s)"
    and "console_release ((locked (console_lock s) s)\<lparr>screen := x\<rparr>) = Some (s\<lparr>screen := x\<rparr>)"
proof -
  let ?l = "console_lock s"
  have free: "lock_free ?l s"
    using assms by (simp add: console_free_def)
  then show "console_acquire s = Some (locked ?l s)"
    by (simp add: console_acquire_def with_lock_free)
  have "lock_mine ?l ((locked ?l s)\<lparr>screen := x\<rparr>)"
    using locked_mine [OF free] by (simp add: lock_mine_def)
  moreover have "unlocked ?l ((locked ?l s)\<lparr>screen := x\<rparr>) = s\<lparr>screen := x\<rparr>"
    using free by (simp add: lock_free_def unlocked_def locked_def fun_upd_idem)
  moreover have "console_lock ((locked ?l s)\<lparr>screen := x\<rparr>) = ?l"
    by (simp add: locked_def)
  ultimately show "console_release ((locked ?l s)\<lparr>screen := x\<rparr>) = Some (s\<lparr>screen := x\<rparr>)"
    by (simp add: console_release_def lock_release_mine)
qed

lemma screen_locked [simp]: "screen (locked l s) = screen s"
  by (simp add: locked_def)

lemma put_str_ok: "terminated str 0 \<Longrightarrow> put_str str s = Some (s\<lparr>screen := screen s @ cstr str 0\<rparr>)"
  using takeWhile_eq_take [of "\<lambda>c. c \<noteq> 0" str] by (simp add: put_str_def strlen_eq cstr_def)

lemma console_put_str_ok:
  "console_free s \<Longrightarrow> terminated str 0 \<Longrightarrow> console_put_str str s = Some (s\<lparr>screen := screen s @ cstr str 0\<rparr>)"
  by (simp add: console_put_str_def console_round put_str_ok)

lemma console_put_char_ok: "console_free s \<Longrightarrow> console_put_char c s = Some (s\<lparr>screen := screen s @ [c]\<rparr>)"
  by (simp add: console_put_char_def console_round put_char_def)

lemma console_put_int_ok: "console_free s \<Longrightarrow> console_put_int n s = Some (put_int n s)"
  by (simp add: console_put_int_def console_round put_int_def)

lemma zeros_tail:
  assumes "n < m" and "0 \<notin> set xs"
  shows "cstr (xs @ replicate (m - n) 0) 0 = xs" and "terminated (xs @ replicate (m - n) 0) 0"
proof -
  have r: "replicate (m - n) (0 :: u8) = 0 # replicate (m - Suc n) 0"
    using assms(1) by (metis Suc_diff_Suc replicate_Suc)
  show "cstr (xs @ replicate (m - n) 0) 0 = xs" and "terminated (xs @ replicate (m - n) 0) 0"
    unfolding r using cstr_append [OF assms(2), of "[]" 0] terminated_append [of "[]" 0 xs] by simp_all
qed

lemma length_digits: "2 \<le> b \<Longrightarrow> n < 2 ^ k \<Longrightarrow> length (digits b n) \<le> Suc k"
proof (induction b n arbitrary: k rule: digits.induct)
  case (1 b n)
  show ?case
  proof (cases "n < b")
    case False
    then obtain m where k: "k = Suc m"
      using "1.prems" by (cases k) auto
    have "n div b \<le> n div 2"
      using "1.prems"(1) by (simp add: div_le_mono2)
    then have "n div b < 2 ^ m"
      using "1.prems"(2) k by simp
    then show ?thesis
      using "1.IH" [of m] "1.prems"(1) False k by (simp add: digits.simps [of b n])
  qed (simp add: digits.simps [of b n])
qed

lemma length_digits_word: "2 \<le> b \<Longrightarrow> length (digits b (unat (v :: u32))) \<le> 33"
  using length_digits [of b "unat v" 32] unsigned_less [of v] by simp

lemma printk_ok:
  assumes "terminated fmt 0" and "render (cstr fmt 0) args = Some out" and "length out < 1024" and "0 \<notin> set out" and "console_free s"
  shows "printk fmt args s = Some (s\<lparr>screen := screen s @ out\<rparr>)"
proof -
  have "memset (replicate 1024 0) 0 0 1024 = Some (replicate 1024 (0 :: u8))"
    by (simp add: memset_eq)
  moreover have "vsprintf (replicate 1024 0) fmt args = Some (length out, out @ replicate (1024 - length out) 0)"
    using sprintf_render [OF assms(1-4)] by (simp add: sprintf_def)
  ultimately show ?thesis
    using console_put_str_ok [OF assms(5)] zeros_tail [OF assms(3,4)] by (simp add: printk_def)
qed

section \<open>Reports of failures\<close>

lemma spin_never [simp]: "spin s = None"
proof -
  have "False" if "spin s = Some y" for y
    using _ that by (rule spin.raw_induct [where P = "\<lambda>_ _. False"]) blast
  then show ?thesis
    by (cases "spin s") auto
qed

lemma panic_spin_stops: "panic_spin filename line func condition s = None"
  by (cases "panic_report filename line func condition s") (simp_all add: panic_spin_def)

text \<open>
  A failed assertion of the kernel turns interrupts off and leaves on the screen the file, the line in hexadecimal, the function and the condition; it
  touches nothing else, the lock of the console included.
\<close>

lemma msg_terminated: "0 \<notin> set (str_bytes t) \<Longrightarrow> terminated (msg t) 0 \<and> cstr (msg t) 0 = str_bytes t"
  using cstr_append [of "str_bytes t" "[]" 0] terminated_append [of "[]" 0 "str_bytes t"] by (simp add: msg_def)

lemma put_msg: "0 \<notin> set (str_bytes t) \<Longrightarrow> put_str (msg t) s = Some (s\<lparr>screen := screen s @ str_bytes t\<rparr>)"
  using put_str_ok [of "msg t" s] msg_terminated [of t] by simp

lemma panic_report_text:
  assumes "terminated filename 0" and "terminated func 0" and "terminated condition 0"
  shows "panic_report filename line func condition s = Some (s\<lparr>intr := INTR_OFF, screen := screen s @
    str_bytes ''\<newline>\<newline>\<newline>!!!!!! error !!!!!!!!\<newline>filename:'' @ cstr filename 0 @ str_bytes ''\<newline>line:'' @ put_int_text line @
    str_bytes ''\<newline>function:'' @ cstr func 0 @ str_bytes ''\<newline>condition:'' @ cstr condition 0 @ str_bytes ''\<newline>''\<rparr>)"
  using assms by (simp add: panic_report_def put_str_ok put_int_def put_msg str_bytes_def)

end
