(* ===== verification/Dir.thy ===== *)
theory Dir
  imports Console
begin

text \<open>
  Directories, src/fs/dir.c. A \<^verbatim>\<open>struct dir\<close> at address \<open>d\<close> is \<open>dirs s d\<close>. A \<^verbatim>\<open>struct dir_entry\<close> is 24 bytes
  of a buffer: sixteen of the name, the inode number and the type. A local \<^verbatim>\<open>struct dir_entry\<close> is a
  buffer of 24 bytes. \<^verbatim>\<open>dir_entry_size\<close> of the super block bounds the copies and gives the number of
  entries in a sector; pointers to entries advance by 24.

  The counters \<^verbatim>\<open>block_idx\<close>, \<^verbatim>\<open>dir_entry_idx\<close> and \<^verbatim>\<open>dir_entry_cnt\<close> stay below 141 or below the number of
  entries in a sector and are natural numbers.
\<close>

section \<open>Entries\<close>

definition FT_UNKNOWN :: u32 where "FT_UNKNOWN = 0"
definition FT_REGULAR :: u32 where "FT_REGULAR = 1"
definition FT_DIRECTORY :: u32 where "FT_DIRECTORY = 2"

definition sizeof_dir_entry :: nat where
  "sizeof_dir_entry = 24"

definition de_i_no :: "u8 list \<Rightarrow> nat \<Rightarrow> u32 option" where
  "de_i_no bs k = le32 bs (sizeof_dir_entry * k + 16)"

definition de_f_type :: "u8 list \<Rightarrow> nat \<Rightarrow> u32 option" where
  "de_f_type bs k = le32 bs (sizeof_dir_entry * k + 20)"

definition put32 :: "u8 list \<Rightarrow> nat \<Rightarrow> u32 \<Rightarrow> u8 list option" where
  "put32 bs off w = memcpy bs off (le_bytes w) 0 4"

definition create_dir_entry :: "u8 list \<Rightarrow> nat \<Rightarrow> u32 \<Rightarrow> u8 \<Rightarrow> u8 list \<Rightarrow> u8 list option" where
  "create_dir_entry filename off inode_no file_type p_de = do {
     len \<leftarrow> strlen filename off;
     ASSERT (len \<le> MAX_FILE_NAME_LEN);
     p1 \<leftarrow> memcpy p_de 0 filename off len;
     p2 \<leftarrow> put32 p1 16 inode_no;
     put32 p2 20 (ucast file_type)
   }"

definition entries_per_sec :: "part_ptr \<Rightarrow> 'a fstate_scheme \<Rightarrow> nat option" where
  "entries_per_sec q s = do {
     let n = dir_entry_size (sb (parts s q));
     ASSERT (n \<noteq> 0);
     Some (unat (SECTOR_SIZE div n))
   }"

section \<open>Opening and closing\<close>

definition open_root_dir :: "part_ptr \<Rightarrow> 'a fstate_scheme \<Rightarrow> 'a fstate_scheme option" where
  "open_root_dir q s = do {
     (a, s1) \<leftarrow> inode_open q (root_inode_no (sb (parts s q))) s;
     let r = root_dir s1;
     Some (s1\<lparr>dirs := (dirs s1)(r := (dirs s1 r)\<lparr>dir_inode := a, dir_pos := 0\<rparr>)\<rparr>)
   }"

text \<open>The memory of the new \<^verbatim>\<open>struct dir\<close>, 520 bytes, is cleared by \<^verbatim>\<open>sys_malloc\<close>.\<close>

definition dir_open :: "part_ptr \<Rightarrow> u32 \<Rightarrow> 'a fstate_scheme \<Rightarrow> (addr \<times> 'a fstate_scheme) option" where
  "dir_open q inode_no s = do {
     (pdir, s1) \<leftarrow> sys_malloc 520 s;
     (a, s2) \<leftarrow> inode_open q inode_no s1;
     Some (pdir, s2\<lparr>dirs := (dirs s2)(pdir := \<lparr>dir_inode = a, dir_pos = 0, dir_buf = replicate 512 0\<rparr>)\<rparr>)
   }"

definition dir_close :: "addr \<Rightarrow> 'a fstate_scheme \<Rightarrow> 'a fstate_scheme option" where
  "dir_close d s =
     (if d = root_dir s then Some s
      else do {
        s1 \<leftarrow> inode_close (dir_inode (dirs s d)) s;
        sys_free d s1
      })"

section \<open>Searching\<close>

text \<open>The inner loop: the index of the entry of this sector with the given name.\<close>

fun search_entries :: "u8 list \<Rightarrow> nat \<Rightarrow> nat \<Rightarrow> u8 list \<Rightarrow> nat option option" where
  "search_entries bs 0 k nm = Some None"
| "search_entries bs (Suc n) k nm = do {
     c \<leftarrow> strcmp bs (sizeof_dir_entry * k) nm 0;
     if c = 0 then Some (Some k) else search_entries bs n (Suc k) nm
   }"

text \<open>The outer loop; the result is the sector and the index of the entry found in it.\<close>

fun search_blocks :: "part_ptr \<Rightarrow> u32 list \<Rightarrow> nat \<Rightarrow> u8 list \<Rightarrow> 'a fstate_scheme \<Rightarrow>
    ((u8 list \<times> nat) option \<times> 'a fstate_scheme) option" where
  "search_blocks q [] cnt nm s = Some (None, s)"
| "search_blocks q (b # blocks) cnt nm s =
     (if b = 0 then search_blocks q blocks cnt nm s
      else do {
        (bs, s1) \<leftarrow> ide_read (part_disk q s) b 1 s;
        r \<leftarrow> search_entries bs cnt 0 nm;
        case r of Some k \<Rightarrow> Some (Some (bs, k), s1) | None \<Rightarrow> search_blocks q blocks cnt nm s1
      })"

definition search_dir_entry :: "part_ptr \<Rightarrow> addr \<Rightarrow> u8 list \<Rightarrow> u8 list \<Rightarrow> 'a fstate_scheme \<Rightarrow>
    (bool \<times> u8 list \<times> 'a fstate_scheme) option" where
  "search_dir_entry q pdir nm dir_e s = do {
     (ab, s1) \<leftarrow> sys_malloc (48 + 512) s;
     if ab = NULL then do {
       s2 \<leftarrow> printk (msg ''search_dir_entry: sys_malloc for all_blocks failed'') [] s1;
       Some (False, dir_e, s2)
     } else do {
       (all_blocks, s2) \<leftarrow> collect_blocks q (inodes s1 (dir_inode (dirs s1 pdir))) s1;
       (b, s3) \<leftarrow> sys_malloc SECTOR_SIZE s2;
       cnt \<leftarrow> entries_per_sec q s3;
       (r, s4) \<leftarrow> search_blocks q all_blocks cnt nm s3;
       e \<leftarrow> (case r of None \<Rightarrow> Some dir_e
             | Some (bs, k) \<Rightarrow> memcpy dir_e 0 bs (sizeof_dir_entry * k) (unat (dir_entry_size (sb (parts s4 q)))));
       s5 \<leftarrow> sys_free b s4;
       s6 \<leftarrow> sys_free ab s5;
       Some (r \<noteq> None, e, s6)
     }
   }"

section \<open>Adding an entry\<close>

definition set_sector :: "addr \<Rightarrow> nat \<Rightarrow> u32 \<Rightarrow> 'a fstate_scheme \<Rightarrow> 'a fstate_scheme option" where
  "set_sector a k v s = do {
     xs \<leftarrow> wr (i_sectors (inodes s a)) k v;
     Some (upd_inode a (i_sectors_update (\<lambda>_. xs)) s)
   }"

definition get_sector :: "addr \<Rightarrow> nat \<Rightarrow> 'a fstate_scheme \<Rightarrow> u32 option" where
  "get_sector a k s = rd (i_sectors (inodes s a)) k"

text \<open>A block is allocated and the bitmap sector with its bit is written; \<open>-1\<close> when there is none.\<close>

definition alloc_synced :: "'a fstate_scheme \<Rightarrow> (u32 \<times> 'a fstate_scheme) option" where
  "alloc_synced s = do {
     let q = cur_part s;
     (block_lba, s1) \<leftarrow> block_bitmap_alloc q s;
     if block_lba = -1 then Some (-1, s1)
     else do {
       let block_bitmap_idx = block_lba - data_start_lba (sb (parts s1 q));
       ASSERT (block_bitmap_idx \<noteq> -1);
       s2 \<leftarrow> bitmap_sync q block_bitmap_idx BLOCK_BITMAP s1;
       Some (block_lba, s2)
     }
   }"

text \<open>The new block gets its place in the inode \<open>a\<close> or in the table; \<open>None\<close> inside is the early return.\<close>

definition place_block :: "addr \<Rightarrow> nat \<Rightarrow> u32 list \<Rightarrow> u32 \<Rightarrow> 'a fstate_scheme \<Rightarrow> (u32 list option \<times> 'a fstate_scheme) option" where
  "place_block a block_idx all_blocks block_lba s =
     (let q = cur_part s in
      if block_idx < 12 then do {
        s1 \<leftarrow> set_sector a block_idx block_lba s;
        bs \<leftarrow> wr all_blocks block_idx block_lba;
        Some (Some bs, s1)
      } else if block_idx = 12 then do {
        s1 \<leftarrow> set_sector a 12 block_lba s;
        (lba2, s2) \<leftarrow> block_bitmap_alloc q s1;
        if lba2 = -1 then do {
          t \<leftarrow> get_sector a 12 s2;
          s3 \<leftarrow> clear_block q (t - data_start_lba (sb (parts s2 q))) s2;
          s4 \<leftarrow> set_sector a 12 0 s3;
          s5 \<leftarrow> printk (msg ''alloc block bitmap for sync_dir_entry failed\<newline>'') [] s4;
          Some (None, s5)
        } else do {
          let block_bitmap_idx = lba2 - data_start_lba (sb (parts s2 q));
          ASSERT (block_bitmap_idx \<noteq> -1);
          s3 \<leftarrow> bitmap_sync q block_bitmap_idx BLOCK_BITMAP s2;
          bs \<leftarrow> wr all_blocks 12 lba2;
          t \<leftarrow> get_sector a 12 s3;
          s4 \<leftarrow> ide_write (part_disk q s3) t (words_bytes (drop 12 bs)) 1 s3;
          Some (Some bs, s4)
        }
      } else do {
        bs \<leftarrow> wr all_blocks block_idx block_lba;
        t \<leftarrow> get_sector a 12 s;
        s1 \<leftarrow> ide_write (part_disk q s) t (words_bytes (drop 12 bs)) 1 s;
        Some (Some bs, s1)
      })"

definition add_to_size :: "addr \<Rightarrow> u32 \<Rightarrow> 'a fstate_scheme \<Rightarrow> 'a fstate_scheme" where
  "add_to_size a n s = upd_inode a (\<lambda>i. i\<lparr>i_size := i_size i + n\<rparr>) s"

definition entry_in_new_block :: "addr \<Rightarrow> nat \<Rightarrow> u32 list \<Rightarrow> u8 list \<Rightarrow> u8 list \<Rightarrow> 'a fstate_scheme \<Rightarrow> (bool \<times> 'a fstate_scheme) option" where
  "entry_in_new_block a block_idx all_blocks p_de io_buf s = do {
     (block_lba, s1) \<leftarrow> alloc_synced s;
     if block_lba = -1 then do {
       s2 \<leftarrow> printk (msg ''alloc block bitmap for sync_dir_entry failed\<newline>'') [] s1;
       Some (False, s2)
     } else do {
       (r, s2) \<leftarrow> place_block a block_idx all_blocks block_lba s1;
       case r of None \<Rightarrow> Some (False, s2)
       | Some bs \<Rightarrow> do {
           let n = dir_entry_size (sb (parts s2 (cur_part s2)));
           b1 \<leftarrow> memset io_buf 0 0 512;
           b2 \<leftarrow> memcpy b1 0 p_de 0 (unat n);
           lba \<leftarrow> rd bs block_idx;
           s3 \<leftarrow> ide_write (part_disk (cur_part s2) s2) lba b2 1 s2;
           Some (True, add_to_size a n s3)
         }
     }
   }"

text \<open>The first entry of the sector, from \<open>k\<close> on, whose type is \<^verbatim>\<open>FT_UNKNOWN\<close>.\<close>

fun free_entry :: "u8 list \<Rightarrow> nat \<Rightarrow> nat \<Rightarrow> nat option option" where
  "free_entry bs 0 k = Some None"
| "free_entry bs (Suc n) k = do {
     t \<leftarrow> de_f_type bs k;
     if t = FT_UNKNOWN then Some (Some k) else free_entry bs n (Suc k)
   }"

text \<open>The loop over the blocks \<open>block_idx\<close>, \<open>block_idx + 1\<close>, ..., 139.\<close>

fun sync_loop :: "nat \<Rightarrow> addr \<Rightarrow> nat \<Rightarrow> nat \<Rightarrow> u32 list \<Rightarrow> u8 list \<Rightarrow> u8 list \<Rightarrow> 'a fstate_scheme \<Rightarrow> (bool \<times> 'a fstate_scheme) option" where
  "sync_loop 0 a per_sec block_idx all_blocks p_de io_buf s = do {
     s1 \<leftarrow> printk (msg ''directory is full!\<newline>'') [] s;
     Some (False, s1)
   }"
| "sync_loop (Suc m) a per_sec block_idx all_blocks p_de io_buf s = do {
     b \<leftarrow> rd all_blocks block_idx;
     if b = 0 then entry_in_new_block a block_idx all_blocks p_de io_buf s
     else do {
       (bf, s1) \<leftarrow> ide_read_buf (part_disk (cur_part s) s) b io_buf 1 s;
       r \<leftarrow> free_entry bf per_sec 0;
       case r of None \<Rightarrow> sync_loop m a per_sec (Suc block_idx) all_blocks p_de bf s1
       | Some k \<Rightarrow> do {
           let n = dir_entry_size (sb (parts s1 (cur_part s1)));
           bf1 \<leftarrow> memcpy bf (sizeof_dir_entry * k) p_de 0 (unat n);
           s2 \<leftarrow> ide_write (part_disk (cur_part s1) s1) b bf1 1 s1;
           Some (True, add_to_size a n s2)
         }
     }
   }"

definition sync_dir_entry :: "addr \<Rightarrow> u8 list \<Rightarrow> u8 list \<Rightarrow> 'a fstate_scheme \<Rightarrow> (bool \<times> 'a fstate_scheme) option" where
  "sync_dir_entry parent_dir p_de io_buf s = do {
     let a = dir_inode (dirs s parent_dir);
     per_sec \<leftarrow> entries_per_sec (cur_part s) s;
     ASSERT (i_size (inodes s a) mod dir_entry_size (sb (parts s (cur_part s))) = 0);
     sync_loop 140 a per_sec 0 (take 12 (i_sectors (inodes s a)) @ replicate 128 0) p_de io_buf s
   }"

section \<open>Deleting an entry\<close>

text \<open>
  The pass over the entries of a sector: whether \<^verbatim>\<open>"."\<close> is among them, how many others there are
  besides \<^verbatim>\<open>"."\<close> and \<^verbatim>\<open>".."\<close>, and which of them has the inode number.
\<close>

fun scan_entries :: "u8 list \<Rightarrow> u32 \<Rightarrow> nat \<Rightarrow> nat \<Rightarrow> bool \<times> nat \<times> nat option \<Rightarrow> (bool \<times> nat \<times> nat option) option" where
  "scan_entries bs inode_no 0 k r = Some r"
| "scan_entries bs inode_no (Suc n) k (is_first, cnt, found) = do {
     t \<leftarrow> de_f_type bs k;
     if t = FT_UNKNOWN then scan_entries bs inode_no n (Suc k) (is_first, cnt, found)
     else do {
       c1 \<leftarrow> strcmp bs (sizeof_dir_entry * k) dot 0;
       c2 \<leftarrow> strcmp bs (sizeof_dir_entry * k) dotdot 0;
       if c1 = 0 then scan_entries bs inode_no n (Suc k) (True, cnt, found)
       else if c2 \<noteq> 0 then do {
         i \<leftarrow> de_i_no bs k;
         ASSERT (i = inode_no \<longrightarrow> found = None);
         scan_entries bs inode_no n (Suc k) (is_first, cnt + 1, if i = inode_no then Some k else found)
       } else scan_entries bs inode_no n (Suc k) (is_first, cnt, found)
     }
   }"

text \<open>
  \<^verbatim>\<open>while (indirect_block_idx < 140)\<close>: the body never changes \<^verbatim>\<open>indirect_block_idx\<close>.
\<close>

partial_function (option) count_indirect :: "u32 list \<Rightarrow> nat \<Rightarrow> u32 \<Rightarrow> u32 option" where
  "count_indirect all_blocks indirect_block_idx indirect_blocks =
     (if indirect_block_idx < 140 then
        Option.bind (rd all_blocks indirect_block_idx) (\<lambda>b.
          count_indirect all_blocks indirect_block_idx (if b \<noteq> 0 then indirect_blocks + 1 else indirect_blocks))
      else Some indirect_blocks)"

text \<open>The sector holds no other entry: give it back.\<close>

definition drop_dir_block :: "part_ptr \<Rightarrow> addr \<Rightarrow> nat \<Rightarrow> u32 list \<Rightarrow> 'a fstate_scheme \<Rightarrow> 'a fstate_scheme option" where
  "drop_dir_block q a block_idx all_blocks s = do {
     lba \<leftarrow> rd all_blocks block_idx;
     let block_bitmap_idx = lba - data_start_lba (sb (parts s q));
     s1 \<leftarrow> clear_block q block_bitmap_idx s;
     s2 \<leftarrow> bitmap_sync (cur_part s1) block_bitmap_idx BLOCK_BITMAP s1;
     if block_idx < 12 then set_sector a block_idx 0 s2
     else do {
       indirect_blocks \<leftarrow> count_indirect all_blocks 12 0;
       ASSERT (indirect_blocks \<ge> 1);
       t \<leftarrow> get_sector a 12 s2;
       if indirect_blocks > 1 then do {
         bs \<leftarrow> wr all_blocks block_idx 0;
         ide_write (part_disk q s2) t (words_bytes (drop 12 bs)) 1 s2
       } else do {
         let idx = t - data_start_lba (sb (parts s2 q));
         s3 \<leftarrow> clear_block q idx s2;
         s4 \<leftarrow> bitmap_sync (cur_part s3) idx BLOCK_BITMAP s3;
         set_sector a 12 0 s4
       }
     }
   }"

text \<open>The loop over the blocks \<open>block_idx\<close>, \<open>block_idx + 1\<close>, ..., 139.\<close>

fun delete_loop :: "nat \<Rightarrow> part_ptr \<Rightarrow> addr \<Rightarrow> nat \<Rightarrow> nat \<Rightarrow> u32 list \<Rightarrow> u32 \<Rightarrow> u8 list \<Rightarrow> 'a fstate_scheme \<Rightarrow> (bool \<times> 'a fstate_scheme) option" where
  "delete_loop 0 q a per_sec block_idx all_blocks inode_no io_buf s = Some (False, s)"
| "delete_loop (Suc m) q a per_sec block_idx all_blocks inode_no io_buf s = do {
     b \<leftarrow> rd all_blocks block_idx;
     if b = 0 then delete_loop m q a per_sec (Suc block_idx) all_blocks inode_no io_buf s
     else do {
       io1 \<leftarrow> memset io_buf 0 0 512;
       (bf, s1) \<leftarrow> ide_read_buf (part_disk q s) b io1 1 s;
       (is_first, cnt, found) \<leftarrow> scan_entries bf inode_no per_sec 0 (False, 0, None);
       case found of None \<Rightarrow> delete_loop m q a per_sec (Suc block_idx) all_blocks inode_no bf s1
       | Some k \<Rightarrow> do {
           ASSERT (cnt \<ge> 1);
           let n = dir_entry_size (sb (parts s1 q));
           (bf2, s2) \<leftarrow> (if cnt = 1 \<and> \<not> is_first then do {
                  s' \<leftarrow> drop_dir_block q a block_idx all_blocks s1;
                  Some (bf, s')
                } else do {
                  bf1 \<leftarrow> memset bf (sizeof_dir_entry * k) 0 (unat n);
                  s' \<leftarrow> ide_write (part_disk q s1) b bf1 1 s1;
                  Some (bf1, s')
                });
           ASSERT (i_size (inodes s2 a) \<ge> n);
           let s3 = upd_inode a (\<lambda>i. i\<lparr>i_size := i_size i - n\<rparr>) s2;
           io2 \<leftarrow> memset bf2 0 0 1024;
           s4 \<leftarrow> inode_sync q (inodes s3 a) io2 s3;
           Some (True, s4)
         }
     }
   }"

text \<open>\<^verbatim>\<open>block_idx\<close> is 12 after the twelve direct blocks are collected, and the search starts there.\<close>

definition delete_dir_entry :: "part_ptr \<Rightarrow> addr \<Rightarrow> u32 \<Rightarrow> u8 list \<Rightarrow> 'a fstate_scheme \<Rightarrow> (bool \<times> 'a fstate_scheme) option" where
  "delete_dir_entry q pdir inode_no io_buf s = do {
     let a = dir_inode (dirs s pdir);
     (all_blocks, s1) \<leftarrow> collect_blocks q (inodes s a) s;
     per_sec \<leftarrow> entries_per_sec q s1;
     delete_loop 128 q a per_sec 12 all_blocks inode_no io_buf s1
   }"

section \<open>Reading a directory\<close>

text \<open>
  The inner loop of \<^verbatim>\<open>dir_read\<close>: \<open>Inr k\<close> is the entry to return, \<open>Inl pos\<close> the value of
  \<^verbatim>\<open>cur_dir_entry_pos\<close> when the sector ends first.
\<close>

fun read_entries :: "u8 list \<Rightarrow> nat \<Rightarrow> nat \<Rightarrow> u32 \<Rightarrow> u32 \<Rightarrow> u32 \<Rightarrow> (u32 + nat) option" where
  "read_entries bs 0 k n dpos pos = Some (Inl pos)"
| "read_entries bs (Suc m) k n dpos pos = do {
     t \<leftarrow> de_f_type bs k;
     if t \<noteq> 0 then
       if pos < dpos then read_entries bs m (Suc k) n dpos (pos + n)
       else do {
         ASSERT (pos = dpos);
         Some (Inr k)
       }
     else read_entries bs m (Suc k) n dpos pos
   }"

fun read_blocks :: "u32 list \<Rightarrow> nat \<Rightarrow> addr \<Rightarrow> u32 \<Rightarrow> 'a fstate_scheme \<Rightarrow> (nat option \<times> 'a fstate_scheme) option" where
  "read_blocks [] per_sec d pos s = Some (None, s)"
| "read_blocks (b # blocks) per_sec d pos s =
     (if dir_pos (dirs s d) \<ge> i_size (inodes s (dir_inode (dirs s d))) then Some (None, s)
      else if b = 0 then read_blocks blocks per_sec d pos s
      else do {
        let n = dir_entry_size (sb (parts s (cur_part s)));
        (bf, s1) \<leftarrow> ide_read_buf (part_disk (cur_part s) s) b (dir_buf (dirs s d)) 1 s;
        let s2 = s1\<lparr>dirs := (dirs s1)(d := (dirs s1 d)\<lparr>dir_buf := bf\<rparr>)\<rparr>;
        r \<leftarrow> read_entries bf per_sec 0 n (dir_pos (dirs s2 d)) pos;
        case r of Inl pos1 \<Rightarrow> read_blocks blocks per_sec d pos1 s2
        | Inr k \<Rightarrow> Some (Some k, s2\<lparr>dirs := (dirs s2)(d := (dirs s2 d)\<lparr>dir_pos := dir_pos (dirs s2 d) + n\<rparr>)\<rparr>)
      })"

text \<open>The entry returned is the one at that index of \<^verbatim>\<open>dir_buf\<close>.\<close>

definition dir_read :: "addr \<Rightarrow> 'a fstate_scheme \<Rightarrow> (nat option \<times> 'a fstate_scheme) option" where
  "dir_read d s = do {
     let i = inodes s (dir_inode (dirs s d));
     (all_blocks, s1) \<leftarrow> collect_blocks (cur_part s) i s;
     t \<leftarrow> rd (i_sectors i) 12;
     per_sec \<leftarrow> entries_per_sec (cur_part s1) s1;
     read_blocks (take (if t \<noteq> 0 then 140 else 12) all_blocks) per_sec d 0 s1
   }"

definition dir_is_empty :: "addr \<Rightarrow> 'a fstate_scheme \<Rightarrow> bool" where
  "dir_is_empty d s \<longleftrightarrow> i_size (inodes s (dir_inode (dirs s d))) = dir_entry_size (sb (parts s (cur_part s))) * 2"

definition dir_remove :: "addr \<Rightarrow> addr \<Rightarrow> 'a fstate_scheme \<Rightarrow> (int \<times> 'a fstate_scheme) option" where
  "dir_remove parent_dir child_dir s = do {
     let a = dir_inode (dirs s child_dir);
     ASSERT (length (i_sectors (inodes s a)) = 13 \<and> (\<forall>x\<in>set (drop 1 (i_sectors (inodes s a))). x = 0));
     (io, s1) \<leftarrow> sys_malloc (SECTOR_SIZE * 2) s;
     if io = NULL then do {
       s2 \<leftarrow> printk (msg ''dir_remove: malloc for io_buf failed\<newline>'') [] s1;
       Some (-1, s2)
     } else do {
       (_, s2) \<leftarrow> delete_dir_entry (cur_part s1) parent_dir (i_no (inodes s1 a)) (replicate 1024 0) s1;
       s3 \<leftarrow> inode_release (cur_part s2) (i_no (inodes s2 a)) s2;
       s4 \<leftarrow> sys_free io s3;
       Some (0, s4)
     }
   }"

end
