(* ===== verification/File.thy ===== *)
theory File
  imports Dir
begin

text \<open>
  Files, src/fs/file.c. A \<^verbatim>\<open>struct file\<close> is named by its index in \<^verbatim>\<open>file_table\<close>. File descriptors are
  integers, with \<^verbatim>\<open>-1\<close> for failure; byte counts and positions are 32-bit words.

  \<^verbatim>\<open>all_blocks\<close> is the list of the 140 words of the buffer, which \<^verbatim>\<open>sys_malloc\<close> has cleared. In the loops
  that transfer data, \<^verbatim>\<open>bytes_written\<close> (\<^verbatim>\<open>bytes_read\<close>) and \<^verbatim>\<open>size_left\<close> always add up to the number of bytes
  requested, so the test \<^verbatim>\<open>bytes_written < count\<close> is \<open>size_left > 0\<close> here.
\<close>

section \<open>Descriptors\<close>

definition O_RDONLY :: u32 where "O_RDONLY = 0"
definition O_WRONLY :: u32 where "O_WRONLY = 1"
definition O_RDWR :: u32 where "O_RDWR = 2"
definition O_CREAT :: u32 where "O_CREAT = 4"

definition upd_file :: "nat \<Rightarrow> (file_struct \<Rightarrow> file_struct) \<Rightarrow> 'a fstate_scheme \<Rightarrow> 'a fstate_scheme option" where
  "upd_file f g s = do {
     x \<leftarrow> rd (file_table s) f;
     t \<leftarrow> wr (file_table s) f (g x);
     Some (s\<lparr>file_table := t\<rparr>)
   }"

text \<open>The least index from \<open>k\<close> on at which \<open>P\<close> holds, or the bound \<open>n\<close>.\<close>

fun first_slot :: "('b \<Rightarrow> bool) \<Rightarrow> 'b list \<Rightarrow> nat \<Rightarrow> nat \<Rightarrow> nat option" where
  "first_slot P xs 0 k = Some k"
| "first_slot P xs (Suc n) k = do {
     x \<leftarrow> rd xs k;
     if P x then Some k else first_slot P xs n (Suc k)
   }"

definition get_free_slot_in_global :: "'a fstate_scheme \<Rightarrow> (int \<times> 'a fstate_scheme) option" where
  "get_free_slot_in_global s = do {
     fd_idx \<leftarrow> first_slot (\<lambda>f. fd_inode f = NULL) (file_table s) (MAX_FILE_OPEN - 3) 3;
     if fd_idx = MAX_FILE_OPEN then do {
       s1 \<leftarrow> printk (msg ''exceed max open files\<newline>'') [] s;
       Some (-1, s1)
     } else Some (int fd_idx, s)
   }"

definition pcb_fd_install :: "int \<Rightarrow> 'a fstate_scheme \<Rightarrow> (int \<times> 'a fstate_scheme) option" where
  "pcb_fd_install globa_fd_idx s = do {
     let c = running_thread s;
     local_fd_idx \<leftarrow> first_slot (\<lambda>x. x = -1) (fd_table (tasks s c)) (MAX_FILES_OPEN_PER_PROC - 3) 3;
     if local_fd_idx = MAX_FILES_OPEN_PER_PROC then do {
       s1 \<leftarrow> printk (msg ''exceed max open files_per_proc\<newline>'') [] s;
       Some (-1, s1)
     } else do {
       t \<leftarrow> wr (fd_table (tasks s c)) local_fd_idx globa_fd_idx;
       Some (int local_fd_idx, upd_task c (fd_table_update (\<lambda>_. t)) s)
     }
   }"

section \<open>Creating, opening, closing\<close>

text \<open>The label \<^verbatim>\<open>rollback\<close> with \<^verbatim>\<open>rollback_step\<close> 1, 2 or 3: each case falls through to the next.\<close>

definition rollback1 :: "u32 \<Rightarrow> addr \<Rightarrow> 'a fstate_scheme \<Rightarrow> (int \<times> 'a fstate_scheme) option" where
  "rollback1 inode_no io s = do {
     b \<leftarrow> bitmap_set (inode_bitmap (parts s (cur_part s))) (unat inode_no) 0;
     s1 \<leftarrow> sys_free io (upd_part (cur_part s) (inode_bitmap_update (\<lambda>_. b)) s);
     Some (-1, s1)
   }"

definition rollback2 :: "addr \<Rightarrow> u32 \<Rightarrow> addr \<Rightarrow> 'a fstate_scheme \<Rightarrow> (int \<times> 'a fstate_scheme) option" where
  "rollback2 a inode_no io s = do {
     s1 \<leftarrow> sys_free a s;
     rollback1 inode_no io s1
   }"

definition rollback3 :: "nat \<Rightarrow> addr \<Rightarrow> u32 \<Rightarrow> addr \<Rightarrow> 'a fstate_scheme \<Rightarrow> (int \<times> 'a fstate_scheme) option" where
  "rollback3 f a inode_no io s = do {
     s1 \<leftarrow> upd_file f (\<lambda>_. \<lparr>fd_pos = 0, fd_flag = 0, fd_inode = NULL\<rparr>) s;
     rollback2 a inode_no io s1
   }"

definition file_create :: "addr \<Rightarrow> u8 list \<Rightarrow> nat \<Rightarrow> u8 \<Rightarrow> 'a fstate_scheme \<Rightarrow> (int \<times> 'a fstate_scheme) option" where
  "file_create parent_dir filename off flag s = do {
     (io, s1) \<leftarrow> sys_malloc 1024 s;
     if io = NULL then do {
       s2 \<leftarrow> printk (msg ''in file_creat: sys_malloc for io_buf failed\<newline>'') [] s1;
       Some (-1, s2)
     } else do {
       (inode_no, s2) \<leftarrow> inode_bitmap_alloc (cur_part s1) s1;
       if inode_no = -1 then do {
         s3 \<leftarrow> printk (msg ''in file_creat: allocate inode failed\<newline>'') [] s2;
         Some (-1, s3)
       } else do {
         (a, s3) \<leftarrow> sys_malloc (of_nat sizeof_inode) s2;
         if a = NULL then do {
           s4 \<leftarrow> printk (msg ''file_create: sys_malloc for inode failded\<newline>'') [] s3;
           rollback1 inode_no io s4
         } else do {
           (fd_idx, s4) \<leftarrow> get_free_slot_in_global (upd_inode a (\<lambda>_. inode_init inode_no) s3);
           if fd_idx = -1 then do {
             s5 \<leftarrow> printk (msg ''exceed max open files\<newline>'') [] s4;
             rollback2 a inode_no io s5
           } else do {
             s5 \<leftarrow> upd_file (nat fd_idx) (\<lambda>_. \<lparr>fd_pos = 0, fd_flag = ucast flag, fd_inode = a\<rparr>) s4;
             let s6 = upd_inode a (write_deny_update (\<lambda>_. 0)) s5;
             new_dir_entry \<leftarrow> create_dir_entry filename off inode_no (ucast FT_REGULAR) (replicate 24 0);
             (ok, s7) \<leftarrow> sync_dir_entry parent_dir new_dir_entry (replicate 1024 0) s6;
             if \<not> ok then do {
               s8 \<leftarrow> printk (msg ''sync dir_entry to disk failed\<newline>'') [] s7;
               rollback3 (nat fd_idx) a inode_no io s8
             } else do {
               s8 \<leftarrow> inode_sync (cur_part s7) (inodes s7 (dir_inode (dirs s7 parent_dir))) (replicate 1024 0) s7;
               s9 \<leftarrow> inode_sync (cur_part s8) (inodes s8 a) (replicate 1024 0) s8;
               s10 \<leftarrow> bitmap_sync (cur_part s9) inode_no INODE_BITMAP s9;
               let s11 = s10\<lparr>lnks := list_push (open_inodes (parts s10 (cur_part s10))) (inode_tag a) (lnks s10)\<rparr>;
               let s12 = upd_inode a (i_open_cnts_update (\<lambda>_. 1)) s11;
               s13 \<leftarrow> sys_free io s12;
               pcb_fd_install fd_idx s13
             }
           }
         }
       }
     }
   }"

definition file_open :: "u32 \<Rightarrow> u8 \<Rightarrow> 'a fstate_scheme \<Rightarrow> (int \<times> 'a fstate_scheme) option" where
  "file_open inode_no flag s = do {
     (fd_idx, s0) \<leftarrow> get_free_slot_in_global s;
     if fd_idx = -1 then do {
       s1 \<leftarrow> printk (msg ''exceed max open files\<newline>'') [] s0;
       Some (-1, s1)
     } else do {
       (a, s1) \<leftarrow> inode_open (cur_part s0) inode_no s0;
       s2 \<leftarrow> upd_file (nat fd_idx) (\<lambda>_. \<lparr>fd_pos = 0, fd_flag = ucast flag, fd_inode = a\<rparr>) s1;
       if ucast flag = O_WRONLY \<or> ucast flag = O_RDWR then do {
         let (old_status, s3) = intr_disable s2;
         if write_deny (inodes s3 a) = 0 then
           pcb_fd_install fd_idx (snd (intr_set_status old_status (upd_inode a (write_deny_update (\<lambda>_. 1)) s3)))
         else do {
           s4 \<leftarrow> printk (msg ''file can't be write now, try again later\<newline>'') [] (snd (intr_set_status old_status s3));
           Some (-1, s4)
         }
       } else pcb_fd_install fd_idx s2
     }
   }"

text \<open>\<^verbatim>\<open>file\<close> is the address of an element of \<^verbatim>\<open>file_table\<close> and never null.\<close>

definition file_close :: "nat \<Rightarrow> 'a fstate_scheme \<Rightarrow> (int \<times> 'a fstate_scheme) option" where
  "file_close f s = do {
     x \<leftarrow> rd (file_table s) f;
     let s1 = upd_inode (fd_inode x) (write_deny_update (\<lambda>_. 0)) s;
     s2 \<leftarrow> inode_close (fd_inode x) s1;
     s3 \<leftarrow> upd_file f (fd_inode_update (\<lambda>_. NULL)) s2;
     Some (0, s3)
   }"

section \<open>Writing\<close>

text \<open>A file without blocks gets its first one; \<open>False\<close> is the early return.\<close>

definition first_block :: "addr \<Rightarrow> 'a fstate_scheme \<Rightarrow> (bool \<times> 'a fstate_scheme) option" where
  "first_block a s = do {
     b0 \<leftarrow> get_sector a 0 s;
     if b0 = 0 then do {
       let q = cur_part s;
       (block_lba, s1) \<leftarrow> block_bitmap_alloc q s;
       if block_lba = -1 then do {
         s2 \<leftarrow> printk (msg ''file_write: block_bitmap_alloc failed\<newline>'') [] s1;
         Some (False, s2)
       } else do {
         s2 \<leftarrow> set_sector a 0 block_lba s1;
         let block_bitmap_idx = block_lba - data_start_lba (sb (parts s2 q));
         ASSERT (block_bitmap_idx \<noteq> 0);
         s3 \<leftarrow> bitmap_sync q block_bitmap_idx BLOCK_BITMAP s2;
         Some (True, s3)
       }
     } else Some (True, s)
   }"

text \<open>
  The loops that allocate the blocks \<open>block_idx\<close>, \<open>block_idx + 1\<close>, ... in the first and second situation;
  in the first one every index is below 12. The message that they write when no block is left names the situation.
\<close>

fun grow_blocks :: "string \<Rightarrow> nat \<Rightarrow> addr \<Rightarrow> nat \<Rightarrow> u32 list \<Rightarrow> 'a fstate_scheme \<Rightarrow> (u32 list option \<times> 'a fstate_scheme) option" where
  "grow_blocks failed 0 a block_idx all_blocks s = Some (Some all_blocks, s)"
| "grow_blocks failed (Suc n) a block_idx all_blocks s = do {
     let q = cur_part s;
     (block_lba, s1) \<leftarrow> block_bitmap_alloc q s;
     if block_lba = -1 then do {
       s2 \<leftarrow> printk (msg failed) [] s1;
       Some (None, s2)
     } else do {
       s2 \<leftarrow> (if block_idx < 12 then do {
            x \<leftarrow> get_sector a block_idx s1;
            ASSERT (x = 0);
            set_sector a block_idx block_lba s1
          } else Some s1);
       bs \<leftarrow> wr all_blocks block_idx block_lba;
       s3 \<leftarrow> bitmap_sync q (block_lba - data_start_lba (sb (parts s2 q))) BLOCK_BITMAP s2;
       grow_blocks failed n a (Suc block_idx) bs s3
     }
   }"

text \<open>The loop of the third situation: its body does not change \<^verbatim>\<open>block_idx\<close>.\<close>

partial_function (option) alloc_rest :: "u32 \<Rightarrow> u32 \<Rightarrow> u32 \<Rightarrow> 'a fstate_scheme \<Rightarrow> (u32 option \<times> 'a fstate_scheme) option" where
  "alloc_rest block_idx will_use block_lba s =
     (if block_idx < will_use then
        Option.bind (block_bitmap_alloc (cur_part s) s) (\<lambda>(lba, s1).
          if lba = -1 then Option.bind (printk (msg ''file_write: block_bitmap_alloc for situation 3 failed\<newline>'') [] s1) (\<lambda>s2. Some (None, s2))
          else alloc_rest block_idx will_use lba s1)
      else Some (Some block_lba, s))"

text \<open>\<^verbatim>\<open>ide_read(.., table, all_blocks + 12, 1)\<close>.\<close>

definition read_table :: "u32 \<Rightarrow> u32 list \<Rightarrow> 'a fstate_scheme \<Rightarrow> (u32 list \<times> 'a fstate_scheme) option" where
  "read_table t all_blocks s = do {
     (bs, s1) \<leftarrow> ide_read (part_disk (cur_part s) s) t 1 s;
     ws \<leftarrow> le32s bs 0 128;
     Some (take 12 all_blocks @ ws, s1)
   }"

definition write_table :: "u32 \<Rightarrow> u32 list \<Rightarrow> 'a fstate_scheme \<Rightarrow> 'a fstate_scheme option" where
  "write_table t all_blocks s = ide_write (part_disk (cur_part s) s) t (words_bytes (drop 12 all_blocks)) 1 s"

definition copy_sector :: "addr \<Rightarrow> nat \<Rightarrow> u32 list \<Rightarrow> 'a fstate_scheme \<Rightarrow> u32 list option" where
  "copy_sector a k all_blocks s = do {
     x \<leftarrow> get_sector a k s;
     wr all_blocks k x
   }"

text \<open>First situation: the direct blocks are enough.\<close>

definition situation1 :: "addr \<Rightarrow> nat \<Rightarrow> nat \<Rightarrow> u32 list \<Rightarrow> 'a fstate_scheme \<Rightarrow> (u32 list option \<times> 'a fstate_scheme) option" where
  "situation1 a has_used will_use all_blocks s = do {
     x \<leftarrow> get_sector a (has_used - 1) s;
     ASSERT (x \<noteq> 0);
     bs \<leftarrow> copy_sector a (has_used - 1) all_blocks s;
     grow_blocks ''file_write: block_bitmap_alloc for situation 1 failed\<newline>'' (will_use - has_used) a has_used bs s
   }"

text \<open>Second situation: a table for the indirect blocks is needed from now on.\<close>

definition situation2 :: "addr \<Rightarrow> nat \<Rightarrow> nat \<Rightarrow> u32 list \<Rightarrow> 'a fstate_scheme \<Rightarrow> (u32 list option \<times> u32 \<times> 'a fstate_scheme) option" where
  "situation2 a has_used will_use all_blocks s = do {
     bs \<leftarrow> copy_sector a (has_used - 1) all_blocks s;
     (block_lba, s1) \<leftarrow> block_bitmap_alloc (cur_part s) s;
     if block_lba = -1 then do {
       s2 \<leftarrow> printk (msg ''file_write: block_bitmap_alloc for situation 2 failed\<newline>'') [] s1;
       Some (None, 0, s2)
     } else do {
       t \<leftarrow> get_sector a 12 s1;
       ASSERT (t = 0);
       s2 \<leftarrow> set_sector a 12 block_lba s1;
       (r, s3) \<leftarrow> grow_blocks ''file_write: block_bitmap_alloc for situation 2 failed\<newline>'' (will_use - has_used) a has_used bs s2;
       case r of None \<Rightarrow> Some (None, block_lba, s3)
       | Some bs1 \<Rightarrow> do {
           s4 \<leftarrow> write_table block_lba bs1 s3;
           Some (Some bs1, block_lba, s4)
         }
     }
   }"

text \<open>Third situation: the file uses indirect blocks already.\<close>

definition situation3 :: "addr \<Rightarrow> u32 \<Rightarrow> u32 \<Rightarrow> u32 list \<Rightarrow> 'a fstate_scheme \<Rightarrow> (u32 list option \<times> u32 \<times> 'a fstate_scheme) option" where
  "situation3 a has_used will_use all_blocks s = do {
     t \<leftarrow> get_sector a 12 s;
     ASSERT (t \<noteq> 0);
     (bs, s1) \<leftarrow> read_table t all_blocks s;
     (r, s2) \<leftarrow> alloc_rest has_used will_use (-1) s1;
     case r of None \<Rightarrow> Some (None, t, s2)
     | Some block_lba \<Rightarrow> do {
         bs1 \<leftarrow> wr bs (unat has_used) block_lba;
         s3 \<leftarrow> bitmap_sync (cur_part s2) (block_lba - data_start_lba (sb (parts s2 (cur_part s2)))) BLOCK_BITMAP s2;
         Some (Some bs1, t, s3)
       }
   }"

text \<open>
  The block addresses for a write. In the first situation the last statement writes the part of \<^verbatim>\<open>all_blocks\<close>
  for indirect blocks to the sector that the uninitialised \<^verbatim>\<open>indirect_block_table\<close> names.
\<close>

definition blocks_for_write :: "addr \<Rightarrow> u32 \<Rightarrow> u32 \<Rightarrow> 'a fstate_scheme \<Rightarrow> (u32 list option \<times> 'a fstate_scheme) option" where
  "blocks_for_write a has_used will_use s =
     (let all_blocks = replicate 140 0 in
      if will_use - has_used = 0 then
        if has_used \<le> 12 then do {
          bs \<leftarrow> copy_sector a (unat has_used - 1) all_blocks s;
          Some (Some bs, s)
        } else do {
          t \<leftarrow> get_sector a 12 s;
          ASSERT (t \<noteq> 0);
          (bs, s1) \<leftarrow> read_table t all_blocks s;
          Some (Some bs, s1)
        }
      else do {
        (r, t, s1) \<leftarrow> (if will_use \<le> 12 then do {
               (r, s1) \<leftarrow> situation1 a (unat has_used) (unat will_use) all_blocks s;
               Some (r, junk_lba s, s1)
             } else if has_used \<le> 12 then situation2 a (unat has_used) (unat will_use) all_blocks s
             else situation3 a has_used will_use all_blocks s);
        case r of None \<Rightarrow> Some (None, s1)
        | Some bs \<Rightarrow> do {
            s2 \<leftarrow> write_table t bs s1;
            Some (Some bs, s2)
          }
      })"

definition chunk_size :: "u32 \<Rightarrow> u32 \<Rightarrow> u32" where
  "chunk_size size_left pos =
     (let sec_left_bytes = BLOCK_SIZE - pos mod BLOCK_SIZE in if size_left < sec_left_bytes then size_left else sec_left_bytes)"

lemma chunk_size_bounds:
  assumes "0 < size_left"
  shows "0 < chunk_size size_left pos" and "chunk_size size_left pos \<le> size_left"
    and "unat (chunk_size size_left pos) = min (unat size_left) (512 - unat pos mod 512)"
    and "unat (size_left - chunk_size size_left pos) < unat size_left"
proof -
  have m: "unat (pos mod 512) = unat pos mod 512"
    by (simp add: unat_mod)
  then have "pos mod 512 \<le> 512"
    by (simp add: word_le_nat_alt less_imp_le)
  then have l: "unat (BLOCK_SIZE - pos mod BLOCK_SIZE) = 512 - unat pos mod 512"
    by (simp add: BLOCK_SIZE_def SECTOR_SIZE_def unat_sub m)
  show c: "unat (chunk_size size_left pos) = min (unat size_left) (512 - unat pos mod 512)"
    using l by (simp add: chunk_size_def Let_def word_less_nat_alt min_def)
  have "0 < unat size_left" and "unat pos mod 512 < 512"
    using assms by (simp_all add: word_less_nat_alt)
  then show "0 < chunk_size size_left pos" and le: "chunk_size size_left pos \<le> size_left"
    using c by (simp_all add: word_less_nat_alt word_le_nat_alt)
  then show "unat (size_left - chunk_size size_left pos) < unat size_left"
    using \<open>0 < unat size_left\<close> by (simp add: unat_sub word_less_nat_alt)
qed

text \<open>One round: the sector is read only when \<open>first\<close>, the first \<open>n\<close> bytes of \<open>src\<close> are put into it.\<close>

definition write_chunk :: "addr \<Rightarrow> u32 list \<Rightarrow> bool \<Rightarrow> u8 list \<Rightarrow> u32 \<Rightarrow> 'a fstate_scheme \<Rightarrow> 'a fstate_scheme option" where
  "write_chunk a all_blocks first src n s = do {
     let hdd = part_disk (cur_part s) s;
     let pos = i_size (inodes s a);
     lba \<leftarrow> rd all_blocks (unat (pos div BLOCK_SIZE));
     (io1, s1) \<leftarrow> (if first then ide_read_buf hdd lba (replicate 512 0) 1 s else Some (replicate 512 0, s));
     io2 \<leftarrow> memcpy io1 (unat (pos mod BLOCK_SIZE)) src 0 (unat n);
     s2 \<leftarrow> ide_write hdd lba io2 1 s1;
     printk (msg ''file write at lba 0x%x\<newline>'') [AInt lba] s2
   }"

function write_loop :: "nat \<Rightarrow> addr \<Rightarrow> u32 list \<Rightarrow> bool \<Rightarrow> u8 list \<Rightarrow> u32 \<Rightarrow> 'a fstate_scheme \<Rightarrow> 'a fstate_scheme option" where
  "write_loop f a all_blocks first src size_left s =
     (if size_left > 0 then do {
        let n = chunk_size size_left (i_size (inodes s a));
        s1 \<leftarrow> write_chunk a all_blocks first src n s;
        s2 \<leftarrow> upd_file f (\<lambda>x. x\<lparr>fd_pos := fd_pos x + n\<rparr>) (add_to_size a n s1);
        write_loop f a all_blocks False (drop (unat n) src) (size_left - n) s2
      } else Some s)"
  by pat_completeness auto
termination
  by (relation "measure (\<lambda>(f, a, b, first, src, size_left, s). unat size_left)") (simp_all add: chunk_size_bounds)

declare write_loop.simps [simp del]

text \<open>
  What \<^verbatim>\<open>file_write\<close> does with its two buffers: \<open>False\<close> is the early return of \<^verbatim>\<open>-1\<close>, which does not free
  them. The buffer given to \<^verbatim>\<open>inode_sync\<close> at the end is the one sector \<^verbatim>\<open>io_buf\<close>.
\<close>

definition write_data :: "nat \<Rightarrow> addr \<Rightarrow> u8 list \<Rightarrow> u32 \<Rightarrow> 'a fstate_scheme \<Rightarrow> (bool \<times> 'a fstate_scheme) option" where
  "write_data f a src count s = do {
     (ok, s1) \<leftarrow> first_block a s;
     if \<not> ok then Some (False, s1)
     else do {
       let sz = i_size (inodes s1 a);
       let has_used = sz div BLOCK_SIZE + 1;
       let will_use = (sz + count) div BLOCK_SIZE + 1;
       ASSERT (will_use \<le> 140);
       (r, s2) \<leftarrow> blocks_for_write a has_used will_use s1;
       case r of None \<Rightarrow> Some (False, s2)
       | Some all_blocks \<Rightarrow> do {
           s3 \<leftarrow> upd_file f (\<lambda>y. y\<lparr>fd_pos := i_size (inodes s2 a) - 1\<rparr>) s2;
           s4 \<leftarrow> write_loop f a all_blocks True src count s3;
           s5 \<leftarrow> inode_sync (cur_part s4) (inodes s4 a) (replicate 512 0) s4;
           Some (True, s5)
         }
     }
   }"

definition file_write :: "nat \<Rightarrow> u8 list \<Rightarrow> u32 \<Rightarrow> 'a fstate_scheme \<Rightarrow> (u32 \<times> 'a fstate_scheme) option" where
  "file_write f src count s = do {
     x \<leftarrow> rd (file_table s) f;
     let a = fd_inode x;
     if i_size (inodes s a) + count > BLOCK_SIZE * 140 then do {
       s1 \<leftarrow> printk (msg ''exceed max file_size 71680 bytes, write file failed\<newline>'') [] s;
       Some (-1, s1)
     } else do {
       (io, s1) \<leftarrow> sys_malloc BLOCK_SIZE s;
       if io = NULL then do {
         s2 \<leftarrow> printk (msg ''file_write: sys_malloc for io_buf failed\<newline>'') [] s1;
         Some (-1, s2)
       } else do {
         (ab, s2) \<leftarrow> sys_malloc (BLOCK_SIZE + 48) s1;
         if ab = NULL then do {
           s3 \<leftarrow> printk (msg ''file_write: sys_malloc for all_blocks failed\<newline>'') [] s2;
           Some (-1, s3)
         } else do {
           (ok, s3) \<leftarrow> write_data f a src count s2;
           if \<not> ok then Some (-1, s3)
           else do {
             s4 \<leftarrow> sys_free ab s3;
             s5 \<leftarrow> sys_free io s4;
             Some (count, s5)
           }
         }
       }
     }
   }"

section \<open>Reading\<close>

fun copy_sectors :: "nat \<Rightarrow> addr \<Rightarrow> nat \<Rightarrow> u32 list \<Rightarrow> 'a fstate_scheme \<Rightarrow> u32 list option" where
  "copy_sectors 0 a k all_blocks s = Some all_blocks"
| "copy_sectors (Suc n) a k all_blocks s = do {
     bs \<leftarrow> copy_sector a k all_blocks s;
     copy_sectors n a (Suc k) bs s
   }"

definition blocks_for_read :: "addr \<Rightarrow> nat \<Rightarrow> nat \<Rightarrow> 'a fstate_scheme \<Rightarrow> (u32 list \<times> 'a fstate_scheme) option" where
  "blocks_for_read a start_idx end_idx s =
     (let all_blocks = replicate 140 0 in
      if start_idx = end_idx then
        if end_idx < 12 then do {
          bs \<leftarrow> copy_sector a end_idx all_blocks s;
          Some (bs, s)
        } else do {
          t \<leftarrow> get_sector a 12 s;
          read_table t all_blocks s
        }
      else if end_idx < 12 then do {
        bs \<leftarrow> copy_sectors (Suc end_idx - start_idx) a start_idx all_blocks s;
        Some (bs, s)
      } else if start_idx < 12 then do {
        bs \<leftarrow> copy_sectors (12 - start_idx) a start_idx all_blocks s;
        t \<leftarrow> get_sector a 12 s;
        ASSERT (t \<noteq> 0);
        read_table t bs s
      } else do {
        t \<leftarrow> get_sector a 12 s;
        ASSERT (t \<noteq> 0);
        read_table t all_blocks s
      })"

function read_loop :: "nat \<Rightarrow> u32 list \<Rightarrow> u32 \<Rightarrow> 'a fstate_scheme \<Rightarrow> (u8 list \<times> 'a fstate_scheme) option" where
  "read_loop f all_blocks size_left s =
     (if size_left > 0 then do {
        x \<leftarrow> rd (file_table s) f;
        let pos = fd_pos x;
        let n = chunk_size size_left pos;
        lba \<leftarrow> rd all_blocks (unat (pos div BLOCK_SIZE));
        (io1, s1) \<leftarrow> ide_read_buf (part_disk (cur_part s) s) lba (replicate 512 0) 1 s;
        ASSERT (unat (pos mod BLOCK_SIZE) + unat n \<le> 512);
        let bs = take (unat n) (drop (unat (pos mod BLOCK_SIZE)) io1);
        s2 \<leftarrow> upd_file f (\<lambda>x. x\<lparr>fd_pos := fd_pos x + n\<rparr>) s1;
        (rest', s3) \<leftarrow> read_loop f all_blocks (size_left - n) s2;
        Some (bs @ rest', s3)
      } else Some ([], s))"
  by pat_completeness auto
termination
  by (relation "measure (\<lambda>(f, b, size_left, s). unat size_left)") (simp_all add: chunk_size_bounds)

declare read_loop.simps [simp del]

text \<open>What \<^verbatim>\<open>file_read\<close> does with its two buffers, for \<open>sz\<close> bytes from position \<open>pos\<close> of the file on.\<close>

definition read_data :: "nat \<Rightarrow> addr \<Rightarrow> u32 \<Rightarrow> u32 \<Rightarrow> 'a fstate_scheme \<Rightarrow> (u8 list \<times> 'a fstate_scheme) option" where
  "read_data f a pos sz s = do {
     let start_idx = pos div BLOCK_SIZE;
     let end_idx = (pos + sz) div BLOCK_SIZE;
     ASSERT (start_idx < 139 \<and> end_idx < 139);
     (all_blocks, s1) \<leftarrow> blocks_for_read a (unat start_idx) (unat end_idx) s;
     read_loop f all_blocks sz s1
   }"

text \<open>The result and the bytes put into the caller's buffer.\<close>

definition file_read :: "nat \<Rightarrow> u32 \<Rightarrow> 'a fstate_scheme \<Rightarrow> (u32 \<times> u8 list \<times> 'a fstate_scheme) option" where
  "file_read f count s = do {
     x \<leftarrow> rd (file_table s) f;
     let a = fd_inode x;
     let isz = i_size (inodes s a);
     let sz = (if fd_pos x + count > isz then isz - fd_pos x else count);
     if fd_pos x + count > isz \<and> sz = 0 then Some (-1, [], s)
     else do {
       (io, s0) \<leftarrow> sys_malloc BLOCK_SIZE s;
       s1 \<leftarrow> (if io = NULL then printk (msg ''file_read: sys_malloc for io_buf failed\<newline>'') [] s0 else Some s0);
       (ab, s2) \<leftarrow> sys_malloc (BLOCK_SIZE + 48) s1;
       if ab = NULL then do {
         s3 \<leftarrow> printk (msg ''file_read: sys_malloc for all_blocks failed\<newline>'') [] s2;
         Some (-1, [], s3)
       } else do {
         (bs, s3) \<leftarrow> read_data f a (fd_pos x) sz s2;
         s4 \<leftarrow> sys_free ab s3;
         s5 \<leftarrow> sys_free io s4;
         Some (sz, bs, s5)
       }
     }
   }"

end
