(* ===== verification/Fs.thy ===== *)
theory Fs
  imports File Ioqueue Console
begin

text \<open>
  The file system interface, src/fs/fs.c: formatting and mounting a partition, the search for a path
  and the system calls on files and directories. A path or name is a buffer that holds a
  terminated string. Output to the console (Console) appends to \<open>screen\<close> under the console's lock. \<^verbatim>\<open>sys_read\<close> from the keyboard goes on only while the queue has bytes; otherwise the caller
  sleeps and this activation has no result.
\<close>

section \<open>Formatting a partition\<close>

text \<open>The super block of a partition and the number of bits of its block bitmap.\<close>

definition block_bitmap_bit_len :: "partition \<Rightarrow> u32" where
  "block_bitmap_bit_len p =
     (let inode_bitmap_sects = DIV_ROUND_UP MAX_FILES_PER_PART BITS_PER_SECTOR;
          inode_table_sects = DIV_ROUND_UP (of_nat sizeof_inode * MAX_FILES_PER_PART) SECTOR_SIZE;
          used_sects = 1 + 1 + inode_bitmap_sects + inode_table_sects;
          free_sects = sec_cnt p - used_sects
      in free_sects - DIV_ROUND_UP free_sects BITS_PER_SECTOR)"

definition format_sb :: "partition \<Rightarrow> super_block" where
  "format_sb p =
     (let ibs = DIV_ROUND_UP MAX_FILES_PER_PART BITS_PER_SECTOR;
          its = DIV_ROUND_UP (of_nat sizeof_inode * MAX_FILES_PER_PART) SECTOR_SIZE;
          bbs = DIV_ROUND_UP (block_bitmap_bit_len p) BITS_PER_SECTOR;
          bb_lba = start_lba p + 2;
          ib_lba = bb_lba + bbs;
          it_lba = ib_lba + ibs
      in \<lparr>sb_magic = 0x19590318, sb_sec_cnt = sec_cnt p, inode_cnt = MAX_FILES_PER_PART, part_lba_base = start_lba p,
          block_bitmap_lba = bb_lba, block_bitmap_sects = bbs, inode_bitmap_lba = ib_lba, inode_bitmap_sects = ibs,
          inode_table_lba = it_lba, inode_table_sects = its, data_start_lba = it_lba + its, root_inode_no = 0,
          dir_entry_size = of_nat sizeof_dir_entry\<rparr>)"

definition sb_words :: "super_block \<Rightarrow> u32 list" where
  "sb_words b = [sb_magic b, sb_sec_cnt b, inode_cnt b, part_lba_base b, block_bitmap_lba b, block_bitmap_sects b,
     inode_bitmap_lba b, inode_bitmap_sects b, inode_table_lba b, inode_table_sects b, data_start_lba b,
     root_inode_no b, dir_entry_size b]"

definition sb_at :: "u8 list \<Rightarrow> super_block option" where
  "sb_at bs = do {
     ws \<leftarrow> le32s bs 0 13;
     Some \<lparr>sb_magic = ws ! 0, sb_sec_cnt = ws ! 1, inode_cnt = ws ! 2, part_lba_base = ws ! 3,
          block_bitmap_lba = ws ! 4, block_bitmap_sects = ws ! 5, inode_bitmap_lba = ws ! 6, inode_bitmap_sects = ws ! 7,
          inode_table_lba = ws ! 8, inode_table_sects = ws ! 9, data_start_lba = ws ! 10, root_inode_no = ws ! 11,
          dir_entry_size = ws ! 12\<rparr>
   }"

text \<open>\<^verbatim>\<open>while (bit_idx <= last_bit) buf[byte] &= ~(1 << bit_idx++)\<close> for the \<open>n\<close> bits from \<open>k\<close> on.\<close>

fun clear_bits :: "nat \<Rightarrow> nat \<Rightarrow> nat \<Rightarrow> u8 list \<Rightarrow> u8 list option" where
  "clear_bits 0 k byte bf = Some bf"
| "clear_bits (Suc n) k byte bf = do {
     x \<leftarrow> rd bf byte;
     b \<leftarrow> wr bf byte (x AND NOT (push_bit k 1));
     clear_bits n (Suc k) byte b
   }"

definition format_block_bitmap :: "u32 \<Rightarrow> nat \<Rightarrow> u8 list option" where
  "format_block_bitmap bit_len buf_size = do {
     let bf = replicate buf_size 0;
     x \<leftarrow> rd bf 0;
     b1 \<leftarrow> wr bf 0 (x OR 1);
     let last_byte = bit_len div 8;
     let last_bit = bit_len mod 8;
     let last_size = SECTOR_SIZE - last_byte mod SECTOR_SIZE;
     b2 \<leftarrow> memset b1 (unat last_byte) 0xff (unat last_size);
     clear_bits (unat last_bit + 1) 0 (unat last_byte) b2
   }"

text \<open>The two entries \<^verbatim>\<open>"."\<close> and \<^verbatim>\<open>".."\<close> at the start of a zeroed buffer.\<close>

definition dot_entries :: "u32 \<Rightarrow> u32 \<Rightarrow> u8 list \<Rightarrow> u8 list option" where
  "dot_entries self parent bf = do {
     b1 \<leftarrow> memcpy bf 0 dot 0 1;
     b2 \<leftarrow> put32 b1 16 self;
     b3 \<leftarrow> put32 b2 20 FT_DIRECTORY;
     b4 \<leftarrow> memcpy b3 24 dotdot 0 2;
     b5 \<leftarrow> put32 b4 40 parent;
     put32 b5 44 FT_DIRECTORY
   }"

definition format_info :: "u8 list" where
  "format_info = msg (''   magic:0x%x\<newline>   part_lba_base:0x%x\<newline>   all_sectors:0x%x\<newline>   inode_cnt:0x%x\<newline>   block_bitmap_lba:0x%x\<newline>'' @
     ''   block_bitmap_sectors:0x%x\<newline>   inode_bitmap_lba:0x%x\<newline>  inode_bitmap_sectors:0x%x\<newline>   inode_table_lba:0x%x\<newline>'' @
     ''   inode_table_sectors:0x%x\<newline>   data_start_lba:0x%x\<newline>'')"

definition partition_format :: "part_ptr \<Rightarrow> 'a fstate_scheme \<Rightarrow> 'a fstate_scheme option" where
  "partition_format q s = do {
     let p = parts s q;
     let b = format_sb p;
     u1 \<leftarrow> printk (msg ''%s info:\<newline>'') [AStr (part_name p)] s;
     u2 \<leftarrow> printk format_info (map AInt [sb_magic b, part_lba_base b, sb_sec_cnt b, inode_cnt b, block_bitmap_lba b, block_bitmap_sects b,
       inode_bitmap_lba b, inode_bitmap_sects b, inode_table_lba b, inode_table_sects b, data_start_lba b]) u1;
     let hdd = my_disk p;
     u3 \<leftarrow> ide_write hdd (start_lba p + 1) (words_bytes (sb_words b) @ junk_pad u2) 1 u2;
     s1 \<leftarrow> printk (msg ''   super_block_lba:0x%x\<newline>'') [AInt (start_lba p + 1)] u3;
     let m = (if block_bitmap_sects b \<ge> inode_bitmap_sects b then block_bitmap_sects b else inode_bitmap_sects b);
     let buf_size = (if m \<ge> inode_table_sects b then m else inode_table_sects b) * SECTOR_SIZE;
     (a, s2) \<leftarrow> sys_malloc buf_size s1;
     b1 \<leftarrow> format_block_bitmap (block_bitmap_bit_len p) (unat buf_size);
     s3 \<leftarrow> ide_write hdd (block_bitmap_lba b) b1 (unat (block_bitmap_sects b)) s2;
     b2 \<leftarrow> wr (replicate (unat buf_size) 0) 0 1;
     s4 \<leftarrow> ide_write hdd (inode_bitmap_lba b) b2 (unat (inode_bitmap_sects b)) s3;
     b3 \<leftarrow> put32 (replicate (unat buf_size) 0) 4 (dir_entry_size b * 2);
     b4 \<leftarrow> put32 b3 0 0;
     b5 \<leftarrow> put32 b4 16 (data_start_lba b);
     s5 \<leftarrow> ide_write hdd (inode_table_lba b) b5 (unat (inode_table_sects b)) s4;
     b6 \<leftarrow> dot_entries 0 0 (replicate (unat buf_size) 0);
     s6 \<leftarrow> ide_write hdd (data_start_lba b) b6 1 s5;
     s7 \<leftarrow> printk (msg ''   root_dir_lba:0x%x\<newline>'') [AInt (data_start_lba b)] s6;
     s8 \<leftarrow> printk (msg ''%s format done\<newline>'') [AStr (part_name p)] s7;
     sys_free a s8
   }"

section \<open>Mounting\<close>

definition mount_partition :: "part_ptr \<Rightarrow> u8 list \<Rightarrow> 'a fstate_scheme \<Rightarrow> (bool \<times> 'a fstate_scheme) option" where
  "mount_partition q nm s = do {
     c \<leftarrow> strcmp (part_name (parts s q)) 0 nm 0;
     if c = 0 then do {
       let s1 = s\<lparr>cur_part := q\<rparr>;
       let hdd = my_disk (parts s1 q);
       (_, s2) \<leftarrow> sys_malloc SECTOR_SIZE s1;
       (m, s3) \<leftarrow> sys_malloc 512 s2;
       ASSERT (m \<noteq> NULL);
       (bs, s4) \<leftarrow> ide_read hdd (start_lba (parts s3 q) + 1) 1 s3;
       b \<leftarrow> sb_at bs;
       let s5 = upd_part q (sb_update (\<lambda>_. b)) s4;
       (m1, s6) \<leftarrow> sys_malloc (block_bitmap_sects b * SECTOR_SIZE) s5;
       ASSERT (m1 \<noteq> NULL);
       (bb, s7) \<leftarrow> ide_read hdd (block_bitmap_lba b) (unat (block_bitmap_sects b)) s6;
       let s8 = upd_part q (block_bitmap_update (\<lambda>_. \<lparr>btmp_bytes_len = unat (block_bitmap_sects b * SECTOR_SIZE), bits = bb\<rparr>)) s7;
       (m2, s9) \<leftarrow> sys_malloc (inode_bitmap_sects b * SECTOR_SIZE) s8;
       ASSERT (m2 \<noteq> NULL);
       (ib, s10) \<leftarrow> ide_read hdd (inode_bitmap_lba b) (unat (inode_bitmap_sects b)) s9;
       let s11 = upd_part q (inode_bitmap_update (\<lambda>_. \<lparr>btmp_bytes_len = unat (inode_bitmap_sects b * SECTOR_SIZE), bits = ib\<rparr>)) s10;
       s12 \<leftarrow> printk (msg ''mount %s done!\<newline>'') [AStr (part_name (parts s11 q))] (s11\<lparr>lnks := list_init (open_inodes (parts s11 q)) (lnks s11)\<rparr>);
       Some (True, s12)
     } else Some (False, s)
   }"

text \<open>\<^verbatim>\<open>list_traversal(&partition_list, mount_partition, ..)\<close>.\<close>

fun mount_first :: "part_ptr list \<Rightarrow> u8 list \<Rightarrow> 'a fstate_scheme \<Rightarrow> 'a fstate_scheme option" where
  "mount_first [] nm s = Some s"
| "mount_first (q # qs) nm s = do {
     (stop, s1) \<leftarrow> mount_partition q nm s;
     if stop then Some s1 else mount_first qs nm s1
   }"

text \<open>
  The loop over the twelve partitions of a drive. \<^verbatim>\<open>part_idx\<close> is set to 0 once, before the loops over
  channels and drives, so only the first drive looked at has its partitions formatted.
\<close>

definition part_at :: "nat \<Rightarrow> nat \<Rightarrow> part_ptr" where
  "part_at channel_no part_idx = (if part_idx < 4 then Prim channel_no 1 part_idx else Logic channel_no 1 (part_idx - 4))"

fun format_parts :: "nat \<Rightarrow> disk \<Rightarrow> nat \<Rightarrow> nat \<Rightarrow> 'a fstate_scheme \<Rightarrow> 'a fstate_scheme option" where
  "format_parts 0 hdd channel_no part_idx s = Some s"
| "format_parts (Suc n) hdd channel_no part_idx s = do {
     let q = part_at channel_no part_idx;
     s1 \<leftarrow> (if sec_cnt (parts s q) \<noteq> 0 then do {
          (bs, s') \<leftarrow> ide_read hdd (start_lba (parts s q) + 1) 1 s;
          magic \<leftarrow> le32 bs 0;
          if magic = 0x19590318 then printk (msg ''%s has filesystem\<newline>'') [AStr (part_name (parts s' q))] s'
          else do {
            s'' \<leftarrow> printk (msg ''formatting %s`s partition %s......\<newline>'') [AStr (disk_name hdd), AStr (part_name (parts s' q))] s';
            partition_format q s''
          }
        } else Some s);
     format_parts n hdd channel_no (Suc part_idx) s1
   }"

fun format_channels :: "nat \<Rightarrow> nat \<Rightarrow> nat \<Rightarrow> 'a fstate_scheme \<Rightarrow> 'a fstate_scheme option" where
  "format_channels 0 channel_no part_idx s = Some s"
| "format_channels (Suc n) channel_no part_idx s = do {
     s1 \<leftarrow> format_parts (12 - part_idx) (devices s channel_no 1) channel_no part_idx s;
     format_channels n (Suc channel_no) 12 s1
   }"

definition filesys_init :: "'a fstate_scheme \<Rightarrow> 'a fstate_scheme option" where
  "filesys_init s = do {
     (a, s1) \<leftarrow> sys_malloc SECTOR_SIZE s;
     ASSERT (a \<noteq> NULL);
     s1' \<leftarrow> printk (msg ''searching filesystem......\<newline>'') [] s1;
     s2 \<leftarrow> format_channels (channel_cnt s1') 0 0 s1';
     s3 \<leftarrow> sys_free a s2;
     s4 \<leftarrow> mount_first (partition_list s3) (str_bytes ''sdb1'' @ [0, 0, 0, 0]) s3;
     s5 \<leftarrow> open_root_dir (cur_part s4) s4;
     Some (s5\<lparr>file_table := map (fd_inode_update (\<lambda>_. NULL)) (file_table s5)\<rparr>)
   }"

section \<open>Searching a path\<close>

record path_search_record =
  searched_path :: "u8 list"
  sr_parent :: addr
  sr_type :: u32

definition is_root_path :: "u8 list \<Rightarrow> bool option" where
  "is_root_path path = do {
     a \<leftarrow> strcmp path 0 slash 0;
     b \<leftarrow> strcmp path 0 [47, 46, 0] 0;
     c \<leftarrow> strcmp path 0 [47, 46, 46, 0] 0;
     Some (a = 0 \<or> b = 0 \<or> c = 0)
   }"

text \<open>
  The loop of \<^verbatim>\<open>search_file\<close> and what follows it. \<open>p\<close> is \<^verbatim>\<open>sub_path\<close>, \<open>nm\<close> the component \<^verbatim>\<open>name\<close>, \<open>pino\<close> the
  \<^verbatim>\<open>parent_inode_no\<close>.
\<close>

function search_loop :: "u8 list \<Rightarrow> nat option \<Rightarrow> u8 list \<Rightarrow> addr \<Rightarrow> u8 list \<Rightarrow> u32 \<Rightarrow> path_search_record \<Rightarrow> 'a fstate_scheme \<Rightarrow>
    (u32 \<times> path_search_record \<times> 'a fstate_scheme) option" where
  "search_loop path p nm parent dir_e pino rc s = do {
     c \<leftarrow> rd nm 0;
     if c \<noteq> 0 then do {
       len \<leftarrow> strlen (searched_path rc) 0;
       ASSERT (len < 512);
       sp1 \<leftarrow> strcat (searched_path rc) 0 slash 0;
       sp2 \<leftarrow> strcat sp1 0 nm 0;
       let rc1 = rc\<lparr>searched_path := sp2\<rparr>;
       (found, e, s1) \<leftarrow> search_dir_entry (cur_part s) parent nm dir_e s;
       if found then do {
         nm1 \<leftarrow> memset nm 0 0 MAX_FILE_NAME_LEN;
         (p2, nm2) \<leftarrow> (case p of Some i \<Rightarrow> path_parse path i nm1 | None \<Rightarrow> Some (None, nm1));
         t \<leftarrow> de_f_type e 0;
         n \<leftarrow> de_i_no e 0;
         if t = FT_DIRECTORY then do {
           let pino1 = i_no (inodes s1 (dir_inode (dirs s1 parent)));
           s2 \<leftarrow> dir_close parent s1;
           (d, s3) \<leftarrow> dir_open (cur_part s2) n s2;
           search_loop path p2 nm2 d e pino1 (rc1\<lparr>sr_parent := d\<rparr>) s3
         } else if t = FT_REGULAR then Some (n, rc1\<lparr>sr_type := FT_REGULAR\<rparr>, s1)
         else search_loop path p2 nm2 parent e pino rc1 s1
       } else Some (-1, rc1, s1)
     } else do {
       s1 \<leftarrow> dir_close (sr_parent rc) s;
       (d, s2) \<leftarrow> dir_open (cur_part s1) pino s1;
       n \<leftarrow> de_i_no dir_e 0;
       Some (n, rc\<lparr>sr_parent := d, sr_type := FT_DIRECTORY\<rparr>, s2)
     }
   }"
  by pat_completeness auto

definition path_left :: "u8 list \<Rightarrow> nat option \<Rightarrow> u8 list \<Rightarrow> nat" where
  "path_left path p nm = (case p of Some i \<Rightarrow> length path - i + 2 | None \<Rightarrow> if rd nm 0 = Some 0 then 0 else 1)"

lemma path_left_decreases:
  assumes "rd nm 0 = Some c" and "c \<noteq> 0" and "memset nm 0 0 MAX_FILE_NAME_LEN = Some nm1"
    and "(case p of Some i \<Rightarrow> path_parse path i nm1 | None \<Rightarrow> Some (None, nm1)) = Some (p2, nm2)"
  shows "path_left path p2 nm2 < path_left path p nm"
proof -
  have "rd nm1 0 = Some 0"
    using assms(1,3) by (auto simp: memset_eq MAX_FILE_NAME_LEN_def rd_eq_Some nth_append split: if_splits)
  then show ?thesis
    using assms by (auto simp: path_left_def split: option.splits dest!: path_parse_progress)
qed

termination search_loop
  by (relation "measure (\<lambda>(path, p, nm, parent, e, pino, rc, s). path_left path p nm)") (auto intro: path_left_decreases)

declare search_loop.simps [simp del]

definition search_file :: "u8 list \<Rightarrow> path_search_record \<Rightarrow> 'a fstate_scheme \<Rightarrow> (u32 \<times> path_search_record \<times> 'a fstate_scheme) option" where
  "search_file pathname rc s = do {
     is_root \<leftarrow> is_root_path pathname;
     if is_root then do {
       sp \<leftarrow> wr (searched_path rc) 0 0;
       Some (0, rc\<lparr>sr_parent := root_dir s, sr_type := FT_DIRECTORY, searched_path := sp\<rparr>, s)
     } else do {
       path_len \<leftarrow> strlen pathname 0;
       c0 \<leftarrow> rd pathname 0;
       ASSERT (c0 = 47 \<and> path_len > 1 \<and> path_len < MAX_PATH_LEN);
       (p, nm) \<leftarrow> path_parse pathname 0 (replicate MAX_FILE_NAME_LEN 0);
       search_loop pathname p nm (root_dir s) (junk_entry s) 0 (rc\<lparr>sr_parent := root_dir s, sr_type := FT_UNKNOWN\<rparr>) s
     }
   }"

text \<open>The record cleared by \<^verbatim>\<open>memset\<close> before each search.\<close>

definition empty_record :: path_search_record where
  "empty_record = \<lparr>searched_path = replicate MAX_PATH_LEN 0, sr_parent = NULL, sr_type = 0\<rparr>"

section \<open>System calls on files\<close>

text \<open>\<^verbatim>\<open>strrchr(path, '/') + 1\<close>.\<close>

definition after_slash :: "u8 list \<Rightarrow> nat option" where
  "after_slash path = do {
     r \<leftarrow> strrchr path 0 47;
     i \<leftarrow> r;
     Some (i + 1)
   }"

definition sys_open :: "u8 list \<Rightarrow> u8 \<Rightarrow> 'a fstate_scheme \<Rightarrow> (int \<times> 'a fstate_scheme) option" where
  "sys_open pathname flags s = do {
     len \<leftarrow> strlen pathname 0;
     ASSERT (len > 0);
     c \<leftarrow> rd pathname (len - 1);
     if c = 47 then do {
       s' \<leftarrow> printk (msg ''can't open a directory %s\<newline>'') [AStr pathname] s;
       Some (-1, s')
     } else do {
       ASSERT (flags \<le> 7);
       pathname_depth \<leftarrow> path_depth_cnt (junk_name s) pathname;
       (inode_no, rc, s1) \<leftarrow> search_file pathname empty_record s;
       let found = (inode_no \<noteq> -1);
       let creat = (ucast flags AND O_CREAT \<noteq> 0);
       let fail = (\<lambda>text args. do {
         s' \<leftarrow> printk (msg text) args s1;
         s'' \<leftarrow> dir_close (sr_parent rc) s';
         Some (-1, s'')
       });
       if sr_type rc = FT_DIRECTORY then fail ''can't open a direcotry with open(), use opendir() to instead\<newline>'' []
       else do {
         path_searched_depth \<leftarrow> path_depth_cnt (junk_name s1) (searched_path rc);
         if pathname_depth \<noteq> path_searched_depth then do {
           k \<leftarrow> after_slash (searched_path rc);
           fail ''cannot access %s: Not a directory, subpath %s is't exist\<newline>'' [AStr (searched_path rc), AStr (drop k (searched_path rc))]
         } else if \<not> found \<and> \<not> creat then do {
           k \<leftarrow> after_slash (searched_path rc);
           fail ''in path %s, file %s is't exist\<newline>'' [AStr (searched_path rc), AStr (drop k (searched_path rc))]
         } else if found \<and> creat then fail ''%s has already exist!\<newline>'' [AStr pathname]
         else if creat then do {
           s1' \<leftarrow> printk (msg ''creating file\<newline>'') [] s1;
           k \<leftarrow> after_slash pathname;
           (fd, s2) \<leftarrow> file_create (sr_parent rc) pathname k flags s1';
           s3 \<leftarrow> dir_close (sr_parent rc) s2;
           Some (fd, s3)
         } else file_open inode_no flags s1
       }
     }
   }"

definition fd_local2global :: "nat \<Rightarrow> 'a fstate_scheme \<Rightarrow> nat option" where
  "fd_local2global local_fd s = do {
     global_fd \<leftarrow> rd (fd_table (tasks s (running_thread s))) local_fd;
     ASSERT (global_fd \<ge> 0 \<and> global_fd < int MAX_FILE_OPEN);
     Some (nat global_fd)
   }"

definition sys_close :: "int \<Rightarrow> 'a fstate_scheme \<Rightarrow> (int \<times> 'a fstate_scheme) option" where
  "sys_close fd s =
     (if fd > 2 then do {
        f \<leftarrow> fd_local2global (nat fd) s;
        (ret, s1) \<leftarrow> file_close f s;
        let c = running_thread s1;
        t \<leftarrow> wr (fd_table (tasks s1 c)) (nat fd) (-1);
        Some (ret, upd_task c (fd_table_update (\<lambda>_. t)) s1)
      } else Some (-1, s))"

definition sys_write :: "int \<Rightarrow> u8 list \<Rightarrow> u32 \<Rightarrow> 'a fstate_scheme \<Rightarrow> (u32 \<times> 'a fstate_scheme) option" where
  "sys_write fd src count s =
     (if fd < 0 then do {
        s1 \<leftarrow> printk (msg ''sys_write: fd error\<newline>'') [] s;
        Some (-1, s1)
      } else if fd = 1 then do {
        tmp_buf \<leftarrow> memcpy (replicate 1024 0) 0 src 0 (unat count);
        s1 \<leftarrow> console_put_str tmp_buf s;
        Some (count, s1)
      } else do {
        f \<leftarrow> fd_local2global (nat fd) s;
        x \<leftarrow> rd (file_table s) f;
        if fd_flag x AND O_WRONLY \<noteq> 0 \<or> fd_flag x AND O_RDWR \<noteq> 0 then file_write f src count s
        else do {
          s1 \<leftarrow> console_put_str (msg ''sys_write: not allowed to write file without flag O_RDWR or O_WRONLY\<newline>'') s;
          Some (-1, s1)
        }
      })"

fun read_stdin :: "nat \<Rightarrow> ioqueue \<Rightarrow> 'a fstate_scheme \<Rightarrow> (u8 list \<times> ioqueue \<times> 'a fstate_scheme) option" where
  "read_stdin 0 kb s = Some ([], kb, s)"
| "read_stdin (Suc n) kb s = do {
     (b, kb1, s1) \<leftarrow> ioq_getchar kb s;
     c \<leftarrow> b;
     (bs, kb2, s2) \<leftarrow> read_stdin n kb1 s1;
     Some (c # bs, kb2, s2)
   }"

definition sys_read :: "int \<Rightarrow> u32 \<Rightarrow> ioqueue \<Rightarrow> 'a fstate_scheme \<Rightarrow> (u32 \<times> u8 list \<times> ioqueue \<times> 'a fstate_scheme) option" where
  "sys_read fd count kb s =
     (if fd < 0 \<or> fd = 1 \<or> fd = 2 then do {
        s1 \<leftarrow> printk (msg ''sys_read: fd error\<newline>'') [] s;
        Some (-1, [], kb, s1)
      } else if fd = 0 then do {
        (bs, kb1, s1) \<leftarrow> read_stdin (unat count) kb s;
        Some (if count = 0 then -1 else count, bs, kb1, s1)
      } else do {
        f \<leftarrow> fd_local2global (nat fd) s;
        (ret, bs, s1) \<leftarrow> file_read f count s;
        Some (ret, bs, kb, s1)
      })"

text \<open>\<^verbatim>\<open>SEEK_SET\<close>, \<^verbatim>\<open>SEEK_CUR\<close> and \<^verbatim>\<open>SEEK_END\<close> are 1, 2 and 3; positions are compared as signed numbers.\<close>

definition sys_lseek :: "int \<Rightarrow> u32 \<Rightarrow> u8 \<Rightarrow> 'a fstate_scheme \<Rightarrow> (u32 \<times> 'a fstate_scheme) option" where
  "sys_lseek fd offset whence s =
     (if fd < 0 then do {
        s1 \<leftarrow> printk (msg ''sys_lseek: fd error\<newline>'') [] s;
        Some (-1, s1)
      } else do {
        ASSERT (whence > 0 \<and> whence < 4);
        f \<leftarrow> fd_local2global (nat fd) s;
        x \<leftarrow> rd (file_table s) f;
        let file_size = i_size (inodes s (fd_inode x));
        let new_pos = (if whence = 1 then offset else if whence = 2 then fd_pos x + offset else file_size + offset);
        if sint new_pos < 0 \<or> sint new_pos > sint (file_size - 1) then Some (-1, s)
        else do {
          s1 \<leftarrow> upd_file f (fd_pos_update (\<lambda>_. new_pos)) s;
          Some (new_pos, s1)
        }
      })"

text \<open>Whether some file of the table is open on the inode.\<close>

definition file_in_use :: "u32 \<Rightarrow> 'a fstate_scheme \<Rightarrow> bool" where
  "file_in_use inode_no s \<longleftrightarrow>
     (\<exists>x\<in>set (take MAX_FILE_OPEN (file_table s)). fd_inode x \<noteq> NULL \<and> inode_no = i_no (inodes s (fd_inode x)))"

definition sys_unlink :: "u8 list \<Rightarrow> 'a fstate_scheme \<Rightarrow> (int \<times> 'a fstate_scheme) option" where
  "sys_unlink pathname s = do {
     len \<leftarrow> strlen pathname 0;
     ASSERT (len < MAX_PATH_LEN);
     (inode_no, rc, s1) \<leftarrow> search_file pathname empty_record s;
     ASSERT (inode_no \<noteq> 0);
     if inode_no = -1 then do {
       s2 \<leftarrow> printk (msg ''file %s not found!\<newline>'') [AStr pathname] s1;
       s3 \<leftarrow> dir_close (sr_parent rc) s2;
       Some (-1, s3)
     } else if sr_type rc = FT_DIRECTORY then do {
       s2 \<leftarrow> printk (msg ''can't delete a direcotry with unlink(), use rmdir() to instead\<newline>'') [] s1;
       s3 \<leftarrow> dir_close (sr_parent rc) s2;
       Some (-1, s3)
     } else if file_in_use inode_no s1 then do {
       s2 \<leftarrow> dir_close (sr_parent rc) s1;
       s3 \<leftarrow> printk (msg ''file %s is in use, not allow to delete!\<newline>'') [AStr pathname] s2;
       Some (-1, s3)
     } else do {
       (io, s2) \<leftarrow> sys_malloc (SECTOR_SIZE + SECTOR_SIZE) s1;
       if io = NULL then do {
         s3 \<leftarrow> dir_close (sr_parent rc) s2;
         s4 \<leftarrow> printk (msg ''sys_unlink: malloc for io_buf failed\<newline>'') [] s3;
         Some (-1, s4)
       } else do {
         (_, s3) \<leftarrow> delete_dir_entry (cur_part s2) (sr_parent rc) inode_no (replicate 1024 0) s2;
         s4 \<leftarrow> inode_release (cur_part s3) inode_no s3;
         s5 \<leftarrow> sys_free io s4;
         s6 \<leftarrow> dir_close (sr_parent rc) s5;
         Some (0, s6)
       }
     }
   }"

section \<open>System calls on directories\<close>

text \<open>The label \<^verbatim>\<open>rollback\<close> of \<^verbatim>\<open>sys_mkdir\<close>, step 1 and step 2.\<close>

definition mkdir_fail1 :: "addr \<Rightarrow> addr \<Rightarrow> 'a fstate_scheme \<Rightarrow> (int \<times> 'a fstate_scheme) option" where
  "mkdir_fail1 parent io s = do {
     s1 \<leftarrow> dir_close parent s;
     s2 \<leftarrow> sys_free io s1;
     Some (-1, s2)
   }"

definition mkdir_fail2 :: "u32 \<Rightarrow> addr \<Rightarrow> addr \<Rightarrow> 'a fstate_scheme \<Rightarrow> (int \<times> 'a fstate_scheme) option" where
  "mkdir_fail2 inode_no parent io s = do {
     b \<leftarrow> bitmap_set (inode_bitmap (parts s (cur_part s))) (unat inode_no) 0;
     mkdir_fail1 parent io (upd_part (cur_part s) (inode_bitmap_update (\<lambda>_. b)) s)
   }"

text \<open>From the allocation of the inode on; the new directory is called \<open>path\<close> from \<open>off\<close> on.\<close>

definition make_dir :: "addr \<Rightarrow> u8 list \<Rightarrow> nat \<Rightarrow> addr \<Rightarrow> 'a fstate_scheme \<Rightarrow> (int \<times> 'a fstate_scheme) option" where
  "make_dir parent path off io s = do {
     let q = cur_part s;
     (inode_no, s1) \<leftarrow> inode_bitmap_alloc q s;
     if inode_no = -1 then do {
       s2 \<leftarrow> printk (msg ''sys_mkdir: allocate inode failed\<newline>'') [] s1;
       mkdir_fail1 parent io s2
     } else do {
       (block_lba, s2) \<leftarrow> block_bitmap_alloc q s1;
       if block_lba = -1 then do {
         s3 \<leftarrow> printk (msg ''sys_mkdir: block_bitmap_alloc for create directory failed\<newline>'') [] s2;
         mkdir_fail2 inode_no parent io s3
       } else do {
         let i = (inode_init inode_no)\<lparr>i_sectors := (replicate 13 0)[0 := block_lba]\<rparr>;
         let block_bitmap_idx = block_lba - data_start_lba (sb (parts s2 q));
         ASSERT (block_bitmap_idx \<noteq> 0);
         s3 \<leftarrow> bitmap_sync q block_bitmap_idx BLOCK_BITMAP s2;
         bf \<leftarrow> dot_entries inode_no (i_no (inodes s3 (dir_inode (dirs s3 parent)))) (replicate 1024 0);
         s4 \<leftarrow> ide_write (part_disk q s3) block_lba bf 1 s3;
         let i1 = i\<lparr>i_size := 2 * dir_entry_size (sb (parts s4 q))\<rparr>;
         e \<leftarrow> create_dir_entry path off inode_no (ucast FT_DIRECTORY) (replicate 24 0);
         (ok, s5) \<leftarrow> sync_dir_entry parent e (replicate 1024 0) s4;
         if \<not> ok then do {
           s6 \<leftarrow> printk (msg ''sys_mkdir: sync_dir_entry to disk failed!\<newline>'') [] s5;
           mkdir_fail2 inode_no parent io s6
         } else do {
           s6 \<leftarrow> inode_sync q (inodes s5 (dir_inode (dirs s5 parent))) (replicate 1024 0) s5;
           s7 \<leftarrow> inode_sync q i1 (replicate 1024 0) s6;
           s8 \<leftarrow> bitmap_sync q inode_no INODE_BITMAP s7;
           s9 \<leftarrow> sys_free io s8;
           s10 \<leftarrow> dir_close parent s9;
           Some (0, s10)
         }
       }
     }
   }"

definition sys_mkdir :: "u8 list \<Rightarrow> 'a fstate_scheme \<Rightarrow> (int \<times> 'a fstate_scheme) option" where
  "sys_mkdir pathname s = do {
     (io, s1) \<leftarrow> sys_malloc (SECTOR_SIZE * 2) s;
     if io = NULL then do {
       s2 \<leftarrow> printk (msg ''sys_mkdir: sys_malloc for io_buf failed\<newline>'') [] s1;
       Some (-1, s2)
     } else do {
       (inode_no, rc, s2) \<leftarrow> search_file pathname empty_record s1;
       if inode_no \<noteq> -1 then do {
         s3 \<leftarrow> printk (msg ''sys_mkdir: file or directory %s exist!\<newline>'') [AStr pathname] s2;
         mkdir_fail1 (sr_parent rc) io s3
       } else do {
         pathname_depth \<leftarrow> path_depth_cnt (junk_name s2) pathname;
         path_searched_depth \<leftarrow> path_depth_cnt (junk_name s2) (searched_path rc);
         if pathname_depth \<noteq> path_searched_depth then do {
           s3 \<leftarrow> printk (msg ''sys_mkdir: can't access %s, subpath %s is't exist\<newline>'') [AStr pathname, AStr (searched_path rc)] s2;
           mkdir_fail1 (sr_parent rc) io s3
         } else do {
           k \<leftarrow> after_slash (searched_path rc);
           make_dir (sr_parent rc) (searched_path rc) k io s2
         }
       }
     }
   }"

definition sys_opendir :: "u8 list \<Rightarrow> 'a fstate_scheme \<Rightarrow> (addr \<times> 'a fstate_scheme) option" where
  "sys_opendir nm s = do {
     len \<leftarrow> strlen nm 0;
     ASSERT (len < MAX_PATH_LEN);
     c0 \<leftarrow> rd nm 0;
     c1 \<leftarrow> (if c0 = 47 then rd nm 1 else Some 1);
     if c0 = 47 \<and> (c1 = 0 \<or> c0 = 46) then Some (root_dir s, s)
     else do {
       (inode_no, rc, s1) \<leftarrow> search_file nm empty_record s;
       (ret, s2) \<leftarrow> (if inode_no = -1 then do {
            s' \<leftarrow> printk (msg ''In %s, sub path %s not exist\<newline>'') [AStr nm, AStr (searched_path rc)] s1;
            Some (NULL, s')
          } else if sr_type rc = FT_REGULAR then do {
            s' \<leftarrow> printk (msg ''%s is regular file!\<newline>'') [AStr nm] s1;
            Some (NULL, s')
          } else if sr_type rc = FT_DIRECTORY then dir_open (cur_part s1) inode_no s1
          else Some (NULL, s1));
       s3 \<leftarrow> dir_close (sr_parent rc) s2;
       Some (ret, s3)
     }
   }"

definition sys_closedir :: "addr \<Rightarrow> 'a fstate_scheme \<Rightarrow> (int \<times> 'a fstate_scheme) option" where
  "sys_closedir d s =
     (if d \<noteq> NULL then do {
        s1 \<leftarrow> dir_close d s;
        Some (0, s1)
      } else Some (-1, s))"

definition sys_readdir :: "addr \<Rightarrow> 'a fstate_scheme \<Rightarrow> (nat option \<times> 'a fstate_scheme) option" where
  "sys_readdir d s = do {
     ASSERT (d \<noteq> NULL);
     dir_read d s
   }"

definition sys_rewinddir :: "addr \<Rightarrow> 'a fstate_scheme \<Rightarrow> 'a fstate_scheme" where
  "sys_rewinddir d s = s\<lparr>dirs := (dirs s)(d := (dirs s d)\<lparr>dir_pos := 0\<rparr>)\<rparr>"

definition sys_rmdir :: "u8 list \<Rightarrow> 'a fstate_scheme \<Rightarrow> (int \<times> 'a fstate_scheme) option" where
  "sys_rmdir pathname s = do {
     (inode_no, rc, s1) \<leftarrow> search_file pathname empty_record s;
     ASSERT (inode_no \<noteq> 0);
     (retval, s2) \<leftarrow> (if inode_no = -1 then do {
          s' \<leftarrow> printk (msg ''In %s, sub path %s not exist\<newline>'') [AStr pathname, AStr (searched_path rc)] s1;
          Some (-1, s')
        } else if sr_type rc = FT_REGULAR then do {
          s' \<leftarrow> printk (msg ''%s is regular file!\<newline>'') [AStr pathname] s1;
          Some (-1, s')
        } else do {
          (d, s') \<leftarrow> dir_open (cur_part s1) inode_no s1;
          (r, s'') \<leftarrow> (if \<not> dir_is_empty d s' then do {
               t \<leftarrow> printk (msg ''dir %s is not empty, it is not allowed to delete a nonempty directory!\<newline>'') [AStr pathname] s';
               Some (-1, t)
             } else do {
               (x, t) \<leftarrow> dir_remove (sr_parent rc) d s';
               Some (if x = 0 then 0 else -1, t)
             });
          s''' \<leftarrow> dir_close d s'';
          Some (r, s''')
        });
     s3 \<leftarrow> dir_close (sr_parent rc) s2;
     Some (retval, s3)
   }"

section \<open>The working directory\<close>

text \<open>\<^verbatim>\<open>io_buf\<close> is one sector.\<close>

definition get_parent_dir_inode_nr :: "u32 \<Rightarrow> 'a fstate_scheme \<Rightarrow> (u32 \<times> 'a fstate_scheme) option" where
  "get_parent_dir_inode_nr child_inode_nr s = do {
     (a, s1) \<leftarrow> inode_open (cur_part s) child_inode_nr s;
     block_lba \<leftarrow> get_sector a 0 s1;
     ASSERT (block_lba \<ge> data_start_lba (sb (parts s1 (cur_part s1))));
     s2 \<leftarrow> inode_close a s1;
     (bs, s3) \<leftarrow> ide_read (part_disk (cur_part s2) s2) block_lba 1 s2;
     n \<leftarrow> de_i_no bs 1;
     t \<leftarrow> de_f_type bs 1;
     ASSERT (n < 4096 \<and> t = FT_DIRECTORY);
     Some (n, s3)
   }"

fun child_entry_loop :: "u8 list \<Rightarrow> u32 \<Rightarrow> nat \<Rightarrow> nat \<Rightarrow> nat option option" where
  "child_entry_loop bs c_inode_nr 0 k = Some None"
| "child_entry_loop bs c_inode_nr (Suc n) k = do {
     i \<leftarrow> de_i_no bs k;
     if i = c_inode_nr then Some (Some k) else child_entry_loop bs c_inode_nr n (Suc k)
   }"

fun child_name_loop :: "u32 list \<Rightarrow> u32 \<Rightarrow> nat \<Rightarrow> u8 list \<Rightarrow> 'a fstate_scheme \<Rightarrow> (int \<times> u8 list \<times> 'a fstate_scheme) option" where
  "child_name_loop [] c_inode_nr per_sec path s = Some (-1, path, s)"
| "child_name_loop (b # blocks) c_inode_nr per_sec path s =
     (if b \<noteq> 0 then do {
        (bs, s1) \<leftarrow> ide_read (part_disk (cur_part s) s) b 1 s;
        r \<leftarrow> child_entry_loop bs c_inode_nr per_sec 0;
        case r of Some k \<Rightarrow> do {
            p1 \<leftarrow> strcat path 0 slash 0;
            p2 \<leftarrow> strcat p1 0 bs (sizeof_dir_entry * k);
            Some (0, p2, s1)
          }
        | None \<Rightarrow> child_name_loop blocks c_inode_nr per_sec path s1
      } else child_name_loop blocks c_inode_nr per_sec path s)"

definition get_child_dir_name :: "u32 \<Rightarrow> u32 \<Rightarrow> u8 list \<Rightarrow> 'a fstate_scheme \<Rightarrow> (int \<times> u8 list \<times> 'a fstate_scheme) option" where
  "get_child_dir_name p_inode_nr c_inode_nr path s = do {
     (a, s1) \<leftarrow> inode_open (cur_part s) p_inode_nr s;
     let i = inodes s1 a;
     (all_blocks, s2) \<leftarrow> collect_blocks (cur_part s1) i s1;
     t \<leftarrow> rd (i_sectors i) 12;
     s3 \<leftarrow> inode_close a s2;
     per_sec \<leftarrow> entries_per_sec (cur_part s3) s3;
     child_name_loop (take (if t \<noteq> 0 then 140 else 12) all_blocks) c_inode_nr per_sec path s3
   }"

text \<open>
  The loop up to the root; it has no result when the parents never lead to inode 0. \<open>False\<close> is the
  failure to find a directory in its parent.
\<close>

partial_function (option) cwd_loop :: "u32 \<Rightarrow> u8 list \<Rightarrow> 'a fstate_scheme \<Rightarrow> (bool \<times> u8 list \<times> 'a fstate_scheme) option" where
  "cwd_loop child path s =
     (if child \<noteq> 0 then
        Option.bind (get_parent_dir_inode_nr child s) (\<lambda>(parent, s1).
          Option.bind (get_child_dir_name parent child path s1) (\<lambda>(r, path1, s2).
            if r = -1 then Some (False, path1, s2) else cwd_loop parent path1 s2))
      else Some (True, path, s))"

text \<open>The names, collected from the last to the first, are copied in their proper order.\<close>

partial_function (option) reverse_path :: "u8 list \<Rightarrow> u8 list \<Rightarrow> u8 list option" where
  "reverse_path full bf =
     Option.bind (strrchr full 0 47) (\<lambda>r.
       case r of None \<Rightarrow> Some bf
       | Some i \<Rightarrow> Option.bind (strlen bf 0) (\<lambda>len.
           Option.bind (strcpy bf len full i) (\<lambda>bf1.
             Option.bind (wr full i 0) (\<lambda>full1. reverse_path full1 bf1))))"

text \<open>The buffer \<open>bf\<close> is not null; the result says whether it is returned.\<close>

definition sys_getcwd :: "u8 list \<Rightarrow> u32 \<Rightarrow> 'a fstate_scheme \<Rightarrow> (bool \<times> u8 list \<times> 'a fstate_scheme) option" where
  "sys_getcwd bf sz s = do {
     (io, s1) \<leftarrow> sys_malloc SECTOR_SIZE s;
     if io = NULL then Some (False, bf, s1)
     else do {
       let child = cwd_inode_nr (tasks s1 (running_thread s1));
       ASSERT (child < 4096);
       if child = 0 then do {
         b1 \<leftarrow> wr bf 0 47;
         b2 \<leftarrow> wr b1 1 0;
         Some (True, b2, s1)
       } else do {
         b1 \<leftarrow> memset bf 0 0 (unat sz);
         (ok, full, s2) \<leftarrow> cwd_loop child (replicate MAX_PATH_LEN 0) s1;
         if \<not> ok then do {
           s3 \<leftarrow> sys_free io s2;
           Some (False, b1, s3)
         } else do {
           len \<leftarrow> strlen full 0;
           ASSERT (len \<le> unat sz);
           b2 \<leftarrow> reverse_path full b1;
           s3 \<leftarrow> sys_free io s2;
           Some (True, b2, s3)
         }
       }
     }
   }"

definition sys_chdir :: "u8 list \<Rightarrow> 'a fstate_scheme \<Rightarrow> (int \<times> 'a fstate_scheme) option" where
  "sys_chdir path s = do {
     (inode_no, rc, s1) \<leftarrow> search_file path empty_record s;
     (ret, s2) \<leftarrow> (if inode_no \<noteq> -1 then
          (if sr_type rc = FT_DIRECTORY then Some (0, upd_task (running_thread s1) (cwd_inode_nr_update (\<lambda>_. inode_no)) s1)
           else do {
             s' \<leftarrow> printk (msg ''sys_chdir: %s is regular file or other!\<newline>'') [AStr path] s1;
             Some (-1, s')
           })
        else Some (-1, s1));
     s3 \<leftarrow> dir_close (sr_parent rc) s2;
     Some (ret, s3)
   }"

record stat =
  st_ino :: u32
  st_size :: u32
  st_filetype :: u32

definition sys_stat :: "u8 list \<Rightarrow> stat \<Rightarrow> 'a fstate_scheme \<Rightarrow> (int \<times> stat \<times> 'a fstate_scheme) option" where
  "sys_stat path st s = do {
     is_root \<leftarrow> is_root_path path;
     if is_root then
       Some (0, \<lparr>st_ino = 0, st_size = i_size (inodes s (dir_inode (dirs s (root_dir s)))), st_filetype = FT_DIRECTORY\<rparr>, s)
     else do {
       (inode_no, rc, s1) \<leftarrow> search_file path empty_record s;
       (ret, st1, s2) \<leftarrow> (if inode_no \<noteq> -1 then do {
            (a, s') \<leftarrow> inode_open (cur_part s1) inode_no s1;
            s'' \<leftarrow> inode_close a s';
            Some (0, \<lparr>st_ino = inode_no, st_size = i_size (inodes s' a), st_filetype = sr_type rc\<rparr>, s'')
          } else do {
            s' \<leftarrow> printk (msg ''sys_stat: %s not found\<newline>'') [AStr path] s1;
            Some (-1, st, s')
          });
       s3 \<leftarrow> dir_close (sr_parent rc) s2;
       Some (ret, st1, s3)
     }
   }"

definition sys_putchar :: "u8 \<Rightarrow> 'a fstate_scheme \<Rightarrow> 'a fstate_scheme option" where
  "sys_putchar char_ascii s = console_put_char char_ascii s"

end
