(* ===== verification/Inode_Disk.thy ===== *)
theory Inode_Disk
  imports Inode
begin

text \<open>
  The inode table on the disk: what \<open>inode_sync\<close> writes is what \<open>inode_open\<close> later reads. The table is the
  608 sectors from \<^verbatim>\<open>inode_table_lba\<close> on, as one list of bytes in which inode \<open>n\<close> has the 76 bytes from
  \<open>76 * n\<close> on; reading and writing one or two sectors of it is a read or an overwrite of that list.
\<close>

section \<open>Words in buffers\<close>

lemma le_bytes_length [simp]: "length (le_bytes w) = 4"
  by (simp add: le_bytes_def)

lemma words_bytes_length [simp]: "length (words_bytes ws) = 4 * length ws"
  by (induction ws) (simp_all add: words_bytes_def)

lemma bytes_of_word:
  "ucast (ucast w :: u8) OR push_bit 8 (ucast (ucast (drop_bit 8 w) :: u8)) OR push_bit 16 (ucast (ucast (drop_bit 16 w) :: u8)) OR
   push_bit 24 (ucast (ucast (drop_bit 24 w) :: u8)) = (w :: u32)"
proof (rule bit_eqI)
  fix n
  assume "possible_bit TYPE(u32) n"
  then have n: "n < 32"
    by simp
  consider "n < 8" | "8 \<le> n" "n < 16" | "16 \<le> n" "n < 24" | "24 \<le> n"
    by linarith
  then show "bit (ucast (ucast w :: u8) OR push_bit 8 (ucast (ucast (drop_bit 8 w) :: u8)) OR push_bit 16 (ucast (ucast (drop_bit 16 w) :: u8)) OR
      push_bit 24 (ucast (ucast (drop_bit 24 w) :: u8)) :: u32) n = bit w n"
    using n by cases (auto simp: bit_simps)
qed

lemma le32_bytes: "le32 (xs @ le_bytes w @ ys) (length xs) = Some w"
proof -
  have "rd (xs @ le_bytes w @ ys) (length xs + k) = Some (le_bytes w ! k)" if "k < 4" for k
    using that by (simp add: rd_def nth_append)
  from this [of 0] this [of 1] this [of 2] this [of 3] show ?thesis
    using bytes_of_word [of w] by (simp add: le32_def le_bytes_def)
qed

lemma le32s_words: "le32s (xs @ words_bytes ws @ ys) (length xs) (length ws) = Some ws"
proof (induction ws arbitrary: xs)
  case (Cons w ws)
  have "le32 (xs @ le_bytes w @ words_bytes ws @ ys) (length xs) = Some w"
    by (rule le32_bytes)
  moreover have "le32s ((xs @ le_bytes w) @ words_bytes ws @ ys) (length (xs @ le_bytes w)) (length ws) = Some ws"
    by (rule Cons.IH)
  ultimately show ?case
    by (simp add: words_bytes_def)
qed simp

lemma le32_cong:
  assumes "length bs = length bs'" and "\<And>k. k < 4 \<Longrightarrow> i + k < length bs \<Longrightarrow> bs ! (i + k) = bs' ! (i + k)"
  shows "le32 bs i = le32 bs' i"
proof -
  have "rd bs (i + k) = rd bs' (i + k)" if "k < 4" for k
    using assms that by (simp add: rd_def)
  from this [of 0] this [of 1] this [of 2] this [of 3] show ?thesis
    by (simp add: le32_def)
qed

lemma le32s_cong:
  assumes "length bs = length bs'" and "\<And>k. k < 4 * n \<Longrightarrow> i + k < length bs \<Longrightarrow> bs ! (i + k) = bs' ! (i + k)"
  shows "le32s bs i n = le32s bs' i n"
  using assms(2)
proof (induction n arbitrary: i)
  case (Suc n)
  have "le32 bs i = le32 bs' i"
    using assms(1) Suc.prems by (intro le32_cong) auto
  moreover have "le32s bs (i + 4) n = le32s bs' (i + 4) n"
  proof (rule Suc.IH)
    fix k
    assume "k < 4 * n" "i + 4 + k < length bs"
    then show "bs ! (i + 4 + k) = bs' ! (i + 4 + k)"
      using Suc.prems [of "4 + k"] by (simp add: add.assoc)
  qed
  ultimately show ?case
    by simp
qed simp

lemma rd_drop: "rd (drop m bs) i = rd bs (m + i)"
  by (auto simp: rd_def)

lemma rd_take: "i < m \<Longrightarrow> rd (take m bs) i = rd bs i"
  by (simp add: rd_def)

lemma le32_drop: "le32 (drop m bs) i = le32 bs (m + i)"
  by (simp add: le32_def rd_drop add.assoc)

lemma le32s_drop: "le32s (drop m bs) i n = le32s bs (m + i) n"
  by (induction n arbitrary: i) (simp_all add: le32_drop add.assoc)

lemma le32_take: "i + 4 \<le> m \<Longrightarrow> le32 (take m bs) i = le32 bs i"
  by (simp add: le32_def rd_take)

lemma le32s_take: "i + 4 * n \<le> m \<Longrightarrow> le32s (take m bs) i n = le32s bs i n"
  by (induction n arbitrary: i) (simp_all add: le32_take)

section \<open>Overwriting part of a list\<close>

definition overwrite :: "'b list \<Rightarrow> nat \<Rightarrow> 'b list \<Rightarrow> 'b list" where
  "overwrite xs off ys = take off xs @ ys @ drop (off + length ys) xs"

lemma overwrite_length: "off + length ys \<le> length xs \<Longrightarrow> length (overwrite xs off ys) = length xs"
  by (simp add: overwrite_def)

lemma overwrite_nth:
  assumes "off + length ys \<le> length xs" and "i < length xs"
  shows "overwrite xs off ys ! i = (if off \<le> i \<and> i < off + length ys then ys ! (i - off) else xs ! i)"
proof -
  consider "i < off" | "off \<le> i" "i < off + length ys" | "off + length ys \<le> i"
    by linarith
  then show ?thesis
    using assms by cases (auto simp: overwrite_def nth_append)
qed

lemma overwrite_overwrite:
  assumes "off + length ys \<le> length zs" and "m + length zs \<le> length xs"
    and "zs = take (length zs) (drop m xs)"
  shows "overwrite xs m (overwrite zs off ys) = overwrite xs (m + off) ys"
proof (rule nth_equalityI)
  have l: "length (overwrite zs off ys) = length zs"
    using assms(1) by (rule overwrite_length)
  show "length (overwrite xs m (overwrite zs off ys)) = length (overwrite xs (m + off) ys)"
    using assms l by (simp add: overwrite_length)
  fix i
  assume "i < length (overwrite xs m (overwrite zs off ys))"
  then have i: "i < length xs"
    using assms l by (simp add: overwrite_length)
  have z: "zs ! j = xs ! (m + j)" if "j < length zs" for j
    by (subst assms(3)) (use that assms(2) in simp)
  show "overwrite xs m (overwrite zs off ys) ! i = overwrite xs (m + off) ys ! i"
    using assms l i by (auto simp: overwrite_nth z)
qed

lemma le32s_overwrite:
  assumes "off + 4 * length ws \<le> length xs"
  shows "le32s (overwrite xs off (words_bytes ws)) off (length ws) = Some ws"
  using le32s_words [of "take off xs" ws "drop (off + 4 * length ws) xs"] assms by (simp add: overwrite_def)

lemma le32s_overwrite_other:
  assumes "off + length ys \<le> length xs" and "i + 4 * n \<le> off \<or> off + length ys \<le> i"
  shows "le32s (overwrite xs off ys) i n = le32s xs i n"
  using assms by (intro le32s_cong) (auto simp: overwrite_length overwrite_nth)

section \<open>Sectors of a table\<close>

lemma put_sectors_take: "put_sectors d lba n bs = put_sectors d lba n (take (n * 512) bs)"
proof (rule ext)
  fix x
  have "take 512 (drop (512 * i) (take (n * 512) bs)) = take 512 (drop (512 * i) bs)" if "i < n" for i
  proof -
    have "512 * i + 512 \<le> n * 512"
      using mult_le_mono1 [of "Suc i" n 512] that by simp
    then show ?thesis
      by (simp add: drop_take)
  qed
  then show "put_sectors d lba n bs x = put_sectors d lba n (take (n * 512) bs) x"
    by (simp add: put_sectors_def)
qed

text \<open>The \<open>m\<close>-th sector from \<open>lba\<close> on is not one of the \<open>k\<close> sectors from the \<open>j\<close>-th on.\<close>

lemma put_sectors_other:
  assumes "m < j \<or> j + k \<le> m" and "j + k \<le> N" and "m < N" and "N \<le> 2 ^ 31"
  shows "put_sectors d (lba + of_nat j) k bs (lba + of_nat m) = d (lba + of_nat m)"
proof -
  have "unat (of_nat m :: u32) = m" "unat (of_nat j :: u32) = j"
    using assms by (simp_all add: unat_of_nat)
  then have "k \<le> unat (of_nat m - of_nat j :: u32)"
    using assms by (auto simp: unat_sub_if' word_size)
  then show ?thesis
    by (simp add: put_sectors_def)
qed

lemma sectors_cong: "(\<And>m. m < n \<Longrightarrow> d (lba + of_nat m) = d' (lba + of_nat m)) \<Longrightarrow> sectors d lba n = sectors d' lba n"
  unfolding sectors_def by (intro arg_cong [where f = concat] map_cong) auto

lemma sectors_within:
  assumes "drive_ok d" and "j + k \<le> n"
  shows "take (k * 512) (drop (j * 512) (sectors d lba n)) = sectors d (lba + of_nat j) k"
proof -
  have "sectors d lba n = sectors d lba j @ sectors d (lba + of_nat j) k @ sectors d (lba + of_nat j + of_nat k) (n - j - k)"
    using sectors_add [of d lba j "n - j"] sectors_add [of d "lba + of_nat j" k "n - j - k"] assms(2) by simp
  then show ?thesis
    using assms(1) by (simp add: sectors_length)
qed

lemma sectors_put_within:
  assumes "drive_ok d" and "j + k \<le> n" and "k * 512 \<le> length bs" and "unat lba + n \<le> 2 ^ 31"
  shows "sectors (put_sectors d (lba + of_nat j) k bs) lba n = overwrite (sectors d lba n) (j * 512) (take (k * 512) bs)"
    (is "sectors ?d lba n = _")
proof -
  have ok: "drive_ok ?d"
    using assms(1,3) by (rule drive_ok_put)
  have split: "sectors e lba n = sectors e lba j @ sectors e (lba + of_nat j) k @ sectors e (lba + of_nat j + of_nat k) (n - j - k)" for e
    using sectors_add [of e lba j "n - j"] sectors_add [of e "lba + of_nat j" k "n - j - k"] assms(2) by simp
  have "unat (lba + of_nat j) + k \<le> 2 ^ 32"
    using assms(2,4) by (simp add: unat_word_ariths unat_of_nat)
  then have "sectors ?d (lba + of_nat j) k = take (k * 512) bs"
    using assms(1,3) by (subst put_sectors_take) (simp add: sectors_put)
  moreover have "sectors ?d lba j = sectors d lba j"
    by (rule sectors_cong, rule put_sectors_other [where N = n]) (use assms in auto)
  moreover have "sectors ?d (lba + of_nat j + of_nat k) (n - j - k) = sectors d (lba + of_nat j + of_nat k) (n - j - k)"
  proof (rule sectors_cong)
    fix m
    assume m: "m < n - j - k"
    have "?d (lba + of_nat (j + k + m)) = d (lba + of_nat (j + k + m))"
      by (rule put_sectors_other [where N = n]) (use m assms in auto)
    then show "?d (lba + of_nat j + of_nat k + of_nat m) = d (lba + of_nat j + of_nat k + of_nat m)"
      by (simp add: add.assoc)
  qed
  ultimately have "sectors ?d lba n = sectors d lba j @ take (k * 512) bs @ sectors d (lba + of_nat j + of_nat k) (n - j - k)"
    using split [of ?d] by simp
  moreover have "take (j * 512) (sectors d lba n) = sectors d lba j"
    using sectors_within [of d 0 j n lba] assms(1,2) by simp
  moreover have "drop (j * 512 + k * 512) (sectors d lba n) = sectors d (lba + of_nat j + of_nat k) (n - j - k)"
    by (subst split) (simp add: sectors_length assms(1))
  ultimately show ?thesis
    using assms(3) by (simp add: overwrite_def)
qed

section \<open>The inode table\<close>

definition inode_table :: "part_ptr \<Rightarrow> 'a fstate_scheme \<Rightarrow> u8 list" where
  "inode_table q s = sectors (drive (part_disk q s) s) (inode_table_lba (sb (parts s q))) 608"

definition table_ok :: "part_ptr \<Rightarrow> 'a fstate_scheme \<Rightarrow> bool" where
  "table_ok q s \<longleftrightarrow> ide_ready (part_disk q s) s \<and>
     unat (inode_table_lba (sb (parts s q))) + 608 \<le> unat max_lba + 1 \<and>
     unat (inode_table_lba (sb (parts s q))) + 608 \<le> unat (start_lba (parts s q) + sec_cnt (parts s q))"

text \<open>The inode that \<^verbatim>\<open>inode_open\<close> would read from the disk.\<close>

definition stored_inode :: "part_ptr \<Rightarrow> 'a fstate_scheme \<Rightarrow> u32 \<Rightarrow> inode option" where
  "stored_inode q s no = do {
     pos \<leftarrow> inode_locate q no s;
     (i, _) \<leftarrow> load_inode q pos s;
     Some i
   }"

lemma max_lba_small: "unat max_lba + 1 \<le> 2 ^ 31"
  by (simp add: max_lba_num)

lemma inode_table_length: "table_ok q s \<Longrightarrow> length (inode_table q s) = 608 * 512"
  by (simp add: table_ok_def ide_ready_def inode_table_def sectors_length)

lemma inode_place:
  assumes "n < 4096"
  shows "76 * n div 512 + (if 512 - 76 * n mod 512 < 76 then 2 else 1) \<le> (608 :: nat)"
    and "76 * n mod 512 + 76 \<le> (if 512 - 76 * n mod 512 < 76 then 2 else 1) * (512 :: nat)"
proof -
  obtain x y where xy: "76 * n div 512 = x" "76 * n mod 512 = y"
    by blast
  then have "512 * x + y = 76 * n" and "y < 512"
    using mult_div_mod_eq [of 512 "76 * n"] by auto
  moreover have "76 * n \<le> 311220"
    using assms by simp
  ultimately show "76 * n div 512 + (if 512 - 76 * n mod 512 < 76 then 2 else 1) \<le> (608 :: nat)"
    and "76 * n mod 512 + 76 \<le> (if 512 - 76 * n mod 512 < 76 then 2 else 1) * (512 :: nat)"
    unfolding xy by (auto split: if_splits)
qed

lemma inode_locate_pos:
  assumes "no < 4096"
  obtains pos where "inode_locate q no s = Some pos"
    and "sec_lba pos = inode_table_lba (sb (parts s q)) + of_nat (76 * unat no div 512)"
    and "unat (off_size pos) = 76 * unat no mod 512"
    and "76 * unat no div 512 + pos_secs pos \<le> 608" and "76 * unat no mod 512 + 76 \<le> pos_secs pos * 512"
    and "0 < pos_secs pos" and "pos_secs pos \<le> 2" and "76 * unat no mod 512 + 76 \<le> 512 \<Longrightarrow> pos_secs pos = 1"
proof -
  define n where "n = unat no"
  have n: "n < 4096"
    using assms by (simp add: n_def word_less_nat_alt)
  have u: "unat (no * of_nat sizeof_inode) = 76 * n"
    using n by (simp add: sizeof_inode_def unat_word_ariths n_def mult.commute)
  have dv: "unat (no * of_nat sizeof_inode div 512) = 76 * n div 512"
    by (simp add: unat_div u)
  have md: "unat (no * of_nat sizeof_inode mod 512) = 76 * n mod 512"
    by (simp add: unat_mod u)
  have le: "no * of_nat sizeof_inode mod 512 \<le> 512"
    using md by (simp add: word_le_nat_alt less_imp_le)
  have two: "(512 - no * of_nat sizeof_inode mod 512 < of_nat sizeof_inode) = (512 - 76 * n mod 512 < 76)"
    using le md by (simp add: word_less_nat_alt unat_sub sizeof_inode_def)
  let ?pos = "\<lparr>two_sec = (512 - no * of_nat sizeof_inode mod 512 < of_nat sizeof_inode),
    sec_lba = inode_table_lba (sb (parts s q)) + no * of_nat sizeof_inode div 512, off_size = no * of_nat sizeof_inode mod 512\<rparr>"
  have secs: "pos_secs ?pos = (if 512 - 76 * n mod 512 < 76 then 2 else 1)"
    by (simp add: pos_secs_def two)
  have q: "no * of_nat sizeof_inode div 512 = of_nat (76 * n div 512)"
    using dv n by (simp add: word_unat_eq_iff unat_of_nat)
  show thesis
  proof (rule that [of ?pos], unfold n_def [symmetric])
    show "inode_locate q no s = Some ?pos"
      using assms by (simp add: inode_locate_def Let_def)
    show "76 * n div 512 + pos_secs ?pos \<le> 608" "76 * n mod 512 + 76 \<le> pos_secs ?pos * 512"
      unfolding secs using inode_place [OF n] by auto
    show "pos_secs ?pos = 1" if "76 * n mod 512 + 76 \<le> 512"
      unfolding secs using that by simp
    show "0 < pos_secs ?pos" "pos_secs ?pos \<le> 2"
      by (simp_all add: pos_secs_def)
  qed (simp_all add: q md)
qed

lemma load_inode_table:
  assumes ok: "table_ok q s" and no: "no < 4096"
  shows "stored_inode q s no = inode_at (inode_table q s) (76 * unat no)"
proof -
  let ?d = "drive (part_disk q s) s" and ?t = "inode_table_lba (sb (parts s q))"
  obtain pos where pos: "inode_locate q no s = Some pos" "sec_lba pos = ?t + of_nat (76 * unat no div 512)"
      "unat (off_size pos) = 76 * unat no mod 512" "76 * unat no div 512 + pos_secs pos \<le> 608"
      "76 * unat no mod 512 + 76 \<le> pos_secs pos * 512" "0 < pos_secs pos"
    using inode_locate_pos [OF no, of q s] by metis
  have r: "ide_ready (part_disk q s) s" and d: "drive_ok ?d" and t: "unat ?t + 608 \<le> unat max_lba + 1"
    using ok by (auto simp: table_ok_def ide_ready_def)
  have range: "unat (sec_lba pos) + pos_secs pos \<le> unat max_lba + 1"
    using pos(2,4) t lba_range(2) [of ?t 608 "76 * unat no div 512"] pos(6) by simp
  obtain s1 where "ide_read (part_disk q s) (sec_lba pos) (pos_secs pos) s = Some (sectors ?d (sec_lba pos) (pos_secs pos), s1)"
    using ide_read_ok [OF r pos(6) range] by blast
  moreover have "sectors ?d (sec_lba pos) (pos_secs pos) =
      take (pos_secs pos * 512) (drop (76 * unat no div 512 * 512) (inode_table q s))"
    using sectors_within [OF d pos(4), of ?t] pos(2) by (simp add: inode_table_def)
  moreover have "76 * unat no div 512 * 512 + 76 * unat no mod 512 = 76 * unat no"
    by (rule div_mult_mod_eq)
  ultimately show ?thesis
    using pos by (simp add: stored_inode_def load_inode_def inode_at_def le32s_take le32s_drop)
qed

section \<open>Writing an inode\<close>

definition inode_bytes :: "inode \<Rightarrow> u8 list" where
  "inode_bytes i = words_bytes (inode_words (i\<lparr>i_open_cnts := 0, write_deny := 0\<rparr>) NULL NULL)"

lemma inode_words_length: "length (i_sectors i) = 13 \<Longrightarrow> length (inode_words i p n) = 19"
  by (simp add: inode_words_def)

lemma inode_at_words:
  assumes "length (i_sectors i) = 13" and "le32s bs off 19 = Some (inode_words i p n)"
  shows "inode_at bs off = Some i"
  using assms by (cases i) (simp add: inode_at_def inode_words_def nth_append)

lemma inode_at_overwrite:
  assumes "length (i_sectors i) = 13" and "off + 76 \<le> length xs"
  shows "inode_at (overwrite xs off (inode_bytes i)) off = Some (i\<lparr>i_open_cnts := 0, write_deny := 0\<rparr>)"
proof (rule inode_at_words)
  have "le32s (overwrite xs off (inode_bytes i)) off (length (inode_words (i\<lparr>i_open_cnts := 0, write_deny := 0\<rparr>) NULL NULL)) =
      Some (inode_words (i\<lparr>i_open_cnts := 0, write_deny := 0\<rparr>) NULL NULL)"
    unfolding inode_bytes_def by (rule le32s_overwrite) (use assms in \<open>simp add: inode_words_length\<close>)
  then show "le32s (overwrite xs off (inode_bytes i)) off 19 = Some (inode_words (i\<lparr>i_open_cnts := 0, write_deny := 0\<rparr>) NULL NULL)"
    using assms by (simp add: inode_words_length)
qed (use assms in simp)

lemma inode_at_overwrite_other:
  assumes "off + length ys \<le> length xs" and "j + 76 \<le> off \<or> off + length ys \<le> j"
  shows "inode_at (overwrite xs off ys) j = inode_at xs j"
  using le32s_overwrite_other [of off ys xs j 19] assms by (simp add: inode_at_def)

lemma ide_eff_fields:
  assumes "ide_eff s s'"
  shows "parts s' = parts s" and "inodes s' = inodes s" and "dirs s' = dirs s" and "file_table s' = file_table s"
    and "cur_part s' = cur_part s" and "tasks s' = tasks s" and "cur s' = cur s" and "root_dir s' = root_dir s"
  using assms by (auto simp: ide_eff_def)

lemma set_drive_fields [simp]:
  "parts (set_drive h d s) = parts s" "inodes (set_drive h d s) = inodes s" "dirs (set_drive h d s) = dirs s"
  "file_table (set_drive h d s) = file_table s" "cur_part (set_drive h d s) = cur_part s" "tasks (set_drive h d s) = tasks s"
  "cur (set_drive h d s) = cur s" "root_dir (set_drive h d s) = root_dir s" "part_disk q (set_drive h d s) = part_disk q s"
  by (simp_all add: set_drive_def part_disk_def)

lemma part_disk_eff: "ide_eff s s' \<Longrightarrow> part_disk q s' = part_disk q s"
  by (simp add: part_disk_def ide_eff_fields)

lemma ide_read_buf_ok:
  assumes "ide_ready hdd s" and "0 < cnt" and "unat lba + cnt \<le> unat max_lba + 1" and "cnt * 512 \<le> length bf"
  obtains s' where "ide_read_buf hdd lba bf cnt s = Some (sectors (drive hdd s) lba cnt @ drop (cnt * 512) bf, s')" and "ide_eff s s'"
proof -
  obtain s' where "ide_read hdd lba cnt s = Some (sectors (drive hdd s) lba cnt, s')" and "ide_eff s s'"
    using ide_read_ok [OF assms(1-3)] by blast
  then show thesis
    using assms(4) by (intro that [of s']) (simp_all add: ide_read_buf_def)
qed

text \<open>
  Reading \<open>k\<close> sectors, replacing bytes of them and writing them back, the common part of \<open>inode_sync\<close> and
  \<open>inode_delete\<close>, overwrites part of the \<open>n\<close> sectors from \<open>t\<close> on.
\<close>

lemma rewrite_sectors:
  assumes r: "ide_ready hdd s" and k: "0 < k" "j + k \<le> n" and t: "unat t + n \<le> unat max_lba + 1" and io: "k * 512 \<le> length io"
    and off: "off + length ys \<le> k * 512"
    and bf: "bf = take off (sectors (drive hdd s) (t + of_nat j) k @ drop (k * 512) io) @ ys @
      drop (off + length ys) (sectors (drive hdd s) (t + of_nat j) k @ drop (k * 512) io)"
    and eff: "ide_eff s s1"
  obtains s2 where "ide_write hdd (t + of_nat j) bf k s1 = Some s2" and "ide_ready hdd s2" and "ide_eff (set_drive hdd (drive hdd s2) s) s2"
    and "sectors (drive hdd s2) t n = overwrite (sectors (drive hdd s) t n) (j * 512 + off) ys"
    and "\<And>x. n \<le> unat (x - t) \<Longrightarrow> drive hdd s2 x = drive hdd s x"
proof -
  let ?d = "drive hdd s" and ?lba = "t + of_nat j"
  have d: "drive_ok ?d"
    using r by (simp add: ide_ready_def)
  have d1: "drive hdd s1 = ?d" and r1: "ide_ready hdd s1"
    using r drive_eff [OF eff] ide_ready_eff [OF eff] by simp_all
  have lb: "length (sectors ?d ?lba k) = k * 512"
    using d by (rule sectors_length)
  have u: "unat ?lba = unat t + j"
    using k t by (intro lba_range(2) [of t n]) auto
  have len: "k * 512 \<le> length bf"
    using bf io off lb by simp
  have tk: "take (k * 512) bf = overwrite (sectors ?d ?lba k) off ys"
    using bf off lb by (simp add: overwrite_def)
  obtain s2 where s2: "ide_write hdd ?lba bf k s1 = Some s2" "ide_eff (set_drive hdd (put_sectors ?d ?lba k bf) s1) s2"
    using ide_write_ok [OF r1 k(1) _ len, of ?lba] u k(2) t d1 by auto
  have r2: "ide_ready hdd s2" and d2: "drive hdd s2 = put_sectors ?d ?lba k bf"
    using ide_ready_write [OF r1 len, of ?lba s2] s2(2) d1 by auto
  have "ide_eff (set_drive hdd (put_sectors ?d ?lba k bf) s) s2"
    using ide_eff_trans [OF ide_eff_drive [OF eff] s2(2)] .
  moreover have "sectors (drive hdd s2) t n = overwrite (sectors ?d t n) (j * 512) (take (k * 512) bf)"
    unfolding d2 using d k(2) len t max_lba_small by (intro sectors_put_within) auto
  moreover have "overwrite (sectors ?d t n) (j * 512) (overwrite (sectors ?d ?lba k) off ys) = overwrite (sectors ?d t n) (j * 512 + off) ys"
  proof (rule overwrite_overwrite)
    show "off + length ys \<le> length (sectors ?d ?lba k)" and "j * 512 + length (sectors ?d ?lba k) \<le> length (sectors ?d t n)"
      using off lb mult_le_mono1 [OF k(2), of 512] sectors_length [OF d, of t n] by (simp_all only: add_mult_distrib)
    show "sectors ?d ?lba k = take (length (sectors ?d ?lba k)) (drop (j * 512) (sectors ?d t n))"
      using sectors_within [OF d k(2), of t] by (simp add: lb)
  qed
  moreover have "drive hdd s2 x = ?d x" if "n \<le> unat (x - t)" for x
  proof -
    have "unat (x - ?lba) = unat (x - t - of_nat j)"
      by (simp add: algebra_simps)
    also have "\<dots> = unat (x - t) - j"
      using that k(2) t max_lba_small by (simp add: unat_sub_if' unat_of_nat word_size)
    finally have "\<not> unat (x - ?lba) < k"
      using that k(2) by simp
    then show ?thesis
      using d2 by (simp add: put_sectors_def)
  qed
  ultimately show thesis
    using s2(1) r2 tk d2 by (intro that [of s2]) auto
qed

text \<open>
  \<open>inode_sync\<close> writes the slot given by the low eight bits of the inode number.
\<close>

lemma inode_sync_slot:
  assumes ok: "table_ok q s" and i: "length (i_sectors i) = 13"
    and io: "1024 \<le> length io_buf \<or> 512 \<le> length io_buf \<and> 76 * (unat (i_no i) mod 256) mod 512 + 76 \<le> 512"
  obtains s' where "inode_sync q i io_buf s = Some s'" and "table_ok q s'"
    and "ide_eff (set_drive (part_disk q s) (drive (part_disk q s) s') s) s'"
    and "inode_table q s' = overwrite (inode_table q s) (76 * (unat (i_no i) mod 256)) (inode_bytes i)"
    and "\<And>x. 608 \<le> unat (x - inode_table_lba (sb (parts s q))) \<Longrightarrow> drive (part_disk q s) s' x = drive (part_disk q s) s x"
proof -
  define no where "no = (ucast (ucast (i_no i) :: u8) :: u32)"
  let ?hdd = "part_disk q s" and ?t = "inode_table_lba (sb (parts s q))"
  have un: "unat no = unat (i_no i) mod 256"
    by (simp add: no_def unsigned_ucast_eq take_bit_eq_mod unat_mod)
  moreover have "unat (i_no i) mod 256 < 256"
    by simp
  ultimately have no: "no < 4096"
    by (simp only: word_less_nat_alt unat_numeral) simp
  obtain pos where pos: "inode_locate q no s = Some pos" "sec_lba pos = ?t + of_nat (76 * unat no div 512)"
      "unat (off_size pos) = 76 * unat no mod 512" "76 * unat no div 512 + pos_secs pos \<le> 608"
      "76 * unat no mod 512 + 76 \<le> pos_secs pos * 512" "0 < pos_secs pos" "pos_secs pos \<le> 2"
      "76 * unat no mod 512 + 76 \<le> 512 \<Longrightarrow> pos_secs pos = 1"
    using inode_locate_pos [OF no, of q s] by metis
  have r: "ide_ready ?hdd s" and t: "unat ?t + 608 \<le> unat max_lba + 1"
      "unat ?t + 608 \<le> unat (start_lba (parts s q) + sec_cnt (parts s q))"
    using ok by (auto simp: table_ok_def)
  have u: "unat (sec_lba pos) = unat ?t + 76 * unat no div 512"
    using pos(2,4,6) t(1) lba_range(2) [of ?t 608 "76 * unat no div 512"] by simp
  have in_part: "sec_lba pos \<le> start_lba (parts s q) + sec_cnt (parts s q)"
    using u pos(4) t(2) by (simp add: word_le_nat_alt)
  have io2: "pos_secs pos * 512 \<le> length io_buf"
    using io pos(7,8) un by auto
  have range: "unat (sec_lba pos) + pos_secs pos \<le> unat max_lba + 1"
    using u pos(4) t(1) by simp
  obtain s1 where s1: "ide_read_buf ?hdd (sec_lba pos) io_buf (pos_secs pos) s =
      Some (sectors (drive ?hdd s) (sec_lba pos) (pos_secs pos) @ drop (pos_secs pos * 512) io_buf, s1)" "ide_eff s s1"
    using ide_read_buf_ok [OF r pos(6) range io2] by blast
  have lb: "length (inode_bytes i) = 76"
    using i by (simp add: inode_bytes_def inode_words_length)
  have ls: "length (sectors (drive ?hdd s) (sec_lba pos) (pos_secs pos)) = pos_secs pos * 512"
    using r by (simp add: ide_ready_def sectors_length)
  let ?b = "sectors (drive ?hdd s) (sec_lba pos) (pos_secs pos) @ drop (pos_secs pos * 512) io_buf"
  let ?bf = "take (unat (off_size pos)) ?b @ inode_bytes i @ drop (unat (off_size pos) + length (inode_bytes i)) ?b"
  have m: "memcpy ?b (unat (off_size pos)) (inode_bytes i) 0 sizeof_inode = Some ?bf"
    using pos(3,5) lb ls by (simp add: memcpy_eq sizeof_inode_def)
  obtain s2 where s2: "ide_write ?hdd (sec_lba pos) ?bf (pos_secs pos) s1 = Some s2" "ide_ready ?hdd s2"
      "ide_eff (set_drive ?hdd (drive ?hdd s2) s) s2"
      "sectors (drive ?hdd s2) ?t 608 = overwrite (sectors (drive ?hdd s) ?t 608) (76 * unat no div 512 * 512 + unat (off_size pos)) (inode_bytes i)"
      "\<And>x. 608 \<le> unat (x - ?t) \<Longrightarrow> drive ?hdd s2 x = drive ?hdd s x"
    using rewrite_sectors [OF r pos(6,4) t(1) io2 _ _ s1(2), of "unat (off_size pos)" "inode_bytes i" ?bf] pos(2,3,5) lb by auto
  have "76 * unat no div 512 * 512 + unat (off_size pos) = 76 * (unat (i_no i) mod 256)"
    unfolding pos(3) un by (rule div_mult_mod_eq)
  moreover have p: "parts s2 = parts s"
    using ide_eff_fields(1) [OF s2(3)] by simp
  ultimately show thesis
    using s1(1) m s2 in_part pos(1) ok
    by (intro that [of s2]) (simp_all add: inode_sync_def inode_bytes_def no_def Let_def table_ok_def inode_table_def part_disk_def)
qed

lemma stored_overwrite:
  assumes "table_ok q s" and "table_ok q s'" and "inode_table q s' = overwrite (inode_table q s) (76 * k) (inode_bytes i)"
    and "length (i_sectors i) = 13" and "k < 4096" and "n < 4096"
  shows "stored_inode q s' n = (if unat n = k then Some (i\<lparr>i_open_cnts := 0, write_deny := 0\<rparr>) else stored_inode q s n)"
proof -
  have lb: "length (inode_bytes i) = 76"
    using assms(4) by (simp add: inode_bytes_def inode_words_length)
  have room: "76 * k + 76 \<le> length (inode_table q s)"
    using assms(1,5) by (simp add: inode_table_length)
  show ?thesis
  proof (cases "unat n = k")
    case True
    then show ?thesis
      using load_inode_table [OF assms(2,6)] inode_at_overwrite [OF assms(4) room] assms(3) by simp
  next
    case False
    then have "76 * unat n + 76 \<le> 76 * k \<or> 76 * k + length (inode_bytes i) \<le> 76 * unat n"
      using lb by linarith
    then show ?thesis
      using load_inode_table [OF assms(2,6)] load_inode_table [OF assms(1,6)] inode_at_overwrite_other [of "76 * k" "inode_bytes i"]
        room lb assms(3) False by simp
  qed
qed

section \<open>Properties\<close>

text \<open>
  A mounted partition of 5000 sectors from sector 63 on, with the layout that formatting gives it, and a
  root directory whose inode is at 0x9000.
\<close>

definition sample_part :: partition where
  "sample_part = \<lparr>start_lba = 63, sec_cnt = 5000, my_disk = sample_disk, part_name = replicate 8 0,
     sb = \<lparr>sb_magic = 0x19590318, sb_sec_cnt = 5000, inode_cnt = 4096, part_lba_base = 63, block_bitmap_lba = 65, block_bitmap_sects = 2,
       inode_bitmap_lba = 67, inode_bitmap_sects = 1, inode_table_lba = 68, inode_table_sects = 608, data_start_lba = 676,
       root_inode_no = 0, dir_entry_size = 24\<rparr>,
     block_bitmap = \<lparr>btmp_bytes_len = 1024, bits = 1 # replicate 1023 0\<rparr>, inode_bitmap = \<lparr>btmp_bytes_len = 512, bits = 1 # replicate 511 0\<rparr>,
     open_inodes = 0xa000\<rparr>"

definition sample_inode :: inode where
  "sample_inode = \<lparr>i_no = 0, i_size = 48, i_open_cnts = 1, write_deny = 0, i_sectors = 676 # replicate 12 0\<rparr>"

definition sample_fstate :: fstate where
  "sample_fstate = dstate.extend (sample_dstate\<lparr>parts := (\<lambda>_. sample_part)\<rparr>)
     \<lparr>cur_part = Prim 0 1 0, devices = (\<lambda>_ _. sample_disk), channel_cnt = 1, inodes = (\<lambda>_. sample_inode),
      dirs = (\<lambda>_. \<lparr>dir_inode = 0x9000, dir_pos = 0, dir_buf = replicate 512 0\<rparr>), root_dir = 0x7000,
      file_table = replicate 32 \<lparr>fd_pos = 0, fd_flag = 0, fd_inode = 0\<rparr>, screen = [], console_lock = 0x700, junk_name = replicate 16 1,
      junk_entry = replicate 24 0, junk_lba = 0, junk_pad = replicate 460 0\<rparr>"

lemma sample_ready: "ide_ready sample_disk sample_fstate"
  using sample_ide_ready
  by (simp add: sample_fstate_def dstate.defs ide_ready_def chan_idle_def lock_free_def drive_def Let_def)

lemma sample_fields [simp]:
  "parts sample_fstate = (\<lambda>_. sample_part)" "cur_part sample_fstate = Prim 0 1 0" "part_disk q sample_fstate = sample_disk"
  "inodes sample_fstate = (\<lambda>_. sample_inode)" "root_dir sample_fstate = 0x7000" "drive sample_disk sample_fstate = (\<lambda>_. replicate 512 0)"
  "dirs sample_fstate = (\<lambda>_. \<lparr>dir_inode = 0x9000, dir_pos = 0, dir_buf = replicate 512 0\<rparr>)"
  "file_table sample_fstate = replicate 32 \<lparr>fd_pos = 0, fd_flag = 0, fd_inode = 0\<rparr>"
  by (simp_all add: sample_fstate_def dstate.defs part_disk_def sample_part_def drive_def sample_dstate_def mstate.defs)

lemma sample_table_ok: "table_ok q sample_fstate"
  using sample_ready by (simp add: table_ok_def max_lba_num) (simp add: sample_part_def)

text \<open>
  C13. What \<^verbatim>\<open>inode_sync\<close> writes is what \<^verbatim>\<open>inode_open\<close> reads. For an inode with a number below 256 of a partition
  whose inode table lies on the drive, \<^verbatim>\<open>inode_sync\<close> returns; from then on the inode read from the disk under
  that number is the one written, except that its open count and its write lock are cleared, every
  other one of the 4096 inodes is read as before, also when an inode shares its sectors, and no sector
  outside the table has changed.
\<close>

theorem inode_sync_stored:
  assumes "table_ok q s" and "length (i_sectors i) = 13" and "1024 \<le> length io_buf" and "i_no i < 256"
  shows "\<exists>s'. inode_sync q i io_buf s = Some s' \<and> table_ok q s' \<and>
    stored_inode q s' (i_no i) = Some (i\<lparr>i_open_cnts := 0, write_deny := 0\<rparr>) \<and>
    (\<forall>n<4096. n \<noteq> i_no i \<longrightarrow> stored_inode q s' n = stored_inode q s n) \<and>
    (\<forall>x. 608 \<le> unat (x - inode_table_lba (sb (parts s q))) \<longrightarrow> drive (part_disk q s) s' x = drive (part_disk q s) s x)"
proof -
  obtain s' where s': "inode_sync q i io_buf s = Some s'" "table_ok q s'"
      "inode_table q s' = overwrite (inode_table q s) (76 * (unat (i_no i) mod 256)) (inode_bytes i)"
      "\<And>x. 608 \<le> unat (x - inode_table_lba (sb (parts s q))) \<Longrightarrow> drive (part_disk q s) s' x = drive (part_disk q s) s x"
    using inode_sync_slot [OF assms(1,2) disjI1 [OF assms(3)]] by metis
  have k: "unat (i_no i) mod 256 = unat (i_no i)" and k': "unat (i_no i) < 256"
    using assms(4) by (simp_all add: word_less_nat_alt)
  have "stored_inode q s' n = (if n = i_no i then Some (i\<lparr>i_open_cnts := 0, write_deny := 0\<rparr>) else stored_inode q s n)"
    if "n < 4096" for n
    using stored_overwrite [OF assms(1) s'(2) s'(3) assms(2) _ that] k k' by (simp add: word_unat_eq_iff)
  moreover have "i_no i < 4096"
    using k' by (simp add: word_less_nat_alt)
  ultimately show ?thesis
    using s' by auto
qed

theorem inode_sync_stored_witness:
  "\<exists>s'. inode_sync (Prim 0 1 0) (inode_init 6) (replicate 1024 0) sample_fstate = Some s' \<and> table_ok (Prim 0 1 0) s' \<and>
    stored_inode (Prim 0 1 0) s' 6 = Some (inode_init 6) \<and>
    (\<forall>n<4096. n \<noteq> 6 \<longrightarrow> stored_inode (Prim 0 1 0) s' n = stored_inode (Prim 0 1 0) sample_fstate n) \<and>
    (\<forall>x. 608 \<le> unat (x - 68) \<longrightarrow> drive sample_disk s' x = drive sample_disk sample_fstate x)"
  using inode_sync_stored [of "Prim 0 1 0" sample_fstate "inode_init 6" "replicate 1024 0"] sample_table_ok
  by (simp add: inode_init_def sample_part_def)

text \<open>
  C40. The inode number is cut to eight bits: \<^verbatim>\<open>inode_sync\<close> of an inode with a number from 256 on overwrites the
  inode that has the low eight bits as its number, and the slot of the inode itself is left as it was.
\<close>

theorem inode_sync_wrong_slot:
  assumes "table_ok q s" and "length (i_sectors i) = 13" and "1024 \<le> length io_buf" and "256 \<le> i_no i" and "i_no i < 4096"
  shows "\<exists>s'. inode_sync q i io_buf s = Some s' \<and>
    stored_inode q s' (i_no i mod 256) = Some (i\<lparr>i_open_cnts := 0, write_deny := 0\<rparr>) \<and>
    stored_inode q s' (i_no i) = stored_inode q s (i_no i)"
proof -
  obtain s' where s': "inode_sync q i io_buf s = Some s'" "table_ok q s'"
      "inode_table q s' = overwrite (inode_table q s) (76 * (unat (i_no i) mod 256)) (inode_bytes i)"
    using inode_sync_slot [OF assms(1,2) disjI1 [OF assms(3)]] by metis
  have u: "unat (i_no i mod 256) = unat (i_no i) mod 256" and "256 \<le> unat (i_no i)"
    using assms(4) by (simp_all add: unat_mod word_le_nat_alt)
  then have ne: "unat (i_no i) \<noteq> unat (i_no i) mod 256" and m: "i_no i mod 256 < 4096"
    using mod_less_divisor [of 256 "unat (i_no i)"] by (linarith, simp only: word_less_nat_alt u unat_numeral, simp)
  have "unat (i_no i) mod 256 < 4096"
    using mod_less_divisor [of 256 "unat (i_no i)"] by linarith
  then show ?thesis
    using s'(1) stored_overwrite [OF assms(1) s'(2) s'(3) assms(2) _ assms(5)] stored_overwrite [OF assms(1) s'(2) s'(3) assms(2) _ m] ne u
    by auto
qed

theorem inode_sync_wrong_slot_witness:
  "\<exists>s'. inode_sync (Prim 0 1 0) (inode_init 256) (replicate 1024 0) sample_fstate = Some s' \<and>
    stored_inode (Prim 0 1 0) s' 0 = Some (inode_init 256) \<and>
    stored_inode (Prim 0 1 0) s' 256 = stored_inode (Prim 0 1 0) sample_fstate 256"
  using inode_sync_wrong_slot [of "Prim 0 1 0" sample_fstate "inode_init 256" "replicate 1024 0"] sample_table_ok
  by (simp add: inode_init_def)

end
