(* ===== verification/Fs_Format.thy ===== *)
theory Fs_Format
  imports Fs Inode_Disk
begin

text \<open>
  The layout that \<open>partition_format\<close> gives a partition and the block bitmap it writes.
\<close>

section \<open>Rounding up\<close>

lemma unat_DIV_ROUND_UP:
  assumes "unat x + 4095 < 2 ^ 32"
  shows "unat (DIV_ROUND_UP x BITS_PER_SECTOR) = (unat x + 4095) div 4096"
proof -
  have "unat (x + 4096 - 1) = unat x + 4095"
    using assms by (simp add: unat_word_ariths flip: add_diff_eq)
  then show ?thesis
    by (simp add: DIV_ROUND_UP_def BITS_PER_SECTOR_def unat_div)
qed

lemma inode_sects:
  "DIV_ROUND_UP MAX_FILES_PER_PART BITS_PER_SECTOR = 1"
  "DIV_ROUND_UP (of_nat sizeof_inode * MAX_FILES_PER_PART) SECTOR_SIZE = 608"
  by (simp_all add: DIV_ROUND_UP_def MAX_FILES_PER_PART_def BITS_PER_SECTOR_def SECTOR_SIZE_def sizeof_inode_def)

text \<open>
  A partition that lies on the drive and has room for the tables and two blocks.
\<close>

definition part_fits :: "partition \<Rightarrow> bool" where
  "part_fits p \<longleftrightarrow> 613 \<le> unat (sec_cnt p) \<and> unat (start_lba p) + unat (sec_cnt p) \<le> unat max_lba + 1"

lemma bit_len_eq:
  assumes "part_fits p"
  shows "unat (block_bitmap_bit_len p) = unat (sec_cnt p) - 611 - (unat (sec_cnt p) - 611 + 4095) div 4096"
proof -
  have c: "613 \<le> unat (sec_cnt p)" "unat (sec_cnt p) \<le> 163840"
    using assms by (auto simp: part_fits_def max_lba_num)
  then have f: "unat (sec_cnt p - 611) = unat (sec_cnt p) - 611"
    by (simp add: unat_sub_if' word_size)
  have r: "unat (DIV_ROUND_UP (sec_cnt p - 611) BITS_PER_SECTOR) = (unat (sec_cnt p) - 611 + 4095) div 4096"
    using c f by (subst unat_DIV_ROUND_UP) simp_all
  have "(unat (sec_cnt p) - 611 + 4095) div 4096 \<le> unat (sec_cnt p) - 611"
    using c by linarith
  then have "DIV_ROUND_UP (sec_cnt p - 611) BITS_PER_SECTOR \<le> sec_cnt p - 611"
    using f r by (simp add: word_le_nat_alt)
  then show ?thesis
    using f r by (simp add: block_bitmap_bit_len_def inode_sects Let_def unat_sub)
qed

lemma bitmap_sects_eq:
  assumes "part_fits p"
  shows "unat (block_bitmap_sects (format_sb p)) = (unat (block_bitmap_bit_len p) + 4095) div 4096"
proof -
  have "unat (block_bitmap_bit_len p) + 4095 < 2 ^ 32"
    using assms by (simp only: bit_len_eq) (simp add: part_fits_def max_lba_num, linarith)
  then show ?thesis
    by (simp add: format_sb_def Let_def unat_DIV_ROUND_UP)
qed

lemma format_layout_parts:
  assumes "part_fits p"
  shows "unat (block_bitmap_lba (format_sb p)) = unat (start_lba p) + 2"
    and "unat (inode_bitmap_lba (format_sb p)) =
      unat (block_bitmap_lba (format_sb p)) + unat (block_bitmap_sects (format_sb p))"
    and "unat (inode_table_lba (format_sb p)) = unat (inode_bitmap_lba (format_sb p)) + 1"
    and "unat (data_start_lba (format_sb p)) = unat (inode_table_lba (format_sb p)) + 608"
    and "0 < unat (block_bitmap_bit_len p)"
    and "unat (block_bitmap_bit_len p) \<le> unat (block_bitmap_sects (format_sb p)) * 4096"
    and "unat (data_start_lba (format_sb p)) + unat (block_bitmap_bit_len p) \<le> unat (start_lba p) + unat (sec_cnt p)"
proof -
  let ?c = "unat (sec_cnt p)" and ?b = "unat (start_lba p)" and ?n = "unat (block_bitmap_bit_len p)"
  let ?m = "unat (block_bitmap_sects (format_sb p))"
  have c: "613 \<le> ?c" "?b + ?c \<le> 163840"
    using assms by (auto simp: part_fits_def max_lba_num)
  have n: "?n = ?c - 611 - (?c - 611 + 4095) div 4096" and m: "?m = (?n + 4095) div 4096"
    using assms by (rule bit_len_eq, rule bitmap_sects_eq)
  then show pos: "0 < ?n" and "?n \<le> ?m * 4096"
    using c by linarith+
  have mono: "?m \<le> (?c - 611 + 4095) div 4096"
    unfolding m using n by (intro div_le_mono) simp
  have small: "?b + 2 + ?m + 1 + 608 \<le> 163840 + 611"
    using c mono n pos by linarith
  show bb: "unat (block_bitmap_lba (format_sb p)) = ?b + 2"
    using c by (simp add: format_sb_def Let_def unat_word_ariths)
  have ib: "unat (block_bitmap_lba (format_sb p) + block_bitmap_sects (format_sb p)) = ?b + 2 + ?m"
    using small by (simp add: unat_word_ariths bb)
  have it: "unat (block_bitmap_lba (format_sb p) + block_bitmap_sects (format_sb p) + 1) = ?b + 2 + ?m + 1"
    using small by (simp add: unat_word_ariths(1) [of "block_bitmap_lba (format_sb p) + block_bitmap_sects (format_sb p)"] ib)
  have ds: "unat (block_bitmap_lba (format_sb p) + block_bitmap_sects (format_sb p) + 1 + 608) = ?b + 2 + ?m + 1 + 608"
    using small by (simp only: unat_word_ariths(1) [of "block_bitmap_lba (format_sb p) + block_bitmap_sects (format_sb p) + 1"] it) simp
  have eqs: "inode_bitmap_lba (format_sb p) = block_bitmap_lba (format_sb p) + block_bitmap_sects (format_sb p)"
      "inode_table_lba (format_sb p) = block_bitmap_lba (format_sb p) + block_bitmap_sects (format_sb p) + 1"
      "data_start_lba (format_sb p) = block_bitmap_lba (format_sb p) + block_bitmap_sects (format_sb p) + 1 + 608"
    by (simp_all add: format_sb_def Let_def inode_sects)
  show "unat (inode_bitmap_lba (format_sb p)) = unat (block_bitmap_lba (format_sb p)) + ?m"
    by (simp only: eqs ib bb)
  show "unat (inode_table_lba (format_sb p)) = unat (inode_bitmap_lba (format_sb p)) + 1"
    by (simp only: eqs ib it)
  show "unat (data_start_lba (format_sb p)) = unat (inode_table_lba (format_sb p)) + 608"
    by (simp only: eqs it ds)
  show "unat (data_start_lba (format_sb p)) + ?n \<le> ?b + ?c"
    unfolding eqs ds using n mono c by linarith
qed

section \<open>The block bitmap\<close>

lemma clear_bits_ok:
  assumes "L < length bf"
  obtains bf' where "clear_bits n k L bf = Some bf'" and "length bf' = length bf" and "\<And>j. j \<noteq> L \<Longrightarrow> bf' ! j = bf ! j"
    and "\<And>j. bit (bf' ! L) j = (bit (bf ! L) j \<and> \<not> (k \<le> j \<and> j < k + n))"
  using assms
proof (induction n arbitrary: k bf thesis)
  case 0
  then show ?case
    by simp
next
  case (Suc n)
  let ?b = "bf[L := bf ! L AND NOT (push_bit k 1)]"
  obtain bf' where bf': "clear_bits n (Suc k) L ?b = Some bf'" "length bf' = length ?b" "\<And>j. j \<noteq> L \<Longrightarrow> bf' ! j = ?b ! j"
      "\<And>j. bit (bf' ! L) j = (bit (?b ! L) j \<and> \<not> (Suc k \<le> j \<and> j < Suc k + n))"
    using Suc.IH [of "Suc k" ?b] Suc.prems(2) by auto
  show ?case
  proof (rule Suc.prems(1))
    show "clear_bits (Suc n) k L bf = Some bf'"
      using Suc.prems(2) bf'(1) by simp
    show "bit (bf' ! L) j = (bit (bf ! L) j \<and> \<not> (k \<le> j \<and> j < k + Suc n))" for j
      using Suc.prems(2) by (auto simp: bf'(4) bit_and_not_push_bit simp del: push_bit_of_1)
  qed (use bf' in auto)
qed

lemma bit_ones: "bit (0xff :: u8) j = (j < 8)"
  using byte_full_iff [of "0xff"] by (auto dest: bit_imp_le_length)

text \<open>
  For \<open>n\<close> blocks: bit 0, and the bits after bit \<open>n\<close> in its sector.
\<close>

lemma format_block_bitmap_bits:
  assumes n: "8 \<le> unat n" and sz: "(unat n div 4096 + 1) * 512 \<le> sz"
  obtains bs where "format_block_bitmap n sz = Some bs" and "length bs = sz"
    and "\<And>i. i < 8 * sz \<Longrightarrow> bit (bs ! (i div 8)) (i mod 8) = (i = 0 \<or> unat n < i \<and> i div 4096 = unat n div 4096)"
proof -
  define L where "L = unat n div 8"
  define k where "k = unat n mod 8"
  have L: "unat (n div 8) = L" and k: "unat (n mod 8) = k"
    by (simp_all add: L_def k_def unat_div unat_mod)
  have nLk: "unat n = 8 * L + k" and k8: "k < 8" and L0: "0 < L"
    using n by (simp_all add: L_def k_def)
  have dv: "unat n div 4096 = L div 512"
    by (simp add: L_def div_mult2_eq [symmetric])
  have ls: "unat (SECTOR_SIZE - n div 8 mod SECTOR_SIZE) = 512 - L mod 512"
  proof -
    have "unat (n div 8 mod 512) = L mod 512"
      by (simp add: unat_mod L)
    then show ?thesis
      by (simp add: SECTOR_SIZE_def unat_sub_if' word_size less_imp_le)
  qed
  obtain h r where hr: "L div 512 = h" "L mod 512 = r"
    by blast
  then have "L = h * 512 + r" and "r < 512"
    using div_mult_mod_eq [of L 512] mod_less_divisor [of 512 L] by simp_all
  then have Lsz: "L + (512 - L mod 512) = (L div 512 + 1) * 512"
    unfolding hr by simp
  let ?b1 = "(replicate sz 0)[0 := 1 :: u8]"
  let ?b2 = "take L ?b1 @ replicate (512 - L mod 512) 0xff @ drop (L + (512 - L mod 512)) ?b1"
  have len2: "length ?b2 = sz" and Llt: "L < length ?b2"
    using Lsz sz dv by auto
  obtain bs where bs: "clear_bits (k + 1) 0 L ?b2 = Some bs" "length bs = length ?b2" "\<And>j. j \<noteq> L \<Longrightarrow> bs ! j = ?b2 ! j"
      "\<And>j. bit (bs ! L) j = (bit (?b2 ! L) j \<and> \<not> (0 \<le> j \<and> j < 0 + (k + 1)))"
    using clear_bits_ok [OF Llt] by metis
  show thesis
  proof (rule that)
    show "format_block_bitmap n sz = Some bs"
      using bs(1) sz Lsz dv by (simp add: format_block_bitmap_def memset_eq L k ls Let_def)
    show "length bs = sz"
      using bs(2) len2 by simp
    fix i
    assume i8: "i < 8 * sz"
    define j where "j = i div 8"
    define m where "m = i mod 8"
    have j: "j < sz" and im: "i = 8 * j + m" and m8: "m < 8" and ij: "i div 4096 = j div 512"
      using i8 by (simp_all add: j_def m_def div_mult2_eq [symmetric])
    have b2: "?b2 ! j = (if L \<le> j \<and> j < (L div 512 + 1) * 512 then 0xff else ?b1 ! j)"
    proof -
      have "replicate (512 - L mod 512) (0xff :: u8) ! (j - L) = 0xff" if "L \<le> j" "j < L + (512 - L mod 512)"
        using that by (intro nth_replicate) linarith
      moreover have "L + (512 - L mod 512) \<le> sz"
        using Lsz sz dv by simp
      ultimately show ?thesis
        using overwrite_nth [of L "replicate (512 - L mod 512) 0xff" ?b1 j] j
        by (simp only: overwrite_def length_replicate length_list_update Lsz) auto
    qed
    have b1: "bit (?b1 ! j) m = (j = 0 \<and> m = 0)"
      using j by (auto simp: nth_list_update bit_1_iff)
    have "(j div 512 < L div 512 + 1) = (j < (L div 512 + 1) * 512)"
      by (rule div_less_iff_less_mult) simp
    then have near: "(j div 512 = L div 512) = (j < (L div 512 + 1) * 512)" if "L \<le> j"
      using div_le_mono [OF that, of 512] by auto
    have ones: "bit (0xff :: u8) m"
      using m8 by (simp only: bit_ones)
    show "bit (bs ! (i div 8)) (i mod 8) = (i = 0 \<or> unat n < i \<and> i div 4096 = unat n div 4096)"
    proof (cases "j = L")
      case True
      then show ?thesis
        using True ones bs(4) [of m] b2 near nLk im m8 ij dv L0 Lsz by (auto simp flip: j_def m_def)
    next
      case False
      then have "bs ! j = ?b2 ! j"
        by (rule bs(3))
      then show ?thesis
        using False ones b1 b2 near nLk im m8 k8 ij dv L0 by (cases "L \<le> j") (auto simp flip: j_def m_def)
    qed
  qed
qed

section \<open>Properties\<close>

text \<open>
  C31. Formatting lays out a partition soundly. For every partition on the drive with at least 613 sectors the
  super block, the block bitmap, the inode bitmap, the inode table of 608 sectors and the data area follow
  each other without overlap; the block bitmap has a bit for every block of the data area, the
  data area has at least one block, and its last block is still inside the partition.
\<close>

theorem format_layout:
  assumes "part_fits p"
  shows "unat (block_bitmap_lba (format_sb p)) = unat (start_lba p) + 2 \<and>
    unat (inode_bitmap_lba (format_sb p)) = unat (block_bitmap_lba (format_sb p)) + unat (block_bitmap_sects (format_sb p)) \<and>
    unat (inode_table_lba (format_sb p)) = unat (inode_bitmap_lba (format_sb p)) + 1 \<and>
    unat (data_start_lba (format_sb p)) = unat (inode_table_lba (format_sb p)) + 608 \<and>
    0 < unat (block_bitmap_bit_len p) \<and>
    unat (block_bitmap_bit_len p) \<le> unat (block_bitmap_sects (format_sb p)) * 4096 \<and>
    unat (data_start_lba (format_sb p)) + unat (block_bitmap_bit_len p) \<le> unat (start_lba p) + unat (sec_cnt p)"
  using format_layout_parts [OF assms] by blast

theorem format_layout_witness:
  "data_start_lba (format_sb sample_part) = 676 \<and> block_bitmap_bit_len sample_part = 4387 \<and>
   unat (data_start_lba (format_sb sample_part)) + unat (block_bitmap_bit_len sample_part) \<le> 63 + 5000"
proof -
  have "part_fits sample_part"
    by (simp add: part_fits_def sample_part_def max_lba_num)
  then have "unat (data_start_lba (format_sb sample_part)) + unat (block_bitmap_bit_len sample_part) \<le>
      unat (start_lba sample_part) + unat (sec_cnt sample_part)"
    using format_layout by blast
  then show ?thesis
    by (simp add: sample_part_def format_sb_def block_bitmap_bit_len_def Let_def DIV_ROUND_UP_def
        BITS_PER_SECTOR_def MAX_FILES_PER_PART_def SECTOR_SIZE_def sizeof_inode_def)
qed

text \<open>
  The block bitmap that formatting writes. For \<open>n\<close> blocks the buffer has bit 0 set for the root directory
  and the bits after bit \<open>n\<close>, up to the end of that sector, set as out of range. Bit \<open>n\<close> itself is clear,
  because the loop that clears the valid bits of the last byte runs once too often, although only the blocks
  0 to \<open>n - 1\<close> exist: the block after the last one can be allocated.
\<close>

theorem format_bitmap_one_too_many:
  assumes "8 \<le> unat n" and "(unat n div 4096 + 1) * 512 \<le> sz"
  shows "\<exists>bs. format_block_bitmap n sz = Some bs \<and> length bs = sz \<and>
    (\<forall>i<4096 * (unat n div 4096 + 1). bm_bit \<lparr>btmp_bytes_len = sz, bits = bs\<rparr> i \<longleftrightarrow> i = 0 \<or> unat n < i)"
proof -
  obtain bs where bs: "format_block_bitmap n sz = Some bs" "length bs = sz"
      "\<And>i. i < 8 * sz \<Longrightarrow> bit (bs ! (i div 8)) (i mod 8) = (i = 0 \<or> unat n < i \<and> i div 4096 = unat n div 4096)"
    using format_block_bitmap_bits [OF assms] by metis
  have "i < 8 * sz" and "unat n < i \<Longrightarrow> i div 4096 = unat n div 4096" if "i < 4096 * (unat n div 4096 + 1)" for i
  proof -
    show "i < 8 * sz"
      using that assms(2) by simp
    assume "unat n < i"
    then have "unat n div 4096 \<le> i div 4096"
      by (intro div_le_mono) simp
    moreover have "i div 4096 < unat n div 4096 + 1"
      using that by (simp add: div_less_iff_less_mult mult.commute)
    ultimately show "i div 4096 = unat n div 4096"
      by simp
  qed
  then show ?thesis
    using bs by (auto simp: bm_bit_def)
qed

theorem format_bitmap_one_too_many_witness:
  "\<exists>bs. format_block_bitmap 4387 311296 = Some bs \<and> \<not> bm_bit \<lparr>btmp_bytes_len = 311296, bits = bs\<rparr> 4387 \<and>
     bm_bit \<lparr>btmp_bytes_len = 311296, bits = bs\<rparr> 4388"
  using format_bitmap_one_too_many [of 4387 311296] by auto

end
