(* ===== verification/File_Data.thy ===== *)
theory File_Data
  imports Fs_Format
begin

text \<open>
  The contents of a file as one list of bytes: the sectors of its 140 blocks one after the other, where the
  blocks are the twelve of the inode and those of the table it names. Reading and appending, which the code
  does block by block, are operations on that list.
\<close>

section \<open>Contents\<close>

definition block_list :: "(u32 \<Rightarrow> u8 list) \<Rightarrow> inode \<Rightarrow> u32 list" where
  "block_list d i = take 12 (i_sectors i) @
     (if i_sectors i ! 12 = 0 then replicate 128 0 else the (le32s (d (i_sectors i ! 12)) 0 128))"

definition content :: "(u32 \<Rightarrow> u8 list) \<Rightarrow> inode \<Rightarrow> u8 list" where
  "content d i = concat (map d (block_list d i))"

lemma le32s_ex: "i + 4 * n \<le> length bs \<Longrightarrow> \<exists>ws. le32s bs i n = Some ws \<and> length ws = n"
proof (induction n arbitrary: i)
  case (Suc n)
  have "i + 4 + 4 * n \<le> length bs"
    using Suc.prems by simp
  then obtain ws where "le32s bs (i + 4) n = Some ws" "length ws = n"
    using Suc.IH by blast
  moreover have "le32 bs i \<noteq> None"
    using Suc.prems by (simp add: le32_def)
  ultimately show ?case
    by auto
qed simp

lemma table_words:
  assumes "drive_ok d"
  obtains ws where "le32s (d t) 0 128 = Some ws" and "length ws = 128"
proof -
  have "0 + 4 * 128 \<le> length (d t)"
    using assms by (simp add: drive_ok_def)
  then show thesis
    using le32s_ex that by blast
qed

lemma block_list_length: "drive_ok d \<Longrightarrow> length (i_sectors i) = 13 \<Longrightarrow> length (block_list d i) = 140"
proof -
  assume "drive_ok d" and i: "length (i_sectors i) = 13"
  then obtain ws where "le32s (d (i_sectors i ! 12)) 0 128 = Some ws" "length ws = 128"
    using table_words by blast
  then show "length (block_list d i) = 140"
    using i by (simp add: block_list_def)
qed

lemma concat_block:
  assumes "drive_ok d" and "k < length bs" and "r + n \<le> 512"
  shows "take n (drop (512 * k + r) (concat (map d bs))) = take n (drop r (d (bs ! k)))"
  using assms(2)
proof (induction bs arbitrary: k)
  case (Cons b bs)
  have b: "length (d x) = 512" for x
    using assms(1) by (simp add: drive_ok_def)
  show ?case
  proof (cases k)
    case 0
    then show ?thesis
      using assms(3) b by simp
  next
    case (Suc j)
    then show ?thesis
      using Cons b by simp
  qed
qed simp

section \<open>Reading\<close>

text \<open>The state with the position of file \<open>f\<close> moved by \<open>n\<close>.\<close>

definition moved :: "nat \<Rightarrow> u32 \<Rightarrow> 'a fstate_scheme \<Rightarrow> 'a fstate_scheme" where
  "moved f n s = s\<lparr>file_table := (file_table s)[f := (file_table s ! f)\<lparr>fd_pos := fd_pos (file_table s ! f) + n\<rparr>]\<rparr>"

lemma upd_file_ok: "f < length (file_table s) \<Longrightarrow> upd_file f g s = Some (s\<lparr>file_table := (file_table s)[f := g (file_table s ! f)]\<rparr>)"
  by (simp add: upd_file_def)

lemma moved_moved: "f < length (file_table s) \<Longrightarrow> moved f m (moved f n s) = moved f (n + m) s"
  by (simp add: moved_def add.assoc)

lemma moved_0: "moved f 0 s = s"
  by (simp add: moved_def)

lemma moved_fields [simp]:
  "parts (moved f n s) = parts s" "cur_part (moved f n s) = cur_part s" "part_disk q (moved f n s) = part_disk q s"
  "drive h (moved f n s) = drive h s" "length (file_table (moved f n s)) = length (file_table s)" "inodes (moved f n s) = inodes s"
  by (simp_all add: moved_def part_disk_def drive_def)

lemma moved_pos [simp]: "f < length (file_table s) \<Longrightarrow> fd_pos (file_table (moved f n s) ! f) = fd_pos (file_table s ! f) + n"
  by (simp add: moved_def)

lemma moved_ready [simp]: "ide_ready h (moved f n s) = ide_ready h s"
  by (simp add: moved_def ide_ready_def chan_idle_def lock_free_def drive_def Let_def)

lemma moved_eff: "ide_eff s s' \<Longrightarrow> ide_eff (moved f n s) (moved f n s')"
proof -
  assume "ide_eff s s'"
  then obtain r m where "s' = s\<lparr>regs := r, status_reads := m\<rparr>"
    by (auto simp: ide_eff_def)
  then have "moved f n s' = (moved f n s)\<lparr>regs := r, status_reads := m\<rparr>"
    by (simp add: moved_def)
  then show "ide_eff (moved f n s) (moved f n s')"
    by (auto simp: ide_eff_def)
qed

lemma read_one:
  assumes "ide_ready hdd s" and "lba \<le> max_lba" and "512 \<le> length bf"
  obtains s' where "ide_read_buf hdd lba bf 1 s = Some (drive hdd s lba @ drop 512 bf, s')" and "ide_eff s s'"
proof -
  have "unat lba + 1 \<le> unat max_lba + 1"
    using assms(2) by (simp add: word_le_nat_alt)
  then show thesis
    using ide_read_buf_ok [OF assms(1), of 1 lba bf] assms(3) that by (auto simp: sectors_def)
qed

lemma read_loop_ok:
  assumes "ide_ready (part_disk (cur_part s) s) s" and "f < length (file_table s)"
    and "\<forall>b\<in>set all_blocks. b \<le> max_lba" and "unat (fd_pos (file_table s ! f)) + unat n \<le> 512 * length all_blocks"
    and "512 * length all_blocks < 2 ^ 32"
  shows "\<exists>s'. read_loop f all_blocks n s =
      Some (take (unat n) (drop (unat (fd_pos (file_table s ! f))) (concat (map (drive (part_disk (cur_part s) s) s) all_blocks))), s') \<and>
    ide_eff (moved f n s) s'"
  using assms
proof (induction "unat n" arbitrary: n s rule: less_induct)
  case (less n s)
  let ?hdd = "part_disk (cur_part s) s" and ?pos = "fd_pos (file_table s ! f)"
  let ?d = "drive ?hdd s"
  show ?case
  proof (cases "n = 0")
    case True
    then show ?thesis
      using ide_eff_refl by (subst read_loop.simps) (auto simp: moved_0)
  next
    case False
    then have pos: "0 < n"
      by (simp add: word_gt_0)
    define c where "c = chunk_size n ?pos"
    have uc: "unat c = min (unat n) (512 - unat ?pos mod 512)" and c_le: "c \<le> n" and c0: "0 < unat c"
      using chunk_size_bounds [OF pos, of ?pos] by (simp_all add: c_def word_less_nat_alt)
    have ud: "unat (?pos div BLOCK_SIZE) = unat ?pos div 512" and um: "unat (?pos mod BLOCK_SIZE) = unat ?pos mod 512"
      by (simp_all add: BLOCK_SIZE_def SECTOR_SIZE_def unat_div unat_mod)
    have k: "unat ?pos div 512 < length all_blocks"
      using less.prems(4) uc c0 by (simp add: div_less_iff_less_mult)
    have lba: "all_blocks ! (unat ?pos div 512) \<le> max_lba"
      using less.prems(3) k by simp
    have d: "drive_ok ?d" and dl: "length (?d x) = 512" for x
      using less.prems(1) by (auto simp: ide_ready_def drive_ok_def)
    obtain s1 where s1: "ide_read_buf ?hdd (all_blocks ! (unat ?pos div 512)) (replicate 512 0) 1 s =
        Some (?d (all_blocks ! (unat ?pos div 512)), s1)" "ide_eff s s1"
      using read_one [OF less.prems(1) lba, of "replicate 512 0"] by auto
    have ft: "file_table s1 = file_table s" and p1: "part_disk (cur_part s1) s1 = ?hdd" and d1: "drive ?hdd s1 = ?d"
      using ide_eff_fields [OF s1(2)] part_disk_eff [OF s1(2)] drive_eff [OF s1(2)] by simp_all
    have up: "upd_file f (\<lambda>x. x\<lparr>fd_pos := fd_pos x + c\<rparr>) s1 = Some (moved f c s1)"
      using less.prems(2) ft by (simp add: upd_file_ok moved_def)
    have fits: "unat ?pos mod 512 + unat c \<le> 512"
      using uc mod_less_divisor [of 512 "unat ?pos"] by linarith
    have upos: "unat (?pos + c) = unat ?pos + unat c" and un: "unat (n - c) = unat n - unat c"
      using less.prems(4,5) uc c_le by (simp_all add: unat_word_ariths unat_sub)
    let ?t = "moved f c s1"
    have t: "part_disk (cur_part ?t) ?t = ?hdd" "drive ?hdd ?t = ?d" "fd_pos (file_table ?t ! f) = ?pos + c"
      using p1 d1 less.prems(2) ft by simp_all
    have "unat (n - c) < unat n" and "ide_ready (part_disk (cur_part ?t) ?t) ?t" and "f < length (file_table ?t)"
        and "unat (fd_pos (file_table ?t ! f)) + unat (n - c) \<le> 512 * length all_blocks"
      using un c0 uc less.prems(1,2,4) ide_ready_eff [OF s1(2)] t ft upos by simp_all
    from less.hyps [OF this(1-3) less.prems(3) this(4) less.prems(5)]
    obtain s' where s': "read_loop f all_blocks (n - c) ?t =
        Some (take (unat (n - c)) (drop (unat (?pos + c)) (concat (map ?d all_blocks))), s')" "ide_eff (moved f (n - c) ?t) s'"
      unfolding t by blast
    have eff: "ide_eff (moved f n s) s'"
    proof -
      have "moved f (n - c) (moved f c s1) = moved f n s1"
        using less.prems(2) ft by (simp add: moved_moved)
      then show ?thesis
        using ide_eff_trans [OF moved_eff [OF s1(2)], of f n s'] s'(2) by simp
    qed
    have "take (unat c) (drop (unat ?pos) (concat (map ?d all_blocks))) =
        take (unat c) (drop (unat ?pos mod 512) (?d (all_blocks ! (unat ?pos div 512))))"
      using concat_block [OF d k fits] by (simp add: mult.commute)
    moreover have "take (unat n) (drop (unat ?pos) xs) =
        take (unat c) (drop (unat ?pos) xs) @ take (unat n - unat c) (drop (unat ?pos + unat c) xs)" for xs :: "u8 list"
      using uc take_add [of "unat c" "unat n - unat c" "drop (unat ?pos) xs"] by (simp add: add.commute)
    ultimately have "read_loop f all_blocks n s = Some (take (unat n) (drop (unat ?pos) (concat (map ?d all_blocks))), s')"
      using pos less.prems(2) s1(1) up s'(1) k fits c_def ud um upos un ft
      by (subst read_loop.simps) (simp add: Let_def)
    then show ?thesis
      using eff by blast
  qed
qed

lemma concat_length: "drive_ok d \<Longrightarrow> length (concat (map d bs)) = 512 * length bs"
  by (induction bs) (simp_all add: drive_ok_def)

lemma concat_nth:
  assumes "drive_ok d" and "p < 512 * length bs"
  shows "concat (map d bs) ! p = d (bs ! (p div 512)) ! (p mod 512)"
proof -
  have k: "p div 512 < length bs"
    using assms(2) by (simp add: div_less_iff_less_mult mult.commute)
  have "p mod 512 + 1 \<le> 512"
    using mod_less_divisor [of 512 p] by linarith
  then have "take 1 (drop (512 * (p div 512) + p mod 512) (concat (map d bs))) = take 1 (drop (p mod 512) (d (bs ! (p div 512))))"
    by (rule concat_block [OF assms(1) k])
  moreover have "p < length (concat (map d bs))" and "p mod 512 < length (d (bs ! (p div 512)))"
    using assms by (simp_all add: concat_length) (simp add: drive_ok_def)
  ultimately show ?thesis
    by (simp add: take_Suc_conv_app_nth hd_drop_conv_nth)
qed

lemma concat_agree:
  assumes "drive_ok d" and "length bs = length bs'" and "p + n \<le> 512 * length bs"
    and "\<And>k. p div 512 \<le> k \<Longrightarrow> k \<le> (p + n) div 512 \<Longrightarrow> bs ! k = bs' ! k"
  shows "take n (drop p (concat (map d bs))) = take n (drop p (concat (map d bs')))"
proof (rule nth_equalityI)
  show "length (take n (drop p (concat (map d bs)))) = length (take n (drop p (concat (map d bs'))))"
    using assms(1,2) by (simp add: concat_length)
  fix j
  assume "j < length (take n (drop p (concat (map d bs))))"
  then have j: "j < n" "p + j < 512 * length bs"
    using assms(1,3) by (simp_all add: concat_length)
  have "bs ! ((p + j) div 512) = bs' ! ((p + j) div 512)"
    using j(1) by (intro assms(4) div_le_mono) simp_all
  then show "take n (drop p (concat (map d bs))) ! j = take n (drop p (concat (map d bs'))) ! j"
    using j assms(1,2) concat_nth [OF assms(1), of "p + j"] by (simp add: concat_length)
qed

lemma copy_sectors_ok:
  assumes "length (i_sectors (inodes s a)) = 13" and "k + n \<le> 13" and "13 \<le> length bs"
  shows "\<exists>bs'. copy_sectors n a k bs s = Some bs' \<and> length bs' = length bs \<and>
    (\<forall>j. bs' ! j = (if k \<le> j \<and> j < k + n then i_sectors (inodes s a) ! j else bs ! j))"
  using assms(2,3)
proof (induction n arbitrary: k bs)
  case (Suc n)
  let ?b = "bs[k := i_sectors (inodes s a) ! k]"
  have "Suc k + n \<le> 13" and "13 \<le> length ?b"
    using Suc.prems by simp_all
  then obtain bs' where bs': "copy_sectors n a (Suc k) ?b s = Some bs'" "length bs' = length ?b"
      "\<forall>j. bs' ! j = (if Suc k \<le> j \<and> j < Suc k + n then i_sectors (inodes s a) ! j else ?b ! j)"
    using Suc.IH by blast
  have "copy_sectors (Suc n) a k bs s = Some bs'"
    using bs'(1) assms(1) Suc.prems by (simp add: copy_sector_def get_sector_def)
  moreover have "bs' ! j = (if k \<le> j \<and> j < k + Suc n then i_sectors (inodes s a) ! j else bs ! j)" for j
    using bs'(3) Suc.prems by (cases "j = k") auto
  ultimately show ?case
    using bs'(2) by auto
qed auto

lemma read_table_ok:
  assumes "ide_ready (part_disk (cur_part s) s) s" and "t \<le> max_lba"
  obtains s' where "read_table t bs s = Some (take 12 bs @ the (le32s (drive (part_disk (cur_part s) s) s t) 0 128), s')" and "ide_eff s s'"
proof -
  let ?hdd = "part_disk (cur_part s) s"
  have u: "unat t + 1 \<le> unat max_lba + 1"
    using assms(2) by (simp add: word_le_nat_alt)
  obtain s' where s': "ide_read ?hdd t 1 s = Some (sectors (drive ?hdd s) t 1, s')" "ide_eff s s'"
    using ide_read_ok [OF assms(1) _ u] by auto
  obtain ws where "le32s (drive ?hdd s t) 0 128 = Some ws"
    using table_words [of "drive ?hdd s" t] assms(1) by (auto simp: ide_ready_def)
  then show thesis
    using s' that by (simp add: read_table_def sectors_def)
qed

text \<open>The blocks that a file needs for its first \<open>en\<close> blocks lie on the drive.\<close>

definition blocks_on_drive :: "(u32 \<Rightarrow> u8 list) \<Rightarrow> inode \<Rightarrow> nat \<Rightarrow> bool" where
  "blocks_on_drive d i en \<longleftrightarrow> length (i_sectors i) = 13 \<and> (\<forall>b\<in>set (block_list d i). b \<le> max_lba) \<and>
     (12 \<le> en \<longrightarrow> i_sectors i ! 12 \<noteq> 0 \<and> i_sectors i ! 12 \<le> max_lba)"

lemma blocks_for_read_ok:
  assumes r: "ide_ready (part_disk (cur_part s) s) s" and se: "st \<le> en" and en: "en < 139"
    and b: "blocks_on_drive (drive (part_disk (cur_part s) s) s) (inodes s a) en"
  shows "\<exists>bs s'. blocks_for_read a st en s = Some (bs, s') \<and> ide_eff s s' \<and> length bs = 140 \<and> (\<forall>x\<in>set bs. x \<le> max_lba) \<and>
    (\<forall>k. st \<le> k \<longrightarrow> k \<le> en \<longrightarrow> bs ! k = block_list (drive (part_disk (cur_part s) s) s) (inodes s a) ! k)"
proof -
  let ?d = "drive (part_disk (cur_part s) s) s" and ?i = "inodes s a"
  let ?L = "block_list ?d ?i" and ?z = "replicate 140 (0 :: u32)"
  have i: "length (i_sectors ?i) = 13" and L: "\<forall>x\<in>set ?L. x \<le> max_lba"
    using b by (auto simp: blocks_on_drive_def)
  have d: "drive_ok ?d"
    using r by (simp add: ide_ready_def)
  have LL: "length ?L = 140"
    using block_list_length [OF d i] .
  have Li: "?L ! k = i_sectors ?i ! k" if "k < 12" for k
    using that i by (simp add: block_list_def nth_append)
  have ok: "\<forall>x\<in>set bs. x \<le> max_lba" if "length bs = 140" "\<And>k. k < 140 \<Longrightarrow> bs ! k = ?L ! k \<or> bs ! k = 0" for bs
  proof
    fix x
    assume "x \<in> set bs"
    then have "\<exists>k<140. x = bs ! k"
      using that(1) by (auto simp: in_set_conv_nth)
    then obtain k where k: "k < 140" and x: "x = bs ! k"
      by blast
    have "x = ?L ! k \<or> x = 0"
      unfolding x by (rule that(2) [OF k])
    then show "x \<le> max_lba"
    proof
      assume "x = ?L ! k"
      then have "x \<in> set ?L"
        using k LL by (metis nth_mem)
      then show ?thesis
        using L by (rule bspec [rotated])
    qed simp
  qed
  show ?thesis
  proof (cases "en < 12")
    case True
    then have le: "st + (Suc en - st) \<le> 13" and l13: "13 \<le> length ?z"
      using se by simp_all
    obtain bs where bs: "copy_sectors (Suc en - st) a st ?z s = Some bs" "length bs = length ?z"
        "\<forall>j. bs ! j = (if st \<le> j \<and> j < st + (Suc en - st) then i_sectors ?i ! j else ?z ! j)"
      using copy_sectors_ok [OF i le l13] by blast
    have "blocks_for_read a st en s = Some (bs, s)"
    proof (cases "st = en")
      case True
      then show ?thesis
        using bs(1) \<open>en < 12\<close> i by (simp add: blocks_for_read_def copy_sector_def get_sector_def)
    next
      case False
      then show ?thesis
        using bs(1) \<open>en < 12\<close> by (simp add: blocks_for_read_def)
    qed
    moreover have "bs ! k = ?L ! k \<or> bs ! k = 0" if "k < 140" for k
      using bs(3) Li [of k] that True se by auto
    moreover have "bs ! k = ?L ! k" if "st \<le> k" "k \<le> en" for k
      using bs(3) Li [of k] that True by auto
    ultimately show ?thesis
      using ok [of bs] bs(2) ide_eff_refl [of s] by (intro exI [of _ bs] exI [of _ s]) auto
  next
    case False
    then have t: "i_sectors ?i ! 12 \<noteq> 0" "i_sectors ?i ! 12 \<le> max_lba"
      using b by (auto simp: blocks_on_drive_def)
    let ?n = "if st < 12 then 12 - st else 0"
    have le: "st + (12 - st) \<le> 13 \<or> \<not> st < 12" and l13: "13 \<le> length ?z"
      by auto
    obtain bs where bs: "(if st < 12 then copy_sectors (12 - st) a st ?z s else Some ?z) = Some bs" "length bs = 140"
        "\<forall>j. bs ! j = (if st \<le> j \<and> j < 12 then i_sectors ?i ! j else ?z ! j)"
    proof (cases "st < 12")
      case True
      then show ?thesis
        using copy_sectors_ok [OF i _ l13, of st "12 - st"] that by auto
    next
      case False
      then show ?thesis
        by (intro that [of ?z]) auto
    qed
    obtain s' where s': "read_table (i_sectors ?i ! 12) bs s = Some (take 12 bs @ the (le32s (?d (i_sectors ?i ! 12)) 0 128), s')" "ide_eff s s'"
      using read_table_ok [OF r t(2)] by blast
    let ?bs = "take 12 bs @ the (le32s (?d (i_sectors ?i ! 12)) 0 128)"
    have "blocks_for_read a st en s = Some (?bs, s')"
    proof (cases "st = en")
      case True
      then have "bs = ?z"
        using bs(1) False by simp
      then show ?thesis
        using s'(1) False True i t by (simp add: blocks_for_read_def get_sector_def)
    next
      case ne: False
      then show ?thesis
        using s'(1) False i t bs(1) by (auto simp: blocks_for_read_def get_sector_def split: if_splits)
    qed
    moreover have agree: "?bs ! k = ?L ! k" if "12 \<le> k \<or> st \<le> k" for k
      using that bs(2,3) i t(1) Li [of k] by (auto simp: block_list_def nth_append)
    moreover have "length ?bs = 140"
      using LL t(1) i bs(2) by (simp add: block_list_def)
    moreover have "?bs ! k = ?L ! k \<or> ?bs ! k = 0" if "k < 140" for k
      using agree [of k] bs(2,3) that by (cases "12 \<le> k \<or> st \<le> k") (auto simp: nth_append)
    ultimately show ?thesis
      using ok [of ?bs] s'(2) by (intro exI [of _ ?bs] exI [of _ s']) auto
  qed
qed

lemma read_data_ok:
  assumes r: "ide_ready (part_disk (cur_part s) s) s" and f: "f < length (file_table s)"
    and b: "blocks_on_drive (drive (part_disk (cur_part s) s) s) (inodes s a) ((unat pos + unat n) div 512)"
    and pos: "fd_pos (file_table s ! f) = pos" and n: "unat pos + unat n < 139 * 512"
  obtains s' where "read_data f a pos n s =
      Some (take (unat n) (drop (unat pos) (content (drive (part_disk (cur_part s) s) s) (inodes s a))), s')"
    and "ide_eff (moved f n s) s'"
proof -
  let ?d = "drive (part_disk (cur_part s) s) s" and ?i = "inodes s a"
  let ?st = "unat pos div 512" and ?en = "(unat pos + unat n) div 512"
  have d: "drive_ok ?d" and i: "length (i_sectors ?i) = 13"
    using r b by (auto simp: ide_ready_def blocks_on_drive_def)
  have us: "unat (pos div BLOCK_SIZE) = ?st" and ue: "unat ((pos + n) div BLOCK_SIZE) = ?en"
    using n by (simp_all add: BLOCK_SIZE_def SECTOR_SIZE_def unat_div unat_word_ariths)
  have se: "?st \<le> ?en" and en: "?en < 139"
    using n by (simp_all add: div_le_mono div_less_iff_less_mult)
  obtain bs s1 where bs: "blocks_for_read a ?st ?en s = Some (bs, s1)" "ide_eff s s1" "length bs = 140" "\<forall>x\<in>set bs. x \<le> max_lba"
      "\<forall>k. ?st \<le> k \<longrightarrow> k \<le> ?en \<longrightarrow> bs ! k = block_list ?d ?i ! k"
    using blocks_for_read_ok [OF r se en b] by blast
  have s1: "part_disk (cur_part s1) s1 = part_disk (cur_part s) s" "drive (part_disk (cur_part s) s) s1 = ?d" "file_table s1 = file_table s"
    using ide_eff_fields [OF bs(2)] part_disk_eff [OF bs(2)] drive_eff [OF bs(2)] by simp_all
  have r1: "ide_ready (part_disk (cur_part s1) s1) s1"
    using r s1(1) ide_ready_eff [OF bs(2)] by simp
  have f1: "f < length (file_table s1)" and n1: "unat (fd_pos (file_table s1 ! f)) + unat n \<le> 512 * length bs"
    and n2: "512 * length bs < 2 ^ 32"
    using f n pos s1(3) bs(3) by simp_all
  obtain s' where s': "read_loop f bs n s1 = Some (take (unat n) (drop (unat pos) (concat (map ?d bs))), s')" "ide_eff (moved f n s1) s'"
    using read_loop_ok [OF r1 f1 bs(4) n1 n2] unfolding s1 pos by blast
  have "take (unat n) (drop (unat pos) (concat (map ?d bs))) = take (unat n) (drop (unat pos) (content ?d ?i))"
    unfolding content_def using bs(3,5) n block_list_length [OF d i] by (intro concat_agree [OF d]) auto
  then have "read_data f a pos n s = Some (take (unat n) (drop (unat pos) (content ?d ?i)), s')"
    using bs(1) s'(1) en se us ue by (simp add: read_data_def word_less_nat_alt Let_def)
  then show thesis
    using that ide_eff_trans [OF moved_eff [OF bs(2)] s'(2)] by blast
qed

section \<open>Appending within the last block\<close>

lemma put_sector: "put_sectors d lba 1 bf = d(lba := take 512 bf)"
proof
  fix x
  have "unat (x - lba) < 1 \<longleftrightarrow> x = lba"
    by (simp add: unat_eq_zero)
  then show "put_sectors d lba 1 bf x = (d(lba := take 512 bf)) x"
    by (auto simp: put_sectors_def)
qed

lemma write_one:
  assumes "ide_ready hdd s" and "lba \<le> max_lba" and "512 \<le> length bf"
  obtains s' where "ide_write hdd lba bf 1 s = Some s'" and "ide_eff (set_drive hdd ((drive hdd s)(lba := take 512 bf)) s) s'"
    and "ide_ready hdd s'" and "drive hdd s' = (drive hdd s)(lba := take 512 bf)"
proof -
  have u: "unat lba + 1 \<le> unat max_lba + 1" and l: "1 * 512 \<le> length bf"
    using assms(2,3) by (simp_all add: word_le_nat_alt)
  obtain s' where s': "ide_write hdd lba bf 1 s = Some s'" "ide_eff (set_drive hdd (put_sectors (drive hdd s) lba 1 bf) s) s'"
    using ide_write_ok [OF assms(1) _ u l] by auto
  then show thesis
    using that ide_ready_write [OF assms(1) l s'(2)] by (simp only: put_sector)
qed

lemma console_free_eff:
  assumes "ide_eff s s'"
  shows "console_free s' = console_free s"
proof -
  obtain r n where "s' = s\<lparr>regs := r, status_reads := n\<rparr>"
    using assms by (auto simp: ide_eff_def)
  then show ?thesis
    by (intro console_free_same) simp_all
qed

lemma console_free_drive [simp]: "console_free (set_drive hdd d s) = console_free s"
  by (intro console_free_same) (simp_all add: set_drive_def)

lemma lba_message:
  "console_free s \<Longrightarrow> \<exists>out. printk (msg ''file write at lba 0x%x\<newline>'') [AInt lba] s = Some (s\<lparr>screen := out\<rparr>)"
  using printk_ok [of "msg ''file write at lba 0x%x\<newline>''" "[AInt lba]" "str_bytes ''file write at lba 0x'' @ digits 16 (unat lba) @ [10]" s]
    length_digits_word [of 16 lba]
  by (auto simp: msg_def str_bytes_def terminated_def cstr_def digits_nonzero)

lemma write_chunk_ok:
  assumes free: "console_free s" and r: "ide_ready hdd s" and hdd: "hdd = part_disk (cur_part s) s" and k: "unat (i_size (inodes s a)) div 512 < length bs"
    and lba: "bs ! (unat (i_size (inodes s a)) div 512) = lba" "lba \<le> max_lba"
    and n: "unat (i_size (inodes s a)) mod 512 + unat n \<le> 512" "unat n \<le> length src"
  obtains s' out where "write_chunk a bs True src n s = Some (s'\<lparr>screen := out\<rparr>)" and "ide_ready hdd s'"
    and "ide_eff (set_drive hdd ((drive hdd s)(lba := overwrite (drive hdd s lba) (unat (i_size (inodes s a)) mod 512) (take (unat n) src))) s) s'"
proof -
  let ?r = "unat (i_size (inodes s a)) mod 512" and ?src = "take (unat n) src"
  have um: "unat (i_size (inodes s a) mod BLOCK_SIZE) = ?r" and ud: "unat (i_size (inodes s a) div BLOCK_SIZE) = unat (i_size (inodes s a)) div 512"
    by (simp_all add: BLOCK_SIZE_def SECTOR_SIZE_def unat_mod unat_div)
  obtain s1 where s1: "ide_read_buf hdd lba (replicate 512 0) 1 s = Some (drive hdd s lba, s1)" "ide_eff s s1"
    using read_one [OF r lba(2), of "replicate 512 0"] by auto
  have dl: "length (drive hdd s lba) = 512"
    using r by (simp add: ide_ready_def drive_ok_def)
  have m: "memcpy (drive hdd s lba) ?r src 0 (unat n) = Some (overwrite (drive hdd s lba) ?r ?src)"
    using n dl by (simp add: memcpy_eq overwrite_def)
  have l: "length (overwrite (drive hdd s lba) ?r ?src) = 512"
    using n dl by (simp add: overwrite_length)
  have r1: "ide_ready hdd s1" and d1: "drive hdd s1 = drive hdd s"
    using r ide_ready_eff [OF s1(2)] drive_eff [OF s1(2)] by simp_all
  obtain s2 where s2: "ide_write hdd lba (overwrite (drive hdd s lba) ?r ?src) 1 s1 = Some s2"
      "ide_eff (set_drive hdd ((drive hdd s)(lba := overwrite (drive hdd s lba) ?r ?src)) s1) s2" "ide_ready hdd s2"
    using write_one [OF r1 lba(2), of "overwrite (drive hdd s lba) ?r ?src"] l d1 by auto
  have "console_free s2"
    using free console_free_eff [OF s1(2)] console_free_eff [OF s2(2)] by simp
  then obtain out where out: "printk (msg ''file write at lba 0x%x\<newline>'') [AInt lba] s2 = Some (s2\<lparr>screen := out\<rparr>)"
    using lba_message by blast
  show thesis
  proof (rule that)
    show "write_chunk a bs True src n s = Some (s2\<lparr>screen := out\<rparr>)"
      using s1(1) s2(1) m k lba(1) um ud hdd out by (simp add: write_chunk_def Let_def)
    show "ide_eff (set_drive hdd ((drive hdd s)(lba := overwrite (drive hdd s lba) ?r ?src)) s) s2"
      using ide_eff_trans [OF ide_eff_drive [OF s1(2)] s2(2)] .
  qed (rule s2(3))
qed

lemma content_put:
  assumes d: "drive_ok d" and k: "k < length L" and one: "\<And>j. j < length L \<Longrightarrow> j \<noteq> k \<Longrightarrow> L ! j \<noteq> L ! k"
    and r: "r + length ys \<le> 512"
  shows "concat (map (d(L ! k := overwrite (d (L ! k)) r ys)) L) = overwrite (concat (map d L)) (512 * k + r) ys"
    (is "concat (map ?e L) = _")
proof (rule nth_equalityI)
  have l: "length (d x) = 512" for x
    using d by (simp add: drive_ok_def)
  have e: "drive_ok ?e"
    using d r l by (simp add: drive_ok_def overwrite_length)
  have room: "512 * k + r + length ys \<le> length (concat (map d L))"
    using k r mult_le_mono1 [of "Suc k" "length L" 512] by (simp add: concat_length [OF d])
  then show "length (concat (map ?e L)) = length (overwrite (concat (map d L)) (512 * k + r) ys)"
    by (simp add: overwrite_length concat_length [OF d] concat_length [OF e])
  fix p
  assume "p < length (concat (map ?e L))"
  then have p: "p < 512 * length L"
    by (simp add: concat_length [OF e])
  then have j: "p div 512 < length L"
    by (simp add: div_less_iff_less_mult mult.commute)
  have pm: "p = 512 * (p div 512) + p mod 512" and m: "p mod 512 < 512"
    by simp_all
  have "concat (map ?e L) ! p = ?e (L ! (p div 512)) ! (p mod 512)"
    by (rule concat_nth [OF e p])
  also have "\<dots> = overwrite (concat (map d L)) (512 * k + r) ys ! p"
  proof (cases "p div 512 = k")
    case True
    then have "p - (512 * k + r) = p mod 512 - r"
      by (subst pm) simp
    moreover have "(512 * k + r \<le> p \<and> p < 512 * k + r + length ys) = (r \<le> p mod 512 \<and> p mod 512 < r + length ys)"
      using pm True by linarith
    ultimately show ?thesis
      using True room p m r l by (simp add: overwrite_nth concat_length [OF d] concat_nth [OF d])
  next
    case False
    then have "\<not> (512 * k + r \<le> p \<and> p < 512 * k + r + length ys)"
      using pm m r by linarith
    moreover have "L ! (p div 512) \<noteq> L ! k"
      using one [OF j] False by simp
    ultimately show ?thesis
      using room p overwrite_nth [of "512 * k + r" ys "concat (map d L)" p]
      by (simp only: concat_length [OF d] concat_nth [OF d] if_False length_map) simp
  qed
  finally show "concat (map ?e L) ! p = overwrite (concat (map d L)) (512 * k + r) ys ! p" .
qed

lemma ready_updates [simp]:
  "ide_ready h (s\<lparr>file_table := t\<rparr>) = ide_ready h s" "ide_ready h (s\<lparr>inodes := i\<rparr>) = ide_ready h s"
  "ide_ready h (upd_inode a g s) = ide_ready h s" "drive h (upd_inode a g s) = drive h s"
  "drive h (s\<lparr>file_table := t\<rparr>) = drive h s" "part_disk q (upd_inode a g s) = part_disk q s"
  "part_disk q (s\<lparr>file_table := t\<rparr>) = part_disk q s" "ide_ready h (s\<lparr>screen := u\<rparr>) = ide_ready h s" "drive h (s\<lparr>screen := u\<rparr>) = drive h s"
  "part_disk q (s\<lparr>screen := u\<rparr>) = part_disk q s"
  "parts (upd_inode a g s) = parts s" "cur_part (upd_inode a g s) = cur_part s" "file_table (upd_inode a g s) = file_table s"
  "inodes (upd_inode a g s) = (inodes s)(a := g (inodes s a))"
  by (simp_all add: ide_ready_def chan_idle_def lock_free_def drive_def part_disk_def upd_inode_def Let_def)

text \<open>
  What an append of \<open>n\<close> bytes within the last block relies on: the file has a block, its inode is one that does not
  cross a sector and has a number below 256, its blocks lie on the drive and outside the inode table, and no
  other block of the file, and not its table of blocks, is the last block.
\<close>

definition last_block :: "addr \<Rightarrow> 'a fstate_scheme \<Rightarrow> nat" where
  "last_block a s = unat (i_size (inodes s a)) div 512"

definition blocks_of :: "addr \<Rightarrow> 'a fstate_scheme \<Rightarrow> u32 list" where
  "blocks_of a s = block_list (drive (part_disk (cur_part s) s) s) (inodes s a)"

definition outside_table :: "u32 \<Rightarrow> 'a fstate_scheme \<Rightarrow> bool" where
  "outside_table b s \<longleftrightarrow> 608 \<le> unat (b - inode_table_lba (sb (parts s (cur_part s))))"

definition can_append :: "nat \<Rightarrow> addr \<Rightarrow> u32 \<Rightarrow> 'a fstate_scheme \<Rightarrow> bool" where
  "can_append f a n s \<longleftrightarrow>
     (let i = inodes s a; k = last_block a s; L = blocks_of a s; t = i_sectors i ! 12 in
      table_ok (cur_part s) s \<and> console_free s \<and> f < length (file_table s) \<and>
      i_no i < 256 \<and> 76 * unat (i_no i) mod 512 + 76 \<le> 512 \<and> i_sectors i ! 0 \<noteq> 0 \<and>
      0 < n \<and> unat (i_size i) mod 512 + unat n < 512 \<and> k < 139 \<and>
      blocks_on_drive (drive (part_disk (cur_part s) s) s) i k \<and>
      (\<forall>b\<in>set L. outside_table b s) \<and> (t \<noteq> 0 \<longrightarrow> outside_table t s \<and> t \<noteq> L ! k) \<and>
      (\<forall>j<140. j \<noteq> k \<longrightarrow> L ! j \<noteq> L ! k))"

lemma blocks_for_write_same:
  assumes r: "ide_ready (part_disk (cur_part s) s) s" and k: "k < 139"
    and b: "blocks_on_drive (drive (part_disk (cur_part s) s) s) (inodes s a) k"
    and h: "unat h = k + 1"
  shows "\<exists>bs s'. blocks_for_write a h h s = Some (Some bs, s') \<and> ide_eff s s' \<and> length bs = 140 \<and> bs ! k = blocks_of a s ! k"
proof (cases "k < 12")
  case True
  let ?i = "inodes s a"
  have i: "length (i_sectors ?i) = 13"
    using b by (simp add: blocks_on_drive_def)
  then have "blocks_for_write a h h s = Some (Some ((replicate 140 0)[k := i_sectors ?i ! k]), s)"
    using h True by (simp add: blocks_for_write_def copy_sector_def get_sector_def word_le_nat_alt)
  moreover have "i_sectors ?i ! k = blocks_of a s ! k"
    using True i by (simp add: blocks_of_def block_list_def nth_append)
  ultimately show ?thesis
    using k ide_eff_refl [of s] by (intro exI [of _ "(replicate 140 0)[k := i_sectors ?i ! k]"] exI [of _ s]) simp
next
  case False
  let ?i = "inodes s a" and ?d = "drive (part_disk (cur_part s) s) s"
  have i: "length (i_sectors ?i) = 13" and t: "i_sectors ?i ! 12 \<noteq> 0" "i_sectors ?i ! 12 \<le> max_lba"
    using b False by (auto simp: blocks_on_drive_def)
  obtain s' where s': "read_table (i_sectors ?i ! 12) (replicate 140 0) s =
      Some (take 12 (replicate 140 0) @ the (le32s (?d (i_sectors ?i ! 12)) 0 128), s')" "ide_eff s s'"
    using read_table_ok [OF r t(2)] by blast
  let ?bs = "take 12 (replicate 140 0) @ the (le32s (?d (i_sectors ?i ! 12)) 0 128)"
  have "length (block_list ?d ?i) = 140"
    using r i by (intro block_list_length) (simp_all add: ide_ready_def)
  then have "length ?bs = 140" and "?bs ! k = blocks_of a s ! k"
    using t(1) i False by (simp_all add: blocks_of_def block_list_def nth_append)
  moreover have "blocks_for_write a h h s = Some (Some ?bs, s')"
    using s'(1) h False i t(1) by (simp add: blocks_for_write_def get_sector_def word_le_nat_alt)
  ultimately show ?thesis
    using s'(2) by blast
qed

lemma write_loop_0: "write_loop f a bs first src 0 s = Some s"
  by (simp add: write_loop.simps)

lemma write_loop_one:
  assumes "0 < n" and "unat (i_size (inodes s a)) mod 512 + unat n < 512" and "write_chunk a bs True src n s = Some s1"
    and "f < length (file_table s1)"
  shows "write_loop f a bs True src n s = Some (moved f n (add_to_size a n s1))"
proof -
  have "unat (chunk_size n (i_size (inodes s a))) = unat n"
    using chunk_size_bounds(3) [OF assms(1), of "i_size (inodes s a)"] assms(2) by linarith
  then have "chunk_size n (i_size (inodes s a)) = n"
    by (simp add: word_unat_eq_iff)
  then show ?thesis
    using assms by (subst write_loop.simps) (simp add: Let_def upd_file_ok write_loop_0 add_to_size_def moved_def)
qed

lemma append_ok:
  assumes can: "can_append f a n s" and src: "unat n \<le> length src"
  obtains s' where "write_data f a src n s = Some (True, s')" and "table_ok (cur_part s') s'"
    and "inodes s' = (inodes s)(a := (inodes s a)\<lparr>i_size := i_size (inodes s a) + n\<rparr>)"
    and "stored_inode (cur_part s) s' (i_no (inodes s a)) =
      Some ((inodes s a)\<lparr>i_size := i_size (inodes s a) + n, i_open_cnts := 0, write_deny := 0\<rparr>)"
    and "\<And>x. outside_table x s \<Longrightarrow> drive (part_disk (cur_part s) s) s' x =
      ((drive (part_disk (cur_part s) s) s)(blocks_of a s ! last_block a s :=
        overwrite (drive (part_disk (cur_part s) s) s (blocks_of a s ! last_block a s)) (unat (i_size (inodes s a)) mod 512) (take (unat n) src))) x"
    and "cur_part s' = cur_part s" and "parts s' = parts s"
proof -
  let ?q = "cur_part s" and ?i = "inodes s a" and ?k = "last_block a s" and ?L = "blocks_of a s"
  let ?hdd = "part_disk ?q s" and ?r = "unat (i_size (inodes s a)) mod 512"
  let ?d = "drive ?hdd s" and ?lba = "?L ! ?k"
  have c: "table_ok ?q s" "f < length (file_table s)" "i_no ?i < 256" "76 * unat (i_no ?i) mod 512 + 76 \<le> 512"
      "i_sectors ?i ! 0 \<noteq> 0" "0 < n" "?r + unat n < 512" "?k < 139" "blocks_on_drive ?d ?i ?k"
    using can by (auto simp: can_append_def Let_def)
  have r: "ide_ready ?hdd s" and i: "length (i_sectors ?i) = 13" and on: "\<forall>b\<in>set ?L. b \<le> max_lba"
    using c(1,9) by (auto simp: table_ok_def blocks_on_drive_def blocks_of_def)
  have LL: "length ?L = 140"
    unfolding blocks_of_def using r i by (intro block_list_length) (simp_all add: ide_ready_def)
  have lba: "?lba \<le> max_lba"
    using on LL c(8) by simp
  have sz: "unat (i_size ?i) = 512 * ?k + ?r" and szk: "unat (i_size ?i) div 512 = ?k"
    by (simp_all add: last_block_def)
  have un: "unat (i_size ?i + n) = unat (i_size ?i) + unat n"
    using sz c(7,8) by (simp add: unat_word_ariths)
  have k2: "(unat (i_size ?i) + unat n) div 512 = ?k"
    using sz c(7) by simp
  have h: "unat (i_size ?i div BLOCK_SIZE + 1) = ?k + 1"
    using c(8) szk by (simp add: BLOCK_SIZE_def SECTOR_SIZE_def unat_div unat_word_ariths)
  have w: "(i_size ?i + n) div BLOCK_SIZE = i_size ?i div BLOCK_SIZE"
    using k2 szk un by (simp add: BLOCK_SIZE_def SECTOR_SIZE_def word_unat_eq_iff unat_div)
  obtain bs s2 where bs: "blocks_for_write a (i_size ?i div BLOCK_SIZE + 1) (i_size ?i div BLOCK_SIZE + 1) s = Some (Some bs, s2)"
      "ide_eff s s2" "length bs = 140" "bs ! ?k = ?lba"
    using blocks_for_write_same [OF r c(8,9) h] by blast
  define s3 where "s3 = s2\<lparr>file_table := (file_table s2)[f := (file_table s2 ! f)\<lparr>fd_pos := i_size (inodes s2 a) - 1\<rparr>]\<rparr>"
  have s3: "inodes s3 = inodes s" "parts s3 = parts s" "cur_part s3 = ?q" "part_disk ?q s3 = ?hdd" "drive ?hdd s3 = ?d"
      "ide_ready ?hdd s3" "length (file_table s3) = length (file_table s)"
    using ide_eff_fields [OF bs(2)] part_disk_eff [OF bs(2)] drive_eff [OF bs(2)] ide_ready_eff [OF bs(2)] r by (simp_all add: s3_def)
  let ?d1 = "?d(?lba := overwrite (?d ?lba) ?r (take (unat n) src))"
  have free: "console_free s3"
    using can console_free_eff [OF bs(2)] console_free_same [of s3 s2] by (simp add: can_append_def Let_def s3_def)
  obtain t4 out where t4: "write_chunk a bs True src n s3 = Some (t4\<lparr>screen := out\<rparr>)" "ide_ready ?hdd t4" "ide_eff (set_drive ?hdd ?d1 s3) t4"
    by (rule write_chunk_ok [OF free s3(6), of a bs ?lba n src]) (use s3 szk bs(3,4) c(7,8) lba src in simp_all)
  define s4 where "s4 = t4\<lparr>screen := out\<rparr>"
  have s4: "write_chunk a bs True src n s3 = Some s4" "ide_ready ?hdd s4"
    using t4(1,2) by (simp_all add: s4_def)
  define s5 where "s5 = moved f n (add_to_size a n s4)"
  have f4: "inodes s4 = inodes s" "parts s4 = parts s" "cur_part s4 = ?q" "part_disk ?q s4 = ?hdd" "drive ?hdd s4 = ?d1"
      "length (file_table s4) = length (file_table s)"
    using ide_eff_fields [OF t4(3)] part_disk_eff [OF t4(3)] drive_eff [OF t4(3)] s3 by (simp_all add: s4_def)
  have lp: "write_loop f a bs True src n s3 = Some s5"
    unfolding s5_def using c(2,6,7) s4(1) s3(1) f4(6) by (intro write_loop_one) simp_all
  let ?i' = "?i\<lparr>i_size := i_size ?i + n\<rparr>"
  have f5: "inodes s5 = (inodes s)(a := ?i')" "parts s5 = parts s" "cur_part s5 = ?q" "part_disk ?q s5 = ?hdd" "drive ?hdd s5 = ?d1"
      "ide_ready ?hdd s5"
    using f4 s4(2) by (simp_all add: s5_def add_to_size_def)
  have t5: "table_ok ?q s5"
    using c(1) f5 by (simp add: table_ok_def)
  have no: "unat (i_no ?i) mod 256 = unat (i_no ?i)" "unat (i_no ?i) < 256"
    using c(3) by (simp_all add: word_less_nat_alt)
  obtain s6 where s6: "inode_sync ?q ?i' (replicate 512 0) s5 = Some s6" "table_ok ?q s6"
      "ide_eff (set_drive (part_disk ?q s5) (drive (part_disk ?q s5) s6) s5) s6"
      "inode_table ?q s6 = overwrite (inode_table ?q s5) (76 * (unat (i_no ?i') mod 256)) (inode_bytes ?i')"
      "\<And>x. 608 \<le> unat (x - inode_table_lba (sb (parts s5 ?q))) \<Longrightarrow> drive (part_disk ?q s5) s6 x = drive (part_disk ?q s5) s5 x"
    using inode_sync_slot [OF t5, of ?i' "replicate 512 0"] i c(4) no by (simp, metis)
  have f6: "inodes s6 = (inodes s)(a := ?i')" "parts s6 = parts s" "cur_part s6 = ?q"
    using ide_eff_fields [OF s6(3)] f5 by simp_all
  have "first_block a s = Some (True, s)"
    using i c(5) by (simp add: first_block_def get_sector_def)
  moreover have "i_size ?i div BLOCK_SIZE + 1 \<le> 140"
    using h c(8) by (simp add: word_le_nat_alt)
  moreover have "upd_file f (\<lambda>y. y\<lparr>fd_pos := i_size (inodes s2 a) - 1\<rparr>) s2 = Some s3"
    using ide_eff_fields [OF bs(2)] c(2) by (simp add: upd_file_ok s3_def)
  ultimately have "write_data f a src n s = Some (True, s6)"
    using w bs(1) lp s6(1) f5 by (simp add: write_data_def Let_def)
  moreover have "i_no ?i < 4096"
    using no by (simp add: word_less_nat_alt)
  moreover have "stored_inode ?q s6 (i_no ?i) = Some (?i'\<lparr>i_open_cnts := 0, write_deny := 0\<rparr>)"
    using stored_overwrite [OF t5 s6(2,4), of "i_no ?i"] i no \<open>i_no ?i < 4096\<close> by simp
  ultimately show thesis
    using s6 f5 f6 by (intro that [of s6]) (simp_all add: outside_table_def)
qed

text \<open>The contents after an append.\<close>

lemma append_content:
  assumes can: "can_append f a n s" and src: "unat n \<le> length src"
    and d': "\<And>x. outside_table x s \<Longrightarrow> d' x = ((drive (part_disk (cur_part s) s) s)(blocks_of a s ! last_block a s :=
        overwrite (drive (part_disk (cur_part s) s) s (blocks_of a s ! last_block a s)) (unat (i_size (inodes s a)) mod 512) (take (unat n) src))) x"
    and i': "i_sectors i' = i_sectors (inodes s a)"
  shows "content d' i' = overwrite (content (drive (part_disk (cur_part s) s) s) (inodes s a)) (unat (i_size (inodes s a))) (take (unat n) src)"
proof -
  let ?i = "inodes s a" and ?k = "last_block a s" and ?L = "blocks_of a s" and ?d = "drive (part_disk (cur_part s) s) s"
  let ?r = "unat (i_size (inodes s a)) mod 512"
  have c: "ide_ready (part_disk (cur_part s) s) s" "?r + unat n < 512" "?k < 139" "length (i_sectors ?i) = 13" "\<forall>b\<in>set ?L. outside_table b s"
      "i_sectors ?i ! 12 \<noteq> 0 \<longrightarrow> outside_table (i_sectors ?i ! 12) s \<and> i_sectors ?i ! 12 \<noteq> ?L ! ?k" "\<forall>j<140. j \<noteq> ?k \<longrightarrow> ?L ! j \<noteq> ?L ! ?k"
    using can by (auto simp: can_append_def Let_def table_ok_def blocks_on_drive_def)
  have d: "drive_ok ?d"
    using c(1) by (simp add: ide_ready_def)
  have LL: "length ?L = 140"
    unfolding blocks_of_def using d c(4) by (rule block_list_length)
  have "block_list d' i' = ?L"
    using d' [of "i_sectors ?i ! 12"] c(6) i' by (auto simp: block_list_def blocks_of_def)
  then have "content d' i' = concat (map d' ?L)"
    by (simp add: content_def)
  also have "\<dots> = concat (map (?d(?L ! ?k := overwrite (?d (?L ! ?k)) ?r (take (unat n) src))) ?L)"
    using c(5) d' by (intro arg_cong [where f = concat] map_cong) auto
  also have "\<dots> = overwrite (concat (map ?d ?L)) (512 * ?k + ?r) (take (unat n) src)"
    using d LL c(2,3,7) src by (intro content_put) auto
  finally show ?thesis
    by (simp add: content_def blocks_of_def last_block_def)
qed

section \<open>Properties\<close>

lemma sample_blocks: "block_list d sample_inode = 676 # replicate 139 0"
proof -
  have "replicate 11 (0 :: u32) @ replicate 128 0 = replicate (11 + 128) 0"
    by (rule replicate_add [symmetric])
  then show ?thesis
    by (simp add: block_list_def sample_inode_def)
qed

lemma sample_console: "console_free sample_fstate"
  by (simp add: console_free_def lock_free_def sample_fstate_def dstate.defs sample_dstate_def sample_mem_def sample_kstate_def kstate.defs mstate.defs
      lock_semaphore_def sema_waiters_def list_empty_def list_init_def list_head_def list_tail_def NULL_def)

lemma sample_on_drive: "blocks_on_drive d sample_inode 0"
  by (simp add: blocks_on_drive_def sample_blocks max_lba_num) (simp add: sample_inode_def)

text \<open>
  C15. Reading returns the contents of the file. For an open file whose blocks lie on the drive and any range of bytes
  that ends before byte 71168, the part of \<^verbatim>\<open>file_read\<close> between allocating and freeing its buffers returns, the
  bytes it delivers are exactly that range of the concatenated blocks of the file, across block borders and
  from direct to indirect blocks, the position moves by the number of bytes, and the drive is unchanged.
\<close>

theorem read_data_content:
  assumes "ide_ready (part_disk (cur_part s) s) s" and "f < length (file_table s)" and "fd_pos (file_table s ! f) = pos"
    and "blocks_on_drive (drive (part_disk (cur_part s) s) s) (inodes s a) ((unat pos + unat n) div 512)"
    and "unat pos + unat n < 139 * 512"
  shows "\<exists>s'. read_data f a pos n s =
      Some (take (unat n) (drop (unat pos) (content (drive (part_disk (cur_part s) s) s) (inodes s a))), s') \<and>
    fd_pos (file_table s' ! f) = pos + n \<and> drive (part_disk (cur_part s) s) s' = drive (part_disk (cur_part s) s) s"
proof -
  obtain s' where s': "read_data f a pos n s =
      Some (take (unat n) (drop (unat pos) (content (drive (part_disk (cur_part s) s) s) (inodes s a))), s')" "ide_eff (moved f n s) s'"
    using read_data_ok [OF assms(1,2,4,3,5)] by blast
  have "file_table s' = file_table (moved f n s)" and "drive (part_disk (cur_part s) s) s' = drive (part_disk (cur_part s) s) s"
    using ide_eff_fields(4) [OF s'(2)] drive_eff [OF s'(2)] by simp_all
  then show ?thesis
    using s'(1) assms(2,3) by auto
qed

theorem read_data_content_witness:
  "\<exists>s'. read_data 3 0x9000 0 48 sample_fstate =
      Some (take 48 (drop 0 (content (\<lambda>_. replicate 512 0) sample_inode)), s') \<and>
    fd_pos (file_table s' ! 3) = 48 \<and> drive sample_disk s' = (\<lambda>_. replicate 512 0)"
  using read_data_content [of sample_fstate 3 0 "0x9000" 48] sample_ready sample_on_drive by simp



end
