(* ===== verification/Fs_Alloc.thy ===== *)
theory Fs_Alloc
  imports File_Data
begin

text \<open>
  The blocks and inodes of a partition as pools of indices, and what becomes of a file that needs a new
  indirect block.
\<close>

section \<open>Blocks and inodes as index pools\<close>

definition blocks_ok :: "part_ptr \<Rightarrow> 'a fstate_scheme \<Rightarrow> bool" where
  "blocks_ok q s \<longleftrightarrow> bm_wf (block_bitmap (parts s q)) \<and>
     unat (data_start_lba (sb (parts s q))) + bm_cap (block_bitmap (parts s q)) < 2 ^ 32 - 1"

definition inodes_ok :: "part_ptr \<Rightarrow> 'a fstate_scheme \<Rightarrow> bool" where
  "inodes_ok q s \<longleftrightarrow> bm_wf (inode_bitmap (parts s q)) \<and> bm_cap (inode_bitmap (parts s q)) < 2 ^ 32 - 1"

definition used_blocks :: "part_ptr \<Rightarrow> 'a fstate_scheme \<Rightarrow> nat set" where
  "used_blocks q s = bm_used (block_bitmap (parts s q))"

definition used_inodes :: "part_ptr \<Rightarrow> 'a fstate_scheme \<Rightarrow> nat set" where
  "used_inodes q s = bm_used (inode_bitmap (parts s q))"

lemma upd_part_simps [simp]:
  "parts (upd_part q f s) q' = (if q' = q then f (parts s q) else parts s q')" "cur_part (upd_part q f s) = cur_part s"
  by (simp_all add: upd_part_def)

lemma scan_set_cases:
  assumes "bm_wf b"
  obtains (full) "bitmap_scan b 1 = None" and "scan_and_set b = None" and "bm_used b = {..<bm_cap b}"
  | (bit) j b' where "scan_and_set b = Some (j, b')" and "bitmap_scan b 1 = Some (int j)" and "bitmap_set b j 1 = Some b'"
      and "bm_wf b'" and "bm_cap b' = bm_cap b" and "j < bm_cap b" and "j \<notin> bm_used b" and "bm_used b' = insert j (bm_used b)"
proof (cases "bm_used b = {..<bm_cap b}")
  case True
  then show thesis
    using full bitmap_scan_full [OF assms, of 1] by (simp add: scan_and_set_def bm_used_full)
next
  case False
  then have "scan_and_set b \<noteq> None"
    using bitmap_pool.alloc_total [OF assms] by blast
  then show thesis
    using scan_and_set_eq [OF assms] bit by auto
qed

lemma unat_minus_one: "unat (-1 :: u32) = 4294967295"
  by (simp add: unsigned_minus_1_eq_mask mask_eq_exp_minus_1)

text \<open>A new block is the sector of a bit that was clear; when none is clear the kernel stops.\<close>

lemma block_alloc_cases:
  assumes "blocks_ok q s"
  obtains (full) "block_bitmap_alloc q s = None" and "used_blocks q s = {..<bm_cap (block_bitmap (parts s q))}"
  | (block) j b' where "block_bitmap_alloc q s = Some (data_start_lba (sb (parts s q)) + of_nat j, upd_part q (block_bitmap_update (\<lambda>_. b')) s)"
      and "data_start_lba (sb (parts s q)) + of_nat j \<noteq> -1" and "unat (data_start_lba (sb (parts s q)) + of_nat j - data_start_lba (sb (parts s q))) = j"
      and "bm_wf b'" and "bm_cap b' = bm_cap (block_bitmap (parts s q))" and "j < bm_cap (block_bitmap (parts s q))"
      and "j \<notin> used_blocks q s" and "bm_used b' = insert j (used_blocks q s)"
proof -
  have wf: "bm_wf (block_bitmap (parts s q))"
    using assms by (simp add: blocks_ok_def)
  then show thesis
  proof (cases rule: scan_set_cases)
    case full
    then show thesis
      using that(1) by (simp add: block_bitmap_alloc_def used_blocks_def)
  next
    case (bit j b')
    have "unat (data_start_lba (sb (parts s q)) + of_nat j) = unat (data_start_lba (sb (parts s q))) + j" and "unat (of_nat j :: u32) = j"
      using assms bit(6) by (simp_all add: blocks_ok_def unat_word_ariths unat_of_nat)
    moreover from this have "data_start_lba (sb (parts s q)) + of_nat j \<noteq> -1"
      using assms bit(6) by (auto simp: blocks_ok_def word_unat_eq_iff unat_minus_one)
    ultimately show thesis
      using that(2) [of j b'] bit by (simp add: block_bitmap_alloc_def used_blocks_def)
  qed
qed

lemma inode_alloc_cases:
  assumes "inodes_ok q s"
  obtains (full) "inode_bitmap_alloc q s = None" and "used_inodes q s = {..<bm_cap (inode_bitmap (parts s q))}"
  | (inode) j b' where "inode_bitmap_alloc q s = Some (of_nat j, upd_part q (inode_bitmap_update (\<lambda>_. b')) s)"
      and "unat (of_nat j :: u32) = j"
      and "bm_wf b'" and "bm_cap b' = bm_cap (inode_bitmap (parts s q))" and "j < bm_cap (inode_bitmap (parts s q))"
      and "j \<notin> used_inodes q s" and "bm_used b' = insert j (used_inodes q s)"
proof -
  have wf: "bm_wf (inode_bitmap (parts s q))"
    using assms by (simp add: inodes_ok_def)
  then show thesis
  proof (cases rule: scan_set_cases)
    case full
    then show thesis
      using that(1) by (simp add: inode_bitmap_alloc_def used_inodes_def)
  next
    case (bit j b')
    have "unat (of_nat j :: u32) = j"
      using assms bit(6) by (simp add: inodes_ok_def unat_of_nat)
    then show thesis
      using that(2) [of j b'] bit by (simp add: inode_bitmap_alloc_def used_inodes_def)
  qed
qed

text \<open>The index of the bit of the block or inode that is handed out, and giving a block back.\<close>

definition block_alloc :: "part_ptr \<Rightarrow> 'a fstate_scheme \<Rightarrow> (nat \<times> 'a fstate_scheme) option" where
  "block_alloc q s = map_option (\<lambda>(lba, s'). (unat (lba - data_start_lba (sb (parts s q))), s')) (block_bitmap_alloc q s)"

interpretation part_blocks: index_pool "blocks_ok q" "used_blocks q" "\<lambda>s. bm_cap (block_bitmap (parts s q))" "block_alloc q"
  "\<lambda>s i. clear_block q (of_nat i) s" for q
proof unfold_locales
  show "blocks_ok q s \<Longrightarrow> used_blocks q s \<subseteq> {..<bm_cap (block_bitmap (parts s q))}" for s :: "'a fstate_scheme"
    by (auto simp: used_blocks_def bm_used_def)
  show "blocks_ok q s' \<and> bm_cap (block_bitmap (parts s' q)) = bm_cap (block_bitmap (parts s q)) \<and>
      i < bm_cap (block_bitmap (parts s q)) \<and> i \<notin> used_blocks q s \<and> used_blocks q s' = insert i (used_blocks q s)"
    if "blocks_ok q s" "block_alloc q s = Some (i, s')" for s s' :: "'a fstate_scheme" and i
    using that(1)
  proof (cases rule: block_alloc_cases)
    case full
    then show ?thesis
      using that(2) by (simp add: block_alloc_def)
  next
    case (block j b')
    then have "i = j" and s': "s' = upd_part q (block_bitmap_update (\<lambda>_. b')) s"
      using that(2) by (simp_all add: block_alloc_def)
    moreover have "blocks_ok q s'"
      using that(1) block(4,5) by (simp add: s' blocks_ok_def)
    ultimately show ?thesis
      using block(5-8) by (simp add: used_blocks_def)
  qed
  show "block_alloc q s \<noteq> None" if "blocks_ok q s" "used_blocks q s \<noteq> {..<bm_cap (block_bitmap (parts s q))}" for s :: "'a fstate_scheme"
    using that(1)
  proof (cases rule: block_alloc_cases)
    case full
    then show ?thesis
      using that(2) by simp
  qed (simp add: block_alloc_def)
  show "\<exists>s'. clear_block q (of_nat i) s = Some s' \<and> blocks_ok q s' \<and>
      bm_cap (block_bitmap (parts s' q)) = bm_cap (block_bitmap (parts s q)) \<and> used_blocks q s' = used_blocks q s - {i}"
    if ok: "blocks_ok q s" and i: "i < bm_cap (block_bitmap (parts s q))" for s :: "'a fstate_scheme" and i
  proof -
    have wf: "bm_wf (block_bitmap (parts s q))" and u: "unat (of_nat i :: u32) = i"
      using ok i by (simp_all add: blocks_ok_def unat_of_nat)
    obtain b' where "bitmap_set (block_bitmap (parts s q)) i 0 = Some b'" "bm_wf b'" "bm_cap b' = bm_cap (block_bitmap (parts s q))"
        "bm_used b' = bm_used (block_bitmap (parts s q)) - {i}"
      using bitmap_pool.release_step [OF wf i] by blast
    then show ?thesis
      using ok u by (auto simp: clear_block_def blocks_ok_def used_blocks_def)
  qed
qed

section \<open>The loop of the third situation\<close>

lemma alloc_rest_none:
  assumes "blocks_ok (cur_part s) s" and "block_idx < will_use"
  shows "alloc_rest block_idx will_use lba s = None"
  using assms(1)
proof (induction "bm_cap (block_bitmap (parts s (cur_part s))) - card (used_blocks (cur_part s) s)" arbitrary: lba s rule: less_induct)
  case less
  let ?q = "cur_part s"
  from less.prems show ?case
  proof (cases rule: block_alloc_cases)
    case full
    then show ?thesis
      using assms(2) by (simp add: alloc_rest.simps)
  next
    case (block j b')
    let ?t = "upd_part ?q (block_bitmap_update (\<lambda>_. b')) s"
    have fin: "finite (used_blocks ?q s)" and "used_blocks ?q s \<subseteq> {..<bm_cap (block_bitmap (parts s ?q))}"
      using part_blocks.finite_used [OF less.prems] part_blocks.used_bound [OF less.prems] by auto
    then have "insert j (used_blocks ?q s) \<subseteq> {..<bm_cap (block_bitmap (parts s ?q))}"
      using block(6) by auto
    then have "card (insert j (used_blocks ?q s)) \<le> bm_cap (block_bitmap (parts s ?q))"
      using card_mono [of "{..<bm_cap (block_bitmap (parts s ?q))}"] by fastforce
    then have "bm_cap (block_bitmap (parts ?t (cur_part ?t))) - card (used_blocks (cur_part ?t) ?t) <
        bm_cap (block_bitmap (parts s ?q)) - card (used_blocks ?q s)"
      using fin block(5,7,8) by (simp add: used_blocks_def card_insert_if)
    moreover have "blocks_ok (cur_part ?t) ?t"
      using less.prems block(4,5) by (simp add: blocks_ok_def)
    ultimately have "alloc_rest block_idx will_use (data_start_lba (sb (parts s ?q)) + of_nat j) ?t = None"
      by (rule less.hyps)
    then show ?thesis
      using assms(2) block(1,2) by (subst alloc_rest.simps) simp
  qed
qed

section \<open>Properties\<close>

text \<open>
  C38. A file that has reached its indirect blocks cannot grow by a block. When a write to such a file needs
  another block, \<^verbatim>\<open>file_write\<close> never comes back, whatever the free blocks: the loop that should allocate the missing blocks does
  not advance its index, so it takes every free block of the partition and ends in the assertion of \<^verbatim>\<open>bitmap_scan\<close>.
\<close>

theorem file_growth_never_returns:
  assumes "ide_ready (part_disk (cur_part s) s) s" and "blocks_ok (cur_part s) s"
    and "length (i_sectors (inodes s a)) = 13" and "i_sectors (inodes s a) ! 0 \<noteq> 0" and "i_sectors (inodes s a) ! 12 \<le> max_lba"
    and "12 \<le> unat (i_size (inodes s a)) div 512" and "unat (i_size (inodes s a)) + unat n < 2 ^ 32"
    and "unat (i_size (inodes s a)) div 512 < (unat (i_size (inodes s a)) + unat n) div 512"
  shows "write_data f a src n s = None"
proof -
  let ?i = "inodes s a" and ?t = "i_sectors (inodes s a) ! 12"
  let ?has = "i_size ?i div BLOCK_SIZE + 1" and ?will = "(i_size ?i + n) div BLOCK_SIZE + 1"
  have un: "unat (i_size ?i + n) = unat (i_size ?i) + unat n"
    using assms(7) by (simp add: unat_word_ariths)
  have blocks: "unat (x div BLOCK_SIZE + 1) = unat x div 512 + 1" for x :: u32
  proof -
    have "unat (x div 512) = unat x div 512" and "unat x div 512 + 1 < 2 ^ 32"
      using unsigned_less [of x, where ?'a = nat] by (simp_all add: unat_div)
    then show ?thesis
      by (simp add: BLOCK_SIZE_def SECTOR_SIZE_def unat_word_ariths(1) [of "x div 512"])
  qed
  have has: "unat ?has = unat (i_size ?i) div 512 + 1" and will: "unat ?will = (unat (i_size ?i) + unat n) div 512 + 1"
    by (simp_all only: blocks un)
  have lt: "?has < ?will" and big: "\<not> ?will \<le> 12" "\<not> ?has \<le> 12" and ne: "?will - ?has \<noteq> 0"
    using has will assms(6,8) by (auto simp: word_less_nat_alt word_le_nat_alt)
  have "situation3 a ?has ?will (replicate 140 0) s = None"
  proof (cases "?t = 0")
    case True
    then show ?thesis
      using assms(3) by (simp add: situation3_def get_sector_def)
  next
    case False
    obtain bs s1 where s1: "read_table ?t (replicate 140 0) s = Some (bs, s1)" "ide_eff s s1"
      using read_table_ok [OF assms(1,5)] by blast
    have "blocks_ok (cur_part s1) s1"
      using assms(2) ide_eff_fields [OF s1(2)] by (simp add: blocks_ok_def)
    then have "alloc_rest ?has ?will (-1) s1 = None"
      using lt by (rule alloc_rest_none)
    then show ?thesis
      using s1(1) assms(3) by (simp add: situation3_def get_sector_def)
  qed
  then have "blocks_for_write a ?has ?will s = None"
    using big ne by (simp add: blocks_for_write_def)
  moreover have "first_block a s = Some (True, s)"
    using assms(3,4) by (simp add: first_block_def get_sector_def)
  ultimately show ?thesis
    by (simp add: write_data_def Let_def)
qed

definition big_file :: inode where
  "big_file = \<lparr>i_no = 1, i_size = 6655, i_open_cnts = 1, write_deny = 0, i_sectors = [677, 678, 679, 680, 681, 682, 683, 684, 685, 686, 687, 688, 689]\<rparr>"

theorem file_growth_never_returns_witness:
  "write_data 3 0x9000 [1] 1 (sample_fstate\<lparr>inodes := (\<lambda>_. big_file)\<rparr>) = None"
proof (rule file_growth_never_returns)
  let ?s = "sample_fstate\<lparr>inodes := (\<lambda>_. big_file)\<rparr>"
  have p: "part_disk (cur_part ?s) ?s = sample_disk"
    using sample_fields(3) [of "Prim 0 1 0"] by (simp add: part_disk_def)
  show "ide_ready (part_disk (cur_part ?s) ?s) ?s"
    unfolding p using sample_ready by simp
  show "blocks_ok (cur_part ?s) ?s"
    by (simp add: blocks_ok_def bm_wf_def bm_cap_def sample_part_def)
qed (simp_all add: big_file_def max_lba_num)



end
