(* ===== verification/Fs_Calls.thy ===== *)
theory Fs_Calls
  imports Fs_Alloc
begin

text \<open>
  Properties of the routines behind the system calls: the path of the working directory, the position in a file,
  and the entries of a directory.
\<close>

section \<open>The path of the working directory\<close>

lemma buffer_split:
  assumes "terminated b 0"
  shows "b = cstr b 0 @ 0 # drop (Suc (length (cstr b 0))) b"
proof -
  have "length (cstr b 0) < length b" and "b ! length (cstr b 0) = 0" and "take (length (cstr b 0)) b = cstr b 0"
    using terminated_length [OF assms] terminated_at [OF assms] cstr_prefix [of b 0] by simp_all
  then show ?thesis
    using id_take_nth_drop [of "length (cstr b 0)" b] by simp
qed

lemma cstr_tail:
  assumes "terminated b 0" and "cstr b 0 = xs @ ys"
  shows "cstr b (length xs) = ys" and "terminated b (length xs)"
proof -
  have b: "b = xs @ ys @ 0 # drop (Suc (length (cstr b 0))) b"
    using buffer_split [OF assms(1)] assms(2) by simp
  have "0 \<notin> set ys"
    using cstr_no_nul [of b 0] assms(2) by simp
  then show "cstr b (length xs) = ys" and "terminated b (length xs)"
    by (subst b, simp only: cstr_append) (subst b, simp only: terminated_append)
qed

text \<open>Cutting a string at one of its characters.\<close>

lemma cstr_cut:
  assumes "terminated b 0" and "cstr b 0 = xs @ c # ys"
  shows "cstr (b[length xs := 0]) 0 = xs" and "terminated (b[length xs := 0]) 0"
proof -
  have b: "b = xs @ c # ys @ 0 # drop (Suc (length (cstr b 0))) b"
    using buffer_split [OF assms(1)] assms(2) by simp
  have "b[length xs := 0] = [] @ xs @ 0 # ys @ 0 # drop (Suc (length (cstr b 0))) b"
    by (subst b) (simp add: list_update_append)
  moreover have "0 \<notin> set xs"
    using cstr_no_nul [of b 0] assms(2) by simp
  ultimately show "cstr (b[length xs := 0]) 0 = xs" and "terminated (b[length xs := 0]) 0"
    using cstr_append [of xs "[]" 0] terminated_append [of "[]" 0] by simp_all
qed

lemma rindex_last: "P x \<Longrightarrow> (\<forall>y\<in>set ys. \<not> P y) \<Longrightarrow> rindex P (xs @ x # ys) = Some (length xs)"
  by (induction xs) (simp_all add: rindex_None [THEN iffD2])

lemma reverse_path_ok:
  assumes "terminated full 0" and "cstr full 0 = join cs" and "\<forall>c\<in>set cs. 47 \<notin> set c"
    and "terminated bf 0" and "length (cstr bf 0) + length (join cs) < length bf"
  shows "\<exists>bf'. reverse_path full bf = Some bf' \<and> length bf' = length bf \<and> terminated bf' 0 \<and> cstr bf' 0 = cstr bf 0 @ join (rev cs)"
  using assms
proof (induction cs arbitrary: full bf rule: rev_induct)
  case Nil
  then have "strrchr full 0 47 = Some None"
    using strrchr_eq [of full 0 47] by (simp add: join_def)
  then show ?case
    using Nil by (subst reverse_path.simps) (simp add: join_def)
next
  case (snoc c cs)
  let ?i = "length (join cs)"
  have s: "cstr full 0 = join cs @ 47 # c"
    using snoc.prems(2) by (simp add: join_snoc)
  have "rindex (\<lambda>x. char_eq x 47) (cstr full 0) = Some ?i"
    unfolding s using snoc.prems(3) by (intro rindex_last) (auto simp: char_eq_ascii)
  then have r: "strrchr full 0 47 = Some (Some ?i)"
    using strrchr_eq [OF snoc.prems(1), of 47] by simp
  have t: "cstr full ?i = 47 # c" "terminated full ?i"
    using cstr_tail [OF snoc.prems(1) s] by simp_all
  have len: "strlen bf 0 = Some (length (cstr bf 0))"
    using snoc.prems(4) by (simp add: strlen_eq)
  have room: "length (cstr bf 0) + length (cstr full ?i) < length bf"
    using snoc.prems(5) t(1) by (simp add: join_snoc)
  let ?b1 = "take (length (cstr bf 0)) bf @ (47 # c) @ 0 # drop (Suc (length (cstr bf 0) + length (47 # c))) bf"
  have b1: "strcpy bf (length (cstr bf 0)) full ?i = Some ?b1"
    using strcpy_eq [OF t(2), of bf "length (cstr bf 0)"] room t(1) by simp
  have tk: "take (length (cstr bf 0)) bf = cstr bf 0"
    using cstr_prefix [of bf 0] by simp
  have nz: "0 \<notin> set (cstr bf 0 @ 47 # c)"
    using cstr_no_nul [of bf 0] cstr_no_nul [of full 0] s by simp
  have c1: "cstr ?b1 0 = cstr bf 0 @ 47 # c" and t1: "terminated ?b1 0" and l1: "length ?b1 = length bf"
    using cstr_append [OF nz, of "[]" 0 "drop (Suc (length (cstr bf 0) + length (47 # c))) bf"] room t(1)
      terminated_append [of "[]" 0 "cstr bf 0 @ 47 # c"] by (simp_all add: tk)
  have cut: "cstr (full[?i := 0]) 0 = join cs" "terminated (full[?i := 0]) 0"
    using cstr_cut [OF snoc.prems(1) s] .
  have w: "wr full ?i 0 = Some (full[?i := 0])"
    using terminated_lt [OF t(2)] by simp
  have "\<forall>c\<in>set cs. 47 \<notin> set c" and "length (cstr ?b1 0) + length (join cs) < length ?b1"
    using snoc.prems(3,5) c1 l1 by (simp_all add: join_snoc)
  from snoc.IH [OF cut(2,1) this(1) t1 this(2)]
  obtain bf' where "reverse_path (full[?i := 0]) ?b1 = Some bf'" "length bf' = length bf" "terminated bf' 0"
      "cstr bf' 0 = (cstr bf 0 @ 47 # c) @ join (rev cs)"
    unfolding c1 l1 by blast
  then show ?case
    using r len b1 w by (subst reverse_path.simps) (simp add: join_def)
qed

section \<open>Deleting an entry\<close>

lemma delete_loop_zeros:
  assumes "\<And>j. j < m \<Longrightarrow> rd bs (k + j) = Some 0"
  shows "delete_loop m q a per_sec k bs no io s = Some (False, s)"
  using assms
proof (induction m arbitrary: k)
  case (Suc m)
  have "rd bs k = Some 0"
    using Suc.prems [of 0] by simp
  moreover have "delete_loop m q a per_sec (Suc k) bs no io s = Some (False, s)"
    using Suc.prems [of "Suc _"] by (intro Suc.IH) simp
  ultimately show ?case
    by simp
qed simp

section \<open>The position in a file\<close>

lemma sint_of_int_range: "- (2 ^ 31) \<le> k \<Longrightarrow> k < 2 ^ 31 \<Longrightarrow> sint (of_int k :: u32) = k"
  by (simp add: signed_of_int signed_take_bit_int_eq_self)

lemma sint_small: "uint w < 2 ^ 31 \<Longrightarrow> sint (w :: u32) = uint w"
  using sint_of_int_range [of "uint w"] uint_ge_0 [of w] by simp

definition seek_base :: "u8 \<Rightarrow> file_struct \<Rightarrow> u32 \<Rightarrow> int" where
  "seek_base whence x sz = (if whence = 1 then 0 else if whence = 2 then uint (fd_pos x) else uint sz)"

lemma seek_pos:
  "(if whence = 1 then off else if whence = 2 then fd_pos x + off else sz + off) = (of_int (seek_base whence x sz + sint off) :: u32)"
  by (simp add: seek_base_def)

lemma sys_lseek_eq:
  assumes fd: "0 \<le> fd" "fd_local2global (nat fd) s = Some f" "f < length (file_table s)" and w: "whence \<in> {1, 2, 3}"
    and sz: "uint (i_size (inodes s (fd_inode (file_table s ! f)))) < 2 ^ 31"
    and range: "- (2 ^ 31) \<le> seek_base whence (file_table s ! f) (i_size (inodes s (fd_inode (file_table s ! f)))) + sint off"
      "seek_base whence (file_table s ! f) (i_size (inodes s (fd_inode (file_table s ! f)))) + sint off < 2 ^ 31"
  shows "sys_lseek fd off whence s =
    (let p = seek_base whence (file_table s ! f) (i_size (inodes s (fd_inode (file_table s ! f)))) + sint off in
     if 0 \<le> p \<and> p < uint (i_size (inodes s (fd_inode (file_table s ! f))))
     then Some (of_int p, s\<lparr>file_table := (file_table s)[f := (file_table s ! f)\<lparr>fd_pos := of_int p\<rparr>]\<rparr>)
     else Some (-1, s))"
proof -
  let ?x = "file_table s ! f" and ?n = "i_size (inodes s (fd_inode (file_table s ! f)))"
  let ?p = "seek_base whence ?x ?n + sint off"
  have wh: "(0 :: u8) < whence \<and> whence < 4"
    using w by auto
  have p: "sint (of_int ?p :: u32) = ?p"
    using range by (rule sint_of_int_range)
  have "sint (of_int (uint ?n - 1) :: u32) = uint ?n - 1"
    using sz uint_ge_0 [of ?n] by (intro sint_of_int_range) linarith+
  then have n: "sint (?n - 1) = uint ?n - 1"
    by simp
  have "sys_lseek fd off whence s = (if sint (of_int ?p :: u32) < 0 \<or> sint (of_int ?p :: u32) > sint (?n - 1) then Some (-1, s)
      else Some (of_int ?p, s\<lparr>file_table := (file_table s)[f := ?x\<lparr>fd_pos := of_int ?p\<rparr>]\<rparr>))"
    using fd wh unfolding sys_lseek_def Let_def seek_pos [of whence off ?x ?n, symmetric] by (simp add: upd_file_ok)
  then show ?thesis
    unfolding p n Let_def by auto
qed

section \<open>Entries\<close>

lemma free_entry_found:
  assumes "\<And>j. j < m \<Longrightarrow> \<exists>t. de_f_type bs (k + j) = Some t \<and> t \<noteq> FT_UNKNOWN"
    and "m < n \<Longrightarrow> de_f_type bs (k + m) = Some FT_UNKNOWN" and "m \<le> n"
  shows "free_entry bs n k = Some (if m < n then Some (k + m) else None)"
  using assms
proof (induction n arbitrary: k m)
  case (Suc n)
  show ?case
  proof (cases m)
    case 0
    then show ?thesis
      using Suc.prems(2) by simp
  next
    case (Suc m')
    obtain t where "de_f_type bs k = Some t" "t \<noteq> FT_UNKNOWN"
      using Suc.prems(1) [of 0] Suc by auto
    moreover have "\<exists>t. de_f_type bs (Suc k + j) = Some t \<and> t \<noteq> FT_UNKNOWN" if "j < m'" for j
      using Suc.prems(1) [of "Suc j"] that Suc by simp
    then have "free_entry bs n (Suc k) = Some (if m' < n then Some (Suc k + m') else None)"
      using Suc.prems(2,3) Suc by (intro Suc.IH) simp_all
    ultimately show ?thesis
      using Suc by simp
  qed
qed simp

lemma search_entries_found:
  assumes "terminated nm 0" and "\<And>j. j < m \<Longrightarrow> terminated bs (24 * (k + j)) \<and> cstr bs (24 * (k + j)) \<noteq> cstr nm 0"
    and "m < n \<Longrightarrow> terminated bs (24 * (k + m)) \<and> cstr bs (24 * (k + m)) = cstr nm 0" and "m \<le> n"
  shows "search_entries bs n k nm = Some (if m < n then Some (k + m) else None)"
  using assms(2-)
proof (induction n arbitrary: k m)
  case (Suc n)
  have cmp: "strcmp bs (24 * k) nm 0 = Some (scmp (cstr bs (24 * k)) (cstr nm 0))" if "terminated bs (24 * k)"
    using that assms(1) by (rule strcmp_eq_scmp)
  show ?case
  proof (cases m)
    case 0
    then show ?thesis
      using Suc.prems(2) cmp by (simp add: sizeof_dir_entry_def scmp_eq_0)
  next
    case (Suc m')
    have "terminated bs (24 * k)" "cstr bs (24 * k) \<noteq> cstr nm 0"
      using Suc.prems(1) [of 0] Suc by auto
    moreover have "terminated bs (24 * (Suc k + j)) \<and> cstr bs (24 * (Suc k + j)) \<noteq> cstr nm 0" if "j < m'" for j
      using Suc.prems(1) [of "Suc j"] that Suc by simp
    then have "search_entries bs n (Suc k) nm = Some (if m' < n then Some (Suc k + m') else None)"
      using Suc.prems(2,3) Suc by (intro Suc.IH) simp_all
    ultimately show ?thesis
      using Suc cmp by (simp add: sizeof_dir_entry_def scmp_eq_0)
  qed
qed simp

text \<open>The name of the \<open>k\<close>-th entry of a sector, when it ends within its sixteen bytes.\<close>

definition entry_name :: "u8 list \<Rightarrow> nat \<Rightarrow> u8 list option" where
  "entry_name bs k = (let f = take 16 (drop (24 * k) bs) in if 0 \<in> set f then Some (takeWhile (\<lambda>c. c \<noteq> 0) f) else None)"

lemma cstr_field:
  assumes "0 \<in> set (take n (drop i b))"
  shows "terminated b i" and "cstr b i = takeWhile (\<lambda>c. c \<noteq> 0) (take n (drop i b))"
proof -
  have *: "drop i b = take n (drop i b) @ drop n (drop i b)"
    by (rule append_take_drop_id [symmetric])
  show "terminated b i"
    using assms by (auto simp: terminated_def dest: in_set_takeD)
  show "cstr b i = takeWhile (\<lambda>c. c \<noteq> 0) (take n (drop i b))"
    unfolding cstr_def by (subst *, rule takeWhile_append1 [OF assms]) simp
qed

lemma entry_name_cstr: "entry_name bs k = Some nm \<Longrightarrow> terminated bs (24 * k) \<and> cstr bs (24 * k) = nm"
  using cstr_field [of 16 "24 * k" bs] by (auto simp: entry_name_def Let_def split: if_splits)

definition entry_bytes :: "u8 list \<Rightarrow> u32 \<Rightarrow> u32 \<Rightarrow> u8 list" where
  "entry_bytes nm no ty = nm @ replicate (16 - length nm) 0 @ le_bytes no @ le_bytes ty"

lemma create_dir_entry_bytes:
  assumes "terminated nm off" and "length (cstr nm off) \<le> 16"
  shows "create_dir_entry nm off no ty (replicate 24 0) = Some (entry_bytes (cstr nm off) no (ucast ty))"
proof -
  let ?n = "length (cstr nm off)"
  have fits: "off + ?n \<le> length nm" and pre: "take ?n (drop off nm) = cstr nm off"
    using terminated_length [OF assms(1)] cstr_prefix [of nm off] by simp_all
  have 1: "memcpy (replicate 24 0) 0 nm off ?n = Some (cstr nm off @ replicate (24 - ?n) 0)"
    using fits assms(2) by (auto simp: memcpy_eq pre)
  have 2: "put32 (cstr nm off @ replicate (24 - ?n) 0) 16 no =
      Some (cstr nm off @ replicate (16 - ?n) 0 @ le_bytes no @ replicate 4 0)"
    using assms(2) by (simp add: put32_def memcpy_eq min_def)
  have 3: "put32 (cstr nm off @ replicate (16 - ?n) 0 @ le_bytes no @ replicate 4 0) 20 (ucast ty) = Some (entry_bytes (cstr nm off) no (ucast ty))"
    using assms(2) by (simp add: put32_def memcpy_eq entry_bytes_def)
  show ?thesis
    using assms 1 2 3 by (simp add: create_dir_entry_def strlen_eq MAX_FILE_NAME_LEN_def)
qed

lemma entry_bytes_length [simp]: "length nm \<le> 16 \<Longrightarrow> length (entry_bytes nm no ty) = 24"
  by (simp add: entry_bytes_def)

lemma put_entry:
  assumes "length nm < 16" and "0 \<notin> set nm" and "24 * m + 24 \<le> length bs"
    and b': "bs' = overwrite bs (24 * m) (entry_bytes nm no ty)"
  shows "entry_name bs' m = Some nm" and "de_i_no bs' m = Some no" and "de_f_type bs' m = Some ty"
    and "\<And>j. j < m \<Longrightarrow> entry_name bs' j = entry_name bs j"
proof -
  have l: "length (entry_bytes nm no ty) = 24"
    using assms(1) by simp
  have b: "bs' = take (24 * m) bs @ entry_bytes nm no ty @ drop (24 * m + 24) bs"
    by (simp add: b' overwrite_def l)
  let ?p = "take (24 * m) bs" and ?z = "replicate (16 - length nm) (0 :: u8)" and ?q = "drop (24 * m + 24) bs"
  have p: "length ?p = 24 * m"
    using assms(3) by simp
  have "take 16 (drop (24 * m) bs') = nm @ ?z"
    using p assms(1) by (simp add: b entry_bytes_def)
  moreover have "takeWhile (\<lambda>c. c \<noteq> 0) (nm @ ?z) = nm"
    using assms(1,2) by (subst takeWhile_append2) (auto simp: takeWhile_eq_Nil_iff)
  ultimately show "entry_name bs' m = Some nm"
    using assms(1) by (simp add: entry_name_def)
  have "bs' = (?p @ nm @ ?z) @ le_bytes no @ le_bytes ty @ ?q" and "bs' = (?p @ nm @ ?z @ le_bytes no) @ le_bytes ty @ ?q"
    by (simp_all add: b entry_bytes_def)
  then have "le32 bs' (length (?p @ nm @ ?z)) = Some no" and "le32 bs' (length (?p @ nm @ ?z @ le_bytes no)) = Some ty"
    using le32_bytes by metis+
  then show "de_i_no bs' m = Some no" and "de_f_type bs' m = Some ty"
    using p assms(1) by (simp_all add: de_i_no_def de_f_type_def sizeof_dir_entry_def)
  fix j
  assume "j < m"
  then have "24 * j + 24 \<le> 24 * m"
    using mult_le_mono2 [of "Suc j" m 24] by simp
  then have "take 16 (drop (24 * j) bs') = take 16 (drop (24 * j) bs)"
    using p assms(3) by (simp add: b drop_take)
  then show "entry_name bs' j = entry_name bs j"
    by (simp add: entry_name_def)
qed

lemma add_entry_ok:
  assumes r: "ide_ready (part_disk (cur_part s) s) s" and e: "dir_entry_size (sb (parts s (cur_part s))) = 24"
    and sz: "i_size (inodes s (dir_inode (dirs s d))) mod 24 = 0"
    and i: "length (i_sectors (inodes s (dir_inode (dirs s d)))) = 13"
    and b: "i_sectors (inodes s (dir_inode (dirs s d))) ! 0 = b" "b \<noteq> 0" "b \<le> max_lba"
    and bs: "drive (part_disk (cur_part s) s) s b = bs"
    and used: "\<And>j. j < m \<Longrightarrow> \<exists>t. de_f_type bs j = Some t \<and> t \<noteq> FT_UNKNOWN" and free: "de_f_type bs m = Some FT_UNKNOWN" and m: "m < 21"
    and p: "length p_de = 24" and io: "512 \<le> length io"
  obtains s' where "sync_dir_entry d p_de io s = Some (True, s')" and "ide_ready (part_disk (cur_part s) s) s'"
    and "drive (part_disk (cur_part s) s) s' = (drive (part_disk (cur_part s) s) s)(b := overwrite bs (24 * m) p_de)"
    and "inodes s' = (inodes s)(dir_inode (dirs s d) := (inodes s (dir_inode (dirs s d)))\<lparr>i_size := i_size (inodes s (dir_inode (dirs s d))) + 24\<rparr>)"
    and "cur_part s' = cur_part s" and "parts s' = parts s" and "dirs s' = dirs s"
proof -
  let ?a = "dir_inode (dirs s d)" and ?hdd = "part_disk (cur_part s) s"
  have l: "length bs = 512"
    using r bs by (auto simp: ide_ready_def drive_ok_def)
  obtain s1 where s1: "ide_read_buf ?hdd b io 1 s = Some (bs @ drop 512 io, s1)" "ide_eff s s1"
    using read_one [OF r b(3) io] bs by auto
  have f1: "parts s1 = parts s" "cur_part s1 = cur_part s" "inodes s1 = inodes s" "dirs s1 = dirs s"
    and p1: "part_disk (cur_part s) s1 = ?hdd" and d1: "drive ?hdd s1 = drive ?hdd s" and r1: "ide_ready ?hdd s1"
    using ide_eff_fields [OF s1(2)] part_disk_eff [OF s1(2)] drive_eff [OF s1(2)] ide_ready_eff [OF s1(2)] r by simp_all
  have ty: "de_f_type (bs @ drop 512 io) j = de_f_type bs j" if "j < 21" for j
    unfolding de_f_type_def sizeof_dir_entry_def using that l le32_take [of "24 * j + 20" 512 "bs @ drop 512 io"] by simp
  have fe: "free_entry (bs @ drop 512 io) 21 0 = Some (Some m)"
    using free_entry_found [of m "bs @ drop 512 io" 0 21] used free m ty by auto
  let ?new = "overwrite bs (24 * m) p_de @ drop 512 io"
  have nl: "length (overwrite bs (24 * m) p_de) = 512"
    using l m p by (simp add: overwrite_length)
  have mc: "memcpy (bs @ drop 512 io) (24 * m) p_de 0 24 = Some ?new"
    using l m p by (simp add: memcpy_eq overwrite_def)
  have nl': "512 \<le> length ?new"
    using nl by simp
  obtain s2 where s2: "ide_write ?hdd b ?new 1 s1 = Some s2" "ide_eff (set_drive ?hdd ((drive ?hdd s1)(b := take 512 ?new)) s1) s2"
      "ide_ready ?hdd s2" "drive ?hdd s2 = (drive ?hdd s1)(b := take 512 ?new)"
    using write_one [OF r1 b(3) nl'] by metis
  have f2: "parts s2 = parts s" "cur_part s2 = cur_part s" "inodes s2 = inodes s" "dirs s2 = dirs s"
    using ide_eff_fields [OF s2(2)] f1 by simp_all
  have per: "unat (SECTOR_SIZE div 24) = 21"
    by (simp add: SECTOR_SIZE_def unat_div)
  have r0: "rd (take 12 (i_sectors (inodes s ?a)) @ replicate 128 0) 0 = Some b"
    using i b(1) by (simp add: rd_def nth_append)
  let ?s3 = "add_to_size ?a 24 s2"
  have "sync_dir_entry d p_de io s = Some (True, ?s3)"
    using e sz b(2) r0 fe mc s1(1) s2(1) f1 p1 per
    by (simp add: sync_dir_entry_def entries_per_sec_def sync_loop.simps(2) [of 139, simplified] sizeof_dir_entry_def Let_def)
  then show thesis
  proof (rule that)
    show "ide_ready ?hdd ?s3"
      using s2(3) by (simp add: add_to_size_def)
    show "drive ?hdd ?s3 = (drive ?hdd s)(b := overwrite bs (24 * m) p_de)"
      using s2(4) d1 nl by (simp add: add_to_size_def)
  qed (use f2 in \<open>simp_all add: add_to_size_def upd_inode_def\<close>)
qed

lemma le32_some: "i + 4 \<le> length bs \<Longrightarrow> \<exists>w. le32 bs i = Some w"
  by (simp add: le32_def)

lemma read_sector:
  assumes "ide_ready hdd s" and "lba \<le> max_lba"
  shows "\<exists>s'. ide_read hdd lba 1 s = Some (drive hdd s lba, s')"
proof -
  have "unat lba + 1 \<le> unat max_lba + 1"
    using assms(2) by (simp add: word_le_nat_alt)
  then show ?thesis
    using ide_read_ok [OF assms(1), of 1 lba] by (auto simp: sectors_def)
qed

lemma search_blocks_hit:
  assumes "b \<noteq> 0" and "ide_read (part_disk q s) b 1 s = Some (bs, s')" and "search_entries bs cnt 0 nm = Some (Some k)"
  shows "search_blocks q (b # blocks) cnt nm s = Some (Some (bs, k), s')"
  using assms by simp

section \<open>Properties\<close>

text \<open>
  C32. The path of the working directory. \<^verbatim>\<open>sys_getcwd\<close> collects the names from the working directory up to the root; its
  second loop then returns, for every number of names, and leaves in the cleared buffer the same names in the opposite
  order, each behind a slash: the absolute path.
\<close>

theorem reverse_path_reverses:
  assumes "terminated full 0" and "cstr full 0 = join cs" and "\<forall>c\<in>set cs. 47 \<notin> set c"
    and "length (join cs) < n"
  shows "\<exists>bf'. reverse_path full (replicate n 0) = Some bf' \<and> length bf' = n \<and> terminated bf' 0 \<and> cstr bf' 0 = join (rev cs)"
proof -
  have "cstr (replicate n 0) 0 = []" and "terminated (replicate n 0) 0"
    using assms(4) by (simp_all add: cstr_def terminated_def takeWhile_eq_Nil_iff)
  then show ?thesis
    using reverse_path_ok [OF assms(1-3), of "replicate n 0"] assms(4) by simp
qed

theorem reverse_path_reverses_witness:
  "\<exists>bf'. reverse_path [47, 99, 47, 97, 98, 0] (replicate 16 0) = Some bf' \<and> length bf' = 16 \<and> terminated bf' 0 \<and>
    cstr bf' 0 = [47, 97, 98, 47, 99]"
  using reverse_path_reverses [of "[47, 99, 47, 97, 98, 0]" "[[99], [97, 98]]" 16]
  by (simp add: cstr_def terminated_def join_def)

text \<open>
  The new position of a file. For an open descriptor, a valid \<^verbatim>\<open>whence\<close>, a file below two gigabytes and a sum that
  fits in 32 bits with sign, \<^verbatim>\<open>sys_lseek\<close> sets the position to the start, the old position or the size plus the
  offset when that lies within the file, and otherwise returns -1 and changes nothing. The position just
  behind the last byte is refused too.
\<close>

theorem sys_lseek_position:
  assumes "0 \<le> fd" and "fd_local2global (nat fd) s = Some f" and "f < length (file_table s)" and "whence \<in> {1, 2, 3}"
    and "x = file_table s ! f" and "n = i_size (inodes s (fd_inode x))" and "uint n < 2 ^ 31"
    and "p = (if whence = 1 then 0 else if whence = 2 then uint (fd_pos x) else uint n) + sint off" and "- (2 ^ 31) \<le> p" and "p < 2 ^ 31"
  shows "sys_lseek fd off whence s =
    (if 0 \<le> p \<and> p < uint n then Some (of_int p, s\<lparr>file_table := (file_table s)[f := x\<lparr>fd_pos := of_int p\<rparr>]\<rparr>) else Some (-1, s))"
proof -
  have p: "p = seek_base whence (file_table s ! f) (i_size (inodes s (fd_inode (file_table s ! f)))) + sint off"
    using assms(5,6,8) by (simp add: seek_base_def)
  then show ?thesis
    using sys_lseek_eq [OF assms(1-4)] assms(5-7,9,10) by (simp add: Let_def)
qed

definition seek_state :: fstate where
  "seek_state = sample_fstate\<lparr>tasks := (\<lambda>t. (tasks sample_fstate t)\<lparr>fd_table := [0, 1, 2, 5, -1, -1, -1, -1]\<rparr>)\<rparr>"

theorem sys_lseek_position_witness:
  "sys_lseek 3 (-8) 3 seek_state =
     Some (40, seek_state\<lparr>file_table := (file_table seek_state)[5 := \<lparr>fd_pos = 40, fd_flag = 0, fd_inode = 0\<rparr>]\<rparr>)"
  using sys_lseek_position [of 3 seek_state 5 3 "file_table seek_state ! 5" 48 40 "-8"]
  by (simp add: seek_state_def fd_local2global_def MAX_FILE_OPEN_def sample_inode_def)

text \<open>
  C39. Deleting an entry of a directory that has no table of further blocks does nothing: \<^verbatim>\<open>delete_dir_entry\<close> collects
  the twelve direct blocks, starts its search at the block behind them, finds none, and returns false with
  the disk and the inode as they were.
\<close>

theorem delete_dir_entry_misses_direct_blocks:
  assumes "length (i_sectors (inodes s (dir_inode (dirs s pdir)))) = 13" and "i_sectors (inodes s (dir_inode (dirs s pdir))) ! 12 = 0"
    and "dir_entry_size (sb (parts s q)) \<noteq> 0"
  shows "delete_dir_entry q pdir no io_buf s = Some (False, s)"
proof -
  let ?bs = "take 12 (i_sectors (inodes s (dir_inode (dirs s pdir)))) @ replicate 128 0"
  have "rd ?bs (12 + j) = Some 0" if "j < 128" for j
    using that assms(1) by (simp add: rd_def nth_append)
  then have "delete_loop 128 q a n 12 ?bs no io_buf s = Some (False, s)" for a n
    by (rule delete_loop_zeros)
  then show ?thesis
    using assms by (simp add: delete_dir_entry_def collect_blocks_def entries_per_sec_def Let_def)
qed

theorem delete_dir_entry_misses_direct_blocks_witness:
  "delete_dir_entry (Prim 0 1 0) 0x7000 3 (replicate 1024 0) sample_fstate = Some (False, sample_fstate)"
  using delete_dir_entry_misses_direct_blocks [of sample_fstate "0x7000" "Prim 0 1 0" 3 "replicate 1024 0"]
  by (simp add: sample_inode_def sample_part_def)



end
