(* ===== verification/Pid.thy ===== *)
theory Pid
  imports Sync
begin

text \<open>
  The pid pool of src/thread/thread.c: a bitmap of 1024 bits guarded by a lock. Pids are
  \<^verbatim>\<open>int16_t\<close>; with \<^verbatim>\<open>pid_start\<close> 1 they run from 1 to 1024, so the conversion never changes the value and
  they are integers here.
\<close>

section \<open>The routines\<close>

definition pid_pool_init :: "'a kstate_scheme \<Rightarrow> 'a kstate_scheme option" where
  "pid_pool_init s = do {
     b \<leftarrow> bitmap_init \<lparr>btmp_bytes_len = 128, bits = replicate 128 0\<rparr>;
     let s1 = s\<lparr>the_pid_pool := (the_pid_pool s)\<lparr>pid_start := 1, pid_bitmap := b\<rparr>\<rparr>;
     Some (lock_init (pid_lock (the_pid_pool s1)) s1)
   }"

definition allocate_pid :: "'a kstate_scheme \<Rightarrow> (int \<times> 'a kstate_scheme) option" where
  "allocate_pid s = do {
     s1 \<leftarrow> with_lock (pid_lock (the_pid_pool s)) s;
     bit_idx \<leftarrow> bitmap_scan (pid_bitmap (the_pid_pool s1)) 1;
     b \<leftarrow> bitmap_set (pid_bitmap (the_pid_pool s1)) (nat (bit_idx mod 2 ^ 32)) 1;
     let s2 = s1\<lparr>the_pid_pool := (the_pid_pool s1)\<lparr>pid_bitmap := b\<rparr>\<rparr>;
     s3 \<leftarrow> lock_release (pid_lock (the_pid_pool s2)) s2;
     Some (bit_idx + pid_start (the_pid_pool s3), s3)
   }"

definition release_pid :: "int \<Rightarrow> 'a kstate_scheme \<Rightarrow> 'a kstate_scheme option" where
  "release_pid p s = do {
     s1 \<leftarrow> with_lock (pid_lock (the_pid_pool s)) s;
     let bit_idx = p - pid_start (the_pid_pool s1);
     b \<leftarrow> bitmap_set (pid_bitmap (the_pid_pool s1)) (nat (bit_idx mod 2 ^ 32)) 0;
     let s2 = s1\<lparr>the_pid_pool := (the_pid_pool s1)\<lparr>pid_bitmap := b\<rparr>\<rparr>;
     lock_release (pid_lock (the_pid_pool s2)) s2
   }"

definition fork_pid :: "'a kstate_scheme \<Rightarrow> (int \<times> 'a kstate_scheme) option" where
  "fork_pid s = allocate_pid s"

section \<open>The pool of pids\<close>

definition pid_ok :: "'a kstate_scheme \<Rightarrow> bool" where
  "pid_ok s \<longleftrightarrow> bm_wf (pid_bitmap (the_pid_pool s)) \<and> bm_cap (pid_bitmap (the_pid_pool s)) \<le> 2 ^ 15 - 2 \<and>
     pid_start (the_pid_pool s) = 1 \<and> lock_free (pid_lock (the_pid_pool s)) s"

definition pids_used :: "'a kstate_scheme \<Rightarrow> int set" where
  "pids_used s = (\<lambda>i. int i + 1) ` bm_used (pid_bitmap (the_pid_pool s))"

definition pids_left :: "'a kstate_scheme \<Rightarrow> nat set" where
  "pids_left s = bm_used (pid_bitmap (the_pid_pool s))"

definition set_pid_bitmap :: "bitmap \<Rightarrow> 'a kstate_scheme \<Rightarrow> 'a kstate_scheme" where
  "set_pid_bitmap b s = s\<lparr>the_pid_pool := (the_pid_pool s)\<lparr>pid_bitmap := b\<rparr>\<rparr>"

lemma locked_pool [simp]: "the_pid_pool (locked l s) = the_pid_pool s"
  by (simp add: locked_def)

lemma unlock_after:
  assumes "lock_free l s"
  shows "lock_release l ((locked l s)\<lparr>the_pid_pool := P\<rparr>) = Some (s\<lparr>the_pid_pool := P\<rparr>)"
proof -
  have "lock_mine l ((locked l s)\<lparr>the_pid_pool := P\<rparr>)"
    using locked_mine [OF assms] by (simp add: lock_mine_def)
  moreover have "unlocked l ((locked l s)\<lparr>the_pid_pool := P\<rparr>) = s\<lparr>the_pid_pool := P\<rparr>"
    using assms by (simp add: lock_free_def unlocked_def locked_def fun_upd_idem)
  ultimately show ?thesis
    by (simp add: lock_release_mine)
qed

lemma allocate_pid_eq:
  assumes ok: "pid_ok s"
  shows "allocate_pid s = (case scan_and_set (pid_bitmap (the_pid_pool s)) of None \<Rightarrow> None
    | Some (i, b) \<Rightarrow> Some (int i + 1, set_pid_bitmap b s))"
proof -
  let ?b = "pid_bitmap (the_pid_pool s)"
  have free: "lock_free (pid_lock (the_pid_pool s)) s" and wf: "bm_wf ?b"
    and cap: "bm_cap ?b \<le> 2 ^ 15 - 2" and st: "pid_start (the_pid_pool s) = 1"
    using ok by (simp_all add: pid_ok_def)
  show ?thesis
  proof (cases "bitmap_scan ?b 1")
    case None
    then show ?thesis
      using free by (simp add: allocate_pid_def with_lock_free scan_and_set_def)
  next
    case (Some j)
    then obtain i b' where i: "scan_and_set ?b = Some (i, b')" "j = int i" "i < bm_cap ?b" "bitmap_set ?b i 1 = Some b'"
    proof -
      have "bm_used ?b \<noteq> {..<bm_cap ?b}"
        using bitmap_scan_full [OF wf, of 1] Some by (auto simp: bm_used_full)
      then show thesis
        using scan_and_set_eq [OF wf] Some that by auto
    qed
    then have "int i mod 2 ^ 32 = int i"
      using cap by (intro mod_pos_pos_trivial) auto
    then show ?thesis
      using free Some i st unlock_after [OF free]
      by (simp add: allocate_pid_def with_lock_free set_pid_bitmap_def Let_def)
  qed
qed

lemma pid_ok_set_bitmap:
  "pid_ok s \<Longrightarrow> bm_wf b \<Longrightarrow> bm_cap b = bm_cap (pid_bitmap (the_pid_pool s)) \<Longrightarrow> pid_ok (set_pid_bitmap b s)"
  by (simp add: pid_ok_def set_pid_bitmap_def lock_free_def)

lemma release_pid_eq:
  assumes ok: "pid_ok s" and i: "i < bm_cap (pid_bitmap (the_pid_pool s))"
  shows "release_pid (int i + 1) s =
    (case bitmap_set (pid_bitmap (the_pid_pool s)) i 0 of None \<Rightarrow> None | Some b \<Rightarrow> Some (set_pid_bitmap b s))"
proof -
  have free: "lock_free (pid_lock (the_pid_pool s)) s" and st: "pid_start (the_pid_pool s) = 1"
    and cap: "bm_cap (pid_bitmap (the_pid_pool s)) \<le> 2 ^ 15 - 2"
    using ok by (simp_all add: pid_ok_def)
  have "int i mod 2 ^ 32 = int i"
    using i cap by (intro mod_pos_pos_trivial) auto
  then show ?thesis
    using free st unlock_after [OF free]
    by (simp add: release_pid_def with_lock_free set_pid_bitmap_def Let_def split: option.split)
qed

text \<open>The pid pool is a pool of indices, the pid being the index plus one.\<close>

definition pid_alloc :: "'a kstate_scheme \<Rightarrow> (nat \<times> 'a kstate_scheme) option" where
  "pid_alloc s = map_option (\<lambda>(p, s'). (nat (p - 1), s')) (allocate_pid s)"

interpretation pid_indices: index_pool pid_ok pids_left "\<lambda>s. bm_cap (pid_bitmap (the_pid_pool s))"
  pid_alloc "\<lambda>s i. release_pid (int i + 1) s"
proof unfold_locales
  show "pid_ok s \<Longrightarrow> pids_left s \<subseteq> {..<bm_cap (pid_bitmap (the_pid_pool s))}" for s :: "'a kstate_scheme"
    using bitmap_pool.used_bound by (auto simp: pid_ok_def pids_left_def)
  show "pid_ok s' \<and> bm_cap (pid_bitmap (the_pid_pool s')) = bm_cap (pid_bitmap (the_pid_pool s)) \<and>
      i < bm_cap (pid_bitmap (the_pid_pool s)) \<and> i \<notin> pids_left s \<and> pids_left s' = insert i (pids_left s)"
    if ok: "pid_ok s" and a: "pid_alloc s = Some (i, s')" for s s' :: "'a kstate_scheme" and i
  proof -
    obtain b where b: "scan_and_set (pid_bitmap (the_pid_pool s)) = Some (i, b)" "s' = set_pid_bitmap b s"
      using a ok by (auto simp: pid_alloc_def allocate_pid_eq split: option.splits)
    have "bm_wf (pid_bitmap (the_pid_pool s))"
      using ok by (simp add: pid_ok_def)
    from bitmap_pool.alloc_step [OF this b(1)] show ?thesis
      using pid_ok_set_bitmap [OF ok, of b] by (simp add: b(2) pids_left_def set_pid_bitmap_def)
  qed
  show "pid_alloc s \<noteq> None" if ok: "pid_ok s"
    and u: "pids_left s \<noteq> {..<bm_cap (pid_bitmap (the_pid_pool s))}" for s :: "'a kstate_scheme"
    using bitmap_pool.alloc_total [of "pid_bitmap (the_pid_pool s)"] ok u
    by (auto simp: pid_alloc_def allocate_pid_eq pids_left_def pid_ok_def split: option.splits)
  show "\<exists>s'. release_pid (int i + 1) s = Some s' \<and> pid_ok s' \<and>
      bm_cap (pid_bitmap (the_pid_pool s')) = bm_cap (pid_bitmap (the_pid_pool s)) \<and>
      pids_left s' = pids_left s - {i}"
    if ok: "pid_ok s" and i: "i < bm_cap (pid_bitmap (the_pid_pool s))" for s :: "'a kstate_scheme" and i
  proof -
    have "bm_wf (pid_bitmap (the_pid_pool s))"
      using ok by (simp add: pid_ok_def)
    from bitmap_pool.release_step [OF this i] show ?thesis
      using pid_ok_set_bitmap [OF ok] by (auto simp: release_pid_eq [OF ok i] pids_left_def set_pid_bitmap_def)
  qed
qed

section \<open>Properties\<close>

lemma pid_pool_init_ok:
  assumes "cur s \<noteq> NULL"
  obtains s' where "pid_pool_init s = Some s'" and "pid_ok s'" and "pids_left s' = {}"
    and "bm_cap (pid_bitmap (the_pid_pool s')) = 1024"
proof -
  have b: "bitmap_init \<lparr>btmp_bytes_len = 128, bits = replicate 128 0\<rparr> =
      Some \<lparr>btmp_bytes_len = 128, bits = replicate 128 0\<rparr>"
    by (simp add: bitmap_init_def memset_eq)
  let ?b = "\<lparr>btmp_bytes_len = 128, bits = replicate 128 0\<rparr> :: bitmap"
  let ?s = "lock_init (pid_lock (the_pid_pool s))
    (s\<lparr>the_pid_pool := (the_pid_pool s)\<lparr>pid_start := 1, pid_bitmap := ?b\<rparr>\<rparr>)"
  have u: "bm_wf ?b" "bm_cap ?b = 1024" "bm_used ?b = {}"
    by (auto simp: bm_wf_def bm_cap_def bm_used_def bm_bit_def)
  have p: "the_pid_pool ?s = (the_pid_pool s)\<lparr>pid_start := 1, pid_bitmap := ?b\<rparr>"
    by (simp add: lock_init_def sema_init_def set_lock_def set_sema_value_def Let_def)
  have "list_empty q (list_init q h)" for q h
    using list_empty_rep [OF list_init_rep] by simp
  then have "lock_free (pid_lock (the_pid_pool s)) ?s"
    using assms by (simp add: lock_free_def lock_init_def sema_init_def set_lock_def set_sema_value_def Let_def)
  then have "pid_ok ?s" "pids_left ?s = {}" "bm_cap (pid_bitmap (the_pid_pool ?s)) = 1024"
    by (simp_all add: pid_ok_def pids_left_def p u)
  moreover have "pid_pool_init s = Some ?s"
    by (simp add: pid_pool_init_def b)
  ultimately show thesis
    using that by blast
qed



text \<open>
  A pid that is given back can be handed out again and no other pid is affected: allocating and
  then releasing leaves the set of pids in use as it was.
\<close>

theorem pid_release_restores:
  assumes "pid_ok s" and "allocate_pid s = Some (p, s1)"
  shows "\<exists>s2. release_pid p s1 = Some s2 \<and> pid_ok s2 \<and> pids_used s2 = pids_used s \<and> p \<notin> pids_used s"
proof -
  obtain i where p: "p = int i + 1" and a: "pid_alloc s = Some (i, s1)"
    using assms by (auto simp: pid_alloc_def allocate_pid_eq split: option.splits)
  obtain s2 where "release_pid (int i + 1) s1 = Some s2" "pid_ok s2" "pids_left s2 = pids_left s"
    by (rule pid_indices.alloc_release [OF assms(1) a])
  moreover have "i \<notin> pids_left s"
    using pid_indices.alloc_step [OF assms(1) a] by simp
  ultimately show ?thesis
    by (auto simp: p pids_used_def pids_left_def)
qed

definition sample_pids :: kstate where
  "sample_pids = sample_kstate\<lparr>the_pid_pool := \<lparr>pid_bitmap = \<lparr>btmp_bytes_len = 1, bits = [3]\<rparr>, pid_start = 1, pid_lock = 0x500\<rparr>\<rparr>"

lemma sample_pids_ok: "pid_ok sample_pids"
proof -
  have "list_empty 0x508 sample_links"
    using lists_empty [OF sample_lists, where q = "0x508"] by (simp add: sample_queues_def)
  then show ?thesis
    by (simp add: pid_ok_def sample_pids_def sample_kstate_def lock_free_def bm_wf_def bm_cap_def
        sema_waiters_def lock_semaphore_def NULL_def)
qed

lemma sample_pids_alloc: "\<exists>s1. allocate_pid sample_pids = Some (3, s1)"
proof -
  have "scan_and_set \<lparr>btmp_bytes_len = 1, bits = [3]\<rparr> = Some (2, \<lparr>btmp_bytes_len = 1, bits = [7]\<rparr>)"
    by code_simp
  then have "\<exists>b. scan_and_set (pid_bitmap (the_pid_pool sample_pids)) = Some (2, b)"
    by (simp add: sample_pids_def)
  then show ?thesis
    by (auto simp: allocate_pid_eq [OF sample_pids_ok])
qed

theorem pid_release_restores_witness:
  "\<exists>s1 s2. allocate_pid sample_pids = Some (3, s1) \<and> release_pid 3 s1 = Some s2 \<and> pid_ok s2 \<and>
     pids_used s2 = pids_used sample_pids \<and> 3 \<notin> pids_used sample_pids"
proof -
  obtain s1 where "allocate_pid sample_pids = Some (3, s1)"
    using sample_pids_alloc by blast
  then show ?thesis
    using pid_release_restores [OF sample_pids_ok] by blast
qed

end
