(* ===== verification/Task.thy ===== *)
theory Task
  imports Fs Pid
begin

text \<open>
  The life of threads, src/thread/thread.c: creating, starting and ending them, finding them by their pid, and the
  listing of \<^verbatim>\<open>ps\<close>. The kernel state is extended by the frames that lie on kernel stacks: a \<^verbatim>\<open>struct thread_stack\<close> or
  \<^verbatim>\<open>struct intr_stack\<close> at address \<open>a\<close> is \<open>thread_stacks s a\<close> or \<open>intr_stacks s a\<close>. The pointer \<^verbatim>\<open>user_vaddr.vaddr_bitmap.bits\<close> of the thread at \<open>t\<close> is
  \<open>vaddr_bits s t\<close>, the bytes it points at are in the bitmap of the thread. Code is known by name: \<open>Code a\<close> is a function at address \<open>a\<close>.
\<close>

section \<open>State\<close>

datatype code_ptr = Kernel_thread | Intr_exit | Start_process | Idle | Code u32

record thread_stack =
  ts_ebp :: u32
  ts_ebx :: u32
  ts_edi :: u32
  ts_esi :: u32
  ts_eip :: code_ptr
  ts_retaddr :: u32
  ts_function :: code_ptr
  ts_func_arg :: u32

record intr_stack =
  vec_no :: u32
  is_edi :: u32
  is_esi :: u32
  is_ebp :: u32
  esp_dummy :: u32
  is_ebx :: u32
  is_edx :: u32
  is_ecx :: u32
  is_eax :: u32
  is_gs :: u32
  is_fs :: u32
  is_es :: u32
  is_ds :: u32
  err_code :: u32
  is_eip :: code_ptr
  is_cs :: u32
  is_eflags :: u32
  is_esp :: u32
  is_ss :: u32

record pstate = fstate +
  thread_stacks :: "addr \<Rightarrow> thread_stack"
  intr_stacks :: "addr \<Rightarrow> intr_stack"
  vaddr_bits :: "addr \<Rightarrow> addr"

definition sizeof_thread_stack :: u32 where "sizeof_thread_stack = 32"
definition sizeof_intr_stack :: u32 where "sizeof_intr_stack = 76"
definition sizeof_task_struct :: u32 where "sizeof_task_struct = 280"

text \<open>The offset of \<^verbatim>\<open>u_block_desc\<close> in \<^verbatim>\<open>struct task_struct\<close>.\<close>

definition u_descs_addr :: "addr \<Rightarrow> addr" where
  "u_descs_addr t = t + 68"

section \<open>The first steps of threads\<close>

text \<open>A new thread starts in \<^verbatim>\<open>kernel_thread\<close>: with interrupts on it goes to the function with the argument.\<close>

definition kernel_thread :: "code_ptr \<Rightarrow> u32 \<Rightarrow> 'a kstate_scheme \<Rightarrow> code_ptr \<times> u32 \<times> 'a kstate_scheme" where
  "kernel_thread func func_arg s = (func, func_arg, snd (intr_enable s))"

text \<open>
  One turn of the idle thread up to the point where it has given up the processor, and what it does when it is woken: interrupts are on while the
  processor halts.
\<close>

definition idle :: "'a kstate_scheme \<Rightarrow> 'a kstate_scheme option" where
  "idle s = thread_block TASK_BLOCKED s"

definition idle_resume :: "'a kstate_scheme \<Rightarrow> 'a kstate_scheme" where
  "idle_resume s = s\<lparr>intr := INTR_ON\<rparr>"

section \<open>Creating threads\<close>

text \<open>\<^verbatim>\<open>self_kstack\<close> is a pointer to words: subtracting a size in bytes moves it by four times as many bytes.\<close>

definition thread_create :: "addr \<Rightarrow> code_ptr \<Rightarrow> u32 \<Rightarrow> 'a pstate_scheme \<Rightarrow> 'a pstate_scheme" where
  "thread_create pthread func func_arg s =
     (let s1 = upd_task pthread (\<lambda>t. t\<lparr>self_kstack := self_kstack t - 4 * sizeof_intr_stack\<rparr>) s;
          s2 = upd_task pthread (\<lambda>t. t\<lparr>self_kstack := self_kstack t - 4 * sizeof_thread_stack\<rparr>) s1;
          k = self_kstack (tasks s2 pthread)
      in s2\<lparr>thread_stacks := (thread_stacks s2)(k := (thread_stacks s2 k)\<lparr>ts_eip := Kernel_thread, ts_function := func,
           ts_func_arg := func_arg, ts_ebp := 0, ts_ebx := 0, ts_esi := 0, ts_edi := 0\<rparr>)\<rparr>)"

definition zero_task :: task_struct where
  "zero_task = \<lparr>self_kstack = 0, pid = 0, status = TASK_RUNNING, name = replicate TASK_NAME_LEN 0, priority = 0, ticks = 0,
     elapsed_ticks = 0, pgdir = NULL, user_vaddr = \<lparr>vaddr_bitmap = \<lparr>btmp_bytes_len = 0, bits = []\<rparr>, vaddr_start = 0\<rparr>,
     u_block_desc = replicate DESC_CNT \<lparr>block_size = 0, blocks_per_arena = 0, free_list = 0\<rparr>,
     fd_table = replicate MAX_FILES_OPEN_PER_PROC 0, cwd_inode_nr = 0, parent_pid = 0, exit_status = 0, stack_magic = 0\<rparr>"

text \<open>\<^verbatim>\<open>memset(pthread, 0, sizeof(*pthread))\<close>\<close>

definition clear_task :: "addr \<Rightarrow> 'a pstate_scheme \<Rightarrow> 'a pstate_scheme" where
  "clear_task pthread s = (upd_task pthread (\<lambda>_. zero_task) (mem_zero pthread sizeof_task_struct s))\<lparr>vaddr_bits := (vaddr_bits s)(pthread := NULL)\<rparr>"

text \<open>\<^verbatim>\<open>while (fd_idx < MAX_FILES_OPEN_PER_PROC) fd_table[fd_idx++] = -1;\<close>\<close>

fun close_fds :: "nat \<Rightarrow> nat \<Rightarrow> int list \<Rightarrow> int list option" where
  "close_fds 0 fd_idx t = Some t"
| "close_fds (Suc m) fd_idx t = do {
     t1 \<leftarrow> wr t fd_idx (-1);
     close_fds m (Suc fd_idx) t1
   }"

definition init_thread :: "addr \<Rightarrow> u8 list \<Rightarrow> int \<Rightarrow> 'a pstate_scheme \<Rightarrow> 'a pstate_scheme option" where
  "init_thread pthread nm prio s = do {
     (p, s1) \<leftarrow> allocate_pid (clear_task pthread s);
     let s2 = upd_task pthread (pid_update (\<lambda>_. p)) s1;
     n \<leftarrow> strcpy (name (tasks s2 pthread)) 0 nm 0;
     let s3 = upd_task pthread (\<lambda>t. t\<lparr>name := n, status := (if pthread = main_thread s2 then TASK_RUNNING else TASK_READY)\<rparr>) s2;
     let s4 = upd_task pthread (\<lambda>t. t\<lparr>self_kstack := pthread + PG_SIZE, priority := of_int prio, ticks := of_int prio,
       elapsed_ticks := 0, pgdir := NULL\<rparr>) s3;
     t0 \<leftarrow> wr (fd_table (tasks s4 pthread)) 0 0;
     t1 \<leftarrow> wr t0 1 1;
     t2 \<leftarrow> wr t1 2 2;
     t3 \<leftarrow> close_fds (MAX_FILES_OPEN_PER_PROC - 3) 3 t2;
     Some (upd_task pthread (\<lambda>t. t\<lparr>fd_table := t3, cwd_inode_nr := 0, parent_pid := -1, stack_magic := 0x19870916\<rparr>) s4)
   }"

text \<open>The end of \<^verbatim>\<open>thread_start\<close>, \<^verbatim>\<open>process_execute\<close> and \<^verbatim>\<open>sys_fork\<close>: the thread joins both queues.\<close>

definition join_ready :: "addr \<Rightarrow> 'a kstate_scheme \<Rightarrow> 'a kstate_scheme option" where
  "join_ready t s = do {
     found \<leftarrow> elem_find (thread_ready_list s) (general_tag t) (lnks s);
     ASSERT (\<not> found);
     Some (s\<lparr>lnks := list_append (thread_ready_list s) (general_tag t) (lnks s)\<rparr>)
   }"

definition join_all :: "addr \<Rightarrow> 'a kstate_scheme \<Rightarrow> 'a kstate_scheme option" where
  "join_all t s = do {
     found \<leftarrow> elem_find (thread_all_list s) (all_list_tag t) (lnks s);
     ASSERT (\<not> found);
     Some (s\<lparr>lnks := list_append (thread_all_list s) (all_list_tag t) (lnks s)\<rparr>)
   }"

text \<open>\<^verbatim>\<open>thread_start\<close> once it has the page of the thread.\<close>

definition thread_launch :: "addr \<Rightarrow> u8 list \<Rightarrow> int \<Rightarrow> code_ptr \<Rightarrow> u32 \<Rightarrow> 'a pstate_scheme \<Rightarrow> 'a pstate_scheme option" where
  "thread_launch thread nm prio func func_arg s = do {
     s1 \<leftarrow> init_thread thread nm prio s;
     s2 \<leftarrow> join_ready thread (thread_create thread func func_arg s1);
     join_all thread s2
   }"

definition thread_start :: "u8 list \<Rightarrow> int \<Rightarrow> code_ptr \<Rightarrow> u32 \<Rightarrow> 'a pstate_scheme \<Rightarrow> (addr \<times> 'a pstate_scheme) option" where
  "thread_start nm prio func func_arg s = do {
     (thread, s1) \<leftarrow> get_kernel_pages 1 s;
     s2 \<leftarrow> thread_launch thread nm prio func func_arg s1;
     Some (thread, s2)
   }"

definition make_main_thread :: "'a pstate_scheme \<Rightarrow> 'a pstate_scheme option" where
  "make_main_thread s = do {
     let s1 = s\<lparr>main_thread := running_thread s\<rparr>;
     s2 \<leftarrow> init_thread (main_thread s1) (str_bytes ''main'' @ [0]) 31 s1;
     join_all (main_thread s2) s2
   }"

section \<open>Ending and finding threads\<close>

text \<open>
  \<^verbatim>\<open>thread_over->pid\<close> is read after the page of the thread has been given back; what it held is still in \<open>tasks\<close>. With \<open>need_schedule\<close> another
  thread has the processor afterwards.
\<close>

definition thread_exit :: "addr \<Rightarrow> bool \<Rightarrow> 'a mstate_scheme \<Rightarrow> 'a mstate_scheme option" where
  "thread_exit thread_over need_schedule s0 = do {
     let s = snd (intr_disable s0);
     let s1 = upd_task thread_over (status_update (\<lambda>_. TASK_DIED)) s;
     found \<leftarrow> elem_find (thread_ready_list s1) (general_tag thread_over) (lnks s1);
     let s2 = (if found then s1\<lparr>lnks := list_remove (general_tag thread_over) (lnks s1)\<rparr> else s1);
     s3 \<leftarrow> (if pgdir (tasks s2 thread_over) \<noteq> NULL then mfree_page PF_KERNEL (pgdir (tasks s2 thread_over)) 1 s2 else Some s2);
     let s4 = s3\<lparr>lnks := list_remove (all_list_tag thread_over) (lnks s3)\<rparr>;
     s5 \<leftarrow> (if thread_over \<noteq> main_thread s4 then mfree_page PF_KERNEL thread_over 1 s4 else Some s4);
     s6 \<leftarrow> release_pid (pid (tasks s5 thread_over)) s5;
     if need_schedule then schedule INTR_OFF s6 else Some s6
   }"

definition pid_check :: "int \<Rightarrow> addr \<Rightarrow> 'a kstate_scheme \<Rightarrow> bool \<times> 'a kstate_scheme" where
  "pid_check p pelem s = (pid (tasks s (all_list_tag_entry pelem)) = p, s)"

definition pid2thread :: "int \<Rightarrow> 'a kstate_scheme \<Rightarrow> addr option" where
  "pid2thread p s = do {
     (pelem, _) \<leftarrow> list_traversal lnks (thread_all_list s) (pid_check p) s;
     Some (if pelem = NULL then NULL else all_list_tag_entry pelem)
   }"

section \<open>The list of threads\<close>

text \<open>
  The values that \<^verbatim>\<open>pad_print\<close> reads through its pointer: for the format \<^verbatim>\<open>d\<close> the 16-bit number and, because that case falls
  through to the next one, the 32-bit word at the same place.
\<close>

datatype pad_arg = Pad_s "u8 list" | Pad_d int u32 | Pad_x u32

fun pad_spaces :: "nat \<Rightarrow> nat \<Rightarrow> u8 list \<Rightarrow> u8 list option" where
  "pad_spaces 0 i b = Some b"
| "pad_spaces (Suc m) i b = do {
     b1 \<leftarrow> wr b i 32;
     pad_spaces m (Suc i) b1
   }"

definition pad_text :: "u8 list \<Rightarrow> nat \<Rightarrow> pad_arg \<Rightarrow> u8 list option" where
  "pad_text bf buf_len a = do {
     b0 \<leftarrow> memset bf 0 0 buf_len;
     (n, b1) \<leftarrow> (case a of Pad_s t \<Rightarrow> sprintf b0 (str_bytes ''%s'' @ [0]) [AStr t]
       | Pad_d v w \<Rightarrow> do {
           (_, b) \<leftarrow> sprintf b0 (str_bytes ''%d'' @ [0]) [AInt (of_int v)];
           sprintf b (str_bytes ''%x'' @ [0]) [AInt w]
         }
       | Pad_x w \<Rightarrow> sprintf b0 (str_bytes ''%x'' @ [0]) [AInt w]);
     let out_pad_0idx = n mod 256;
     pad_spaces (buf_len - out_pad_0idx) out_pad_0idx b1
   }"

definition pad_print :: "u8 list \<Rightarrow> nat \<Rightarrow> pad_arg \<Rightarrow> 'a fstate_scheme \<Rightarrow> (u8 list \<times> 'a fstate_scheme) option" where
  "pad_print bf buf_len a s = do {
     b \<leftarrow> pad_text bf buf_len a;
     (_, s1) \<leftarrow> sys_write 1 b (of_nat (buf_len - 1)) s;
     Some (b, s1)
   }"

definition status_name :: "task_status \<Rightarrow> string" where
  "status_name st = (case st of TASK_RUNNING \<Rightarrow> ''RUNNING'' | TASK_READY \<Rightarrow> ''READY'' | TASK_BLOCKED \<Rightarrow> ''BLOCKED''
     | TASK_WAITING \<Rightarrow> ''WAITING'' | TASK_HANGING \<Rightarrow> ''HANGING'' | TASK_DIED \<Rightarrow> ''DIED'')"

text \<open>
  The words at \<^verbatim>\<open>&pid\<close> and \<^verbatim>\<open>&parent_pid\<close>: the first is followed by two bytes of padding, which are zero, the second by the byte of
  \<^verbatim>\<open>exit_status\<close> and a byte of padding.
\<close>

definition pid_word :: "task_struct \<Rightarrow> u32" where
  "pid_word t = ucast (of_int (pid t) :: u16)"

definition parent_word :: "task_struct \<Rightarrow> u32" where
  "parent_word t = ucast (of_int (parent_pid t) :: u16) OR push_bit 16 (ucast (of_int (exit_status t) :: u8))"

definition elem2thread_info :: "addr \<Rightarrow> 'a fstate_scheme \<Rightarrow> 'a fstate_scheme option" where
  "elem2thread_info pelem s = do {
     let t = tasks s (all_list_tag_entry pelem);
     let out_pad = replicate 16 0;
     (o1, s1) \<leftarrow> pad_print out_pad 16 (Pad_d (pid t) (pid_word t)) s;
     (o2, s2) \<leftarrow> (if parent_pid t = -1 then pad_print o1 16 (Pad_s (str_bytes ''NULL'' @ [0])) s1
                 else pad_print o1 16 (Pad_d (parent_pid t) (parent_word t)) s1);
     (o3, s3) \<leftarrow> pad_print o2 16 (Pad_s (str_bytes (status_name (status t)) @ [0])) s2;
     (o4, s4) \<leftarrow> pad_print o3 16 (Pad_x (elapsed_ticks t)) s3;
     o5 \<leftarrow> memset o4 0 0 16;
     len \<leftarrow> strlen (name t) 0;
     ASSERT (len < 17);
     o6 \<leftarrow> memcpy o5 0 (name t) 0 len;
     o7 \<leftarrow> strcat o6 0 [10, 0] 0;
     n \<leftarrow> strlen o7 0;
     (_, s5) \<leftarrow> sys_write 1 o7 (of_nat n) s4;
     Some s5
   }"

partial_function (option) ps_loop :: "addr \<Rightarrow> addr \<Rightarrow> 'a fstate_scheme \<Rightarrow> 'a fstate_scheme option" where
  "ps_loop tail elem s =
     (if elem \<noteq> tail then Option.bind (elem2thread_info elem s) (\<lambda>s1. ps_loop tail (lnext (lnks s1) elem) s1) else Some s)"

definition sys_ps :: "'a fstate_scheme \<Rightarrow> 'a fstate_scheme option" where
  "sys_ps s = do {
     let ps_title = str_bytes ''PID            PPID           STAT           TICKS          COMMAND'' @ [10, 0];
     n \<leftarrow> strlen ps_title 0;
     (_, s1) \<leftarrow> sys_write 1 ps_title (of_nat n) s;
     ps_loop (list_tail (thread_all_list s1)) (lnext (lnks s1) (list_head (thread_all_list s1))) s1
   }"

end
