(* ===== verification/Process.thy ===== *)
theory Process
  imports Task
begin

text \<open>
  Processes: src/user/process.c, src/user/fork.c and src/user/wait_exit.c. The contents of user pages and page directories are words of
  \<open>phys\<close>, read and written at virtual addresses through the page tables that \<^verbatim>\<open>cr3\<close> selects, so that copying a page from one process to
  another is done the way the code does it, by switching \<^verbatim>\<open>cr3\<close>. Calls that fail stop with \<open>-1\<close> or the null pointer as in the code.
\<close>

section \<open>Words at virtual addresses\<close>

fun zero_words :: "nat \<Rightarrow> u32 \<Rightarrow> 'a kstate_scheme \<Rightarrow> 'a kstate_scheme option" where
  "zero_words 0 v s = Some s"
| "zero_words (Suc n) v s = do {
     m \<leftarrow> vwrite (phys s) (cr3 s) v 0;
     zero_words n (v + 4) (s\<lparr>phys := m\<rparr>)
   }"

text \<open>\<^verbatim>\<open>memcpy\<close> of \<open>n\<close> words.\<close>

fun copy_words :: "nat \<Rightarrow> u32 \<Rightarrow> u32 \<Rightarrow> 'a kstate_scheme \<Rightarrow> 'a kstate_scheme option" where
  "copy_words 0 dst src s = Some s"
| "copy_words (Suc n) dst src s = do {
     x \<leftarrow> vread (phys s) (cr3 s) src;
     m \<leftarrow> vwrite (phys s) (cr3 s) dst x;
     copy_words n (dst + 4) (src + 4) (s\<lparr>phys := m\<rparr>)
   }"

text \<open>\<^verbatim>\<open>get_kernel_pages\<close> for pages whose words matter: its \<^verbatim>\<open>memset\<close> clears them.\<close>

definition get_cleared_pages :: "u32 \<Rightarrow> 'a mstate_scheme \<Rightarrow> (u32 \<times> 'a mstate_scheme) option" where
  "get_cleared_pages n s = do {
     (v, s1) \<leftarrow> get_kernel_pages n s;
     s2 \<leftarrow> (if v = NULL then Some s1 else zero_words (unat n * 1024) v s1);
     Some (v, s2)
   }"

section \<open>Creating processes\<close>

definition USER_STACK3_VADDR :: u32 where "USER_STACK3_VADDR = 0xc0000000 - 0x1000"
definition USER_VADDR_START :: u32 where "USER_VADDR_START = 0x8048000"
definition default_prio :: int where "default_prio = 31"
definition SELECTOR_U_CODE :: u32 where "SELECTOR_U_CODE = 5 * 8 + 3"
definition SELECTOR_U_DATA :: u32 where "SELECTOR_U_DATA = 6 * 8 + 3"
definition EFLAGS_MBS :: u32 where "EFLAGS_MBS = 2"
definition EFLAGS_IF_1 :: u32 where "EFLAGS_IF_1 = 512"

definition create_page_dir :: "'a mstate_scheme \<Rightarrow> (u32 \<times> 'a mstate_scheme) option" where
  "create_page_dir s = do {
     (page_dir_vaddr, s1) \<leftarrow> get_cleared_pages 1 s;
     if page_dir_vaddr = NULL then Some (NULL, s1)
     else do {
       s2 \<leftarrow> copy_words 256 (page_dir_vaddr + 0x300 * 4) (0xfffff000 + 0x300 * 4) s1;
       p \<leftarrow> addr_v2p (phys s2) (cr3 s2) page_dir_vaddr;
       m \<leftarrow> vwrite (phys s2) (cr3 s2) (page_dir_vaddr + 1023 * 4) (p OR PG_US_U OR PG_RW_W OR PG_P_1);
       Some (page_dir_vaddr, s2\<lparr>phys := m\<rparr>)
     }
   }"

text \<open>The length in bytes and in pages of the bitmap of a process.\<close>

definition user_bitmap_len :: u32 where
  "user_bitmap_len = (0xc0000000 - USER_VADDR_START) div PG_SIZE div 8"

definition user_bitmap_pages :: u32 where
  "user_bitmap_pages = DIV_ROUND_UP user_bitmap_len PG_SIZE"

definition set_vaddr_bits :: "addr \<Rightarrow> addr \<Rightarrow> 'a pstate_scheme \<Rightarrow> 'a pstate_scheme" where
  "set_vaddr_bits t v s = s\<lparr>vaddr_bits := (vaddr_bits s)(t := v)\<rparr>"

definition create_user_vaddr_bitmap :: "addr \<Rightarrow> 'a pstate_scheme \<Rightarrow> 'a pstate_scheme option" where
  "create_user_vaddr_bitmap user_prog s = do {
     (v, s1) \<leftarrow> get_kernel_pages user_bitmap_pages s;
     b \<leftarrow> bitmap_init \<lparr>btmp_bytes_len = unat user_bitmap_len, bits = replicate (unat (user_bitmap_pages * PG_SIZE)) 0\<rparr>;
     Some (set_vaddr_bits user_prog v (upd_task user_prog (user_vaddr_update (\<lambda>_. \<lparr>vaddr_bitmap = b, vaddr_start = USER_VADDR_START\<rparr>)) s1))
   }"

text \<open>\<^verbatim>\<open>start_process\<close> up to the jump to \<^verbatim>\<open>intr_exit\<close>; the result is the stack it jumps with.\<close>

definition start_process :: "u32 \<Rightarrow> 'a pstate_scheme \<Rightarrow> (addr \<times> 'a pstate_scheme) option" where
  "start_process filename s = do {
     let c = running_thread s;
     let s1 = upd_task c (\<lambda>t. t\<lparr>self_kstack := self_kstack t + 4 * sizeof_thread_stack\<rparr>) s;
     let k = self_kstack (tasks s1 c);
     (v, s2) \<leftarrow> get_a_page PF_USER USER_STACK3_VADDR s1;
     Some (k, s2\<lparr>intr_stacks := (intr_stacks s2)(k := (intr_stacks s2 k)\<lparr>is_edi := 0, is_esi := 0, is_ebp := 0, esp_dummy := 0,
       is_ebx := 0, is_edx := 0, is_ecx := 0, is_eax := 0, is_gs := 0, is_ds := SELECTOR_U_DATA, is_es := SELECTOR_U_DATA,
       is_fs := SELECTOR_U_DATA, is_eip := Code filename, is_cs := SELECTOR_U_CODE, is_eflags := EFLAGS_MBS OR EFLAGS_IF_1,
       is_esp := v + PG_SIZE, is_ss := SELECTOR_U_DATA\<rparr>)\<rparr>)
   }"

definition init_u_descs :: "addr \<Rightarrow> 'a kstate_scheme \<Rightarrow> 'a kstate_scheme" where
  "init_u_descs t s = (let (ds, l) = block_desc_init (u_descs_addr t) (lnks s) in upd_task t (u_block_desc_update (\<lambda>_. ds)) (s\<lparr>lnks := l\<rparr>))"

definition process_execute :: "u32 \<Rightarrow> u8 list \<Rightarrow> 'a pstate_scheme \<Rightarrow> 'a pstate_scheme option" where
  "process_execute filename nm s = do {
     (thread, s1) \<leftarrow> get_kernel_pages 1 s;
     s2 \<leftarrow> init_thread thread nm default_prio s1;
     s3 \<leftarrow> create_user_vaddr_bitmap thread s2;
     let s4 = thread_create thread Start_process filename s3;
     (d, s5) \<leftarrow> create_page_dir s4;
     let s6 = init_u_descs thread (upd_task thread (pgdir_update (\<lambda>_. d)) s5);
     let (old_status, s7) = intr_disable s6;
     s8 \<leftarrow> join_ready thread s7;
     s9 \<leftarrow> join_all thread s8;
     Some (snd (intr_set_status old_status s9))
   }"

text \<open>\<open>init\<close> is the address of the function of that name.\<close>

definition thread_init :: "u32 \<Rightarrow> 'a pstate_scheme \<Rightarrow> 'a pstate_scheme option" where
  "thread_init init s = do {
     let s1 = s\<lparr>lnks := list_init (thread_all_list s) (list_init (thread_ready_list s) (lnks s))\<rparr>;
     s2 \<leftarrow> pid_pool_init s1;
     s3 \<leftarrow> process_execute init (str_bytes ''init'' @ [0]) s2;
     s4 \<leftarrow> make_main_thread s3;
     (t, s5) \<leftarrow> thread_start (str_bytes ''idle'' @ [0]) 10 Idle NULL s4;
     Some (s5\<lparr>idle_thread := t\<rparr>)
   }"

section \<open>Fork\<close>

text \<open>\<^verbatim>\<open>memcpy(child_thread, parent_thread, PG_SIZE)\<close>: the thread, its list nodes and the frames on its kernel stack.\<close>

definition copy_pcb_page :: "addr \<Rightarrow> addr \<Rightarrow> 'a pstate_scheme \<Rightarrow> 'a pstate_scheme" where
  "copy_pcb_page child parent s =
     (let at = (\<lambda>x. x - child + parent); inside = (\<lambda>x. x - child < PG_SIZE) in
      s\<lparr>tasks := (tasks s)(child := tasks s parent), vaddr_bits := (vaddr_bits s)(child := vaddr_bits s parent),
        lnks := \<lparr>lprev = (\<lambda>x. if inside x then lprev (lnks s) (at x) else lprev (lnks s) x),
                 lnext = (\<lambda>x. if inside x then lnext (lnks s) (at x) else lnext (lnks s) x)\<rparr>,
        thread_stacks := (\<lambda>x. if inside x then thread_stacks s (at x) else thread_stacks s x),
        intr_stacks := (\<lambda>x. if inside x then intr_stacks s (at x) else intr_stacks s x)\<rparr>)"

definition clear_node :: "addr \<Rightarrow> links \<Rightarrow> links" where
  "clear_node a l = set_next a NULL (set_prev a NULL l)"

definition copy_pcb_vaddrbitmap_stack0 :: "addr \<Rightarrow> addr \<Rightarrow> 'a pstate_scheme \<Rightarrow> (int \<times> 'a pstate_scheme) option" where
  "copy_pcb_vaddrbitmap_stack0 child parent s = do {
     (p, s1) \<leftarrow> fork_pid (copy_pcb_page child parent s);
     let s2 = upd_task child (\<lambda>t. t\<lparr>pid := p, elapsed_ticks := 0, status := TASK_READY, ticks := priority t,
       parent_pid := pid (tasks s1 parent)\<rparr>) s1;
     let s3 = s2\<lparr>lnks := clear_node (all_list_tag child) (clear_node (general_tag child) (lnks s2))\<rparr>;
     let s4 = init_u_descs child s3;
     (vaddr_btmp, s5) \<leftarrow> get_kernel_pages user_bitmap_pages s4;
     if vaddr_btmp = NULL then Some (-1, s5)
     else do {
       let n = unat (user_bitmap_pages * PG_SIZE);
       b \<leftarrow> memcpy (replicate n 0) 0 (bits (vaddr_bitmap (user_vaddr (tasks s5 child)))) 0 n;
       let s6 = upd_task child (user_vaddr_update (vaddr_bitmap_update (bits_update (\<lambda>_. b)))) s5;
       let s7 = set_vaddr_bits child vaddr_btmp s6;
       len \<leftarrow> strlen (name (tasks s7 child)) 0;
       ASSERT (len < 11);
       nm \<leftarrow> strcat (name (tasks s7 child)) 0 (str_bytes ''_fork'' @ [0]) 0;
       Some (0, upd_task child (name_update (\<lambda>_. nm)) s7)
     }
   }"

text \<open>One page of the parent: read in its address space, written in that of the child.\<close>

definition copy_page :: "addr \<Rightarrow> addr \<Rightarrow> u32 \<Rightarrow> u32 \<Rightarrow> 'a mstate_scheme \<Rightarrow> 'a mstate_scheme option" where
  "copy_page child parent buf_page prog_vaddr s = do {
     s1 \<leftarrow> copy_words 1024 buf_page prog_vaddr s;
     s2 \<leftarrow> page_dir_activate child s1;
     (_, s3) \<leftarrow> get_a_page_without_opvaddrbitmap PF_USER prog_vaddr s2;
     s4 \<leftarrow> copy_words 1024 prog_vaddr buf_page s3;
     page_dir_activate parent s4
   }"

fun copy_bits :: "nat \<Rightarrow> nat \<Rightarrow> nat \<Rightarrow> u8 \<Rightarrow> addr \<Rightarrow> addr \<Rightarrow> u32 \<Rightarrow> u32 \<Rightarrow> 'a mstate_scheme \<Rightarrow> 'a mstate_scheme option" where
  "copy_bits 0 idx_bit idx_byte byte child parent start buf_page s = Some s"
| "copy_bits (Suc m) idx_bit idx_byte byte child parent start buf_page s = do {
     s1 \<leftarrow> (if push_bit idx_bit 1 AND byte \<noteq> 0
            then copy_page child parent buf_page (of_nat (idx_byte * 8 + idx_bit) * PG_SIZE + start) s else Some s);
     copy_bits m (Suc idx_bit) idx_byte byte child parent start buf_page s1
   }"

fun copy_bytes :: "nat \<Rightarrow> nat \<Rightarrow> u8 list \<Rightarrow> addr \<Rightarrow> addr \<Rightarrow> u32 \<Rightarrow> u32 \<Rightarrow> 'a mstate_scheme \<Rightarrow> 'a mstate_scheme option" where
  "copy_bytes 0 idx_byte btmp child parent start buf_page s = Some s"
| "copy_bytes (Suc m) idx_byte btmp child parent start buf_page s = do {
     byte \<leftarrow> rd btmp idx_byte;
     s1 \<leftarrow> (if byte \<noteq> 0 then copy_bits 8 0 idx_byte byte child parent start buf_page s else Some s);
     copy_bytes m (Suc idx_byte) btmp child parent start buf_page s1
   }"

definition copy_body_stack3 :: "addr \<Rightarrow> addr \<Rightarrow> u32 \<Rightarrow> 'a mstate_scheme \<Rightarrow> 'a mstate_scheme option" where
  "copy_body_stack3 child parent buf_page s = do {
     let uv = user_vaddr (tasks s parent);
     copy_bytes (btmp_bytes_len (vaddr_bitmap uv)) 0 (bits (vaddr_bitmap uv)) child parent (vaddr_start uv) buf_page s
   }"

definition intr_0_stack :: "addr \<Rightarrow> addr" where
  "intr_0_stack t = t + PG_SIZE - sizeof_intr_stack"

definition build_child_stack :: "addr \<Rightarrow> 'a pstate_scheme \<Rightarrow> 'a pstate_scheme" where
  "build_child_stack child s =
     (let i = intr_0_stack child; k = i - 5 * 4;
          s1 = s\<lparr>intr_stacks := (intr_stacks s)(i := (intr_stacks s i)\<lparr>is_eax := 0\<rparr>)\<rparr>;
          s2 = s1\<lparr>thread_stacks := (thread_stacks s1)(k := (thread_stacks s1 k)\<lparr>ts_eip := Intr_exit, ts_ebp := 0, ts_ebx := 0,
            ts_edi := 0, ts_esi := 0\<rparr>)\<rparr>
      in upd_task child (self_kstack_update (\<lambda>_. k)) s2)"

fun open_cnts_loop :: "nat \<Rightarrow> nat \<Rightarrow> addr \<Rightarrow> 'a fstate_scheme \<Rightarrow> 'a fstate_scheme option" where
  "open_cnts_loop 0 local_fd thread s = Some s"
| "open_cnts_loop (Suc m) local_fd thread s = do {
     global_fd \<leftarrow> rd (fd_table (tasks s thread)) local_fd;
     ASSERT (global_fd < int MAX_FILE_OPEN);
     s1 \<leftarrow> (if global_fd \<noteq> -1 then do {
          ASSERT (0 \<le> global_fd);
          x \<leftarrow> rd (file_table s) (nat global_fd);
          Some (upd_inode (fd_inode x) (\<lambda>i. i\<lparr>i_open_cnts := i_open_cnts i + 1\<rparr>) s)
        } else Some s);
     open_cnts_loop m (Suc local_fd) thread s1
   }"

definition update_inode_open_cnts :: "addr \<Rightarrow> 'a fstate_scheme \<Rightarrow> 'a fstate_scheme option" where
  "update_inode_open_cnts thread s = open_cnts_loop (MAX_FILES_OPEN_PER_PROC - 3) 3 thread s"

definition copy_process :: "addr \<Rightarrow> addr \<Rightarrow> 'a pstate_scheme \<Rightarrow> (int \<times> 'a pstate_scheme) option" where
  "copy_process child parent s = do {
     (buf_page, s1) \<leftarrow> get_kernel_pages 1 s;
     if buf_page = NULL then Some (-1, s1)
     else do {
       (r, s2) \<leftarrow> copy_pcb_vaddrbitmap_stack0 child parent s1;
       if r = -1 then Some (-1, s2)
       else do {
         (d, s3) \<leftarrow> create_page_dir s2;
         let s4 = upd_task child (pgdir_update (\<lambda>_. d)) s3;
         if d = NULL then Some (-1, s4)
         else do {
           s5 \<leftarrow> copy_body_stack3 child parent buf_page s4;
           let s6 = build_child_stack child s5;
           s7 \<leftarrow> update_inode_open_cnts child s6;
           s8 \<leftarrow> mfree_page PF_KERNEL buf_page 1 s7;
           Some (0, s8)
         }
       }
     }
   }"

definition sys_fork :: "'a pstate_scheme \<Rightarrow> (int \<times> 'a pstate_scheme) option" where
  "sys_fork s = do {
     let parent = running_thread s;
     (child, s1) \<leftarrow> get_kernel_pages 1 s;
     if child = NULL then Some (-1, s1)
     else do {
       ASSERT (intr_get_status s1 = INTR_OFF \<and> pgdir (tasks s1 parent) \<noteq> NULL);
       (r, s2) \<leftarrow> copy_process child parent s1;
       if r = -1 then Some (-1, s2)
       else do {
         s3 \<leftarrow> join_ready child s2;
         s4 \<leftarrow> join_all child s3;
         Some (pid (tasks s4 child), s4)
       }
     }
   }"

end
