(* ===== verification/Wait_Exit.thy ===== *)
theory Wait_Exit
  imports Process
begin

text \<open>
  The end of processes, src/user/wait_exit.c. A parent that has to wait gives up the processor inside \<^verbatim>\<open>sys_wait\<close>; one pass of its loop is
  \<open>sys_wait\<close> here, and a thread that is woken runs it again. \<open>None\<close> is a panic or a pointer that must not be followed.
\<close>

section \<open>Giving back the resources of a process\<close>

fun free_ptes :: "nat \<Rightarrow> u32 \<Rightarrow> 'a mstate_scheme \<Rightarrow> 'a mstate_scheme option" where
  "free_ptes 0 v_pte_ptr s = Some s"
| "free_ptes (Suc m) v_pte_ptr s = do {
     pte \<leftarrow> vread (phys s) (cr3 s) v_pte_ptr;
     s1 \<leftarrow> (if pte AND 1 \<noteq> 0 then free_a_phy_page (pte AND 0xfffff000) s else Some s);
     free_ptes m (v_pte_ptr + 4) s1
   }"

fun free_pdes :: "nat \<Rightarrow> nat \<Rightarrow> u32 \<Rightarrow> 'a mstate_scheme \<Rightarrow> 'a mstate_scheme option" where
  "free_pdes 0 pde_idx pgdir_vaddr s = Some s"
| "free_pdes (Suc m) pde_idx pgdir_vaddr s = do {
     pde \<leftarrow> vread (phys s) (cr3 s) (pgdir_vaddr + of_nat pde_idx * 4);
     s1 \<leftarrow> (if pde AND 1 \<noteq> 0 then do {
          s' \<leftarrow> free_ptes 1024 (pte_ptr (of_nat pde_idx * 0x400000)) s;
          free_a_phy_page (pde AND 0xfffff000) s'
        } else Some s);
     free_pdes m (Suc pde_idx) pgdir_vaddr s1
   }"

fun close_files :: "nat \<Rightarrow> nat \<Rightarrow> addr \<Rightarrow> 'a fstate_scheme \<Rightarrow> 'a fstate_scheme option" where
  "close_files 0 fd_idx thread s = Some s"
| "close_files (Suc m) fd_idx thread s = do {
     g \<leftarrow> rd (fd_table (tasks s thread)) fd_idx;
     s1 \<leftarrow> (if g \<noteq> -1 then do { (_, s') \<leftarrow> sys_close (int fd_idx) s; Some s' } else Some s);
     close_files m (Suc fd_idx) thread s1
   }"

text \<open>The number of pages of the bitmap, as \<^verbatim>\<open>release_prog_resource\<close> computes it.\<close>

definition bitmap_pg_cnt :: "virtual_addr \<Rightarrow> u32" where
  "bitmap_pg_cnt uv = of_nat (btmp_bytes_len (vaddr_bitmap uv)) div PG_SIZE"

definition release_prog_resource :: "addr \<Rightarrow> 'a pstate_scheme \<Rightarrow> 'a pstate_scheme option" where
  "release_prog_resource t s = do {
     s1 \<leftarrow> free_pdes 768 0 (pgdir (tasks s t)) s;
     s2 \<leftarrow> mfree_page PF_KERNEL (vaddr_bits s1 t) (bitmap_pg_cnt (user_vaddr (tasks s1 t))) s1;
     close_files (MAX_FILES_OPEN_PER_PROC - 3) 3 t s2
   }"

section \<open>Children\<close>

definition find_child :: "int \<Rightarrow> addr \<Rightarrow> 'a kstate_scheme \<Rightarrow> bool \<times> 'a kstate_scheme" where
  "find_child ppid pelem s = (parent_pid (tasks s (all_list_tag_entry pelem)) = ppid, s)"

definition find_hanging_child :: "int \<Rightarrow> addr \<Rightarrow> 'a kstate_scheme \<Rightarrow> bool \<times> 'a kstate_scheme" where
  "find_hanging_child ppid pelem s =
     (let t = tasks s (all_list_tag_entry pelem) in (parent_pid t = ppid \<and> status t = TASK_HANGING, s))"

definition init_adopt_a_child :: "int \<Rightarrow> addr \<Rightarrow> 'a kstate_scheme \<Rightarrow> bool \<times> 'a kstate_scheme" where
  "init_adopt_a_child p pelem s =
     (let t = all_list_tag_entry pelem in
      (False, if parent_pid (tasks s t) = p then upd_task t (parent_pid_update (\<lambda>_. 1)) s else s))"

section \<open>Wait and exit\<close>

text \<open>What one pass of the loop of \<^verbatim>\<open>sys_wait\<close> ends with: the pid and the status of a child, no child at all, or the thread asleep.\<close>

datatype wait_result = Reaped int int | No_child | Asleep

definition sys_wait :: "'a mstate_scheme \<Rightarrow> (wait_result \<times> 'a mstate_scheme) option" where
  "sys_wait s = do {
     let parent = running_thread s;
     (e, s1) \<leftarrow> list_traversal lnks (thread_all_list s) (find_hanging_child (pid (tasks s parent))) s;
     if e \<noteq> NULL then do {
       let child = all_list_tag_entry e;
       let st = exit_status (tasks s1 child);
       let child_pid = pid (tasks s1 child);
       s2 \<leftarrow> thread_exit child False s1;
       Some (Reaped child_pid st, s2)
     } else do {
       (e', s2) \<leftarrow> list_traversal lnks (thread_all_list s1) (find_child (pid (tasks s1 parent))) s1;
       if e' = NULL then Some (No_child, s2)
       else do {
         s3 \<leftarrow> thread_block TASK_WAITING s2;
         Some (Asleep, s3)
       }
     }
   }"

text \<open>The status is kept as an \<^verbatim>\<open>int8_t\<close>. When \<^verbatim>\<open>pid2thread\<close> finds no parent the code follows the null pointer.\<close>

definition int8_of :: "int \<Rightarrow> int" where
  "int8_of x = sint (of_int x :: u8)"

text \<open>The end of \<^verbatim>\<open>sys_exit\<close>, once the resources are given back: the parent is told and the thread stops for good.\<close>

definition exit_notify :: "addr \<Rightarrow> 'a kstate_scheme \<Rightarrow> 'a kstate_scheme option" where
  "exit_notify child s = do {
     parent \<leftarrow> pid2thread (parent_pid (tasks s child)) s;
     ASSERT (parent \<noteq> NULL);
     s1 \<leftarrow> (if status (tasks s parent) = TASK_WAITING then thread_unblock parent s else Some s);
     thread_block TASK_HANGING s1
   }"

definition sys_exit :: "int \<Rightarrow> 'a pstate_scheme \<Rightarrow> 'a pstate_scheme option" where
  "sys_exit st s0 = do {
     let child = running_thread s0;
     let s = upd_task child (exit_status_update (\<lambda>_. int8_of st)) s0;
     ASSERT (parent_pid (tasks s child) \<noteq> -1);
     (_, s1) \<leftarrow> list_traversal lnks (thread_all_list s) (init_adopt_a_child (pid (tasks s child))) s;
     s2 \<leftarrow> release_prog_resource child s1;
     exit_notify child s2
   }"

end
