(* ===== verification/Exec.thy ===== *)
theory Exec
  imports Process
begin

text \<open>
  Loading programs, src/user/exec.c: the headers of a 32-bit ELF file are decoded from the bytes that \<^verbatim>\<open>sys_read\<close> delivers, and the bytes of a
  segment are stored at its virtual address. \<open>kb\<close> is the keyboard's queue, which reading from a file leaves alone.
\<close>

section \<open>Headers\<close>

definition le16 :: "u8 list \<Rightarrow> nat \<Rightarrow> u16 option" where
  "le16 bs i = do {
     a \<leftarrow> rd bs i;
     b \<leftarrow> rd bs (i + 1);
     Some (ucast a OR push_bit 8 (ucast b))
   }"

record Elf32_Ehdr =
  e_ident :: "u8 list"
  e_type :: u16
  e_machine :: u16
  e_version :: u32
  e_entry :: u32
  e_phoff :: u32
  e_phentsize :: u16
  e_phnum :: u16

record Elf32_Phdr =
  p_type :: u32
  p_offset :: u32
  p_vaddr :: u32
  p_filesz :: u32

definition sizeof_Ehdr :: nat where "sizeof_Ehdr = 52"
definition sizeof_Phdr :: nat where "sizeof_Phdr = 32"
definition PT_LOAD :: u32 where "PT_LOAD = 1"

definition ehdr_at :: "u8 list \<Rightarrow> Elf32_Ehdr option" where
  "ehdr_at bs = do {
     ty \<leftarrow> le16 bs 16;
     mc \<leftarrow> le16 bs 18;
     vs \<leftarrow> le32 bs 20;
     en \<leftarrow> le32 bs 24;
     po \<leftarrow> le32 bs 28;
     ps \<leftarrow> le16 bs 42;
     pn \<leftarrow> le16 bs 44;
     Some \<lparr>e_ident = take 16 bs, e_type = ty, e_machine = mc, e_version = vs, e_entry = en, e_phoff = po, e_phentsize = ps, e_phnum = pn\<rparr>
   }"

definition phdr_at :: "u8 list \<Rightarrow> Elf32_Phdr option" where
  "phdr_at bs = do {
     ty \<leftarrow> le32 bs 0;
     po \<leftarrow> le32 bs 4;
     va \<leftarrow> le32 bs 8;
     fz \<leftarrow> le32 bs 16;
     Some \<lparr>p_type = ty, p_offset = po, p_vaddr = va, p_filesz = fz\<rparr>
   }"

definition elf_ok :: "Elf32_Ehdr \<Rightarrow> bool option" where
  "elf_ok h = do {
     c \<leftarrow> memcmp (e_ident h) 0 [127, 69, 76, 70, 1, 1, 1, 0] 0 7;
     Some (\<not> (c \<noteq> 0 \<or> e_type h \<noteq> 2 \<or> e_machine h \<noteq> 3 \<or> e_version h \<noteq> 1 \<or> unat (e_phentsize h) \<noteq> sizeof_Phdr))
   }"

section \<open>Segments\<close>

text \<open>A byte is stored in the word that holds it.\<close>

definition put_byte :: "u32 \<Rightarrow> nat \<Rightarrow> u8 \<Rightarrow> u32" where
  "put_byte w k b = (w AND NOT (push_bit (8 * k) 0xff)) OR push_bit (8 * k) (ucast b)"

fun store_bytes :: "u8 list \<Rightarrow> u32 \<Rightarrow> 'a kstate_scheme \<Rightarrow> 'a kstate_scheme option" where
  "store_bytes [] v s = Some s"
| "store_bytes (b # bs) v s = do {
     let a = v AND NOT 3;
     w \<leftarrow> vread (phys s) (cr3 s) a;
     m \<leftarrow> vwrite (phys s) (cr3 s) a (put_byte w (unat (v AND 3)) b);
     store_bytes bs (v + 1) (s\<lparr>phys := m\<rparr>)
   }"

definition occupied_pages :: "u32 \<Rightarrow> u32 \<Rightarrow> u32" where
  "occupied_pages filesz vaddr =
     (let size_in_first_page = PG_SIZE - (vaddr AND 0xfff) in
      if filesz > size_in_first_page then DIV_ROUND_UP (filesz - size_in_first_page) PG_SIZE + 1 else 1)"

text \<open>The entry of the page table is looked at only when that of the directory is present.\<close>

fun load_pages :: "nat \<Rightarrow> u32 \<Rightarrow> 'a mstate_scheme \<Rightarrow> (bool \<times> 'a mstate_scheme) option" where
  "load_pages 0 vaddr_page s = Some (True, s)"
| "load_pages (Suc n) vaddr_page s = do {
     pde \<leftarrow> vread (phys s) (cr3 s) (pde_ptr vaddr_page);
     absent \<leftarrow> (if pde AND 1 = 0 then Some True
                else do { pte \<leftarrow> vread (phys s) (cr3 s) (pte_ptr vaddr_page); Some (pte AND 1 = 0) });
     (ok, s1) \<leftarrow> (if absent then do { (v, s') \<leftarrow> get_a_page PF_USER vaddr_page s; Some (v \<noteq> NULL, s') } else Some (True, s));
     if ok then load_pages n (vaddr_page + PG_SIZE) s1 else Some (False, s1)
   }"

definition segment_load :: "int \<Rightarrow> u32 \<Rightarrow> u32 \<Rightarrow> u32 \<Rightarrow> ioqueue \<Rightarrow> 'a fstate_scheme \<Rightarrow> (bool \<times> 'a fstate_scheme) option" where
  "segment_load fd offset filesz vaddr kb s = do {
     (ok, s1) \<leftarrow> load_pages (unat (occupied_pages filesz vaddr)) (vaddr AND 0xfffff000) s;
     if \<not> ok then Some (False, s1)
     else do {
       (_, s2) \<leftarrow> sys_lseek fd offset 1 s1;
       (_, bs, _, s3) \<leftarrow> sys_read fd filesz kb s2;
       s4 \<leftarrow> store_bytes bs vaddr s3;
       Some (True, s4)
     }
   }"

section \<open>Programs\<close>

fun load_headers :: "nat \<Rightarrow> int \<Rightarrow> u32 \<Rightarrow> u16 \<Rightarrow> ioqueue \<Rightarrow> 'a fstate_scheme \<Rightarrow> (bool \<times> 'a fstate_scheme) option" where
  "load_headers 0 fd off phentsize kb s = Some (True, s)"
| "load_headers (Suc n) fd off phentsize kb s = do {
     (_, s1) \<leftarrow> sys_lseek fd off 1 s;
     (r, bs, _, s2) \<leftarrow> sys_read fd (ucast phentsize) kb s1;
     if r \<noteq> ucast phentsize then Some (False, s2)
     else do {
       p \<leftarrow> phdr_at bs;
       (ok, s3) \<leftarrow> (if p_type p = PT_LOAD then segment_load fd (p_offset p) (p_filesz p) (p_vaddr p) kb s2 else Some (True, s2));
       if ok then load_headers n fd (off + ucast phentsize) phentsize kb s3 else Some (False, s3)
     }
   }"

definition load :: "u8 list \<Rightarrow> ioqueue \<Rightarrow> 'a fstate_scheme \<Rightarrow> (u32 \<times> 'a fstate_scheme) option" where
  "load pathname kb s = do {
     (fd, s1) \<leftarrow> sys_open pathname (ucast O_RDONLY) s;
     if fd = -1 then Some (-1, s1)
     else do {
       (r, bs, _, s2) \<leftarrow> sys_read fd (of_nat sizeof_Ehdr) kb s1;
       (ret, s3) \<leftarrow> (if r \<noteq> of_nat sizeof_Ehdr then Some (-1, s2)
          else do {
            h \<leftarrow> ehdr_at bs;
            good \<leftarrow> elf_ok h;
            if \<not> good then Some (-1, s2)
            else do {
              (ok, s') \<leftarrow> load_headers (unat (e_phnum h)) fd (e_phoff h) (e_phentsize h) kb s2;
              Some (if ok then e_entry h else -1, s')
            }
          });
       (_, s4) \<leftarrow> sys_close fd s3;
       Some (ret, s4)
     }
   }"

text \<open>\<^verbatim>\<open>while (argv[argc]) argc++;\<close> over the words of the array.\<close>

fun count_args :: "u32 list \<Rightarrow> nat option" where
  "count_args [] = None"
| "count_args (p # ps) = (if p = 0 then Some 0 else map_option Suc (count_args ps))"

text \<open>
  \<^verbatim>\<open>sys_execv\<close> with \<^verbatim>\<open>argv\<close> at address \<open>argv_addr\<close> and \<open>argv_words\<close> in that array; \<open>Some a\<close> is the stack with which it jumps to \<^verbatim>\<open>intr_exit\<close>, \<open>None\<close> the
  result -1.
\<close>

definition sys_execv :: "u8 list \<Rightarrow> u32 \<Rightarrow> u32 list \<Rightarrow> ioqueue \<Rightarrow> 'a pstate_scheme \<Rightarrow> (addr option \<times> 'a pstate_scheme) option" where
  "sys_execv path argv_addr argv_words kb s = do {
     n \<leftarrow> count_args argv_words;
     (entry_point, s1) \<leftarrow> load path kb s;
     if entry_point = -1 then Some (None, s1)
     else do {
       let c = running_thread s1;
       nm \<leftarrow> memcpy (name (tasks s1 c)) 0 path 0 TASK_NAME_LEN;
       nm1 \<leftarrow> wr nm (TASK_NAME_LEN - 1) 0;
       let s2 = upd_task c (name_update (\<lambda>_. nm1)) s1;
       let i = intr_0_stack c;
       Some (Some i, s2\<lparr>intr_stacks := (intr_stacks s2)(i := (intr_stacks s2 i)\<lparr>is_ebx := argv_addr, is_ecx := of_nat n,
         is_eip := Code entry_point, is_esp := 0xc0000000\<rparr>)\<rparr>)
     }
   }"

end
