(* ===== verification/Shell.thy ===== *)
theory Shell
  imports Wait_Exit Exec
begin

text \<open>
  The shell, src/shell/shell.c and src/shell/buildin_cmd.c: reading and editing a line, cutting it into words, and
  the built-in commands, which reach the kernel through the system calls of src/user/syscall.c. The global
  buffers are fields of a record; a pointer in \<^verbatim>\<open>argv\<close> is an index into \<^verbatim>\<open>cmd_line\<close> and the null pointer is \<open>None\<close>.
  What is typed is the list of the bytes that the calls of \<^verbatim>\<open>read\<close> deliver. \<^verbatim>\<open>printf\<close> writes through \<^verbatim>\<open>sys_write\<close>.
  Clearing the screen empties \<open>screen\<close>.
\<close>

section \<open>Output\<close>

record shell =
  cmd_line :: "u8 list"
  final_path :: "u8 list"
  cwd_cache :: "u8 list"
  argv :: "nat option list"
  argc :: int

definition MAX_ARG_NR :: nat where
  "MAX_ARG_NR = 16"

definition say :: "u8 list \<Rightarrow> arg list \<Rightarrow> 'a fstate_scheme \<Rightarrow> 'a fstate_scheme option" where
  "say fmt args s = do {
     (_, s1) \<leftarrow> printf (\<lambda>fd buf n. sys_write (int fd) buf (of_nat n)) fmt args s;
     Some s1
   }"

text \<open>A failed assertion of a program: \<^verbatim>\<open>user_spin\<close> (src/user/assert.c).\<close>

definition user_spin :: "u8 list \<Rightarrow> u32 \<Rightarrow> u8 list \<Rightarrow> u8 list \<Rightarrow> 'a fstate_scheme \<Rightarrow> 'a fstate_scheme option" where
  "user_spin filename line func condition s = do {
     s1 \<leftarrow> say (msg ''\<newline>\<newline>\<newline>\<newline>filename %s\<newline>line %d\<newline>function %s\<newline>condition %s\<newline>'') [AStr filename, AInt line, AStr func, AStr condition] s;
     spin s1
   }"

definition cls_screen :: "'a fstate_scheme \<Rightarrow> 'a fstate_scheme" where
  "cls_screen s = s\<lparr>screen := []\<rparr>"

definition print_prompt :: "u8 list \<Rightarrow> 'a fstate_scheme \<Rightarrow> 'a fstate_scheme option" where
  "print_prompt cwd s = say (msg ''[ForikOS@localhost %s]$ '') [AStr cwd] s"

section \<open>Reading a line\<close>

text \<open>\<^verbatim>\<open>while (buf != pos) { putchar('\b'); *(pos--) = 0; }\<close>\<close>

fun erase_line :: "nat \<Rightarrow> u8 list \<Rightarrow> 'a fstate_scheme \<Rightarrow> (u8 list \<times> 'a fstate_scheme) option" where
  "erase_line 0 line s = Some (line, s)"
| "erase_line (Suc pos) line s = do {
     l1 \<leftarrow> wr line (Suc pos) 0;
     s1 \<leftarrow> sys_putchar 8 s;
     erase_line pos l1 s1
   }"

text \<open>
  The loop of \<^verbatim>\<open>readline\<close>. It ends with a line, with a full buffer, or is still waiting for input. The character read is stored
  before the bound is tested. The characters \<^verbatim>\<open>'l' - 'a'\<close> and \<^verbatim>\<open>'u' - 'a'\<close> are 11 and 20; a backspace at the start of the line
  has just been stored there, so that the test of \<^verbatim>\<open>cmd_line[0]\<close> keeps \<open>pos\<close> from going below the buffer.
\<close>

datatype line_end = Entered | Too_long | Typing

fun readline_loop :: "u8 list \<Rightarrow> u8 list \<Rightarrow> nat \<Rightarrow> nat \<Rightarrow> u8 list \<Rightarrow> 'a fstate_scheme \<Rightarrow>
    (line_end \<times> u8 list \<times> u8 list \<times> 'a fstate_scheme) option" where
  "readline_loop cwd line pos count [] s = Some (Typing, line, [], s)"
| "readline_loop cwd line pos count (c # keys) s = do {
     l1 \<leftarrow> wr line pos c;
     if \<not> pos < count then do {
       s1 \<leftarrow> say (msg ''readline: can't find enter_key in the cmd_line, max num of char is 128\<newline>'') [] s;
       Some (Too_long, l1, keys, s1)
     } else if c = 10 \<or> c = 13 then do {
       l2 \<leftarrow> wr l1 pos 0;
       s1 \<leftarrow> sys_putchar 10 s;
       Some (Entered, l2, keys, s1)
     } else if c = 8 then do {
       c0 \<leftarrow> rd l1 0;
       if c0 \<noteq> 8 then do {
         s1 \<leftarrow> sys_putchar 8 s;
         readline_loop cwd l1 (pos - 1) count keys s1
       } else readline_loop cwd l1 pos count keys s
     } else if c = 11 then do {
       l2 \<leftarrow> wr l1 pos 0;
       s1 \<leftarrow> print_prompt cwd (cls_screen s);
       s2 \<leftarrow> say (msg ''%s'') [AStr l2] s1;
       readline_loop cwd l2 pos count keys s2
     } else if c = 20 then do {
       (l2, s1) \<leftarrow> erase_line pos l1 s;
       readline_loop cwd l2 0 count keys s1
     } else do {
       s1 \<leftarrow> sys_putchar c s;
       readline_loop cwd l1 (pos + 1) count keys s1
     }
   }"

definition readline :: "u8 list \<Rightarrow> u8 list \<Rightarrow> nat \<Rightarrow> u8 list \<Rightarrow> 'a fstate_scheme \<Rightarrow>
    (line_end \<times> u8 list \<times> u8 list \<times> 'a fstate_scheme) option" where
  "readline cwd line count keys s = do {
     ASSERT (count > 0);
     readline_loop cwd line 0 count keys s
   }"

section \<open>Cutting a line into words\<close>

function skip_token :: "u8 list \<Rightarrow> u8 \<Rightarrow> nat \<Rightarrow> nat option" where
  "skip_token line token i = do {
     c \<leftarrow> rd line i;
     if c = token then skip_token line token (i + 1) else Some i
   }"
  by pat_completeness auto
termination
  by (relation "measure (\<lambda>(line, token, i). length line - i)") (auto simp: rd_eq_Some)

function skip_word :: "u8 list \<Rightarrow> u8 \<Rightarrow> nat \<Rightarrow> nat option" where
  "skip_word line token i = do {
     c \<leftarrow> rd line i;
     if c \<noteq> 0 \<and> c \<noteq> token then skip_word line token (i + 1) else Some i
   }"
  by pat_completeness auto
termination
  by (relation "measure (\<lambda>(line, token, i). length line - i)") (auto simp: rd_eq_Some)

declare skip_token.simps [simp del] skip_word.simps [simp del]

text \<open>
  The outer loop of \<^verbatim>\<open>cmd_parse\<close>; \<open>n\<close> is its counter \<^verbatim>\<open>argc\<close>. The word is entered in \<^verbatim>\<open>argv\<close> before the counter is compared
  with the size of the array.
\<close>

function cmd_parse_loop :: "u8 list \<Rightarrow> nat option list \<Rightarrow> u8 \<Rightarrow> nat \<Rightarrow> nat \<Rightarrow> (int \<times> u8 list \<times> nat option list) option" where
  "cmd_parse_loop line args token i n = do {
     c \<leftarrow> rd line i;
     if c = 0 then Some (int n, line, args)
     else do {
       i1 \<leftarrow> skip_token line token i;
       c1 \<leftarrow> rd line i1;
       if c1 = 0 then Some (int n, line, args)
       else do {
         args1 \<leftarrow> wr args n (Some i1);
         i2 \<leftarrow> skip_word line token i1;
         c2 \<leftarrow> rd line i2;
         (line1, i3) \<leftarrow> (if c2 \<noteq> 0 then do { l \<leftarrow> wr line i2 0; Some (l, i2 + 1) } else Some (line, i2));
         if n > MAX_ARG_NR then Some (-1, line1, args1)
         else cmd_parse_loop line1 args1 token i3 (n + 1)
       }
     }
   }"
  by pat_completeness auto
termination
  by (relation "measure (\<lambda>(line, args, token, i, n). Suc MAX_ARG_NR - n)") auto

declare cmd_parse_loop.simps [simp del]

text \<open>\<^verbatim>\<open>while (arg_idx < MAX_ARG_NR) { argv[arg_idx] = NULL; arg_idx++; }\<close>\<close>

fun clear_args :: "nat \<Rightarrow> nat \<Rightarrow> nat option list \<Rightarrow> nat option list option" where
  "clear_args 0 arg_idx args = Some args"
| "clear_args (Suc m) arg_idx args = do {
     a \<leftarrow> wr args arg_idx None;
     clear_args m (Suc arg_idx) a
   }"

definition cmd_parse :: "u8 list \<Rightarrow> nat option list \<Rightarrow> u8 \<Rightarrow> (int \<times> u8 list \<times> nat option list) option" where
  "cmd_parse line args token = do {
     args1 \<leftarrow> clear_args MAX_ARG_NR 0 args;
     cmd_parse_loop line args1 token 0 0
   }"

section \<open>Built-in commands\<close>

text \<open>
  \<^verbatim>\<open>make_clear_abs_path\<close> with the system call \<^verbatim>\<open>getcwd\<close>, which is made for a relative path only and gets the cleared
  buffer \<^verbatim>\<open>abs_path\<close>.
\<close>

definition clear_abs_path :: "u8 list \<Rightarrow> u8 list \<Rightarrow> 'a fstate_scheme \<Rightarrow> (u8 list \<times> 'a fstate_scheme) option" where
  "clear_abs_path path final s = do {
     c0 \<leftarrow> rd path 0;
     if c0 \<noteq> 47 then do {
       (ok, abs_path, s1) \<leftarrow> sys_getcwd (replicate MAX_PATH_LEN 0) (of_nat MAX_PATH_LEN) s;
       f \<leftarrow> make_clear_abs_path (\<lambda>_ _. Some (ok, abs_path)) path final;
       Some (f, s1)
     } else do {
       f \<leftarrow> make_clear_abs_path (\<lambda>_ _. None) path final;
       Some (f, s)
     }
   }"

text \<open>The string that an argument points at.\<close>

definition arg_str :: "shell \<Rightarrow> nat \<Rightarrow> u8 list option" where
  "arg_str sh k = do {
     p \<leftarrow> rd (argv sh) k;
     i \<leftarrow> p;
     Some (drop i (cmd_line sh))
   }"

definition arg_path :: "nat \<Rightarrow> shell \<Rightarrow> 'a fstate_scheme \<Rightarrow> (shell \<times> 'a fstate_scheme) option" where
  "arg_path k sh s = do {
     a \<leftarrow> arg_str sh k;
     (f, s1) \<leftarrow> clear_abs_path a (final_path sh) s;
     Some (sh\<lparr>final_path := f\<rparr>, s1)
   }"

definition buildin_pwd :: "shell \<Rightarrow> 'a fstate_scheme \<Rightarrow> (shell \<times> 'a fstate_scheme) option" where
  "buildin_pwd sh s =
     (if argc sh \<noteq> 1 then do {
        s1 \<leftarrow> say (msg ''pwd: no argument support!\<newline>'') [] s;
        Some (sh, s1)
      } else do {
        (ok, f, s1) \<leftarrow> sys_getcwd (final_path sh) (of_nat MAX_PATH_LEN) s;
        s2 \<leftarrow> (if ok then say (msg ''%s\<newline>'') [AStr f] s1
               else say (msg ''pwd: get current work directory failed.\<newline>'') [] s1);
        Some (sh\<lparr>final_path := f\<rparr>, s2)
      })"

text \<open>The result says whether a path is returned.\<close>

definition buildin_cd :: "shell \<Rightarrow> 'a fstate_scheme \<Rightarrow> (bool \<times> shell \<times> 'a fstate_scheme) option" where
  "buildin_cd sh s =
     (if argc sh > 2 then do {
        s1 \<leftarrow> say (msg ''cd: only support 1 argument!\<newline>'') [] s;
        Some (False, sh, s1)
      } else do {
        (sh1, s1) \<leftarrow> (if argc sh = 1 then do {
             f1 \<leftarrow> wr (final_path sh) 0 47;
             f2 \<leftarrow> wr f1 1 0;
             Some (sh\<lparr>final_path := f2\<rparr>, s)
           } else arg_path 1 sh s);
        (r, s2) \<leftarrow> sys_chdir (final_path sh1) s1;
        if r = -1 then do {
          s3 \<leftarrow> say (msg ''cd: no such directory %s\<newline>'') [AStr (final_path sh1)] s2;
          Some (False, sh1, s3)
        } else Some (True, sh1, s2)
      })"

text \<open>
  \<^verbatim>\<open>mkdir\<close>, \<^verbatim>\<open>rmdir\<close> and \<^verbatim>\<open>rm\<close> have the same body: the messages and the system call differ.
\<close>

definition path_command :: "u8 list \<Rightarrow> u8 list \<Rightarrow> (u8 list \<Rightarrow> 'a fstate_scheme \<Rightarrow> (int \<times> 'a fstate_scheme) option) \<Rightarrow>
    shell \<Rightarrow> 'a fstate_scheme \<Rightarrow> (int \<times> shell \<times> 'a fstate_scheme) option" where
  "path_command usage failed call sh s =
     (if argc sh \<noteq> 2 then do {
        s1 \<leftarrow> say usage [] s;
        Some (-1, sh, s1)
      } else do {
        (sh1, s1) \<leftarrow> arg_path 1 sh s;
        c \<leftarrow> strcmp slash 0 (final_path sh1) 0;
        if c \<noteq> 0 then do {
          (r, s2) \<leftarrow> call (final_path sh1) s1;
          if r = 0 then Some (0, sh1, s2)
          else do {
            a \<leftarrow> arg_str sh1 1;
            s3 \<leftarrow> say failed [AStr a] s2;
            Some (-1, sh1, s3)
          }
        } else Some (-1, sh1, s1)
      })"

definition buildin_mkdir :: "shell \<Rightarrow> 'a fstate_scheme \<Rightarrow> (int \<times> shell \<times> 'a fstate_scheme) option" where
  "buildin_mkdir = path_command (msg ''mkdir: only support 1 argument!\<newline>'') (msg ''mkdir: create directory %s failed.\<newline>'') sys_mkdir"

definition buildin_rmdir :: "shell \<Rightarrow> 'a fstate_scheme \<Rightarrow> (int \<times> shell \<times> 'a fstate_scheme) option" where
  "buildin_rmdir = path_command (msg ''rmdir: only support 1 argument!\<newline>'') (msg ''rmdir: remove %s failed.\<newline>'') sys_rmdir"

definition buildin_rm :: "shell \<Rightarrow> 'a fstate_scheme \<Rightarrow> (int \<times> shell \<times> 'a fstate_scheme) option" where
  "buildin_rm = path_command (msg ''rm: only support 1 argument!\<newline>'') (msg ''rm: delete %s failed.\<newline>'') sys_unlink"

definition buildin_clear :: "shell \<Rightarrow> 'a fstate_scheme \<Rightarrow> 'a fstate_scheme option" where
  "buildin_clear sh s =
     (if argc sh \<noteq> 1 then say (msg ''clear: no argument support!\<newline>'') [] s else Some (cls_screen s))"

definition buildin_ps :: "shell \<Rightarrow> 'a fstate_scheme \<Rightarrow> 'a fstate_scheme option" where
  "buildin_ps sh s =
     (if argc sh \<noteq> 1 then say (msg ''ps: no argument support!\<newline>'') [] s else sys_ps s)"

section \<open>Listing a directory\<close>

text \<open>The options and the path of \<^verbatim>\<open>ls\<close>; \<open>None\<close> is an early return.\<close>

fun ls_args :: "shell \<Rightarrow> nat \<Rightarrow> nat \<Rightarrow> bool \<Rightarrow> nat option \<Rightarrow> 'a fstate_scheme \<Rightarrow> ((bool \<times> nat option) option \<times> 'a fstate_scheme) option" where
  "ls_args sh 0 arg_idx long_info path s = Some (Some (long_info, path), s)"
| "ls_args sh (Suc m) arg_idx long_info path s = do {
     a \<leftarrow> arg_str sh arg_idx;
     c \<leftarrow> rd a 0;
     if c = 45 then do {
       l \<leftarrow> strcmp (msg ''-l'') 0 a 0;
       if l = 0 then ls_args sh m (Suc arg_idx) True path s
       else do {
         h \<leftarrow> strcmp (msg ''-h'') 0 a 0;
         s1 \<leftarrow> (if h = 0 then say (msg ''usage: -l list all infomation about the file.\<newline>-h for help\<newline>list all files in the current dirctory if no option\<newline>'') [] s
                else say (msg (''ls: invalid option %s\<newline>Try `ls -h'' @ [CHR 0x27] @ '' for more information.\<newline>'')) [AStr a] s);
         Some (None, s1)
       }
     } else if path = None then ls_args sh m (Suc arg_idx) long_info (Some arg_idx) s
     else do {
       s1 \<leftarrow> say (msg ''ls: only support one path\<newline>'') [] s;
       Some (None, s1)
     }
   }"

definition no_stat :: stat where
  "no_stat = \<lparr>st_ino = 0, st_size = 0, st_filetype = 0\<rparr>"

text \<open>The loops over the entries; \<open>False\<close> is an early return, which leaves the directory open.\<close>

definition ls_entry :: "addr \<Rightarrow> nat \<Rightarrow> nat \<Rightarrow> u8 list \<Rightarrow> 'a fstate_scheme \<Rightarrow> (bool \<times> u8 list \<times> 'a fstate_scheme) option" where
  "ls_entry d k pathname_len sub_pathname s = do {
     let db = dir_buf (dirs s d);
     ty \<leftarrow> de_f_type db k;
     let ftype = (if ty = FT_REGULAR then 45 else 100 :: u32);
     sub1 \<leftarrow> wr sub_pathname pathname_len 0;
     sub2 \<leftarrow> strcat sub1 0 db (sizeof_dir_entry * k);
     (r, st, s1) \<leftarrow> sys_stat sub2 no_stat s;
     let db1 = dir_buf (dirs s1 d);
     if r = -1 then do {
       s2 \<leftarrow> say (msg ''ls: cannot access %s: No such file or directory\<newline>'') [AStr (drop (sizeof_dir_entry * k) db1)] s1;
       Some (False, sub2, s2)
     } else do {
       i \<leftarrow> de_i_no db1 k;
       s2 \<leftarrow> say (msg ''%c  %d  %d  %s\<newline>'') [AInt ftype, AInt i, AInt (st_size st), AStr (drop (sizeof_dir_entry * k) db1)] s1;
       Some (True, sub2, s2)
     }
   }"

partial_function (option) ls_long_loop :: "addr \<Rightarrow> nat \<Rightarrow> u8 list \<Rightarrow> 'a fstate_scheme \<Rightarrow> (bool \<times> 'a fstate_scheme) option" where
  "ls_long_loop d pathname_len sub_pathname s =
     Option.bind (sys_readdir d s) (\<lambda>(r, s1).
       case r of None \<Rightarrow> Some (True, s1)
       | Some k \<Rightarrow> Option.bind (ls_entry d k pathname_len sub_pathname s1) (\<lambda>(ok, sub2, s2).
           if ok then ls_long_loop d pathname_len sub2 s2 else Some (False, s2)))"

partial_function (option) ls_short_loop :: "addr \<Rightarrow> 'a fstate_scheme \<Rightarrow> 'a fstate_scheme option" where
  "ls_short_loop d s =
     Option.bind (sys_readdir d s) (\<lambda>(r, s1).
       case r of None \<Rightarrow> say (msg ''\<newline>'') [] s1
       | Some k \<Rightarrow> Option.bind (say (msg ''%s '') [AStr (drop (sizeof_dir_entry * k) (dir_buf (dirs s1 d)))] s1) (\<lambda>s2. ls_short_loop d s2))"

text \<open>The path of the directory with a slash at its end, and its length.\<close>

definition sub_path :: "u8 list \<Rightarrow> (u8 list \<times> nat) option" where
  "sub_path pathname = do {
     pathname_len \<leftarrow> strlen pathname 0;
     sub1 \<leftarrow> memcpy (replicate MAX_PATH_LEN 0) 0 pathname 0 pathname_len;
     ASSERT (pathname_len > 0);
     c \<leftarrow> rd sub1 (pathname_len - 1);
     if c \<noteq> 47 then do { sub2 \<leftarrow> wr sub1 pathname_len 47; Some (sub2, pathname_len + 1) } else Some (sub1, pathname_len)
   }"

definition list_dir :: "bool \<Rightarrow> u8 list \<Rightarrow> stat \<Rightarrow> 'a fstate_scheme \<Rightarrow> 'a fstate_scheme option" where
  "list_dir long_info pathname st s = do {
     (d, s1) \<leftarrow> sys_opendir pathname s;
     (sub_pathname, pathname_len) \<leftarrow> sub_path pathname;
     let s2 = sys_rewinddir d s1;
     if long_info then do {
       s3 \<leftarrow> say (msg ''total: %d\<newline>'') [AInt (st_size st)] s2;
       (ok, s4) \<leftarrow> ls_long_loop d pathname_len sub_pathname s3;
       if ok then do { (_, s5) \<leftarrow> sys_closedir d s4; Some s5 } else Some s4
     } else do {
       s3 \<leftarrow> ls_short_loop d s2;
       (_, s4) \<leftarrow> sys_closedir d s3;
       Some s4
     }
   }"

definition buildin_ls :: "shell \<Rightarrow> 'a fstate_scheme \<Rightarrow> (shell \<times> 'a fstate_scheme) option" where
  "buildin_ls sh s = do {
     (opts, s1) \<leftarrow> ls_args sh (nat (argc sh) - 1) 1 False None s;
     case opts of None \<Rightarrow> Some (sh, s1)
     | Some (long_info, path) \<Rightarrow> do {
         (ok, sh1, s2) \<leftarrow> (case path of
             None \<Rightarrow> do {
               (ok, f, s') \<leftarrow> sys_getcwd (final_path sh) (of_nat MAX_PATH_LEN) s1;
               Some (ok, sh\<lparr>final_path := f\<rparr>, s')
             }
           | Some k \<Rightarrow> do {
               (sh', s') \<leftarrow> arg_path k sh s1;
               Some (True, sh', s')
             });
         if \<not> ok then do {
           s3 \<leftarrow> say (msg ''ls: getcwd for default path failed\<newline>'') [] s2;
           Some (sh1, s3)
         } else do {
           let pathname = final_path sh1;
           (r, st, s3) \<leftarrow> sys_stat pathname no_stat s2;
           s4 \<leftarrow> (if r = -1 then say (msg ''ls: cannot access %s: No such file or directory\<newline>'') [AStr pathname] s3
                  else if st_filetype st = FT_DIRECTORY then list_dir long_info pathname st s3
                  else if long_info then say (msg ''-  %d  %d  %s\<newline>'') [AInt (st_ino st), AInt (st_size st), AStr pathname] s3
                  else say (msg ''%s\<newline>'') [AStr pathname] s3);
           Some (sh1, s4)
         }
       }
   }"

section \<open>The loop of the shell\<close>

text \<open>A command word compared with a name.\<close>

definition is_cmd :: "string \<Rightarrow> shell \<Rightarrow> bool option" where
  "is_cmd nm sh = do {
     a \<leftarrow> arg_str sh 0;
     c \<leftarrow> strcmp (msg nm) 0 a 0;
     Some (c = 0)
   }"

text \<open>The built-in commands; \<open>False\<close> says that the command is not one of them.\<close>

definition run_builtin :: "shell \<Rightarrow> 'a fstate_scheme \<Rightarrow> (bool \<times> shell \<times> 'a fstate_scheme) option" where
  "run_builtin sh s = do {
     c_ls \<leftarrow> is_cmd ''ls'' sh;
     if c_ls then do { (sh1, s1) \<leftarrow> buildin_ls sh s; Some (True, sh1, s1) } else do {
     c_cd \<leftarrow> is_cmd ''cd'' sh;
     if c_cd then do {
       (ok, sh1, s1) \<leftarrow> buildin_cd sh s;
       if ok then do {
         c1 \<leftarrow> memset (cwd_cache sh1) 0 0 MAX_PATH_LEN;
         c2 \<leftarrow> strcpy c1 0 (final_path sh1) 0;
         Some (True, sh1\<lparr>cwd_cache := c2\<rparr>, s1)
       } else Some (True, sh1, s1)
     } else do {
     c_pwd \<leftarrow> is_cmd ''pwd'' sh;
     if c_pwd then do { (sh1, s1) \<leftarrow> buildin_pwd sh s; Some (True, sh1, s1) } else do {
     c_ps \<leftarrow> is_cmd ''ps'' sh;
     if c_ps then do { s1 \<leftarrow> buildin_ps sh s; Some (True, sh, s1) } else do {
     c_clear \<leftarrow> is_cmd ''clear'' sh;
     if c_clear then do { s1 \<leftarrow> buildin_clear sh s; Some (True, sh, s1) } else do {
     c_mkdir \<leftarrow> is_cmd ''mkdir'' sh;
     if c_mkdir then do { (_, sh1, s1) \<leftarrow> buildin_mkdir sh s; Some (True, sh1, s1) } else do {
     c_rmdir \<leftarrow> is_cmd ''rmdir'' sh;
     if c_rmdir then do { (_, sh1, s1) \<leftarrow> buildin_rmdir sh s; Some (True, sh1, s1) } else do {
     c_rm \<leftarrow> is_cmd ''rm'' sh;
     if c_rm then do { (_, sh1, s1) \<leftarrow> buildin_rm sh s; Some (True, sh1, s1) }
     else Some (False, sh, s)
     }}}}}}}
   }"

text \<open>
  One round of \<^verbatim>\<open>my_shell\<close>: it goes on with the next round, waits for more input, or has forked a child with the pid that \<^verbatim>\<open>fork\<close> returned and goes
  on as \<open>shell_parent\<close> there and as \<open>shell_child\<close> in the child.
\<close>

datatype shell_next = Next_round | More_input | Forked int

definition end_round :: "shell \<Rightarrow> shell option" where
  "end_round sh = do {
     a \<leftarrow> clear_args MAX_ARG_NR 0 (argv sh);
     Some (sh\<lparr>argv := a\<rparr>)
   }"

definition shell_round :: "u8 list \<Rightarrow> shell \<Rightarrow> 'a pstate_scheme \<Rightarrow> (shell_next \<times> u8 list \<times> shell \<times> 'a pstate_scheme) option" where
  "shell_round keys sh s = do {
     s1 \<leftarrow> print_prompt (cwd_cache sh) s;
     f \<leftarrow> memset (final_path sh) 0 0 MAX_PATH_LEN;
     l \<leftarrow> memset (cmd_line sh) 0 0 MAX_PATH_LEN;
     (e, line, keys1, s2) \<leftarrow> readline (cwd_cache sh) l MAX_PATH_LEN keys s1;
     let sh1 = sh\<lparr>final_path := f, cmd_line := line\<rparr>;
     if e = Typing then Some (More_input, keys1, sh1, s2)
     else do {
       c0 \<leftarrow> rd line 0;
       if c0 = 0 then Some (Next_round, keys1, sh1, s2)
       else do {
         (n, line1, a) \<leftarrow> cmd_parse line (argv sh1) 32;
         let sh2 = sh1\<lparr>cmd_line := line1, argv := a, argc := n\<rparr>;
         if n = -1 then do {
           s3 \<leftarrow> say (msg ''num of arguments exceed %d\<newline>'') [AInt (of_nat MAX_ARG_NR)] s2;
           Some (Next_round, keys1, sh2, s3)
         } else do {
           (ran, sh3, s3) \<leftarrow> run_builtin sh2 s2;
           if ran then do {
             sh4 \<leftarrow> end_round sh3;
             Some (Next_round, keys1, sh4, s3)
           } else do {
             (p, s4) \<leftarrow> sys_fork s3;
             Some (Forked p, keys1, sh3, s4)
           }
         }
       }
     }
   }"

text \<open>The parent after \<^verbatim>\<open>wait\<close>; without a child it panics.\<close>

definition shell_parent :: "wait_result \<Rightarrow> shell \<Rightarrow> 'a fstate_scheme \<Rightarrow> (shell \<times> 'a fstate_scheme) option" where
  "shell_parent r sh s = (case r of
     Reaped child_pid st \<Rightarrow> do {
       s1 \<leftarrow> say (msg ''child_pid %d, it's status: %d\<newline>'') [AInt (of_int child_pid), AInt (of_int st)] s;
       sh1 \<leftarrow> end_round sh;
       Some (sh1, s1)
     }
   | _ \<Rightarrow> None)"

text \<open>
  The child: \<open>line_addr\<close>, \<open>path_addr\<close> and \<open>argv_addr\<close> are the addresses of the buffers in its memory. The result is that of \<^verbatim>\<open>execv\<close>, or the null
  pointer when there is no such file; then, and when \<^verbatim>\<open>execv\<close> fails, the child spins.
\<close>

definition shell_child :: "u32 \<Rightarrow> u32 \<Rightarrow> u32 \<Rightarrow> ioqueue \<Rightarrow> shell \<Rightarrow> 'a pstate_scheme \<Rightarrow> (addr option \<times> 'a pstate_scheme) option" where
  "shell_child line_addr path_addr argv_addr kb sh s = do {
     (sh1, s1) \<leftarrow> arg_path 0 sh s;
     let argv_words = path_addr # map (\<lambda>p. case p of None \<Rightarrow> NULL | Some i \<Rightarrow> line_addr + of_nat i) (tl (argv sh1));
     (r, _, s2) \<leftarrow> sys_stat (final_path sh1) no_stat s1;
     if r = -1 then do {
       s3 \<leftarrow> say (msg ''my_shell: cannot access %s: No such file or directory\<newline>'') [AStr (final_path sh1)] s2;
       Some (None, s3)
     } else sys_execv (final_path sh1) argv_addr argv_words kb s2
   }"

end
