(* ===== verification/Shell_Line.thy ===== *)
theory Shell_Line
  imports Shell Inode_Disk
begin

text \<open>
  What the shell makes of what is typed: \<open>cmd_parse\<close> finds the words of a line, and \<open>readline\<close> is an editor of one line.
\<close>

section \<open>What a line means\<close>

function words_of :: "u8 \<Rightarrow> u8 list \<Rightarrow> u8 list list" where
  "words_of token xs = (let ys = dropWhile (\<lambda>c. c = token) xs in
     if ys = [] then [] else takeWhile (\<lambda>c. c \<noteq> token) ys # words_of token (dropWhile (\<lambda>c. c \<noteq> token) ys))"
  by pat_completeness auto
termination
proof (relation "measure (\<lambda>(token, xs). length xs)")
  fix token and xs ys :: "u8 list"
  assume ys: "ys = dropWhile (\<lambda>c. c = token) xs" "ys \<noteq> []"
  then have "hd ys \<noteq> token"
    using hd_dropWhile [of "\<lambda>c. c = token" xs] by simp
  then have "length (dropWhile (\<lambda>c. c \<noteq> token) ys) < length ys"
    using ys(2) by (cases ys) (auto intro: le_imp_less_Suc length_dropWhile_le)
  then show "((token, dropWhile (\<lambda>c. c \<noteq> token) ys), (token, xs)) \<in> measure (\<lambda>(token, xs). length xs)"
    using ys(1) length_dropWhile_le [of "\<lambda>c. c = token" xs] by simp
qed simp

declare words_of.simps [simp del]

lemma words_of_token: "words_of token (token # xs) = words_of token xs"
  by (subst (1 2) words_of.simps) simp

lemma words_of_blank: "\<forall>c\<in>set sp. c = token \<Longrightarrow> words_of token sp = []"
  by (subst words_of.simps) (simp add: Let_def dropWhile_eq_Nil_conv)

lemma words_of_word:
  assumes "\<forall>c\<in>set sp. c = token" and "token \<notin> set w" and "w \<noteq> []" and "rs = [] \<or> hd rs = token"
  shows "words_of token (sp @ w @ rs) = w # words_of token rs"
proof -
  have "dropWhile (\<lambda>c. c = token) (sp @ w @ rs) = w @ rs"
    using assms(1-3) by (cases w) (auto simp: dropWhile_append2)
  moreover have "takeWhile (\<lambda>c. c \<noteq> token) (w @ rs) = w" and "dropWhile (\<lambda>c. c \<noteq> token) (w @ rs) = rs"
    using assms(2,4) by (cases rs; simp add: takeWhile_append2 dropWhile_append2; auto simp: takeWhile_append dropWhile_append)+
  ultimately show ?thesis
    using assms(3) by (subst words_of.simps) (simp add: Let_def)
qed

text \<open>A line is blank, or it begins with a word between blanks.\<close>

lemma line_cases:
  obtains (blank) "\<forall>c\<in>set xs. c = token"
  | (word) sp w rs where "xs = sp @ w @ rs" and "\<forall>c\<in>set sp. c = token" and "token \<notin> set w" and "w \<noteq> []" and "rs = [] \<or> hd rs = token"
proof (cases "\<forall>c\<in>set xs. c = token")
  case False
  let ?ys = "dropWhile (\<lambda>c. c = token) xs"
  have ys: "?ys \<noteq> []"
    using False by (auto simp: dropWhile_eq_Nil_conv)
  show ?thesis
  proof (rule word)
    show "xs = takeWhile (\<lambda>c. c = token) xs @ takeWhile (\<lambda>c. c \<noteq> token) ?ys @ dropWhile (\<lambda>c. c \<noteq> token) ?ys"
      by simp
    show "takeWhile (\<lambda>c. c \<noteq> token) ?ys \<noteq> []"
      using ys hd_dropWhile [of "\<lambda>c. c = token" xs] by (cases ?ys) auto
    show "dropWhile (\<lambda>c. c \<noteq> token) ?ys = [] \<or> hd (dropWhile (\<lambda>c. c \<noteq> token) ?ys) = token"
      using hd_dropWhile [of "\<lambda>c. c \<noteq> token" ?ys] by auto
  qed (auto dest: set_takeWhileD)
qed (rule blank)

lemma skip_token_append:
  assumes "\<forall>c\<in>set sp. c = token" and "c0 \<noteq> token"
  shows "skip_token (pre @ sp @ c0 # post) token (length pre) = Some (length pre + length sp)"
  using assms(1)
proof (induction sp arbitrary: pre)
  case Nil
  then show ?case
    using assms(2) by (subst skip_token.simps) (simp add: rd_def)
next
  case (Cons c sp)
  then show ?case
    using Cons.IH [of "pre @ [c]"] by (subst skip_token.simps) (simp add: rd_def)
qed

lemma skip_word_append:
  assumes "token \<notin> set w" and "0 \<notin> set w" and "c0 = 0 \<or> c0 = token"
  shows "skip_word (pre @ w @ c0 # post) token (length pre) = Some (length pre + length w)"
  using assms(1,2)
proof (induction w arbitrary: pre)
  case Nil
  then show ?case
    using assms(3) by (subst skip_word.simps) (auto simp: rd_def)
next
  case (Cons c w)
  then show ?case
    using Cons.IH [of "pre @ [c]"] by (subst skip_word.simps) (auto simp: rd_def)
qed

lemma parse_blank:
  assumes "\<forall>c\<in>set sp. c = token" and "token \<noteq> 0"
  shows "cmd_parse_loop (pre @ sp @ 0 # post) args token (length pre) n = Some (int n, pre @ sp @ 0 # post, args)"
proof (cases "sp = []")
  case True
  then show ?thesis
    by (subst cmd_parse_loop.simps) (simp add: rd_def)
next
  case False
  then have "hd sp \<noteq> 0"
    using assms by (cases sp) auto
  then have "rd (pre @ sp @ 0 # post) (length pre) = Some (hd sp)" and "rd (pre @ sp @ 0 # post) (length pre + length sp) = Some 0"
    using False by (simp_all add: rd_def nth_append hd_conv_nth)
  then show ?thesis
    using skip_token_append [OF assms(1), of 0 pre post] assms(2) \<open>hd sp \<noteq> 0\<close>
    by (subst cmd_parse_loop.simps) simp
qed

text \<open>A word: the loop enters its address and goes on behind it.\<close>

lemma parse_word:
  assumes "\<forall>c\<in>set sp. c = token" and "token \<notin> set w" and "0 \<notin> set w" and "w \<noteq> []" and "token \<noteq> 0"
  shows "cmd_parse_loop (pre @ sp @ w @ 0 # post) args token (length pre) n =
      (if n < length args then if n > MAX_ARG_NR then Some (-1, pre @ sp @ w @ 0 # post, args[n := Some (length pre + length sp)])
         else cmd_parse_loop (pre @ sp @ w @ 0 # post) (args[n := Some (length pre + length sp)]) token (length pre + (length sp + length w)) (n + 1)
       else None)" (is ?last)
    and "cmd_parse_loop (pre @ sp @ w @ token # post) args token (length pre) n =
      (if n < length args then if n > MAX_ARG_NR then Some (-1, pre @ sp @ w @ 0 # post, args[n := Some (length pre + length sp)])
         else cmd_parse_loop (pre @ sp @ w @ 0 # post) (args[n := Some (length pre + length sp)]) token (length pre + (length sp + length w) + 1) (n + 1)
       else None)" (is ?more)
proof -
  have w0: "hd w \<noteq> token" "hd w \<noteq> 0"
    using assms(2-4) by (cases w; auto)+
  have first: "\<exists>c. rd (pre @ sp @ w @ c0 # post) (length pre) = Some c \<and> c \<noteq> 0" for c0
  proof (cases sp)
    case Nil
    then show ?thesis
      using assms(4) w0 by (simp add: rd_def nth_append hd_conv_nth)
  next
    case (Cons c sp')
    then show ?thesis
      using assms(1,5) by (auto simp: rd_def nth_append)
  qed
  have skip: "skip_token (pre @ sp @ w @ c0 # post) token (length pre) = Some (length pre + length sp)" for c0
    using skip_token_append [OF assms(1) w0(1), of pre "tl w @ c0 # post"] assms(4) by (cases w) simp_all
  have start: "rd (pre @ sp @ w @ c0 # post) (length pre + length sp) = Some (hd w)"
    and stop: "rd (pre @ sp @ w @ c0 # post) (length pre + (length sp + length w)) = Some c0" for c0
    using assms(4) by (simp_all add: rd_def nth_append hd_conv_nth)
  have word: "skip_word (pre @ sp @ w @ c0 # post) token (length pre + length sp) = Some (length pre + (length sp + length w))"
    if "c0 = 0 \<or> c0 = token" for c0
    using skip_word_append [OF assms(2,3) that, of "pre @ sp" post] by (simp add: add.assoc)
  have cut: "wr (pre @ sp @ w @ token # post) (length pre + (length sp + length w)) 0 = Some (pre @ sp @ w @ 0 # post)"
    by (simp add: list_update_append)
  show ?last
  proof -
    obtain c where "rd (pre @ sp @ w @ 0 # post) (length pre) = Some c" "c \<noteq> 0"
      using first by blast
    then show ?thesis
      using skip [of 0] start [of 0] stop [of 0] word [of 0] w0 by (subst cmd_parse_loop.simps) simp
  qed
  show ?more
  proof -
    obtain c where "rd (pre @ sp @ w @ token # post) (length pre) = Some c" "c \<noteq> 0"
      using first by blast
    then show ?thesis
      using skip [of token] start [of token] stop [of token] word [of token] w0 cut assms(5) by (subst cmd_parse_loop.simps) simp
  qed
qed

lemma cstr_behind: "cstr (xs @ ys) (length xs + j) = cstr ys j" "terminated (xs @ ys) (length xs + j) = terminated ys j"
  by (simp_all add: cstr_def terminated_def)

text \<open>The words of a line as the addresses of strings in it.\<close>

definition points_at :: "u8 list \<Rightarrow> nat option \<Rightarrow> u8 list \<Rightarrow> bool" where
  "points_at line p w \<longleftrightarrow> (\<exists>i. p = Some i \<and> terminated line i \<and> cstr line i = w)"

lemma points_at_behind: "points_at ys p w \<Longrightarrow> points_at (xs @ ys) (map_option ((+) (length xs)) p) w"
  by (auto simp: points_at_def cstr_behind)

lemma parse_words:
  assumes "token \<noteq> 0"
  shows "0 \<notin> set cs \<Longrightarrow> n + length (words_of token cs) \<le> MAX_ARG_NR \<Longrightarrow> length args = MAX_ARG_NR \<Longrightarrow>
    \<exists>cs' args'. cmd_parse_loop (pre @ cs @ 0 # post) args token (length pre) n =
        Some (int (n + length (words_of token cs)), pre @ cs' @ 0 # post, args') \<and>
      length cs' = length cs \<and> length args' = MAX_ARG_NR \<and>
      (\<forall>k. k < n \<or> n + length (words_of token cs) \<le> k \<longrightarrow> args' ! k = args ! k) \<and>
      (\<forall>k<length (words_of token cs). points_at (pre @ cs' @ 0 # post) (args' ! (n + k)) (words_of token cs ! k))"
proof (induction "length cs" arbitrary: cs pre n args rule: less_induct)
  case less
  show ?case
  proof (cases rule: line_cases [of cs token])
    case blank
    then show ?thesis
      using parse_blank [OF blank assms] less.prems by (auto simp: words_of_blank)
  next
    case (word sp w rs)
    note ws = words_of_word [OF word(2-5), folded word(1)]
    have w0: "0 \<notin> set w" and n: "n < length args" "\<not> n > MAX_ARG_NR"
      using less.prems word(1) ws by simp_all
    let ?a = "args[n := Some (length pre + length sp)]"
    show ?thesis
    proof (cases rs)
      case Nil
      let ?l = "pre @ sp @ w @ 0 # post"
      have "cmd_parse_loop ?l args token (length pre) n = cmd_parse_loop ?l ?a token (length (pre @ sp @ w)) (n + 1)"
        using parse_word(1) [OF word(2,3) w0 word(4) assms, of pre post args n] n by simp
      also have "\<dots> = Some (int (n + 1), ?l, ?a)"
        using parse_blank [of "[]" token "pre @ sp @ w" post ?a "n + 1"] assms by simp
      finally have "cmd_parse_loop ?l args token (length pre) n = Some (int (n + 1), ?l, ?a)" .
      moreover have "points_at ?l (?a ! n) w"
        using n cstr_append [OF w0, of "pre @ sp" _ post] terminated_append [of "pre @ sp" _ w post] by (auto simp: points_at_def)
      moreover have "words_of token cs = [w]"
        using ws Nil by (simp add: words_of_blank)
      ultimately show ?thesis
        using less.prems word(1) Nil by (intro exI [of _ cs] exI [of _ ?a]) simp
    next
      case (Cons c rs')
      then have c: "c = token" and wr: "words_of token rs = words_of token rs'"
        using word(5) by (simp_all add: words_of_token)
      let ?p = "pre @ sp @ w @ [0]"
      have "cmd_parse_loop (pre @ cs @ 0 # post) args token (length pre) n = cmd_parse_loop (?p @ rs' @ 0 # post) ?a token (length ?p) (n + 1)"
        using parse_word(2) [OF word(2,3) w0 word(4) assms, of pre "rs' @ 0 # post" args n] n word(1) Cons c by simp
      moreover have "length rs' < length cs" and "0 \<notin> set rs'" and "n + 1 + length (words_of token rs') \<le> MAX_ARG_NR"
          and "length ?a = MAX_ARG_NR"
        using word(1) Cons less.prems ws wr by simp_all
      from less.hyps [OF this] obtain cs' args' where
        IH: "cmd_parse_loop (?p @ rs' @ 0 # post) ?a token (length ?p) (n + 1) = Some (int (n + 1 + length (words_of token rs')), ?p @ cs' @ 0 # post, args')"
          "length cs' = length rs'" "length args' = MAX_ARG_NR"
          "\<forall>k. k < n + 1 \<or> n + 1 + length (words_of token rs') \<le> k \<longrightarrow> args' ! k = ?a ! k"
          "\<forall>k<length (words_of token rs'). points_at (?p @ cs' @ 0 # post) (args' ! (n + 1 + k)) (words_of token rs' ! k)"
        by blast
      have "points_at (?p @ cs' @ 0 # post) (args' ! n) w"
        using IH(4) n cstr_append [OF w0, of "pre @ sp" _ "cs' @ 0 # post"] terminated_append [of "pre @ sp" _ w "cs' @ 0 # post"]
        by (simp add: points_at_def)
      then have "points_at (?p @ cs' @ 0 # post) (args' ! (n + k)) (words_of token cs ! k)" if "k < length (words_of token cs)" for k
        using IH(5) ws wr that by (cases k) simp_all
      moreover have "args' ! k = args ! k" if "k < n \<or> n + length (words_of token cs) \<le> k" for k
        using IH(4) that ws wr by auto
      ultimately show ?thesis
        using IH(1-3) word(1) Cons ws wr \<open>cmd_parse_loop (pre @ cs @ 0 # post) args token (length pre) n = _\<close>
        by (intro exI [of _ "sp @ w @ 0 # cs'"] exI [of _ args']) simp
    qed
  qed
qed

lemma parse_too_many:
  assumes "token \<noteq> 0"
  shows "0 \<notin> set cs \<Longrightarrow> n \<le> MAX_ARG_NR \<Longrightarrow> MAX_ARG_NR < n + length (words_of token cs) \<Longrightarrow> length args = MAX_ARG_NR \<Longrightarrow>
    cmd_parse_loop (pre @ cs @ 0 # post) args token (length pre) n = None"
proof (induction "length cs" arbitrary: cs pre n args rule: less_induct)
  case less
  show ?case
  proof (cases rule: line_cases [of cs token])
    case blank
    then show ?thesis
      using less.prems by (simp add: words_of_blank)
  next
    case (word sp w rs)
    note ws = words_of_word [OF word(2-5), folded word(1)]
    have w0: "0 \<notin> set w"
      using less.prems word(1) by simp
    show ?thesis
    proof (cases rs)
      case Nil
      then show ?thesis
        using parse_word(1) [OF word(2,3) w0 word(4) assms, of pre post args n] less.prems word(1) ws by (simp add: words_of_blank)
    next
      case (Cons c rs')
      then have c: "c = token" and wr: "words_of token rs = words_of token rs'"
        using word(5) by (simp_all add: words_of_token)
      show ?thesis
      proof (cases "n = MAX_ARG_NR")
        case True
        then show ?thesis
          using parse_word(2) [OF word(2,3) w0 word(4) assms, of pre "rs' @ 0 # post" args n] less.prems word(1) Cons c by simp
      next
        case False
        then have "cmd_parse_loop ((pre @ sp @ w @ [0]) @ rs' @ 0 # post) (args[n := Some (length pre + length sp)]) token
            (length (pre @ sp @ w @ [0])) (n + 1) = None"
          using word(1) Cons less.prems ws wr by (intro less.hyps) simp_all
        then show ?thesis
          using parse_word(2) [OF word(2,3) w0 word(4) assms, of pre "rs' @ 0 # post" args n] less.prems word(1) Cons c False by simp
      qed
    qed
  qed
qed

section \<open>What typing means\<close>

text \<open>The line as typed: backspace takes the last character away, control-u all of them, and control-l shows the line again.\<close>

definition edit_key :: "u8 \<Rightarrow> u8 list \<Rightarrow> u8 list" where
  "edit_key c xs = (if c = 8 then butlast xs else if c = 20 then [] else if c = 11 then xs else xs @ [c])"

fun edited :: "u8 list \<Rightarrow> u8 list \<Rightarrow> u8 list" where
  "edited xs [] = xs"
| "edited xs (c # keys) = edited (edit_key c xs) keys"

fun fits :: "nat \<Rightarrow> u8 list \<Rightarrow> u8 list \<Rightarrow> bool" where
  "fits count xs [] \<longleftrightarrow> length xs < count"
| "fits count xs (c # keys) \<longleftrightarrow> length xs < count \<and> fits count (edit_key c xs) keys"

lemma say_ok:
  assumes "terminated fmt 0" and "render (cstr fmt 0) args = Some out" and "length out < 1024" and "0 \<notin> set out"
    and free: "console_free s"
  shows "say fmt args s = Some (s\<lparr>screen := screen s @ out\<rparr>)"
proof -
  let ?b = "out @ replicate (1024 - length out) 0"
  have v: "vsprintf (replicate 1024 0) fmt args = Some (length out, ?b)"
    using sprintf_render [OF assms(1-4)] by (simp add: sprintf_def)
  have len: "strlen ?b 0 = Some (length out)"
    using zeros_tail [OF assms(3,4)] by (simp add: strlen_eq)
  have put: "console_put_str ?b s = Some (s\<lparr>screen := screen s @ out\<rparr>)"
    using console_put_str_ok [OF free] zeros_tail [OF assms(3,4)] by simp
  have u: "unat (of_nat (length out) :: u32) = length out"
    using assms(3) by (simp add: unat_of_nat)
  have m: "memcpy (replicate 1024 0) 0 ?b 0 (length out) = Some ?b"
    using assms(3) by (simp add: memcpy_eq)
  show ?thesis
    using v len put u m by (simp add: say_def printf_def sys_write_def)
qed

lemma prompt_ok:
  assumes "terminated cwd 0" and "length (cstr cwd 0) < 1000" and "console_free s"
  shows "\<exists>scr. print_prompt cwd s = Some (s\<lparr>screen := scr\<rparr>)"
proof -
  have "terminated (msg ''[ForikOS@localhost %s]$ '') 0"
    and "render (cstr (msg ''[ForikOS@localhost %s]$ '') 0) [AStr cwd] = Some (str_bytes ''[ForikOS@localhost '' @ cstr cwd 0 @ str_bytes '']$ '')"
    using assms(1) by (simp_all add: msg_def str_bytes_def terminated_def cstr_def)
  moreover have "length (str_bytes ''[ForikOS@localhost '' @ cstr cwd 0 @ str_bytes '']$ '') < 1024"
      and "0 \<notin> set (str_bytes ''[ForikOS@localhost '' @ cstr cwd 0 @ str_bytes '']$ '')"
    using assms(2) cstr_no_nul [of cwd 0] by (simp_all add: str_bytes_def)
  ultimately show ?thesis
    using say_ok assms(3) unfolding print_prompt_def by blast
qed

lemma show_line_ok:
  assumes "terminated line 0" and "length (cstr line 0) < 1024" and "console_free s"
  shows "\<exists>scr. say (msg ''%s'') [AStr line] s = Some (s\<lparr>screen := scr\<rparr>)"
proof -
  have "terminated (msg ''%s'') 0" and "render (cstr (msg ''%s'') 0) [AStr line] = Some (cstr line 0)"
    using assms(1) by (simp_all add: msg_def str_bytes_def terminated_def cstr_def)
  then show ?thesis
    using say_ok [of "msg ''%s''" "[AStr line]" "cstr line 0" s] assms(2,3) cstr_no_nul [of line 0] by blast
qed

lemma cut_line:
  assumes "take (length xs) line = xs" and "length xs < length line" and "0 \<notin> set xs"
  shows "terminated (line[length xs := 0]) 0" and "cstr (line[length xs := 0]) 0 = xs"
proof -
  have l: "line[length xs := 0] = [] @ xs @ 0 # drop (Suc (length xs)) line"
    using assms(1,2) by (metis append_Nil upd_conv_take_nth_drop)
  show "terminated (line[length xs := 0]) 0" and "cstr (line[length xs := 0]) 0 = xs"
    unfolding l using cstr_append [OF assms(3), of "[]" 0] terminated_append [of "[]" 0 xs] by simp_all
qed

lemma sys_putchar_ok: "console_free s \<Longrightarrow> sys_putchar c s = Some (s\<lparr>screen := screen s @ [c]\<rparr>)"
  by (simp add: sys_putchar_def console_put_char_ok)

lemma erase_line_ok:
  "pos < length line \<Longrightarrow> console_free s \<Longrightarrow>
    \<exists>line' scr. erase_line pos line s = Some (line', s\<lparr>screen := scr\<rparr>) \<and> length line' = length line"
proof (induction pos arbitrary: line s)
  case 0
  then show ?case
    by (auto intro: exI [of _ "screen s"])
next
  case (Suc pos)
  let ?s = "s\<lparr>screen := screen s @ [8]\<rparr>"
  obtain line' scr where "erase_line pos (line[Suc pos := 0]) ?s = Some (line', ?s\<lparr>screen := scr\<rparr>)" "length line' = length line"
    using Suc.IH [of "line[Suc pos := 0]" ?s] Suc.prems by auto
  then show ?case
    using Suc.prems by (auto simp: sys_putchar_ok)
qed

lemma readline_loop_edited:
  assumes "terminated cwd 0" and "length (cstr cwd 0) < 1000" and "e = 10 \<or> e = 13" and "count \<le> 1024"
  shows "length line = count \<Longrightarrow> take (length xs) line = xs \<Longrightarrow> 0 \<notin> set xs \<Longrightarrow> 8 \<notin> set xs \<Longrightarrow>
    \<forall>c\<in>set keys. c \<noteq> 0 \<and> c \<noteq> 10 \<and> c \<noteq> 13 \<Longrightarrow> fits count xs keys \<Longrightarrow> console_free s \<Longrightarrow>
    \<exists>line' scr. readline_loop cwd line (length xs) count (keys @ e # later) s = Some (Entered, line', later, s\<lparr>screen := scr\<rparr>) \<and>
      length line' = count \<and> terminated line' 0 \<and> cstr line' 0 = edited xs keys"
proof (induction keys arbitrary: line xs s)
  case Nil
  then have n: "length xs < length line"
    by simp
  have "readline_loop cwd line (length xs) count ([] @ e # later) s = Some (Entered, line[length xs := 0], later, s\<lparr>screen := screen s @ [10]\<rparr>)"
    using n Nil.prems(1,7) assms(3) by (simp add: sys_putchar_ok)
  then show ?case
    using cut_line [OF Nil.prems(2) n Nil.prems(3)] Nil.prems(1)
    by (intro exI [of _ "line[length xs := 0]"] exI [of _ "screen s @ [10]"]) simp
next
  case (Cons c keys)
  let ?l = "line[length xs := c]"
  have n: "length xs < length line" and c: "c \<noteq> 0" "c \<noteq> 10" "c \<noteq> 13" and fit: "fits count (edit_key c xs) keys"
    using Cons.prems by simp_all
  have tl: "take (length xs) ?l = xs"
    using Cons.prems(2) by simp
  consider (bs) "c = 8" | (clear) "c = 20" | (redraw) "c = 11" | (char) "c \<noteq> 8" "c \<noteq> 20" "c \<noteq> 11"
    by blast
  then show ?case
  proof cases
    case bs
    show ?thesis
    proof (cases "xs = []")
      case True
      then have "rd ?l 0 = Some 8"
        using n bs by simp
      then show ?thesis
        using Cons.IH [of ?l "[]" s] Cons.prems fit n bs True by (auto simp: edit_key_def)
    next
      case False
      then obtain x ys where xs: "xs = x # ys"
        by (cases xs) auto
      then have "?l ! 0 = x"
        using tl n by (cases line) auto
      then have "rd ?l 0 = Some x" and x: "x \<noteq> 8"
        using Cons.prems(4) xs n by (auto simp: rd_def)
      moreover have "take (length (butlast xs)) ?l = butlast xs"
        using tl by (metis butlast_take length_butlast take_take min.absorb1 diff_le_self length_list_update n less_imp_le butlast_conv_take)
      then have "\<exists>line' scr. readline_loop cwd ?l (length (butlast xs)) count (keys @ e # later) (s\<lparr>screen := screen s @ [8]\<rparr>) =
            Some (Entered, line', later, s\<lparr>screen := screen s @ [8]\<rparr>\<lparr>screen := scr\<rparr>) \<and>
          length line' = count \<and> terminated line' 0 \<and> cstr line' 0 = edited (butlast xs) keys"
        using Cons.prems fit bs by (intro Cons.IH) (auto simp: edit_key_def dest: in_set_butlastD)
      ultimately show ?thesis
        using Cons.prems n bs by (auto simp: edit_key_def sys_putchar_ok)
    qed
  next
    case clear
    obtain line' scr where "erase_line (length xs) ?l s = Some (line', s\<lparr>screen := scr\<rparr>)" "length line' = length line"
      using erase_line_ok [of "length xs" ?l s] n Cons.prems(7) by auto
    then show ?thesis
      using Cons.IH [of line' "[]" "s\<lparr>screen := scr\<rparr>"] Cons.prems fit n clear by (auto simp: edit_key_def)
  next
    case redraw
    let ?l2 = "line[length xs := 0]"
    note cut = cut_line [OF Cons.prems(2) n Cons.prems(3)]
    have short: "length (cstr ?l2 0) < 1024"
      using cut(2) n Cons.prems(1) assms(4) by simp
    obtain scr1 where "print_prompt cwd (cls_screen s) = Some (s\<lparr>screen := scr1\<rparr>)"
      using prompt_ok [OF assms(1,2), of "cls_screen s"] Cons.prems(7) by (auto simp: cls_screen_def)
    moreover obtain scr2 where "say (msg ''%s'') [AStr ?l2] (s\<lparr>screen := scr1\<rparr>) = Some (s\<lparr>screen := scr2\<rparr>)"
      using show_line_ok [OF cut(1) short, of "s\<lparr>screen := scr1\<rparr>"] Cons.prems(7) by auto
    ultimately show ?thesis
      using Cons.IH [of ?l2 xs "s\<lparr>screen := scr2\<rparr>"] Cons.prems fit n redraw c by (auto simp: edit_key_def cls_screen_def)
  next
    case char
    have "take (length (xs @ [c])) ?l = xs @ [c]"
      using tl n by (simp add: take_Suc_conv_app_nth)
    then have "\<exists>line' scr. readline_loop cwd ?l (length (xs @ [c])) count (keys @ e # later) (s\<lparr>screen := screen s @ [c]\<rparr>) =
          Some (Entered, line', later, s\<lparr>screen := screen s @ [c]\<rparr>\<lparr>screen := scr\<rparr>) \<and>
        length line' = count \<and> terminated line' 0 \<and> cstr line' 0 = edited (xs @ [c]) keys"
      using Cons.prems fit char c by (intro Cons.IH) (auto simp: edit_key_def)
    then show ?thesis
      using Cons.prems n char c by (auto simp: edit_key_def sys_putchar_ok)
  qed
qed

section \<open>Properties\<close>

lemma clear_args_eq: "k + m = length args \<Longrightarrow> clear_args m k args = Some (take k args @ replicate m None)"
proof (induction m arbitrary: k args)
  case (Suc m)
  then have "clear_args m (Suc k) (args[k := None]) = Some (take (Suc k) (args[k := None]) @ replicate m None)"
    by (intro Suc.IH) simp
  then show ?case
    using Suc.prems by (simp add: take_Suc_conv_app_nth)
qed simp

lemma line_split: "terminated line 0 \<Longrightarrow> \<exists>post. line = [] @ cstr line 0 @ 0 # post"
proof -
  assume t: "terminated line 0"
  then have "line ! length (cstr line 0) = 0" and "length (cstr line 0) < length line" and "take (length (cstr line 0)) line = cstr line 0"
    using terminated_at [OF t] terminated_length [OF t] cstr_prefix [of line 0] by simp_all
  then show ?thesis
    by (metis append_Nil id_take_nth_drop)
qed

text \<open>
  C17. The words of a command line. For a line of at most sixteen words \<^verbatim>\<open>cmd_parse\<close> returns their number, and the entries of \<^verbatim>\<open>argv\<close> point at the
  words, each of them now a string of its own in the line; the remaining entries are null. Blanks in front of, between and behind the
  words do not matter, and the words are those of the reference definition \<open>words_of\<close>.
\<close>

theorem cmd_parse_words:
  assumes "terminated line 0" and "length args = MAX_ARG_NR" and "token \<noteq> 0" and "ws = words_of token (cstr line 0)" and "length ws \<le> MAX_ARG_NR"
  shows "\<exists>line' args'. cmd_parse line args token = Some (int (length ws), line', args') \<and> length line' = length line \<and> length args' = MAX_ARG_NR \<and>
    (\<forall>k<MAX_ARG_NR. if k < length ws then points_at line' (args' ! k) (ws ! k) else args' ! k = None)"
proof -
  obtain post where line: "line = [] @ cstr line 0 @ 0 # post"
    using line_split [OF assms(1)] by blast
  have "0 \<notin> set (cstr line 0)" and "0 + length (words_of token (cstr line 0)) \<le> MAX_ARG_NR"
    using cstr_no_nul assms(4,5) by simp_all
  from parse_words [OF assms(3) this, of "replicate MAX_ARG_NR None" "[]" post]
  obtain cs' args' where r: "cmd_parse_loop line (replicate MAX_ARG_NR None) token 0 0 = Some (int (length ws), cs' @ 0 # post, args')"
      "length cs' = length (cstr line 0)" "length args' = MAX_ARG_NR"
      "\<forall>k. 0 + length ws \<le> k \<longrightarrow> args' ! k = replicate MAX_ARG_NR None ! k"
      "\<forall>k<length ws. points_at (cs' @ 0 # post) (args' ! (0 + k)) (ws ! k)"
    using line assms(4) by auto
  have "cmd_parse line args token = Some (int (length ws), cs' @ 0 # post, args')"
    using r(1) clear_args_eq [of 0 MAX_ARG_NR args] assms(2) by (simp add: cmd_parse_def)
  moreover have "length (cs' @ 0 # post) = length line"
    using r(2) by (subst line) simp
  ultimately show ?thesis
    using r(3-5) by (intro exI [of _ "cs' @ 0 # post"] exI [of _ args']) simp
qed

theorem cmd_parse_words_witness:
  "\<exists>line' args'. cmd_parse (msg '' ls  -l  dir '') (replicate 16 None) 32 = Some (3, line', args') \<and> length line' = 14 \<and> length args' = 16 \<and>
    (\<forall>k<16. if k < 3 then points_at line' (args' ! k) ([str_bytes ''ls'', str_bytes ''-l'', str_bytes ''dir''] ! k) else args' ! k = None)"
proof -
  have "words_of 32 (cstr (msg '' ls  -l  dir '') 0) = [str_bytes ''ls'', str_bytes ''-l'', str_bytes ''dir'']"
    by (simp add: words_of.simps msg_def str_bytes_def cstr_def)
  moreover have "terminated (msg '' ls  -l  dir '') 0" and "length (msg '' ls  -l  dir '') = 14"
    by (simp_all add: msg_def str_bytes_def terminated_def)
  ultimately show ?thesis
    using cmd_parse_words [of "msg '' ls  -l  dir ''" "replicate 16 None" 32 "[str_bytes ''ls'', str_bytes ''-l'', str_bytes ''dir'']"]
    by (simp add: MAX_ARG_NR_def numeral_3_eq_3)
qed

text \<open>
  A line of more than sixteen words: the seventeenth word is entered behind the end of \<^verbatim>\<open>argv\<close>, because the number of words is compared with the size of
  the array only afterwards; the message about too many arguments is never reached.
\<close>

theorem cmd_parse_overrun:
  assumes "terminated line 0" and "length args = MAX_ARG_NR" and "token \<noteq> 0" and "MAX_ARG_NR < length (words_of token (cstr line 0))"
  shows "cmd_parse line args token = None"
proof -
  obtain post where line: "line = [] @ cstr line 0 @ 0 # post"
    using line_split [OF assms(1)] by blast
  have "cmd_parse_loop ([] @ cstr line 0 @ 0 # post) (replicate MAX_ARG_NR None) token (length ([] :: u8 list)) 0 = None"
    using cstr_no_nul assms(4) by (intro parse_too_many [OF assms(3)]) simp_all
  then show ?thesis
    using clear_args_eq [of 0 MAX_ARG_NR args] assms(2) line by (simp add: cmd_parse_def)
qed

theorem cmd_parse_overrun_witness: "cmd_parse (msg ''a b c d e f g h i j k l m n o p q'') (replicate 16 None) 32 = None"
proof -
  have "words_of 32 (cstr (msg ''a b c d e f g h i j k l m n o p q'') 0) = map (\<lambda>c. str_bytes [c]) ''abcdefghijklmnopq''"
    by (simp add: words_of.simps msg_def str_bytes_def cstr_def)
  moreover have "terminated (msg ''a b c d e f g h i j k l m n o p q'') 0"
    by (simp add: msg_def str_bytes_def terminated_def)
  ultimately show ?thesis
    by (intro cmd_parse_overrun) (simp_all add: MAX_ARG_NR_def)
qed

text \<open>
  C19. The line editor. When no other thread holds the console, whatever is typed before Enter, with backspaces, control-u and control-l in any order, as long as the line never fills the
  buffer, \<^verbatim>\<open>readline\<close> returns with the text that the keys denote as a terminated string, has consumed the input up to and including Enter,
  and has changed nothing but the screen.
\<close>

theorem readline_edits:
  assumes "terminated cwd 0" and "length (cstr cwd 0) < 1000" and "length line = count" and "0 < count" and "count \<le> 1024"
    and "\<forall>c\<in>set keys. c \<noteq> 0 \<and> c \<noteq> 10 \<and> c \<noteq> 13" and "fits count [] keys" and "e = 10 \<or> e = 13"
    and "console_free s"
  shows "\<exists>line' scr. readline cwd line count (keys @ e # later) s = Some (Entered, line', later, s\<lparr>screen := scr\<rparr>) \<and>
    terminated line' 0 \<and> cstr line' 0 = edited [] keys"
  using readline_loop_edited [OF assms(1,2,8,5), of line "[]" keys s later] assms(3,4,6,7,9) by (auto simp: readline_def)

theorem readline_edits_witness:
  "\<exists>line' scr. readline [47, 0] (replicate 512 0) 512 ([97, 98, 8, 99, 20, 108, 120, 11, 8, 115] @ 10 # [112]) (console_init sample_fstate) =
      Some (Entered, line', [112], (console_init sample_fstate)\<lparr>screen := scr\<rparr>) \<and> terminated line' 0 \<and> cstr line' 0 = [108, 115]"
proof -
  have "console_free (console_init sample_fstate)"
    using sample_ready by (intro console_init_free) (simp add: ide_ready_def chan_idle_def lock_free_def Let_def)
  then show ?thesis
    using readline_edits [of "[47, 0]" "replicate 512 0" 512 "[97, 98, 8, 99, 20, 108, 120, 11, 8, 115]" 10 "console_init sample_fstate" "[112]"]
    by (simp add: edit_key_def terminated_def cstr_def)
qed

end
