(* ===== verification/Process_Life.thy ===== *)
theory Process_Life
  imports Wait_Exit
begin

text \<open>
  The end of a process seen from its parent: looking for children in \<^verbatim>\<open>thread_all_list\<close>, handing orphans to init, waking the
  parent that sleeps in \<^verbatim>\<open>sys_wait\<close> and giving back what the child still holds.
\<close>

section \<open>Searching the list of all tasks\<close>

text \<open>Every task lies at the start of a page, so no tag has the address zero.\<close>

definition at_pages :: "addr list \<Rightarrow> bool" where
  "at_pages as \<longleftrightarrow> (\<forall>t\<in>set as. page_off t = 0)"

lemma tag_not_NULL: "page_off t = 0 \<Longrightarrow> all_list_tag t \<noteq> NULL"
proof
  assume "page_off t = 0" and "all_list_tag t = NULL"
  then have "t = - 44"
    by (simp add: all_list_tag_def NULL_def eq_neg_iff_add_eq_0)
  with \<open>page_off t = 0\<close> show False
    by (simp add: page_off_def)
qed

definition first_task :: "(addr \<Rightarrow> bool) \<Rightarrow> addr list \<Rightarrow> addr" where
  "first_task P as = (case find P as of None \<Rightarrow> NULL | Some t \<Rightarrow> all_list_tag t)"

lemma search_all:
  assumes "lists_ok (lnks s) (thread_all_list s) as Q W" and "\<And>x u. func x u = (P (all_list_tag_entry x) u, u)"
  shows "list_traversal lnks (thread_all_list s) func s = Some (first_task (\<lambda>t. P t s) as, s)"
proof -
  have "list_rep (lnks s) (thread_all_list s) (map all_list_tag as)"
    using assms(1) by (simp add: lists_ok_def)
  then have "list_traversal lnks (thread_all_list s) func s = Some (visit func (map all_list_tag as) s)"
    by (rule list_traversal_rep [rotated]) (simp add: assms(2))
  moreover have "find (\<lambda>x. P (all_list_tag_entry x) s) (map all_list_tag as) = map_option all_list_tag (find (\<lambda>t. P t s) as)"
    by (induction as) auto
  ultimately show ?thesis
    by (simp add: visit_pure [OF assms(2)] first_task_def split: option.split)
qed

lemma first_task_cases:
  assumes "at_pages as"
  shows "(first_task P as = NULL) = (\<forall>t\<in>set as. \<not> P t)"
    and "find P as = Some t \<Longrightarrow> first_task P as = all_list_tag t \<and> t \<in> set as \<and> P t"
proof -
  show "find P as = Some t \<Longrightarrow> first_task P as = all_list_tag t \<and> t \<in> set as \<and> P t"
    by (simp add: first_task_def) (auto simp: find_Some_iff)
  show "(first_task P as = NULL) = (\<forall>t\<in>set as. \<not> P t)"
  proof (cases "find P as")
    case None
    then show ?thesis
      using find_None_iff [of P as] by (auto simp: first_task_def)
  next
    case (Some t)
    then have "t \<in> set as \<and> P t"
      by (auto simp: find_Some_iff)
    moreover from this assms have "all_list_tag t \<noteq> NULL"
      by (intro tag_not_NULL) (simp add: at_pages_def)
    ultimately show ?thesis
      using Some by (auto simp: first_task_def)
  qed
qed

lemma find_unique:
  assumes "t \<in> set xs" and "P t" and "\<And>u. u \<in> set xs \<Longrightarrow> P u \<Longrightarrow> u = t"
  shows "find P xs = Some t"
proof (cases "find P xs")
  case None
  then show ?thesis
    using assms(1,2) by (auto simp: find_None_iff)
next
  case (Some u)
  then have "u \<in> set xs \<and> P u"
    by (auto simp: find_Some_iff)
  then show ?thesis
    using Some assms(3) by simp
qed

lemma pid2thread_eq:
  assumes "lists_ok (lnks s) (thread_all_list s) as Q W" and "at_pages as" and "t \<in> set as"
    and "\<And>u. u \<in> set as \<Longrightarrow> pid (tasks s u) = pid (tasks s t) \<Longrightarrow> u = t"
  shows "pid2thread (pid (tasks s t)) s = Some t"
proof -
  let ?P = "\<lambda>u. pid (tasks s u) = pid (tasks s t)"
  have "list_traversal lnks (thread_all_list s) (pid_check (pid (tasks s t))) s = Some (first_task ?P as, s)"
    using search_all [OF assms(1), of "pid_check (pid (tasks s t))" "\<lambda>u s'. pid (tasks s' u) = pid (tasks s t)"]
    by (simp add: pid_check_def)
  moreover have "first_task ?P as = all_list_tag t"
    using first_task_cases(2) [OF assms(2), of ?P t] find_unique [of t as ?P] assms(3,4) by blast
  moreover have "all_list_tag t \<noteq> NULL"
    using assms(2,3) by (intro tag_not_NULL) (simp add: at_pages_def)
  ultimately show ?thesis
    by (simp add: pid2thread_def)
qed

text \<open>The children of \<open>p\<close> among \<open>as\<close> become children of init.\<close>

definition adopted :: "int \<Rightarrow> addr list \<Rightarrow> (addr \<Rightarrow> task_struct) \<Rightarrow> addr \<Rightarrow> task_struct" where
  "adopted p as T = (\<lambda>t. if t \<in> set as \<and> parent_pid (T t) = p then (T t)\<lparr>parent_pid := 1\<rparr> else T t)"

lemma adopt_visit:
  "visit (init_adopt_a_child p) (map all_list_tag as) s = (NULL, s\<lparr>tasks := adopted p as (tasks s)\<rparr>)"
proof (induction as arbitrary: s)
  case Nil
  then show ?case
    by (simp add: adopted_def)
next
  case (Cons a as)
  let ?s = "if parent_pid (tasks s a) = p then upd_task a (parent_pid_update (\<lambda>_. 1)) s else s"
  have "adopted p as (tasks ?s) = adopted p (a # as) (tasks s)"
    by (rule ext) (simp add: adopted_def, blast)
  moreover have "?s\<lparr>tasks := T\<rparr> = s\<lparr>tasks := T\<rparr>" for T
    by (simp add: upd_task_def)
  moreover have "visit (init_adopt_a_child p) (map all_list_tag (a # as)) s = visit (init_adopt_a_child p) (map all_list_tag as) ?s"
    by (simp add: init_adopt_a_child_def Let_def)
  ultimately show ?case
    unfolding Cons.IH by simp
qed

section \<open>Giving back a task\<close>

lemma lists_all_remove:
  assumes ok: "lists_ok L al (us @ t # vs) Q W" and nq: "\<And>q. q \<in> Q \<Longrightarrow> t \<notin> set (W q)"
  shows "lists_ok (list_remove (all_list_tag t) L) al (us @ vs) Q W"
proof -
  let ?as = "us @ t # vs" and ?L = "list_remove (all_list_tag t) L"
  note parts = ok [unfolded lists_ok_def]
  have rep: "list_rep L al (map all_list_tag us @ all_list_tag t # map all_list_tag vs)"
    using parts by simp
  have lay: "layout_ok (insert al Q) ?as"
    using parts by blast
  have sub: "set (W q) \<subseteq> set ?as" if "q \<in> Q" for q
    using parts that by blast
  have "list_rep ?L q (map general_tag (W q))" if q: "q \<in> Q" for q
  proof (rule list_rep_frame)
    show "list_rep L q (map general_tag (W q))"
      using parts q by blast
    fix e assume e: "e \<in> list_nodes q (map general_tag (W q))"
    have "list_nodes q (map general_tag (W q)) \<inter> list_nodes al (map all_list_tag ?as) = {}"
      using layout_disjoint_all [OF lay q] sub [OF q] parts q by auto
    then have "e \<notin> list_nodes al (map all_list_tag us @ all_list_tag t # map all_list_tag vs)"
      using e by auto
    then show "lnext ?L e = lnext L e \<and> lprev ?L e = lprev L e"
      by (intro list_remove_frame [OF rep])
  qed
  moreover have "set (W q) \<subseteq> set (us @ vs)" if "q \<in> Q" for q
    using sub [OF that] nq [OF that] by auto
  moreover have "layout_ok (insert al Q) (us @ vs)"
    using lay by (auto simp: layout_ok_def)
  moreover have "list_rep ?L al (map all_list_tag (us @ vs))"
    using list_remove_rep [OF rep] by simp
  ultimately show ?thesis
    using parts unfolding lists_ok_def by blast
qed

text \<open>Pages of the kernel heap; \<open>D\<close> are the frames in use as data, as in \<open>memory_ok\<close>.\<close>

definition kheap_ok :: "u32 set \<Rightarrow> 'a mstate_scheme \<Rightarrow> bool" where
  "kheap_ok D s \<longleftrightarrow> memory_ok D s \<and> 0x102000 \<le> phy_addr_start (kernel_pool s) \<and> bm_wf (vaddr_bitmap (kernel_vaddr s)) \<and>
     range_ok (vaddr_start (kernel_vaddr s)) (bm_cap (vaddr_bitmap (kernel_vaddr s)))"

definition heap_page :: "u32 set \<Rightarrow> 'a mstate_scheme \<Rightarrow> u32 \<Rightarrow> u32 \<Rightarrow> bool" where
  "heap_page D s v f \<longleftrightarrow> (\<exists>r<bm_cap (vaddr_bitmap (kernel_vaddr s)). v = page_at (vaddr_start (kernel_vaddr s)) r) \<and>
     mmu (phys s) (cr3 s) v = Some f \<and> f \<in> D \<and> f \<in> pool_frames (kernel_pool s)"

definition kmem_only :: "'a mstate_scheme \<Rightarrow> 'a mstate_scheme \<Rightarrow> bool" where
  "kmem_only s s' \<longleftrightarrow> (\<exists>k u m kv. s' = s\<lparr>kernel_pool := k, user_pool := u, phys := m, kernel_vaddr := kv\<rparr>)"

lemma kmem_onlyD:
  assumes "kmem_only s s'"
  shows "lnks s' = lnks s" "tasks s' = tasks s" "cur s' = cur s" "thread_ready_list s' = thread_ready_list s"
    "thread_all_list s' = thread_all_list s" "main_thread s' = main_thread s" "the_pid_pool s' = the_pid_pool s"
    "sema_value s' = sema_value s" "lock_holder s' = lock_holder s" "lock_repeat_nr s' = lock_repeat_nr s"
    "cr3 s' = cr3 s"
  using assms by (auto simp: kmem_only_def)

lemma upd_task_pool [simp]:
  "the_pid_pool (upd_task t h s) = the_pid_pool s" "main_thread (upd_task t h s) = main_thread s"
  "kernel_pool (upd_task t h u) = kernel_pool u" "user_pool (upd_task t h u) = user_pool u"
  "kernel_vaddr (upd_task t h u) = kernel_vaddr u"
  by (simp_all add: upd_task_def)

lemma kheap_cong:
  assumes "phys s' = phys s" and "cr3 s' = cr3 s" and "kernel_pool s' = kernel_pool s" and "user_pool s' = user_pool s"
    and "kernel_vaddr s' = kernel_vaddr s"
  shows "kheap_ok D s' = kheap_ok D s" and "heap_page D s' v f = heap_page D s v f"
  by (simp_all add: kheap_ok_def heap_page_def memory_ok_def assms)

lemma free_heap_page:
  assumes ok: "kheap_ok D s" and v: "heap_page D s v f"
  shows "\<exists>s'. mfree_page PF_KERNEL v 1 s = Some s' \<and> kheap_ok (D - {f}) s' \<and> kmem_only s s' \<and>
    free_frames (kernel_pool s') = insert f (free_frames (kernel_pool s)) \<and> mmu (phys s') (cr3 s') v = None \<and>
    (\<forall>w g. heap_page D s w g \<and> w \<noteq> v \<and> g \<noteq> f \<longrightarrow> heap_page (D - {f}) s' w g)"
proof -
  let ?b = "vbits PF_KERNEL s" and ?v0 = "vaddr_start (vspace PF_KERNEL s)"
  have k: "vspace PF_KERNEL u = kernel_vaddr u" "vbits PF_KERNEL u = vaddr_bitmap (kernel_vaddr u)" for u :: "'a mstate_scheme"
    by (simp_all add: vspace_def vbits_def)
  have mem: "memory_ok D s" "0x102000 \<le> phy_addr_start (kernel_pool s)" "bm_wf ?b" "range_ok ?v0 (bm_cap ?b)"
    using ok by (simp_all add: kheap_ok_def k)
  obtain r where r: "r < bm_cap ?b" "v = page_at ?v0 r"
    using v by (auto simp: heap_page_def k)
  have f: "mmu (phys s) (cr3 s) v = Some f" "f \<in> D" "f \<in> pool_frames (get_pool PF_KERNEL s)"
    using v by (simp_all add: heap_page_def get_pool_def)
  obtain s' s1 b where s': "mfree_page PF_KERNEL v 1 s = Some s'" "memory_ok (D - {f}) s'"
      "free_frames (get_pool PF_KERNEL s') = {f} \<union> free_frames (get_pool PF_KERNEL s)"
      "\<And>w. PDE_IDX w \<noteq> 0x3ff \<Longrightarrow> PDE_IDX w \<noteq> 0 \<Longrightarrow> mmu (phys s') (cr3 s') w = (if frame w = v then None else mmu (phys s) (cr3 s) w)"
      "same_pool (get_pool PF_KERNEL s) (get_pool PF_KERNEL s')"
      and b: "s' = set_vbits PF_KERNEL b s1" "mem_only s s1" "btmp_bytes_len b = btmp_bytes_len ?b" "length (bits b) = length (bits ?b)"
    using mfree_page_ok [OF mem, of 1 "[f]" r] r f by auto
  have cap: "bm_cap b = bm_cap ?b" "bm_wf b = bm_wf ?b"
    using b(3,4) by (simp_all add: bm_cap_def bm_wf_def)
  have vs: "vbits PF_KERNEL s' = b" "vaddr_start (vspace PF_KERNEL s') = ?v0"
    using vbits_mem_only [OF b(2), of PF_KERNEL] b(1) by simp_all
  have "phy_addr_start (kernel_pool s') = phy_addr_start (kernel_pool s)" and pf: "pool_frames (kernel_pool s') = pool_frames (kernel_pool s)"
    using s'(5) pool_frames_same [OF s'(5)] by (simp_all add: same_pool_def get_pool_def)
  then have "kheap_ok (D - {f}) s'"
    using s'(2) mem vs cap by (simp add: kheap_ok_def k)
  moreover have "kmem_only s s'"
    using b(1,2) by (auto simp: kmem_only_def mem_only_def set_vbits_def)
  moreover have "heap_page (D - {f}) s' w g" if w: "heap_page D s w g" "w \<noteq> v" "g \<noteq> f" for w g
  proof -
    obtain q where q: "q < bm_cap ?b" "w = page_at ?v0 q"
      using w(1) by (auto simp: heap_page_def k)
    note pp = page_at_props [OF mem(4) q(1)]
    have "mmu (phys s') (cr3 s') w = mmu (phys s) (cr3 s) w"
      using s'(4) [of w] pp w(2) q(2) by simp
    then show ?thesis
      using w q vs cap pf by (auto simp: heap_page_def k)
  qed
  moreover have "mmu (phys s') (cr3 s') v = None"
    using s'(4) [of v] page_at_props [OF mem(4) r(1)] r(2) by simp
  ultimately show ?thesis
    using s'(1,3) by (auto simp: get_pool_def)
qed

text \<open>
  A task \<open>t\<close> that is on no queue and whose page and page directory are pages of the kernel heap with the frames \<open>f\<close> and \<open>g\<close>, and the pools
  that they go back to.
\<close>

definition reapable :: "u32 set \<Rightarrow> 'a mstate_scheme \<Rightarrow> addr list \<Rightarrow> addr set \<Rightarrow> (addr \<Rightarrow> addr list) \<Rightarrow> addr \<Rightarrow> u32 \<Rightarrow> u32 \<Rightarrow> bool" where
  "reapable D s as Q W t f g \<longleftrightarrow>
     lists_ok (lnks s) (thread_all_list s) as Q W \<and> thread_ready_list s \<in> Q \<and> t \<in> set as \<and> (\<forall>q\<in>Q. t \<notin> set (W q)) \<and>
     t \<noteq> main_thread s \<and> kheap_ok D s \<and> heap_page D s t f \<and> heap_page D s (pgdir (tasks s t)) g \<and> f \<noteq> g \<and>
     pid_ok s \<and> sema_waiters (lock_semaphore (pid_lock (the_pid_pool s))) \<in> Q \<and>
     1 \<le> pid (tasks s t) \<and> pid (tasks s t) \<le> int (bm_cap (pid_bitmap (the_pid_pool s)))"

lemma pid_ok_links:
  assumes "pid_ok s" and "the_pid_pool s' = the_pid_pool s" and "sema_value s' = sema_value s"
    and "lock_holder s' = lock_holder s" and "lock_repeat_nr s' = lock_repeat_nr s" and "cur s' = cur s"
    and "sema_waiters (lock_semaphore (pid_lock (the_pid_pool s))) \<in> Q"
    and "lists_ok (lnks s) al as Q W" and "lists_ok (lnks s') al' as' Q W"
  shows "pid_ok s'"
proof -
  let ?q = "sema_waiters (lock_semaphore (pid_lock (the_pid_pool s)))"
  have "list_empty ?q (lnks s)"
    using assms(1) by (simp add: pid_ok_def lock_free_def)
  moreover have "list_rep (lnks s) ?q (map general_tag (W ?q))" "list_rep (lnks s') ?q (map general_tag (W ?q))"
    using assms(7-9) by (auto simp: lists_ok_def)
  ultimately have "list_empty ?q (lnks s')"
    by (simp add: list_empty_rep)
  then show ?thesis
    using assms(1-6) by (simp add: pid_ok_def lock_free_def)
qed

lemma release_pid_used:
  assumes ok: "pid_ok s" and p: "1 \<le> p" "p \<le> int (bm_cap (pid_bitmap (the_pid_pool s)))"
  obtains b where "release_pid p s = Some (set_pid_bitmap b s)" and "pids_used (set_pid_bitmap b s) = pids_used s - {p}"
    and "pid_ok (set_pid_bitmap b s)"
proof -
  let ?i = "nat (p - 1)" and ?b = "pid_bitmap (the_pid_pool s)"
  have i: "?i < bm_cap ?b" "int ?i + 1 = p"
    using p by auto
  obtain b where b: "bitmap_set ?b ?i 0 = Some b" "bm_wf b" "bm_cap b = bm_cap ?b" "bm_used b = bm_used ?b - {?i}"
    using bitmap_pool.release_step [OF _ i(1)] ok by (auto simp: pid_ok_def)
  have "release_pid p s = Some (set_pid_bitmap b s)"
    using release_pid_eq [OF ok i(1)] b(1) i(2) by simp
  moreover have "(\<lambda>j. int j + 1) ` (bm_used ?b - {?i}) = (\<lambda>j. int j + 1) ` bm_used ?b - {int ?i + 1}"
    by (subst image_set_diff) (simp_all add: inj_on_def)
  then have "pids_used (set_pid_bitmap b s) = pids_used s - {p}"
    using b(4) by (simp only: i(2)) (simp add: pids_used_def set_pid_bitmap_def)
  ultimately show thesis
    using that pid_ok_set_bitmap [OF ok b(2,3)] by blast
qed

lemma thread_exit_frees:
  assumes ok: "reapable D s as Q W t f g"
  shows "\<exists>s'. thread_exit t False s = Some s' \<and> lists_ok (lnks s') (thread_all_list s) (remove1 t as) Q W \<and>
    tasks s' = (tasks s)(t := (tasks s t)\<lparr>status := TASK_DIED\<rparr>) \<and> cur s' = cur s \<and>
    pids_used s' = pids_used s - {pid (tasks s t)} \<and> pid_ok s' \<and> kheap_ok (D - {f, g}) s' \<and>
    free_frames (kernel_pool s') = {f, g} \<union> free_frames (kernel_pool s) \<and>
    mmu (phys s') (cr3 s') t = None"
proof -
  note d = ok [unfolded reapable_def]
  let ?s = "upd_task t (status_update (\<lambda>_. TASK_DIED)) (s\<lparr>intr := INTR_OFF\<rparr>)" and ?dir = "pgdir (tasks s t)"
  have L: "lists_ok (lnks s) (thread_all_list s) as Q W" and nq: "\<And>q. q \<in> Q \<Longrightarrow> t \<notin> set (W q)"
    using d by blast+
  have "kheap_ok D ?s = kheap_ok D s" "heap_page D ?s v h = heap_page D s v h" for v h
    by (rule kheap_cong; simp add: upd_task_def)+
  then have hs: "kheap_ok D ?s" "heap_page D ?s ?dir g" "heap_page D ?s t f"
    using d by simp_all
  have ne: "t \<noteq> ?dir"
    using hs(2,3) d by (auto simp: heap_page_def)
  obtain s3 where s3: "mfree_page PF_KERNEL ?dir 1 ?s = Some s3" "kheap_ok (D - {g}) s3" "kmem_only ?s s3"
      "free_frames (kernel_pool s3) = insert g (free_frames (kernel_pool ?s))" "heap_page (D - {g}) s3 t f"
    using free_heap_page [OF hs(1,2)] hs(3) ne d by blast
  note k3 = kmem_onlyD [OF s3(3)]
  let ?s4 = "s3\<lparr>lnks := list_remove (all_list_tag t) (lnks s3)\<rparr>"
  obtain us vs where as: "as = us @ t # vs" "t \<notin> set us"
    using d split_list_first [of t as] by blast
  then have r1: "remove1 t as = us @ vs"
    by (simp add: remove1_append)
  have L4: "lists_ok (lnks ?s4) (thread_all_list s) (remove1 t as) Q W"
    using lists_all_remove [of "lnks s" _ us t vs Q W] L nq k3(1) unfolding r1 unfolding as(1) by simp
  have "kheap_ok (D - {g}) ?s4 = kheap_ok (D - {g}) s3" "heap_page (D - {g}) ?s4 t f = heap_page (D - {g}) s3 t f"
    by (rule kheap_cong; simp)+
  then obtain s5 where s5: "mfree_page PF_KERNEL t 1 ?s4 = Some s5" "kheap_ok (D - {g} - {f}) s5" "kmem_only ?s4 s5"
      "free_frames (kernel_pool s5) = insert f (free_frames (kernel_pool s3))" "mmu (phys s5) (cr3 s5) t = None"
    using free_heap_page [of "D - {g}" ?s4 t f] s3 by auto
  note k5 = kmem_onlyD [OF s5(3)]
  have "pid_ok s5"
    by (rule pid_ok_links [of s s5 Q "thread_all_list s" as W "thread_all_list s" "remove1 t as"]) (use d k3 k5 L4 in simp_all)
  moreover have "1 \<le> pid (tasks s t)" "pid (tasks s t) \<le> int (bm_cap (pid_bitmap (the_pid_pool s5)))"
    using d k3(7) k5(7) by simp_all
  ultimately obtain b where b: "release_pid (pid (tasks s t)) s5 = Some (set_pid_bitmap b s5)" "pid_ok (set_pid_bitmap b s5)"
      "pids_used (set_pid_bitmap b s5) = pids_used s5 - {pid (tasks s t)}"
    using release_pid_used [of s5 "pid (tasks s t)"] by metis
  have "?dir \<noteq> NULL"
  proof -
    obtain r where "r < bm_cap (vaddr_bitmap (kernel_vaddr s))" "?dir = page_at (vaddr_start (kernel_vaddr s)) r"
      using d by (auto simp: heap_page_def)
    then show ?thesis
      using page_at_props [of "vaddr_start (kernel_vaddr s)" _ r] d by (auto simp: kheap_ok_def NULL_def PDE_IDX_def)
  qed
  then have "thread_exit t False s = Some (set_pid_bitmap b s5)"
    using lists_find [OF L, of "thread_ready_list s" t] nq d s3(1) s5(1) b(1) k3 k5
    by (simp add: thread_exit_def Let_def upd_task_def)
  moreover have "kheap_ok (D - {f, g}) (set_pid_bitmap b s5)"
  proof -
    have "D - {g} - {f} = D - {f, g}"
      by auto
    then show ?thesis
      using s5(2) kheap_cong(1) [of "set_pid_bitmap b s5" s5] by (simp add: set_pid_bitmap_def)
  qed
  ultimately show ?thesis
    using L4 k3 k5 b(2,3) s3(4) s5(4,5)
    by (intro exI [of _ "set_pid_bitmap b s5"]) (auto simp: set_pid_bitmap_def pids_used_def upd_task_def)
qed

section \<open>Waiting for a child\<close>

definition child_of :: "'a kstate_scheme \<Rightarrow> addr \<Rightarrow> addr \<Rightarrow> bool" where
  "child_of s p t \<longleftrightarrow> parent_pid (tasks s t) = pid (tasks s p)"

definition zombie_of :: "'a kstate_scheme \<Rightarrow> addr \<Rightarrow> addr \<Rightarrow> bool" where
  "zombie_of s p t \<longleftrightarrow> child_of s p t \<and> status (tasks s t) = TASK_HANGING"

lemma sys_wait_eq:
  assumes L: "lists_ok (lnks s) (thread_all_list s) as Q W" and "at_pages as"
  shows "sys_wait s = (case find (zombie_of s (cur s)) as of
      Some t \<Rightarrow> map_option (Pair (Reaped (pid (tasks s t)) (exit_status (tasks s t)))) (thread_exit t False s)
    | None \<Rightarrow> if \<forall>t\<in>set as. \<not> child_of s (cur s) t then Some (No_child, s)
              else map_option (Pair Asleep) (thread_block TASK_WAITING s))"
proof -
  let ?p = "pid (tasks s (cur s))"
  have h: "list_traversal lnks (thread_all_list s) (find_hanging_child ?p) s = Some (first_task (zombie_of s (cur s)) as, s)"
    using search_all [OF L, of "find_hanging_child ?p" "\<lambda>t u. parent_pid (tasks u t) = ?p \<and> status (tasks u t) = TASK_HANGING"]
    by (simp add: find_hanging_child_def zombie_of_def [abs_def] child_of_def Let_def)
  have c: "list_traversal lnks (thread_all_list s) (find_child ?p) s = Some (first_task (child_of s (cur s)) as, s)"
    using search_all [OF L, of "find_child ?p" "\<lambda>t u. parent_pid (tasks u t) = ?p"]
    by (simp add: find_child_def child_of_def [abs_def])
  note fc = first_task_cases(1) [OF assms(2)]
  show ?thesis
  proof (cases "find (zombie_of s (cur s)) as")
    case None
    then have "first_task (zombie_of s (cur s)) as = NULL"
      by (simp add: first_task_def)
    then show ?thesis
      using None h c fc [of "child_of s (cur s)"]
      by (simp add: sys_wait_def running_thread_def map_option_case Option.bind_eq_None_conv split: option.split)
  next
    case (Some t)
    then have "first_task (zombie_of s (cur s)) as = all_list_tag t" "first_task (zombie_of s (cur s)) as \<noteq> NULL"
      using first_task_cases(2) [OF assms(2) Some] fc [of "zombie_of s (cur s)"] by auto
    then show ?thesis
      using Some h by (simp add: sys_wait_def running_thread_def map_option_case split: option.split)
  qed
qed

section \<open>A small family\<close>

text \<open>
  A parent at 0x1000, the idle thread at 0x2000 and a child in the first page of the kernel heap; the child's page and the next one, which may be
  its page directory, have the frames 0x200000 and 0x201000.
\<close>

definition family_links :: links where
  "family_links =
     list_append 0x100 (general_tag 0x2000)
      (list_append 0x200 (all_list_tag 0xc0100000) (list_append 0x200 (all_list_tag 0x2000)
       (list_append 0x200 (all_list_tag 0x1000)
        (list_init 0x508 (list_init 0x200 (list_init 0x100 \<lparr>lprev = (\<lambda>_. 0), lnext = (\<lambda>_. 0)\<rparr>))))))"

definition family_task :: "task_status \<Rightarrow> task_status \<Rightarrow> addr \<Rightarrow> addr \<Rightarrow> task_struct" where
  "family_task stp stc dir t =
     (if t = 0x1000 then sample_task stp
      else if t = 0x2000 then (sample_task TASK_READY)\<lparr>pid := 3\<rparr>
      else (sample_task stc)\<lparr>pid := 2, parent_pid := 1, exit_status := 7, pgdir := dir\<rparr>)"

definition family :: "addr \<Rightarrow> task_status \<Rightarrow> task_status \<Rightarrow> addr \<Rightarrow> mstate" where
  "family cu stp stc dir = sample_mem\<lparr>cur := cu, tasks := family_task stp stc dir, lnks := family_links,
     the_pid_pool := \<lparr>pid_bitmap = \<lparr>btmp_bytes_len = 1, bits = [7]\<rparr>, pid_start = 1, pid_lock = 0x500\<rparr>,
     phys := sample_phys(0x101400 := 0x200003, 0x101404 := 0x201003),
     kernel_pool := (sample_pool 0x200000)\<lparr>pool_bitmap := \<lparr>btmp_bytes_len = 2, bits = [3, 0, 0]\<rparr>\<rparr>\<rparr>"

definition family_queues :: "addr \<Rightarrow> addr list" where
  "family_queues = (\<lambda>_. [])(0x100 := [0x2000])"

lemma family_lists: "lists_ok family_links 0x200 [0x1000, 0x2000, 0xc0100000] {0x100, 0x508} family_queues"
  by (simp add: lists_ok_def layout_ok_def list_rep_def list_head_def list_tail_def general_tag_def
      all_list_tag_def family_queues_def family_links_def list_append_def list_insert_before_def
      list_init_def NULL_def Let_def)

lemma family_at_pages: "at_pages [0x1000, 0x2000, 0xc0100000]"
  by (simp add: at_pages_def page_off_def)

lemma family_simps [simp]:
  "cur (family cu stp stc dir) = cu" "tasks (family cu stp stc dir) = family_task stp stc dir"
  "lnks (family cu stp stc dir) = family_links" "thread_ready_list (family cu stp stc dir) = 0x100"
  "thread_all_list (family cu stp stc dir) = 0x200" "idle_thread (family cu stp stc dir) = 0x2000"
  "main_thread (family cu stp stc dir) = 0x1000" "cr3 (family cu stp stc dir) = 0x100000"
  by (simp_all add: family_def sample_mem_def sample_kstate_def kstate.defs)

lemma family_sched:
  assumes "cu = 0x1000 \<and> stp = TASK_RUNNING \<and> stc \<in> {TASK_BLOCKED, TASK_WAITING, TASK_HANGING} \<or>
    cu = 0xc0100000 \<and> stc = TASK_RUNNING \<and> stp \<in> {TASK_BLOCKED, TASK_WAITING, TASK_HANGING}"
  shows "sched_ok (family cu stp stc NULL) [0x1000, 0x2000, 0xc0100000] {0x100, 0x508} family_queues"
proof -
  have "spaces_ok m 0x100000 (\<lambda>t. pgdir (family_task stp stc NULL t)) as" for m as
    unfolding spaces_ok_def by (rule exI [of _ "{0x100000}"]) (simp add: family_task_def sample_task_def)
  then show ?thesis
    using family_lists assms
    by (auto simp: sched_ok_def sched_pre_def family_queues_def family_task_def sample_task_def NULL_def)
qed

abbreviation family_frames :: "u32 set" where
  "family_frames \<equiv> {0x200000, 0x201000}"

lemma family_memory: "memory_ok family_frames (family cu stp stc dir)"
proof -
  let ?p = "(sample_pool 0x200000)\<lparr>pool_bitmap := \<lparr>btmp_bytes_len = 2, bits = [3, 0, 0]\<rparr>\<rparr>"
  let ?m = "sample_phys(0x101400 := 0x200003, 0x101404 := 0x201003)"
  have a: "frame 0x200000 = 0x200000" "frame 0x210000 = 0x210000"
    by (simp_all add: frame_def)
  have pk: "pool_ok ?p" and cap: "bm_cap (pool_bitmap ?p) = 16"
    using a by (simp_all add: pool_ok_def bm_wf_def bm_cap_def) (simp add: sample_pool_def)+
  have at: "frame_at ?p 0 = 0x200000" "frame_at ?p 1 = 0x201000"
    by (simp_all add: frame_at_def sample_pool_def)
  then have D: "family_frames = {frame_at ?p 0, frame_at ?p 1}"
    by simp
  have used: "0 \<in> bm_used (pool_bitmap ?p)" "1 \<in> bm_used (pool_bitmap ?p)"
    by (simp_all add: bm_used_def bm_cap_def bm_bit_def)
  have nf: "family_frames \<inter> free_frames ?p = {}"
    using used frame_at_inj [OF pk, of 0] frame_at_inj [OF pk, of 1] unfolding D free_frames_def cap by auto
  have fa: "frame_at ?p = frame_at (sample_pool 0x200000)"
    by (auto simp: frame_at_def)
  have sub: "pool_frames ?p = free_frames (sample_pool 0x200000)"
    using sample_pools(2,3) [OF a(1)] by (simp add: pool_frames_def free_frames_def fa cap) (simp add: bm_cap_def)
  have in_pool: "family_frames \<subseteq> pool_frames ?p"
    unfolding D pool_frames_def cap by auto
  have "tables_ok ?m 0x100000 F = tables_ok sample_phys 0x100000 F" for F
  proof (rule tables_ok_cong)
    fix i :: u32
    assume "i \<le> 0x3ff"
    then have "unat i \<le> 1023"
      by (simp add: word_le_nat_alt)
    then have "unat (0x100000 + i * 4) \<le> 0x100ffc"
      by (simp add: unat_word_ariths)
    then have "0x100000 + i * 4 \<noteq> 0x101400" "0x100000 + i * 4 \<noteq> 0x101404"
      by auto
    then show "pde_of ?m 0x100000 i = pde_of sample_phys 0x100000 i"
      by (simp add: pde_of_def frame_def)
  qed
  moreover have "tables_ok sample_phys 0x100000 (free_frames ?p \<union> free_frames (sample_pool 0x210000) \<union> family_frames)"
    by (rule tables_ok_mono [OF memory_okD(4) [OF sample_memory_ok, simplified]])
       (use in_pool sub free_sub_pool [of ?p] in auto)
  moreover have "family_frames \<inter> free_frames (sample_pool 0x210000) = {}"
    using sample_pools(5) [OF a(2)] by fastforce
  moreover have "pool_ok (sample_pool 0x210000)"
    by (rule sample_pools(1) [OF a(2)]) simp_all
  moreover have "unat (phy_addr_start ?p) + 16 * 4096 \<le> unat (phy_addr_start (sample_pool 0x210000))"
    by (simp add: sample_pool_def)
  ultimately show ?thesis
    using pk nf cap by (simp add: memory_ok_def family_def Int_Un_distrib)
qed

lemma family_mmu:
  "mmu (phys (family cu stp stc dir)) 0x100000 0xc0100000 = Some 0x200000"
  "mmu (phys (family cu stp stc dir)) 0x100000 0xc0101000 = Some 0x201000"
  by (simp_all add: mmu_def family_def sample_phys_def pde_addr_def pte_addr_def PDE_IDX_def PTE_IDX_def)

lemma family_heap:
  "kheap_ok family_frames (family cu stp stc dir)"
  "heap_page family_frames (family cu stp stc dir) 0xc0100000 0x200000"
  "heap_page family_frames (family cu stp stc dir) 0xc0101000 0x201000"
proof -
  let ?s = "family cu stp stc dir"
  have kv: "kernel_vaddr ?s = \<lparr>vaddr_bitmap = \<lparr>btmp_bytes_len = 2, bits = [0, 0, 0]\<rparr>, vaddr_start = 0xc0100000\<rparr>"
    by (simp add: family_def sample_mem_def kstate.defs K_HEAP_START_def)
  have cap: "bm_cap (vaddr_bitmap (kernel_vaddr ?s)) = 16"
    by (simp add: kv bm_cap_def)
  have kp: "kernel_pool ?s = (sample_pool 0x200000)\<lparr>pool_bitmap := \<lparr>btmp_bytes_len = 2, bits = [3, 0, 0]\<rparr>\<rparr>"
    by (simp add: family_def)
  have "0x102000 \<le> phy_addr_start (kernel_pool ?s)" "range_ok (0xc0100000 :: u32) 16"
    by (simp_all add: kp sample_pool_def range_ok_def frame_def)
  then show "kheap_ok family_frames ?s"
    using family_memory cap by (simp add: kheap_ok_def kv bm_wf_def)
  have "frame_at (kernel_pool ?s) 0 = 0x200000" "frame_at (kernel_pool ?s) 1 = 0x201000"
    by (simp_all add: kp frame_at_def sample_pool_def)
  moreover have "frame_at (kernel_pool ?s) i \<in> pool_frames (kernel_pool ?s)" if "i < 16" for i
    using that by (simp add: pool_frames_def kp bm_cap_def)
  ultimately have "0x200000 \<in> pool_frames (kernel_pool ?s)" "0x201000 \<in> pool_frames (kernel_pool ?s)"
    by (metis one_less_numeral_iff semiring_norm(76) zero_less_numeral)+
  moreover have "page_at 0xc0100000 0 = 0xc0100000" "page_at 0xc0100000 1 = 0xc0101000"
    by (simp_all add: page_at_def)
  then have "\<exists>r<16. 0xc0100000 = page_at 0xc0100000 r" "\<exists>r<16. 0xc0101000 = page_at 0xc0100000 r"
    by (metis one_less_numeral_iff semiring_norm(76) zero_less_numeral)+
  ultimately show "heap_page family_frames ?s 0xc0100000 0x200000" "heap_page family_frames ?s 0xc0101000 0x201000"
    using family_mmu by (simp_all add: heap_page_def cap) (simp_all add: kv)
qed

lemma family_reapable:
  "reapable family_frames (family 0x1000 TASK_RUNNING TASK_HANGING 0xc0101000) [0x1000, 0x2000, 0xc0100000] {0x100, 0x508}
     family_queues 0xc0100000 0x200000 0x201000"
proof -
  let ?s = "family 0x1000 TASK_RUNNING TASK_HANGING 0xc0101000"
  have pool: "the_pid_pool ?s = \<lparr>pid_bitmap = \<lparr>btmp_bytes_len = 1, bits = [7]\<rparr>, pid_start = 1, pid_lock = 0x500\<rparr>"
    by (simp add: family_def)
  have "list_empty 0x508 family_links"
    using lists_empty [OF family_lists, where q = "0x508"] by (simp add: family_queues_def)
  then have "pid_ok ?s"
    by (simp add: pid_ok_def pool lock_free_def bm_wf_def bm_cap_def sema_waiters_def lock_semaphore_def NULL_def)
       (simp add: family_def sample_mem_def sample_kstate_def kstate.defs NULL_def)
  moreover have "pgdir (tasks ?s 0xc0100000) = 0xc0101000" "pid (tasks ?s 0xc0100000) = 2"
    by (simp_all add: family_task_def)
  ultimately show ?thesis
    using family_heap family_lists
    by (simp add: reapable_def pool bm_cap_def sema_waiters_def lock_semaphore_def family_queues_def)
qed

section \<open>Properties\<close>



text \<open>
  \<^verbatim>\<open>sys_wait\<close> when no child has exited: without children it fails and changes nothing; with children that still run the caller
  goes to sleep as waiting, the front of the ready queue gets the processor, and the scheduler's invariant is kept.
\<close>

theorem sys_wait_waits:
  assumes "sched_ok s as Q W" and "at_pages as" and "cur s \<noteq> idle_thread s" and "\<forall>t\<in>set as. \<not> zombie_of s (cur s) t"
  shows "if \<forall>t\<in>set as. \<not> child_of s (cur s) t then sys_wait s = Some (No_child, s)
    else \<exists>s'. sys_wait s = Some (Asleep, s') \<and> status (tasks s' (cur s)) = TASK_WAITING \<and>
      cur s' = hd (W (thread_ready_list s) @ [idle_thread s]) \<and>
      sched_ok s' as Q (W(thread_ready_list s := tl (W (thread_ready_list s))))"
proof -
  note pre = sched_okD(1) [OF assms(1)]
  have f: "find (zombie_of s (cur s)) as = None"
    using assms(4) find_None_iff [of "zombie_of s (cur s)" as] by auto
  obtain n ns where n: "W (thread_ready_list s) @ [idle_thread s] = n # ns"
    by (cases "W (thread_ready_list s)") auto
  obtain s' where s': "thread_block TASK_WAITING s = Some s'" "cur s' = n"
      "sched_ok s' as Q (W(thread_ready_list s := tl (W (thread_ready_list s))))"
      "status (tasks s' (cur s)) = (if n = cur s then TASK_RUNNING else TASK_WAITING)"
    using thread_block_ok [OF assms(1) _ _ n, of TASK_WAITING] assms(3) by auto
  have "n \<noteq> cur s"
    using n assms(3) sched_okD(3) [OF assms(1) sched_preD(2) [OF pre]] by (cases "W (thread_ready_list s)") auto
  then show ?thesis
    using sys_wait_eq [OF sched_preD(1) [OF pre] assms(2)] f s' n by simp
qed

theorem sys_wait_waits_witness:
  "\<exists>s'. sys_wait (family 0x1000 TASK_RUNNING TASK_BLOCKED NULL) = Some (Asleep, s') \<and>
    status (tasks s' 0x1000) = TASK_WAITING \<and> cur s' = 0x2000"
proof -
  let ?s = "family 0x1000 TASK_RUNNING TASK_BLOCKED NULL"
  have ok: "sched_ok ?s [0x1000, 0x2000, 0xc0100000] {0x100, 0x508} family_queues"
    by (rule family_sched) simp
  have "\<forall>t\<in>set [0x1000, 0x2000, 0xc0100000]. \<not> zombie_of ?s (cur ?s) t"
    by (simp add: zombie_of_def family_task_def sample_task_def)
  moreover have "\<not> (\<forall>t\<in>set [0x1000, 0x2000, 0xc0100000]. \<not> child_of ?s (cur ?s) t)"
    by (simp add: child_of_def family_task_def sample_task_def)
  ultimately have "\<exists>s'. sys_wait ?s = Some (Asleep, s') \<and> status (tasks s' (cur ?s)) = TASK_WAITING \<and>
      cur s' = hd (family_queues (thread_ready_list ?s) @ [idle_thread ?s])"
    using sys_wait_waits [OF ok family_at_pages] by auto
  then show ?thesis
    by (simp add: family_queues_def)
qed

text \<open>
  C9. The exit of a process whose parent sleeps in \<^verbatim>\<open>sys_wait\<close> hands the processor to that parent at once, ahead of every ready
  thread, and the parent, going round the loop of \<^verbatim>\<open>sys_wait\<close> again, finds this child and ends the call with its pid and its exit status.
\<close>

theorem exit_wakes_parent:
  assumes "sched_ok s as Q W" and "at_pages as" and "cur s \<noteq> idle_thread s" and "p \<in> set as" and "child_of s p (cur s)"
    and "\<And>u. u \<in> set as \<Longrightarrow> pid (tasks s u) = pid (tasks s p) \<Longrightarrow> u = p" and "status (tasks s p) = TASK_WAITING"
    and "\<forall>t\<in>set as. \<not> zombie_of s p t"
  shows "\<exists>s'. exit_notify (cur s) s = Some s' \<and> cur s' = p \<and> sched_ok s' as Q W \<and> status (tasks s' (cur s)) = TASK_HANGING \<and>
    sys_wait s' = map_option (Pair (Reaped (pid (tasks s (cur s))) (exit_status (tasks s (cur s))))) (thread_exit (cur s) False s')"
proof -
  let ?c = "cur s" and ?r = "thread_ready_list s"
  note pre = sched_okD(1) [OF assms(1)] and run = sched_okD(2) [OF assms(1)]
  have pc: "p \<noteq> ?c" "p \<noteq> NULL" "p \<noteq> idle_thread s"
    using run assms(4,7) sched_preD(5,9) [OF pre] by auto
  have nq: "p \<notin> set (W q)" if "q \<in> Q" for q
    using sched_preD(6) [OF pre assms(4)] sched_preD(8) [OF pre that, of p] assms(7) by (cases "q = ?r") auto
  have find: "pid2thread (parent_pid (tasks s ?c)) s = Some p"
    using pid2thread_eq [OF sched_preD(1) [OF pre] assms(2,4,6)] assms(5) by (simp add: child_of_def)
  obtain s1 where s1: "thread_unblock p s = Some s1" "sched_ok s1 as Q (W(?r := p # W ?r))" "cur s1 = ?c"
      "tasks s1 = (tasks s)(p := (tasks s p)\<lparr>status := TASK_READY\<rparr>)" "thread_ready_list s1 = ?r" "idle_thread s1 = idle_thread s"
    using thread_unblock_ok [OF assms(1,4) nq] assms(7) by auto
  have i: "cur s1 = idle_thread s1 \<Longrightarrow> TASK_HANGING = TASK_BLOCKED"
    and rq: "(W(?r := p # W ?r)) (thread_ready_list s1) @ [idle_thread s1] = p # W ?r @ [idle_thread s]"
    using s1(3,5,6) assms(3) by simp_all
  have h: "TASK_HANGING \<in> {TASK_BLOCKED, TASK_WAITING, TASK_HANGING}"
    by simp
  obtain L' s2 where s2: "thread_block TASK_HANGING s1 = Some s2"
      "s2 = switched (intr s1) p L' (upd_task (cur s1) (status_update (\<lambda>_. TASK_HANGING)) (s1\<lparr>intr := INTR_OFF\<rparr>))"
      and ok2: "sched_ok s2 as Q ((W(?r := p # W ?r))(thread_ready_list s1 := tl ((W(?r := p # W ?r)) (thread_ready_list s1))))"
    by (rule thread_block_eq [OF s1(2) h i rq])
  have ok2: "sched_ok s2 as Q W"
    using ok2 s1(5) by simp
  have T: "tasks s2 = (tasks s)(?c := (tasks s ?c)\<lparr>status := TASK_HANGING\<rparr>, p := (tasks s p)\<lparr>status := TASK_RUNNING\<rparr>)"
    using pc(1) s1(3,4) by (auto simp: s2(2) requeued_def fun_eq_iff)
  have z: "zombie_of s2 p u = (u = ?c)" if "u \<in> set as" for u
    using that assms(5,8) pc(1) by (auto simp: zombie_of_def child_of_def T)
  have "find (zombie_of s2 p) as = Some ?c"
    using z sched_preD(3) [OF pre] by (intro find_unique) auto
  moreover have "cur s2 = p"
    by (simp add: s2(2))
  ultimately have "sys_wait s2 = map_option (Pair (Reaped (pid (tasks s2 ?c)) (exit_status (tasks s2 ?c)))) (thread_exit ?c False s2)"
    using sys_wait_eq [OF sched_preD(1) [OF sched_okD(1) [OF ok2]] assms(2)] by simp
  then show ?thesis
    using find s1 s2(1) ok2 assms(7) pc T \<open>cur s2 = p\<close> by (intro exI [of _ s2]) (simp add: exit_notify_def)
qed


theorem exit_wakes_parent_witness:
  "\<exists>s'. exit_notify 0xc0100000 (family 0xc0100000 TASK_WAITING TASK_RUNNING NULL) = Some s' \<and> cur s' = 0x1000 \<and>
    sys_wait s' = map_option (Pair (Reaped 2 7)) (thread_exit 0xc0100000 False s')"
proof -
  let ?s = "family 0xc0100000 TASK_WAITING TASK_RUNNING NULL"
  have ok: "sched_ok ?s [0x1000, 0x2000, 0xc0100000] {0x100, 0x508} family_queues"
    by (rule family_sched) simp
  have "\<exists>s'. exit_notify (cur ?s) ?s = Some s' \<and> cur s' = 0x1000 \<and>
      sched_ok s' [0x1000, 0x2000, 0xc0100000] {0x100, 0x508} family_queues \<and> status (tasks s' (cur ?s)) = TASK_HANGING \<and>
      sys_wait s' = map_option (Pair (Reaped (pid (tasks ?s (cur ?s))) (exit_status (tasks ?s (cur ?s))))) (thread_exit (cur ?s) False s')"
    by (rule exit_wakes_parent [OF ok family_at_pages])
       (auto simp: child_of_def zombie_of_def family_task_def sample_task_def)
  then show ?thesis
    by (auto simp: family_task_def)
qed

end
