(* ===== verification/Task_Start.thy ===== *)
theory Task_Start
  imports Task Inode_Disk
begin

text \<open>
  The start of a thread: \<^verbatim>\<open>init_thread\<close> leaves a task of the right shape, and joining the two lists of tasks extends the
  invariant of the scheduler by it.
\<close>

section \<open>The shape of a task\<close>

definition task_typed :: "task_struct \<Rightarrow> bool" where
  "task_typed t \<longleftrightarrow> length (name t) = TASK_NAME_LEN \<and> terminated (name t) 0 \<and>
     length (fd_table t) = MAX_FILES_OPEN_PER_PROC \<and> (\<forall>g\<in>set (fd_table t). -1 \<le> g \<and> g < int MAX_FILE_OPEN) \<and>
     length (u_block_desc t) = DESC_CNT \<and> 1 \<le> pid t \<and> pid t < 2 ^ 15 \<and> -1 \<le> parent_pid t \<and> parent_pid t < 2 ^ 15 \<and>
     ticks t = priority t \<and> stack_magic t = 0x19870916"

text \<open>The lock of the pid pool does not lie in the structure that is cleared.\<close>

definition pid_lock_outside :: "addr \<Rightarrow> 'a kstate_scheme \<Rightarrow> bool" where
  "pid_lock_outside t s \<longleftrightarrow> sizeof_task_struct \<le> list_head (sema_waiters (lock_semaphore (pid_lock (the_pid_pool s)))) - t"

lemma clear_task_simps [simp]:
  "the_pid_pool (clear_task t s) = the_pid_pool s" "tasks (clear_task t s) = (tasks s)(t := zero_task)"
  "main_thread (clear_task t s) = main_thread s"
  by (simp_all add: clear_task_def upd_task_def mem_zero_def)

lemma clear_task_pid_ok:
  assumes "pid_ok s" and "pid_lock_outside t s"
  shows "pid_ok (clear_task t s)"
  using assms
  by (auto simp: pid_ok_def lock_free_def pid_lock_outside_def list_empty_def clear_task_def upd_task_def mem_zero_def)

lemma allocate_pid_left:
  assumes ok: "pid_ok s" and left: "pids_left s \<noteq> {..<bm_cap (pid_bitmap (the_pid_pool s))}"
  obtains i b where "allocate_pid s = Some (int i + 1, set_pid_bitmap b s)" and "pid_ok (set_pid_bitmap b s)"
    and "i < bm_cap (pid_bitmap (the_pid_pool s))" and "int i + 1 \<notin> pids_used s"
    and "pids_used (set_pid_bitmap b s) = insert (int i + 1) (pids_used s)"
proof -
  let ?b = "pid_bitmap (the_pid_pool s)"
  have "bm_wf ?b"
    using ok by (simp add: pid_ok_def)
  from scan_and_set_eq [OF this] left obtain i b where b: "scan_and_set ?b = Some (i, b)" "bm_wf b" "bm_cap b = bm_cap ?b"
      "i < bm_cap ?b" "i \<notin> bm_used ?b" "bm_used b = insert i (bm_used ?b)"
    by (auto simp: pids_left_def)
  have "allocate_pid s = Some (int i + 1, set_pid_bitmap b s)"
    using allocate_pid_eq [OF ok] b(1) by simp
  moreover have "int i + 1 \<notin> pids_used s" "pids_used (set_pid_bitmap b s) = insert (int i + 1) (pids_used s)"
    using b(5,6) by (auto simp: pids_used_def set_pid_bitmap_def)
  ultimately show thesis
    using that pid_ok_set_bitmap [OF ok b(2,3)] b(4) by blast
qed

lemma fds_of_new_task:
  "(wr (replicate 8 0) 0 0 \<bind> (\<lambda>t0. wr t0 1 1 \<bind> (\<lambda>t1. wr t1 2 2 \<bind> close_fds 5 3))) = Some [0, 1, 2, -1, -1, -1, -1, -1]"
  by (simp add: eval_nat_numeral wr_def)

lemma init_thread_ok:
  assumes ok: "pid_ok s" and out: "pid_lock_outside t s"
    and left: "pids_left s \<noteq> {..<bm_cap (pid_bitmap (the_pid_pool s))}"
    and nm: "terminated nm 0" "length (cstr nm 0) < TASK_NAME_LEN"
  shows "\<exists>s'. init_thread t nm prio s = Some s' \<and> task_typed (tasks s' t) \<and> cstr (name (tasks s' t)) 0 = cstr nm 0 \<and>
    pid (tasks s' t) \<notin> pids_used s \<and> pids_used s' = insert (pid (tasks s' t)) (pids_used s) \<and>
    status (tasks s' t) = (if t = main_thread s then TASK_RUNNING else TASK_READY) \<and>
    priority (tasks s' t) = of_int prio \<and> self_kstack (tasks s' t) = t + PG_SIZE \<and> pgdir (tasks s' t) = NULL \<and>
    parent_pid (tasks s' t) = -1 \<and> pid_ok s' \<and> (\<forall>u. u \<noteq> t \<longrightarrow> tasks s' u = tasks s u) \<and>
    (\<exists>T b. s' = upd_task t (\<lambda>_. T) (set_pid_bitmap b (clear_task t s)))"
proof -
  note c = clear_task_pid_ok [OF ok out]
  have "pids_left (clear_task t s) \<noteq> {..<bm_cap (pid_bitmap (the_pid_pool (clear_task t s)))}"
    using left by (simp add: pids_left_def)
  from allocate_pid_left [OF c this] obtain i b where
      a: "allocate_pid (clear_task t s) = Some (int i + 1, set_pid_bitmap b (clear_task t s))"
      and pok: "pid_ok (set_pid_bitmap b (clear_task t s))" and i: "i < bm_cap (pid_bitmap (the_pid_pool s))"
      and new: "int i + 1 \<notin> pids_used s" and used: "pids_used (set_pid_bitmap b (clear_task t s)) = insert (int i + 1) (pids_used s)"
    by (auto simp: pids_used_def)
  have small: "int i + 1 < 2 ^ 15"
    using i ok by (simp add: pid_ok_def)
  obtain n where n: "strcpy (replicate 16 0) 0 nm 0 = Some n"
    using nm by (simp add: strcpy_eq TASK_NAME_LEN_def)
  note nn = strcpy_length [OF n] strcpy_cstr(1,3) [OF nm(1) n]
  let ?s = "set_pid_bitmap b (clear_task t s)"
  let ?t = "zero_task\<lparr>pid := int i + 1, name := n, status := if t = main_thread s then TASK_RUNNING else TASK_READY,
    self_kstack := t + PG_SIZE, priority := of_int prio, ticks := of_int prio, elapsed_ticks := 0, pgdir := NULL,
    fd_table := [0, 1, 2, -1, -1, -1, -1, -1], cwd_inode_nr := 0, parent_pid := -1, stack_magic := 0x19870916\<rparr>"
  have fd: "fd_table zero_task = replicate 8 0" "name zero_task = replicate 16 0" "length (u_block_desc zero_task) = DESC_CNT"
    by (simp_all add: zero_task_def MAX_FILES_OPEN_PER_PROC_def TASK_NAME_LEN_def)
  have ts: "tasks ?s = (tasks s)(t := zero_task)" "main_thread ?s = main_thread s"
    by (simp_all add: set_pid_bitmap_def)
  have "init_thread t nm prio s = Some (upd_task t (\<lambda>_. ?t) ?s)"
    using fds_of_new_task n by (simp add: init_thread_def a ts fd MAX_FILES_OPEN_PER_PROC_def upd_task_def)
  moreover have "task_typed ?t"
    using nn small fd(3) by (simp add: task_typed_def TASK_NAME_LEN_def MAX_FILES_OPEN_PER_PROC_def MAX_FILE_OPEN_def)
  moreover have "pid_ok (upd_task t (\<lambda>_. ?t) ?s)" "pids_used (upd_task t (\<lambda>_. ?t) ?s) = pids_used ?s"
    using pok by (simp_all add: pid_ok_def lock_free_def pids_used_def upd_task_def)
  ultimately show ?thesis
    using new used nn(2) ts by (intro exI [of _ "upd_task t (\<lambda>_. ?t) ?s"]) auto
qed

section \<open>Joining the lists of tasks\<close>

lemma append_keeps_all:
  assumes ok: "lists_ok L al as Q W" and r: "r \<in> Q" and lay: "layout_ok (insert al Q) (as @ [t])"
  shows "list_rep (list_append r (general_tag t) L) al (map all_list_tag as)"
proof (rule list_rep_frame)
  note parts = ok [unfolded lists_ok_def]
  show "list_rep L al (map all_list_tag as)"
    using parts by blast
  have rep: "list_rep L r (map general_tag (W r))" and sub: "set (W r @ [t]) \<subseteq> set (as @ [t])"
    using parts r by auto
  have "list_nodes r (map general_tag (W r @ [t])) \<inter> list_nodes al (map all_list_tag (as @ [t])) = {}"
    by (rule layout_disjoint_all [OF lay r _ sub]) (use parts in blast)
  moreover have "insert (general_tag t) (list_nodes r (map general_tag (W r))) = list_nodes r (map general_tag (W r @ [t]))"
    by (auto simp: list_nodes_def)
  moreover fix e assume e: "e \<in> list_nodes al (map all_list_tag as)"
  from e have "e \<in> list_nodes al (map all_list_tag (as @ [t]))"
    by (auto simp: list_nodes_def)
  ultimately have "e \<notin> insert (general_tag t) (list_nodes r (map general_tag (W r)))"
    by blast
  then show "lnext (list_append r (general_tag t) L) e = lnext L e \<and> lprev (list_append r (general_tag t) L) e = lprev L e"
    by (rule list_append_frame [OF rep])
qed

lemma lists_join:
  assumes ok: "lists_ok L al as Q W" and r: "r \<in> Q" and t: "t \<notin> set as" and lay: "layout_ok (insert al Q) (as @ [t])"
  shows "lists_ok (list_append al (all_list_tag t) (list_append r (general_tag t) L)) al (as @ [t]) Q (W(r := W r @ [t]))"
proof -
  let ?L = "list_append r (general_tag t) L" and ?W = "W(r := W r @ [t])"
  let ?M = "list_append al (all_list_tag t) ?L"
  note parts = ok [unfolded lists_ok_def]
  have al: "al \<notin> Q"
    using parts by blast
  have sub: "set (W q) \<subseteq> set as" "set (W q) \<subseteq> set (as @ [t])" if "q \<in> Q" for q
    using parts that by auto
  have rep: "list_rep L q (map general_tag (W q))" if "q \<in> Q" for q
    using parts that by blast
  have newq: "insert (general_tag t) (list_nodes r (map general_tag (W r))) = list_nodes r (map general_tag (W r @ [t]))"
    by (auto simp: list_nodes_def)
  have newa: "insert (all_list_tag t) (list_nodes al (map all_list_tag as)) = list_nodes al (map all_list_tag (as @ [t]))"
    by (auto simp: list_nodes_def)
  have q1: "list_rep ?L q (map general_tag (?W q))" if q: "q \<in> Q" for q
  proof (cases "q = r")
    case True
    have "general_tag t \<notin> list_nodes r (map general_tag (W r))"
      using lay r t sub(1) [OF r] by (auto simp: list_nodes_def layout_ok_def)
    then show ?thesis
      using True list_append_rep [OF rep [OF r]] by simp
  next
    case False
    have "set (W q) \<inter> set (W r @ [t]) = {}"
      using parts q r False sub(1) [OF q] t by auto
    then have dis: "list_nodes q (map general_tag (W q)) \<inter> list_nodes r (map general_tag (W r @ [t])) = {}"
      by (intro layout_disjoint [OF lay]) (use q r False sub(2) in auto)
    have "list_rep ?L q (map general_tag (W q))"
    proof (rule list_rep_frame [OF rep [OF q]])
      fix e assume "e \<in> list_nodes q (map general_tag (W q))"
      then have "e \<notin> insert (general_tag t) (list_nodes r (map general_tag (W r)))"
        using dis unfolding newq by blast
      then show "lnext ?L e = lnext L e \<and> lprev ?L e = lprev L e"
        by (rule list_append_frame [OF rep [OF r]])
    qed
    then show ?thesis
      using False by simp
  qed
  have dis: "list_nodes q (map general_tag (?W q)) \<inter> list_nodes al (map all_list_tag (as @ [t])) = {}" if "q \<in> Q" for q
    by (rule layout_disjoint_all [OF lay that al]) (use sub(2) that in auto)
  have "list_rep ?L al (map all_list_tag as)"
    by (rule append_keeps_all [OF ok r lay])
  note fr = list_append_frame [OF this, of _ "all_list_tag t", unfolded newa] and ap = list_append_rep [OF this]
  have "all_list_tag t \<notin> list_nodes al (map all_list_tag as)"
    using lay t by (auto simp: list_nodes_def layout_ok_def)
  from ap [OF this] have "list_rep ?M al (map all_list_tag (as @ [t]))"
    by simp
  moreover have "list_rep ?M q (map general_tag (?W q)) \<and> set (?W q) \<subseteq> set (as @ [t])" if "q \<in> Q" for q
  proof
    show "list_rep ?M q (map general_tag (?W q))"
    proof (rule list_rep_frame [OF q1 [OF that]])
      fix e assume "e \<in> list_nodes q (map general_tag (?W q))"
      then have "e \<notin> list_nodes al (map all_list_tag (as @ [t]))"
        using dis [OF that] by blast
      then show "lnext ?M e = lnext ?L e \<and> lprev ?M e = lprev ?L e"
        by (rule fr)
    qed
    show "set (?W q) \<subseteq> set (as @ [t])"
      using sub(2) [OF that] sub(2) [OF r] by auto
  qed
  moreover have "set (?W q) \<inter> set (?W q') = {}" if "q \<in> Q" "q' \<in> Q" "q \<noteq> q'" for q q'
  proof -
    have "set (W q) \<inter> set (W q') = {}"
      using parts that by blast
    then show ?thesis
      using t that sub(1) [OF that(1)] sub(1) [OF that(2)] by auto
  qed
  ultimately show ?thesis
    using lay al unfolding lists_ok_def by blast
qed

text \<open>A place for a new task: its structure holds no node of the lists and none of its tags clashes with one.\<close>

definition room_for_task :: "addr \<Rightarrow> addr \<Rightarrow> addr list \<Rightarrow> addr set \<Rightarrow> (addr \<Rightarrow> addr list) \<Rightarrow> bool" where
  "room_for_task t al as Q W \<longleftrightarrow> t \<noteq> NULL \<and> t \<notin> set as \<and> layout_ok (insert al Q) (as @ [t]) \<and>
     (\<forall>n \<in> list_nodes al (map all_list_tag as). sizeof_task_struct \<le> n - t) \<and>
     (\<forall>q\<in>Q. \<forall>n \<in> list_nodes q (map general_tag (W q)). sizeof_task_struct \<le> n - t)"

lemma clear_task_lists:
  assumes "lists_ok (lnks s) al as Q W" and "room_for_task t al as Q W"
  shows "lists_ok (lnks (clear_task t s)) al as Q W"
proof -
  have fr: "lnext (lnks (clear_task t s)) n = lnext (lnks s) n \<and> lprev (lnks (clear_task t s)) n = lprev (lnks s) n"
    if "sizeof_task_struct \<le> n - t" for n
    using that by (auto simp: clear_task_def mem_zero_def upd_task_def)
  have rep: "list_rep (lnks s) al (map all_list_tag as)" "\<And>q. q \<in> Q \<Longrightarrow> list_rep (lnks s) q (map general_tag (W q))"
    using assms(1) by (simp_all add: lists_ok_def)
  have out: "n \<in> list_nodes al (map all_list_tag as) \<Longrightarrow> sizeof_task_struct \<le> n - t"
      "q \<in> Q \<Longrightarrow> n \<in> list_nodes q (map general_tag (W q)) \<Longrightarrow> sizeof_task_struct \<le> n - t" for n q
    using assms(2) by (simp_all add: room_for_task_def)
  have "list_rep (lnks (clear_task t s)) al (map all_list_tag as)"
    by (rule list_rep_frame [OF rep(1) fr [OF out(1)]])
  moreover have "list_rep (lnks (clear_task t s)) q (map general_tag (W q))" if "q \<in> Q" for q
    by (rule list_rep_frame [OF rep(2) [OF that] fr [OF out(2) [OF that]]])
  ultimately show ?thesis
    using assms(1) unfolding lists_ok_def by blast
qed

text \<open>The thread will be switched to at \<^verbatim>\<open>kernel_thread\<close>, which calls the function with its argument.\<close>

definition enters :: "code_ptr \<Rightarrow> u32 \<Rightarrow> addr \<Rightarrow> 'a pstate_scheme \<Rightarrow> bool" where
  "enters func arg t s \<longleftrightarrow> (let f = thread_stacks s (self_kstack (tasks s t))
     in ts_eip f = Kernel_thread \<and> ts_function f = func \<and> ts_func_arg f = arg)"

lemma launch_ok:
  assumes sok: "sched_ok s as Q W" and room: "room_for_task t (thread_all_list s) as Q W"
    and s1: "s1 = upd_task t (\<lambda>_. T) (set_pid_bitmap b (clear_task t s))" and T: "status T = TASK_READY" "pgdir T = NULL"
  shows "\<exists>s'. (join_ready t (thread_create t func arg s1) \<bind> join_all t) = Some s' \<and>
    sched_ok s' (as @ [t]) Q (W(thread_ready_list s := W (thread_ready_list s) @ [t])) \<and> cur s' = cur s \<and>
    tasks s' = (tasks s)(t := T\<lparr>self_kstack := self_kstack T - 432\<rparr>) \<and> enters func arg t s'"
proof -
  let ?r = "thread_ready_list s" and ?al = "thread_all_list s" and ?k = "self_kstack T - 432"
  note pre = sched_okD(1) [OF sok]
  have rd: "t \<noteq> NULL" "t \<notin> set as" "layout_ok (insert ?al Q) (as @ [t])"
    using room by (simp_all add: room_for_task_def)
  let ?s2 = "thread_create t func arg s1"
  have f: "lnks ?s2 = lnks (clear_task t s)" "tasks ?s2 = (tasks s)(t := T\<lparr>self_kstack := ?k\<rparr>)"
      "thread_ready_list ?s2 = ?r" "thread_all_list ?s2 = ?al" "cur ?s2 = cur s" "idle_thread ?s2 = idle_thread s"
      "phys ?s2 = phys s" "cr3 ?s2 = cr3 s"
    by (simp_all add: s1 thread_create_def Let_def upd_task_def set_pid_bitmap_def clear_task_def mem_zero_def
        sizeof_intr_stack_def sizeof_thread_stack_def)
  have L: "lists_ok (lnks ?s2) ?al as Q W"
    using clear_task_lists [OF sched_preD(1) [OF pre] room] f(1) by simp
  let ?L = "list_append ?al (all_list_tag t) (list_append ?r (general_tag t) (lnks ?s2))"
  have J: "lists_ok ?L ?al (as @ [t]) Q (W(?r := W ?r @ [t]))"
    by (rule lists_join [OF L sched_preD(2) [OF pre] rd(2,3)])
  have q: "t \<notin> set (W q)" if "q \<in> Q" for q
    using W_subset [OF L that] rd(2) by blast
  have "elem_find ?r (general_tag t) (lnks ?s2) = Some False"
    using lists_find [OF L sched_preD(2) [OF pre]] q [OF sched_preD(2) [OF pre]] by simp
  then have j1: "join_ready t ?s2 = Some (?s2\<lparr>lnks := list_append ?r (general_tag t) (lnks ?s2)\<rparr>)"
    by (simp add: join_ready_def f(3))
  let ?s3 = "?s2\<lparr>lnks := list_append ?r (general_tag t) (lnks ?s2)\<rparr>"
  have "all_list_tag t \<notin> set (map all_list_tag as)"
    using rd(2) by auto
  then have "elem_find ?al (all_list_tag t) (lnks ?s3) = Some False"
    using elem_find_rep [OF append_keeps_all [OF L sched_preD(2) [OF pre] rd(3)]] by simp
  then have j2: "join_all t ?s3 = Some (?s2\<lparr>lnks := ?L\<rparr>)"
    by (simp add: join_all_def f(4))
  let ?s4 = "?s2\<lparr>lnks := ?L\<rparr>"
  have tc: "t \<noteq> cur s" "t \<noteq> idle_thread s"
    using sched_preD(3,4) [OF pre] rd(2) by auto
  have "sched_pre ?s4 (as @ [t]) Q (W(?r := W ?r @ [t]))"
    unfolding sched_pre_def
  proof (intro conjI ballI impI)
    show "lists_ok (lnks ?s4) (thread_all_list ?s4) (as @ [t]) Q (W(?r := W ?r @ [t]))"
      using J f(4) by simp
    fix u assume u: "u \<in> set (as @ [t])"
    show "(status (tasks ?s4 u) = TASK_READY) = (u \<in> set ((W(?r := W ?r @ [t])) (thread_ready_list ?s4)))"
      using sched_preD(6) [OF pre, of u] u T(1) f(2,3) by (cases "u = t") auto
    show "u = cur ?s4" if "status (tasks ?s4 u) = TASK_RUNNING"
      using that sched_preD(7) [OF pre, of u] u T(1) f(2,5) by (cases "u = t") auto
  next
    fix q u assume "q \<in> Q - {thread_ready_list ?s4}" and u: "u \<in> set ((W(?r := W ?r @ [t])) q)"
    then have q': "q \<in> Q" "q \<noteq> ?r"
      using f(3) by auto
    then have "status (tasks s u) = TASK_BLOCKED \<and> u \<noteq> idle_thread s" "u \<noteq> t"
      using sched_preD(8) [OF pre q', of u] u q [OF q'(1)] by auto
    then show "status (tasks ?s4 u) = TASK_BLOCKED" "u \<noteq> idle_thread ?s4"
      using f(2,6) by simp_all
  next
    have sp: "spaces_ok (phys s) (cr3 s) (\<lambda>t. pgdir (tasks s t)) as"
      by (rule sched_preD(10) [OF pre])
    show "spaces_ok (phys ?s4) (cr3 ?s4) (\<lambda>u. pgdir (tasks ?s4 u)) (as @ [t])"
      using sp rd(2) T(2) unfolding spaces_ok_def by (simp add: f) blast
  qed (use sched_preD(2-5,9) [OF pre] rd f tc in auto)
  moreover have "status (tasks ?s4 (cur ?s4)) = TASK_RUNNING"
    using sched_okD(2) [OF sok] tc f by simp
  ultimately have "sched_ok ?s4 (as @ [t]) Q (W(?r := W ?r @ [t]))"
    by (simp add: sched_ok_def)
  moreover have "enters func arg t ?s2"
    by (simp add: enters_def s1 thread_create_def Let_def upd_task_def)
  then have "enters func arg t ?s4"
    by (simp add: enters_def)
  ultimately show ?thesis
    using j1 j2 f by (intro exI [of _ ?s4]) simp
qed

section \<open>A small machine\<close>

definition sample_pstate :: pstate where
  "sample_pstate = fstate.extend (sample_fstate\<lparr>lnks := sample_links, sema_value := (\<lambda>_. 1), the_pid_pool := \<lparr>pid_bitmap = \<lparr>btmp_bytes_len = 1, bits = [3]\<rparr>, pid_start = 1, pid_lock = 0x500\<rparr>\<rparr>)
     \<lparr>thread_stacks = (\<lambda>_. \<lparr>ts_ebp = 0, ts_ebx = 0, ts_edi = 0, ts_esi = 0, ts_eip = Idle, ts_retaddr = 0, ts_function = Idle, ts_func_arg = 0\<rparr>),
      intr_stacks = (\<lambda>_. \<lparr>vec_no = 0, is_edi = 0, is_esi = 0, is_ebp = 0, esp_dummy = 0, is_ebx = 0, is_edx = 0, is_ecx = 0, is_eax = 0,
        is_gs = 0, is_fs = 0, is_es = 0, is_ds = 0, err_code = 0, is_eip = Idle, is_cs = 0, is_eflags = 0, is_esp = 0, is_ss = 0\<rparr>),
      vaddr_bits = (\<lambda>_. NULL)\<rparr>"

lemma sample_pstate_simps:
  "cur sample_pstate = 0x1000" "tasks sample_pstate = tasks sample_kstate" "lnks sample_pstate = sample_links"
  "thread_ready_list sample_pstate = 0x100" "thread_all_list sample_pstate = 0x200" "idle_thread sample_pstate = 0x2000"
  "main_thread sample_pstate = 0x1000" "sema_value sample_pstate = (\<lambda>_. 1)" "lock_holder sample_pstate = (\<lambda>_. NULL)"
  "lock_repeat_nr sample_pstate = (\<lambda>_. 0)"
  "the_pid_pool sample_pstate = \<lparr>pid_bitmap = \<lparr>btmp_bytes_len = 1, bits = [3]\<rparr>, pid_start = 1, pid_lock = 0x500\<rparr>"
  by (simp_all add: sample_pstate_def sample_fstate_def sample_dstate_def sample_mem_def sample_kstate_def
      kstate.defs mstate.defs dstate.defs fstate.defs)

lemma sample_pstate_ok:
  "sched_ok sample_pstate [0x1000, 0x2000, 0x3000] {0x100, 0x508} sample_queues"
  "room_for_task 0xc0100000 0x200 [0x1000, 0x2000, 0x3000] {0x100, 0x508} sample_queues"
  "pid_ok sample_pstate" "pid_lock_outside 0xc0100000 sample_pstate"
  "pids_left sample_pstate \<noteq> {..<bm_cap (pid_bitmap (the_pid_pool sample_pstate))}"
proof -
  have "spaces_ok m c (\<lambda>t. pgdir (tasks sample_kstate t)) as" for as m c
    unfolding spaces_ok_def by (rule exI [of _ "{0x100000, c}"]) (simp add: sample_kstate_def sample_task_def)
  then show "sched_ok sample_pstate [0x1000, 0x2000, 0x3000] {0x100, 0x508} sample_queues"
    using sample_lists
    by (simp add: sched_ok_def sched_pre_def sample_queues_def sample_pstate_simps)
       (simp add: sample_kstate_def sample_task_def NULL_def)
  show "room_for_task 0xc0100000 0x200 [0x1000, 0x2000, 0x3000] {0x100, 0x508} sample_queues"
    by (simp add: room_for_task_def layout_ok_def list_nodes_def list_head_def list_tail_def general_tag_def all_list_tag_def
        sample_queues_def NULL_def sizeof_task_struct_def)
  have "list_empty 0x508 sample_links"
    using lists_empty [OF sample_lists, where q = "0x508"] by (simp add: sample_queues_def)
  then show "pid_ok sample_pstate"
    by (simp add: pid_ok_def sample_pstate_simps lock_free_def bm_wf_def bm_cap_def sema_waiters_def lock_semaphore_def NULL_def)
  show "pid_lock_outside 0xc0100000 sample_pstate"
    by (simp add: pid_lock_outside_def sample_pstate_simps sema_waiters_def lock_semaphore_def list_head_def sizeof_task_struct_def)
  have "2 \<notin> pids_left sample_pstate"
    by (simp add: pids_left_def bm_used_def sample_pstate_simps bm_bit_def)
  moreover have "2 \<in> {..<bm_cap (pid_bitmap (the_pid_pool sample_pstate))}"
    by (simp add: sample_pstate_simps bm_cap_def)
  ultimately show "pids_left sample_pstate \<noteq> {..<bm_cap (pid_bitmap (the_pid_pool sample_pstate))}"
    by metis
qed

section \<open>Properties\<close>



text \<open>
  C18. A thread that \<^verbatim>\<open>thread_start\<close> has launched is a thread of the scheduler: it is the last of the ready queue and of the list of all tasks, it will
  enter \<^verbatim>\<open>kernel_thread\<close> with its function and argument at the top of its stack frame, and the scheduler's invariant holds for the larger set of
  tasks, so that it gets its turn like every other.
\<close>

theorem thread_launch_joins:
  assumes "sched_ok s as Q W" and "room_for_task t (thread_all_list s) as Q W" and "t \<noteq> main_thread s"
    and "pid_ok s" and "pid_lock_outside t s" and "pids_left s \<noteq> {..<bm_cap (pid_bitmap (the_pid_pool s))}"
    and "terminated nm 0" and "length (cstr nm 0) < TASK_NAME_LEN"
  shows "\<exists>s'. thread_launch t nm prio func arg s = Some s' \<and>
    sched_ok s' (as @ [t]) Q (W(thread_ready_list s := W (thread_ready_list s) @ [t])) \<and> cur s' = cur s \<and>
    task_typed (tasks s' t) \<and> enters func arg t s' \<and> (\<forall>u. u \<noteq> t \<longrightarrow> tasks s' u = tasks s u)"
proof -
  obtain s1 T b where s1: "init_thread t nm prio s = Some s1" "task_typed (tasks s1 t)" "status (tasks s1 t) = TASK_READY"
      "pgdir (tasks s1 t) = NULL" "s1 = upd_task t (\<lambda>_. T) (set_pid_bitmap b (clear_task t s))"
    using init_thread_ok [OF assms(4-8), of prio] assms(3) by auto
  have T: "tasks s1 t = T"
    by (simp add: s1(5))
  obtain s' where s': "(join_ready t (thread_create t func arg s1) \<bind> join_all t) = Some s'"
      "sched_ok s' (as @ [t]) Q (W(thread_ready_list s := W (thread_ready_list s) @ [t]))" "cur s' = cur s"
      "tasks s' = (tasks s)(t := T\<lparr>self_kstack := self_kstack T - 432\<rparr>)" "enters func arg t s'"
    using launch_ok [OF assms(1,2) s1(5), of func arg] s1(3,4) T by auto
  have "thread_launch t nm prio func arg s = Some s'"
    using s1(1) s'(1) by (simp add: thread_launch_def)
  moreover have "task_typed (T\<lparr>self_kstack := k\<rparr>)" for k
    using s1(2) T by (simp add: task_typed_def)
  ultimately show ?thesis
    using s'(2-5) by (intro exI [of _ s']) simp
qed

theorem thread_launch_joins_witness:
  "\<exists>s'. thread_launch 0xc0100000 (str_bytes ''idle'' @ [0]) 10 Idle 0 sample_pstate = Some s' \<and>
    sched_ok s' [0x1000, 0x2000, 0x3000, 0xc0100000] {0x100, 0x508} (sample_queues(0x100 := [0x2000, 0x3000, 0xc0100000])) \<and>
    cur s' = 0x1000"
proof -
  have room: "room_for_task 0xc0100000 (thread_all_list sample_pstate) [0x1000, 0x2000, 0x3000] {0x100, 0x508} sample_queues"
    using sample_pstate_ok(2) by (simp add: sample_pstate_simps)
  have n: "terminated (str_bytes ''idle'' @ [0]) 0" "length (cstr (str_bytes ''idle'' @ [0]) 0) < TASK_NAME_LEN" "0xc0100000 \<noteq> main_thread sample_pstate"
    by (simp_all add: cstr_def terminated_def str_bytes_def TASK_NAME_LEN_def sample_pstate_simps)
  show ?thesis
    using thread_launch_joins [OF sample_pstate_ok(1) room n(3) sample_pstate_ok(3-5) n(1,2), of 10 Idle 0]
    by (auto simp: sample_pstate_simps sample_queues_def)
qed

end
