(* ===== verification/Address_Space.thy ===== *)
theory Address_Space
  imports Process
begin

text \<open>
  The address space of a new process. The words of a page are written through the page tables; as long as the page is no page table itself, that
  leaves every translation as it was, and the loops over a page fill its frame.
\<close>

section \<open>Writing to frames that hold no table\<close>

lemma pde_frame: "i \<le> 0x3ff \<Longrightarrow> frame (frame a + i * 4) = frame a"
  by (rule frame_of_add [OF idx4_less]) (simp add: word_le_nat_alt)

lemma mmu_agree:
  assumes ok: "tables_ok m cr F" and out: "\<And>x. frame x \<notin> F \<Longrightarrow> m' x = m x"
  shows "i \<le> 0x3ff \<Longrightarrow> pde_of m' cr i = pde_of m cr i" and "tables_ok m' cr F" and "mmu m' cr w = mmu m cr w"
proof -
  have cr: "frame cr \<notin> F"
    by (rule tables_okD(2) [OF ok])
  show p: "pde_of m' cr i = pde_of m cr i" if "i \<le> 0x3ff" for i
    using out [of "frame cr + i * 4"] cr pde_frame [OF that] by (simp add: pde_of_def)
  then show "tables_ok m' cr F"
    using ok tables_ok_cong [of m' cr m F] by blast
  let ?i = "PDE_IDX w"
  note pi = p [OF idx_le(1)]
  show "mmu m' cr w = mmu m cr w"
  proof (cases "present (pde_of m cr ?i)")
    case True
    have "frame (pde_of m cr ?i) \<notin> F"
    proof (cases "?i = 0x3ff")
      case True
      have "frame (pde_of m cr 0x3ff) = frame cr"
        using tables_okD(1) [OF ok] by (simp add: self_map_def pde_of_def)
      then show ?thesis
        using cr True by simp
    next
      case False
      then show ?thesis
        using tables_okD(3) [OF ok idx_lt [OF False] True] by blast
    qed
    moreover have "frame (frame (pde_of m cr ?i) + PTE_IDX w * 4) = frame (pde_of m cr ?i)"
      by (rule pde_frame [OF idx_le(2)])
    ultimately have "m' (pte_addr m cr w) = m (pte_addr m cr w)"
      using out unfolding pte_addr_alt by metis
    moreover have "pte_addr m' cr w = pte_addr m cr w"
      by (simp add: pte_addr_alt pi)
    ultimately show ?thesis
      by (simp add: mmu_parts pi)
  qed (simp add: mmu_parts pi)
qed

text \<open>A page that is mapped to a frame: every offset in it.\<close>

lemma mmu_offset:
  assumes "frame v = v" and "frame f = f" and "mmu m cr v = Some f" and "unat d < 4096"
  shows "mmu m cr (v + d) = Some (f + d)"
proof -
  have fr: "frame (v + d) = v" "frame (f + d) = f"
    using frame_of_add [OF assms(4)] assms(1,2) by metis+
  then have idx: "PDE_IDX (v + d) = PDE_IDX v" "PTE_IDX (v + d) = PTE_IDX v"
    using same_page_iff [of "v + d" v] assms(1) by auto
  have "page_off v = 0" "page_off (v + d) = d"
    using frame_plus_off [of v] frame_plus_off [of "v + d"] fr(1) assms(1) by (metis add_cancel_left_right, metis add_left_cancel)
  then show ?thesis
    using assms(3) by (auto simp: mmu_parts idx pte_addr_alt split: if_splits)
qed

text \<open>\<open>fill f k n g\<close> puts \<open>g j\<close> into word \<open>j\<close> of the frame \<open>f\<close>, for the words \<open>k\<close> to \<open>k + n - 1\<close>.\<close>

definition fill :: "u32 \<Rightarrow> nat \<Rightarrow> nat \<Rightarrow> (nat \<Rightarrow> u32) \<Rightarrow> (u32 \<Rightarrow> u32) \<Rightarrow> u32 \<Rightarrow> u32" where
  "fill f k n g m = fold (\<lambda>j m. m(f + of_nat j * 4 := g j)) [k..<k + n] m"

lemma fill_0 [simp]: "fill f k 0 g m = m"
  by (simp add: fill_def)

lemma fill_Suc: "fill f k (Suc n) g m = fill f (Suc k) n g (m(f + of_nat k * 4 := g k))"
proof -
  have "[k..<k + Suc n] = k # [Suc k..<Suc k + n]"
    by (simp add: upt_conv_Cons del: upt_Suc)
  then show ?thesis
    by (simp add: fill_def del: upt_Suc)
qed

lemma fill_cong: "(\<And>j. k \<le> j \<Longrightarrow> j < k + n \<Longrightarrow> g j = h j) \<Longrightarrow> fill f k n g m = fill f k n h m"
  unfolding fill_def by (rule fold_cong) (auto simp del: upt_Suc)

lemma word_in_frame: "j < 1024 \<Longrightarrow> unat (of_nat j * 4 :: u32) < 4096"
  by (rule idx4_less) (simp add: unat_of_nat)

lemma word_addr_inj:
  fixes f :: u32
  assumes "frame f = f" and "i < 1024" and "j < 1024"
  shows "(f + of_nat i * 4 = f + of_nat j * 4) = (i = j)"
proof -
  have "unat (of_nat i :: u32) = i" "unat (of_nat j :: u32) = j"
    using assms(2,3) by (simp_all add: unat_of_nat)
  then have "(of_nat i * 4 = of_nat j * (4 :: u32)) = (i = j)"
    using idx4_inj [of "of_nat i" "of_nat j"] assms(2,3) by (metis)
  then show ?thesis
    by simp
qed

lemma fill_outside: "frame f = f \<Longrightarrow> k + n \<le> 1024 \<Longrightarrow> frame x \<noteq> f \<Longrightarrow> fill f k n g m x = m x"
proof (induction n arbitrary: k m)
  case (Suc n)
  have "frame (f + of_nat k * 4) = f"
    using frame_of_add [OF word_in_frame, of k f] Suc.prems by simp
  then show ?case
    using Suc by (auto simp: fill_Suc)
qed simp

lemma fill_word:
  assumes "frame f = f" and "k + n \<le> 1024" and "j < 1024"
  shows "fill f k n g m (f + of_nat j * 4) = (if k \<le> j \<and> j < k + n then g j else m (f + of_nat j * 4))"
  using assms(2)
proof (induction n arbitrary: k m)
  case (Suc n)
  have "fill f (Suc k) n g (m(f + of_nat k * 4 := g k)) (f + of_nat j * 4) =
      (if Suc k \<le> j \<and> j < Suc k + n then g j else (m(f + of_nat k * 4 := g k)) (f + of_nat j * 4))"
    by (rule Suc.IH) (use Suc.prems in simp)
  then show ?case
    using word_addr_inj [OF assms(1), of j k] assms(3) Suc.prems by (auto simp: fill_Suc)
qed auto

section \<open>The loops over a page\<close>

text \<open>\<open>v\<close> is a page that is mapped to the frame \<open>f\<close>, which is no page table.\<close>

definition data_page :: "(u32 \<Rightarrow> u32) \<Rightarrow> u32 \<Rightarrow> u32 set \<Rightarrow> u32 \<Rightarrow> u32 \<Rightarrow> bool" where
  "data_page m cr F v f \<longleftrightarrow> tables_ok m cr F \<and> frame v = v \<and> frame f = f \<and> f \<in> F \<and> mmu m cr v = Some f"

lemma data_page_update:
  assumes ok: "data_page m cr F v f" and k: "k < 1024"
  shows "data_page (m(f + of_nat k * 4 := x)) cr F v f" and "vwrite m cr (v + of_nat k * 4) x = Some (m(f + of_nat k * 4 := x))"
    and "mmu (m(f + of_nat k * 4 := x)) cr w = mmu m cr w"
proof -
  note d = ok [unfolded data_page_def]
  have "frame (f + of_nat k * 4) = f"
    using frame_of_add [OF word_in_frame [OF k], of f] d by simp
  then have out: "(m(f + of_nat k * 4 := x)) y = m y" if "frame y \<notin> F" for y
    using that d by auto
  have t: "tables_ok m cr F"
    using d by blast
  show "mmu (m(f + of_nat k * 4 := x)) cr w = mmu m cr w" for w
    by (rule mmu_agree(3) [OF t out])
  then show "data_page (m(f + of_nat k * 4 := x)) cr F v f"
    using d mmu_agree(2) [OF t out] by (simp add: data_page_def del: fun_upd_apply)
  show "vwrite m cr (v + of_nat k * 4) x = Some (m(f + of_nat k * 4 := x))"
    using mmu_offset [OF _ _ _ word_in_frame [OF k], of v f m cr] d by (simp add: vwrite_def)
qed

lemma data_page_fill:
  assumes "data_page m cr F v f" and "k + n \<le> 1024"
  shows "data_page (fill f k n g m) cr F v f" and "mmu (fill f k n g m) cr w = mmu m cr w"
proof -
  have "data_page (fill f k n g m) cr F v f \<and> mmu (fill f k n g m) cr w = mmu m cr w"
    using assms
  proof (induction n arbitrary: k m)
    case (Suc n)
    have k: "k < 1024"
      using Suc.prems(2) by simp
    show ?case
      using Suc.IH [OF data_page_update(1) [OF Suc.prems(1) k], of "Suc k"] data_page_update(3) [OF Suc.prems(1) k] Suc.prems(2)
      by (simp add: fill_Suc del: fun_upd_apply)
  qed simp
  then show "data_page (fill f k n g m) cr F v f" and "mmu (fill f k n g m) cr w = mmu m cr w"
    by blast+
qed

lemma zero_words_fill:
  assumes "data_page (phys s) (cr3 s) F v f" and "k + n \<le> 1024"
  shows "zero_words n (v + of_nat k * 4) s = Some (s\<lparr>phys := fill f k n (\<lambda>_. 0) (phys s)\<rparr>)"
  using assms
proof (induction n arbitrary: k s)
  case (Suc n)
  let ?m = "(phys s)(f + of_nat k * 4 := 0)"
  have k: "k < 1024"
    using Suc.prems(2) by simp
  have "zero_words n (v + of_nat (Suc k) * 4) (s\<lparr>phys := ?m\<rparr>) = Some (s\<lparr>phys := fill f (Suc k) n (\<lambda>_. 0) ?m\<rparr>)"
    using Suc.IH [of "s\<lparr>phys := ?m\<rparr>" "Suc k"] data_page_update(1) [OF Suc.prems(1) k] Suc.prems(2)
    by (simp del: fun_upd_apply)
  then show ?case
    using data_page_update(2) [OF Suc.prems(1) k] by (simp add: fill_Suc algebra_simps)
qed simp

lemma copy_words_fill:
  assumes "data_page (phys s) (cr3 s) F v f" and "k + n \<le> 1024" and "frame u = u" and "frame g = g" and "g \<noteq> f"
    and "mmu (phys s) (cr3 s) u = Some g"
  shows "copy_words n (v + of_nat k * 4) (u + of_nat k * 4) s =
    Some (s\<lparr>phys := fill f k n (\<lambda>j. phys s (g + of_nat j * 4)) (phys s)\<rparr>)"
  using assms
proof (induction n arbitrary: k s)
  case (Suc n)
  let ?x = "phys s (g + of_nat k * 4)"
  let ?m = "(phys s)(f + of_nat k * 4 := ?x)"
  have k: "k < 1024"
    using Suc.prems(2) by simp
  have r: "vread (phys s) (cr3 s) (u + of_nat k * 4) = Some ?x"
    using mmu_offset [OF Suc.prems(3,4,6) word_in_frame [OF k]] by (simp add: vread_def)
  have "frame (f + of_nat k * 4) = f" "frame (g + of_nat j * 4) = g" if "j < 1024" for j
    using frame_of_add [OF word_in_frame [OF k], of f] frame_of_add [OF word_in_frame [OF that], of g] Suc.prems(1,4)
    by (simp_all add: data_page_def)
  then have same: "?m (g + of_nat j * 4) = phys s (g + of_nat j * 4)" if "j < 1024" for j
    using that Suc.prems(5) k by (metis fun_upd_other)
  have "copy_words n (v + of_nat (Suc k) * 4) (u + of_nat (Suc k) * 4) (s\<lparr>phys := ?m\<rparr>) =
      Some (s\<lparr>phys := fill f (Suc k) n (\<lambda>j. ?m (g + of_nat j * 4)) ?m\<rparr>)"
    using Suc.IH [of "s\<lparr>phys := ?m\<rparr>" "Suc k"] data_page_update(1,3) [OF Suc.prems(1) k] Suc.prems
    by (simp del: fun_upd_apply)
  moreover have "fill f (Suc k) n (\<lambda>j. ?m (g + of_nat j * 4)) ?m = fill f (Suc k) n (\<lambda>j. phys s (g + of_nat j * 4)) ?m"
    by (rule fill_cong, rule same) (use Suc.prems(2) in simp)
  ultimately show ?case
    using data_page_update(2) [OF Suc.prems(1) k] r by (simp add: fill_Suc algebra_simps)
qed simp

section \<open>A page for the kernel\<close>

text \<open>The lock of the kernel pool is free and lies in memory that is mapped.\<close>

definition pool_lock_ok :: "'a mstate_scheme \<Rightarrow> bool" where
  "pool_lock_ok s \<longleftrightarrow> lock_free (pool_lock (kernel_pool s)) s \<and>
     mmu (phys s) (cr3 s) (list_head (sema_waiters (lock_semaphore (pool_lock (kernel_pool s))))) \<noteq> None"

lemma locked_mem [simp]:
  "phys (locked l s) = phys s" "cr3 (locked l s) = cr3 s" "kernel_pool (locked l u) = kernel_pool u" "user_pool (locked l u) = user_pool u"
  "kernel_vaddr (locked l u) = kernel_vaddr u" "cur (locked l s) = cur s" "tasks (locked l s) = tasks s"
  by (simp_all add: locked_def)

lemma unlocked_zeroed [simp]:
  "phys (unlocked l (mem_zero v n s)) = phys s" "cr3 (unlocked l (mem_zero v n s)) = cr3 s" "tasks (unlocked l (mem_zero v n s)) = tasks s"
  "kernel_pool (unlocked l (mem_zero v n s)) = kernel_pool s" "user_pool (unlocked l (mem_zero v n s)) = user_pool s"
  by (simp_all add: unlocked_def mem_zero_def)

lemma page_table_add_only: "page_table_add v p s = Some s' \<Longrightarrow> mem_only s s'"
proof -
  have "mem_only s (s\<lparr>phys := m\<rparr>)" for m
    using mem_onlyI(1) [of s m "kernel_pool s"] by simp
  then show "page_table_add v p s = Some s' \<Longrightarrow> mem_only s s'"
    using mem_onlyI(1) by (auto simp: page_table_add_def Let_def bind_eq_Some_conv split: if_splits)
qed

lemma map_pages_only: "map_pages pf n v s = Some (b, s') \<Longrightarrow> mem_only s s'"
proof (induction n arbitrary: v s)
  case (Suc n)
  from Suc.prems obtain a p where p: "palloc (get_pool pf s) = Some (a, p)"
      "a = NULL \<and> s' = set_pool pf p s \<or> (\<exists>s1. page_table_add v a (set_pool pf p s) = Some s1 \<and> map_pages pf n (v + PG_SIZE) s1 = Some (b, s'))"
    by (auto simp: bind_eq_Some_conv split: if_splits)
  then show ?case
    using mem_onlyI(2) [of s pf p] page_table_add_only [of v a "set_pool pf p s"] Suc.IH mem_only_trans by blast
qed (simp add: mem_onlyI(3))

lemma kernel_vbits: "vspace PF_KERNEL s = kernel_vaddr s" "vbits PF_KERNEL s = vaddr_bitmap (kernel_vaddr s)"
  by (simp_all add: vspace_def vbits_def)

lemma vaddr_get_kernel_only:
  "vaddr_get PF_KERNEL n s = Some (v, s1) \<Longrightarrow> s1 = s \<or> (\<exists>kv. s1 = s\<lparr>kernel_vaddr := kv\<rparr>)"
  by (auto simp: vaddr_get_def bind_eq_Some_conv split: if_splits)

lemma malloc_kernel_only:
  assumes "malloc_page PF_KERNEL n s = Some (v, s')"
  shows "lnks s' = lnks s" "cur s' = cur s" "sema_value s' = sema_value s" "lock_holder s' = lock_holder s"
    "lock_repeat_nr s' = lock_repeat_nr s" "cr3 s' = cr3 s" "tasks s' = tasks s"
proof -
  obtain st s1 where g: "vaddr_get PF_KERNEL n s = Some (st, s1)"
      and r: "s' = s1 \<or> (\<exists>ok. map_pages PF_KERNEL (unat n) st s1 = Some (ok, s'))"
    using assms by (auto simp: malloc_page_def bind_eq_Some_conv split: if_splits)
  from r have "mem_only s1 s'"
    using map_pages_only mem_onlyI(3) by blast
  with vaddr_get_kernel_only [OF g] show "lnks s' = lnks s" "cur s' = cur s" "sema_value s' = sema_value s" "lock_holder s' = lock_holder s"
    "lock_repeat_nr s' = lock_repeat_nr s" "cr3 s' = cr3 s" "tasks s' = tasks s"
    by (auto simp: mem_only_def)
qed

lemma page_of_unmapped:
  assumes "mmu m cr w \<noteq> None" and "mmu m cr v = None" and "frame v = v"
  shows "\<not> w - v < 0x1000"
proof
  assume "w - v < 0x1000"
  then have "frame w = frame v"
    using in_frame [OF assms(3)] assms(3) by simp
  then have "PDE_IDX w = PDE_IDX v" "PTE_IDX w = PTE_IDX v"
    using same_page_iff by blast+
  then show False
    using assms(1,2) by (auto simp: mmu_parts pte_addr_alt split: if_splits)
qed

text \<open>The new page \<open>v\<close> with the frame \<open>f\<close>, in the state \<open>s'\<close> that comes after \<open>s\<close>.\<close>

definition new_page :: "u32 set \<Rightarrow> 'a mstate_scheme \<Rightarrow> u32 \<Rightarrow> u32 \<Rightarrow> 'a mstate_scheme \<Rightarrow> bool" where
  "new_page D s v f s' \<longleftrightarrow> v \<noteq> NULL \<and> frame v = v \<and> frame f = f \<and> f \<in> free_frames (kernel_pool s) \<and>
     mmu (phys s) (cr3 s) v = None \<and> memory_ok (insert f D) s' \<and> cr3 s' = cr3 s \<and> mmu (phys s') (cr3 s) v = Some f \<and>
     tasks s' = tasks s \<and>
     (\<forall>w. PDE_IDX w \<noteq> 0x3ff \<and> PDE_IDX w \<noteq> 0 \<and> frame w \<noteq> v \<longrightarrow> mmu (phys s') (cr3 s) w = mmu (phys s) (cr3 s) w)"

lemma get_kernel_page_ok:
  assumes ok: "memory_ok D s" and vok: "vspace_ok PF_KERNEL s" and lk: "pool_lock_ok s" and room: "room_for PF_KERNEL 1 s"
    and i: "i < bm_cap (vbits PF_KERNEL s)" "\<not> bm_bit (vbits PF_KERNEL s) i"
  shows "\<exists>v f s'. get_kernel_pages 1 s = Some (v, s') \<and> new_page D s v f s'"
proof -
  let ?l = "pool_lock (kernel_pool s)"
  let ?q = "list_head (sema_waiters (lock_semaphore ?l))" and ?s = "locked ?l s"
  have free: "lock_free ?l s" and mapped: "mmu (phys s) (cr3 s) ?q \<noteq> None"
    using lk by (simp_all add: pool_lock_ok_def)
  have ok1: "memory_ok D ?s" and vok1: "vspace_ok PF_KERNEL ?s" and room1: "room_for PF_KERNEL 1 ?s" and vb: "vspace PF_KERNEL ?s = vspace PF_KERNEL s" "vbits PF_KERNEL ?s = vbits PF_KERNEL s"
    using ok vok room by (simp_all add: memory_ok_def vspace_ok_def room_for_def kernel_vbits)
  have run: "i + 1 \<le> bm_cap (vbits PF_KERNEL ?s)" "free_run (vbits PF_KERNEL ?s) i 1"
    using i by (auto simp: vb free_run_def) (metis le_antisym less_Suc_eq_le)
  let ?base = "vaddr_start (vspace PF_KERNEL s)"
  obtain r fs s2 where m: "malloc_page PF_KERNEL 1 ?s = Some (page_at ?base r, s2)" and nn: "page_at ?base r \<noteq> NULL"
      and r: "r + 1 \<le> bm_cap (vbits PF_KERNEL s)" "free_run (vbits PF_KERNEL s) r 1" and fs: "length fs = 1" "set fs \<subseteq> free_frames (get_pool PF_KERNEL ?s)"
      and ok2: "memory_ok (D \<union> set fs) s2" and mr: "mapped_range ?s s2 (page_at ?base r) fs"
      and sp: "same_pool (get_pool PF_KERNEL ?s) (get_pool PF_KERNEL s2)"
    using malloc_page_ok [OF ok1 vok1 _ _ run room1] unfolding vb by auto
  let ?v = "page_at ?base r"
  obtain f where f: "fs = [f]"
    using fs(1) by (auto simp: length_Suc_conv)
  note only = malloc_kernel_only [OF m]
  have rng: "range_ok ?base (bm_cap (vbits PF_KERNEL s))" and rr: "r < bm_cap (vbits PF_KERNEL s)"
    using vok r(1) by (simp_all add: vspace_ok_def)
  note pp = page_at_props [OF rng rr]
  have un: "mmu (phys s) (cr3 s) ?v = None"
    using vok rr r(2) by (simp add: vspace_ok_def free_run_def)
  have pl: "pool_lock (get_pool PF_KERNEL s2) = ?l"
    using sp by (simp add: same_pool_def get_pool_def)
  let ?s3 = "mem_zero ?v (1 * PG_SIZE) s2"
  have z: "lnext (lnks ?s3) ?q = lnext (lnks s) ?q"
    using page_of_unmapped [OF mapped un pp(1)] only(1) by (simp add: mem_zero_def locked_def)
  then have mine: "lock_mine ?l ?s3"
    using free only by (simp add: lock_mine_def lock_free_def list_empty_def mem_zero_def locked_def)
  have get: "get_kernel_pages 1 s = Some (?v, unlocked ?l ?s3)"
    using with_lock_free [OF free] m nn lock_release_mine [OF mine] pl
    by (simp add: get_kernel_pages_def get_pages_def get_pool_def Let_def mem_zero_def)
  have ff: "f \<in> free_frames (kernel_pool s)"
    using fs(2) f by (simp add: get_pool_def)
  then obtain j where "f = frame_at (kernel_pool s) j" "j < bm_cap (pool_bitmap (kernel_pool s))"
    by (auto simp: free_frames_def)
  then have fr: "frame f = f"
    using frame_at_frame(1) [OF memory_okD(1) [OF ok]] by simp
  have "page_off ?v = 0"
    using frame_plus_off [of ?v] pp(1) by (metis add_cancel_left_right)
  then have mv: "mmu (phys s2) (cr3 s) ?v = Some f"
    using mr f pp only(6) unfolding mapped_range_def by (simp add: pp)
  have other: "mmu (phys s2) (cr3 s) w = mmu (phys s) (cr3 s) w" if "PDE_IDX w \<noteq> 0x3ff" "PDE_IDX w \<noteq> 0" "frame w \<noteq> ?v" for w
    using mr f that only(6) unfolding mapped_range_def by simp
  have "memory_ok (insert f D) (unlocked ?l ?s3)"
    using ok2 f only(6) by (simp add: memory_ok_def)
  then have "new_page D s ?v f (unlocked ?l ?s3)"
    using nn pp(1) fr ff un mv other only(6,7) by (simp add: new_page_def)
  then show ?thesis
    using get by blast
qed

section \<open>A page directory for a process\<close>

lemma self_map_window: "self_map m cr \<Longrightarrow> mmu m cr 0xfffff000 = Some (frame cr)"
  using mmu_pde_ptr [of m cr 0] by (simp add: pde_ptr_def pde_addr_def PDE_IDX_def frame_def)

text \<open>The words that \<^verbatim>\<open>create_page_dir\<close> leaves in the frame \<open>f\<close> when the current directory is at \<open>cr\<close>.\<close>

definition dir_words :: "u32 \<Rightarrow> u32 \<Rightarrow> (u32 \<Rightarrow> u32) \<Rightarrow> u32 \<Rightarrow> u32" where
  "dir_words f cr m = (let m1 = fill f 0 1024 (\<lambda>_. 0) m; m2 = fill f 768 256 (\<lambda>j. m1 (frame cr + of_nat j * 4)) m1
     in m2(f + of_nat 1023 * 4 := f OR PG_US_U OR PG_RW_W OR PG_P_1))"

lemma create_page_dir_eq:
  assumes g: "get_kernel_pages 1 s = Some (v, s1)" and v: "v \<noteq> NULL" and page: "data_page (phys s1) (cr3 s1) F v f"
  shows "create_page_dir s = Some (v, s1\<lparr>phys := dir_words f (cr3 s1) (phys s1)\<rparr>)"
proof -
  let ?cr = "cr3 s1" and ?m1 = "fill f 0 1024 (\<lambda>_. 0) (phys s1)"
  let ?m2 = "fill f 768 256 (\<lambda>j. ?m1 (frame ?cr + of_nat j * 4)) ?m1"
  have z: "zero_words 1024 v s1 = Some (s1\<lparr>phys := ?m1\<rparr>)"
    using zero_words_fill [OF page, of 0 1024] by simp
  note p1 = data_page_fill [OF page, of 0 1024 "\<lambda>_. 0"]
  note d = page [unfolded data_page_def]
  have t1: "tables_ok ?m1 ?cr F"
    using p1(1) by (simp add: data_page_def)
  have cr: "frame ?cr \<noteq> f" "frame (frame ?cr) = frame ?cr"
    using tables_okD(2) [OF t1] d frame_of_add [of 0 ?cr] by auto
  have c: "copy_words 256 (v + 0xc00) (0xfffff000 + 0xc00) (s1\<lparr>phys := ?m1\<rparr>) = Some (s1\<lparr>phys := ?m2\<rparr>)"
    using copy_words_fill [of "s1\<lparr>phys := ?m1\<rparr>" F v f 768 256 "0xfffff000" "frame ?cr"] p1(1) cr self_map_window [OF tables_okD(1) [OF t1]]
    by (simp add: frame_def)
  have page2: "data_page ?m2 ?cr F v f"
    by (rule data_page_fill(1)) (use p1 in simp_all)
  have a: "addr_v2p ?m2 ?cr v = Some f"
    using page2 addr_v2p_mmu [of ?m2 ?cr v f] tables_okD(1) by (auto simp: data_page_def)
  have w: "vwrite ?m2 ?cr (v + 0xffc) x = Some (?m2(f + 0xffc := x))" for x
    using data_page_update(2) [OF page2, of 1023] by simp
  show ?thesis
    using g v z c a w by (simp add: create_page_dir_def get_cleared_pages_def dir_words_def Let_def)
qed

lemma dir_words_outside:
  assumes "frame f = f" and "frame x \<noteq> f"
  shows "dir_words f cr m x = m x"
proof -
  have "frame (f + of_nat 1023 * 4) = f"
    using frame_of_add [OF word_in_frame [of 1023], of f] assms(1) by simp
  then show ?thesis
    using assms by (auto simp: dir_words_def Let_def fill_outside)
qed

lemma dir_words_entry:
  assumes f: "frame f = f" and cr: "frame cr \<noteq> f" and i: "i \<le> 0x3ff"
  shows "pde_of (dir_words f cr m) f i =
    (if i = 0x3ff then f OR PG_US_U OR PG_RW_W OR PG_P_1 else if 768 \<le> i then pde_of m cr i else 0)"
proof -
  obtain j where j: "i = of_nat j" "j < 1024"
    using i that [of "unat i"] by (simp add: word_le_nat_alt)
  then have u: "unat i = j"
    by (simp add: unat_of_nat)
  have e: "(f + of_nat j * 4 = f + of_nat 1023 * 4) = (i = 0x3ff)"
    using word_addr_inj [OF f j(2), of 1023] u by (simp add: word_unat_eq_iff)
  have g: "768 \<le> i \<longleftrightarrow> 768 \<le> j"
    using u by (simp add: word_le_nat_alt)
  have "frame (frame cr + of_nat j * 4) = frame cr"
    by (rule frame_of_add [OF word_in_frame [OF j(2)]])
  then have same: "fill f 0 1024 (\<lambda>_. 0) m (frame cr + of_nat j * 4) = pde_of m cr i"
    using cr by (simp add: fill_outside [OF f] pde_of_def j(1))
  have pd: "pde_of (dir_words f cr m) f i = dir_words f cr m (f + of_nat j * 4)"
    by (simp add: pde_of_def f j(1))
  show ?thesis
    unfolding pd g unfolding dir_words_def Let_def fun_upd_apply e
    using j(2) by (simp add: fill_word [OF f _ j(2)] same)
qed

lemma dir_words_space:
  assumes page: "data_page m cr F v f"
  shows "\<And>w. mmu (dir_words f cr m) cr w = mmu m cr w" and "tables_ok (dir_words f cr m) cr F"
    and "tables_ok (dir_words f cr m) f (F - {f})"
    and "\<And>w. PDE_IDX w < 768 \<Longrightarrow> mmu (dir_words f cr m) f w = None"
    and "\<And>w. 768 \<le> PDE_IDX w \<Longrightarrow> PDE_IDX w \<noteq> 0x3ff \<Longrightarrow> mmu (dir_words f cr m) f w = mmu m cr w"
proof -
  let ?m = "dir_words f cr m"
  note d = page [unfolded data_page_def]
  have t: "tables_ok m cr F" and f: "frame f = f" "f \<in> F"
    using d by blast+
  have cr: "frame cr \<noteq> f"
    using tables_okD(2) [OF t] f(2) by blast
  have out: "?m x = m x" if "frame x \<notin> F" for x
    using that f by (intro dir_words_outside) auto
  show mm: "mmu ?m cr w = mmu m cr w" for w
    by (rule mmu_agree(3) [OF t out])
  show "tables_ok ?m cr F"
    by (rule mmu_agree(2) [OF t out])
  have pc: "pde_of ?m cr i = pde_of m cr i" if "i \<le> 0x3ff" for i
    by (rule mmu_agree(1) [OF t out that])
  have pf: "pde_of ?m f i = (if i = 0x3ff then f OR PG_US_U OR PG_RW_W OR PG_P_1 else if 768 \<le> i then pde_of m cr i else 0)"
    if "i \<le> 0x3ff" for i
    by (rule dir_words_entry [OF f(1) cr that])
  have np: "\<not> present 0"
    by (simp add: present_def)
  show "mmu ?m f w = None" if "PDE_IDX w < 768" for w
  proof -
    have "PDE_IDX w \<noteq> 0x3ff" "\<not> 768 \<le> PDE_IDX w"
      using that by auto
    then show ?thesis
      using pf [OF idx_le(1), of w] np by (simp add: mmu_parts)
  qed
  show "mmu ?m f w = mmu m cr w" if "768 \<le> PDE_IDX w" "PDE_IDX w \<noteq> 0x3ff" for w
  proof -
    have "pde_of ?m f (PDE_IDX w) = pde_of ?m cr (PDE_IDX w)"
      using pf [OF idx_le(1), of w] pc [OF idx_le(1), of w] that by simp
    then have "mmu ?m f w = mmu ?m cr w"
      by (simp add: mmu_parts pte_addr_alt)
    then show ?thesis
      using mm by simp
  qed
  show "tables_ok ?m f (F - {f})"
    unfolding tables_ok_def
  proof (intro conjI allI impI)
    have "?m (frame f + 0xffc) = f OR PG_US_U OR PG_RW_W OR PG_P_1"
      using pf [of "0x3ff"] by (simp add: pde_of_def)
    then show "self_map ?m f"
      using entry_flags [OF f(1)] f(1) by (simp add: self_map_def present_def)
    show "frame f \<notin> F - {f}"
      using f(1) by simp
    fix i :: u32 assume i: "i < 0x3ff" and pr: "present (pde_of ?m f i)"
    then have pi: "pde_of ?m f i = pde_of m cr i"
      using pf [of i] np by (auto split: if_splits)
    have "frame (pde_of m cr i) \<notin> F"
      using tables_okD(3) [OF t i] pr pi by simp
    then show "frame (pde_of ?m f i) \<noteq> frame f" "frame (pde_of ?m f i) \<notin> F - {f}"
      using pi f by auto
  next
    fix i j :: u32
    assume i: "i < 0x3ff" and j: "j < 0x3ff"
      and pr: "present (pde_of ?m f i) \<and> present (pde_of ?m f j) \<and> frame (pde_of ?m f i) = frame (pde_of ?m f j)"
    then have "pde_of ?m f i = pde_of m cr i" "pde_of ?m f j = pde_of m cr j"
      using pf [of i] pf [of j] np by (auto split: if_splits)
    then show "i = j \<or> aliased i j"
      using tables_okD(4) [OF t i j] pr by simp
  qed
qed

section \<open>A small machine\<close>

text \<open>The small machine with its first page mapped, where the lock of the kernel pool lies.\<close>

definition sample_space :: mstate where
  "sample_space = sample_mem\<lparr>phys := sample_phys(0x101000 := 3), kernel_pool := (sample_pool 0x200000)\<lparr>pool_lock := 0x500\<rparr>\<rparr>"

lemma sample_space_pde: "i \<le> 0x3ff \<Longrightarrow> pde_of (sample_phys(0x101000 := 3)) 0x100000 i = pde_of sample_phys 0x100000 i"
proof -
  assume "i \<le> 0x3ff"
  then have "unat i \<le> 1023"
    by (simp add: word_le_nat_alt)
  then have "unat (0x100000 + i * 4) \<le> 0x100ffc"
    by (simp add: unat_word_ariths)
  then have "0x100000 + i * 4 \<noteq> 0x101000"
    by auto
  then show ?thesis
    by (simp add: pde_of_def frame_def)
qed

lemma sample_space_ok:
  "memory_ok {} sample_space" "vspace_ok PF_KERNEL sample_space" "pool_lock_ok sample_space" "room_for PF_KERNEL 1 sample_space"
  "0 < bm_cap (vbits PF_KERNEL sample_space)" "\<not> bm_bit (vbits PF_KERNEL sample_space) 0"
proof -
  let ?p = "(sample_pool 0x200000)\<lparr>pool_lock := 0x500\<rparr>" and ?m = "sample_phys(0x101000 := 3)"
  have ff: "free_frames ?p = free_frames (sample_pool 0x200000)"
    by (simp add: free_frames_def frame_at_def [abs_def])
  have "tables_ok ?m 0x100000 F = tables_ok sample_phys 0x100000 F" for F
    by (rule tables_ok_cong [OF sample_space_pde])
  then show "memory_ok {} sample_space"
    using sample_memory_ok by (simp add: memory_ok_def sample_space_def ff pool_ok_def)
  have vb: "vbits PF_KERNEL sample_space = vbits PF_KERNEL sample_mem" "vspace PF_KERNEL sample_space = vspace PF_KERNEL sample_mem"
    by (simp_all add: kernel_vbits sample_space_def)
  show cap: "0 < bm_cap (vbits PF_KERNEL sample_space)" "\<not> bm_bit (vbits PF_KERNEL sample_space) 0"
    unfolding vb by (simp_all add: kernel_vbits bm_cap_def bm_bit_def)
  have "mmu ?m 0x100000 (page_at 0xc0100000 i) = None" if i: "i < 16" for i
  proof -
    let ?w = "page_at 0xc0100000 i"
    have r: "range_ok 0xc0100000 16"
      by (simp add: range_ok_def frame_def)
    have "unat (PTE_IDX ?w) = (1024 * 768 + (0x100 + i)) mod 1024"
      using page_at_range [OF r i] by (simp add: unat_PTE_IDX)
    also have "\<dots> = 0x100 + i"
      using i by (subst mod_mult_self4) simp
    finally have "unat (PTE_IDX ?w) = 0x100 + i" .
    then have "unat (0x101000 + PTE_IDX ?w * 4) = 0x101400 + i * 4"
      using i by (simp add: unat_word_ariths)
    then have ne: "0x101000 + PTE_IDX ?w * 4 \<noteq> 0x101000"
      by auto
    have un: "mmu sample_phys 0x100000 ?w = None"
      by (rule sample_heap_page [OF i])
    have pd: "pde_of ?m 0x100000 (PDE_IDX ?w) = pde_of sample_phys 0x100000 (PDE_IDX ?w)"
      by (rule sample_space_pde [OF idx_le(1)])
    have "frame (pde_of sample_phys 0x100000 (PDE_IDX ?w)) = 0x101000" if "present (pde_of sample_phys 0x100000 (PDE_IDX ?w))"
      using that sample_pde [OF idx_le(1), of ?w] page_at_props(2) [OF r i] by (auto simp: frame_def present_def split: if_splits)
    then show ?thesis
      using un ne by (auto simp: mmu_parts pte_addr_alt pd split: if_splits)
  qed
  then show "vspace_ok PF_KERNEL sample_space"
    using sample_vspace_ok by (simp add: vspace_ok_def vb) (simp add: kernel_vbits bm_cap_def sample_space_def)
  have "list_empty 0x508 sample_links"
    using lists_empty [OF sample_lists, where q = "0x508"] by (simp add: sample_queues_def)
  moreover have "mmu ?m 0x100000 0x508 \<noteq> None"
    by (simp add: mmu_def pde_addr_def pte_addr_def PDE_IDX_def PTE_IDX_def sample_phys_def)
  ultimately show "pool_lock_ok sample_space"
    by (simp add: pool_lock_ok_def lock_free_def sample_space_def sample_mem_def sample_kstate_def kstate.defs sema_waiters_def
        lock_semaphore_def list_head_def NULL_def)
  show "room_for PF_KERNEL 1 sample_space"
    using sample_pools(4) [of "0x200000"] by (simp add: room_for_def sample_space_def ff frame_def)
qed

section \<open>Properties\<close>

text \<open>
  C16. \<^verbatim>\<open>create_page_dir\<close> gives a process an address space of its own inside the kernel's: in the new directory every page of the kernel is mapped to
  the same frame as in the current one, no page below the kernel is mapped at all, and the self map is in place, so that the invariant of the memory
  manager holds when the processor switches to it; the directory lies in a frame that was free, and the current space has gained its page and is
  otherwise unchanged.
\<close>

theorem create_page_dir_space:
  assumes "memory_ok D s" and "vspace_ok PF_KERNEL s" and "pool_lock_ok s" and "room_for PF_KERNEL 1 s"
    and "i < bm_cap (vbits PF_KERNEL s)" and "\<not> bm_bit (vbits PF_KERNEL s) i"
  shows "\<exists>v f s'. create_page_dir s = Some (v, s') \<and> f \<in> free_frames (kernel_pool s) \<and> mmu (phys s') (cr3 s') v = Some f \<and>
    (\<forall>w. 768 \<le> PDE_IDX w \<and> PDE_IDX w \<noteq> 0x3ff \<longrightarrow> mmu (phys s') f w = mmu (phys s') (cr3 s') w) \<and>
    (\<forall>w. PDE_IDX w < 768 \<longrightarrow> mmu (phys s') f w = None) \<and>
    memory_ok (insert f D) s' \<and> memory_ok D (s'\<lparr>cr3 := f\<rparr>) \<and>
    (\<forall>w. PDE_IDX w \<noteq> 0x3ff \<and> PDE_IDX w \<noteq> 0 \<and> frame w \<noteq> v \<longrightarrow> mmu (phys s') (cr3 s') w = mmu (phys s) (cr3 s) w)"
proof -
  obtain v f s1 where g: "get_kernel_pages 1 s = Some (v, s1)" and n: "new_page D s v f s1"
    using get_kernel_page_ok [OF assms] by blast
  note d = n [unfolded new_page_def]
  let ?F = "free_frames (kernel_pool s1) \<union> free_frames (user_pool s1) \<union> insert f D" and ?m = "dir_words f (cr3 s1) (phys s1)"
  have ok: "memory_ok (insert f D) s1"
    using d by blast
  have page: "data_page (phys s1) (cr3 s1) ?F v f"
    using d memory_okD(4) [OF ok] by (simp add: data_page_def)
  note sp = dir_words_space [OF page]
  have c: "create_page_dir s = Some (v, s1\<lparr>phys := ?m\<rparr>)"
    using create_page_dir_eq [OF g _ page] d by blast
  have fD: "f \<notin> D"
    using d memory_okD(5) [OF assms(1), of PF_KERNEL] by (auto simp: get_pool_def)
  then have "?F - {f} = free_frames (kernel_pool s1) \<union> free_frames (user_pool s1) \<union> D"
    using ok by (auto simp: memory_ok_def)
  then have "memory_ok D (s1\<lparr>phys := ?m, cr3 := f\<rparr>)"
    using ok sp(3) by (simp add: memory_ok_def)
  moreover have "memory_ok (insert f D) (s1\<lparr>phys := ?m\<rparr>)"
    using ok sp(2) by (simp add: memory_ok_def)
  ultimately show ?thesis
    using c d sp(1,4,5) by (intro exI [of _ v] exI [of _ f] exI [of _ "s1\<lparr>phys := ?m\<rparr>"]) simp
qed

theorem create_page_dir_space_witness:
  "\<exists>v f s'. create_page_dir sample_space = Some (v, s') \<and> f \<in> free_frames (kernel_pool sample_space) \<and>
    mmu (phys s') f 0x508 = None \<and> memory_ok {} (s'\<lparr>cr3 := f\<rparr>)"
proof -
  have "PDE_IDX 0x508 < 768"
    by (simp add: PDE_IDX_def)
  then show ?thesis
    using create_page_dir_space [OF sample_space_ok] by blast
qed

end
