(* ===== verification/Fork_Copy.thy ===== *)
theory Fork_Copy
  imports Address_Space
begin

text \<open>
  What \<^verbatim>\<open>fork\<close> does with a page of the parent: through a page of the kernel that both address spaces share, its words reach a fresh frame that the
  child's page tables map at the same address.
\<close>

section \<open>A page at a given address\<close>

lemma mmu_frame: "mmu m cr v = Some p \<Longrightarrow> frame v = v \<Longrightarrow> frame p = p"
proof -
  assume a: "mmu m cr v = Some p" "frame v = v"
  then have "page_off v = 0"
    using frame_plus_off [of v] by (metis add_cancel_left_right)
  then have "p = frame (m (pte_addr m cr v))"
    using a(1) by (simp add: mmu_parts split: if_splits)
  then show "frame p = p"
    by (simp add: frame_def)
qed

definition all_free :: "'a mstate_scheme \<Rightarrow> u32 set" where
  "all_free s = free_frames (kernel_pool s) \<union> free_frames (user_pool s)"

text \<open>\<^verbatim>\<open>install_page\<close> with the lock of the user pool held: a fresh frame is mapped, and the lock is free again.\<close>

definition table_of :: "u32 \<Rightarrow> 'a kstate_scheme \<Rightarrow> u32 \<Rightarrow> u32" where
  "table_of c s v = frame (pde_of (phys s) c (PDE_IDX v))"

text \<open>The words that change lie in the directory \<open>c\<close> and in the table of \<open>v\<close>, which is the old one or comes from the kernel pool.\<close>

definition table_written :: "u32 \<Rightarrow> 'a mstate_scheme \<Rightarrow> u32 \<Rightarrow> 'a mstate_scheme \<Rightarrow> bool" where
  "table_written c s v s' \<longleftrightarrow> (\<forall>a. frame a \<noteq> frame c \<and> frame a \<noteq> table_of c s' v \<longrightarrow> phys s' a = phys s a) \<and>
     (\<forall>i\<le>0x3ff. i \<noteq> PDE_IDX v \<longrightarrow> pde_of (phys s') c i = pde_of (phys s) c i) \<and>
     (table_of c s' v \<in> free_frames (kernel_pool s) \<or> present (pde_of (phys s) c (PDE_IDX v)) \<and> table_of c s' v = table_of c s v)"

definition fewer_free :: "'a mstate_scheme \<Rightarrow> 'a mstate_scheme \<Rightarrow> bool" where
  "fewer_free s s' \<longleftrightarrow> free_frames (kernel_pool s') \<subseteq> free_frames (kernel_pool s) \<and> free_frames (user_pool s') \<subseteq> free_frames (user_pool s)"

definition installed :: "u32 set \<Rightarrow> 'a mstate_scheme \<Rightarrow> u32 \<Rightarrow> u32 \<Rightarrow> 'a mstate_scheme \<Rightarrow> bool" where
  "installed D s v q s' \<longleftrightarrow> memory_ok (insert q D) s' \<and> q \<in> free_frames (user_pool s) \<and> frame q = q \<and>
     cr3 s' = cr3 s \<and> tasks s' = tasks s \<and> cur s' = cur s \<and> lock_free (pool_lock (user_pool s')) s' \<and>
     table_written (cr3 s) s v s' \<and> fewer_free s s' \<and>
     (\<forall>a. frame a \<in> D \<longrightarrow> phys s' a = phys s a) \<and>
     (\<forall>w. PDE_IDX w \<noteq> 0x3ff \<and> PDE_IDX w \<noteq> 0 \<longrightarrow>
        mmu (phys s') (cr3 s) w = (if frame w = v then Some (q + page_off w) else mmu (phys s) (cr3 s) w))"

lemma install_page_user:
  assumes ok: "memory_ok D s" and r: "range_ok v 1" and un: "mmu (phys s) (cr3 s) v = None" and room: "room_for PF_USER (Suc n) s"
    and mine: "lock_mine (pool_lock (user_pool s)) s"
  shows "\<exists>q s'. install_page PF_USER v s = Some (v, s') \<and> installed D s v q s' \<and> room_for PF_USER n s'"
proof -
  let ?l = "pool_lock (user_pool s)"
  have r1: "range_ok v (Suc 0)"
    using r by simp
  obtain q p s2 where q: "palloc (get_pool PF_USER s) = Some (q, p)" "q \<noteq> 0"
      "page_table_add v q (set_pool PF_USER p s) = Some s2" "memory_ok (insert q D) s2" "mem_only s s2" "room_for PF_USER n s2"
      "q \<in> free_frames (get_pool PF_USER s)" "\<And>pg. same_pool (get_pool pg s) (get_pool pg s2)"
      "\<And>pg. free_frames (get_pool pg s2) \<subseteq> free_frames (get_pool pg s)"
      "\<And>w. PDE_IDX w \<noteq> 0x3ff \<Longrightarrow> PDE_IDX w \<noteq> 0 \<Longrightarrow>
        mmu (phys s2) (cr3 s2) w = (if frame w = v then Some (q + page_off w) else mmu (phys s) (cr3 s) w)"
      "\<And>a. frame a \<in> D \<Longrightarrow> phys s2 a = phys s a"
    by (rule map_one_page [OF ok r1 un room]) blast
  have only: "lnks s2 = lnks s" "cur s2 = cur s" "sema_value s2 = sema_value s" "lock_holder s2 = lock_holder s"
      "lock_repeat_nr s2 = lock_repeat_nr s" "cr3 s2 = cr3 s" "tasks s2 = tasks s"
    using q(5) by (auto simp: mem_only_def)
  have mine2: "lock_mine ?l s2"
    using mine only by (simp add: lock_mine_def)
  have pl: "pool_lock (get_pool PF_USER s2) = ?l"
    using q(8) [of PF_USER] by (simp add: same_pool_def get_pool_def)
  have "install_page PF_USER v s = Some (v, unlocked ?l s2)"
    using q(1-3) lock_release_mine [OF mine2] pl by (simp add: install_page_def NULL_def)
  moreover have u: "phys (unlocked ?l s2) = phys s2" "cr3 (unlocked ?l s2) = cr3 s2" "tasks (unlocked ?l s2) = tasks s2"
      "cur (unlocked ?l s2) = cur s2" "kernel_pool (unlocked ?l s2) = kernel_pool s2" "user_pool (unlocked ?l s2) = user_pool s2"
    by (simp_all add: unlocked_def)
  moreover have "memory_ok (insert q D) (unlocked ?l s2)" "room_for PF_USER n (unlocked ?l s2)"
    using q(4,6) by (simp_all add: memory_ok_def room_for_def u)
  moreover have "lock_free ?l (unlocked ?l s2)"
    using mine2 by (simp add: lock_mine_def lock_free_def unlocked_def)
  moreover have fq: "frame q = q"
    using q(7) frame_at_frame(1) [OF memory_okD(2) [OF ok]] by (auto simp: free_frames_def get_pool_def)
  moreover have "table_written (cr3 s) s v s2"
  proof -
    let ?s1 = "set_pool PF_USER p s"
    have s1: "phys ?s1 = phys s" "cr3 ?s1 = cr3 s" "kernel_pool ?s1 = kernel_pool s"
      by (simp_all add: set_pool_def)
    have t1: "tables_ok (phys ?s1) (cr3 ?s1) (free_frames (kernel_pool s) \<union> free_frames (user_pool s) \<union> D)"
        "pool_ok (kernel_pool ?s1)" "free_frames (kernel_pool ?s1) \<subseteq> free_frames (kernel_pool s) \<union> free_frames (user_pool s) \<union> D"
        "mmu (phys ?s1) (cr3 ?s1) v = None" "free_frames (kernel_pool ?s1) \<noteq> {}"
      using room memory_okD(1,4) [OF ok] un by (auto simp: room_for_def s1)
    note ch = page_table_add_changes [OF t1(1-3) fq range_ok_PDE(1) [OF r1] t1(4,5) q(3) refl, unfolded s1]
    show ?thesis
      unfolding table_written_def table_of_def using ch by simp
  qed
  then have "table_written (cr3 s) s v (unlocked ?l s2)"
    by (simp add: table_written_def table_of_def u)
  moreover have "fewer_free s (unlocked ?l s2)"
    using q(9) [of PF_KERNEL] q(9) [of PF_USER] by (simp add: fewer_free_def get_pool_def u)
  ultimately show ?thesis
    using q(7,10,11) only pl by (intro exI [of _ q] exI [of _ "unlocked ?l s2"]) (simp add: installed_def get_pool_def)
qed

lemma install_user_page:
  assumes ok: "memory_ok D s" and r: "range_ok v 1" and un: "mmu (phys s) (cr3 s) v = None" and room: "room_for PF_USER (Suc n) s"
    and free: "lock_free (pool_lock (user_pool s)) s"
  shows "\<exists>q s'. get_a_page_without_opvaddrbitmap PF_USER v s = Some (v, s') \<and> installed D s v q s' \<and> room_for PF_USER n s'"
proof -
  let ?s = "locked (pool_lock (user_pool s)) s"
  have "memory_ok D ?s" "mmu (phys ?s) (cr3 ?s) v = None" "room_for PF_USER (Suc n) ?s" "lock_mine (pool_lock (user_pool ?s)) ?s"
    using ok room un locked_mine [OF free] by (simp_all add: memory_ok_def room_for_def)
  from install_page_user [OF this(1) r this(2-4)] show ?thesis
    by (auto simp: get_a_page_without_opvaddrbitmap_def get_pool_def with_lock_free [OF free] installed_def table_written_def table_of_def fewer_free_def)
qed

section \<open>Two address spaces\<close>

text \<open>
  The parent runs, the child's directory is at \<open>c\<close>, the page \<open>v\<close> of the parent has the frame \<open>a\<close> and the shared page \<open>bp\<close> the frame \<open>b\<close>; \<open>e\<close> is the
  address of the parent's directory, which is a page of the kernel and so mapped in both spaces.
\<close>

definition fork_ready :: "u32 set \<Rightarrow> u32 set \<Rightarrow> 'a mstate_scheme \<Rightarrow> addr \<Rightarrow> addr \<Rightarrow> u32 \<Rightarrow> u32 \<Rightarrow> u32 \<Rightarrow> u32 \<Rightarrow> u32 \<Rightarrow> bool" where
  "fork_ready F D s child parent bp v a b c \<longleftrightarrow>
     data_page (phys s) (cr3 s) F bp b \<and> mmu (phys s) (cr3 s) v = Some a \<and> frame a = a \<and> range_ok v 1 \<and>
     pgdir (tasks s child) \<noteq> NULL \<and> mmu (phys s) (cr3 s) (pgdir (tasks s child)) = Some c \<and>
     memory_ok D (s\<lparr>cr3 := c\<rparr>) \<and> a \<in> D \<and> b \<in> D \<and> a \<noteq> b \<and> bp \<noteq> v \<and>
     PDE_IDX bp \<noteq> 0 \<and> PDE_IDX bp \<noteq> 0x3ff \<and> mmu (phys s) c bp = Some b \<and> mmu (phys s) c v = None \<and> lock_free (pool_lock (user_pool s)) s \<and>
     (let e = pgdir (tasks s parent) in e \<noteq> NULL \<and> PDE_IDX e \<noteq> 0 \<and> PDE_IDX e \<noteq> 0x3ff \<and> frame e \<noteq> v \<and> mmu (phys s) c e = Some (cr3 s))"

lemma memory_ok_fill:
  assumes "memory_ok D s" and "b \<in> D" and "frame b = b" and "k + n \<le> 1024"
  shows "memory_ok D (s\<lparr>phys := fill b k n g (phys s)\<rparr>)" and "mmu (fill b k n g (phys s)) (cr3 s) w = mmu (phys s) (cr3 s) w"
    and "i \<le> 0x3ff \<Longrightarrow> pde_of (fill b k n g (phys s)) (cr3 s) i = pde_of (phys s) (cr3 s) i"
proof -
  note t = memory_okD(4) [OF assms(1)]
  have out: "fill b k n g (phys s) x = phys s x" if "frame x \<notin> free_frames (kernel_pool s) \<union> free_frames (user_pool s) \<union> D" for x
    using that assms(2) by (intro fill_outside [OF assms(3,4)]) auto
  show "memory_ok D (s\<lparr>phys := fill b k n g (phys s)\<rparr>)"
    using assms(1) mmu_agree(2) [OF t out] by (simp add: memory_ok_def)
  show "mmu (fill b k n g (phys s)) (cr3 s) w = mmu (phys s) (cr3 s) w"
    by (rule mmu_agree(3) [OF t out])
  show "pde_of (fill b k n g (phys s)) (cr3 s) i = pde_of (phys s) (cr3 s) i" if "i \<le> 0x3ff"
    by (rule mmu_agree(1) [OF t out that])
qed

lemma range_page:
  assumes "range_ok v 1"
  shows "frame v = v" "page_off v = 0" "PDE_IDX v \<noteq> 0" "PDE_IDX v \<noteq> 0x3ff"
proof -
  show f: "frame v = v"
    using assms by (simp add: range_ok_def)
  show "page_off v = 0"
    using frame_plus_off [of v] f by (metis add_cancel_left_right)
  show "PDE_IDX v \<noteq> 0" "PDE_IDX v \<noteq> 0x3ff"
    using page_at_props [OF assms, of 0] by simp_all
qed

text \<open>The parent's half: the page goes into the shared page and the processor changes to the child's space.\<close>

definition buffered :: "u32 \<Rightarrow> u32 \<Rightarrow> u32 \<Rightarrow> 'a mstate_scheme \<Rightarrow> 'a mstate_scheme" where
  "buffered a b c s = s\<lparr>phys := fill b 0 1024 (\<lambda>j. phys s (a + of_nat j * 4)) (phys s), cr3 := c\<rparr>"

lemma parent_half:
  assumes ready: "fork_ready F D s child parent bp v a b c"
  shows "(copy_words 1024 bp v s \<bind> page_dir_activate child) = Some (buffered a b c s)"
    and "memory_ok D (buffered a b c s)" and "mmu (phys (buffered a b c s)) c w = mmu (phys s) c w"
    and "i \<le> 0x3ff \<Longrightarrow> pde_of (phys (buffered a b c s)) c i = pde_of (phys s) c i"
proof -
  note d = ready [unfolded fork_ready_def Let_def]
  have buf: "data_page (phys s) (cr3 s) F bp b" and b: "frame b = b" "b \<in> D"
    using d by (auto simp: data_page_def)
  let ?m1 = "fill b 0 1024 (\<lambda>j. phys s (a + of_nat j * 4)) (phys s)"
  have c1: "copy_words 1024 bp v s = Some (s\<lparr>phys := ?m1\<rparr>)"
    using copy_words_fill [OF buf, of 0 1024 v a] range_page(1) d by simp
  note page1 = data_page_fill [OF buf, of 0 1024 "\<lambda>j. phys s (a + of_nat j * 4)", simplified]
  have t1: "tables_ok ?m1 (cr3 s) F"
    using page1(1) by (simp add: data_page_def)
  have "addr_v2p ?m1 (cr3 s) (pgdir (tasks s child)) = Some c"
    by (rule addr_v2p_mmu [OF tables_okD(1) [OF t1]]) (use page1(2) d in simp)
  then show "(copy_words 1024 bp v s \<bind> page_dir_activate child) = Some (buffered a b c s)"
    using c1 d by (simp add: page_dir_activate_def buffered_def)
  have ok: "memory_ok D (s\<lparr>cr3 := c\<rparr>)"
    using d by blast
  show "memory_ok D (buffered a b c s)"
    using memory_ok_fill(1) [OF ok b(2,1), of 0 1024] by (simp add: memory_ok_def buffered_def)
  show "mmu (phys (buffered a b c s)) c w = mmu (phys s) c w"
    using memory_ok_fill(2) [OF ok b(2,1), of 0 1024] by (simp add: buffered_def)
  show "pde_of (phys (buffered a b c s)) c i = pde_of (phys s) c i" if "i \<le> 0x3ff"
    using memory_ok_fill(3) [OF ok b(2,1) _ that, of 0 1024] by (simp add: buffered_def)
qed

text \<open>The whole step, with the frame \<open>q\<close> for the child's page.\<close>

definition page_copied :: "u32 set \<Rightarrow> 'a mstate_scheme \<Rightarrow> u32 \<Rightarrow> u32 \<Rightarrow> u32 \<Rightarrow> u32 \<Rightarrow> u32 \<Rightarrow> 'a mstate_scheme \<Rightarrow> bool" where
  "page_copied D s v a b c q s' \<longleftrightarrow> q \<in> free_frames (user_pool s) \<and> frame q = q \<and> cr3 s' = cr3 s \<and> tasks s' = tasks s \<and>
     mmu (phys s') c v = Some q \<and> (\<forall>j<1024. phys s' (q + of_nat j * 4) = phys s (a + of_nat j * 4)) \<and>
     (\<forall>x. frame x \<in> D \<and> frame x \<noteq> b \<longrightarrow> phys s' x = phys s x) \<and>
     (\<forall>w. PDE_IDX w \<noteq> 0x3ff \<and> PDE_IDX w \<noteq> 0 \<and> frame w \<noteq> v \<longrightarrow> mmu (phys s') c w = mmu (phys s) c w) \<and>
     memory_ok (insert q D) (s'\<lparr>cr3 := c\<rparr>) \<and> lock_free (pool_lock (user_pool s')) s' \<and> fewer_free s s' \<and>
     (\<forall>x. frame x \<notin> {b, q, frame c, table_of c s' v} \<longrightarrow> phys s' x = phys s x) \<and>
     (\<forall>i\<le>0x3ff. i \<noteq> PDE_IDX v \<longrightarrow> pde_of (phys s') c i = pde_of (phys s) c i) \<and>
     (table_of c s' v \<in> free_frames (kernel_pool s) \<or> present (pde_of (phys s) c (PDE_IDX v)) \<and> table_of c s' v = table_of c s v)"

text \<open>The child's half: a new page at \<open>v\<close>, the contents of the shared page in it, and the parent's space again.\<close>

definition delivered :: "u32 \<Rightarrow> u32 \<Rightarrow> u32 \<Rightarrow> 'a mstate_scheme \<Rightarrow> 'a mstate_scheme" where
  "delivered b q cr s = s\<lparr>phys := fill q 0 1024 (\<lambda>j. phys s (b + of_nat j * 4)) (phys s), cr3 := cr\<rparr>"

lemma child_installed:
  assumes ready: "fork_ready F D s child parent bp v a b c" and inst: "installed D (buffered a b c s) v q t"
  shows "memory_ok (insert q D) t" and "q \<in> free_frames (user_pool s)" and "q \<notin> D" and "frame q = q" and "cr3 t = c" and "tasks t = tasks s"
    and "frame x \<in> D \<Longrightarrow> phys t x = phys (buffered a b c s) x"
    and "PDE_IDX w \<noteq> 0x3ff \<Longrightarrow> PDE_IDX w \<noteq> 0 \<Longrightarrow> mmu (phys t) c w = (if frame w = v then Some (q + page_off w) else mmu (phys s) c w)"
    and "lock_free (pool_lock (user_pool t)) t" and "fewer_free s t"
proof -
  note half = parent_half [OF ready]
  have same: "cr3 (buffered a b c s) = c" "tasks (buffered a b c s) = tasks s" "user_pool (buffered a b c s) = user_pool s"
      "kernel_pool (buffered a b c s) = kernel_pool s"
    by (simp_all add: buffered_def)
  note i = inst [unfolded installed_def fewer_free_def same half(3)]
  show "memory_ok (insert q D) t" "q \<in> free_frames (user_pool s)" "frame q = q" "cr3 t = c" "tasks t = tasks s"
      "lock_free (pool_lock (user_pool t)) t" "frame x \<in> D \<Longrightarrow> phys t x = phys (buffered a b c s) x"
    using i by blast+
  show "fewer_free s t"
    using i by (simp add: fewer_free_def)
  show "mmu (phys t) c w = (if frame w = v then Some (q + page_off w) else mmu (phys s) c w)" if "PDE_IDX w \<noteq> 0x3ff" "PDE_IDX w \<noteq> 0"
    using i that by blast
  show "q \<notin> D"
    using i memory_okD(5) [OF half(2), of PF_USER] same(3) by (auto simp: get_pool_def)
qed

lemma child_half:
  assumes ready: "fork_ready F D s child parent bp v a b c" and room: "room_for PF_USER (Suc n) s"
  shows "\<exists>q t. installed D (buffered a b c s) v q t \<and> room_for PF_USER n t \<and> copy_page child parent bp v s = Some (delivered b q (cr3 s) t)"
proof -
  note d = ready [unfolded fork_ready_def Let_def]
  let ?s2 = "buffered a b c s" and ?e = "pgdir (tasks s parent)"
  have r: "range_ok v 1" and b: "frame b = b" "frame bp = bp" "b \<in> D"
    using d by (auto simp: data_page_def)
  note v = range_page [OF r] and half = parent_half [OF ready]
  have "room_for PF_USER (Suc n) ?s2" "lock_free (pool_lock (user_pool ?s2)) ?s2" "mmu (phys ?s2) (cr3 ?s2) v = None"
    using d room half(3) by (simp_all add: buffered_def room_for_def lock_free_def)
  then obtain q t where t: "get_a_page_without_opvaddrbitmap PF_USER v ?s2 = Some (v, t)" "installed D ?s2 v q t" "room_for PF_USER n t"
    using install_user_page [OF half(2) r] by blast
  note q = child_installed [OF ready t(2)]
  let ?F = "free_frames (kernel_pool t) \<union> free_frames (user_pool t) \<union> insert q D"
  have page: "data_page (phys t) (cr3 t) ?F v q"
    using memory_okD(4) [OF q(1)] q(4,5) q(8) [OF v(4,3)] v(1,2) by (simp add: data_page_def)
  have mb: "mmu (phys t) (cr3 t) bp = Some b" and bq: "b \<noteq> q"
    using q(8) [of bp] b(2,3) d q(3,5) by auto
  let ?m = "fill q 0 1024 (\<lambda>j. phys t (b + of_nat j * 4)) (phys t)"
  have c2: "copy_words 1024 v bp t = Some (t\<lparr>phys := ?m\<rparr>)"
    using copy_words_fill [OF page, of 0 1024 bp b] b mb bq by simp
  note fin = memory_ok_fill [OF q(1) _ q(4), of 0 1024, simplified]
  have "addr_v2p ?m c ?e = Some (cr3 s)"
    using q(8) [of ?e] d fin(2) tables_okD(1) [OF memory_okD(4) [OF fin(1)]] q(5) by (intro addr_v2p_mmu) auto
  then have "page_dir_activate parent (t\<lparr>phys := ?m\<rparr>) = Some (delivered b q (cr3 s) t)"
    using d q(5,6) by (simp add: page_dir_activate_def delivered_def)
  then have "copy_page child parent bp v s = Some (delivered b q (cr3 s) t)"
    using half(1) t(1) c2 by (auto simp: copy_page_def bind_eq_Some_conv)
  then show ?thesis
    using t(2,3) by blast
qed

lemma child_page_copied:
  assumes ready: "fork_ready F D s child parent bp v a b c" and inst: "installed D (buffered a b c s) v q t"
  shows "page_copied D s v a b c q (delivered b q (cr3 s) t)"
proof -
  note d = ready [unfolded fork_ready_def Let_def]
  let ?s2 = "buffered a b c s" and ?s' = "delivered b q (cr3 s) t"
  have b: "frame b = b" "b \<in> D"
    using d by (auto simp: data_page_def)
  note v = range_page [of v] and half = parent_half [OF ready] and q = child_installed [OF ready inst]
  note fin = memory_ok_fill [OF q(1) _ q(4), of 0 1024, simplified, unfolded q(5)]
  have parts: "phys ?s' = fill q 0 1024 (\<lambda>j. phys t (b + of_nat j * 4)) (phys t)" "tasks ?s' = tasks s" "cr3 ?s' = cr3 s"
      "user_pool ?s' = user_pool t" "kernel_pool ?s' = kernel_pool t"
    using q(6) by (simp_all add: delivered_def)
  have words: "phys ?s' (q + of_nat j * 4) = phys s (a + of_nat j * 4)" if j: "j < 1024" for j
  proof -
    have "frame (b + of_nat j * 4) = b"
      using frame_of_add [OF word_in_frame [OF j], of b] b(1) by simp
    then have "phys t (b + of_nat j * 4) = phys s (a + of_nat j * 4)"
      using q(7) [of "b + of_nat j * 4"] b fill_word [OF b(1), of 0 1024 j] j by (simp add: buffered_def)
    then show ?thesis
      using fill_word [OF q(4), of 0 1024 j] j by (simp add: parts)
  qed
  have fills: "phys ?s' x = phys t x" if "frame x \<noteq> q" for x
    using that by (simp add: parts fill_outside [OF q(4)])
  have buf: "phys ?s2 x = phys s x" if "frame x \<noteq> b" for x
    using that by (simp add: fill_outside [OF b(1)] buffered_def)
  have tab: "table_of c ?s' v = table_of c t v" "table_of c ?s2 v = table_of c s v"
    using fin(3) half(4) idx_le(1) by (simp_all add: table_of_def parts)
  have "table_written c ?s2 v t"
    using inst by (simp add: installed_def buffered_def)
  note tw = this [unfolded table_written_def tab(2)]
  have "phys ?s' x = phys s x" if "frame x \<notin> {b, q, frame c, table_of c ?s' v}" for x
    using that tw fills buf tab(1) by simp
  moreover have "pde_of (phys ?s') c k = pde_of (phys s) c k" if "k \<le> 0x3ff" "k \<noteq> PDE_IDX v" for k
    using that tw fin(3) half(4) by (simp add: parts)
  moreover have "table_of c ?s' v \<in> free_frames (kernel_pool s) \<or> present (pde_of (phys s) c (PDE_IDX v)) \<and> table_of c ?s' v = table_of c s v"
    using tw half(4) [OF idx_le(1)] tab(1) by (simp add: buffered_def)
  moreover have "phys ?s' x = phys s x" if "frame x \<in> D" "frame x \<noteq> b" for x
    using that q(3) q(7) [OF that(1)] fills buf by metis
  moreover have "mmu (phys ?s') c w = (if frame w = v then Some (q + page_off w) else mmu (phys s) c w)"
    if "PDE_IDX w \<noteq> 0x3ff" "PDE_IDX w \<noteq> 0" for w
    using fin(2) q(8) [OF that] by (simp add: parts)
  moreover have "memory_ok (insert q D) (?s'\<lparr>cr3 := c\<rparr>)"
    using fin(1) q(5) by (simp add: memory_ok_def delivered_def)
  moreover have "lock_free (pool_lock (user_pool ?s')) ?s'" "fewer_free s ?s'"
    using q(9,10) by (simp_all add: lock_free_def fewer_free_def delivered_def)
  ultimately show ?thesis
    using words q(2,4) parts v d by (simp add: page_copied_def)
qed

lemma copy_page_ok:
  assumes "fork_ready F D s child parent bp v a b c" and "room_for PF_USER (Suc n) s"
  shows "\<exists>q s'. copy_page child parent bp v s = Some s' \<and> page_copied D s v a b c q s' \<and> room_for PF_USER n s'"
proof -
  obtain q t where t: "installed D (buffered a b c s) v q t" "room_for PF_USER n t"
      "copy_page child parent bp v s = Some (delivered b q (cr3 s) t)"
    using child_half [OF assms] by blast
  have "room_for PF_USER n (delivered b q (cr3 s) t)"
    using t(2) by (simp add: room_for_def delivered_def)
  then show ?thesis
    using t(3) child_page_copied [OF assms(1) t(1)] by blast
qed

section \<open>A parent and a child\<close>

text \<open>
  The parent uses the directory at 0x100000 with the user pages 0x8048000 and 0x8049000 in the frames 0x205000 and 0x206000; the child's directory is at 0x202000. The kernel
  heap has the shared page and the two directories at its first three pages.
\<close>

definition fork_phys :: "u32 \<Rightarrow> u32" where
  "fork_phys x = (case map_of [(0x100000, 0x101003), (0x100080, 0x204003), (0x100c00, 0x101003), (0x100ffc, 0x100003),
     (0x202c00, 0x101003), (0x202ffc, 0x202003), (0x101400, 0x203003), (0x101404, 0x202003), (0x101408, 0x100003),
     (0x204120, 0x205003), (0x204124, 0x206003), (0x205000, 0x2a), (0x206004, 0x2b)] (unat x) of None \<Rightarrow> 0 | Some y \<Rightarrow> y)"

definition fork_pool :: pool where
  "fork_pool = (sample_pool 0x200000)\<lparr>pool_bitmap := \<lparr>btmp_bytes_len = 2, bits = [0x7c, 0, 0]\<rparr>\<rparr>"

definition fork_state :: mstate where
  "fork_state = sample_mem\<lparr>phys := fork_phys, kernel_pool := fork_pool, user_pool := (sample_pool 0x210000)\<lparr>pool_lock := 0x500\<rparr>,
     tasks := (\<lambda>t. (sample_task TASK_READY)\<lparr>pgdir := if t = 0x3000 then 0xc0101000 else 0xc0102000\<rparr>)\<rparr>"

lemma fork_pde:
  assumes "i \<le> 0x3ff"
  shows "pde_of fork_phys 0x100000 i =
      (if i = 0x3ff then 0x100003 else if i = 0 \<or> i = 768 then 0x101003 else if i = 32 then 0x204003 else 0)"
    and "pde_of fork_phys 0x202000 i = (if i = 0x3ff then 0x202003 else if i = 768 then 0x101003 else 0)"
proof -
  obtain n where n: "i = of_nat n" "n < 1024"
    using assms that [of "unat i"] by (simp add: word_le_nat_alt)
  then have u: "unat i = n"
    by (simp add: unat_of_nat)
  have a: "unat (0x100000 + i * 4) = 0x100000 + n * 4" "unat (0x202000 + i * 4) = 0x202000 + n * 4"
    using n(2) u by (simp_all add: unat_word_ariths)
  have i: "i = 0x3ff \<longleftrightarrow> n = 1023" "i = 0 \<longleftrightarrow> n = 0" "i = 768 \<longleftrightarrow> n = 768" "i = 32 \<longleftrightarrow> n = 32"
    using u by (auto simp: word_unat_eq_iff)
  show "pde_of fork_phys 0x100000 i =
      (if i = 0x3ff then 0x100003 else if i = 0 \<or> i = 768 then 0x101003 else if i = 32 then 0x204003 else 0)"
    unfolding pde_of_def i using n(2) by (simp add: frame_def fork_phys_def a)
  show "pde_of fork_phys 0x202000 i = (if i = 0x3ff then 0x202003 else if i = 768 then 0x101003 else 0)"
    unfolding pde_of_def i using n(2) by (simp add: frame_def fork_phys_def a)
qed

lemma fork_tables:
  "0x100000 \<notin> F \<Longrightarrow> 0x101000 \<notin> F \<Longrightarrow> 0x204000 \<notin> F \<Longrightarrow> tables_ok fork_phys 0x100000 F"
  "0x202000 \<notin> F \<Longrightarrow> 0x101000 \<notin> F \<Longrightarrow> tables_ok fork_phys 0x202000 F"
proof -
  have fr: "frame 0x100000 = 0x100000" "frame 0x202000 = 0x202000" "frame 0x101003 = 0x101000" "frame 0x204003 = 0x204000"
      "\<not> present 0" "present 0x101003" "present 0x204003"
    by (simp_all add: frame_def present_def)
  have sm: "self_map fork_phys 0x100000" "self_map fork_phys 0x202000"
    by (simp_all add: self_map_def fork_phys_def frame_def)
  have le: "i \<le> 0x3ff" "i \<noteq> 0x3ff" if "i < 0x3ff" for i :: u32
    using that by auto
  show "tables_ok fork_phys 0x100000 F" if "0x100000 \<notin> F" "0x101000 \<notin> F" "0x204000 \<notin> F"
    unfolding tables_ok_def using that sm(1) fr
    by (auto simp: fork_pde(1) [OF le(1)] le(2) aliased_def split: if_splits)
  show "tables_ok fork_phys 0x202000 F" if "0x202000 \<notin> F" "0x101000 \<notin> F"
    unfolding tables_ok_def using that sm(2) fr
    by (auto simp: fork_pde(2) [OF le(1)] le(2) aliased_def split: if_splits)
qed

lemma fork_free:
  "pool_ok fork_pool" "f \<in> free_frames fork_pool \<Longrightarrow> 0x200000 \<le> unat f \<and> f \<notin> {0x202000, 0x203000, 0x204000, 0x205000, 0x206000}"
  "2 \<le> card (free_frames fork_pool)"
proof -
  show ok: "pool_ok fork_pool"
    by (simp add: fork_pool_def pool_ok_def bm_wf_def bm_cap_def) (simp add: sample_pool_def frame_def)
  have cap: "bm_cap (pool_bitmap fork_pool) = 16"
    by (simp add: fork_pool_def bm_cap_def)
  have at: "frame_at fork_pool 2 = 0x202000" "frame_at fork_pool 3 = 0x203000" "frame_at fork_pool 4 = 0x204000"
      "frame_at fork_pool 5 = 0x205000" "frame_at fork_pool 6 = 0x206000"
    by (simp_all add: frame_at_def fork_pool_def sample_pool_def)
  have used: "{2, 3, 4, 5, 6} \<subseteq> bm_used (pool_bitmap fork_pool)"
    by (simp add: bm_used_def bm_bit_def cap) (simp add: fork_pool_def)
  have "{8, 9} \<inter> bm_used (pool_bitmap fork_pool) = {}"
    by (simp add: bm_used_def bm_bit_def fork_pool_def)
  then have "frame_at fork_pool ` {8, 9} \<subseteq> free_frames fork_pool"
    using cap by (auto simp: free_frames_def)
  then have "card (frame_at fork_pool ` {8, 9}) \<le> card (free_frames fork_pool)"
    using card_mono finite_free_frames by blast
  moreover have "frame_at fork_pool 8 \<noteq> frame_at fork_pool 9"
    by (simp add: frame_at_def fork_pool_def sample_pool_def)
  ultimately show "2 \<le> card (free_frames fork_pool)"
    by simp
  assume "f \<in> free_frames fork_pool"
  then obtain i where i: "f = frame_at fork_pool i" "i < 16" "i \<notin> bm_used (pool_bitmap fork_pool)"
    by (auto simp: free_frames_def cap)
  have "unat f = unat (phy_addr_start fork_pool) + i * 4096"
    using unat_frame_at [OF ok] i(1,2) cap by simp
  then have "0x200000 \<le> unat f"
    by (simp add: fork_pool_def sample_pool_def)
  moreover have "f \<noteq> frame_at fork_pool j" if "j \<in> {2, 3, 4, 5, 6}" for j
  proof -
    have "i \<noteq> j" "j < 16"
      using i(3) used that by auto
    then show ?thesis
      using frame_at_inj [OF ok, of i j] i(1,2) cap by simp
  qed
  then have "f \<noteq> frame_at fork_pool 2" "f \<noteq> frame_at fork_pool 3" "f \<noteq> frame_at fork_pool 4" "f \<noteq> frame_at fork_pool 5"
      "f \<noteq> frame_at fork_pool 6"
    by simp_all
  ultimately show "0x200000 \<le> unat f \<and> f \<notin> {0x202000, 0x203000, 0x204000, 0x205000, 0x206000}"
    by (simp add: at)
qed

lemma fork_mmu:
  "mmu fork_phys 0x100000 0xc0100000 = Some 0x203000" "mmu fork_phys 0x100000 0xc0101000 = Some 0x202000"
  "mmu fork_phys 0x100000 0x8048000 = Some 0x205000" "mmu fork_phys 0x202000 0x8048000 = None"
  "mmu fork_phys 0x100000 0x8049000 = Some 0x206000" "mmu fork_phys 0x202000 0x8049000 = None"
  "mmu fork_phys 0x202000 0xc0100000 = Some 0x203000" "mmu fork_phys 0x202000 0xc0102000 = Some 0x100000"
  by (simp_all add: mmu_def pde_addr_def pte_addr_def PDE_IDX_def PTE_IDX_def fork_phys_def)

lemma fork_state_parts [simp]:
  "phys fork_state = fork_phys" "cr3 fork_state = 0x100000" "kernel_pool fork_state = fork_pool"
  "user_pool fork_state = (sample_pool 0x210000)\<lparr>pool_lock := 0x500\<rparr>"
  "tasks fork_state = (\<lambda>t. (sample_task TASK_READY)\<lparr>pgdir := if t = 0x3000 then 0xc0101000 else 0xc0102000\<rparr>)"
  by (simp_all add: fork_state_def)

lemma fork_all_free:
  assumes "f \<in> all_free fork_state"
  shows "0x200000 \<le> unat f" and "f \<notin> {0x202000, 0x203000, 0x204000, 0x205000, 0x206000}"
proof -
  have "frame 0x210000 = 0x210000"
    by (simp add: frame_def)
  note up = sample_pools(5) [OF this, of f]
  have "free_frames (user_pool fork_state) = free_frames (sample_pool 0x210000)"
    by (simp add: free_frames_def frame_at_def [abs_def])
  then have "f \<in> free_frames fork_pool \<or> 0x210000 \<le> unat f"
    using assms up by (auto simp: all_free_def)
  then show "0x200000 \<le> unat f" "f \<notin> {0x202000, 0x203000, 0x204000, 0x205000, 0x206000}"
    using fork_free(2) [of f] by auto
qed

lemma fork_state_memory:
  "memory_ok {0x203000, 0x205000, 0x206000} (fork_state\<lparr>cr3 := 0x202000\<rparr>)" "room_for PF_USER 2 fork_state" "lock_free 0x500 fork_state"
proof -
  let ?u = "(sample_pool 0x210000)\<lparr>pool_lock := 0x500\<rparr>" and ?D = "{0x203000, 0x205000, 0x206000} :: u32 set"
  have a: "frame 0x210000 = 0x210000"
    by (simp add: frame_def)
  have fu: "free_frames ?u = free_frames (sample_pool 0x210000)"
    by (simp add: free_frames_def frame_at_def [abs_def])
  note up = sample_pools [OF a, simplified]
  have all: "free_frames fork_pool \<union> free_frames ?u = all_free fork_state"
    by (simp add: all_free_def)
  have n: "f \<notin> all_free fork_state" if "f \<in> {0x101000, 0x202000, 0x203000, 0x205000, 0x206000}" for f
    using fork_all_free [of f] that by auto
  have t: "tables_ok fork_phys 0x202000 (free_frames fork_pool \<union> free_frames ?u \<union> ?D)"
    unfolding all by (rule fork_tables(2)) (use n in simp_all)
  have "pool_ok ?u"
    using up(1) by (simp add: pool_ok_def)
  moreover have "?D \<inter> (free_frames fork_pool \<union> free_frames ?u) = {}"
    unfolding all using n by auto
  ultimately show "memory_ok ?D (fork_state\<lparr>cr3 := 0x202000\<rparr>)"
    using t fork_free(1) by (simp add: memory_ok_def) (simp add: fork_pool_def sample_pool_def bm_cap_def)
  show "room_for PF_USER 2 fork_state"
    using up(4) fork_free(3) by (simp add: room_for_def fu)
  have "list_empty 0x508 sample_links"
    using lists_empty [OF sample_lists, where q = "0x508"] by (simp add: sample_queues_def)
  then show "lock_free 0x500 fork_state"
    by (simp add: lock_free_def fork_state_def sample_mem_def sample_kstate_def kstate.defs sema_waiters_def lock_semaphore_def NULL_def)
qed

end
