(* ===== verification/Fork_Body.thy ===== *)
theory Fork_Body
  imports Fork_Copy
begin

text \<open>
  What \<^verbatim>\<open>fork\<close> does with the memory of the parent: the loop over the address bitmap copies every page that is in use, one after the other, while the
  tables of the parent stay as they are.
\<close>

section \<open>What stays true between two pages\<close>

text \<open>
  \<open>D\<close> are frames in use that hold data, \<open>T\<close> the frames of the child's own tables: its directory \<open>c\<close> and the tables of the user half. None of them is a
  table of the parent. The shared page \<open>bp\<close> and the parent's directory are pages of the kernel, which both spaces map.
\<close>

definition own_tables :: "u32 set \<Rightarrow> (u32 \<Rightarrow> u32) \<Rightarrow> u32 \<Rightarrow> bool" where
  "own_tables T m c \<longleftrightarrow> frame c \<in> T \<and> (\<forall>i<0x300. present (pde_of m c i) \<longrightarrow> frame (pde_of m c i) \<in> T)"

definition kernel_page :: "u32 \<Rightarrow> bool" where
  "kernel_page v \<longleftrightarrow> 0x300 \<le> PDE_IDX v \<and> PDE_IDX v < 0x3ff"

definition fork_inv :: "u32 set \<Rightarrow> u32 set \<Rightarrow> 'a mstate_scheme \<Rightarrow> addr \<Rightarrow> addr \<Rightarrow> u32 \<Rightarrow> u32 \<Rightarrow> u32 \<Rightarrow> bool" where
  "fork_inv D T s child parent bp b c \<longleftrightarrow>
     data_page (phys s) (cr3 s) (all_free s \<union> D \<union> T) bp b \<and> b \<in> D \<and> kernel_page bp \<and> mmu (phys s) c bp = Some b \<and>
     memory_ok D (s\<lparr>cr3 := c\<rparr>) \<and> own_tables T (phys s) c \<and>
     pgdir (tasks s child) \<noteq> NULL \<and> mmu (phys s) (cr3 s) (pgdir (tasks s child)) = Some c \<and>
     pgdir (tasks s parent) \<noteq> NULL \<and> kernel_page (pgdir (tasks s parent)) \<and> mmu (phys s) c (pgdir (tasks s parent)) = Some (cr3 s) \<and>
     lock_free (pool_lock (user_pool s)) s"

text \<open>A page that is still to be copied.\<close>

definition to_copy :: "u32 set \<Rightarrow> 'a mstate_scheme \<Rightarrow> u32 \<Rightarrow> u32 \<Rightarrow> u32 \<Rightarrow> bool" where
  "to_copy D s b c v \<longleftrightarrow> range_ok v 1 \<and> PDE_IDX v < 0x300 \<and> mmu (phys s) c v = None \<and>
     (\<exists>a. mmu (phys s) (cr3 s) v = Some a \<and> a \<in> D \<and> a \<noteq> b)"

lemma to_copy_ready:
  assumes inv: "fork_inv D T s child parent bp b c" and v: "to_copy D s b c v" and a: "mmu (phys s) (cr3 s) v = Some a"
  shows "fork_ready (all_free s \<union> D \<union> T) D s child parent bp v a b c"
proof -
  note d = inv [unfolded fork_inv_def] and e = v [unfolded to_copy_def]
  let ?e = "pgdir (tasks s parent)"
  have fv: "frame v = v"
    using e range_page(1) by blast
  have "PDE_IDX (frame ?e) = PDE_IDX ?e" and "PDE_IDX v < 0x300" and "0x300 \<le> PDE_IDX ?e" "0x300 \<le> PDE_IDX bp"
    using d e by (simp_all add: frame_ptr_parts kernel_page_def)
  then have ne: "bp \<noteq> v" "frame ?e \<noteq> v"
    by (metis not_le)+
  have k: "PDE_IDX w \<noteq> 0 \<and> PDE_IDX w \<noteq> 0x3ff" if "kernel_page w" for w
    using that by (auto simp: kernel_page_def)
  have "frame a = a"
    using a fv by (rule mmu_frame)
  then show ?thesis
    using d e a ne k by (simp add: fork_ready_def Let_def)
qed

lemma page_copiedD:
  assumes "page_copied D s v a b c q s'"
  shows "q \<in> free_frames (user_pool s)" "frame q = q" "cr3 s' = cr3 s" "tasks s' = tasks s" "mmu (phys s') c v = Some q"
    "j < 1024 \<Longrightarrow> phys s' (q + of_nat j * 4) = phys s (a + of_nat j * 4)"
    "frame x \<in> D \<Longrightarrow> frame x \<noteq> b \<Longrightarrow> phys s' x = phys s x"
    "PDE_IDX w \<noteq> 0x3ff \<Longrightarrow> PDE_IDX w \<noteq> 0 \<Longrightarrow> frame w \<noteq> v \<Longrightarrow> mmu (phys s') c w = mmu (phys s) c w"
    "memory_ok (insert q D) (s'\<lparr>cr3 := c\<rparr>)" "lock_free (pool_lock (user_pool s')) s'" "fewer_free s s'"
    "frame x \<notin> {b, q, frame c, table_of c s' v} \<Longrightarrow> phys s' x = phys s x"
    "i \<le> 0x3ff \<Longrightarrow> i \<noteq> PDE_IDX v \<Longrightarrow> pde_of (phys s') c i = pde_of (phys s) c i"
    "table_of c s' v \<in> free_frames (kernel_pool s) \<or> present (pde_of (phys s) c (PDE_IDX v)) \<and> table_of c s' v = table_of c s v"
  using assms unfolding page_copied_def by blast+

lemma parent_untouched:
  assumes inv: "fork_inv D T s child parent bp b c" and v: "PDE_IDX v < 0x300" and pc: "page_copied D s v a b c q s'"
  shows "mmu (phys s') (cr3 s) w = mmu (phys s) (cr3 s) w"
    and "tables_ok (phys s') (cr3 s) (all_free s' \<union> insert q D \<union> insert (table_of c s' v) T)"
proof -
  let ?F = "all_free s \<union> D \<union> T" and ?t = "table_of c s' v"
  note d = inv [unfolded fork_inv_def data_page_def own_tables_def] and p = page_copiedD [OF pc]
  have t: "?t \<in> ?F"
    using p(14) d v by (auto simp: all_free_def table_of_def)
  have out: "phys s' x = phys s x" if "frame x \<notin> ?F" for x
    using that t d p(1) by (intro p(12)) (auto simp: all_free_def)
  have ok: "tables_ok (phys s) (cr3 s) ?F"
    using d by blast
  show "mmu (phys s') (cr3 s) w = mmu (phys s) (cr3 s) w"
    by (rule mmu_agree(3) [OF ok out])
  have "tables_ok (phys s') (cr3 s) ?F"
    by (rule mmu_agree(2) [OF ok out])
  then show "tables_ok (phys s') (cr3 s) (all_free s' \<union> insert q D \<union> insert ?t T)"
    by (rule tables_ok_mono) (use t p(1,11) in \<open>auto simp: all_free_def fewer_free_def\<close>)
qed

lemma fork_inv_step:
  assumes inv: "fork_inv D T s child parent bp b c" and v: "to_copy D s b c v" and pc: "page_copied D s v a b c q s'"
  shows "fork_inv (insert q D) (insert (table_of c s' v) T) s' child parent bp b c"
proof -
  let ?t = "table_of c s' v" and ?e = "pgdir (tasks s parent)"
  note d = inv [unfolded fork_inv_def data_page_def own_tables_def] and p = page_copiedD [OF pc]
  have lv: "PDE_IDX v < 0x300"
    using v by (simp add: to_copy_def)
  note par = parent_untouched [OF inv lv pc]
  have kp: "mmu (phys s') c w = mmu (phys s) c w" if "kernel_page w" for w
  proof (rule p(8))
    show "PDE_IDX w \<noteq> 0x3ff" "PDE_IDX w \<noteq> 0"
      using that by (auto simp: kernel_page_def)
    have "PDE_IDX (frame w) = PDE_IDX w"
      by (rule frame_ptr_parts)
    then show "frame w \<noteq> v"
      using lv that unfolding kernel_page_def by (metis not_le)
  qed
  have own: "own_tables (insert ?t T) (phys s') c"
    unfolding own_tables_def
  proof (intro conjI allI impI)
    show "frame c \<in> insert ?t T"
      using d by blast
    fix i
    assume i: "i < 0x300" "present (pde_of (phys s') c i)"
    then have "i \<le> 0x3ff"
      by (simp add: word_le_nat_alt word_less_nat_alt)
    then show "frame (pde_of (phys s') c i) \<in> insert ?t T"
      using i d p(13) by (cases "i = PDE_IDX v") (auto simp: table_of_def)
  qed
  have "data_page (phys s') (cr3 s') (all_free s' \<union> insert q D \<union> insert ?t T) bp b"
    using par d p(3) by (simp add: data_page_def)
  then show ?thesis
    unfolding fork_inv_def using own p(3,4,9,10) d kp par(1) by simp
qed

lemma to_copy_step:
  assumes inv: "fork_inv D T s child parent bp b c" and v: "to_copy D s b c v" and w: "to_copy D s b c w" "w \<noteq> v"
    and pc: "page_copied D s v a b c q s'"
  shows "to_copy (insert q D) s' b c w"
proof -
  note p = page_copiedD [OF pc] and e = w(1) [unfolded to_copy_def]
  note r = range_page [OF e [THEN conjunct1]]
  have "mmu (phys s') c w = None"
    using p(8) [of w] r w(2) e by simp
  moreover have "mmu (phys s') (cr3 s') w = mmu (phys s) (cr3 s) w"
    using parent_untouched(1) [OF inv _ pc] v p(3) by (simp add: to_copy_def)
  ultimately show ?thesis
    using e by (auto simp: to_copy_def)
qed

section \<open>A list of pages\<close>

fun copy_list :: "addr \<Rightarrow> addr \<Rightarrow> u32 \<Rightarrow> u32 list \<Rightarrow> 'a mstate_scheme \<Rightarrow> 'a mstate_scheme option" where
  "copy_list child parent bp [] s = Some s"
| "copy_list child parent bp (v # vs) s = do { s1 \<leftarrow> copy_page child parent bp v s; copy_list child parent bp vs s1 }"

text \<open>Page \<open>v\<close> of the child is a frame of its own with what the parent's page held in \<open>s\<close>.\<close>

definition same_page :: "'a mstate_scheme \<Rightarrow> u32 \<Rightarrow> 'a mstate_scheme \<Rightarrow> u32 \<Rightarrow> u32 \<Rightarrow> bool" where
  "same_page s c s' v q \<longleftrightarrow> mmu (phys s') c v = Some q \<and> q \<in> free_frames (user_pool s) \<and>
     (\<forall>a j. mmu (phys s) (cr3 s) v = Some a \<and> j < 1024 \<longrightarrow> phys s' (q + of_nat j * 4) = phys s (a + of_nat j * 4))"

definition list_copied :: "u32 set \<Rightarrow> 'a mstate_scheme \<Rightarrow> u32 \<Rightarrow> u32 \<Rightarrow> u32 list \<Rightarrow> u32 list \<Rightarrow> 'a mstate_scheme \<Rightarrow> bool" where
  "list_copied D s b c vs qs s' \<longleftrightarrow> distinct qs \<and> list_all2 (same_page s c s') vs qs \<and> cr3 s' = cr3 s \<and> tasks s' = tasks s \<and>
     (\<forall>w. mmu (phys s') (cr3 s) w = mmu (phys s) (cr3 s) w) \<and>
     (\<forall>w. PDE_IDX w \<noteq> 0x3ff \<and> PDE_IDX w \<noteq> 0 \<and> frame w \<notin> set vs \<longrightarrow> mmu (phys s') c w = mmu (phys s) c w) \<and>
     (\<forall>x. frame x \<in> D \<and> frame x \<noteq> b \<longrightarrow> phys s' x = phys s x) \<and> fewer_free s s' \<and>
     memory_ok (D \<union> set qs) (s'\<lparr>cr3 := c\<rparr>) \<and> set qs \<inter> D = {}"

lemma same_page_earlier:
  assumes pc: "page_copied D s v a b c q s1" and inv: "fork_inv D T s child parent bp b c" and v: "to_copy D s b c v"
    and w: "to_copy D s b c w" and sp: "same_page s1 c s' w r"
  shows "same_page s c s' w r"
proof -
  note p = page_copiedD [OF pc]
  have m: "mmu (phys s1) (cr3 s) w = mmu (phys s) (cr3 s) w"
    using parent_untouched(1) [OF inv _ pc] v by (simp add: to_copy_def)
  have "phys s1 (a' + of_nat j * 4) = phys s (a' + of_nat j * 4)" if "mmu (phys s) (cr3 s) w = Some a'" "j < 1024" for a' j
  proof -
    have a': "a' \<in> D" "a' \<noteq> b" "frame a' = a'"
      using w that(1) range_page(1) mmu_frame by (auto simp: to_copy_def)
    have "frame (a' + of_nat j * 4) = a'"
      using frame_of_add [OF word_in_frame [OF that(2)], of a'] a'(3) by simp
    then show ?thesis
      using p(7) [of "a' + of_nat j * 4"] a' by simp
  qed
  then show ?thesis
    using sp m p(3,11) by (auto simp: same_page_def fewer_free_def)
qed

lemma list_copied_Cons:
  assumes pc: "page_copied D s v a b c q s1" and inv: "fork_inv D T s child parent bp b c" and v: "to_copy D s b c v"
    and a: "mmu (phys s) (cr3 s) v = Some a" and vs: "\<forall>w\<in>set vs. to_copy D s b c w" "v \<notin> set vs"
    and rest: "list_copied (insert q D) s1 b c vs qs s'"
  shows "list_copied D s b c (v # vs) (q # qs) s'"
proof -
  note p = page_copiedD [OF pc] and l = rest [unfolded list_copied_def]
  note r = range_page [OF v [unfolded to_copy_def, THEN conjunct1]]
  have m: "mmu (phys s1) (cr3 s) w = mmu (phys s) (cr3 s) w" for w
    using parent_untouched(1) [OF inv _ pc] v by (simp add: to_copy_def)
  have qD: "q \<notin> D" "q \<noteq> b"
    using p(1) inv memory_okD(5) [of D "s\<lparr>cr3 := c\<rparr>" PF_USER] by (auto simp: fork_inv_def get_pool_def)
  have "phys s' (q + of_nat j * 4) = phys s1 (q + of_nat j * 4)" if "j < 1024" for j
    using l frame_of_add [OF word_in_frame [OF that], of q] p(2) qD(2) by simp
  moreover have "mmu (phys s') c v = Some q"
    using l r p(5) vs(2) by simp
  ultimately have "same_page s c s' v q"
    using p(1,6) a by (simp add: same_page_def)
  moreover have "list_all2 (same_page s c s') vs qs"
    using l same_page_earlier [OF pc inv v] vs(1) by (auto intro: list.rel_mono_strong)
  moreover have "phys s' x = phys s x" if "frame x \<in> D" "frame x \<noteq> b" for x
    using l that p(7) [OF that] by simp
  moreover have "mmu (phys s') c w = mmu (phys s) c w" if "PDE_IDX w \<noteq> 0x3ff" "PDE_IDX w \<noteq> 0" "frame w \<notin> set (v # vs)" for w
    using l that p(8) [OF that(1,2)] by simp
  moreover have "fewer_free s s'" "q \<notin> set qs" "set (q # qs) \<inter> D = {}"
    using l p(11) qD by (auto simp: fewer_free_def)
  ultimately show ?thesis
    using l m p(3,4) by (simp add: list_copied_def)
qed

lemma copy_list_ok:
  assumes "fork_inv D T s child parent bp b c" and "\<forall>v\<in>set vs. to_copy D s b c v" and "distinct vs" and "room_for PF_USER (length vs) s"
  shows "\<exists>qs s'. copy_list child parent bp vs s = Some s' \<and> list_copied D s b c vs qs s'"
  using assms
proof (induction vs arbitrary: D T s)
  case Nil
  then show ?case
    by (intro exI [of _ "[]"] exI [of _ s]) (simp add: list_copied_def fork_inv_def fewer_free_def)
next
  case (Cons v vs)
  have v: "to_copy D s b c v"
    using Cons.prems(2) by simp
  then obtain a where a: "mmu (phys s) (cr3 s) v = Some a"
    by (auto simp: to_copy_def)
  obtain q s1 where q: "copy_page child parent bp v s = Some s1" "page_copied D s v a b c q s1" "room_for PF_USER (length vs) s1"
    using copy_page_ok [OF to_copy_ready [OF Cons.prems(1) v a], of "length vs"] Cons.prems(4) by auto
  have "\<forall>w\<in>set vs. to_copy (insert q D) s1 b c w"
    using to_copy_step [OF Cons.prems(1) v _ _ q(2)] Cons.prems(2,3) by auto
  then obtain qs s' where "copy_list child parent bp vs s1 = Some s'" "list_copied (insert q D) s1 b c vs qs s'"
    using Cons.IH [OF fork_inv_step [OF Cons.prems(1) v q(2)] _ _ q(3)] Cons.prems(3) by auto
  then show ?case
    using list_copied_Cons [OF q(2) Cons.prems(1) v a] Cons.prems(2,3) q(1) by (intro exI [of _ "q # qs"] exI [of _ s']) simp
qed

section \<open>The loop over the bitmap\<close>

text \<open>The pages whose bits are set, from bit \<open>k\<close> on.\<close>

definition used_pages :: "u32 \<Rightarrow> bitmap \<Rightarrow> nat \<Rightarrow> nat \<Rightarrow> u32 list" where
  "used_pages start bm k n = map (page_at start) (filter (bm_bit bm) [k..<k + n])"

lemma copy_list_append:
  fixes s :: "'a mstate_scheme"
  shows "copy_list ch pa bp (vs @ ws) s = do { s1 \<leftarrow> copy_list ch pa bp vs s; copy_list ch pa bp ws s1 }"
proof (induction vs arbitrary: s)
  case (Cons v vs)
  have "copy_list ch pa bp (vs @ ws) = (\<lambda>s1 :: 'a mstate_scheme. copy_list ch pa bp vs s1 \<bind> copy_list ch pa bp ws)"
    by (intro ext) (rule Cons.IH)
  then show ?case
    by simp
qed simp

lemma used_pages_append: "used_pages start bm k (m + n) = used_pages start bm k m @ used_pages start bm (k + m) n"
proof -
  have "[k..<k + (m + n)] = [k..<k + m] @ [k + m..<k + m + n]"
    using upt_add_eq_append [of k "k + m" n] by (simp add: add.assoc)
  then show ?thesis
    by (simp add: used_pages_def del: upt_Suc)
qed

lemma copy_bits_list:
  fixes s :: "'a mstate_scheme"
  assumes "i < length (bits bm)" and "k + m \<le> 8"
  shows "copy_bits m k i (bits bm ! i) ch pa start bp s = copy_list ch pa bp (used_pages start bm (8 * i + k) m) s"
  using assms(2)
proof (induction m arbitrary: k s)
  case 0
  then show ?case
    by (simp add: used_pages_def)
next
  case (Suc m)
  have "used_pages start bm (8 * i + k) (1 + m) = used_pages start bm (8 * i + k) 1 @ used_pages start bm (8 * i + Suc k) m"
    unfolding used_pages_append by simp
  moreover have ih: "copy_bits m (Suc k) i (bits bm ! i) ch pa start bp = (copy_list ch pa bp (used_pages start bm (8 * i + Suc k) m) :: 'a mstate_scheme \<Rightarrow> _)"
    using Suc.prems by (intro ext Suc.IH) simp
  moreover have k: "k < 8"
    using Suc.prems by simp
  then have "(push_bit k 1 AND bits bm ! i \<noteq> 0) = bm_bit bm (8 * i + k)"
    using word_and_push_bit_eq_0 [of k "bits bm ! i"] by (simp add: bm_bit_def and.commute)
  moreover have "used_pages start bm (8 * i + k) 1 = (if bm_bit bm (8 * i + k) then [page_at start (8 * i + k)] else [])"
    by (simp add: used_pages_def)
  moreover have "(of_nat (i * 8 + k) * PG_SIZE + start :: u32) = page_at start (8 * i + k)"
    by (simp add: page_at_def algebra_simps)
  ultimately show ?case
    by (simp add: copy_list_append ih)
qed

lemma copy_bytes_list:
  fixes s :: "'a mstate_scheme"
  assumes "i + n \<le> length (bits bm)"
  shows "copy_bytes n i (bits bm) ch pa start bp s = copy_list ch pa bp (used_pages start bm (8 * i) (8 * n)) s"
  using assms
proof (induction n arbitrary: i s)
  case 0
  then show ?case
    by (simp add: used_pages_def)
next
  case (Suc n)
  have "used_pages start bm (8 * i) (8 + 8 * n) = used_pages start bm (8 * i) 8 @ used_pages start bm (8 * Suc i) (8 * n)"
    unfolding used_pages_append by (simp add: add.commute)
  moreover have ih: "copy_bytes n (Suc i) (bits bm) ch pa start bp = (copy_list ch pa bp (used_pages start bm (8 * Suc i) (8 * n)) :: 'a mstate_scheme \<Rightarrow> _)"
    using Suc.prems by (intro ext Suc.IH) simp
  moreover have "copy_list ch pa bp (used_pages start bm (8 * i) 8) s =
      (if bits bm ! i \<noteq> 0 then copy_bits 8 0 i (bits bm ! i) ch pa start bp s else Some s)"
  proof (cases "bits bm ! i = 0")
    case True
    then have "\<not> bm_bit bm j" if "j \<in> set [8 * i..<8 * i + 8]" for j
    proof -
      have "j div 8 = i"
        using that by auto
      then show ?thesis
        using True by (simp add: bm_bit_def)
    qed
    then show ?thesis
      using True by (simp add: used_pages_def del: upt_Suc)
  qed (use copy_bits_list [of i bm 0 8 ch pa start bp s] Suc.prems in \<open>simp del: copy_bits.simps\<close>)
  ultimately show ?case
    using Suc.prems by (simp add: rd_in copy_list_append ih del: copy_bits.simps)
qed

section \<open>The whole body\<close>

text \<open>The user half of the parent: the pages of its bitmap lie below the kernel, have frames in use, and the child has none of them yet.\<close>

definition body_ready :: "u32 set \<Rightarrow> 'a mstate_scheme \<Rightarrow> u32 \<Rightarrow> u32 \<Rightarrow> virtual_addr \<Rightarrow> bool" where
  "body_ready D s b c uv \<longleftrightarrow> (let bm = vaddr_bitmap uv; st = vaddr_start uv in
     btmp_bytes_len bm \<le> length (bits bm) \<and> range_ok st (bm_cap bm) \<and> unat st + bm_cap bm * 4096 \<le> 0xc0000000 \<and>
     (\<forall>i<bm_cap bm. bm_bit bm i \<longrightarrow> mmu (phys s) c (page_at st i) = None \<and>
        (\<exists>a. mmu (phys s) (cr3 s) (page_at st i) = Some a \<and> a \<in> D \<and> a \<noteq> b)) \<and>
     room_for PF_USER (card {i. i < bm_cap bm \<and> bm_bit bm i}) s)"

lemma user_page_low:
  assumes "range_ok st n" and "unat st + n * 4096 \<le> 0xc0000000" and "i < n"
  shows "range_ok (page_at st i) 1" and "PDE_IDX (page_at st i) < 0x300"
proof -
  note r = page_at_range [OF assms(1,3)]
  show "range_ok (page_at st i) 1"
    using r assms(3) by (auto simp: range_ok_def)
  have "unat (page_at st i) < 0xc0000000"
    using r assms(2,3) by simp
  then have "unat (page_at st i) div 4096 div 1024 < 768"
    by simp
  then show "PDE_IDX (page_at st i) < 0x300"
    by (simp add: word_less_nat_alt unat_PDE_IDX)
qed

lemma used_pages_all:
  assumes "range_ok st n"
  shows "distinct (used_pages st bm 0 n)" and "length (used_pages st bm 0 n) = card {i. i < n \<and> bm_bit bm i}"
    and "set (used_pages st bm 0 n) = page_at st ` {i. i < n \<and> bm_bit bm i}"
proof -
  have s: "set (filter (bm_bit bm) [0..<n]) = {i. i < n \<and> bm_bit bm i}"
    by auto
  show "distinct (used_pages st bm 0 n)"
    using page_at_inj [OF assms] by (auto simp: used_pages_def distinct_map inj_on_def)
  have "length (filter (bm_bit bm) [0..<n]) = card (set (filter (bm_bit bm) [0..<n]))"
    by (rule distinct_card [symmetric]) simp
  then show "length (used_pages st bm 0 n) = card {i. i < n \<and> bm_bit bm i}"
    unfolding s by (simp add: used_pages_def)
  show "set (used_pages st bm 0 n) = page_at st ` {i. i < n \<and> bm_bit bm i}"
    by (auto simp: used_pages_def)
qed

lemma copy_body_list:
  assumes "body_ready D s b c (user_vaddr (tasks s parent))" and "fork_inv D T s child parent bp b c"
    and uv: "uv = user_vaddr (tasks s parent)"
  shows "\<exists>qs s'. copy_body_stack3 child parent bp s = Some s' \<and>
    list_copied D s b c (used_pages (vaddr_start uv) (vaddr_bitmap uv) 0 (bm_cap (vaddr_bitmap uv))) qs s'"
proof -
  let ?bm = "vaddr_bitmap uv" and ?st = "vaddr_start uv"
  let ?vs = "used_pages ?st ?bm 0 (bm_cap ?bm)"
  note d = assms(1) [folded uv, unfolded body_ready_def Let_def]
  have r: "range_ok ?st (bm_cap ?bm)"
    using d by blast
  note u = used_pages_all [OF r, of ?bm]
  have "copy_body_stack3 child parent bp s = copy_list child parent bp ?vs s"
    using copy_bytes_list [of 0 "btmp_bytes_len ?bm" ?bm child parent ?st bp s] d
    by (simp add: copy_body_stack3_def Let_def bm_cap_def mult.commute flip: uv)
  moreover have "\<forall>v\<in>set ?vs. to_copy D s b c v"
    unfolding u(3) using user_page_low [OF r] d by (auto simp: to_copy_def)
  ultimately show ?thesis
    using copy_list_ok [OF assms(2) _ u(1)] d unfolding u(2) by simp
qed

text \<open>The frames of the copies, one by one.\<close>

lemma list_copied_frames:
  assumes "list_copied D s b c vs qs s'" and "distinct vs"
  obtains g where "\<And>v. v \<in> set vs \<Longrightarrow> same_page s c s' v (g v)" and "inj_on g (set vs)"
proof
  note l = assms(1) [unfolded list_copied_def]
  let ?g = "\<lambda>v. the (mmu (phys s') c v)"
  have sp: "same_page s c s' (vs ! i) (qs ! i)" "?g (vs ! i) = qs ! i" if "i < length vs" for i
    using l that by (auto simp: list_all2_conv_all_nth same_page_def)
  show "same_page s c s' v (?g v)" if "v \<in> set vs" for v
    using that sp by (auto simp: in_set_conv_nth)
  show "inj_on ?g (set vs)"
  proof (rule inj_onI)
    fix v w
    assume "v \<in> set vs" "w \<in> set vs" "?g v = ?g w"
    then obtain i j where "v = vs ! i" "w = vs ! j" "i < length vs" "j < length vs" "qs ! i = qs ! j"
      using sp(2) by (metis in_set_conv_nth)
    moreover have "length qs = length vs" "distinct qs"
      using l by (auto dest: list_all2_lengthD)
    ultimately show "v = w"
      by (simp add: nth_eq_iff_index_eq)
  qed
qed

section \<open>Properties\<close>

text \<open>
  C7. \<^verbatim>\<open>fork\<close> gives the child a copy of every page of the parent and no page of the parent itself: the loops over the bytes and bits of the parent's
  address bitmap end with every used page mapped in the child's space at the same address, on a frame that was free, a different one for every page, with the
  words that the parent's page holds; the parent's address space, its frames and all other frames in use (the shared buffer apart) are as before, and the
  processor is back in the parent's space.
\<close>

theorem fork_copies_body:
  assumes "body_ready D s b c uv" and "fork_inv D T s child parent bp b c" and "uv = user_vaddr (tasks s parent)"
    and "P = {page_at (vaddr_start uv) i | i. i < bm_cap (vaddr_bitmap uv) \<and> bm_bit (vaddr_bitmap uv) i}"
  shows "\<exists>s' g. copy_body_stack3 child parent bp s = Some s' \<and> inj_on g P \<and>
    (\<forall>v\<in>P. mmu (phys s') c v = Some (g v) \<and> g v \<in> free_frames (user_pool s) \<and>
       (\<forall>j<1024. phys s' (g v + of_nat j * 4) = phys s (the (mmu (phys s) (cr3 s) v) + of_nat j * 4))) \<and>
    (\<forall>w. mmu (phys s') (cr3 s) w = mmu (phys s) (cr3 s) w) \<and> (\<forall>x. frame x \<in> D \<and> frame x \<noteq> b \<longrightarrow> phys s' x = phys s x) \<and>
    (\<forall>w. PDE_IDX w \<noteq> 0x3ff \<and> PDE_IDX w \<noteq> 0 \<and> frame w \<notin> P \<longrightarrow> mmu (phys s') c w = mmu (phys s) c w) \<and> cr3 s' = cr3 s"
proof -
  let ?vs = "used_pages (vaddr_start uv) (vaddr_bitmap uv) 0 (bm_cap (vaddr_bitmap uv))"
  note d = assms(1) [unfolded body_ready_def Let_def]
  have u: "distinct ?vs" "set ?vs = P"
    using used_pages_all [of "vaddr_start uv" "bm_cap (vaddr_bitmap uv)"] d assms(4) by auto
  obtain qs s' where c: "copy_body_stack3 child parent bp s = Some s'" "list_copied D s b c ?vs qs s'"
    using copy_body_list [OF assms(1) [unfolded assms(3)] assms(2,3)] by blast
  obtain g where g: "\<And>v. v \<in> P \<Longrightarrow> same_page s c s' v (g v)" "inj_on g P"
    using list_copied_frames [OF c(2) u(1)] unfolding u(2) by blast
  have "\<exists>a. mmu (phys s) (cr3 s) v = Some a" if "v \<in> P" for v
    using that d assms(4) by auto
  then have "\<forall>v\<in>P. mmu (phys s') c v = Some (g v) \<and> g v \<in> free_frames (user_pool s) \<and>
       (\<forall>j<1024. phys s' (g v + of_nat j * 4) = phys s (the (mmu (phys s) (cr3 s) v) + of_nat j * 4))"
    using g(1) by (fastforce simp: same_page_def)
  then show ?thesis
    using c g(2) by (intro exI [of _ s'] exI [of _ g]) (auto simp: list_copied_def u(2))
qed

text \<open>The small machine with two pages in the parent's bitmap.\<close>

definition body_vaddr :: virtual_addr where
  "body_vaddr = \<lparr>vaddr_bitmap = \<lparr>btmp_bytes_len = 1, bits = [3]\<rparr>, vaddr_start = 0x8048000\<rparr>"

definition body_state :: mstate where
  "body_state = fork_state\<lparr>tasks := (\<lambda>t. (tasks fork_state t)\<lparr>user_vaddr := body_vaddr\<rparr>)\<rparr>"

lemma body_bits: "{i. i < bm_cap (vaddr_bitmap body_vaddr) \<and> bm_bit (vaddr_bitmap body_vaddr) i} = {0, 1}"
proof -
  have "bit (3 :: 8 word) i \<longleftrightarrow> i = 0 \<or> i = 1" if "i < 8" for i
    using that by (auto simp: numeral_eq_Suc less_Suc_eq bit_Suc bit_0)
  then show ?thesis
    by (auto simp: body_vaddr_def bm_bit_def bm_cap_def)
qed

lemma body_pages: "page_at (vaddr_start body_vaddr) 0 = 0x8048000" "page_at (vaddr_start body_vaddr) 1 = 0x8049000"
  by (simp_all add: body_vaddr_def page_at_def PG_SIZE_def)

lemma body_state_ready: "body_ready {0x203000, 0x205000, 0x206000} body_state 0x203000 0x202000 body_vaddr"
proof -
  let ?bm = "vaddr_bitmap body_vaddr" and ?st = "vaddr_start body_vaddr" and ?D = "{0x203000, 0x205000, 0x206000} :: u32 set"
  have "mmu fork_phys 0x202000 (page_at ?st i) = None \<and> (\<exists>a. mmu fork_phys 0x100000 (page_at ?st i) = Some a \<and> a \<in> ?D \<and> a \<noteq> 0x203000)"
    if "i < bm_cap ?bm" "bm_bit ?bm i" for i
  proof -
    have "i \<in> {0, 1}"
      unfolding body_bits [symmetric] using that by simp
    then show ?thesis
      using body_pages fork_mmu by auto
  qed
  moreover have "btmp_bytes_len ?bm \<le> length (bits ?bm)" "range_ok ?st (bm_cap ?bm)" "unat ?st + bm_cap ?bm * 4096 \<le> 0xc0000000"
    by (simp_all add: body_vaddr_def bm_cap_def range_ok_def frame_def)
  moreover have "room_for PF_USER (card {0 :: nat, 1}) body_state"
    using fork_state_memory(2) by (simp add: body_state_def room_for_def)
  moreover have "phys body_state = fork_phys" "cr3 body_state = 0x100000"
    by (simp_all add: body_state_def)
  ultimately show ?thesis
    unfolding body_ready_def Let_def body_bits by simp
qed

lemma body_state_inv: "fork_inv {0x203000, 0x205000, 0x206000} {0x202000} body_state 0x3000 0x1000 0xc0100000 0x203000 0x202000"
proof -
  let ?F = "all_free fork_state \<union> {0x203000, 0x205000, 0x206000} \<union> {0x202000}"
  have all: "all_free body_state = all_free fork_state"
    by (simp add: all_free_def body_state_def)
  have "f \<notin> all_free fork_state" if "f \<in> {0x100000, 0x101000, 0x204000}" for f
    using fork_all_free [of f] that by auto
  then have "tables_ok fork_phys 0x100000 ?F"
    by (intro fork_tables(1)) simp_all
  then have page: "data_page fork_phys 0x100000 ?F 0xc0100000 0x203000"
    using fork_mmu(1) by (simp add: data_page_def frame_def)
  have own: "own_tables {0x202000} fork_phys 0x202000"
    unfolding own_tables_def using fork_pde(2) by (auto simp: frame_def present_def word_le_nat_alt word_less_nat_alt)
  have k: "kernel_page 0xc0100000" "kernel_page 0xc0102000"
    by (simp_all add: kernel_page_def PDE_IDX_def)
  have "memory_ok {0x203000, 0x205000, 0x206000} (body_state\<lparr>cr3 := 0x202000\<rparr>)" "lock_free 0x500 body_state"
    using fork_state_memory(1,3) by (simp_all add: body_state_def memory_ok_def lock_free_def)
  then show ?thesis
    unfolding fork_inv_def all using page own k fork_mmu by (simp add: body_state_def NULL_def)
qed

theorem fork_copies_body_witness:
  "\<exists>s' q r. copy_body_stack3 0x3000 0x1000 0xc0100000 body_state = Some s' \<and> q \<noteq> r \<and>
    mmu (phys s') 0x202000 0x8048000 = Some q \<and> phys s' q = 0x2a \<and> mmu (phys s') 0x202000 0x8049000 = Some r \<and> phys s' (r + 4) = 0x2b"
proof -
  let ?P = "{page_at (vaddr_start body_vaddr) i | i. i < bm_cap (vaddr_bitmap body_vaddr) \<and> bm_bit (vaddr_bitmap body_vaddr) i}"
  have "?P = page_at (vaddr_start body_vaddr) ` {i. i < bm_cap (vaddr_bitmap body_vaddr) \<and> bm_bit (vaddr_bitmap body_vaddr) i}"
    by auto
  then have P: "?P = {0x8048000, 0x8049000}"
    unfolding body_bits using body_pages by simp
  have uv: "body_vaddr = user_vaddr (tasks body_state 0x1000)"
    by (simp add: body_state_def)
  obtain s' g where g: "copy_body_stack3 0x3000 0x1000 0xc0100000 body_state = Some s'" "inj_on g {0x8048000, 0x8049000}"
      "\<forall>v\<in>{0x8048000, 0x8049000}. mmu (phys s') 0x202000 v = Some (g v) \<and> g v \<in> free_frames (user_pool body_state) \<and>
       (\<forall>j<1024. phys s' (g v + of_nat j * 4) = phys body_state (the (mmu (phys body_state) (cr3 body_state) v) + of_nat j * 4))"
    using fork_copies_body [OF body_state_ready body_state_inv uv P [symmetric]] by blast
  have p: "phys body_state = fork_phys" "cr3 body_state = 0x100000" "fork_phys 0x205000 = 0x2a" "fork_phys 0x206004 = 0x2b"
    by (simp_all add: body_state_def) (simp_all add: fork_phys_def)
  have "phys s' (g 0x8048000) = 0x2a"
    using g(3) [rule_format, of "0x8048000"] p fork_mmu(3) by (auto dest: spec [of _ 0])
  moreover have "phys s' (g 0x8049000 + 4) = 0x2b"
    using g(3) [rule_format, of "0x8049000"] p fork_mmu(5) by (auto dest: spec [of _ 1])
  moreover have "g 0x8048000 \<noteq> g 0x8049000"
    using g(2) by (simp add: inj_on_def)
  ultimately show ?thesis
    using g(1,3) by auto
qed

end
