(* ===== verification/Exec_Load.thy ===== *)
theory Exec_Load
  imports Exec Fork_Copy
begin

text \<open>
  Loading a segment: the pages that \<^verbatim>\<open>segment_load\<close> asks for are exactly those that the bytes of the segment touch, each of them is mapped
  afterwards, and the bytes that are stored through the page tables can be read back.
\<close>

section \<open>Bytes in words\<close>

definition get_byte :: "(u32 \<Rightarrow> u32) \<Rightarrow> u32 \<Rightarrow> u8" where
  "get_byte m p = ucast (drop_bit (8 * unat (p AND 3)) (m (p AND NOT 3)))"

definition set_byte :: "u32 \<Rightarrow> u8 \<Rightarrow> (u32 \<Rightarrow> u32) \<Rightarrow> u32 \<Rightarrow> u32" where
  "set_byte p b m = m(p AND NOT 3 := put_byte (m (p AND NOT 3)) (unat (p AND 3)) b)"

lemma page_masks: "(0xfffff000 :: u32) = NOT (mask 12)" "(0xfff :: u32) = mask 12" "(3 :: u32) = mask 2" "(0xff :: u32) = mask 8"
  by (simp_all add: mask_eq_exp_minus_1)

lemma low_bits: "unat (p AND 3 :: u32) < 4"
proof -
  have "p AND 3 \<le> 3"
    by (rule word_and_le1)
  then show ?thesis
    by (simp add: word_le_nat_alt)
qed

lemma low_high: "(p = q) = (p AND NOT 3 = q AND NOT 3 \<and> p AND 3 = q AND 3)" for p q :: u32
proof
  assume "p AND NOT 3 = q AND NOT 3 \<and> p AND 3 = q AND 3"
  moreover have "x = (x AND NOT 3) OR (x AND 3)" for x :: u32
    by (metis and.commute bit.conj_disj_distrib bit.disj_cancel_left and.right_neutral)
  ultimately show "p = q"
    by metis
qed simp

lemma put_byte_same: "k < 4 \<Longrightarrow> ucast (drop_bit (8 * k) (put_byte w k b)) = b" for b :: u8
  unfolding put_byte_def page_masks
  by (rule bit_word_eqI) (auto simp: bit_simps)

lemma put_byte_other:
  assumes "j < 4" and "k < 4" and "j \<noteq> k"
  shows "ucast (drop_bit (8 * j) (put_byte w k b)) = (ucast (drop_bit (8 * j) w) :: u8)"
proof (rule bit_word_eqI)
  fix n
  assume "n < LENGTH(8)"
  then have "8 * k \<le> 8 * j + n \<Longrightarrow> \<not> 8 * j + n - 8 * k < 8" and "8 * j + n < 32"
    using assms by auto
  moreover have "\<not> bit b i" if "\<not> i < 8" for i
    using that bit_imp_le_length [of b i] by auto
  ultimately show "bit (ucast (drop_bit (8 * j) (put_byte w k b)) :: u8) n = bit (ucast (drop_bit (8 * j) w) :: u8) n"
    unfolding put_byte_def page_masks by (auto simp: bit_simps)
qed

lemma get_set_byte: "get_byte (set_byte p b m) q = (if q = p then b else get_byte m q)"
proof (cases "q AND NOT 3 = p AND NOT 3")
  case True
  have "unat (q AND 3) \<noteq> unat (p AND 3)" if "q \<noteq> p"
    using that True low_high [of q p] by (metis word_unat_eq_iff)
  then show ?thesis
    using True put_byte_same [OF low_bits, of p] put_byte_other [OF low_bits low_bits, of q p]
    by (auto simp: get_byte_def set_byte_def)
next
  case False
  then show ?thesis
    by (auto simp: get_byte_def set_byte_def)
qed

section \<open>Storing bytes through the page tables\<close>

lemma frame_or_off: "frame x + page_off v = frame x OR page_off v"
proof -
  have "frame x AND page_off v = 0"
    by (rule bit_word_eqI) (auto simp: frame_def page_off_def page_masks bit_simps)
  then show ?thesis
    by (simp add: disjunctive_add_eq_or)
qed

lemma mmu_word:
  assumes "mmu m cr v = Some p"
  shows "mmu m cr (v AND NOT 3) = Some (p AND NOT 3)" and "v AND 3 = p AND 3"
proof -
  define w where "w = v AND NOT 3"
  have idx: "PDE_IDX w = PDE_IDX v" "PTE_IDX w = PTE_IDX v"
    unfolding w_def PDE_IDX_drop PTE_IDX_drop page_masks
    by (rule bit_word_eqI; auto simp: bit_simps dest: bit_imp_le_length)+
  obtain x where x: "p = frame x OR page_off v" "mmu m cr w = Some (frame x OR page_off w)"
    using assms by (auto simp: mmu_parts idx pte_addr_alt frame_or_off split: if_splits)
  have "p AND NOT 3 = frame x OR page_off w"
    unfolding x(1) w_def by (rule bit_word_eqI) (auto simp: frame_def page_off_def page_masks bit_simps)
  then show "mmu m cr (v AND NOT 3) = Some (p AND NOT 3)"
    using x(2) unfolding w_def by metis
  show "v AND 3 = p AND 3"
    unfolding x(1) by (rule bit_word_eqI) (auto simp: frame_def page_off_def page_masks bit_simps)
qed

text \<open>The bytes from the virtual address \<open>v\<close> on lie at the physical addresses \<open>ps\<close>, in frames that hold no table.\<close>

definition bytes_at :: "(u32 \<Rightarrow> u32) \<Rightarrow> u32 \<Rightarrow> u32 set \<Rightarrow> u32 \<Rightarrow> u32 list \<Rightarrow> bool" where
  "bytes_at m cr F v ps \<longleftrightarrow> (\<forall>i<length ps. mmu m cr (v + of_nat i) = Some (ps ! i) \<and> frame (ps ! i) \<in> F)"

definition put_bytes :: "u32 list \<Rightarrow> u8 list \<Rightarrow> (u32 \<Rightarrow> u32) \<Rightarrow> u32 \<Rightarrow> u32" where
  "put_bytes ps bs m = fold (\<lambda>(p, b). set_byte p b) (zip ps bs) m"

lemma set_byte_agree:
  assumes "tables_ok m cr F" and "frame p \<in> F"
  shows "tables_ok (set_byte p b m) cr F" and "mmu (set_byte p b m) cr w = mmu m cr w"
proof -
  have "frame (p AND NOT 3) = frame p"
    unfolding frame_def page_masks by (rule bit_word_eqI) (auto simp: bit_simps)
  then have out: "set_byte p b m x = m x" if "frame x \<notin> F" for x
    using that assms(2) unfolding set_byte_def by (metis fun_upd_other)
  show "tables_ok (set_byte p b m) cr F"
    by (rule mmu_agree(2) [OF assms(1) out])
  show "mmu (set_byte p b m) cr w = mmu m cr w"
    by (rule mmu_agree(3) [OF assms(1) out])
qed

lemma bytes_at_Cons:
  "bytes_at m cr F v (p # ps) \<longleftrightarrow> mmu m cr v = Some p \<and> frame p \<in> F \<and> bytes_at m cr F (v + 1) ps"
  by (auto simp: bytes_at_def less_Suc_eq_0_disj algebra_simps)

lemma store_bytes_put:
  assumes "tables_ok (phys s) (cr3 s) F" and "bytes_at (phys s) (cr3 s) F v ps" and "length ps = length bs"
  shows "store_bytes bs v s = Some (s\<lparr>phys := put_bytes ps bs (phys s)\<rparr>)"
  using assms
proof (induction bs arbitrary: v s ps)
  case Nil
  then show ?case
    by (simp add: put_bytes_def)
next
  case (Cons b bs)
  obtain p qs where ps: "ps = p # qs"
    using Cons.prems(3) by (cases ps) auto
  note at = Cons.prems(2) [unfolded ps bytes_at_Cons]
  have w: "mmu (phys s) (cr3 s) (v AND NOT 3) = Some (p AND NOT 3)" "v AND 3 = p AND 3"
    using mmu_word at by blast+
  let ?s = "s\<lparr>phys := set_byte p b (phys s)\<rparr>"
  have agree: "tables_ok (set_byte p b (phys s)) (cr3 s) F" "\<And>w. mmu (set_byte p b (phys s)) (cr3 s) w = mmu (phys s) (cr3 s) w"
    using set_byte_agree [OF Cons.prems(1)] at by blast+
  then have "store_bytes bs (v + 1) ?s = Some (?s\<lparr>phys := put_bytes qs bs (phys ?s)\<rparr>)"
    using Cons.prems(3) at ps by (intro Cons.IH) (simp_all add: bytes_at_def)
  then show ?case
    using w(1) by (simp add: vread_def vwrite_def w(2) put_bytes_def ps set_byte_def Let_def del: fun_upd_apply)
qed

lemma put_bytes_other: "q \<notin> set ps \<Longrightarrow> get_byte (put_bytes ps bs m) q = get_byte m q"
  unfolding put_bytes_def
  by (induction ps arbitrary: bs m; case_tac bs; simp add: get_set_byte)

lemma put_bytes_get:
  assumes "distinct ps" and "length ps = length bs" and "i < length ps"
  shows "get_byte (put_bytes ps bs m) (ps ! i) = bs ! i"
  using assms
proof (induction ps arbitrary: bs m i)
  case (Cons p ps)
  obtain b cs where bs: "bs = b # cs"
    using Cons.prems(2) by (cases bs) auto
  have "put_bytes (p # ps) bs m = put_bytes ps cs (set_byte p b m)"
    by (simp add: put_bytes_def bs)
  then show ?case
    using Cons put_bytes_other [of p ps cs "set_byte p b m"] bs by (cases i) (auto simp: get_set_byte)
qed simp

section \<open>The pages of a segment\<close>

text \<open>A segment of \<open>n\<close> bytes at \<open>v\<close> touches the pages from the one of its first byte to the one of its last.\<close>

lemma occupied_pages_count:
  assumes "0 < unat n" and "unat v + unat n \<le> 2 ^ 32"
  shows "unat (occupied_pages n v) = (unat v + unat n - 1) div 4096 - unat v div 4096 + 1"
proof -
  let ?o = "unat v mod 4096"
  have o: "unat (v AND 0xfff) = ?o"
    using unat_page_off [of v] by (simp add: page_off_def)
  have sz: "unat (PG_SIZE - (v AND 0xfff)) = 4096 - ?o"
    using o by (subst unat_sub) (auto simp: word_le_nat_alt PG_SIZE_def)
  have v: "unat v = unat v div 4096 * 4096 + ?o"
    by simp
  have lt: "?o < 4096" "unat n < 2 ^ 32"
    using unsigned_less [of n] by simp_all
  show ?thesis
  proof (cases "n > PG_SIZE - (v AND 0xfff)")
    case True
    then have gt: "4096 - ?o < unat n"
      using sz by (simp add: word_less_nat_alt)
    have left: "unat (n - (PG_SIZE - (v AND 0xfff))) = unat n + ?o - 4096"
      using gt sz lt by (subst unat_sub) (auto simp: word_le_nat_alt)
    have "n - (PG_SIZE - (v AND 0xfff)) + PG_SIZE - 1 = n + (v AND 0xfff) - 1"
      by (simp add: algebra_simps)
    moreover have "n + (v AND 0xfff) - 1 = (of_nat (unat n + ?o - 1) :: u32)"
      using assms(1) o by (simp add: of_nat_diff flip: o)
    moreover have small: "unat n + ?o - 1 < 2 ^ 32"
      using assms v by linarith
    ultimately have d: "unat (DIV_ROUND_UP (n - (PG_SIZE - (v AND 0xfff))) PG_SIZE) = (unat n + ?o - 1) div 4096"
      by (simp add: DIV_ROUND_UP_def PG_SIZE_def unat_div unat_of_nat)
    then have "unat (DIV_ROUND_UP (n - (PG_SIZE - (v AND 0xfff))) PG_SIZE + 1) = (unat n + ?o - 1) div 4096 + 1"
      using small by (subst unat_add_lem [THEN iffD1]) simp_all
    moreover have "(unat v + unat n - 1) div 4096 = unat v div 4096 + (unat n + ?o - 1) div 4096"
    proof -
      have "unat v + unat n - 1 = (unat n + ?o - 1) + unat v div 4096 * 4096"
        using assms(1) v by linarith
      then show ?thesis
        by simp
    qed
    ultimately show ?thesis
      using True by (simp add: occupied_pages_def Let_def)
  next
    case False
    then have "unat n \<le> 4096 - ?o"
      using sz by (simp add: word_less_nat_alt not_less)
    then have "unat v + unat n - 1 = unat v div 4096 * 4096 + (?o + unat n - 1)" "?o + unat n - 1 < 4096"
      using assms(1) v lt(1) by linarith+
    then have "(unat v + unat n - 1) div 4096 = unat v div 4096"
      using div_mod_parts(1) by metis
    then show ?thesis
      using False by (simp add: occupied_pages_def Let_def)
  qed
qed

lemma segment_page:
  assumes "0 < unat n" and "unat v + unat n \<le> 2 ^ 32" and "i < unat n"
  shows "(unat v mod 4096 + i) div 4096 < unat (occupied_pages n v)"
proof -
  let ?d = "unat v mod 4096"
  have "unat v + unat n - 1 = unat v div 4096 * 4096 + (?d + unat n - 1)"
    using assms(1) by simp
  then have "(unat v + unat n - 1) div 4096 = unat v div 4096 + (?d + unat n - 1) div 4096"
    by simp
  then have "unat (occupied_pages n v) = (?d + unat n - 1) div 4096 + 1"
    using occupied_pages_count [OF assms(1,2)] by simp
  moreover have "(?d + i) div 4096 \<le> (?d + unat n - 1) div 4096"
    using assms(3) by (intro div_le_mono) simp
  ultimately show ?thesis
    by simp
qed

text \<open>The test for a missing page, and the page that \<^verbatim>\<open>get_a_page\<close> puts there.\<close>

lemma absent_test:
  assumes "self_map m cr"
  obtains pde where "vread m cr (pde_ptr v) = Some pde"
    and "(if pde AND 1 = 0 then Some True else do { pte \<leftarrow> vread m cr (pte_ptr v); Some (pte AND 1 = 0) }) = Some (mmu m cr v = None)"
proof (rule that)
  let ?pde = "m (pde_addr cr v)"
  show "vread m cr (pde_ptr v) = Some ?pde"
    using mmu_pde_ptr [OF assms] by (simp add: vread_def)
  show "(if ?pde AND 1 = 0 then Some True else do { pte \<leftarrow> vread m cr (pte_ptr v); Some (pte AND 1 = 0) }) = Some (mmu m cr v = None)"
    using mmu_pte_ptr [OF assms, of v] by (auto simp: vread_def mmu_def)
qed

lemma page_number_positive: "0 \<le> sint (x div PG_SIZE)" for x :: u32
proof -
  have "x div PG_SIZE = drop_bit 12 x"
    by (simp add: PG_SIZE_def drop_bit_eq_div)
  moreover have "\<not> bit x 43"
    using bit_imp_le_length [of x 43] by auto
  ultimately show ?thesis
    by (simp add: sint_uint bit_simps)
qed

definition page_bit :: "u32 \<Rightarrow> 'a mstate_scheme \<Rightarrow> nat" where
  "page_bit v s = unat ((v - vaddr_start (vspace PF_USER s)) div PG_SIZE)"

lemma get_a_page_ok:
  assumes ok: "memory_ok D s" and r: "range_ok v 1" and un: "mmu (phys s) (cr3 s) v = None" and room: "room_for PF_USER (Suc n) s"
    and free: "lock_free (pool_lock (user_pool s)) s" and proc: "pgdir (tasks s (cur s)) \<noteq> NULL"
    and bit: "page_bit v s div 8 < length (bits (vbits PF_USER s))"
  shows "\<exists>q b s'. get_a_page PF_USER v s = Some (v, s') \<and> installed D (set_vbits PF_USER b s) v q s' \<and> room_for PF_USER n s' \<and>
    bitmap_set (vbits PF_USER s) (page_bit v s) 1 = Some b \<and> length (bits b) = length (bits (vbits PF_USER s))"
proof -
  let ?l = "pool_lock (user_pool s)"
  obtain b where b: "bitmap_set (vbits PF_USER s) (page_bit v s) 1 = Some b" "length (bits b) = length (bits (vbits PF_USER s))"
    by (rule bitmap_set_Some [OF bit, of 1]) auto
  let ?s = "set_vbits PF_USER b (locked ?l s)"
  have "memory_ok D ?s" "mmu (phys ?s) (cr3 ?s) v = None" "room_for PF_USER (Suc n) ?s" "lock_mine (pool_lock (user_pool ?s)) ?s"
    using ok un room locked_mine [OF free] by (simp_all add: set_vbits_def upd_task_def memory_ok_def room_for_def lock_mine_def)
  from install_page_user [OF this(1) r this(2-4)] obtain q s' where
    q: "install_page PF_USER v ?s = Some (v, s')" "installed D ?s v q s'" "room_for PF_USER n s'"
    by blast
  have "0 \<le> sint ((v - vaddr_start (vspace PF_USER s)) div PG_SIZE)"
    by (rule page_number_positive)
  then have "get_a_page PF_USER v s = Some (v, s')"
    using q(1) b(1) proc
    by (simp add: get_a_page_def get_pool_def with_lock_free [OF free] running_thread_def page_bit_def set_vbits_def vspace_def vbits_def Let_def)
  moreover have "installed D (set_vbits PF_USER b s) v q s'"
    using q(2) by (simp add: installed_def table_written_def table_of_def fewer_free_def set_vbits_def upd_task_def)
  ultimately show ?thesis
    using q(3) b by blast
qed

section \<open>Room for the segment\<close>

text \<open>
  A process that may load \<open>n\<close> pages from \<open>v\<close> on: there are frames enough, the addresses belong to its bitmap, and pages that exist already are its own and
  have frames of their own.
\<close>

definition own_pages :: "u32 set \<Rightarrow> u32 \<Rightarrow> nat \<Rightarrow> (u32 \<Rightarrow> u32 option) \<Rightarrow> bool" where
  "own_pages D v n f \<longleftrightarrow> (\<forall>i<n. \<forall>q. f (page_at v i) = Some q \<longrightarrow> q \<in> D \<and> (\<forall>j<n. f (page_at v j) = Some q \<longrightarrow> i = j))"

definition loadable :: "u32 set \<Rightarrow> u32 \<Rightarrow> nat \<Rightarrow> 'a mstate_scheme \<Rightarrow> bool" where
  "loadable D v n s \<longleftrightarrow> memory_ok D s \<and> range_ok v n \<and> room_for PF_USER n s \<and> lock_free (pool_lock (user_pool s)) s \<and>
     pgdir (tasks s (cur s)) \<noteq> NULL \<and>
     (\<forall>i<n. page_bit (page_at v i) s div 8 < length (bits (vbits PF_USER s))) \<and> own_pages D v n (mmu (phys s) (cr3 s))"

text \<open>Afterwards the pages have the frames \<open>fs\<close>: those they had before, or frames that nobody used.\<close>

definition loaded :: "u32 set \<Rightarrow> 'a mstate_scheme \<Rightarrow> u32 \<Rightarrow> u32 list \<Rightarrow> u32 set \<Rightarrow> 'a mstate_scheme \<Rightarrow> bool" where
  "loaded D s v fs D' s' \<longleftrightarrow> memory_ok D' s' \<and> D \<subseteq> D' \<and> set fs \<subseteq> D' \<and> distinct fs \<and> cr3 s' = cr3 s \<and>
     (\<forall>i<length fs. mmu (phys s') (cr3 s) (page_at v i) = Some (fs ! i) \<and>
        (mmu (phys s) (cr3 s) (page_at v i) = Some (fs ! i) \<or> mmu (phys s) (cr3 s) (page_at v i) = None \<and> fs ! i \<notin> D)) \<and>
     (\<forall>a. frame a \<in> D \<longrightarrow> phys s' a = phys s a) \<and>
     (\<forall>w. PDE_IDX w \<noteq> 0x3ff \<and> PDE_IDX w \<noteq> 0 \<and> (\<forall>i<length fs. frame w \<noteq> page_at v i) \<longrightarrow>
        mmu (phys s') (cr3 s) w = mmu (phys s) (cr3 s) w)"

lemma own_pages_tail: "own_pages D v (Suc n) f \<Longrightarrow> own_pages D (v + 4096) n f"
  unfolding own_pages_def page_at_Suc [symmetric] by (meson Suc_less_eq Suc_inject)

lemma own_pages_cong: "own_pages D v n f \<Longrightarrow> (\<And>i. i < n \<Longrightarrow> g (page_at v i) = f (page_at v i)) \<Longrightarrow> D \<subseteq> D' \<Longrightarrow> own_pages D' v n g"
  unfolding own_pages_def by (metis subsetD)

lemma loadable_tail:
  assumes "loadable D v (Suc n) s"
  shows "loadable D (v + 4096) n s"
proof -
  note d = assms [unfolded loadable_def]
  have "room_for PF_USER n s"
    using d by (simp add: room_for_def)
  moreover have "\<forall>i<n. page_bit (page_at (v + 4096) i) s div 8 < length (bits (vbits PF_USER s))"
    using d unfolding page_at_Suc [symmetric] by (meson Suc_less_eq)
  ultimately show ?thesis
    using d range_ok_Suc(1) own_pages_tail unfolding loadable_def by metis
qed

lemma next_page_other: "range_ok v (Suc n) \<Longrightarrow> i < n \<Longrightarrow> page_at (v + 4096) i \<noteq> v"
  using page_at_inj [of v "Suc n" "Suc i" 0] by (simp add: page_at_Suc)

lemma loadable_installed:
  assumes l: "loadable D v (Suc n) s" and i: "installed D (set_vbits PF_USER b s) v q s'" and room: "room_for PF_USER n s'"
    and len: "length (bits b) = length (bits (vbits PF_USER s))"
  shows "loadable (insert q D) (v + 4096) n s'"
proof -
  note d = loadable_tail [OF l, unfolded loadable_def] and inst = i [unfolded installed_def]
  have r: "range_ok v (Suc n)"
    using l by (simp add: loadable_def)
  have t: "tasks s' (cur s') = (tasks s (cur s))\<lparr>user_vaddr := (user_vaddr (tasks s (cur s)))\<lparr>vaddr_bitmap := b\<rparr>\<rparr>"
    using inst by (simp add: set_vbits_def upd_task_def)
  have "page_bit w s' = page_bit w s" "length (bits (vbits PF_USER s')) = length (bits (vbits PF_USER s))" for w
    using t len by (simp_all add: page_bit_def vspace_def vbits_def)
  moreover have "own_pages (insert q D) (v + 4096) n (mmu (phys s') (cr3 s'))"
  proof (rule own_pages_cong)
    show "own_pages D (v + 4096) n (mmu (phys s) (cr3 s))"
      using d by blast
    show "mmu (phys s') (cr3 s') (page_at (v + 4096) k) = mmu (phys s) (cr3 s) (page_at (v + 4096) k)" if "k < n" for k
      using inst page_at_props [OF range_ok_Suc(1) [OF r] that] next_page_other [OF r that] by simp
  qed blast
  ultimately show ?thesis
    using d inst room t by (simp add: loadable_def)
qed

lemma all_less_Suc_shift: "(\<forall>i<Suc n. P i) \<longleftrightarrow> P 0 \<and> (\<forall>i<n. P (Suc i))"
  by (auto simp: less_Suc_eq_0_disj)

lemma loaded_mapped:
  assumes r: "range_ok v (Suc (length fs))" and own: "own_pages D v (Suc (length fs)) (mmu (phys s) (cr3 s))"
    and m: "mmu (phys s) (cr3 s) v = Some f" and l: "loaded D s (v + 4096) fs D' s'"
  shows "loaded D s v (f # fs) D' s'"
proof -
  note d = l [unfolded loaded_def]
  have f: "f \<in> D" "f = fs ! i \<Longrightarrow> i < length fs \<Longrightarrow> mmu (phys s) (cr3 s) (page_at (v + 4096) i) \<noteq> Some (fs ! i)" for i
    using own m unfolding own_pages_def page_at_Suc [symmetric] by (metis page_at_0 zero_less_Suc, metis page_at_0 zero_less_Suc Suc_less_eq nat.distinct(1))
  have "f \<notin> set fs"
    using f d by (metis in_set_conv_nth)
  moreover have "mmu (phys s') (cr3 s) v = Some f"
    using d m range_ok_PDE [OF r] next_page_other [OF r, THEN not_sym] r by (simp add: range_ok_def)
  ultimately show ?thesis
    using d m f(1) by (auto simp: loaded_def all_less_Suc_shift page_at_Suc)
qed

lemma loaded_new:
  assumes r: "range_ok v (Suc (length fs))" and own: "own_pages D v (Suc (length fs)) (mmu (phys s) (cr3 s))"
    and m: "mmu (phys s) (cr3 s) v = None" and i: "installed D (set_vbits PF_USER b s) v q s1" and q: "q \<notin> D"
    and l: "loaded (insert q D) s1 (v + 4096) fs D' s'"
  shows "loaded D s v (q # fs) D' s'"
proof -
  note d = l [unfolded loaded_def] and inst = i [unfolded installed_def, simplified]
  have v: "frame v = v" "page_off v = 0"
    using r range_page(2) [of v] by (simp_all add: range_ok_def)
  have old: "mmu (phys s1) (cr3 s) (page_at (v + 4096) i) = mmu (phys s) (cr3 s) (page_at (v + 4096) i)" if "i < length fs" for i
    using inst page_at_props [OF range_ok_Suc(1) [OF r] that] next_page_other [OF r that] by simp
  have "mmu (phys s) (cr3 s) (page_at (v + 4096) i) \<noteq> Some q" if "i < length fs" for i
    using own q that unfolding own_pages_def page_at_Suc [symmetric] by (metis Suc_less_eq)
  then have "q \<notin> set fs"
    using d old inst by (metis in_set_conv_nth insertI1)
  moreover have "mmu (phys s1) (cr3 s) v = Some q"
    using inst range_ok_PDE [OF r] v by simp
  then have "mmu (phys s') (cr3 s) v = Some q"
    using d inst range_ok_PDE [OF r] next_page_other [OF r, THEN not_sym] v by simp
  moreover have "mmu (phys s') (cr3 s) w = mmu (phys s) (cr3 s) w"
    if "PDE_IDX w \<noteq> 0x3ff" "PDE_IDX w \<noteq> 0" "frame w \<noteq> v" "\<forall>i<length fs. frame w \<noteq> page_at (v + 4096) i" for w
    using d inst that by simp
  moreover have "q \<in> D'"
    using d by blast
  moreover have "mmu (phys s') (cr3 s) (page_at (v + 4096) i) = Some (fs ! i) \<and>
      (mmu (phys s) (cr3 s) (page_at (v + 4096) i) = Some (fs ! i) \<or> mmu (phys s) (cr3 s) (page_at (v + 4096) i) = None \<and> fs ! i \<notin> D)"
    if "i < length fs" for i
    using d inst old [OF that] that by (metis insertI2)
  moreover have "phys s' a = phys s a" if "frame a \<in> D" for a
    using d inst that by simp
  moreover have "memory_ok D' s'" "D \<subseteq> D'" "set fs \<subseteq> D'" "distinct fs" "cr3 s' = cr3 s"
    using d inst by auto
  ultimately show ?thesis
    using m q by (simp add: loaded_def all_less_Suc_shift page_at_Suc)
qed

lemma load_pages_ok:
  assumes "loadable D v n s"
  shows "\<exists>fs D' s'. load_pages n v s = Some (True, s') \<and> length fs = n \<and> loaded D s v fs D' s'"
  using assms
proof (induction n arbitrary: D v s)
  case 0
  then show ?case
    by (intro exI [of _ "[]"] exI [of _ D] exI [of _ s]) (simp add: loaded_def loadable_def)
next
  case (Suc n)
  note d = Suc.prems [unfolded loadable_def]
  have r: "range_ok v (Suc n)" "range_ok v 1"
    using d by (auto simp: range_ok_def)
  have self: "self_map (phys s) (cr3 s)"
    using d tables_okD(1) memory_okD(4) by blast
  obtain pde where pde: "vread (phys s) (cr3 s) (pde_ptr v) = Some pde"
      "(if pde AND 1 = 0 then Some True else do { pte \<leftarrow> vread (phys s) (cr3 s) (pte_ptr v); Some (pte AND 1 = 0) }) =
        Some (mmu (phys s) (cr3 s) v = None)"
    by (rule absent_test [OF self])
  show ?case
  proof (cases "mmu (phys s) (cr3 s) v")
    case (Some f)
    obtain fs D' s' where ih: "load_pages n (v + 4096) s = Some (True, s')" "length fs = n" "loaded D s (v + 4096) fs D' s'"
      using Suc.IH [OF loadable_tail [OF Suc.prems]] by blast
    have "load_pages (Suc n) v s = Some (True, s')"
      using pde ih(1) Some by (simp add: PG_SIZE_def)
    moreover have "loaded D s v (f # fs) D' s'"
      using loaded_mapped [OF _ _ Some ih(3)] d ih(2) by simp
    ultimately show ?thesis
      using ih(2) by (intro exI [of _ "f # fs"] exI [of _ D'] exI [of _ s']) simp
  next
    case None
    have "page_bit v s div 8 < length (bits (vbits PF_USER s))"
      using d by (metis page_at_0 zero_less_Suc)
    then obtain q b s1 where q: "get_a_page PF_USER v s = Some (v, s1)" "installed D (set_vbits PF_USER b s) v q s1" "room_for PF_USER n s1"
        "length (bits b) = length (bits (vbits PF_USER s))"
      using get_a_page_ok [of D s v n] d r(2) None by blast
    obtain fs D' s' where ih: "load_pages n (v + 4096) s1 = Some (True, s')" "length fs = n" "loaded (insert q D) s1 (v + 4096) fs D' s'"
      using Suc.IH [OF loadable_installed [OF Suc.prems q(2-4)]] by blast
    have "v \<noteq> NULL"
      using r by (auto simp: range_ok_def NULL_def)
    then have "load_pages (Suc n) v s = Some (True, s')"
      using pde ih(1) None q(1) by (simp add: PG_SIZE_def)
    moreover have "q \<notin> D"
      using q(2) d memory_okD(5) [of D s PF_USER] by (auto simp: installed_def get_pool_def)
    then have "loaded D s v (q # fs) D' s'"
      using loaded_new [OF _ _ None q(2) _ ih(3)] d ih(2) by simp
    ultimately show ?thesis
      using ih(2) by (intro exI [of _ "q # fs"] exI [of _ D'] exI [of _ s']) simp
  qed
qed

section \<open>The segment in memory\<close>

text \<open>The byte that the processor reads at a virtual address.\<close>

definition vbyte :: "(u32 \<Rightarrow> u32) \<Rightarrow> u32 \<Rightarrow> u32 \<Rightarrow> u8 option" where
  "vbyte m cr v = map_option (get_byte m) (mmu m cr v)"

text \<open>Where byte \<open>i\<close> of a segment lies whose first byte has offset \<open>d\<close> in its page and whose pages have the frames \<open>fs\<close>.\<close>

definition place :: "u32 list \<Rightarrow> nat \<Rightarrow> nat \<Rightarrow> u32" where
  "place fs d i = fs ! ((d + i) div 4096) + of_nat ((d + i) mod 4096)"

lemma page_and_rest: "(of_nat k :: u32) = of_nat (k div 4096) * PG_SIZE + of_nat (k mod 4096)"
proof -
  have "(of_nat k :: u32) = of_nat (k div 4096 * 4096 + k mod 4096)"
    by simp
  also have "\<dots> = of_nat (k div 4096) * PG_SIZE + of_nat (k mod 4096)"
    unfolding of_nat_add of_nat_mult PG_SIZE_def by simp
  finally show ?thesis .
qed

lemma place_virtual: "v + of_nat i = page_at (frame v) ((unat v mod 4096 + i) div 4096) + of_nat ((unat v mod 4096 + i) mod 4096)"
proof -
  let ?k = "unat v mod 4096 + i"
  have off: "page_off v = of_nat (unat v mod 4096)"
    by (simp add: word_unat_eq_iff unat_page_off unat_of_nat)
  have "v + of_nat i = frame v + page_off v + of_nat i"
    by (simp only: frame_plus_off)
  also have "\<dots> = frame v + (of_nat ?k :: u32)"
    unfolding off of_nat_add add.assoc by (rule refl)
  also have "(of_nat ?k :: u32) = of_nat (?k div 4096) * PG_SIZE + of_nat (?k mod 4096)"
    by (rule page_and_rest)
  finally show ?thesis
    by (simp only: page_at_def add.assoc)
qed

lemma place_frame:
  assumes "\<And>j. j < length fs \<Longrightarrow> frame (fs ! j) = fs ! j" and "(d + i) div 4096 < length fs"
  shows "frame (place fs d i) = fs ! ((d + i) div 4096)" and "page_off (place fs d i) = of_nat ((d + i) mod 4096)"
proof -
  have lt: "unat (of_nat ((d + i) mod 4096) :: u32) < 4096"
    by (simp add: unat_of_nat)
  show f: "frame (place fs d i) = fs ! ((d + i) div 4096)"
    using frame_of_add [OF lt, of "fs ! ((d + i) div 4096)"] assms by (simp add: place_def)
  show "page_off (place fs d i) = of_nat ((d + i) mod 4096)"
    using frame_plus_off [of "place fs d i"] unfolding f by (simp add: place_def)
qed

lemma place_inj:
  assumes "\<And>j. j < length fs \<Longrightarrow> frame (fs ! j) = fs ! j" and "distinct fs"
    and "(d + i) div 4096 < length fs" and "(d + j) div 4096 < length fs" and "place fs d i = place fs d j"
  shows "i = j"
proof -
  have "fs ! ((d + i) div 4096) = fs ! ((d + j) div 4096)" "(of_nat ((d + i) mod 4096) :: u32) = of_nat ((d + j) mod 4096)"
    using place_frame [of fs d, OF assms(1)] assms(3-5) by metis+
  then have "(d + i) div 4096 = (d + j) div 4096" "(d + i) mod 4096 = (d + j) mod 4096"
    using assms(2-4) nth_eq_iff_index_eq by (blast, simp add: word_unat_eq_iff unat_of_nat)
  then show ?thesis
    by (metis add_left_cancel div_mult_mod_eq)
qed

lemma put_bytes_frame: "frame a \<notin> frame ` set ps \<Longrightarrow> put_bytes ps bs m a = m a"
proof (induction ps arbitrary: bs m)
  case (Cons p ps)
  have "frame (p AND NOT 3) = frame p"
    unfolding frame_def page_masks by (rule bit_word_eqI) (auto simp: bit_simps)
  then have "set_byte p b m a = m a" for b m
    using Cons.prems by (auto simp: set_byte_def)
  then show ?case
    using Cons by (cases bs) (simp_all add: put_bytes_def)
qed (simp add: put_bytes_def)

section \<open>Properties\<close>

text \<open>
  C8. A segment ends up where its program header says. \<^verbatim>\<open>segment_load\<close> asks for the pages that the segment touches, the first by rounding its address down
  and their number by the sum of the part in the first page and the rest; with enough frames every one of them is there afterwards, and storing the
  bytes of the file through the page tables succeeds and leaves byte \<open>i\<close> of the segment at address \<open>vaddr + i\<close>, across page borders. Pages the
  process already had are used as they are, every other page keeps its place, and frames in use that do not belong to the segment keep their contents.
\<close>

theorem segment_bytes_loaded:
  assumes load: "loadable D (frame v) (unat (occupied_pages n v)) s" and n: "0 < unat n" "unat v + unat n \<le> 2 ^ 32"
    and bs: "length bs = unat n"
  shows "\<exists>s1 s2. load_pages (unat (occupied_pages n v)) (v AND 0xfffff000) s = Some (True, s1) \<and> store_bytes bs v s1 = Some s2 \<and>
    (\<forall>i<unat n. vbyte (phys s2) (cr3 s) (v + of_nat i) = Some (bs ! i)) \<and>
    (\<forall>w. PDE_IDX w \<noteq> 0x3ff \<and> PDE_IDX w \<noteq> 0 \<and> (\<forall>j<unat (occupied_pages n v). frame w \<noteq> page_at (frame v) j) \<longrightarrow>
       mmu (phys s2) (cr3 s) w = mmu (phys s) (cr3 s) w) \<and>
    (\<forall>a. frame a \<in> D \<and> (\<forall>j<unat (occupied_pages n v). mmu (phys s) (cr3 s) (page_at (frame v) j) \<noteq> Some (frame a)) \<longrightarrow>
       phys s2 a = phys s a)"
proof -
  let ?k = "unat (occupied_pages n v)" and ?d = "unat v mod 4096"
  obtain fs D' s1 where l: "load_pages ?k (frame v) s = Some (True, s1)" "length fs = ?k" "loaded D s (frame v) fs D' s1"
    using load_pages_ok [OF load] by blast
  note d = l(3) [unfolded loaded_def]
  let ?ps = "map (place fs ?d) [0..<unat n]" and ?F = "free_frames (kernel_pool s1) \<union> free_frames (user_pool s1) \<union> D'"
  have r: "range_ok (frame v) ?k"
    using load by (simp add: loadable_def)
  have fr: "frame (fs ! j) = fs ! j" if "j < length fs" for j
    using d that mmu_frame page_at_props(1) [OF r] l(2) by metis
  note page = segment_page [OF n, folded l(2)]
  have "mmu (phys s1) (cr3 s) (v + of_nat i) = Some (place fs ?d i)" if "i < unat n" for i
    unfolding place_virtual [of v i] place_def using d page [OF that] page_at_props(1) [OF r] l(2) fr by (intro mmu_offset) (simp_all add: unat_of_nat)
  moreover have "fs ! ((?d + i) div 4096) \<in> D'" if "i < unat n" for i
    using d nth_mem [OF page [OF that]] by blast
  moreover have "cr3 s1 = cr3 s"
    using d by blast
  ultimately have at: "bytes_at (phys s1) (cr3 s1) ?F v ?ps"
    using place_frame(1) [OF fr page] by (simp add: bytes_at_def)
  have dist: "distinct ?ps"
    unfolding distinct_map by (intro conjI inj_onI place_inj [OF fr _ page page]) (use d in auto)
  let ?s2 = "s1\<lparr>phys := put_bytes ?ps bs (phys s1)\<rparr>"
  have t: "tables_ok (phys s1) (cr3 s1) ?F"
    using d memory_okD(4) by blast
  have st: "store_bytes bs v s1 = Some ?s2"
    by (rule store_bytes_put [OF t at]) (simp add: bs)
  have "frame ` set ?ps \<subseteq> set fs"
    using place_frame(1) [OF fr page] nth_mem [OF page] by auto
  then have out: "phys ?s2 a = phys s1 a" if "frame a \<notin> set fs" for a
    using put_bytes_frame [of a ?ps bs "phys s1"] that subsetD by fastforce
  have same: "mmu (phys ?s2) (cr3 s) w = mmu (phys s1) (cr3 s) w" for w
    using mmu_agree(3) [OF t, of "phys ?s2"] out d by auto
  have "vbyte (phys ?s2) (cr3 s) (v + of_nat i) = Some (bs ! i)" if "i < unat n" for i
    using same at put_bytes_get [OF dist, of bs i] that bs d by (simp add: vbyte_def bytes_at_def)
  moreover have "phys ?s2 a = phys s a"
    if "frame a \<in> D" "\<forall>j<?k. mmu (phys s) (cr3 s) (page_at (frame v) j) \<noteq> Some (frame a)" for a
    using that d l(2) out [of a] by (metis in_set_conv_nth)
  moreover have "v AND 0xfffff000 = frame v"
    by (simp add: frame_def)
  ultimately show ?thesis
    using l(1,2) st same d by (intro exI [of _ s1] exI [of _ ?s2]) simp
qed

text \<open>The child of the small machine, with the addresses from \<^verbatim>\<open>USER_VADDR_START\<close> on in its bitmap, loads three bytes.\<close>

definition load_state :: mstate where
  "load_state = fork_state\<lparr>cr3 := 0x202000, tasks := (\<lambda>t. (tasks fork_state t)\<lparr>user_vaddr :=
     \<lparr>vaddr_bitmap = \<lparr>btmp_bytes_len = 2, bits = [0, 0]\<rparr>, vaddr_start = USER_VADDR_START\<rparr>\<rparr>)\<rparr>"

lemma load_state_loadable: "loadable {0x203000, 0x205000, 0x206000} 0x8048000 1 load_state"
proof -
  have "own_pages {0x203000, 0x205000, 0x206000} 0x8048000 1 (mmu fork_phys 0x202000)"
    using fork_mmu(4) by (simp add: own_pages_def)
  moreover have "memory_ok {0x203000, 0x205000, 0x206000} load_state" "room_for PF_USER 1 load_state" "lock_free 0x500 load_state"
    using fork_state_memory by (simp_all add: load_state_def memory_ok_def room_for_def lock_free_def)
  moreover have "range_ok 0x8048000 1"
    by (simp add: range_ok_def frame_def)
  ultimately show ?thesis
    by (simp add: loadable_def load_state_def page_bit_def vspace_def vbits_def USER_VADDR_START_def NULL_def)
qed

theorem segment_bytes_loaded_witness:
  "\<exists>s1 s2. load_pages 1 0x8048000 load_state = Some (True, s1) \<and> store_bytes [7, 8, 9] 0x8048010 s1 = Some s2 \<and>
    vbyte (phys s2) 0x202000 0x8048011 = Some 8"
proof -
  have k: "unat (occupied_pages 3 0x8048010) = 1" and f: "frame 0x8048010 = 0x8048000"
    by (simp_all add: occupied_pages_def frame_def PG_SIZE_def)
  have "cr3 load_state = 0x202000"
    by (simp add: load_state_def)
  moreover obtain s1 s2 where r: "load_pages 1 0x8048000 load_state = Some (True, s1)" "store_bytes [7, 8, 9] 0x8048010 s1 = Some s2"
      "\<forall>i<3. vbyte (phys s2) (cr3 load_state) (0x8048010 + of_nat i) = Some ([7, 8, 9] ! i)"
    using segment_bytes_loaded [of "{0x203000, 0x205000, 0x206000}" "0x8048010" 3 load_state "[7, 8, 9]"] load_state_loadable
    unfolding k f by auto
  ultimately show ?thesis
    using r(3) [rule_format, of 1] r(1,2) by auto
qed

end
