(* ===== verification/Heap_Blocks.thy ===== *)
theory Heap_Blocks
  imports Heap_Layout
begin

text \<open>
  The blocks of the heap in \<^verbatim>\<open>sys_malloc\<close> and \<^verbatim>\<open>sys_free\<close>: which blocks an arena has, and what the seven free lists look like while blocks join and
  leave them.
\<close>

section \<open>The blocks of an arena\<close>

definition block_at :: "mem_block_desc \<Rightarrow> addr \<Rightarrow> nat \<Rightarrow> addr" where
  "block_at d a i = a + ARENA_SIZE + of_nat i * block_size d"

definition blocks :: "mem_block_desc \<Rightarrow> addr \<Rightarrow> addr set" where
  "blocks d a = block_at d a ` {..<unat (blocks_per_arena d)}"

definition block_bytes :: "mem_block_desc \<Rightarrow> addr \<Rightarrow> addr set" where
  "block_bytes d b = {x. x - b < block_size d}"

definition desc_fits :: "mem_block_desc \<Rightarrow> bool" where
  "desc_fits d \<longleftrightarrow> unat (block_size d) * unat (blocks_per_arena d) + 12 \<le> 4096 \<and> 0 < unat (block_size d) \<and>
     0 < unat (blocks_per_arena d) \<and> unat (blocks_per_arena d) \<le> 255"

definition desc_sizes :: "mem_block_desc list \<Rightarrow> bool" where
  "desc_sizes ds \<longleftrightarrow> map (\<lambda>d. (block_size d, blocks_per_arena d)) ds =
     [(16, 255), (32, 127), (64, 63), (128, 31), (256, 15), (512, 7), (1024, 3)]"

lemma desc_sizes_length: "desc_sizes ds \<Longrightarrow> length ds = 7"
  unfolding desc_sizes_def by (drule arg_cong [where f = length]) simp

lemma desc_sizes_fits:
  assumes "desc_sizes ds" and "i < 7"
  shows "desc_fits (ds ! i)"
proof -
  have "ds ! i \<in> set ds"
    using assms desc_sizes_length by simp
  then have "(block_size (ds ! i), blocks_per_arena (ds ! i)) \<in> set (map (\<lambda>d. (block_size d, blocks_per_arena d)) ds)"
    by force
  then show ?thesis
    using assms(1) unfolding desc_sizes_def by (auto simp: desc_fits_def)
qed

lemma block_fits:
  assumes "desc_fits d" and "i < unat (blocks_per_arena d)" and "k < unat (block_size d)"
  shows "12 + i * unat (block_size d) + k < 4096"
proof -
  have "Suc i * unat (block_size d) \<le> unat (blocks_per_arena d) * unat (block_size d)"
    using assms(2) by (intro mult_le_mono1) simp
  moreover have "unat (block_size d) * unat (blocks_per_arena d) + 12 \<le> 4096"
    using assms(1) by (simp add: desc_fits_def)
  ultimately show ?thesis
    using assms(3) by (simp add: mult.commute)
qed

text \<open>A byte of block \<open>i\<close> lies in the page of the arena, behind the header.\<close>

lemma block_byte:
  assumes d: "desc_fits d" and a: "frame a = a" and i: "i < unat (blocks_per_arena d)" and x: "x \<in> block_bytes d (block_at d a i)"
  obtains k where "k < unat (block_size d)" and "unat x = unat a + (12 + i * unat (block_size d) + k)" and "frame x = a"
proof -
  let ?k = "x - block_at d a i" and ?o = "12 + of_nat i * block_size d + (x - block_at d a i)"
  have k: "unat ?k < unat (block_size d)"
    using x by (simp add: block_bytes_def word_less_nat_alt)
  note fit = block_fits [OF d i k]
  have im: "i * unat (block_size d) < 4096" "i < 2 ^ 32"
    using fit d i by (simp_all add: desc_fits_def)
  have "unat (of_nat i * block_size d) = i * unat (block_size d)"
    using im by (subst unat_mult_lem [THEN iffD1]) (simp_all add: unat_of_nat)
  then have o: "unat ?o = 12 + i * unat (block_size d) + unat ?k"
    using fit by (simp add: unat_plus_if' unat_word_ariths)
  then have lt: "unat ?o < 4096"
    using fit by simp
  have xa: "x = frame a + ?o"
    using a by (simp add: block_at_def ARENA_SIZE_def algebra_simps)
  have "frame x = a"
    using frame_of_add [OF lt, of a] a unfolding xa [symmetric] by simp
  moreover have "unat x = unat a + unat ?o"
    using unat_frame_add [OF lt, of a] unat_frame [of a] a unfolding xa [symmetric] by simp
  ultimately show thesis
    using that [of "unat ?k"] k o by simp
qed

lemma block_in_own_bytes: "desc_fits d \<Longrightarrow> b \<in> block_bytes d b"
  by (simp add: block_bytes_def desc_fits_def word_less_nat_alt)

lemma blocks_frame: "desc_fits d \<Longrightarrow> frame a = a \<Longrightarrow> b \<in> blocks d a \<Longrightarrow> x \<in> block_bytes d b \<Longrightarrow> frame x = a \<and> x \<noteq> a"
  by (auto simp: blocks_def elim!: block_byte)

lemma block_frame: "desc_fits d \<Longrightarrow> frame a = a \<Longrightarrow> b \<in> blocks d a \<Longrightarrow> frame b = a"
  using blocks_frame block_in_own_bytes by blast

lemma block2arena_block: "desc_fits d \<Longrightarrow> frame a = a \<Longrightarrow> b \<in> blocks d a \<Longrightarrow> block2arena b = a"
  using block_frame [of d a b] unfolding block2arena_def frame_def by blast

lemma block_index:
  assumes d: "desc_fits d" "frame a = a" and ij: "i < unat (blocks_per_arena d)" "j < unat (blocks_per_arena d)"
    and x: "x \<in> block_bytes d (block_at d a i)" "x \<in> block_bytes d (block_at d a j)"
  shows "i = j"
proof -
  obtain k where k: "k < unat (block_size d)" "unat x = unat a + (12 + i * unat (block_size d) + k)"
    by (rule block_byte [OF d ij(1) x(1)])
  obtain l where l: "l < unat (block_size d)" "unat x = unat a + (12 + j * unat (block_size d) + l)"
    by (rule block_byte [OF d ij(2) x(2)])
  have "(i * unat (block_size d) + k) div unat (block_size d) = (j * unat (block_size d) + l) div unat (block_size d)"
    using k(2) l(2) by simp
  then show ?thesis
    using k(1) l(1) by simp
qed

lemma block_bytes_apart:
  assumes "desc_fits d" "frame a = a" "b \<in> blocks d a" "c \<in> blocks d a" "x \<in> block_bytes d b" "x \<in> block_bytes d c"
  shows "b = c"
proof -
  obtain i j where "b = block_at d a i" "i < unat (blocks_per_arena d)" "c = block_at d a j" "j < unat (blocks_per_arena d)"
    using assms(3,4) by (auto simp: blocks_def)
  then show ?thesis
    using block_index [OF assms(1,2), of i j x] assms(5,6) by simp
qed

lemma block_at_inj: "desc_fits d \<Longrightarrow> frame a = a \<Longrightarrow> inj_on (block_at d a) {..<unat (blocks_per_arena d)}"
  using block_index block_in_own_bytes by (metis inj_onI lessThan_iff)

lemma card_blocks: "desc_fits d \<Longrightarrow> frame a = a \<Longrightarrow> card (blocks d a) = unat (blocks_per_arena d)"
  by (simp add: blocks_def card_image block_at_inj)

lemma finite_blocks [simp]: "finite (blocks d a)"
  by (simp add: blocks_def)

section \<open>The free lists\<close>

text \<open>
  \<open>A i\<close> are the arenas of descriptor \<open>i\<close> and \<open>fl i\<close> is its free list, which holds blocks of these arenas. The ends of the lists lie outside the
  arenas.
\<close>

definition ends :: "mem_block_desc \<Rightarrow> addr set" where
  "ends d = {list_head (free_list d), list_tail (free_list d)}"

definition arena_pages :: "(nat \<Rightarrow> addr set) \<Rightarrow> addr set" where
  "arena_pages A = (\<Union>i<7. A i)"

definition heap_shape :: "mem_block_desc list \<Rightarrow> links \<Rightarrow> (nat \<Rightarrow> addr set) \<Rightarrow> (nat \<Rightarrow> addr list) \<Rightarrow> bool" where
  "heap_shape ds L A fl \<longleftrightarrow> desc_sizes ds \<and>
     (\<forall>i<7. list_rep L (free_list (ds ! i)) (fl i) \<and> set (fl i) \<subseteq> (\<Union>a\<in>A i. blocks (ds ! i) a)) \<and>
     (\<forall>a\<in>arena_pages A. frame a = a) \<and> (\<forall>i<7. frame ` ends (ds ! i) \<inter> arena_pages A = {}) \<and>
     (\<forall>i<7. \<forall>j<7. i \<noteq> j \<longrightarrow> ends (ds ! i) \<inter> ends (ds ! j) = {} \<and> A i \<inter> A j = {})"

lemma heap_shapeD:
  assumes "heap_shape ds L A fl"
  shows "desc_sizes ds" "i < 7 \<Longrightarrow> desc_fits (ds ! i)" "i < 7 \<Longrightarrow> list_rep L (free_list (ds ! i)) (fl i)"
    "i < 7 \<Longrightarrow> set (fl i) \<subseteq> (\<Union>a\<in>A i. blocks (ds ! i) a)" "a \<in> arena_pages A \<Longrightarrow> frame a = a" "i < 7 \<Longrightarrow> a \<in> A i \<Longrightarrow> frame a = a"
    "i < 7 \<Longrightarrow> x \<in> ends (ds ! i) \<Longrightarrow> frame x \<notin> arena_pages A"
    "i < 7 \<Longrightarrow> j < 7 \<Longrightarrow> i \<noteq> j \<Longrightarrow> ends (ds ! i) \<inter> ends (ds ! j) = {}" "i < 7 \<Longrightarrow> j < 7 \<Longrightarrow> i \<noteq> j \<Longrightarrow> A i \<inter> A j = {}"
proof -
  note d = assms [unfolded heap_shape_def]
  show sz: "desc_sizes ds"
    by (rule d [THEN conjunct1])
  show "desc_fits (ds ! i)" if "i < 7"
    by (rule desc_sizes_fits [OF sz that])
  show "list_rep L (free_list (ds ! i)) (fl i)" "set (fl i) \<subseteq> (\<Union>a\<in>A i. blocks (ds ! i) a)" if "i < 7"
    using d that by simp_all
  show pg: "frame a = a" if "a \<in> arena_pages A"
    using d that by simp
  show "frame a = a" if "i < 7" "a \<in> A i"
    using that by (intro pg) (auto simp: arena_pages_def)
  show "frame x \<notin> arena_pages A" if "i < 7" "x \<in> ends (ds ! i)"
    using d that by (metis disjoint_iff imageI)
  show "ends (ds ! i) \<inter> ends (ds ! j) = {}" "A i \<inter> A j = {}" if "i < 7" "j < 7" "i \<noteq> j"
    using d that by simp_all
qed

lemma heap_shapeI:
  assumes "desc_sizes ds" "\<And>i. i < 7 \<Longrightarrow> list_rep L (free_list (ds ! i)) (fl i)" "\<And>i. i < 7 \<Longrightarrow> set (fl i) \<subseteq> (\<Union>a\<in>A i. blocks (ds ! i) a)"
    "\<And>a. a \<in> arena_pages A \<Longrightarrow> frame a = a" "\<And>i x. i < 7 \<Longrightarrow> x \<in> ends (ds ! i) \<Longrightarrow> frame x \<notin> arena_pages A"
    "\<And>i j. i < 7 \<Longrightarrow> j < 7 \<Longrightarrow> i \<noteq> j \<Longrightarrow> ends (ds ! i) \<inter> ends (ds ! j) = {}" "\<And>i j. i < 7 \<Longrightarrow> j < 7 \<Longrightarrow> i \<noteq> j \<Longrightarrow> A i \<inter> A j = {}"
  shows "heap_shape ds L A fl"
proof -
  have "\<forall>i<7. frame ` ends (ds ! i) \<inter> arena_pages A = {}"
    using assms(5) by blast
  then show ?thesis
    using assms(1-4,6,7) by (simp add: heap_shape_def)
qed

lemma list_nodes_ends: "list_nodes (free_list d) xs = ends d \<union> set xs"
  by (auto simp: list_nodes_def ends_def)

lemma free_block_page:
  assumes "heap_shape ds L A fl" and "i < 7" and "b \<in> set (fl i)"
  shows "frame b \<in> A i" and "b \<in> blocks (ds ! i) (frame b)"
proof -
  obtain a where a: "a \<in> A i" "b \<in> blocks (ds ! i) a"
    using heap_shapeD(4) [OF assms(1,2)] assms(3) by blast
  have "frame b = a"
    using block_frame [OF heap_shapeD(2) [OF assms(1,2)] heap_shapeD(6) [OF assms(1,2) a(1)] a(2)] .
  then show "frame b \<in> A i" "b \<in> blocks (ds ! i) (frame b)"
    using a by simp_all
qed

text \<open>The nodes of two lists are different ones, also when one of them gets a further block of its own arenas.\<close>

lemma nodes_apart:
  assumes sh: "heap_shape ds L A fl" and ij: "i < 7" "j < 7" "i \<noteq> j" and b: "frame b \<in> A i"
  shows "list_nodes (free_list (ds ! j)) (fl j) \<inter> insert b (list_nodes (free_list (ds ! i)) (fl i)) = {}"
proof -
  have in_A: "\<And>k x. k < 7 \<Longrightarrow> x \<in> set (fl k) \<Longrightarrow> frame x \<in> A k" and out: "\<And>k x. k < 7 \<Longrightarrow> x \<in> ends (ds ! k) \<Longrightarrow> frame x \<notin> arena_pages A"
    using free_block_page(1) [OF sh] heap_shapeD(7) [OF sh] by blast+
  have sub: "\<And>k. k < 7 \<Longrightarrow> A k \<subseteq> arena_pages A"
    by (auto simp: arena_pages_def)
  have "ends (ds ! j) \<inter> insert b (set (fl i)) = {}" "set (fl j) \<inter> ends (ds ! i) = {}"
    using in_A out sub ij b by blast+
  moreover have "set (fl j) \<inter> insert b (set (fl i)) = {}"
    using in_A heap_shapeD(9) [OF sh ij] b ij(1,2) by blast
  ultimately show ?thesis
    using heap_shapeD(8) [OF sh ij] unfolding list_nodes_ends by blast
qed

lemma heap_shape_lists:
  assumes sh: "heap_shape ds L A fl" and i: "i < 7" and own: "list_rep L' (free_list (ds ! i)) xs" "set xs \<subseteq> (\<Union>a\<in>A i. blocks (ds ! i) a)"
    and rest: "\<And>j n. j < 7 \<Longrightarrow> j \<noteq> i \<Longrightarrow> n \<in> list_nodes (free_list (ds ! j)) (fl j) \<Longrightarrow> lnext L' n = lnext L n \<and> lprev L' n = lprev L n"
  shows "heap_shape ds L' A (fl(i := xs))"
proof -
  have "list_rep L' (free_list (ds ! j)) (fl j)" if "j < 7" "j \<noteq> i" for j
    using list_rep_frame [OF heap_shapeD(3) [OF sh that(1)] rest [OF that]] .
  then show ?thesis
    using sh own unfolding heap_shape_def by auto
qed

lemma heap_shape_append:
  assumes sh: "heap_shape ds L A fl" and i: "i < 7" and b: "a \<in> A i" "b \<in> blocks (ds ! i) a" "b \<notin> set (fl i)"
  shows "heap_shape ds (list_append (free_list (ds ! i)) b L) A (fl(i := fl i @ [b]))"
proof (rule heap_shape_lists [OF sh i])
  have fb: "frame b \<in> A i"
    using block_frame [OF heap_shapeD(2) [OF sh i] heap_shapeD(6) [OF sh i b(1)] b(2)] b(1) by simp
  then have "b \<notin> ends (ds ! i)"
    using heap_shapeD(7) [OF sh i] i by (auto simp: arena_pages_def)
  then have "b \<notin> list_nodes (free_list (ds ! i)) (fl i)"
    using b(3) by (simp add: list_nodes_ends)
  with heap_shapeD(3) [OF sh i] show "list_rep (list_append (free_list (ds ! i)) b L) (free_list (ds ! i)) (fl i @ [b])"
    by (rule list_append_rep)
  show "set (fl i @ [b]) \<subseteq> (\<Union>a\<in>A i. blocks (ds ! i) a)"
    using heap_shapeD(4) [OF sh i] b by auto
  fix j n
  assume "j < 7" "j \<noteq> i" "n \<in> list_nodes (free_list (ds ! j)) (fl j)"
  then show "lnext (list_append (free_list (ds ! i)) b L) n = lnext L n \<and> lprev (list_append (free_list (ds ! i)) b L) n = lprev L n"
    using nodes_apart [OF sh i _ _ fb] by (intro list_append_frame [OF heap_shapeD(3) [OF sh i]]) blast
qed

lemma heap_shape_remove:
  assumes sh: "heap_shape ds L A fl" and i: "i < 7" and b: "fl i = xs @ b # ys"
  shows "heap_shape ds (list_remove b L) A (fl(i := xs @ ys))"
proof (rule heap_shape_lists [OF sh i])
  note rep = heap_shapeD(3) [OF sh i, unfolded b]
  show "list_rep (list_remove b L) (free_list (ds ! i)) (xs @ ys)"
    by (rule list_remove_rep [OF rep])
  show "set (xs @ ys) \<subseteq> (\<Union>a\<in>A i. blocks (ds ! i) a)"
    using heap_shapeD(4) [OF sh i] b by auto
  have fb: "frame b \<in> A i"
    using free_block_page(1) [OF sh i] b by simp
  fix j n
  assume "j < 7" "j \<noteq> i" "n \<in> list_nodes (free_list (ds ! j)) (fl j)"
  then show "lnext (list_remove b L) n = lnext L n \<and> lprev (list_remove b L) n = lprev L n"
    using nodes_apart [OF sh i _ _ fb] unfolding b by (intro list_remove_frame [OF rep]) blast
qed

lemma heap_shape_cong:
  assumes sh: "heap_shape ds L A fl"
    and same: "\<And>i n. i < 7 \<Longrightarrow> n \<in> ends (ds ! i) \<union> set (fl i) \<Longrightarrow> lnext L' n = lnext L n \<and> lprev L' n = lprev L n"
  shows "heap_shape ds L' A fl"
proof -
  have "list_rep L' (free_list (ds ! i)) (fl i)" if "i < 7" for i
    using list_rep_frame [OF heap_shapeD(3) [OF sh that]] same [OF that] by (simp add: list_nodes_ends)
  then show ?thesis
    using sh unfolding heap_shape_def by auto
qed

lemma heap_shape_new:
  assumes sh: "heap_shape ds L A fl" and i: "i < 7" and a: "frame a = a" "a \<notin> arena_pages A" "\<And>j x. j < 7 \<Longrightarrow> x \<in> ends (ds ! j) \<Longrightarrow> frame x \<noteq> a"
  shows "heap_shape ds L (A(i := insert a (A i))) fl"
proof (rule heap_shapeI)
  let ?A = "A(i := insert a (A i))"
  have p: "arena_pages ?A = insert a (arena_pages A)"
    using i by (auto simp: arena_pages_def)
  show "set (fl j) \<subseteq> (\<Union>a\<in>?A j. blocks (ds ! j) a)" if "j < 7" for j
    using heap_shapeD(4) [OF sh that] by auto
  show "frame b = b" if "b \<in> arena_pages ?A" for b
    using that a(1) heap_shapeD(5) [OF sh, of b] unfolding p by auto
  show "frame x \<notin> arena_pages ?A" if "j < 7" "x \<in> ends (ds ! j)" for j x
    using heap_shapeD(7) [OF sh that] a(3) [OF that] unfolding p by simp
  show "?A j \<inter> ?A k = {}" if "j < 7" "k < 7" "j \<noteq> k" for j k
    using heap_shapeD(9) [OF sh that] a(2) that by (auto simp: arena_pages_def)
qed (use heap_shapeD(1,3,8) [OF sh] in blast)+

lemma heap_shape_drop:
  assumes sh: "heap_shape ds L A fl" and i: "i < 7" and a: "blocks (ds ! i) a \<inter> set (fl i) = {}"
  shows "heap_shape ds L (A(i := A i - {a})) fl"
proof (rule heap_shapeI)
  let ?A = "A(i := A i - {a})"
  have p: "arena_pages ?A \<subseteq> arena_pages A"
    by (auto simp: arena_pages_def split: if_splits)
  show "set (fl j) \<subseteq> (\<Union>a\<in>?A j. blocks (ds ! j) a)" if "j < 7" for j
    using heap_shapeD(4) [OF sh that] a by auto
  show "frame b = b" if "b \<in> arena_pages ?A" for b
    using that p heap_shapeD(5) [OF sh, of b] by blast
  show "frame x \<notin> arena_pages ?A" if "j < 7" "x \<in> ends (ds ! j)" for j x
    using heap_shapeD(7) [OF sh that] p by blast
  show "?A j \<inter> ?A k = {}" if "j < 7" "k < 7" "j \<noteq> k" for j k
    using heap_shapeD(9) [OF sh that] by auto
qed (use heap_shapeD(1,3,8) [OF sh] in blast)+

section \<open>Blocks in use\<close>

definition in_use :: "mem_block_desc list \<Rightarrow> (nat \<Rightarrow> addr set) \<Rightarrow> (nat \<Rightarrow> addr list) \<Rightarrow> (nat \<times> addr) set" where
  "in_use ds A fl = {(i, b). i < 7 \<and> (\<exists>a\<in>A i. b \<in> blocks (ds ! i) a) \<and> b \<notin> set (fl i)}"

definition same_links :: "addr set \<Rightarrow> links \<Rightarrow> links \<Rightarrow> bool" where
  "same_links X L L' \<longleftrightarrow> (\<forall>x. x \<notin> X \<longrightarrow> lnext L' x = lnext L x \<and> lprev L' x = lprev L x)"

lemma same_links_trans: "same_links X L L1 \<Longrightarrow> same_links Y L1 L2 \<Longrightarrow> X \<subseteq> Z \<Longrightarrow> Y \<subseteq> Z \<Longrightarrow> same_links Z L L2"
  unfolding same_links_def by (metis subsetD)

lemma same_links_refl: "same_links X L L"
  by (simp add: same_links_def)

text \<open>The bytes of a block belong to no other block, to no header and to no end of a list.\<close>

lemma block_bytes_alone:
  assumes sh: "heap_shape ds L A fl" and i: "i < 7" "a \<in> A i" "b \<in> blocks (ds ! i) a" and x: "x \<in> block_bytes (ds ! i) b"
  shows "frame x = a" and "x \<notin> arena_pages A" and "j < 7 \<Longrightarrow> x \<notin> ends (ds ! j)"
    and "j < 7 \<Longrightarrow> c \<in> A j \<Longrightarrow> e \<in> blocks (ds ! j) c \<Longrightarrow> x \<in> block_bytes (ds ! j) e \<Longrightarrow> j = i \<and> e = b"
proof -
  have fx: "frame x = a" "x \<noteq> a"
    using blocks_frame [OF heap_shapeD(2) [OF sh i(1)] heap_shapeD(6) [OF sh i(1,2)] i(3) x] by simp_all
  then show "frame x = a"
    by simp
  show "x \<notin> arena_pages A"
    using fx heap_shapeD(5) [OF sh, of x] by auto
  have "a \<in> arena_pages A"
    using i by (auto simp: arena_pages_def)
  then show "x \<notin> ends (ds ! j)" if "j < 7"
    using heap_shapeD(7) [OF sh that, of x] fx(1) by auto
  show "j = i \<and> e = b" if j: "j < 7" "c \<in> A j" "e \<in> blocks (ds ! j) c" "x \<in> block_bytes (ds ! j) e"
  proof -
    have "frame x = c"
      using blocks_frame [OF heap_shapeD(2) [OF sh j(1)] heap_shapeD(6) [OF sh j(1,2)] j(3,4)] by simp
    then have ca: "c = a"
      using fx(1) by simp
    then have "j = i"
      using heap_shapeD(9) [OF sh j(1) i(1)] j(2) i(2) by blast
    then show ?thesis
      using block_bytes_apart [OF heap_shapeD(2) [OF sh i(1)] heap_shapeD(6) [OF sh i(1,2)]] i(3) j(3,4) x ca by auto
  qed
qed

lemma in_use_alone:
  assumes sh: "heap_shape ds L A fl" and u: "(i, b) \<in> in_use ds A fl" and x: "x \<in> block_bytes (ds ! i) b"
  shows "frame x \<in> A i" and "x \<notin> arena_pages A" and "j < 7 \<Longrightarrow> x \<notin> ends (ds ! j)" and "j < 7 \<Longrightarrow> x \<notin> set (fl j)"
    and "j < 7 \<Longrightarrow> c \<in> A j \<Longrightarrow> e \<in> blocks (ds ! j) c \<Longrightarrow> (j, e) \<noteq> (i, b) \<Longrightarrow> x \<notin> block_bytes (ds ! j) e"
proof -
  obtain a where a: "i < 7" "a \<in> A i" "b \<in> blocks (ds ! i) a" "b \<notin> set (fl i)"
    using u by (auto simp: in_use_def)
  note alone = block_bytes_alone [OF sh a(1-3) x]
  show "frame x \<in> A i" "x \<notin> arena_pages A" "j < 7 \<Longrightarrow> x \<notin> ends (ds ! j)"
    using alone(1-3) a(2) by simp_all
  show other: "x \<notin> block_bytes (ds ! j) e" if "j < 7" "c \<in> A j" "e \<in> blocks (ds ! j) c" "(j, e) \<noteq> (i, b)" for j c e
    using alone(4) [OF that(1-3)] that(4) by blast
  show "x \<notin> set (fl j)" if j: "j < 7"
  proof
    assume "x \<in> set (fl j)"
    then have f: "frame x \<in> A j" "x \<in> blocks (ds ! j) (frame x)" "(j, x) \<noteq> (i, b)"
      using free_block_page [OF sh j] a(4) by auto
    show False
      using other [OF j f] block_in_own_bytes [OF heap_shapeD(2) [OF sh j]] by blast
  qed
qed

text \<open>Removing or adding a list element touches nodes of that list only.\<close>

lemma same_links_append: "list_rep L l xs \<Longrightarrow> same_links (insert e (list_nodes l xs)) L (list_append l e L)"
  using list_append_frame by (auto simp: same_links_def)

lemma same_links_remove: "list_rep L l (xs @ e # ys) \<Longrightarrow> same_links (list_nodes l (xs @ e # ys)) L (list_remove e L)"
  using list_remove_frame unfolding same_links_def by blast

section \<open>A new arena\<close>

lemma arena2block_at:
  "arena_desc (arenas s a) = Some p \<Longrightarrow> get_desc p s = Some d \<Longrightarrow> arena2block a (of_nat k) s = Some (block_at d a k)"
  by (simp add: arena2block_def block_at_def)

lemma get_desc_lnks [simp]: "get_desc p (s\<lparr>lnks := L\<rparr>) = get_desc p s"
  by (simp add: get_desc_def split: desc_ptr.split)

lemma block_range_Suc:
  assumes "desc_fits d" "frame a = a" "k + Suc n \<le> unat (blocks_per_arena d)"
  shows "block_at d a ` {k..<k + Suc n} = insert (block_at d a k) (block_at d a ` {Suc k..<Suc k + n})"
    and "block_at d a k \<notin> block_at d a ` {Suc k..<Suc k + n}"
proof -
  have "{k..<k + Suc n} = insert k {Suc k..<Suc k + n}"
    by auto
  then show "block_at d a ` {k..<k + Suc n} = insert (block_at d a k) (block_at d a ` {Suc k..<Suc k + n})"
    by simp
  show "block_at d a k \<notin> block_at d a ` {Suc k..<Suc k + n}"
  proof
    assume "block_at d a k \<in> block_at d a ` {Suc k..<Suc k + n}"
    then obtain m where m: "block_at d a k = block_at d a m" "Suc k \<le> m" "m < Suc k + n"
      by auto
    then have "k = m"
      using inj_onD [OF block_at_inj [OF assms(1,2)], of k m] assms(3) by simp
    then show False
      using m(2) by simp
  qed
qed

lemma add_blocks_ok:
  assumes "arena_desc (arenas s a) = Some p" and "get_desc p s = Some (ds ! i)" and "heap_shape ds (lnks s) A fl" and i: "i < 7" and a: "a \<in> A i"
    and "k + n \<le> unat (blocks_per_arena (ds ! i))" and "block_at (ds ! i) a ` {k..<k + n} \<inter> set (fl i) = {}"
  shows "\<exists>L'. add_blocks n (of_nat k) a (ds ! i) s = Some (s\<lparr>lnks := L'\<rparr>) \<and>
    heap_shape ds L' A (fl(i := fl i @ map (block_at (ds ! i) a) [k..<k + n])) \<and>
    same_links (ends (ds ! i) \<union> set (fl i) \<union> blocks (ds ! i) a) (lnks s) L'"
  using assms(1-3,6,7)
proof (induction n arbitrary: k s fl)
  case 0
  then show ?case
    by (intro exI [of _ "lnks s"]) (simp add: same_links_refl)
next
  case (Suc n)
  let ?d = "ds ! i" and ?b = "block_at (ds ! i) a k"
  let ?l = "free_list ?d"
  let ?L = "list_append ?l ?b (lnks s)" and ?fl = "fl(i := fl i @ [?b])"
  note sh = Suc.prems(3)
  note rng = block_range_Suc [OF heap_shapeD(2) [OF sh i] heap_shapeD(6) [OF sh i a] Suc.prems(4)]
  have b: "?b \<in> blocks ?d a" "?b \<notin> set (fl i)"
    using Suc.prems(4,5) unfolding rng(1) by (auto simp: blocks_def)
  have find: "elem_find ?l ?b (lnks s) = Some False"
    using elem_find_rep [OF heap_shapeD(3) [OF sh i]] b(2) by simp
  have sh1: "heap_shape ds ?L A ?fl"
    by (rule heap_shape_append [OF sh i a b])
  have disj: "block_at ?d a ` {Suc k..<Suc k + n} \<inter> set (?fl i) = {}"
    using Suc.prems(5) rng(2) unfolding rng(1) by auto
  obtain L' where L': "add_blocks n (of_nat (Suc k)) a ?d (s\<lparr>lnks := ?L\<rparr>) = Some (s\<lparr>lnks := L'\<rparr>)"
      "heap_shape ds L' A (?fl(i := ?fl i @ map (block_at ?d a) [Suc k..<Suc k + n]))"
      "same_links (ends ?d \<union> set (?fl i) \<union> blocks ?d a) ?L L'"
    using Suc.IH [of "s\<lparr>lnks := ?L\<rparr>" ?fl "Suc k"] Suc.prems(1,2,4) sh1 disj
    by (simp del: upt_Suc fun_upd_apply of_nat_Suc) blast
  have "same_links (ends ?d \<union> set (fl i) \<union> blocks ?d a) (lnks s) L'"
    using same_links_append [OF heap_shapeD(3) [OF sh i], of ?b] L'(3)
    by (rule same_links_trans) (use b(1) in \<open>auto simp: list_nodes_ends\<close>)
  moreover have "add_blocks (Suc n) (of_nat k) a ?d s = Some (s\<lparr>lnks := L'\<rparr>)"
    using arena2block_at [OF Suc.prems(1,2), of k] find L'(1) by (simp add: add.commute)
  moreover have "fl i @ map (block_at ?d a) [k..<k + Suc n] = ?fl i @ map (block_at ?d a) [Suc k..<Suc k + n]"
    by (simp add: upt_conv_Cons del: upt_Suc)
  then have "heap_shape ds L' A (fl(i := fl i @ map (block_at ?d a) [k..<k + Suc n]))"
    using L'(2) by (simp only: fun_upd_upd)
  ultimately show ?case
    by blast
qed

section \<open>An arena that is free again\<close>

lemma drop_blocks_ok:
  assumes "arena_desc (arenas s a) = Some p" and "get_desc p s = Some (ds ! i)" and "heap_shape ds (lnks s) A fl" and i: "i < 7" and a: "a \<in> A i"
    and "k + n \<le> unat (blocks_per_arena (ds ! i))" and "block_at (ds ! i) a ` {k..<k + n} \<subseteq> set (fl i)"
  shows "\<exists>L'. drop_blocks n (of_nat k) a (ds ! i) s = Some (s\<lparr>lnks := L'\<rparr>) \<and>
    heap_shape ds L' A (fl(i := filter (\<lambda>b. b \<notin> block_at (ds ! i) a ` {k..<k + n}) (fl i))) \<and>
    same_links (ends (ds ! i) \<union> set (fl i)) (lnks s) L'"
  using assms(1-3,6,7)
proof (induction n arbitrary: k s fl)
  case 0
  then show ?case
    by (intro exI [of _ "lnks s"]) (simp add: same_links_refl)
next
  case (Suc n)
  let ?d = "ds ! i" and ?b = "block_at (ds ! i) a k"
  let ?l = "free_list ?d" and ?B = "block_at ?d a ` {Suc k..<Suc k + n}"
  note sh = Suc.prems(3)
  note rng = block_range_Suc [OF heap_shapeD(2) [OF sh i] heap_shapeD(6) [OF sh i a] Suc.prems(4)]
  have "?b \<in> set (fl i)"
    using Suc.prems(5) unfolding rng(1) by simp
  then obtain xs ys where xy: "fl i = xs @ ?b # ys"
    using split_list by fastforce
  let ?fl = "fl(i := xs @ ys)" and ?L = "list_remove ?b (lnks s)"
  have dist: "distinct (xs @ ?b # ys)"
    using heap_shapeD(3) [OF sh i] by (simp add: list_rep_def xy)
  have find: "elem_find ?l ?b (lnks s) = Some True"
    using elem_find_rep [OF heap_shapeD(3) [OF sh i]] \<open>?b \<in> set (fl i)\<close> by simp
  have sh1: "heap_shape ds ?L A ?fl"
    by (rule heap_shape_remove [OF sh i xy])
  have "?B \<subseteq> set (?fl i)"
    using Suc.prems(5) rng(2) unfolding rng(1) xy by (simp add: subset_insert)
  then obtain L' where L': "drop_blocks n (of_nat (Suc k)) a ?d (s\<lparr>lnks := ?L\<rparr>) = Some (s\<lparr>lnks := L'\<rparr>)"
      "heap_shape ds L' A (?fl(i := filter (\<lambda>b. b \<notin> ?B) (xs @ ys)))" "same_links (ends ?d \<union> set (xs @ ys)) ?L L'"
    using Suc.IH [of "s\<lparr>lnks := ?L\<rparr>" ?fl "Suc k"] Suc.prems(1,2,4) sh1
    by (simp del: fun_upd_apply of_nat_Suc filter_append set_append add: fun_upd_same) blast
  have keep: "filter (\<lambda>b. b \<notin> insert ?b ?B) zs = filter (\<lambda>b. b \<notin> ?B) zs" if "?b \<notin> set zs" for zs
    using that by (intro filter_cong) auto
  have "filter (\<lambda>b. b \<notin> insert ?b ?B) (fl i) = filter (\<lambda>b. b \<notin> ?B) (xs @ ys)"
    using dist keep [of xs] keep [of ys] unfolding xy by simp
  moreover have "same_links (ends ?d \<union> set (fl i)) (lnks s) L'"
    using same_links_remove [OF heap_shapeD(3) [OF sh i, unfolded xy]] L'(3)
    by (rule same_links_trans) (auto simp: list_nodes_ends xy)
  moreover have "drop_blocks (Suc n) (of_nat k) a ?d s = Some (s\<lparr>lnks := L'\<rparr>)"
    using arena2block_at [OF Suc.prems(1,2), of k] find L'(1) by (simp add: add.commute)
  ultimately show ?case
    using L'(2) unfolding rng(1) by (intro exI [of _ L']) (simp only: fun_upd_upd simp_thms)
qed

section \<open>The heap at the start\<close>

text \<open>\<^verbatim>\<open>block_desc_init\<close> leaves seven empty lists.\<close>

lemma block_desc_init_eq:
  "block_desc_init base l = (map (\<lambda>i. \<lparr>block_size = 16 * 2 ^ i, blocks_per_arena = 4084 div (16 * 2 ^ i), free_list = base + 24 * of_nat i + 8\<rparr>) [0..<7],
     fold (\<lambda>i. list_init (base + 24 * of_nat i + 8)) [0..<7] l)"
proof -
  have n: "DESC_CNT = Suc (Suc (Suc (Suc (Suc (Suc (Suc 0))))))"
    by (simp add: DESC_CNT_def)
  show ?thesis
    by (simp add: block_desc_init_def n ARENA_SIZE_def Let_def split_beta upt_rec)
qed

lemma desc_init_ends:
  assumes "i < 7"
  shows "ends (fst (block_desc_init base l) ! i) = {base + of_nat (24 * i + 8), base + of_nat (24 * i + 16)}"
  using assms by (simp add: block_desc_init_eq ends_def list_head_def list_tail_def add.assoc mult.commute)

lemma desc_node_eq:
  "i < 7 \<Longrightarrow> j < 7 \<Longrightarrow> r \<le> 16 \<Longrightarrow> q \<le> 16 \<Longrightarrow> (of_nat (24 * i + r) = (of_nat (24 * j + q) :: u32)) = (24 * i + r = 24 * j + q)"
  by (auto simp: word_unat_eq_iff unat_of_nat simp del: of_nat_add of_nat_mult)

lemma desc_nodes_apart:
  fixes base :: u32
  assumes "i < 7" "j < 7" "i \<noteq> j"
  shows "{base + of_nat (24 * i + 8), base + of_nat (24 * i + 16)} \<inter> {base + of_nat (24 * j + 8), base + of_nat (24 * j + 16)} = {}"
  using assms by (simp add: desc_node_eq del: of_nat_add of_nat_mult)

lemma desc_init_lists:
  assumes "i < n" and "n \<le> 7"
  shows "list_rep (fold (\<lambda>i. list_init (base + 24 * of_nat i + 8)) [0..<n] l) (base + 24 * of_nat i + 8) []"
  using assms
proof (induction n)
  case (Suc n)
  let ?h = "fold (\<lambda>i. list_init (base + 24 * of_nat i + 8)) [0..<n] l" and ?p = "\<lambda>i. base + 24 * of_nat i + 8 :: u32"
  show ?case
  proof (cases "i = n")
    case True
    then show ?thesis
      by (simp add: list_init_rep)
  next
    case False
    then have "list_rep ?h (?p i) []"
      using Suc by simp
    then have "list_rep (list_init (?p n) ?h) (?p i) []"
    proof (rule list_rep_frame)
      fix e
      assume "e \<in> list_nodes (?p i) []"
      then have "e = base + of_nat (24 * i + 8) \<or> e = base + of_nat (24 * i + 16)"
        by (auto simp: list_nodes_def list_head_def list_tail_def algebra_simps)
      then have "e \<noteq> base + of_nat (24 * n + 8)" "e \<noteq> base + of_nat (24 * n + 16)"
        using desc_nodes_apart [of i n base] Suc.prems False by (auto simp del: of_nat_add of_nat_mult)
      then show "lnext (list_init (?p n) ?h) e = lnext ?h e \<and> lprev (list_init (?p n) ?h) e = lprev ?h e"
        by (auto simp: list_init_def list_head_def list_tail_def algebra_simps)
    qed
    then show ?thesis
      by simp
  qed
qed simp

lemma block_desc_init_shape: "heap_shape (fst (block_desc_init base l)) (snd (block_desc_init base l)) (\<lambda>_. {}) (\<lambda>_. [])"
proof (rule heap_shapeI)
  show "desc_sizes (fst (block_desc_init base l))"
    unfolding desc_sizes_def by (rule block_desc_sizes)
  show "list_rep (snd (block_desc_init base l)) (free_list (fst (block_desc_init base l) ! i)) []" if "i < 7" for i
    using desc_init_lists [OF that, of base l] that by (simp add: block_desc_init_eq)
  show "ends (fst (block_desc_init base l) ! i) \<inter> ends (fst (block_desc_init base l) ! j) = {}" if ij: "i < 7" "j < 7" "i \<noteq> j" for i j
    unfolding desc_init_ends [OF ij(1)] desc_init_ends [OF ij(2)] by (rule desc_nodes_apart [OF ij])
qed (simp_all add: arena_pages_def)

end
