(* ===== verification/Heap_Pages.thy ===== *)
theory Heap_Pages
  imports Address_Space Heap_Blocks
begin

text \<open>
  The pages of a heap: which heap the running thread uses, and what the page allocator does for it.
\<close>

section \<open>The heap of the running thread\<close>

definition heap_pf :: "'a mstate_scheme \<Rightarrow> pool_flags" where
  "heap_pf s = (if pgdir (tasks s (cur s)) = NULL then PF_KERNEL else PF_USER)"

definition heap_descs :: "'a mstate_scheme \<Rightarrow> mem_block_desc list" where
  "heap_descs s = (if pgdir (tasks s (cur s)) = NULL then k_block_descs s else u_block_desc (tasks s (cur s)))"

definition heap_ptr :: "'a mstate_scheme \<Rightarrow> nat \<Rightarrow> desc_ptr" where
  "heap_ptr s = (if pgdir (tasks s (cur s)) = NULL then K_desc else U_desc (cur s))"

lemma get_heap_desc: "i < length (heap_descs s) \<Longrightarrow> get_desc (heap_ptr s i) s = Some (heap_descs s ! i)"
  by (simp add: get_desc_def heap_ptr_def heap_descs_def rd_in split: if_splits)

text \<open>What the page allocator leaves alone.\<close>

definition same_core :: "'a mstate_scheme \<Rightarrow> 'a mstate_scheme \<Rightarrow> bool" where
  "same_core s s' \<longleftrightarrow> cur s' = cur s \<and> intr s' = intr s \<and> cr3 s' = cr3 s \<and> sema_value s' = sema_value s \<and> lock_holder s' = lock_holder s \<and>
     lock_repeat_nr s' = lock_repeat_nr s \<and> k_block_descs s' = k_block_descs s \<and>
     (\<forall>t. pgdir (tasks s' t) = pgdir (tasks s t) \<and> u_block_desc (tasks s' t) = u_block_desc (tasks s t)) \<and>
     pool_lock (kernel_pool s') = pool_lock (kernel_pool s) \<and> pool_lock (user_pool s') = pool_lock (user_pool s)"

definition mm_only :: "'a mstate_scheme \<Rightarrow> 'a mstate_scheme \<Rightarrow> bool" where
  "mm_only s s' \<longleftrightarrow> same_core s s' \<and> lnks s' = lnks s \<and> arenas s' = arenas s"

lemma same_core_heap:
  "same_core s s' \<Longrightarrow> heap_pf s' = heap_pf s" "same_core s s' \<Longrightarrow> heap_descs s' = heap_descs s" "same_core s s' \<Longrightarrow> heap_ptr s' = heap_ptr s"
  by (simp_all add: same_core_def heap_pf_def heap_descs_def heap_ptr_def)

lemma same_core_trans: "same_core s s1 \<Longrightarrow> same_core s1 s2 \<Longrightarrow> same_core s s2"
  by (simp add: same_core_def)

lemma vbits_only:
  assumes "mem_only s s1" and "\<And>pg. same_pool (get_pool pg s) (get_pool pg (set_vbits pf b s1))"
  shows "mm_only s (set_vbits pf b s1)"
proof -
  have "pool_lock (kernel_pool s1) = pool_lock (kernel_pool s)" "pool_lock (user_pool s1) = pool_lock (user_pool s)"
    using assms(2) [of PF_KERNEL] assms(2) [of PF_USER] by (simp_all add: same_pool_def get_pool_def)
  then show ?thesis
    using assms(1) unfolding mem_only_def mm_only_def same_core_def set_vbits_def by (auto simp: upd_task_def)
qed

lemma vaddr_get_only: "vaddr_get pf n s = Some (v, s1) \<Longrightarrow> s1 = s \<or> (\<exists>b. s1 = set_vbits pf b s)"
  by (cases pf) (auto simp: vaddr_get_def set_vbits_def running_thread_def Let_def bind_eq_Some_conv split: if_splits)

lemma malloc_page_only:
  assumes m: "malloc_page pf n s = Some (v, s')" and p: "\<And>pg. same_pool (get_pool pg s) (get_pool pg s')"
  shows "mm_only s s'"
proof -
  obtain st s1 where g: "vaddr_get pf n s = Some (st, s1)" and r: "s' = s1 \<or> (\<exists>ok. map_pages pf (unat n) st s1 = Some (ok, s'))"
    using m by (auto simp: malloc_page_def bind_eq_Some_conv split: if_splits)
  from r have only: "mem_only s1 s'"
    using map_pages_only mem_onlyI(3) by blast
  have "pool_lock (kernel_pool s') = pool_lock (kernel_pool s)" "pool_lock (user_pool s') = pool_lock (user_pool s)"
    using p [of PF_KERNEL] p [of PF_USER] by (simp_all add: same_pool_def get_pool_def)
  then show ?thesis
    using vaddr_get_only [OF g] only unfolding mem_only_def mm_only_def same_core_def set_vbits_def
    by (auto simp: upd_task_def split: if_splits)
qed

section \<open>The pages of the heap\<close>

text \<open>
  \<open>P\<close> are the pages of the heap, each with a frame of its own in \<open>D\<close>. The addresses in \<open>X\<close>, where the ends of the lists are, stay mapped and outside.
\<close>

definition heap_mem :: "pool_flags \<Rightarrow> addr set \<Rightarrow> u32 set \<Rightarrow> addr set \<Rightarrow> 'a mstate_scheme \<Rightarrow> bool" where
  "heap_mem pf X D P s \<longleftrightarrow> memory_ok D s \<and> vspace_ok pf s \<and> 0x102000 \<le> phy_addr_start (kernel_pool s) \<and>
     (pf = PF_KERNEL \<longrightarrow> K_HEAP_START \<le> vaddr_start (vspace pf s)) \<and>
     (\<forall>a\<in>P. \<exists>r<bm_cap (vbits pf s). a = page_at (vaddr_start (vspace pf s)) r \<and> bm_bit (vbits pf s) r \<and>
        (\<exists>f\<in>D. f \<in> pool_frames (get_pool pf s) \<and> mmu (phys s) (cr3 s) a = Some f)) \<and>
     inj_on (mmu (phys s) (cr3 s)) P \<and>
     (\<forall>x\<in>X. mmu (phys s) (cr3 s) x \<noteq> None \<and> PDE_IDX x \<noteq> 0x3ff \<and> PDE_IDX x \<noteq> 0 \<and> frame x \<notin> P)"

lemma heap_mem_upd [simp]:
  "heap_mem pf X D P (s\<lparr>lnks := L\<rparr>) = heap_mem pf X D P s" "heap_mem pf X D P (s\<lparr>arenas := R\<rparr>) = heap_mem pf X D P s"
  "heap_mem pf X D P (s\<lparr>intr := i\<rparr>) = heap_mem pf X D P s" "heap_mem pf X D P (locked l s) = heap_mem pf X D P s"
  "heap_mem pf X D P (unlocked l s) = heap_mem pf X D P s" "heap_mem pf X D P (mem_zero v n s) = heap_mem pf X D P s"
  "heap_mem pf X D P (set_arena a r s) = heap_mem pf X D P s"
  by (simp_all add: heap_mem_def memory_ok_def vspace_ok_def vbits_def vspace_def get_pool_def locked_def unlocked_def mem_zero_def set_arena_def)

lemma heap_memD:
  assumes "heap_mem pf X D P s"
  shows "memory_ok D s" "vspace_ok pf s" "bm_wf (vbits pf s)" "range_ok (vaddr_start (vspace pf s)) (bm_cap (vbits pf s))"
    "0x102000 \<le> phy_addr_start (kernel_pool s)" "inj_on (mmu (phys s) (cr3 s)) P" "a \<in> P \<Longrightarrow> frame a = a" "a \<in> P \<Longrightarrow> PDE_IDX a \<noteq> 0x3ff"
    "a \<in> P \<Longrightarrow> PDE_IDX a \<noteq> 0"
proof -
  show "memory_ok D s" "vspace_ok pf s" "0x102000 \<le> phy_addr_start (kernel_pool s)" "inj_on (mmu (phys s) (cr3 s)) P"
    using assms by (simp_all add: heap_mem_def)
  show "bm_wf (vbits pf s)" and r: "range_ok (vaddr_start (vspace pf s)) (bm_cap (vbits pf s))"
    using assms by (simp_all add: heap_mem_def vspace_ok_def)
  assume "a \<in> P"
  then obtain k where "k < bm_cap (vbits pf s)" "a = page_at (vaddr_start (vspace pf s)) k"
    using assms unfolding heap_mem_def by blast
  with page_at_props [OF r] show "frame a = a" "PDE_IDX a \<noteq> 0x3ff" "PDE_IDX a \<noteq> 0"
    by simp_all
qed

lemma heap_mem_malloc:
  assumes hm: "heap_mem pf X D P s" and room: "room_for pf 1 s" and k: "k < bm_cap (vbits pf s)" "\<not> bm_bit (vbits pf s) k"
  shows "\<exists>a f s'. malloc_page pf 1 s = Some (a, s') \<and> a \<noteq> NULL \<and> frame a = a \<and> a \<notin> P \<and> (\<forall>x\<in>X. frame x \<noteq> a) \<and>
    heap_mem pf X (insert f D) (insert a P) s' \<and> mm_only s s' \<and> f \<in> free_frames (get_pool pf s)"
proof -
  let ?v = "vaddr_start (vspace pf s)"
  note h = heap_memD [OF hm]
  have run: "k + 1 \<le> bm_cap (vbits pf s)" "free_run (vbits pf s) k 1"
    using k by (auto simp: free_run_def) (metis le_antisym less_Suc_eq_le)
  obtain r fs s' where m: "malloc_page pf 1 s = Some (page_at ?v r, s')" "page_at ?v r \<noteq> NULL"
      and rr: "r + 1 \<le> bm_cap (vbits pf s)" "free_run (vbits pf s) r 1" and fs: "length fs = 1" "set fs \<subseteq> free_frames (get_pool pf s)"
      and ok: "memory_ok (D \<union> set fs) s'" "vspace_ok pf s'" and mr: "mapped_range s s' (page_at ?v r) fs"
      and vc: "bm_cap (vbits pf s') = bm_cap (vbits pf s)" "vaddr_start (vspace pf s') = ?v"
        "\<forall>j. bm_bit (vbits pf s') j = (r \<le> j \<and> j < r + 1 \<or> bm_bit (vbits pf s) j)" and sp: "\<And>pg. same_pool (get_pool pg s) (get_pool pg s')"
    using malloc_page_ok [OF h(1,2) _ _ run room] by (simp only: of_nat_1 zero_less_one) fastforce
  have r: "r < bm_cap (vbits pf s)" "\<not> bm_bit (vbits pf s) r"
    using rr by (simp_all add: free_run_def)
  have vb: "bm_cap (vbits pf s') = bm_cap (vbits pf s)" "vaddr_start (vspace pf s') = ?v" "\<And>j. bm_bit (vbits pf s') j = (j = r \<or> bm_bit (vbits pf s) j)"
    using vc by auto
  let ?a = "page_at ?v r"
  obtain f where f: "fs = [f]"
    using fs(1) by (auto simp: length_Suc_conv)
  note only = malloc_page_only [OF m(1) sp] and pp = page_at_props [OF h(4) r(1)]
  have cr: "cr3 s' = cr3 s"
    using only by (simp add: mm_only_def same_core_def)
  have un: "mmu (phys s) (cr3 s) ?a = None"
    using h(2) r by (simp add: vspace_ok_def)
  have aP: "?a \<notin> P"
    using hm un unfolding heap_mem_def by fastforce
  have X: "frame x \<noteq> ?a" if "x \<in> X" for x
    using hm that page_of_unmapped [OF _ un pp(1), of x] in_frame [OF pp(1), of x] unfolding heap_mem_def by auto
  have "page_off ?a = 0"
    using frame_plus_off [of ?a] pp(1) by (metis add_cancel_left_right)
  then have mv: "mmu (phys s') (cr3 s') ?a = Some f"
    using mr f pp unfolding mapped_range_def by simp
  have other: "mmu (phys s') (cr3 s') w = mmu (phys s) (cr3 s) w" if "PDE_IDX w \<noteq> 0x3ff" "PDE_IDX w \<noteq> 0" "frame w \<noteq> ?a" for w
    using mr f that unfolding mapped_range_def by simp
  have old: "mmu (phys s') (cr3 s') b = mmu (phys s) (cr3 s) b" if "b \<in> P" for b
    using other [of b] h(7-9) [OF that] that aP by auto
  have fp: "pool_frames (get_pool pf s') = pool_frames (get_pool pf s)" "f \<in> pool_frames (get_pool pf s)" "f \<notin> D"
    using pool_frames_same [OF sp] fs(2) f free_sub_pool memory_okD(5) [OF h(1), of pf] by auto
  have "\<forall>b\<in>insert ?a P. \<exists>i<bm_cap (vbits pf s'). b = page_at ?v i \<and> bm_bit (vbits pf s') i \<and>
      (\<exists>g\<in>insert f D. g \<in> pool_frames (get_pool pf s') \<and> mmu (phys s') (cr3 s') b = Some g)"
    using hm old mv r(1) fp unfolding heap_mem_def vb by (auto 5 3)
  moreover have "inj_on (mmu (phys s') (cr3 s')) (insert ?a P)"
  proof -
    have "mmu (phys s') (cr3 s') b \<noteq> Some f" if "b \<in> P" for b
      using hm old [OF that] that fp(3) unfolding heap_mem_def by fastforce
    then have "mmu (phys s') (cr3 s') ?a \<notin> mmu (phys s') (cr3 s') ` (P - {?a})"
      using mv by (auto simp: image_iff) metis
    moreover have "inj_on (mmu (phys s') (cr3 s')) P"
      using h(6) old by (simp add: inj_on_def)
    ultimately show ?thesis
      by simp
  qed
  moreover have "\<forall>x\<in>X. mmu (phys s') (cr3 s') x \<noteq> None \<and> PDE_IDX x \<noteq> 0x3ff \<and> PDE_IDX x \<noteq> 0 \<and> frame x \<notin> insert ?a P"
    using hm other X unfolding heap_mem_def by auto
  moreover have "0x102000 \<le> phy_addr_start (kernel_pool s')" "pf = PF_KERNEL \<longrightarrow> K_HEAP_START \<le> vaddr_start (vspace pf s')"
    using hm sp [of PF_KERNEL] vb(2) by (cases pf; simp add: heap_mem_def same_pool_def get_pool_def)+
  ultimately have "heap_mem pf X (insert f D) (insert ?a P) s'"
    using ok f vb(2) unfolding heap_mem_def by simp
  then show ?thesis
    using m pp(1) aP X only fs(2) f by (intro exI [of _ ?a] exI [of _ f] exI [of _ s']) simp
qed

lemma heap_mem_mfree:
  assumes hm: "heap_mem pf X D P s" and a: "a \<in> P"
  shows "\<exists>f s'. mfree_page pf a 1 s = Some s' \<and> mmu (phys s) (cr3 s) a = Some f \<and> heap_mem pf X (D - {f}) (P - {a}) s' \<and> mm_only s s' \<and>
    f \<in> free_frames (get_pool pf s')"
proof -
  let ?v = "vaddr_start (vspace pf s)"
  note h = heap_memD [OF hm]
  obtain r f where r: "r < bm_cap (vbits pf s)" "a = page_at ?v r" and f: "f \<in> D" "f \<in> pool_frames (get_pool pf s)" "mmu (phys s) (cr3 s) a = Some f"
    using hm a unfolding heap_mem_def by blast
  have pre: "(0 :: nat) < 1" "(1 :: nat) < 2 ^ 32" "length [f] = 1" "r + 1 \<le> bm_cap (vbits pf s)" "distinct [f]" "set [f] \<subseteq> D"
      "set [f] \<subseteq> pool_frames (get_pool pf s)" "\<And>j. j < 1 \<Longrightarrow> mmu (phys s) (cr3 s) (page_at ?v (r + j)) = Some ([f] ! j)"
    using r f by auto
  obtain s' where m1: "mfree_page pf (page_at ?v r) (of_nat 1) s = Some s'" "memory_ok (D - set [f]) s'"
      and ff1: "\<forall>pg. free_frames (get_pool pg s') = (if pg = pf then set [f] \<union> free_frames (get_pool pg s) else free_frames (get_pool pg s))"
      and vb1: "\<forall>j. bm_bit (vbits pf s') j = (\<not> (r \<le> j \<and> j < r + 1) \<and> bm_bit (vbits pf s) j)"
      and mm1: "\<forall>w. PDE_IDX w \<noteq> 0x3ff \<and> PDE_IDX w \<noteq> 0 \<longrightarrow> mmu (phys s') (cr3 s') w =
        (if \<exists>j<1. frame w = page_at ?v (r + j) then None else mmu (phys s) (cr3 s) w)"
      and sp: "\<forall>pg. same_pool (get_pool pg s) (get_pool pg s')"
      and st: "\<exists>s1 b. s' = set_vbits pf b s1 \<and> mem_only s s1 \<and> btmp_bytes_len b = btmp_bytes_len (vbits pf s) \<and> length (bits b) = length (bits (vbits pf s))"
    using mfree_page_ok [OF h(1,5,3,4) pre] by - (drule meta_mp, assumption, erule exE, (erule conjE)+, rule that)
  have m: "mfree_page pf (page_at ?v r) 1 s = Some s'" "memory_ok (D - {f}) s'" and ff: "f \<in> free_frames (get_pool pf s')"
    using m1 ff1 [rule_format, of pf] by simp_all
  have vb: "bm_bit (vbits pf s') j = (j \<noteq> r \<and> bm_bit (vbits pf s) j)" for j
    using vb1 [rule_format, of j] by auto
  have mm: "mmu (phys s') (cr3 s') w = (if frame w = a then None else mmu (phys s) (cr3 s) w)" if "PDE_IDX w \<noteq> 0x3ff" "PDE_IDX w \<noteq> 0" for w
    using mm1 [rule_format, of w] that r(2) by simp
  obtain s1 b where sb: "s' = set_vbits pf b s1" "mem_only s s1" "btmp_bytes_len b = btmp_bytes_len (vbits pf s)" "length (bits b) = length (bits (vbits pf s))"
    using st by blast
  have only: "mm_only s s'"
    using vbits_only [OF sb(2)] sp [unfolded sb(1)] unfolding sb(1) by blast
  have vs: "vaddr_start (vspace pf s') = ?v" "bm_cap (vbits pf s') = bm_cap (vbits pf s)"
    using sb vbits_mem_only [OF sb(2), of pf] by (simp_all add: bm_cap_def)
  have old: "mmu (phys s') (cr3 s') b = mmu (phys s) (cr3 s) b" if "b \<in> P" "b \<noteq> a" for b
    using mm [of b] h(7-9) [OF that(1)] that(2) by simp
  have vok: "vspace_ok pf s'"
  proof -
    have "mmu (phys s') (cr3 s') (page_at ?v j) = None" if j: "j < bm_cap (vbits pf s)" "\<not> bm_bit (vbits pf s') j" for j
      using mm [of "page_at ?v j"] page_at_props [OF h(4) j(1)] h(2) j r(2) vb by (auto simp: vspace_ok_def)
    then show ?thesis
      using h(2) vs sb vbits_mem_only [OF sb(2), of pf] unfolding vspace_ok_def bm_wf_def by (cases pf) (simp_all add: bm_cap_def)
  qed
  have other: "mmu (phys s) (cr3 s) b \<noteq> Some f" if "b \<in> P" "b \<noteq> a" for b
    using inj_onD [OF h(6), of b a] that a f(3) by auto
  have "\<forall>b\<in>P - {a}. \<exists>i<bm_cap (vbits pf s'). b = page_at ?v i \<and> bm_bit (vbits pf s') i \<and>
      (\<exists>g\<in>D - {f}. g \<in> pool_frames (get_pool pf s') \<and> mmu (phys s') (cr3 s') b = Some g)"
  proof
    fix b
    assume b: "b \<in> P - {a}"
    then obtain i g where "i < bm_cap (vbits pf s)" "b = page_at ?v i" "bm_bit (vbits pf s) i" "g \<in> D" "g \<in> pool_frames (get_pool pf s)"
        "mmu (phys s) (cr3 s) b = Some g"
      using hm unfolding heap_mem_def by blast
    then show "\<exists>i<bm_cap (vbits pf s'). b = page_at ?v i \<and> bm_bit (vbits pf s') i \<and>
      (\<exists>g\<in>D - {f}. g \<in> pool_frames (get_pool pf s') \<and> mmu (phys s') (cr3 s') b = Some g)"
      using b old [of b] other [of b] r vb vs(2) pool_frames_same [OF sp [rule_format]] by (intro exI [of _ i]) auto
  qed
  moreover have "inj_on (mmu (phys s') (cr3 s')) (P - {a})"
    using h(6) old by (auto simp: inj_on_def)
  moreover have "\<forall>x\<in>X. mmu (phys s') (cr3 s') x \<noteq> None \<and> PDE_IDX x \<noteq> 0x3ff \<and> PDE_IDX x \<noteq> 0 \<and> frame x \<notin> P - {a}"
    using hm mm a unfolding heap_mem_def by auto
  moreover have "0x102000 \<le> phy_addr_start (kernel_pool s')" "pf = PF_KERNEL \<longrightarrow> K_HEAP_START \<le> vaddr_start (vspace pf s')"
    using hm sp [rule_format, of PF_KERNEL] vs(1) by (cases pf; simp add: heap_mem_def same_pool_def get_pool_def)+
  ultimately have "heap_mem pf X (D - {f}) (P - {a}) s'"
    using m(2) vok vs(1) unfolding heap_mem_def by simp
  then show ?thesis
    using m(1) r(2) f(3) only ff by (intro exI [of _ f] exI [of _ s']) simp
qed

end
