(* ===== verification/Heap_Alloc.thy ===== *)
theory Heap_Alloc
  imports Heap_Pages
begin

text \<open>
  \<^verbatim>\<open>sys_malloc\<close> and \<^verbatim>\<open>sys_free\<close> for requests of up to 1024 bytes, of a kernel thread or of a process: the invariant that ties the free lists and the counts
  of the arenas to the pages of the heap, and that both routines keep it.
\<close>

section \<open>Counts\<close>

text \<open>The header of every arena: its descriptor, and how many of its blocks are in the free list.\<close>

definition heap_counts :: "mem_block_desc list \<Rightarrow> (nat \<Rightarrow> desc_ptr) \<Rightarrow> (addr \<Rightarrow> arena) \<Rightarrow> (nat \<Rightarrow> addr set) \<Rightarrow> (nat \<Rightarrow> addr list) \<Rightarrow> bool" where
  "heap_counts ds p R A fl \<longleftrightarrow> (\<forall>i<7. \<forall>a\<in>A i.
     R a = \<lparr>arena_desc = Some (p i), arena_cnt = of_nat (card (blocks (ds ! i) a \<inter> set (fl i))), arena_large = False\<rparr>)"

definition busy :: "mem_block_desc list \<Rightarrow> (nat \<Rightarrow> addr set) \<Rightarrow> (nat \<Rightarrow> addr list) \<Rightarrow> bool" where
  "busy ds A fl \<longleftrightarrow> (\<forall>i<7. \<forall>a\<in>A i. \<not> blocks (ds ! i) a \<subseteq> set (fl i))"

lemma heap_counts_upd:
  assumes sh: "heap_shape ds L A fl" and ct: "heap_counts ds p R A fl" and i: "i < 7" and a: "a \<in> A i"
    and new: "R' a = (R a)\<lparr>arena_cnt := of_nat (card (blocks (ds ! i) a \<inter> set xs))\<rparr>"
    and other: "\<And>c. c \<in> arena_pages A \<Longrightarrow> c \<noteq> a \<Longrightarrow> R' c = R c"
    and same: "\<And>c. c \<in> A i \<Longrightarrow> c \<noteq> a \<Longrightarrow> blocks (ds ! i) c \<inter> set xs = blocks (ds ! i) c \<inter> set (fl i)"
  shows "heap_counts ds p R' A (fl(i := xs))"
  unfolding heap_counts_def
proof (intro allI impI ballI)
  fix j c
  assume j: "j < 7" "c \<in> A j"
  have old: "R c = \<lparr>arena_desc = Some (p j), arena_cnt = of_nat (card (blocks (ds ! j) c \<inter> set (fl j))), arena_large = False\<rparr>"
    using ct j by (simp add: heap_counts_def)
  have c: "c \<in> arena_pages A"
    using j by (auto simp: arena_pages_def)
  show "R' c = \<lparr>arena_desc = Some (p j), arena_cnt = of_nat (card (blocks (ds ! j) c \<inter> set ((fl(i := xs)) j))), arena_large = False\<rparr>"
  proof (cases "c = a")
    case True
    then have "j = i"
      using heap_shapeD(9) [OF sh j(1) i] j(2) a by blast
    then show ?thesis
      using new old True by simp
  next
    case False
    then show ?thesis
      using old other [OF c False] same [of c] j(2) by (cases "j = i") simp_all
  qed
qed

text \<open>What \<^verbatim>\<open>sys_malloc\<close> does with the first block of a free list.\<close>

definition take_block :: "mem_block_desc \<Rightarrow> addr \<Rightarrow> 'a mstate_scheme \<Rightarrow> 'a mstate_scheme" where
  "take_block d b s = (let s2 = mem_zero b (block_size d) (s\<lparr>lnks := list_remove b (lnks s)\<rparr>); a = block2arena b
     in set_arena a ((arenas s2 a)\<lparr>arena_cnt := arena_cnt (arenas s2 a) - 1\<rparr>) s2)"

lemma take_block_simps [simp]:
  "same_core s (take_block d b s)" "heap_mem pf X D P (take_block d b s) = heap_mem pf X D P s"
  "x \<notin> block_bytes d b \<Longrightarrow> lnext (lnks (take_block d b s)) x = lnext (list_remove b (lnks s)) x"
  "x \<notin> block_bytes d b \<Longrightarrow> lprev (lnks (take_block d b s)) x = lprev (list_remove b (lnks s)) x"
  "x \<notin> block_bytes d b \<Longrightarrow> x \<noteq> block2arena b \<Longrightarrow> arenas (take_block d b s) x = arenas s x"
  "block2arena b \<notin> block_bytes d b \<Longrightarrow> arenas (take_block d b s) (block2arena b) =
     (arenas s (block2arena b))\<lparr>arena_cnt := arena_cnt (arenas s (block2arena b)) - 1\<rparr>"
  by (simp_all add: take_block_def Let_def same_core_def mem_zero_def set_arena_def block_bytes_def)

lemma take_block_ok:
  assumes sh: "heap_shape ds (lnks s) A fl" and ct: "heap_counts ds p (arenas s) A fl" and i: "i < 7" and b: "fl i = b # bs"
  shows "heap_shape ds (lnks (take_block (ds ! i) b s)) A (fl(i := bs))" and "heap_counts ds p (arenas (take_block (ds ! i) b s)) A (fl(i := bs))"
    and "same_links (ends (ds ! i) \<union> set (fl i) \<union> block_bytes (ds ! i) b) (lnks s) (lnks (take_block (ds ! i) b s))"
    and "x \<noteq> frame b \<Longrightarrow> x \<notin> block_bytes (ds ! i) b \<Longrightarrow> arenas (take_block (ds ! i) b s) x = arenas s x"
    and "in_use ds A (fl(i := bs)) = insert (i, b) (in_use ds A fl)" and "b \<notin> set bs"
proof -
  let ?d = "ds ! i" and ?s = "take_block (ds ! i) b s" and ?a = "frame b"
  have a: "?a \<in> A i" "b \<in> blocks ?d ?a"
    using free_block_page [OF sh i, of b] b by simp_all
  have b2a: "block2arena b = ?a"
    by (simp add: block2arena_def frame_def)
  have rep: "list_rep (lnks s) (free_list ?d) ([] @ b # bs)"
    using heap_shapeD(3) [OF sh i] b by simp
  show nb: "b \<notin> set bs"
    using rep by (simp add: list_rep_def)
  have sh1: "heap_shape ds (list_remove b (lnks s)) A (fl(i := bs))"
    using heap_shape_remove [OF sh i, of "[]" b bs] b by simp
  have "(i, b) \<in> in_use ds A (fl(i := bs))"
    using i a nb by (auto simp: in_use_def)
  note alone = in_use_alone [OF sh1 this]
  show "heap_shape ds (lnks ?s) A (fl(i := bs))"
  proof (rule heap_shape_cong [OF sh1])
    fix j n
    assume "j < 7" "n \<in> ends (ds ! j) \<union> set ((fl(i := bs)) j)"
    then have "n \<notin> block_bytes ?d b"
      using alone(3,4) by blast
    then show "lnext (lnks ?s) n = lnext (list_remove b (lnks s)) n \<and> lprev (lnks ?s) n = lprev (list_remove b (lnks s)) n"
      by simp
  qed
  have "same_links (ends ?d \<union> set (fl i)) (lnks s) (list_remove b (lnks s))"
    using same_links_remove [OF rep] b by (simp add: list_nodes_ends)
  then show "same_links (ends ?d \<union> set (fl i) \<union> block_bytes ?d b) (lnks s) (lnks ?s)"
    unfolding same_links_def by simp
  show "arenas ?s x = arenas s x" if "x \<noteq> ?a" "x \<notin> block_bytes ?d b"
    using that by (simp add: b2a)
  have hd: "c \<notin> block_bytes ?d b" if "c \<in> arena_pages A" for c
    using alone(2) [of c] that by blast
  show "heap_counts ds p (arenas ?s) A (fl(i := bs))"
  proof (rule heap_counts_upd [OF sh ct i a(1)])
    have "card (blocks ?d ?a \<inter> set (fl i)) = Suc (card (blocks ?d ?a \<inter> set bs))"
      using a(2) nb b by (simp add: Int_insert_right)
    moreover have "arena_cnt (arenas s ?a) = of_nat (card (blocks ?d ?a \<inter> set (fl i)))"
      using ct i a(1) by (simp add: heap_counts_def)
    moreover have "?a \<in> arena_pages A"
      using a(1) i by (auto simp: arena_pages_def)
    ultimately show "arenas ?s ?a = (arenas s ?a)\<lparr>arena_cnt := of_nat (card (blocks ?d ?a \<inter> set bs))\<rparr>"
      using take_block_simps(6) [of b ?d s] hd [of ?a] by (simp add: b2a)
    show "arenas ?s c = arenas s c" if "c \<in> arena_pages A" "c \<noteq> ?a" for c
      using that hd by (simp add: b2a)
    show "blocks ?d c \<inter> set bs = blocks ?d c \<inter> set (fl i)" if "c \<in> A i" "c \<noteq> ?a" for c
      using that b block_frame [OF heap_shapeD(2) [OF sh i] heap_shapeD(6) [OF sh i that(1)]] by auto
  qed
  show "in_use ds A (fl(i := bs)) = insert (i, b) (in_use ds A fl)"
    using i a b nb by (auto simp: in_use_def split: if_splits)
qed

section \<open>A new arena\<close>

definition page_bytes :: "addr \<Rightarrow> addr set" where
  "page_bytes a = {x. frame x = a}"

definition fresh_arena :: "mem_block_desc \<Rightarrow> desc_ptr \<Rightarrow> addr \<Rightarrow> 'a mstate_scheme \<Rightarrow> 'a mstate_scheme" where
  "fresh_arena d dp a s = set_arena a \<lparr>arena_desc = Some dp, arena_cnt = blocks_per_arena d, arena_large = False\<rparr> (mem_zero a PG_SIZE s)"

lemma fresh_arena_simps:
  assumes "frame a = a"
  shows "same_core s (fresh_arena d dp a s)" "heap_mem pf X D P (fresh_arena d dp a s) = heap_mem pf X D P s"
    "same_links (page_bytes a) (lnks s) (lnks (fresh_arena d dp a s))" "frame x \<noteq> a \<Longrightarrow> arenas (fresh_arena d dp a s) x = arenas s x"
    "arenas (fresh_arena d dp a s) a = \<lparr>arena_desc = Some dp, arena_cnt = blocks_per_arena d, arena_large = False\<rparr>"
  using in_frame [OF assms] assms
  by (auto simp: fresh_arena_def same_core_def mem_zero_def set_arena_def same_links_def page_bytes_def)

text \<open>The lists and the counts when arena \<open>a\<close> joins descriptor \<open>i\<close> with all its blocks free.\<close>

definition with_arena :: "nat \<Rightarrow> addr \<Rightarrow> (nat \<Rightarrow> addr set) \<Rightarrow> nat \<Rightarrow> addr set" where
  "with_arena i a A = A(i := insert a (A i))"

definition with_blocks :: "mem_block_desc \<Rightarrow> nat \<Rightarrow> addr \<Rightarrow> (nat \<Rightarrow> addr list) \<Rightarrow> nat \<Rightarrow> addr list" where
  "with_blocks d i a fl = fl(i := fl i @ map (block_at d a) [0..<unat (blocks_per_arena d)])"

lemma set_block_list: "set (map (block_at d a) [0..<unat (blocks_per_arena d)]) = blocks d a"
  by (auto simp: blocks_def)

lemma arena_pages_with [simp]: "i < 7 \<Longrightarrow> arena_pages (with_arena i a A) = insert a (arena_pages A)"
  by (auto simp: arena_pages_def with_arena_def)

lemma in_use_with:
  assumes sh: "heap_shape ds L A fl" and i: "i < 7" and a: "frame a = a" "a \<notin> arena_pages A"
  shows "in_use ds (with_arena i a A) (with_blocks (ds ! i) i a fl) = in_use ds A fl"
proof -
  have "b \<notin> blocks (ds ! i) a" if "c \<in> A i" "b \<in> blocks (ds ! i) c" for b c
  proof
    assume "b \<in> blocks (ds ! i) a"
    then have "a = c"
      using block_frame [OF heap_shapeD(2) [OF sh i] a(1)] block_frame [OF heap_shapeD(2) [OF sh i] heap_shapeD(6) [OF sh i that(1)] that(2)] by simp
    then show False
      using that(1) a(2) i by (auto simp: arena_pages_def)
  qed
  then have "(\<exists>c\<in>with_arena i a A j. b \<in> blocks (ds ! j) c) \<and> b \<notin> set (with_blocks (ds ! i) i a fl j) \<longleftrightarrow>
      (\<exists>c\<in>A j. b \<in> blocks (ds ! j) c) \<and> b \<notin> set (fl j)" for j b
    using set_block_list [of "ds ! i" a] by (cases "j = i") (auto simp: with_arena_def with_blocks_def)
  then show ?thesis
    by (simp add: in_use_def)
qed

lemma heap_counts_with:
  assumes sh: "heap_shape ds L A fl" and ct: "heap_counts ds p R A fl" and i: "i < 7" and a: "frame a = a" "a \<notin> arena_pages A"
    and new: "R' a = \<lparr>arena_desc = Some (p i), arena_cnt = blocks_per_arena (ds ! i), arena_large = False\<rparr>"
    and other: "\<And>c. frame c \<noteq> a \<Longrightarrow> R' c = R c"
  shows "heap_counts ds p R' (with_arena i a A) (with_blocks (ds ! i) i a fl)"
  unfolding heap_counts_def
proof (intro allI impI ballI)
  fix j c
  assume j: "j < 7" "c \<in> with_arena i a A j"
  let ?fl = "with_blocks (ds ! i) i a fl"
  show "R' c = \<lparr>arena_desc = Some (p j), arena_cnt = of_nat (card (blocks (ds ! j) c \<inter> set (?fl j))), arena_large = False\<rparr>"
  proof (cases "c = a")
    case True
    then have "j = i"
      using j a(2) by (auto simp: with_arena_def arena_pages_def split: if_splits)
    moreover have "blocks (ds ! i) a \<inter> set (?fl i) = blocks (ds ! i) a"
      using set_block_list [of "ds ! i" a] by (auto simp: with_blocks_def)
    ultimately show ?thesis
      using True new card_blocks [OF heap_shapeD(2) [OF sh i] a(1)] by simp
  next
    case False
    then have c: "c \<in> A j"
      using j by (auto simp: with_arena_def split: if_splits)
    note fc = heap_shapeD(6) [OF sh j(1) c]
    have "blocks (ds ! j) c \<inter> blocks (ds ! i) a = {}"
      using block_frame [OF heap_shapeD(2) [OF sh j(1)] fc] block_frame [OF heap_shapeD(2) [OF sh i] a(1)] False by blast
    then have "blocks (ds ! j) c \<inter> set (?fl j) = blocks (ds ! j) c \<inter> set (fl j)"
      using set_block_list [of "ds ! i" a] by (auto simp: with_blocks_def)
    then show ?thesis
      using ct j(1) c other [of c] fc False by (simp add: heap_counts_def)
  qed
qed

lemma new_arena_ok:
  assumes hm: "heap_mem pf X D (arena_pages A) s" and sh: "heap_shape ds (lnks s) A fl" and ct: "heap_counts ds p (arenas s) A fl" and i: "i < 7"
    and ends: "\<And>j. j < 7 \<Longrightarrow> ends (ds ! j) \<subseteq> X" and room: "room_for pf 1 s" and k: "k < bm_cap (vbits pf s)" "\<not> bm_bit (vbits pf s) k"
    and desc: "\<And>s'. same_core s s' \<Longrightarrow> get_desc (p i) s' = Some (ds ! i)"
  shows "\<exists>a f s'. new_arena pf (p i) (ds ! i) s = Some (True, s') \<and> same_core s s' \<and> frame a = a \<and> a \<notin> arena_pages A \<and> (\<forall>x\<in>X. frame x \<noteq> a) \<and>
    heap_mem pf X (insert f D) (insert a (arena_pages A)) s' \<and> heap_shape ds (lnks s') (with_arena i a A) (with_blocks (ds ! i) i a fl) \<and>
    heap_counts ds p (arenas s') (with_arena i a A) (with_blocks (ds ! i) i a fl) \<and>
    same_links (ends (ds ! i) \<union> set (fl i) \<union> page_bytes a) (lnks s) (lnks s') \<and> (\<forall>x. frame x \<noteq> a \<longrightarrow> arenas s' x = arenas s x)"
proof -
  let ?d = "ds ! i" and ?n = "unat (blocks_per_arena (ds ! i))"
  obtain a f s1 where m: "malloc_page pf 1 s = Some (a, s1)" "a \<noteq> NULL" and a: "frame a = a" "a \<notin> arena_pages A" "\<forall>x\<in>X. frame x \<noteq> a"
      and hm1: "heap_mem pf X (insert f D) (insert a (arena_pages A)) s1" and only: "mm_only s s1"
    using heap_mem_malloc [OF hm room k] by blast
  let ?s3 = "fresh_arena ?d (p i) a s1"
  let ?s4 = "?s3\<lparr>intr := INTR_OFF\<rparr>" and ?A = "with_arena i a A"
  note fr = fresh_arena_simps [OF a(1), where d = ?d and dp = "p i" and s = s1]
  have core: "same_core s s1" and l1: "lnks s1 = lnks s" "arenas s1 = arenas s"
    using only by (simp_all add: mm_only_def)
  have core3: "same_core s ?s3"
    by (rule same_core_trans [OF core fr(1)])
  have "heap_shape ds (lnks ?s3) A fl"
  proof (rule heap_shape_cong [OF sh])
    fix j n
    assume j: "j < 7" "n \<in> ends (ds ! j) \<union> set (fl j)"
    have "frame n \<noteq> a"
      using j ends [OF j(1)] a free_block_page(1) [OF sh j(1), of n] by (auto simp: arena_pages_def)
    then show "lnext (lnks ?s3) n = lnext (lnks s) n \<and> lprev (lnks ?s3) n = lprev (lnks s) n"
      using fr(3) l1 by (simp add: same_links_def page_bytes_def)
  qed
  then have sh3: "heap_shape ds (lnks ?s4) ?A fl"
    unfolding with_arena_def using heap_shape_new [OF _ i a(1,2)] ends a(3) by (simp add: subset_eq)
  have desc4: "arena_desc (arenas ?s4 a) = Some (p i)" "get_desc (p i) ?s4 = Some ?d"
    using fr(5) desc [OF core3] by (simp_all add: get_desc_def split: desc_ptr.splits)
  have free: "block_at ?d a ` {0..<0 + ?n} \<inter> set (fl i) = {}"
  proof -
    have "block_at ?d a ` {0..<0 + ?n} = blocks ?d a"
      by (auto simp: blocks_def)
    then show ?thesis
      using free_block_page(1) [OF sh i] block_frame [OF heap_shapeD(2) [OF sh i] a(1)] a(2) i by (auto simp: arena_pages_def)
  qed
  obtain L' where L': "add_blocks ?n (of_nat 0) a ?d ?s4 = Some (?s4\<lparr>lnks := L'\<rparr>)" "heap_shape ds L' ?A (with_blocks ?d i a fl)"
      "same_links (ends ?d \<union> set (fl i) \<union> blocks ?d a) (lnks ?s4) L'"
    using add_blocks_ok [OF desc4 sh3 i _ _ free] unfolding with_blocks_def by (auto simp: with_arena_def)
  let ?s' = "?s4\<lparr>lnks := L', intr := intr ?s3\<rparr>"
  have new: "new_arena pf (p i) ?d s = Some (True, ?s')"
    using m L'(1) by (simp add: new_arena_def fresh_arena_def Let_def split_beta)
  have core': "same_core s ?s'"
    using core3 by (simp add: same_core_def)
  have "blocks ?d a \<subseteq> page_bytes a"
    using block_frame [OF heap_shapeD(2) [OF sh i] a(1)] by (auto simp: page_bytes_def)
  then have links: "same_links (ends ?d \<union> set (fl i) \<union> page_bytes a) (lnks s) (lnks ?s')"
    using same_links_trans [OF fr(3) L'(3) [simplified]] l1(1) by (simp add: le_supI1 le_supI2)
  have ar: "\<forall>x. frame x \<noteq> a \<longrightarrow> arenas ?s' x = arenas s x"
    using fr(4) l1(2) by simp
  have "heap_counts ds p (arenas ?s') ?A (with_blocks ?d i a fl)"
    using heap_counts_with [OF sh ct i a(1,2)] fr(4,5) l1(2) by simp
  then show ?thesis
    using new core' a hm1 fr(2) L'(2) links ar by (intro exI [of _ a] exI [of _ f] exI [of _ ?s']) simp
qed

section \<open>Taking a block\<close>

text \<open>The blocks in \<open>U\<close> hold what they held.\<close>

definition keeps_blocks :: "mem_block_desc list \<Rightarrow> (nat \<times> addr) set \<Rightarrow> 'a mstate_scheme \<Rightarrow> 'a mstate_scheme \<Rightarrow> bool" where
  "keeps_blocks ds U s s' \<longleftrightarrow> (\<forall>(i, b)\<in>U. \<forall>x\<in>block_bytes (ds ! i) b.
     lnext (lnks s') x = lnext (lnks s) x \<and> lprev (lnks s') x = lprev (lnks s) x \<and> arenas s' x = arenas s x)"

lemma keeps_blocks_trans: "keeps_blocks ds U s s1 \<Longrightarrow> keeps_blocks ds U s1 s2 \<Longrightarrow> keeps_blocks ds U s s2"
  unfolding keeps_blocks_def by fastforce

lemma keeps_blocks_refl: "keeps_blocks ds U s s"
  by (simp add: keeps_blocks_def)

lemma keeps_blocksI:
  assumes sh: "heap_shape ds L A fl" and U: "U \<subseteq> in_use ds A fl" and l: "same_links Y (lnks s) (lnks s')"
    and Y: "\<And>j c x. (j, c) \<in> U \<Longrightarrow> x \<in> block_bytes (ds ! j) c \<Longrightarrow> x \<notin> Y \<and> arenas s' x = arenas s x"
  shows "keeps_blocks ds U s s'"
  using l Y unfolding keeps_blocks_def same_links_def by blast

lemma take_block_keeps:
  assumes sh: "heap_shape ds (lnks s) A fl" and ct: "heap_counts ds p (arenas s) A fl" and i: "i < 7" and b: "fl i = b # bs"
  shows "keeps_blocks ds (in_use ds A fl) s (take_block (ds ! i) b s)"
proof (rule keeps_blocksI [OF sh _ take_block_ok(3) [OF sh ct i b]])
  fix j c x
  assume u: "(j, c) \<in> in_use ds A fl" and x: "x \<in> block_bytes (ds ! j) c"
  note alone = in_use_alone [OF sh u x]
  have bA: "frame b \<in> A i" "b \<in> blocks (ds ! i) (frame b)"
    using free_block_page [OF sh i, of b] b by simp_all
  have "(i, b) \<noteq> (j, c)"
    using u b by (auto simp: in_use_def)
  then have nb: "x \<notin> block_bytes (ds ! i) b"
    by (rule alone(5) [OF i bA])
  have "x \<noteq> frame b"
    using alone(2) bA(1) i by (auto simp: arena_pages_def)
  then show "x \<notin> ends (ds ! i) \<union> set (fl i) \<union> block_bytes (ds ! i) b \<and> arenas (take_block (ds ! i) b s) x = arenas s x"
    using alone(3,4) [OF i] nb take_block_ok(4) [OF sh ct i b] by blast
qed simp

text \<open>The part of \<^verbatim>\<open>sys_malloc\<close> after the search for a descriptor whose list is not empty.\<close>

lemma take_block_step:
  assumes sh: "heap_shape ds (lnks s) A fl" and ct: "heap_counts ds p (arenas s) A fl" and i: "i < 7" and b: "fl i = b # bs"
    and bz: "\<forall>j c. j < 7 \<and> c \<in> A j \<and> c \<noteq> frame b \<longrightarrow> \<not> blocks (ds ! j) c \<subseteq> set (fl j)"
  shows "list_pop (free_list (ds ! i)) (lnks s) = (b, list_remove b (lnks s))" and "busy ds A (fl(i := bs))"
proof -
  show "list_pop (free_list (ds ! i)) (lnks s) = (b, list_remove b (lnks s))"
    using list_pop_rep heap_shapeD(3) [OF sh i] b by metis
  have nb: "b \<notin> set bs" and bA: "frame b \<in> A i" "b \<in> blocks (ds ! i) (frame b)"
    using take_block_ok(6) [OF sh ct i b] free_block_page [OF sh i, of b] b by simp_all
  show "busy ds A (fl(i := bs))"
    unfolding busy_def
  proof (intro allI impI ballI)
    fix j c
    assume j: "j < 7" "c \<in> A j"
    show "\<not> blocks (ds ! j) c \<subseteq> set ((fl(i := bs)) j)"
    proof (cases "c = frame b")
      case True
      then have "j = i"
        using heap_shapeD(9) [OF sh j(1) i] j(2) bA(1) by blast
      then show ?thesis
        using True bA(2) nb by auto
    next
      case False
      then show ?thesis
        using bz [rule_format, of j c] j False b by (cases "j = i") auto
    qed
  qed
qed

lemma malloc_small_take:
  assumes "find_desc sz ds 0 = i" and "i < length ds"
    and "(if list_empty (free_list (ds ! i)) (lnks s) then new_arena pf (p i) (ds ! i) s else Some (True, s)) = Some (True, s1)"
    and "list_pop (free_list (ds ! i)) (lnks s1) = (b, list_remove b (lnks s1))"
  shows "malloc_small pf p ds sz s = Some (b, take_block (ds ! i) b s1)"
  using assms by (simp add: malloc_small_def rd_in take_block_def Let_def)

lemma heap_desc_found:
  assumes "desc_sizes ds" and "sz \<le> 1024"
  shows "find_desc sz ds 0 < 7 \<and> sz \<le> block_size (ds ! find_desc sz ds 0)"
proof -
  have "block_size (ds ! 6) = 1024"
    using assms(1) desc_sizes_length [OF assms(1)] unfolding desc_sizes_def
    by (auto dest: arg_cong [where f = "\<lambda>xs. fst (xs ! 6)"])
  then show ?thesis
    using find_desc_found [of "ds ! 6" ds sz 0] desc_sizes_length [OF assms(1)] assms(2) by auto
qed

text \<open>The invariant of a heap, and what lies outside of it.\<close>

definition heap_state ::
  "pool_flags \<Rightarrow> addr set \<Rightarrow> mem_block_desc list \<Rightarrow> (nat \<Rightarrow> desc_ptr) \<Rightarrow> u32 set \<Rightarrow> (nat \<Rightarrow> addr set) \<Rightarrow> (nat \<Rightarrow> addr list) \<Rightarrow> 'a mstate_scheme \<Rightarrow> bool" where
  "heap_state pf X ds p D A fl s \<longleftrightarrow> heap_mem pf X D (arena_pages A) s \<and> heap_shape ds (lnks s) A fl \<and> heap_counts ds p (arenas s) A fl \<and> busy ds A fl"

definition heap_writes :: "mem_block_desc list \<Rightarrow> addr set \<Rightarrow> 'a mstate_scheme \<Rightarrow> 'a mstate_scheme \<Rightarrow> bool" where
  "heap_writes ds P s s' \<longleftrightarrow> same_links ((\<Union>i<7. ends (ds ! i)) \<union> {x. frame x \<in> P}) (lnks s) (lnks s') \<and> (\<forall>x. frame x \<notin> P \<longrightarrow> arenas s' x = arenas s x)"

lemma heap_writes_trans: "heap_writes ds P s s1 \<Longrightarrow> heap_writes ds P s1 s2 \<Longrightarrow> heap_writes ds P s s2"
  using same_links_trans [OF _ _ order_refl order_refl] by (auto simp: heap_writes_def)

lemma heap_writesI:
  assumes "same_links Y (lnks s) (lnks s')" and "Y \<subseteq> (\<Union>i<7. ends (ds ! i)) \<union> {x. frame x \<in> P}" and "\<And>x. frame x \<notin> P \<Longrightarrow> arenas s' x = arenas s x"
  shows "heap_writes ds P s s'"
  using same_links_trans [OF assms(1) same_links_refl assms(2) order_refl] assms(3) by (simp add: heap_writes_def)

lemma take_block_writes:
  assumes sh: "heap_shape ds (lnks s) A fl" and ct: "heap_counts ds p (arenas s) A fl" and i: "i < 7" and b: "fl i = b # bs"
  shows "heap_writes ds (arena_pages A) s (take_block (ds ! i) b s)"
proof (rule heap_writesI [OF take_block_ok(3) [OF sh ct i b]])
  have bA: "frame b \<in> A i" "b \<in> blocks (ds ! i) (frame b)"
    using free_block_page [OF sh i, of b] b by simp_all
  have bytes: "frame x \<in> arena_pages A" if "x \<in> block_bytes (ds ! i) b" for x
    using block_bytes_alone(1) [OF sh i bA that] bA(1) i by (auto simp: arena_pages_def)
  moreover have "frame x \<in> arena_pages A" if "x \<in> set (fl i)" for x
    using free_block_page(1) [OF sh i that] i by (auto simp: arena_pages_def)
  ultimately show "ends (ds ! i) \<union> set (fl i) \<union> block_bytes (ds ! i) b \<subseteq> (\<Union>i<7. ends (ds ! i)) \<union> {x. frame x \<in> arena_pages A}"
    using i by auto
  have "frame (frame b) \<in> arena_pages A"
    using bA(1) heap_shapeD(6) [OF sh i bA(1)] i by (auto simp: arena_pages_def)
  then show "arenas (take_block (ds ! i) b s) x = arenas s x" if "frame x \<notin> arena_pages A" for x
    using take_block_ok(4) [OF sh ct i b, of x] bytes [of x] that by auto
qed

lemma block_taken:
  assumes st: "heap_mem pf X D (arena_pages A) s" "heap_shape ds (lnks s) A fl" "heap_counts ds p (arenas s) A fl" and i: "i < 7" and b: "fl i = b # bs"
    and bz: "\<forall>j c. j < 7 \<and> c \<in> A j \<and> c \<noteq> frame b \<longrightarrow> \<not> blocks (ds ! j) c \<subseteq> set (fl j)"
  shows "heap_state pf X ds p D A (fl(i := bs)) (take_block (ds ! i) b s)" and "in_use ds A (fl(i := bs)) = insert (i, b) (in_use ds A fl)"
    and "(i, b) \<notin> in_use ds A fl" and "keeps_blocks ds (in_use ds A fl) s (take_block (ds ! i) b s)"
    and "heap_writes ds (arena_pages A) s (take_block (ds ! i) b s)"
  using st take_block_ok(1,2,5) [OF st(2,3) i b] take_block_step(2) [OF st(2,3) i b bz] take_block_keeps [OF st(2,3) i b]
    take_block_writes [OF st(2,3) i b] b by (simp_all add: heap_state_def in_use_def)

text \<open>The blocks in use after \<^verbatim>\<open>malloc_small\<close> are those before and one more.\<close>

definition block_gained ::
  "pool_flags \<Rightarrow> addr set \<Rightarrow> mem_block_desc list \<Rightarrow> (nat \<Rightarrow> desc_ptr) \<Rightarrow> (nat \<times> addr) set \<Rightarrow> nat \<Rightarrow> addr \<Rightarrow> 'a mstate_scheme \<Rightarrow> 'a mstate_scheme \<Rightarrow> bool" where
  "block_gained pf X ds p U i b s s' \<longleftrightarrow> (\<exists>D A fl. heap_state pf X ds p D A fl s' \<and> in_use ds A fl = insert (i, b) U \<and> heap_writes ds (arena_pages A) s s') \<and>
     (i, b) \<notin> U \<and> keeps_blocks ds U s s' \<and> same_core s s'"

lemma busy_with:
  assumes sh: "heap_shape ds L A fl" and bz: "busy ds A fl" and i: "i < 7" and a: "frame a = a" and j: "j < 7" "c \<in> with_arena i a A j" "c \<noteq> a"
  shows "\<not> blocks (ds ! j) c \<subseteq> set (with_blocks (ds ! i) i a fl j)"
proof -
  have c: "c \<in> A j"
    using j by (auto simp: with_arena_def split: if_splits)
  have "blocks (ds ! j) c \<inter> blocks (ds ! i) a = {}"
    using block_frame [OF heap_shapeD(2) [OF sh j(1)] heap_shapeD(6) [OF sh j(1) c]] block_frame [OF heap_shapeD(2) [OF sh i] a] j(3) by blast
  moreover have "set (with_blocks (ds ! i) i a fl j) \<subseteq> set (fl j) \<union> blocks (ds ! i) a"
    using set_block_list [of "ds ! i" a] by (auto simp: with_blocks_def)
  ultimately show ?thesis
    using bz j(1) c unfolding busy_def by blast
qed

lemma new_arena_keeps:
  assumes sh: "heap_shape ds L A fl" and i: "i < 7" and a: "a \<notin> arena_pages A"
    and ln: "same_links (ends (ds ! i) \<union> set (fl i) \<union> page_bytes a) (lnks s) (lnks s1)" and ar: "\<forall>x. frame x \<noteq> a \<longrightarrow> arenas s1 x = arenas s x"
  shows "keeps_blocks ds (in_use ds A fl) s s1"
proof (rule keeps_blocksI [OF sh order_refl ln])
  fix j c x
  assume u: "(j, c) \<in> in_use ds A fl" "x \<in> block_bytes (ds ! j) c"
  note alone = in_use_alone [OF sh u]
  have "j < 7"
    using u(1) by (simp add: in_use_def)
  then have "frame x \<noteq> a"
    using alone(1) a by (auto simp: arena_pages_def)
  then show "x \<notin> ends (ds ! i) \<union> set (fl i) \<union> page_bytes a \<and> arenas s1 x = arenas s x"
    using alone(3,4) [OF i] ar by (simp add: page_bytes_def)
qed

text \<open>When the list is empty, a new arena makes sure that there is a first block.\<close>

lemma arena_added:
  assumes st: "heap_state pf X ds p D A fl s" and i: "i < 7" "fl i = []" and ends: "\<And>j. j < 7 \<Longrightarrow> ends (ds ! j) \<subseteq> X"
    and room: "room_for pf 1 s" and k: "k < bm_cap (vbits pf s)" "\<not> bm_bit (vbits pf s) k"
    and desc: "\<And>s'. same_core s s' \<Longrightarrow> get_desc (p i) s' = Some (ds ! i)"
  shows "\<exists>D1 A1 fl1 s1 b bs. new_arena pf (p i) (ds ! i) s = Some (True, s1) \<and> same_core s s1 \<and> heap_mem pf X D1 (arena_pages A1) s1 \<and>
    heap_shape ds (lnks s1) A1 fl1 \<and> heap_counts ds p (arenas s1) A1 fl1 \<and> fl1 i = b # bs \<and>
    (\<forall>j c. j < 7 \<and> c \<in> A1 j \<and> c \<noteq> frame b \<longrightarrow> \<not> blocks (ds ! j) c \<subseteq> set (fl1 j)) \<and> in_use ds A1 fl1 = in_use ds A fl \<and>
    heap_writes ds (arena_pages A1) s s1 \<and> keeps_blocks ds (in_use ds A fl) s s1"
proof -
  have hm: "heap_mem pf X D (arena_pages A) s" and sh: "heap_shape ds (lnks s) A fl" and ct: "heap_counts ds p (arenas s) A fl" and bz: "busy ds A fl"
    using st by (simp_all add: heap_state_def)
  obtain a f s1 where new: "new_arena pf (p i) (ds ! i) s = Some (True, s1)" "same_core s s1" "frame a = a" "a \<notin> arena_pages A"
      and s1: "heap_mem pf X (insert f D) (insert a (arena_pages A)) s1" "heap_shape ds (lnks s1) (with_arena i a A) (with_blocks (ds ! i) i a fl)"
        "heap_counts ds p (arenas s1) (with_arena i a A) (with_blocks (ds ! i) i a fl)"
      and ln: "same_links (ends (ds ! i) \<union> set (fl i) \<union> page_bytes a) (lnks s) (lnks s1)" and ar: "\<forall>x. frame x \<noteq> a \<longrightarrow> arenas s1 x = arenas s x"
    using new_arena_ok [OF hm sh ct i(1) ends room k desc] by blast
  let ?A = "with_arena i a A" and ?fl = "with_blocks (ds ! i) i a fl"
  obtain b bs where b: "?fl i = b # bs"
    using heap_shapeD(2) [OF sh i(1)] i(2) by (cases "unat (blocks_per_arena (ds ! i))") (auto simp: with_blocks_def desc_fits_def upt_conv_Cons simp del: upt_Suc)
  have "b \<in> set (?fl i)"
    using b by simp
  then have "b \<in> blocks (ds ! i) a"
    using i(2) set_block_list [of "ds ! i" a] by (simp add: with_blocks_def)
  then have fb: "frame b = a"
    by (rule block_frame [OF heap_shapeD(2) [OF sh i(1)] new(3)])
  have "heap_writes ds (arena_pages ?A) s s1"
    using ln by (rule heap_writesI) (use ar new(3) i in \<open>auto simp: page_bytes_def\<close>)
  then show ?thesis
    using new s1 b busy_with [OF sh bz i(1) new(3)] fb in_use_with [OF sh i(1) new(3,4)] new_arena_keeps [OF sh i(1) new(4) ln ar] i(1)
    by (intro exI [of _ "insert f D"] exI [of _ ?A] exI [of _ ?fl] exI [of _ s1] exI [of _ b] exI [of _ bs]) simp
qed

lemma malloc_small_ok:
  assumes st: "heap_state pf X ds p D A fl s" and sz: "sz \<le> 1024" and ends: "\<And>j. j < 7 \<Longrightarrow> ends (ds ! j) \<subseteq> X"
    and room: "room_for pf 1 s" and k: "k < bm_cap (vbits pf s)" "\<not> bm_bit (vbits pf s) k"
    and desc: "\<And>i s'. i < 7 \<Longrightarrow> same_core s s' \<Longrightarrow> get_desc (p i) s' = Some (ds ! i)"
  shows "\<exists>b i s'. malloc_small pf p ds sz s = Some (b, s') \<and> i < 7 \<and> sz \<le> block_size (ds ! i) \<and> block_gained pf X ds p (in_use ds A fl) i b s s'"
proof -
  have hm: "heap_mem pf X D (arena_pages A) s" and sh: "heap_shape ds (lnks s) A fl" and ct: "heap_counts ds p (arenas s) A fl" and bz: "busy ds A fl"
    using st by (simp_all add: heap_state_def)
  let ?i = "find_desc sz ds 0"
  let ?d = "ds ! ?i"
  have i: "?i < 7" "sz \<le> block_size ?d" and len: "?i < length ds"
    using heap_desc_found [OF heap_shapeD(1) [OF sh] sz] desc_sizes_length [OF heap_shapeD(1) [OF sh]] by simp_all
  have emp: "list_empty (free_list ?d) (lnks s) = (fl ?i = [])"
    by (rule list_empty_rep [OF heap_shapeD(3) [OF sh i(1)]])
  have "\<exists>D1 A1 fl1 s1 b bs. (if list_empty (free_list ?d) (lnks s) then new_arena pf (p ?i) ?d s else Some (True, s)) = Some (True, s1) \<and>
    same_core s s1 \<and> heap_mem pf X D1 (arena_pages A1) s1 \<and> heap_shape ds (lnks s1) A1 fl1 \<and> heap_counts ds p (arenas s1) A1 fl1 \<and> fl1 ?i = b # bs \<and>
    (\<forall>j c. j < 7 \<and> c \<in> A1 j \<and> c \<noteq> frame b \<longrightarrow> \<not> blocks (ds ! j) c \<subseteq> set (fl1 j)) \<and> in_use ds A1 fl1 = in_use ds A fl \<and>
    heap_writes ds (arena_pages A1) s s1 \<and> keeps_blocks ds (in_use ds A fl) s s1"
  proof (cases "fl ?i")
    case Nil
    then show ?thesis
      using arena_added [OF st i(1) Nil ends room k desc [OF i(1)]] emp by simp
  next
    case (Cons b bs)
    have "same_core s s" "heap_writes ds (arena_pages A) s s"
      by (simp_all add: same_core_def heap_writes_def same_links_refl)
    then show ?thesis
      using hm sh ct bz emp Cons keeps_blocks_refl by (intro exI [of _ D] exI [of _ A] exI [of _ fl] exI [of _ s] exI [of _ b] exI [of _ bs]) (simp add: busy_def)
  qed
  then obtain D1 A1 fl1 s1 b bs where s1: "(if list_empty (free_list ?d) (lnks s) then new_arena pf (p ?i) ?d s else Some (True, s)) = Some (True, s1)"
      "same_core s s1" "heap_mem pf X D1 (arena_pages A1) s1" "heap_shape ds (lnks s1) A1 fl1" "heap_counts ds p (arenas s1) A1 fl1" "fl1 ?i = b # bs"
      "\<forall>j c. j < 7 \<and> c \<in> A1 j \<and> c \<noteq> frame b \<longrightarrow> \<not> blocks (ds ! j) c \<subseteq> set (fl1 j)" "in_use ds A1 fl1 = in_use ds A fl"
      "heap_writes ds (arena_pages A1) s s1" "keeps_blocks ds (in_use ds A fl) s s1"
    by blast
  note taken = block_taken [OF s1(3-5) i(1) s1(6,7), unfolded s1(8)]
  have "malloc_small pf p ds sz s = Some (b, take_block ?d b s1)"
    by (rule malloc_small_take) (rule refl len s1(1) take_block_step(1) [OF s1(4,5) i(1) s1(6,7)])+
  then show ?thesis
    using taken i heap_writes_trans [OF s1(9)] keeps_blocks_trans [OF s1(10)] same_core_trans [OF s1(2) take_block_simps(1)] unfolding block_gained_def by blast
qed

section \<open>Giving a block back\<close>

definition give_block :: "mem_block_desc \<Rightarrow> addr \<Rightarrow> 'a mstate_scheme \<Rightarrow> 'a mstate_scheme" where
  "give_block d b s = (let s1 = s\<lparr>lnks := list_append (free_list d) b (lnks s)\<rparr>; a = block2arena b
     in set_arena a ((arenas s1 a)\<lparr>arena_cnt := arena_cnt (arenas s1 a) + 1\<rparr>) s1)"

lemma give_block_simps [simp]:
  "same_core s (give_block d b s)" "heap_mem pf X D P (give_block d b s) = heap_mem pf X D P s"
  "lnks (give_block d b s) = list_append (free_list d) b (lnks s)"
  "arenas (give_block d b s) x = (if x = block2arena b then (arenas s x)\<lparr>arena_cnt := arena_cnt (arenas s x) + 1\<rparr> else arenas s x)"
  by (simp_all add: give_block_def Let_def same_core_def set_arena_def)

lemma in_useD:
  assumes sh: "heap_shape ds L A fl" and u: "(i, b) \<in> in_use ds A fl"
  shows "i < 7" "frame b \<in> A i" "b \<in> blocks (ds ! i) (frame b)" "b \<notin> set (fl i)" "block2arena b = frame b"
proof -
  obtain a where a: "i < 7" "a \<in> A i" "b \<in> blocks (ds ! i) a" "b \<notin> set (fl i)"
    using u by (auto simp: in_use_def)
  have "frame b = a"
    by (rule block_frame [OF heap_shapeD(2) [OF sh a(1)] heap_shapeD(6) [OF sh a(1,2)] a(3)])
  then show "i < 7" "frame b \<in> A i" "b \<in> blocks (ds ! i) (frame b)" "b \<notin> set (fl i)"
    using a by simp_all
  show "block2arena b = frame b"
    by (simp add: block2arena_def frame_def)
qed

lemma give_block_ok:
  assumes sh: "heap_shape ds (lnks s) A fl" and ct: "heap_counts ds p (arenas s) A fl" and u: "(i, b) \<in> in_use ds A fl"
  shows "heap_shape ds (lnks (give_block (ds ! i) b s)) A (fl(i := fl i @ [b]))" and "heap_counts ds p (arenas (give_block (ds ! i) b s)) A (fl(i := fl i @ [b]))"
    and "same_links (insert b (ends (ds ! i) \<union> set (fl i))) (lnks s) (lnks (give_block (ds ! i) b s))"
    and "in_use ds A (fl(i := fl i @ [b])) = in_use ds A fl - {(i, b)}"
proof -
  let ?d = "ds ! i" and ?s = "give_block (ds ! i) b s" and ?a = "frame b"
  note i = in_useD [OF sh u]
  show "heap_shape ds (lnks ?s) A (fl(i := fl i @ [b]))"
    using heap_shape_append [OF sh i(1-4)] by simp
  show "same_links (insert b (ends ?d \<union> set (fl i))) (lnks s) (lnks ?s)"
    using same_links_append [OF heap_shapeD(3) [OF sh i(1)], of b] by (simp add: list_nodes_ends)
  show "heap_counts ds p (arenas ?s) A (fl(i := fl i @ [b]))"
  proof (rule heap_counts_upd [OF sh ct i(1,2)])
    have "card (blocks ?d ?a \<inter> set (fl i @ [b])) = Suc (card (blocks ?d ?a \<inter> set (fl i)))"
      using i(3,4) by (simp add: Int_insert_right)
    moreover have "arena_cnt (arenas s ?a) = of_nat (card (blocks ?d ?a \<inter> set (fl i)))"
      using ct i(1,2) by (simp add: heap_counts_def)
    ultimately show "arenas ?s ?a = (arenas s ?a)\<lparr>arena_cnt := of_nat (card (blocks ?d ?a \<inter> set (fl i @ [b])))\<rparr>"
      by (simp add: i(5) add.commute)
    show "arenas ?s c = arenas s c" if "c \<noteq> ?a" for c
      using that by (simp add: i(5))
    show "blocks ?d c \<inter> set (fl i @ [b]) = blocks ?d c \<inter> set (fl i)" if "c \<in> A i" "c \<noteq> ?a" for c
      using that block_frame [OF heap_shapeD(2) [OF sh i(1)] heap_shapeD(6) [OF sh i(1) that(1)]] by auto
  qed
  show "in_use ds A (fl(i := fl i @ [b])) = in_use ds A fl - {(i, b)}"
    by (auto simp: in_use_def split: if_splits)
qed

text \<open>All blocks of arena \<open>a\<close> are free: they leave the list and the page goes back.\<close>

definition without_arena :: "nat \<Rightarrow> addr \<Rightarrow> (nat \<Rightarrow> addr set) \<Rightarrow> nat \<Rightarrow> addr set" where
  "without_arena i a A = A(i := A i - {a})"

definition without_blocks :: "mem_block_desc \<Rightarrow> nat \<Rightarrow> addr \<Rightarrow> (nat \<Rightarrow> addr list) \<Rightarrow> nat \<Rightarrow> addr list" where
  "without_blocks d i a fl = fl(i := filter (\<lambda>b. b \<notin> blocks d a) (fl i))"

lemma without_other:
  assumes sh: "heap_shape ds L A fl" and i: "i < 7" "a \<in> A i" and j: "j < 7" "c \<in> without_arena i a A j"
  shows "c \<in> A j" and "c \<noteq> a" and "blocks (ds ! j) c \<inter> set (without_blocks (ds ! i) i a fl j) = blocks (ds ! j) c \<inter> set (fl j)"
proof -
  show c: "c \<in> A j"
    using j by (auto simp: without_arena_def split: if_splits)
  show ca: "c \<noteq> a"
    using j c i heap_shapeD(9) [OF sh j(1) i(1)] by (cases "j = i") (auto simp: without_arena_def)
  have "blocks (ds ! j) c \<inter> blocks (ds ! i) a = {}"
    using block_frame [OF heap_shapeD(2) [OF sh j(1)] heap_shapeD(6) [OF sh j(1) c]] block_frame [OF heap_shapeD(2) [OF sh i(1)] heap_shapeD(6) [OF sh i]] ca by blast
  then show "blocks (ds ! j) c \<inter> set (without_blocks (ds ! i) i a fl j) = blocks (ds ! j) c \<inter> set (fl j)"
    by (auto simp: without_blocks_def)
qed

lemma arena_pages_without:
  assumes sh: "heap_shape ds L A fl" and i: "i < 7" "a \<in> A i"
  shows "arena_pages (without_arena i a A) = arena_pages A - {a}"
proof -
  have "a \<notin> A j" if "j < 7" "j \<noteq> i" for j
    using heap_shapeD(9) [OF sh that(1) i(1) that(2)] i(2) by blast
  then show ?thesis
    using i by (auto simp: arena_pages_def without_arena_def split: if_splits)
qed

lemma in_use_without:
  assumes sh: "heap_shape ds L A fl" and i: "i < 7" "a \<in> A i" and all: "blocks (ds ! i) a \<subseteq> set (fl i)"
  shows "in_use ds (without_arena i a A) (without_blocks (ds ! i) i a fl) = in_use ds A fl"
proof (rule set_eqI, clarify)
  fix j b
  show "(j, b) \<in> in_use ds (without_arena i a A) (without_blocks (ds ! i) i a fl) \<longleftrightarrow> (j, b) \<in> in_use ds A fl"
  proof
    assume "(j, b) \<in> in_use ds (without_arena i a A) (without_blocks (ds ! i) i a fl)"
    then obtain c where c: "j < 7" "c \<in> without_arena i a A j" "b \<in> blocks (ds ! j) c" "b \<notin> set (without_blocks (ds ! i) i a fl j)"
      by (auto simp: in_use_def)
    then show "(j, b) \<in> in_use ds A fl"
      using without_other [OF sh i c(1,2)] by (auto simp: in_use_def)
  next
    assume "(j, b) \<in> in_use ds A fl"
    then obtain c where c: "j < 7" "c \<in> A j" "b \<in> blocks (ds ! j) c" "b \<notin> set (fl j)"
      by (auto simp: in_use_def)
    then have "c \<in> without_arena i a A j"
      using all by (cases "j = i") (auto simp: without_arena_def)
    then show "(j, b) \<in> in_use ds (without_arena i a A) (without_blocks (ds ! i) i a fl)"
      using c by (auto simp: in_use_def without_blocks_def)
  qed
qed

lemma arena_gone:
  assumes hm: "heap_mem pf X D (arena_pages A) s" and sh: "heap_shape ds (lnks s) A fl" and ct: "heap_counts ds p (arenas s) A fl" and i: "i < 7" "a \<in> A i"
    and all: "blocks (ds ! i) a \<subseteq> set (fl i)" and bz: "\<forall>j c. j < 7 \<and> c \<in> A j \<and> c \<noteq> a \<longrightarrow> \<not> blocks (ds ! j) c \<subseteq> set (fl j)"
    and desc: "get_desc (p i) s = Some (ds ! i)"
  shows "\<exists>s1 s' D' A' fl'. drop_blocks (unat (blocks_per_arena (ds ! i))) 0 a (ds ! i) s = Some s1 \<and> mfree_page pf a 1 s1 = Some s' \<and>
    heap_state pf X ds p D' A' fl' s' \<and> in_use ds A' fl' = in_use ds A fl \<and> same_core s s' \<and>
    same_links (ends (ds ! i) \<union> set (fl i)) (lnks s) (lnks s') \<and> arenas s' = arenas s"
proof -
  let ?d = "ds ! i" and ?A = "without_arena i a A" and ?fl = "without_blocks (ds ! i) i a fl"
  have B: "block_at ?d a ` {0..<0 + unat (blocks_per_arena ?d)} = blocks ?d a"
    by (auto simp: blocks_def)
  have ad: "arena_desc (arenas s a) = Some (p i)"
    using ct i by (simp add: heap_counts_def)
  obtain L where L: "drop_blocks (unat (blocks_per_arena ?d)) (of_nat 0) a ?d s = Some (s\<lparr>lnks := L\<rparr>)" "heap_shape ds L A ?fl"
      "same_links (ends ?d \<union> set (fl i)) (lnks s) L"
    using drop_blocks_ok [OF ad desc sh i, of 0 "unat (blocks_per_arena ?d)", unfolded B] all unfolding without_blocks_def by auto
  have aP: "a \<in> arena_pages A"
    using i by (auto simp: arena_pages_def)
  obtain f s' where m: "mfree_page pf a 1 (s\<lparr>lnks := L\<rparr>) = Some s'" "heap_mem pf X (D - {f}) (arena_pages A - {a}) s'" "mm_only (s\<lparr>lnks := L\<rparr>) s'"
    using heap_mem_mfree [OF _ aP, of pf X D "s\<lparr>lnks := L\<rparr>"] hm by auto
  have same: "lnks s' = L" "arenas s' = arenas s" "same_core s s'"
    using m(3) by (simp_all add: mm_only_def same_core_def)
  have "heap_shape ds L ?A ?fl"
    unfolding without_arena_def by (rule heap_shape_drop [OF L(2) i(1)]) (auto simp: without_blocks_def)
  moreover have "heap_counts ds p (arenas s) ?A ?fl"
    using ct without_other [OF sh i] by (simp add: heap_counts_def)
  moreover have "busy ds ?A ?fl"
    unfolding busy_def
  proof (intro allI impI ballI)
    fix j c
    assume j: "j < 7" "c \<in> ?A j"
    note w = without_other [OF sh i j]
    show "\<not> blocks (ds ! j) c \<subseteq> set (?fl j)"
      using bz j(1) w by (metis inf.absorb_iff1)
  qed
  ultimately have "heap_state pf X ds p (D - {f}) ?A ?fl s'"
    using m(2) same arena_pages_without [OF sh i] by (simp add: heap_state_def)
  then show ?thesis
    using L(1,3) m(1) same in_use_without [OF sh i all]
    by (intro exI [of _ "s\<lparr>lnks := L\<rparr>"] exI [of _ s'] exI [of _ "D - {f}"] exI [of _ ?A] exI [of _ ?fl]) simp
qed

definition block_lost ::
  "pool_flags \<Rightarrow> addr set \<Rightarrow> mem_block_desc list \<Rightarrow> (nat \<Rightarrow> desc_ptr) \<Rightarrow> (nat \<times> addr) set \<Rightarrow> addr set \<Rightarrow> nat \<Rightarrow> addr \<Rightarrow> 'a mstate_scheme \<Rightarrow> 'a mstate_scheme \<Rightarrow> bool" where
  "block_lost pf X ds p U P i b s s' \<longleftrightarrow> (\<exists>D A fl. heap_state pf X ds p D A fl s' \<and> in_use ds A fl = U - {(i, b)}) \<and>
     heap_writes ds P s s' \<and> keeps_blocks ds (U - {(i, b)}) s s' \<and> same_core s s'"

lemma full_arena:
  assumes d: "desc_fits d" "frame a = a"
  shows "of_nat (card (blocks d a \<inter> S)) = blocks_per_arena d \<longleftrightarrow> blocks d a \<subseteq> S"
proof -
  have le: "card (blocks d a \<inter> S) \<le> unat (blocks_per_arena d)" "unat (blocks_per_arena d) \<le> 255"
    using card_mono [OF finite_blocks, of "blocks d a \<inter> S" d a] card_blocks [OF d] d(1) by (simp_all add: desc_fits_def)
  then have "unat (of_nat (card (blocks d a \<inter> S)) :: u32) = card (blocks d a \<inter> S)"
    by (simp add: unat_of_nat)
  then have "of_nat (card (blocks d a \<inter> S)) = blocks_per_arena d \<longleftrightarrow> card (blocks d a \<inter> S) = card (blocks d a)"
    using card_blocks [OF d] by (metis word_unat_eq_iff)
  also have "\<dots> \<longleftrightarrow> blocks d a \<subseteq> S"
    using card_subset_eq [OF finite_blocks, of "blocks d a \<inter> S" d a] by (auto simp: inf.absorb_iff1)
  finally show ?thesis .
qed

lemma give_block_keeps:
  assumes sh: "heap_shape ds (lnks s) A fl" and u: "(i, b) \<in> in_use ds A fl"
    and ln: "same_links (insert b (ends (ds ! i) \<union> set (fl i))) (lnks s) (lnks s')" and ar: "arenas s' = arenas (give_block (ds ! i) b s)"
  shows "keeps_blocks ds (in_use ds A fl - {(i, b)}) s s'" and "heap_writes ds (arena_pages A) s s'"
proof -
  note i = in_useD [OF sh u]
  have aP: "frame b \<in> arena_pages A"
    using i(1,2) by (auto simp: arena_pages_def)
  show "keeps_blocks ds (in_use ds A fl - {(i, b)}) s s'"
  proof (rule keeps_blocksI [OF sh _ ln])
    fix j c x
    assume v: "(j, c) \<in> in_use ds A fl - {(i, b)}" "x \<in> block_bytes (ds ! j) c"
    then have jc: "(j, c) \<in> in_use ds A fl" "(i, b) \<noteq> (j, c)"
      by auto
    note alone = in_use_alone [OF sh jc(1) v(2)]
    have "x \<noteq> b"
      using alone(5) [OF i(1-3) jc(2)] block_in_own_bytes [OF heap_shapeD(2) [OF sh i(1)]] by blast
    moreover have "x \<noteq> frame b"
      using alone(2) aP by auto
    ultimately show "x \<notin> insert b (ends (ds ! i) \<union> set (fl i)) \<and> arenas s' x = arenas s x"
      using alone(3,4) [OF i(1)] by (simp add: ar i(5))
  qed auto
  show "heap_writes ds (arena_pages A) s s'"
  proof (rule heap_writesI [OF ln])
    show "insert b (ends (ds ! i) \<union> set (fl i)) \<subseteq> (\<Union>i<7. ends (ds ! i)) \<union> {x. frame x \<in> arena_pages A}"
      using free_block_page(1) [OF sh i(1)] i(1) aP by (auto simp: arena_pages_def)
    have "frame (frame b) = frame b"
      by (rule heap_shapeD(5) [OF sh aP])
    then show "arenas s' x = arenas s x" if "frame x \<notin> arena_pages A" for x
      using that aP by (auto simp: ar i(5))
  qed
qed

lemma free_block_ok:
  assumes st: "heap_state pf X ds p D A fl s" and u: "(i, b) \<in> in_use ds A fl"
    and desc: "\<And>s'. same_core s s' \<Longrightarrow> get_desc (p i) s' = Some (ds ! i)"
  shows "\<exists>s'. free_block pf (frame b) b s = Some s' \<and> block_lost pf X ds p (in_use ds A fl) (arena_pages A) i b s s'"
proof -
  have hm: "heap_mem pf X D (arena_pages A) s" and sh: "heap_shape ds (lnks s) A fl" and ct: "heap_counts ds p (arenas s) A fl" and bz: "busy ds A fl"
    using st by (simp_all add: heap_state_def)
  let ?d = "ds ! i" and ?a = "frame b" and ?s = "give_block (ds ! i) b s" and ?fl = "fl(i := fl i @ [b])"
  note i = in_useD [OF sh u] and g = give_block_ok [OF sh ct u]
  have da: "desc_fits ?d" "frame ?a = ?a"
    using heap_shapeD(2,6) [OF sh i(1)] i(2) by simp_all
  have ad: "arena_desc (arenas s ?a) = Some (p i)" "get_desc (p i) s = Some ?d"
    using ct i(1,2) desc [of s] by (simp_all add: heap_counts_def same_core_def)
  have "arena_cnt (arenas ?s ?a) = of_nat (card (blocks ?d ?a \<inter> set (?fl i)))"
    using g(2) i(1,2) unfolding heap_counts_def by (metis arena.select_convs(2))
  then have full: "arena_cnt (arenas ?s ?a) = blocks_per_arena ?d \<longleftrightarrow> blocks ?d ?a \<subseteq> set (?fl i)"
    using full_arena [OF da] by simp
  have fb: "free_block pf ?a b s = (if arena_cnt (arenas ?s ?a) = blocks_per_arena ?d
      then do { s3 \<leftarrow> drop_blocks (unat (blocks_per_arena ?d)) 0 ?a ?d ?s; mfree_page pf ?a 1 s3 } else Some ?s)"
    using ad by (simp add: free_block_def give_block_def Let_def i(5))
  have other: "\<not> blocks (ds ! j) c \<subseteq> set (?fl j)" if "j < 7" "c \<in> A j" "c \<noteq> ?a" for j c
  proof -
    have "b \<notin> blocks (ds ! j) c"
      using block_frame [OF heap_shapeD(2) [OF sh that(1)] heap_shapeD(6) [OF sh that(1,2)]] that(3) by blast
    then show ?thesis
      using bz that(1,2) by (cases "j = i") (auto simp: busy_def)
  qed
  show ?thesis
  proof (cases "blocks ?d ?a \<subseteq> set (?fl i)")
    case False
    have "busy ds A ?fl"
      using other False heap_shapeD(9) [OF sh _ i(1)] i(2) unfolding busy_def by blast
    then have "heap_state pf X ds p D A ?fl ?s"
      using hm g(1,2) by (simp add: heap_state_def)
    then show ?thesis
      using fb full False g(4) give_block_keeps [OF sh u g(3) refl] unfolding block_lost_def by auto
  next
    case True
    have hm': "heap_mem pf X D (arena_pages A) ?s"
      using hm by simp
    obtain s1 s' D' A' fl' where s': "drop_blocks (unat (blocks_per_arena ?d)) 0 ?a ?d ?s = Some s1" "mfree_page pf ?a 1 s1 = Some s'"
        "heap_state pf X ds p D' A' fl' s'" "in_use ds A' fl' = in_use ds A ?fl" "same_core ?s s'"
        "same_links (ends ?d \<union> set (?fl i)) (lnks ?s) (lnks s')" "arenas s' = arenas ?s"
      using arena_gone [OF hm' g(1,2) i(1,2) True _ desc [OF give_block_simps(1)]] other by blast
    have "same_links (insert b (ends ?d \<union> set (fl i))) (lnks s) (lnks s')"
      using g(3) s'(6) by (rule same_links_trans) auto
    then show ?thesis
      using fb full True s'(1-4) g(4) give_block_keeps [OF sh u _ s'(7)] same_core_trans [OF give_block_simps(1) s'(5)]
      unfolding block_lost_def by auto
  qed
qed

section \<open>The whole calls\<close>

definition heap_lock :: "'a mstate_scheme \<Rightarrow> addr" where
  "heap_lock s = pool_lock (get_pool (heap_pf s) s)"

definition heap_wait :: "'a mstate_scheme \<Rightarrow> addr" where
  "heap_wait s = list_head (sema_waiters (lock_semaphore (heap_lock s)))"

definition heap_ends :: "'a mstate_scheme \<Rightarrow> addr set" where
  "heap_ends s = (\<Union>i<7. ends (heap_descs s ! i))"

definition heap_inv :: "u32 set \<Rightarrow> (nat \<Rightarrow> addr set) \<Rightarrow> (nat \<Rightarrow> addr list) \<Rightarrow> 'a mstate_scheme \<Rightarrow> bool" where
  "heap_inv D A fl s \<longleftrightarrow> heap_state (heap_pf s) (insert (heap_wait s) (heap_ends s)) (heap_descs s) (heap_ptr s) D A fl s \<and>
     lock_free (heap_lock s) s \<and> heap_wait s \<notin> heap_ends s"

lemma heap_inv_pages:
  assumes "heap_inv D A fl s"
  shows "arena_pages A = (frame \<circ> snd) ` in_use (heap_descs s) A fl"
proof -
  have sh: "heap_shape (heap_descs s) (lnks s) A fl" and bz: "busy (heap_descs s) A fl"
    using assms by (simp_all add: heap_inv_def heap_state_def)
  show ?thesis
  proof
    show "arena_pages A \<subseteq> (frame \<circ> snd) ` in_use (heap_descs s) A fl"
    proof
      fix a
      assume "a \<in> arena_pages A"
      then obtain i where i: "i < 7" "a \<in> A i"
        by (auto simp: arena_pages_def)
      then obtain b where b: "b \<in> blocks (heap_descs s ! i) a" "b \<notin> set (fl i)"
        using bz by (auto simp: busy_def)
      then have "frame b = a"
        by (intro block_frame [OF heap_shapeD(2) [OF sh i(1)] heap_shapeD(6) [OF sh i]])
      moreover have "(i, b) \<in> in_use (heap_descs s) A fl"
        using i b by (auto simp: in_use_def)
      ultimately show "a \<in> (frame \<circ> snd) ` in_use (heap_descs s) A fl"
        by force
    qed
    show "(frame \<circ> snd) ` in_use (heap_descs s) A fl \<subseteq> arena_pages A"
    proof clarify
      fix i b
      assume "(i, b) \<in> in_use (heap_descs s) A fl"
      then have "i < 7" "frame b \<in> A i"
        using in_useD(1,2) [OF sh] by blast+
      then show "(frame \<circ> snd) (i, b) \<in> arena_pages A"
        by (auto simp: arena_pages_def)
    qed
  qed
qed

lemma locked_views [simp]:
  "lnks (locked l s) = lnks s" "arenas (locked l u) = arenas u" "lnks (unlocked l s) = lnks s" "arenas (unlocked l u) = arenas u"
  "k_block_descs (locked l u) = k_block_descs u"
  by (simp_all add: locked_def unlocked_def)

lemma locked_heap [simp]:
  "heap_pf (locked l u) = heap_pf u" "heap_descs (locked l u) = heap_descs u" "heap_ptr (locked l u) = heap_ptr u"
  "heap_state pf X ds p D A fl (locked l u) = heap_state pf X ds p D A fl u" "heap_state pf X ds p D A fl (unlocked l u) = heap_state pf X ds p D A fl u"
  "get_pool pg (locked l u) = get_pool pg u" "room_for pg n (locked l u) = room_for pg n u" "vbits pg (locked l u) = vbits pg u"
  by (simp_all add: heap_pf_def heap_descs_def heap_ptr_def heap_state_def get_pool_def room_for_def vbits_def vspace_def)

lemma heap_unlock:
  assumes inv: "heap_inv D A fl s" and core: "same_core (locked (heap_lock s) s) s2"
    and st: "heap_state (heap_pf s) (insert (heap_wait s) (heap_ends s)) (heap_descs s) (heap_ptr s) D' A' fl' s2"
    and w: "heap_writes (heap_descs s) P (locked (heap_lock s) s) s2" and P: "frame (heap_wait s) \<notin> P"
  shows "lock_release (pool_lock (get_pool (heap_pf s) s2)) s2 = Some (unlocked (heap_lock s) s2)" and "heap_inv D' A' fl' (unlocked (heap_lock s) s2)"
    and "same_core s (unlocked (heap_lock s) s2)"
proof -
  let ?l = "heap_lock s"
  have free: "lock_free ?l s" and we: "heap_wait s \<notin> heap_ends s"
    using inv by (simp_all add: heap_inv_def)
  have c: "cur s2 = cur s" "sema_value s2 = (sema_value s)(lock_semaphore ?l := 0)" "lock_holder s2 = (lock_holder s)(?l := cur s)"
      "lock_repeat_nr s2 = (lock_repeat_nr s)(?l := 1)"
    using core by (simp_all add: same_core_def locked_def)
  have "lnext (lnks s2) (heap_wait s) = lnext (lnks s) (heap_wait s)"
    using w we P by (simp add: heap_writes_def same_links_def heap_ends_def)
  then have emp: "list_empty (sema_waiters (lock_semaphore ?l)) (lnks s2)"
    using free by (simp add: lock_free_def list_empty_def heap_wait_def)
  have pl: "pool_lock (get_pool (heap_pf s) s2) = ?l"
    using core by (cases "heap_pf s") (simp_all add: same_core_def heap_lock_def get_pool_def)
  have "lock_mine ?l s2"
    using free c emp by (simp add: lock_mine_def lock_free_def)
  then show "lock_release (pool_lock (get_pool (heap_pf s) s2)) s2 = Some (unlocked ?l s2)"
    unfolding pl by (rule lock_release_mine)
  show core': "same_core s (unlocked ?l s2)"
    using core free by (auto simp: same_core_def unlocked_def locked_def lock_free_def)
  note same = same_core_heap [OF core']
  have "heap_lock (unlocked ?l s2) = ?l"
    using core' same(1) by (cases "heap_pf s") (simp_all add: same_core_def heap_lock_def get_pool_def)
  moreover have "lock_free ?l (unlocked ?l s2)"
    using free c emp by (simp add: lock_free_def unlocked_def)
  ultimately show "heap_inv D' A' fl' (unlocked ?l s2)"
    using st we same by (simp add: heap_inv_def heap_wait_def heap_ends_def)
qed

lemma heap_get_desc:
  assumes "desc_sizes (heap_descs s)" and "i < 7" and "same_core (locked l s) s'"
  shows "get_desc (heap_ptr s i) s' = Some (heap_descs s ! i)"
  using get_heap_desc [of i s'] same_core_heap [OF assms(3)] desc_sizes_length [OF assms(1)] assms(2) by simp

lemma sys_malloc_ok:
  assumes inv: "heap_inv D A fl s" and sz: "0 < sz" "sz \<le> 1024" "sz < pool_size (get_pool (heap_pf s) s)"
    and room: "room_for (heap_pf s) 1 s" and k: "k < bm_cap (vbits (heap_pf s) s)" "\<not> bm_bit (vbits (heap_pf s) s) k"
  shows "\<exists>b i s' D' A' fl'. sys_malloc sz s = Some (b, s') \<and> heap_inv D' A' fl' s' \<and> i < 7 \<and> sz \<le> block_size (heap_descs s ! i) \<and>
    (i, b) \<notin> in_use (heap_descs s) A fl \<and> in_use (heap_descs s) A' fl' = insert (i, b) (in_use (heap_descs s) A fl) \<and>
    keeps_blocks (heap_descs s) (in_use (heap_descs s) A fl) s s' \<and> same_core s s'"
proof -
  let ?l = "heap_lock s" and ?pf = "heap_pf s" and ?ds = "heap_descs s" and ?p = "heap_ptr s" and ?X = "insert (heap_wait s) (heap_ends s)"
  let ?s1 = "locked ?l s"
  have st: "heap_state ?pf ?X ?ds ?p D A fl s" and free: "lock_free ?l s"
    using inv by (simp_all add: heap_inv_def)
  have sizes: "desc_sizes ?ds"
    using st by (simp add: heap_state_def heap_shape_def)
  have ends: "ends (?ds ! j) \<subseteq> ?X" if "j < 7" for j
    using that by (auto simp: heap_ends_def)
  obtain b i s2 where m: "malloc_small ?pf ?p ?ds sz ?s1 = Some (b, s2)" "i < 7" "sz \<le> block_size (?ds ! i)"
      and g: "block_gained ?pf ?X ?ds ?p (in_use ?ds A fl) i b ?s1 s2"
    using malloc_small_ok [of ?pf ?X ?ds ?p D A fl ?s1 sz k] st sz(2) ends room k heap_get_desc [OF sizes] by auto
  obtain D' A' fl' where s2: "heap_state ?pf ?X ?ds ?p D' A' fl' s2" "in_use ?ds A' fl' = insert (i, b) (in_use ?ds A fl)" "heap_writes ?ds (arena_pages A') ?s1 s2"
      and r: "(i, b) \<notin> in_use ?ds A fl" "keeps_blocks ?ds (in_use ?ds A fl) ?s1 s2" "same_core ?s1 s2"
    using g unfolding block_gained_def by blast
  have "frame (heap_wait s) \<notin> arena_pages A'"
    using s2(1) by (simp add: heap_state_def heap_mem_def)
  note un = heap_unlock [OF inv r(3) s2(1,3) this]
  have "sys_malloc sz s = Some (b, unlocked ?l s2)"
    using with_lock_free [OF free] m(1) un(1) sz by (auto simp: sys_malloc_def Let_def running_thread_def heap_pf_def heap_descs_def heap_ptr_def heap_lock_def)
  moreover have "keeps_blocks ?ds (in_use ?ds A fl) s (unlocked ?l s2)"
    using r(2) by (simp add: keeps_blocks_def)
  ultimately show ?thesis
    using un(2,3) m(2,3) r(1) s2(2) by blast
qed

lemma sys_free_ok:
  assumes inv: "heap_inv D A fl s" and u: "(i, b) \<in> in_use (heap_descs s) A fl"
  shows "\<exists>s' D' A' fl'. sys_free b s = Some s' \<and> heap_inv D' A' fl' s' \<and> in_use (heap_descs s) A' fl' = in_use (heap_descs s) A fl - {(i, b)} \<and>
    keeps_blocks (heap_descs s) (in_use (heap_descs s) A fl - {(i, b)}) s s' \<and> same_core s s'"
proof -
  let ?l = "heap_lock s" and ?pf = "heap_pf s" and ?ds = "heap_descs s" and ?p = "heap_ptr s" and ?X = "insert (heap_wait s) (heap_ends s)"
  let ?s1 = "locked ?l s" and ?v = "vaddr_start (vspace (heap_pf s) s)"
  have st: "heap_state ?pf ?X ?ds ?p D A fl s" and free: "lock_free ?l s"
    using inv by (simp_all add: heap_inv_def)
  have hm: "heap_mem ?pf ?X D (arena_pages A) s" and sh: "heap_shape ?ds (lnks s) A fl" and ct: "heap_counts ?ds ?p (arenas s) A fl"
    using st by (simp_all add: heap_state_def)
  note i = in_useD [OF sh u]
  have aP: "frame b \<in> arena_pages A"
    using i(1,2) by (auto simp: arena_pages_def)
  then obtain r where r: "r < bm_cap (vbits ?pf s)" "frame b = page_at ?v r"
    using hm unfolding heap_mem_def by blast
  have "unat ?v \<le> unat (frame b)" "2 ^ 22 \<le> unat ?v"
    using page_at_range [OF heap_memD(4) [OF hm] r(1)] heap_memD(4) [OF hm] r(2) by (simp_all add: range_ok_def)
  moreover have "unat (frame b) \<le> unat b"
    by (simp add: unat_frame)
  ultimately have "b \<noteq> NULL" "?v \<le> b"
    by (auto simp: NULL_def word_le_nat_alt)
  moreover have "?pf = PF_KERNEL \<longrightarrow> K_HEAP_START \<le> ?v"
    using hm by (simp add: heap_mem_def)
  ultimately have guards: "b \<noteq> NULL" "pgdir (tasks s (cur s)) = NULL \<longrightarrow> K_HEAP_START \<le> b"
    by (auto simp: heap_pf_def)
  have ad: "arena_desc (arenas s (frame b)) \<noteq> None"
    using ct i(1,2) by (simp add: heap_counts_def)
  obtain s2 where m: "free_block ?pf (frame b) b ?s1 = Some s2" and g: "block_lost ?pf ?X ?ds ?p (in_use ?ds A fl) (arena_pages A) i b ?s1 s2"
    using free_block_ok [of ?pf ?X ?ds ?p D A fl ?s1 i b] st u heap_get_desc [OF heap_shapeD(1) [OF sh] i(1)] by auto
  obtain D' A' fl' where s2: "heap_state ?pf ?X ?ds ?p D' A' fl' s2" "in_use ?ds A' fl' = in_use ?ds A fl - {(i, b)}" "heap_writes ?ds (arena_pages A) ?s1 s2"
      and r: "keeps_blocks ?ds (in_use ?ds A fl - {(i, b)}) ?s1 s2" "same_core ?s1 s2"
    using g unfolding block_lost_def by blast
  have "frame (heap_wait s) \<notin> arena_pages A"
    using hm by (simp add: heap_mem_def)
  note un = heap_unlock [OF inv r(2) s2(1,3) this]
  have "sys_free b s = Some (unlocked ?l s2)"
    using with_lock_free [OF free] m un(1) guards ad i(5) by (auto simp: sys_free_def Let_def running_thread_def heap_pf_def heap_lock_def)
  moreover have "keeps_blocks ?ds (in_use ?ds A fl - {(i, b)}) s (unlocked ?l s2)"
    using r(1) by (simp add: keeps_blocks_def)
  ultimately show ?thesis
    using un(2,3) s2(2) by blast
qed

section \<open>A small heap\<close>

text \<open>The small machine with the descriptors of the kernel at 0xc0000800 and the lock of the kernel pool at 0xc0000500.\<close>

definition heap_links :: links where
  "heap_links = list_init 0xc0000508 sample_links"

definition heap_sample :: mstate where
  "heap_sample = sample_space\<lparr>kernel_pool := (sample_pool 0x200000)\<lparr>pool_lock := 0xc0000500\<rparr>, lnks := snd (block_desc_init 0xc0000800 heap_links),
     k_block_descs := fst (block_desc_init 0xc0000800 heap_links)\<rparr>"

lemma heap_sample_parts [simp]:
  "heap_pf heap_sample = PF_KERNEL" "heap_descs heap_sample = fst (block_desc_init 0xc0000800 heap_links)"
  "lnks heap_sample = snd (block_desc_init 0xc0000800 heap_links)" "heap_wait heap_sample = 0xc0000508"
  "phys heap_sample = sample_phys(0x101000 := 3)" "cr3 heap_sample = 0x100000" "heap_lock heap_sample = 0xc0000500"
  by (simp_all add: heap_sample_def heap_pf_def heap_descs_def heap_wait_def heap_lock_def sample_space_def sample_mem_def sample_kstate_def sample_task_def kstate.defs
      get_pool_def lock_semaphore_def sema_waiters_def list_head_def NULL_def)

lemma heap_low_page:
  assumes "unat x < 4096"
  shows "mmu (sample_phys(0x101000 := 3)) 0x100000 (0xc0000000 + x) \<noteq> None" "PDE_IDX (0xc0000000 + x) = 768"
proof -
  have f: "frame 0xc0000000 = 0xc0000000"
    by (simp add: frame_def)
  have "frame (0xc0000000 + x) = frame 0xc0000000"
    using frame_of_add [OF assms, of "0xc0000000"] f by simp
  then have i: "PDE_IDX (0xc0000000 + x) = PDE_IDX 0xc0000000" "PTE_IDX (0xc0000000 + x) = PTE_IDX 0xc0000000"
    using same_page_iff by blast+
  then show "PDE_IDX (0xc0000000 + x) = 768"
    by (simp add: PDE_IDX_def)
  have "mmu (sample_phys(0x101000 := 3)) 0x100000 0xc0000000 \<noteq> None"
    by (simp add: mmu_def pde_addr_def pte_addr_def PDE_IDX_def PTE_IDX_def sample_phys_def)
  then show "mmu (sample_phys(0x101000 := 3)) 0x100000 (0xc0000000 + x) \<noteq> None"
    using i by (auto simp: mmu_parts pte_addr_alt split: if_splits)
qed

lemma heap_sample_ends:
  assumes "x \<in> insert (heap_wait heap_sample) (heap_ends heap_sample)"
  obtains y where "x = 0xc0000000 + y" and "unat y < 4096"
proof (cases "x = 0xc0000508")
  case True
  then show thesis
    using that [of "0x508"] by simp
next
  case False
  then obtain i where i: "i < 7" "x \<in> ends (fst (block_desc_init 0xc0000800 heap_links) ! i)"
    using assms by (auto simp: heap_ends_def)
  then obtain r where r: "x = 0xc0000800 + of_nat r" "8 \<le> r" "r \<le> 160"
    by (auto simp: desc_init_ends simp del: of_nat_add of_nat_mult)
  have "unat (0x800 + of_nat r :: u32) = 0x800 + r"
    using r by (simp add: unat_of_nat unat_word_ariths)
  moreover have "x = 0xc0000000 + (0x800 + of_nat r)"
    using r(1) by simp
  ultimately show thesis
    using that [of "0x800 + of_nat r"] r by simp
qed

lemma heap_sample_mem: "heap_mem PF_KERNEL (insert (heap_wait heap_sample) (heap_ends heap_sample)) {} {} heap_sample"
proof -
  have sp: "memory_ok {} heap_sample" "vspace_ok PF_KERNEL heap_sample"
    using sample_space_ok(1,2) by (simp_all add: heap_sample_def sample_space_def memory_ok_def vspace_ok_def vbits_def vspace_def pool_ok_def free_frames_def
        frame_at_def [abs_def])
  have "mmu (phys heap_sample) (cr3 heap_sample) x \<noteq> None \<and> PDE_IDX x \<noteq> 0x3ff \<and> PDE_IDX x \<noteq> 0"
    if x: "x \<in> insert (heap_wait heap_sample) (heap_ends heap_sample)" for x
  proof -
    obtain y where y: "x = 0xc0000000 + y" "unat y < 4096"
      by (rule heap_sample_ends [OF x])
    show ?thesis
      using heap_low_page [OF y(2)] unfolding y(1) by simp
  qed
  then show ?thesis
    using sp by (simp add: heap_mem_def) (simp add: heap_sample_def sample_space_def vspace_def sample_pool_def K_HEAP_START_def)
qed

lemma heap_sample_inv: "heap_inv {} (\<lambda>_. {}) (\<lambda>_. []) heap_sample"
proof -
  have "heap_wait heap_sample \<notin> heap_ends heap_sample"
  proof
    assume "heap_wait heap_sample \<in> heap_ends heap_sample"
    then obtain i where i: "i < 7" "0xc0000508 \<in> ends (fst (block_desc_init 0xc0000800 heap_links) ! i)"
      by (auto simp: heap_ends_def)
    then obtain r where r: "0xc0000508 = 0xc0000800 + (of_nat r :: u32)" "r \<le> 160"
      by (auto simp: desc_init_ends simp del: of_nat_add of_nat_mult)
    have "unat (0xc0000800 + of_nat r :: u32) = 0xc0000800 + r"
      using r(2) by (simp add: unat_word_ariths unat_of_nat)
    then show False
      unfolding r(1) [symmetric] by simp
  qed
  moreover have "lock_free (heap_lock heap_sample) heap_sample"
  proof -
    have "list_rep heap_links 0xc0000508 []"
      by (simp add: heap_links_def list_init_rep)
    then have "list_rep (lnks heap_sample) 0xc0000508 []"
    proof (rule list_rep_frame)
      fix e
      assume "e \<in> list_nodes 0xc0000508 []"
      then have e: "e = 0xc0000508 \<or> e = 0xc0000510"
        by (auto simp: list_nodes_def list_head_def list_tail_def)
      have "lnext (fold (\<lambda>i. list_init (0xc0000800 + 24 * of_nat i + 8)) [0..<7] l) e = lnext l e \<and>
          lprev (fold (\<lambda>i. list_init (0xc0000800 + 24 * of_nat i + 8)) [0..<7] l) e = lprev l e" for l
        using e by (auto simp: upt_rec list_init_def list_head_def list_tail_def)
      then show "lnext (lnks heap_sample) e = lnext heap_links e \<and> lprev (lnks heap_sample) e = lprev heap_links e"
        by (simp add: block_desc_init_eq)
    qed
    then show ?thesis
      using list_empty_rep by (auto simp: lock_free_def lock_semaphore_def sema_waiters_def) (simp_all add: heap_sample_def sample_space_def sample_mem_def
          sample_kstate_def kstate.defs NULL_def)
  qed
  ultimately show ?thesis
    using heap_sample_mem block_desc_init_shape [of "0xc0000800" heap_links]
    by (simp add: heap_inv_def heap_state_def heap_counts_def busy_def arena_pages_def)
qed

section \<open>Properties\<close>

text \<open>
  C5. \<^verbatim>\<open>sys_malloc\<close> of up to 1024 bytes, for kernel threads and for processes, with pages left to grow: it returns a block that nobody uses, of at least the
  requested size, whose bytes overlap no block in use; the blocks in use afterwards are those before and this one, nothing inside a block in use is
  written, and the invariant of the heap holds again: the free lists hold exactly the other blocks of the arenas and every arena's count is right.
\<close>

theorem sys_malloc_fresh_block:
  assumes "heap_inv D A fl s" and "0 < sz" and "sz \<le> 1024" and "sz < pool_size (get_pool (heap_pf s) s)" and "room_for (heap_pf s) 1 s"
    and "k < bm_cap (vbits (heap_pf s) s)" and "\<not> bm_bit (vbits (heap_pf s) s) k" and "U = in_use (heap_descs s) A fl"
  shows "\<exists>b i s' D' A' fl'. sys_malloc sz s = Some (b, s') \<and> heap_inv D' A' fl' s' \<and> sz \<le> block_size (heap_descs s ! i) \<and>
    (i, b) \<notin> U \<and> in_use (heap_descs s') A' fl' = insert (i, b) U \<and>
    (\<forall>(j, c)\<in>U. block_bytes (heap_descs s ! j) c \<inter> block_bytes (heap_descs s ! i) b = {}) \<and> keeps_blocks (heap_descs s) U s s'"
proof -
  let ?ds = "heap_descs s"
  obtain b i s' D' A' fl' where m: "sys_malloc sz s = Some (b, s')" "heap_inv D' A' fl' s'" "i < 7" "sz \<le> block_size (?ds ! i)" "(i, b) \<notin> U"
      "in_use ?ds A' fl' = insert (i, b) U" "keeps_blocks ?ds U s s'" "same_core s s'"
    using sys_malloc_ok [OF assms(1-7)] unfolding assms(8) by blast
  have ds: "heap_descs s' = ?ds"
    by (rule same_core_heap(2) [OF m(8)])
  then have sh: "heap_shape ?ds (lnks s') A' fl'"
    using m(2) by (simp add: heap_inv_def heap_state_def)
  have "block_bytes (?ds ! j) c \<inter> block_bytes (?ds ! i) b = {}" if "(j, c) \<in> U" for j c
  proof -
    have u: "(j, c) \<in> in_use ?ds A' fl'" "(i, b) \<in> in_use ?ds A' fl'" "(i, b) \<noteq> (j, c)"
      using that m(5,6) by auto
    note i = in_useD [OF sh u(2)]
    show ?thesis
      using in_use_alone(5) [OF sh u(1) _ i(1-3) u(3)] by blast
  qed
  then show ?thesis
    using m ds by (intro exI [of _ b] exI [of _ i] exI [of _ s'] exI [of _ D'] exI [of _ A'] exI [of _ fl']) auto
qed

lemma heap_sample_room:
  "room_for (heap_pf heap_sample) 1 heap_sample" "0 < bm_cap (vbits (heap_pf heap_sample) heap_sample)" "\<not> bm_bit (vbits (heap_pf heap_sample) heap_sample) 0"
  "100 < pool_size (get_pool (heap_pf heap_sample) heap_sample)"
  unfolding heap_sample_parts(1) using sample_space_ok(4-6)
  by (simp_all add: heap_sample_def sample_space_def room_for_def free_frames_def frame_at_def [abs_def] vbits_def vspace_def get_pool_def sample_pool_def)

theorem sys_malloc_fresh_block_witness:
  "\<exists>b i s' D' A' fl'. sys_malloc 100 heap_sample = Some (b, s') \<and> heap_inv D' A' fl' s' \<and> in_use (heap_descs s') A' fl' = {(i, b)}"
proof -
  have "in_use (heap_descs heap_sample) (\<lambda>_. {}) (\<lambda>_. []) = {}"
    by (simp add: in_use_def)
  then show ?thesis
    using sys_malloc_fresh_block [OF heap_sample_inv _ _ heap_sample_room(4) heap_sample_room(1-3) refl] by fastforce
qed



end
