(* ===== verification/Interrupts.thy ===== *)
theory Interrupts
  imports Thread
begin

text \<open>
  The tables of the processor and the programming of the interrupt and timer chips: src/kernel/interrupt.c, src/user/tss.c and
  src/device/timer.c. \<open>cpu\<close> holds the descriptor tables and their registers, the table of handlers and, in the order they are made, the
  writes to I/O ports. Addresses of assembly routines (\<open>intr_entry_table\<close>, \<open>syscall_handler\<close>) are arguments, and \<^verbatim>\<open>put_str\<close> messages are left out.
\<close>

section \<open>State\<close>

record gate_desc =
  func_offset_low_word :: u16
  selector :: u16
  dcount :: u8
  gate_attribute :: u8
  func_offset_high_word :: u16

record gdt_desc =
  limit_low_word :: u16
  base_low_word :: u16
  base_mid_byte :: u8
  attr_low_byte :: u8
  limit_high_attr_high :: u8
  base_high_byte :: u8

record tss =
  backlink :: u32
  esp0 :: u32
  ss0 :: u32
  esp1 :: u32
  ss1 :: u32
  esp2 :: u32
  ss2 :: u32
  tss_cr3 :: u32
  tss_eip :: u32
  tss_eflags :: u32
  tss_eax :: u32
  tss_ecx :: u32
  tss_edx :: u32
  tss_ebx :: u32
  tss_esp :: u32
  tss_ebp :: u32
  tss_esi :: u32
  tss_edi :: u32
  tss_es :: u32
  tss_cs :: u32
  tss_ss :: u32
  tss_ds :: u32
  tss_fs :: u32
  tss_gs :: u32
  tss_ldt :: u32
  tss_trace :: u32
  io_base :: u32

datatype intr_fn = General_intr_handler | Intr_timer_handler | Intr_keyboard_handler | Intr_hd_handler

record cpu =
  idt :: "gate_desc list"
  idtr :: "64 word"
  idt_table :: "intr_fn list"
  intr_name :: "string list"
  gdt :: "addr \<Rightarrow> gdt_desc"
  gdtr :: "64 word"
  task_reg :: u16
  the_tss :: tss
  port_writes :: "(u16 \<times> u8) list"

definition IDT_DESC_CNT :: nat where "IDT_DESC_CNT = 0x81"

definition outb :: "u16 \<Rightarrow> u8 \<Rightarrow> cpu \<Rightarrow> cpu" where
  "outb p d c = c\<lparr>port_writes := port_writes c @ [(p, d)]\<rparr>"

section \<open>Segment and gate descriptors\<close>

definition SELECTOR_K_CODE :: u16 where "SELECTOR_K_CODE = 8"
definition SELECTOR_K_STACK :: u32 where "SELECTOR_K_STACK = 16"
definition SELECTOR_TSS :: u16 where "SELECTOR_TSS = 32"
definition IDT_DESC_ATTR_DPL0 :: u8 where "IDT_DESC_ATTR_DPL0 = 0x8e"
definition IDT_DESC_ATTR_DPL3 :: u8 where "IDT_DESC_ATTR_DPL3 = 0xee"
definition TSS_ATTR_LOW :: u8 where "TSS_ATTR_LOW = 0x89"
definition TSS_ATTR_HIGH :: u8 where "TSS_ATTR_HIGH = 0x80"
definition GDT_ATTR_HIGH :: u8 where "GDT_ATTR_HIGH = 0xc0"
definition GDT_CODE_ATTR_LOW_DPL3 :: u8 where "GDT_CODE_ATTR_LOW_DPL3 = 0xf8"
definition GDT_DATA_ATTR_LOW_DPL3 :: u8 where "GDT_DATA_ATTR_LOW_DPL3 = 0xf2"

definition make_gdt_desc :: "u32 \<Rightarrow> u32 \<Rightarrow> u8 \<Rightarrow> u8 \<Rightarrow> gdt_desc" where
  "make_gdt_desc desc_base limit attr_low attr_high = \<lparr>
     limit_low_word = ucast (limit AND 0x0000ffff),
     base_low_word = ucast (desc_base AND 0x0000ffff),
     base_mid_byte = ucast (drop_bit 16 (desc_base AND 0x00ff0000)),
     attr_low_byte = attr_low,
     limit_high_attr_high = ucast (drop_bit 16 (limit AND 0x000f0000) + ucast attr_high),
     base_high_byte = ucast (drop_bit 24 desc_base)\<rparr>"

definition make_idt_desc :: "u8 \<Rightarrow> u32 \<Rightarrow> gate_desc" where
  "make_idt_desc attr func = \<lparr>func_offset_low_word = ucast (func AND 0x0000FFFF), selector = SELECTOR_K_CODE, dcount = 0,
     gate_attribute = attr, func_offset_high_word = ucast (drop_bit 16 (func AND 0xFFFF0000))\<rparr>"

section \<open>The interrupt table\<close>

definition pic_init :: "cpu \<Rightarrow> cpu" where
  "pic_init c = fold (\<lambda>(p, d). outb p d)
     [(0x20, 0x11), (0x21, 0x20), (0x21, 0x04), (0x21, 0x01),
      (0xa0, 0x11), (0xa1, 0x28), (0xa1, 0x02), (0xa1, 0x01),
      (0x21, 0xf8), (0xa1, 0xbf)] c"

text \<open>\<open>entry i\<close> is what the code reads as \<^verbatim>\<open>intr_entry_table[i]\<close>; the table of src/kernel/kernel.asm has only 0x30 entries.\<close>

definition idt_desc_init :: "(nat \<Rightarrow> u32) \<Rightarrow> u32 \<Rightarrow> cpu \<Rightarrow> cpu" where
  "idt_desc_init entry syscall_handler c =
     (let t = map (\<lambda>i. make_idt_desc IDT_DESC_ATTR_DPL0 (entry i)) [0..<IDT_DESC_CNT]
      in c\<lparr>idt := t[IDT_DESC_CNT - 1 := make_idt_desc IDT_DESC_ATTR_DPL3 syscall_handler]\<rparr>)"

text \<open>The default handler ignores two spurious interrupts and otherwise shows a message (\<open>exception_report\<close> in Display) and stops.\<close>

definition general_intr_handler :: "u8 \<Rightarrow> cpu \<Rightarrow> cpu option" where
  "general_intr_handler vec_nr c = (if vec_nr = 0x27 \<or> vec_nr = 0x2f then Some c else None)"

definition exception_names :: "(nat \<times> string) list" where
  "exception_names =
    [(0, ''#DE Divide Error''), (1, ''#DB Debug Exception''), (2, ''NMI Interrupt''), (3, ''#BP Breakpoint Exception''),
     (4, ''#OF Overflow Exception''), (5, ''#BR BOUND Range Exceeded Exception''), (6, ''#UD Invalid Opcode Exception''),
     (7, ''#NM Device Not Available Exception''), (8, ''#DF Double Fault Exception''), (9, ''Coprocessor Segment Overrun''),
     (10, ''#TS Invalid TSS Exception''), (11, ''#NP Segment Not Present''), (12, ''#SS Stack Fault Exception''),
     (13, ''#GP General Protection Exception''), (14, ''#PF Page-Fault Exception''),
     (16, ''#MF x87 FPU Floating-Point Error''), (17, ''#AC Alignment Check Exception''), (18, ''#MC Machine-Check Exception''),
     (19, ''#XF SIMD Floating-Point Exception'')]"

definition exception_init :: "cpu \<Rightarrow> cpu" where
  "exception_init c = c\<lparr>idt_table := replicate IDT_DESC_CNT General_intr_handler,
     intr_name := fold (\<lambda>(i, n) t. t[i := n]) exception_names (replicate IDT_DESC_CNT ''unknown'')\<rparr>"

definition register_handler :: "u8 \<Rightarrow> intr_fn \<Rightarrow> cpu \<Rightarrow> cpu option" where
  "register_handler vector_no func c = do {
     t \<leftarrow> wr (idt_table c) (unat vector_no) func;
     Some (c\<lparr>idt_table := t\<rparr>)
   }"

definition idt_init :: "(nat \<Rightarrow> u32) \<Rightarrow> u32 \<Rightarrow> u32 \<Rightarrow> cpu \<Rightarrow> cpu" where
  "idt_init entry syscall_handler idt_addr c =
     (pic_init (exception_init (idt_desc_init entry syscall_handler c)))
       \<lparr>idtr := (of_nat (8 * IDT_DESC_CNT) - 1) OR push_bit 16 (ucast idt_addr)\<rparr>"

section \<open>The task state segment\<close>

definition sizeof_tss :: u32 where "sizeof_tss = 108"

definition zero_tss :: tss where
  "zero_tss = \<lparr>backlink = 0, esp0 = 0, ss0 = 0, esp1 = 0, ss1 = 0, esp2 = 0, ss2 = 0, tss_cr3 = 0, tss_eip = 0, tss_eflags = 0,
     tss_eax = 0, tss_ecx = 0, tss_edx = 0, tss_ebx = 0, tss_esp = 0, tss_ebp = 0, tss_esi = 0, tss_edi = 0,
     tss_es = 0, tss_cs = 0, tss_ss = 0, tss_ds = 0, tss_fs = 0, tss_gs = 0, tss_ldt = 0, tss_trace = 0, io_base = 0\<rparr>"

definition tss_init :: "u32 \<Rightarrow> cpu \<Rightarrow> cpu" where
  "tss_init tss_addr c =
     (let c1 = c\<lparr>the_tss := zero_tss\<lparr>ss0 := SELECTOR_K_STACK, io_base := sizeof_tss\<rparr>\<rparr>;
          c2 = c1\<lparr>gdt := (gdt c1)
            (0xc0000920 := make_gdt_desc tss_addr (sizeof_tss - 1) TSS_ATTR_LOW TSS_ATTR_HIGH,
             0xc0000928 := make_gdt_desc 0 0xfffff GDT_CODE_ATTR_LOW_DPL3 GDT_ATTR_HIGH,
             0xc0000930 := make_gdt_desc 0 0xfffff GDT_DATA_ATTR_LOW_DPL3 GDT_ATTR_HIGH)\<rparr>
      in c2\<lparr>gdtr := (8 * 7 - 1) OR push_bit 16 0xc0000900, task_reg := SELECTOR_TSS\<rparr>)"

section \<open>The timer\<close>

definition COUNTER0_VALUE :: u16 where "COUNTER0_VALUE = of_nat (1193180 div 100)"

text \<open>In the third write the cast binds tighter than the shift: a byte is shifted by eight.\<close>

definition frequency_set :: "u16 \<Rightarrow> u8 \<Rightarrow> u8 \<Rightarrow> u8 \<Rightarrow> u16 \<Rightarrow> cpu \<Rightarrow> cpu" where
  "frequency_set counter_port counter_no rwl counter_mode counter_value c =
     (let c1 = outb 0x43 (ucast (push_bit 6 (ucast counter_no :: u32) OR push_bit 4 (ucast rwl) OR push_bit 1 (ucast counter_mode))) c;
          c2 = outb counter_port (ucast counter_value) c1
      in outb counter_port (ucast (drop_bit 8 (ucast (ucast counter_value :: u8) :: u32))) c2)"

definition timer_init :: "cpu \<Rightarrow> cpu option" where
  "timer_init c = register_handler 0x20 Intr_timer_handler (frequency_set 0x40 0 3 2 COUNTER0_VALUE c)"

text \<open>
  One turn of the loop of \<^verbatim>\<open>ticks_to_sleep\<close>: \<open>True\<close> when the time is over, otherwise the thread has yielded and will look again.
\<close>

definition ticks_to_sleep :: "u32 \<Rightarrow> u32 \<Rightarrow> 'a kstate_scheme \<Rightarrow> (bool \<times> 'a kstate_scheme) option" where
  "ticks_to_sleep start_tick sleep_ticks s =
     (if timer_ticks s - start_tick < sleep_ticks then do { s1 \<leftarrow> thread_yield s; Some (False, s1) } else Some (True, s))"

definition mtime_sleep :: "u32 \<Rightarrow> 'a kstate_scheme \<Rightarrow> (bool \<times> 'a kstate_scheme) option" where
  "mtime_sleep m_seconds s = do {
     let sleep_ticks = (m_seconds + 10 - 1) div 10;
     ASSERT (sleep_ticks > 0);
     ticks_to_sleep (timer_ticks s) sleep_ticks s
   }"

section \<open>What the processor reads\<close>

text \<open>Base, limit and privilege level of a segment descriptor, and the offset of a gate, put together the way the processor does.\<close>

definition desc_base :: "gdt_desc \<Rightarrow> u32" where
  "desc_base d = ucast (base_low_word d) OR push_bit 16 (ucast (base_mid_byte d)) OR push_bit 24 (ucast (base_high_byte d))"

definition desc_limit :: "gdt_desc \<Rightarrow> u32" where
  "desc_limit d = ucast (limit_low_word d) OR push_bit 16 (ucast (limit_high_attr_high d AND 0x0f))"

definition desc_dpl :: "gdt_desc \<Rightarrow> u8" where
  "desc_dpl d = drop_bit 5 (attr_low_byte d) AND 3"

definition gate_offset :: "gate_desc \<Rightarrow> u32" where
  "gate_offset d = ucast (func_offset_low_word d) OR push_bit 16 (ucast (func_offset_high_word d))"

definition gate_dpl :: "gate_desc \<Rightarrow> u8" where
  "gate_dpl d = drop_bit 5 (gate_attribute d) AND 3"

lemma masks:
  "(0xffff :: u32) = mask 16" "(0xffff0000 :: u32) = push_bit 16 (mask 16)" "(0xff0000 :: u32) = push_bit 16 (mask 8)"
  "(0xf0000 :: u32) = push_bit 16 (mask 4)" "(0x0f :: u8) = mask 4"
  by (simp_all add: mask_eq_exp_minus_1)

lemma gate_offset_make: "gate_offset (make_idt_desc attr f) = f"
  by (rule bit_word_eqI) (auto simp: gate_offset_def make_idt_desc_def masks bit_simps)

lemma desc_base_make: "desc_base (make_gdt_desc b l lo hi) = b"
proof (rule bit_word_eqI)
  fix n :: nat
  assume n: "n < LENGTH(32)"
  show "bit (desc_base (make_gdt_desc b l lo hi)) n = bit b n"
  proof (cases "n < 24")
    case True
    then have "n - 16 < 8"
      by simp
    with True show ?thesis
      using n by (cases "n < 16") (simp_all add: desc_base_def make_gdt_desc_def masks bit_simps)
  next
    case False
    then have "n - 24 < 8" "\<not> n - 16 < 8"
      using n by auto
    with False show ?thesis
      using n by (simp add: desc_base_def make_gdt_desc_def masks bit_simps)
  qed
qed

lemma low_nibble:
  assumes "hi AND 0x0f = 0" and "n < 4"
  shows "\<not> bit (hi :: u8) n"
proof -
  have "\<not> bit (hi AND 0x0f) n"
    using assms(1) by simp
  then show ?thesis
    using assms(2) by (simp add: masks bit_simps)
qed

lemma limit_high:
  fixes l :: u32 and hi :: u8
  assumes "hi AND 0x0f = 0"
  shows "(ucast (drop_bit 16 (l AND 0xf0000) + ucast hi) :: u8) = ucast (drop_bit 16 (l AND 0xf0000)) OR hi"
proof -
  note h = low_nibble [OF assms]
  have "drop_bit 16 (l AND 0xf0000) AND ucast hi = 0"
    by (rule bit_word_eqI) (use h in \<open>auto simp: masks bit_simps\<close>)
  then have "drop_bit 16 (l AND 0xf0000) + ucast hi = drop_bit 16 (l AND 0xf0000) OR ucast hi"
    by (rule disjunctive_add_eq_or)
  then show ?thesis
    by simp (rule bit_word_eqI, auto simp: bit_simps)
qed

lemma desc_limit_make:
  assumes "hi AND 0x0f = 0" and "l < 2 ^ 20"
  shows "desc_limit (make_gdt_desc b l lo hi) = l"
proof (rule bit_word_eqI)
  fix n :: nat
  assume n: "n < LENGTH(32)"
  note h = low_nibble [OF assms(1)]
  have "take_bit 20 l = l"
    using assms(2) by (simp add: word_unat_eq_iff unsigned_take_bit_eq word_less_nat_alt take_bit_nat_eq_self)
  then have "bit l n \<Longrightarrow> n < 20"
    by (metis bit_take_bit_iff)
  then show "bit (desc_limit (make_gdt_desc b l lo hi)) n = bit l n"
    using n h unfolding desc_limit_def make_gdt_desc_def gdt_desc.simps limit_high [OF assms(1)]
    by (auto simp: masks bit_simps)
qed

lemma pic_init_tables: "idt (pic_init u) = idt u" "idt_table (pic_init u) = idt_table u"
  by (simp_all add: pic_init_def outb_def)

lemma idt_init_table: "idt_table (idt_init entry sh a c) = replicate 0x81 General_intr_handler"
  by (simp add: idt_init_def pic_init_tables exception_init_def IDT_DESC_CNT_def)

section \<open>Properties\<close>

text \<open>
  The descriptors that the kernel packs into split fields denote what it was asked for: the base and the limit that the processor puts together
  again are the given ones, for limits of 20 bits and attributes that leave the low nibble of the shared byte free.
\<close>

theorem gdt_desc_round_trip:
  assumes "hi AND 0x0f = 0" and "l < 2 ^ 20"
  shows "desc_base (make_gdt_desc b l lo hi) = b \<and> desc_limit (make_gdt_desc b l lo hi) = l \<and>
    attr_low_byte (make_gdt_desc b l lo hi) = lo"
  using desc_limit_make [OF assms] by (simp add: desc_base_make) (simp add: make_gdt_desc_def)

theorem gdt_desc_round_trip_witness:
  "desc_base (make_gdt_desc 0xc0012340 0x6b TSS_ATTR_LOW TSS_ATTR_HIGH) = 0xc0012340 \<and>
    desc_limit (make_gdt_desc 0xc0012340 0x6b TSS_ATTR_LOW TSS_ATTR_HIGH) = 0x6b"
  using gdt_desc_round_trip [of TSS_ATTR_HIGH "0x6b" "0xc0012340" TSS_ATTR_LOW] by (simp add: TSS_ATTR_HIGH_def)


text \<open>The count that the chip assembles from the last two bytes written to its port.\<close>

definition pit_count :: "cpu \<Rightarrow> nat" where
  "pit_count c = (case rev (port_writes c) of (p2, hi) # (p1, lo) # _ \<Rightarrow> unat lo + 256 * unat hi | _ \<Rightarrow> 0)"

lemma byte_shifted_out: "(ucast (drop_bit 8 (ucast (x :: u8) :: u32)) :: u8) = 0"
  by (rule bit_word_eqI) (auto simp: bit_simps dest: bit_imp_le_length)

text \<open>
  The timer does not tick at the rate it is asked for: of the 16-bit count the second write should send the high byte, but the cast is applied
  before the shift and it sends zero, so that only the low byte counts, whatever the count: the counter that should divide the input clock by 11931, for
  100 interrupts a second, divides it by 155.
\<close>

theorem timer_counts_low_byte:
  "pit_count (frequency_set port no rwl mode v c) = unat v mod 256 \<and> unat COUNTER0_VALUE = 11931 \<and>
   pit_count (frequency_set 0x40 0 3 2 COUNTER0_VALUE c) = 155"
proof -
  have p: "pit_count (frequency_set port no rwl mode v c) = unat v mod 256" for port no rwl mode v
    unfolding pit_count_def frequency_set_def outb_def Let_def byte_shifted_out
    by (simp add: unsigned_ucast_eq take_bit_eq_mod)
  show ?thesis
    by (simp add: p COUNTER0_VALUE_def)
qed

end
