(* ===== verification/Display.thy ===== *)
theory Display
  imports Console Inode_Disk Interrupts
begin

text \<open>
  The text screen of the PC under \<^verbatim>\<open>put_char\<close>, \<^verbatim>\<open>cls_screen\<close> and \<^verbatim>\<open>set_cursor\<close> (src/lib/print.asm): the 32 KiB of video memory that the
  segment in \<^verbatim>\<open>gs\<close> gives access to and the cursor kept by the video chip. In the rest of the development the screen is the list of the bytes
  written to it since it was last cleared; this theory says what those bytes look like. A store outside the segment is a protection fault, \<open>None\<close>.
\<close>

section \<open>The routines\<close>

record vga =
  cursor :: u16
  video :: "u8 list"

definition gs_store :: "u16 \<Rightarrow> u8 \<Rightarrow> vga \<Rightarrow> vga option" where
  "gs_store bx v d = do {
     m \<leftarrow> wr (video d) (unat bx) v;
     Some (d\<lparr>video := m\<rparr>)
   }"

definition set_cursor :: "u16 \<Rightarrow> vga \<Rightarrow> vga" where
  "set_cursor bx d = d\<lparr>cursor := bx\<rparr>"

text \<open>The word 0x0720, a space in white on black.\<close>

definition blanks :: "nat \<Rightarrow> u8 list" where
  "blanks n = concat (replicate n [0x20, 0x07])"

definition roll_screen :: "vga \<Rightarrow> vga" where
  "roll_screen d = set_cursor 1920 (d\<lparr>video := take 3840 (drop 160 (video d)) @ blanks 80 @ drop 4000 (video d)\<rparr>)"

definition line_feed :: "u16 \<Rightarrow> vga \<Rightarrow> vga" where
  "line_feed bx d =
     (let bx1 = bx - bx mod 80 + 80
      in if sint bx1 < 2000 then set_cursor bx1 d else roll_screen d)"

text \<open>\<^verbatim>\<open>shl bx, 1\<close>, two stores, \<^verbatim>\<open>shr bx, 1\<close>; the last is the result beside the new state.\<close>

definition store_cell :: "u16 \<Rightarrow> u8 \<Rightarrow> vga \<Rightarrow> (u16 \<times> vga) option" where
  "store_cell bx ch d = do {
     let bx1 = push_bit 1 bx;
     d1 \<leftarrow> gs_store bx1 ch d;
     let bx2 = bx1 + 1;
     d2 \<leftarrow> gs_store bx2 0x07 d1;
     Some (drop_bit 1 bx2, d2)
   }"

definition put_cell :: "u8 \<Rightarrow> vga \<Rightarrow> vga option" where
  "put_cell cl d = do {
     let bx = cursor d;
     if cl = 0x0d \<or> cl = 0x0a then Some (line_feed bx d)
     else if cl = 0x08 then do {
       (bx1, d1) \<leftarrow> store_cell (bx - 1) 0x20 d;
       Some (set_cursor bx1 d1)
     } else do {
       (bx1, d1) \<leftarrow> store_cell bx cl d;
       let bx2 = bx1 + 1;
       if sint bx2 < 2000 then Some (set_cursor bx2 d1) else Some (line_feed bx2 d1)
     }
   }"

definition cls_cells :: "vga \<Rightarrow> vga" where
  "cls_cells d = set_cursor 0 (d\<lparr>video := blanks 2000 @ drop 4000 (video d)\<rparr>)"

text \<open>The loop of \<^verbatim>\<open>put_str\<close>: one \<^verbatim>\<open>put_char\<close> for each byte before the terminator.\<close>

fun show_bytes :: "u8 list \<Rightarrow> vga \<Rightarrow> vga option" where
  "show_bytes [] d = Some d"
| "show_bytes (c # cs) d = do {
     d1 \<leftarrow> put_cell c d;
     show_bytes cs d1
   }"

text \<open>
  What the default handler of interrupts shows before it stops (\<^verbatim>\<open>general_intr_handler\<close>, src/kernel/interrupt.c); \<open>cr2\<close> is the address that the
  processor left in the register of that name.
\<close>

definition exception_report :: "u8 \<Rightarrow> u32 \<Rightarrow> cpu \<Rightarrow> vga \<Rightarrow> vga option" where
  "exception_report vec_nr cr2 c d = do {
     d1 \<leftarrow> show_bytes (replicate 320 0x20) (set_cursor 0 d);
     d2 \<leftarrow> show_bytes (str_bytes ''!!!!!!!!!   excetion message begin!!!\<newline>'') (set_cursor 0 d1);
     nm \<leftarrow> rd (intr_name c) (unat vec_nr);
     d3 \<leftarrow> show_bytes (str_bytes nm) (set_cursor 88 d2);
     d4 \<leftarrow> (if vec_nr = 14 then show_bytes (str_bytes ''\<newline>page fault addr is '' @ put_int_text cr2) d3 else Some d3);
     show_bytes (str_bytes ''!!!!!!!!!   excetion message end!!!\<newline>'') d4
   }"

section \<open>A terminal\<close>

text \<open>
  The abstract machine: a position and 25 lines of 80 characters. \<open>term_put\<close> is \<open>None\<close> for a backspace at the start of the screen.
\<close>

record terminal =
  at :: nat
  chars :: "u8 list"

definition new_line :: "terminal \<Rightarrow> terminal" where
  "new_line t =
     (let p = (at t div 80 + 1) * 80
      in if p < 2000 then t\<lparr>at := p\<rparr> else \<lparr>at = 1920, chars = drop 80 (chars t) @ replicate 80 0x20\<rparr>)"

definition term_put :: "u8 \<Rightarrow> terminal \<Rightarrow> terminal option" where
  "term_put c t =
     (if c = 0x0d \<or> c = 0x0a then Some (new_line t)
      else if c = 0x08 then (if at t = 0 then None else Some \<lparr>at = at t - 1, chars = (chars t)[at t - 1 := 0x20]\<rparr>)
      else if at t + 1 < 2000 then Some \<lparr>at = at t + 1, chars = (chars t)[at t := c]\<rparr>
      else Some \<lparr>at = 1920, chars = drop 80 ((chars t)[at t := c]) @ replicate 80 0x20\<rparr>)"

fun term_show :: "u8 list \<Rightarrow> terminal \<Rightarrow> terminal option" where
  "term_show [] t = Some t"
| "term_show (c # cs) t = do {
     t1 \<leftarrow> term_put c t;
     term_show cs t1
   }"

definition terminal_of :: "vga \<Rightarrow> terminal" where
  "terminal_of d = \<lparr>at = unat (cursor d), chars = map (\<lambda>i. video d ! (2 * i)) [0..<2000]\<rparr>"

definition vga_ok :: "vga \<Rightarrow> bool" where
  "vga_ok d \<longleftrightarrow> unat (cursor d) < 2000 \<and> length (video d) = 32768"

section \<open>The cells\<close>

lemma length_blanks [simp]: "length (blanks n) = 2 * n"
  by (induction n) (simp_all add: blanks_def)

lemma nth_blanks: "i < n \<Longrightarrow> blanks n ! (2 * i) = 0x20"
proof (induction n arbitrary: i)
  case (Suc n)
  then show ?case
    by (cases i) (simp_all add: blanks_def)
qed simp

lemma nth_blanks_from: "k \<le> i \<Longrightarrow> i < k + n \<Longrightarrow> blanks n ! (2 * i - 2 * k) = 0x20"
  using nth_blanks [of "i - k" n] by (simp add: diff_mult_distrib2)

lemma sint_u16: "unat (w :: u16) < 32768 \<Longrightarrow> sint w = int (unat w)"
proof -
  assume "unat w < 32768"
  then have "uint w < 32768"
    using uint_nat [of w] by linarith
  then show ?thesis
    unfolding sint_uint using uint_ge_0 [of w] by (subst signed_take_bit_int_eq_self) (auto intro: order_trans [OF _ uint_ge_0])
qed

lemma sint_screen: "unat (w :: u16) < 32768 \<Longrightarrow> (sint w < 2000) = (unat w < 2000)"
  using sint_u16 [of w] by (metis of_nat_less_iff of_nat_numeral)

lemma store_cell_ok:
  assumes "unat bx < 2000" and "length (video d) = 32768"
  shows "store_cell bx ch d = Some (bx, d\<lparr>video := (video d)[2 * unat bx := ch, 2 * unat bx + 1 := 7]\<rparr>)"
proof -
  have u: "unat (push_bit 1 bx) = 2 * unat bx"
    using assms(1) by (simp add: unat_word_ariths push_bit_eq_mult)
  then have v: "unat (push_bit 1 bx + 1) = 2 * unat bx + 1"
    using assms(1) by (simp add: unat_word_ariths)
  then have "drop_bit 1 (push_bit 1 bx + 1) = bx"
    by (intro word_unat_eq_iff [THEN iffD2]) (simp add: unat_drop_bit_eq drop_bit_eq_div unat_div)
  then show ?thesis
    using u v assms by (simp add: store_cell_def gs_store_def Let_def)
qed

lemma mod80:
  assumes "unat (bx :: u16) \<le> 2000"
  shows "unat (bx - bx mod 80 + 80) = (unat bx div 80 + 1) * 80"
proof -
  have m: "unat (bx mod 80) = unat bx mod 80"
    by (simp add: unat_mod)
  then have "unat (bx - bx mod 80) = unat bx - unat bx mod 80"
    using unat_sub [of "bx mod 80" bx] by (simp add: word_le_nat_alt)
  then show ?thesis
    using assms by (simp add: unat_word_ariths minus_mod_eq_mult_div)
qed

lemma line_feed_refines:
  assumes "unat bx \<le> 2000" and "length (video d) = 32768"
  shows "vga_ok (line_feed bx d)" and "terminal_of (line_feed bx d) = new_line \<lparr>at = unat bx, chars = chars (terminal_of d)\<rparr>"
proof -
  let ?w = "bx - bx mod 80 + 80"
  note m = mod80 [OF assms(1)]
  have "(sint ?w < 2000) = (unat ?w < 2000)"
    using m assms(1) by (intro sint_screen) simp
  moreover have "map (\<lambda>i. (take 3840 (drop 160 (video d)) @ blanks 80 @ drop 4000 (video d)) ! (2 * i)) [0..<2000] =
      drop 80 (map (\<lambda>i. video d ! (2 * i)) [0..<2000]) @ replicate 80 0x20"
    using assms(2) by (intro nth_equalityI) (auto simp: nth_append nth_blanks_from [of 1920, simplified])
  ultimately show "vga_ok (line_feed bx d)" and "terminal_of (line_feed bx d) = new_line \<lparr>at = unat bx, chars = chars (terminal_of d)\<rparr>"
    using m assms by (simp_all add: line_feed_def Let_def vga_ok_def set_cursor_def roll_screen_def terminal_of_def new_line_def)
qed

section \<open>Properties\<close>

lemma store_cell_refines:
  assumes "unat bx < 2000" and "length (video d) = 32768"
  shows "\<exists>d1. store_cell bx ch d = Some (bx, d1) \<and> length (video d1) = 32768 \<and> chars (terminal_of d1) = (chars (terminal_of d))[unat bx := ch]"
proof -
  have "map (\<lambda>i. (video d)[2 * unat bx := ch, 2 * unat bx + 1 := 7] ! (2 * i)) [0..<2000] =
      (map (\<lambda>i. video d ! (2 * i)) [0..<2000])[unat bx := ch]"
    using assms by (intro nth_equalityI) (auto simp: nth_list_update)
  then show ?thesis
    using store_cell_ok [OF assms] assms(2) by (simp add: terminal_of_def)
qed

lemma terminal_of_cursor: "terminal_of (set_cursor bx d) = \<lparr>at = unat bx, chars = chars (terminal_of d)\<rparr>"
  and vga_ok_cursor: "vga_ok (set_cursor bx d) = (unat bx < 2000 \<and> length (video d) = 32768)"
  by (simp_all add: set_cursor_def terminal_of_def vga_ok_def)

lemma put_cell_refines:
  assumes "vga_ok d"
  shows "map_option terminal_of (put_cell c d) = term_put c (terminal_of d) \<and> (\<forall>d'. put_cell c d = Some d' \<longrightarrow> vga_ok d')"
proof -
  have b: "unat (cursor d) < 2000" and l: "length (video d) = 32768"
    using assms by (simp_all add: vga_ok_def)
  have pos: "at (terminal_of d) = unat (cursor d)" "\<lparr>at = unat (cursor d), chars = chars (terminal_of d)\<rparr> = terminal_of d"
    by (simp_all add: terminal_of_def)
  consider (newline) "c = 0x0d \<or> c = 0x0a" | (bs) "c = 8" | (other) "c \<noteq> 0x0d" "c \<noteq> 0x0a" "c \<noteq> 8"
    by blast
  then show ?thesis
  proof cases
    case newline
    then show ?thesis
      using line_feed_refines [of "cursor d" d] b l pos by (auto simp: put_cell_def term_put_def)
  next
    case bs
    show ?thesis
    proof (cases "cursor d = 0")
      case True
      then show ?thesis
        using bs l pos by (simp add: put_cell_def term_put_def store_cell_def gs_store_def Let_def wr_def)
    next
      case False
      then have u: "unat (cursor d - 1) = unat (cursor d) - 1" and p: "unat (cursor d) \<noteq> 0"
        by (simp_all add: unat_minus_one unat_eq_0)
      then have "unat (cursor d - 1) < 2000"
        using b by linarith
      then obtain d1 where "store_cell (cursor d - 1) 0x20 d = Some (cursor d - 1, d1)" "length (video d1) = 32768"
          "chars (terminal_of d1) = (chars (terminal_of d))[unat (cursor d) - 1 := 0x20]"
        using store_cell_refines [OF _ l, of "cursor d - 1" "0x20"] u by auto
      then show ?thesis
        using u p bs b pos by (auto simp: put_cell_def term_put_def terminal_of_cursor vga_ok_cursor)
    qed
  next
    case other
    obtain d1 where d1: "store_cell (cursor d) c d = Some (cursor d, d1)" "length (video d1) = 32768"
        "chars (terminal_of d1) = (chars (terminal_of d))[unat (cursor d) := c]"
      using store_cell_refines [OF b l] by blast
    have u: "unat (cursor d + 1) = unat (cursor d) + 1"
      using b by (simp add: unat_word_ariths)
    then have s: "(sint (cursor d + 1) < 2000) = (unat (cursor d) + 1 < 2000)"
      using b sint_screen [of "cursor d + 1"] by simp
    show ?thesis
      using d1 u s other b pos line_feed_refines [of "cursor d + 1" d1]
      by (auto simp: put_cell_def term_put_def terminal_of_cursor vga_ok_cursor new_line_def Let_def)
  qed
qed

lemma show_bytes_refines:
  "vga_ok d \<Longrightarrow> map_option terminal_of (show_bytes cs d) = term_show cs (terminal_of d) \<and> (\<forall>d'. show_bytes cs d = Some d' \<longrightarrow> vga_ok d')"
proof (induction cs arbitrary: d)
  case (Cons c cs)
  have p: "map_option terminal_of (put_cell c d) = term_put c (terminal_of d)" and ok: "\<And>d1. put_cell c d = Some d1 \<Longrightarrow> vga_ok d1"
    using put_cell_refines [OF Cons.prems] by auto
  show ?case
  proof (cases "put_cell c d")
    case None
    then show ?thesis
      using p by simp
  next
    case (Some d1)
    then have "term_put c (terminal_of d) = Some (terminal_of d1)"
      using p by simp
    then show ?thesis
      using Some Cons.IH [OF ok [OF Some]] by simp
  qed
qed simp

lemma show_bytes_append: "show_bytes (xs @ ys) d = Option.bind (show_bytes xs d) (show_bytes ys)"
proof (induction xs arbitrary: d)
  case (Cons c xs)
  then show ?case
    by (cases "put_cell c d") simp_all
qed simp

lemma term_show_returns: "8 \<notin> set cs \<Longrightarrow> \<exists>t'. term_show cs t = Some t'"
proof (induction cs arbitrary: t)
  case (Cons c cs)
  then have "\<exists>t1. term_put c t = Some t1"
    by (auto simp: term_put_def)
  then show ?case
    using Cons.IH Cons.prems by auto
qed simp

lemma cls_cells_ok:
  assumes "length (video d) = 32768"
  shows "vga_ok (cls_cells d)" and "terminal_of (cls_cells d) = \<lparr>at = 0, chars = replicate 2000 0x20\<rparr>"
proof -
  have "map (\<lambda>i. (blanks 2000 @ drop 4000 (video d)) ! (2 * i)) [0..<2000] = replicate 2000 0x20"
    by (intro nth_equalityI) (auto simp: nth_append nth_blanks)
  then show "vga_ok (cls_cells d)" and "terminal_of (cls_cells d) = \<lparr>at = 0, chars = replicate 2000 0x20\<rparr>"
    using assms by (simp_all add: cls_cells_def set_cursor_def vga_ok_def terminal_of_def)
qed



text \<open>
  A backspace at the start of the screen makes the cursor 65535 and the store goes past the end of the segment: the kernel takes a protection fault.
\<close>

lemma backspace_at_origin_faults: "length (video d) = 32768 \<Longrightarrow> put_cell 8 (cls_cells d) = None"
  using put_cell_refines [OF cls_cells_ok(1), of d 8] cls_cells_ok(2) [of d] by (simp add: term_put_def)

section \<open>The report of an exception\<close>

text \<open>Printable text that fits is put where the cursor is; text further on that does not reach the end of the screen leaves it there.\<close>

definition printable :: "u8 list \<Rightarrow> bool" where
  "printable cs \<longleftrightarrow> (\<forall>c\<in>set cs. c \<noteq> 8 \<and> c \<noteq> 10 \<and> c \<noteq> 13)"

lemma term_show_printable:
  "printable cs \<Longrightarrow> at t + length cs < 2000 \<Longrightarrow> length (chars t) = 2000 \<Longrightarrow>
    term_show cs t = Some \<lparr>at = at t + length cs, chars = take (at t) (chars t) @ cs @ drop (at t + length cs) (chars t)\<rparr>"
proof (induction cs arbitrary: t)
  case (Cons c cs)
  let ?t = "\<lparr>at = at t + 1, chars = (chars t)[at t := c]\<rparr>"
  have "term_put c t = Some ?t"
    using Cons.prems by (simp add: term_put_def printable_def)
  moreover have "take (at t + 1) ((chars t)[at t := c]) = take (at t) (chars t) @ [c]"
    using Cons.prems by (simp add: take_Suc_conv_app_nth)
  ultimately show ?case
    using Cons.IH [of ?t] Cons.prems by (simp add: printable_def)
qed simp

definition room :: "u8 list \<Rightarrow> nat" where
  "room cs = length cs + 80 * length (filter (\<lambda>c. c = 10 \<or> c = 13) cs)"

lemma new_line_keeps: "at t + 80 < 2000 \<Longrightarrow> new_line t = t\<lparr>at := (at t div 80 + 1) * 80\<rparr> \<and> at t \<le> (at t div 80 + 1) * 80 \<and> (at t div 80 + 1) * 80 \<le> at t + 80"
  by (auto simp: new_line_def Let_def)

lemma term_show_keeps:
  "8 \<notin> set cs \<Longrightarrow> at t + room cs < 2000 \<Longrightarrow> k \<le> at t \<Longrightarrow>
    \<exists>t'. term_show cs t = Some t' \<and> take k (chars t') = take k (chars t) \<and> at t \<le> at t' \<and> at t' \<le> at t + room cs"
proof (induction cs arbitrary: t)
  case (Cons c cs)
  then obtain t1 where "term_put c t = Some t1" "take k (chars t1) = take k (chars t)" "at t \<le> at t1" "at t1 + room cs \<le> at t + room (c # cs)"
    using new_line_keeps [of t] by (cases "c = 10 \<or> c = 13") (auto simp: term_put_def room_def)
  then show ?case
    using Cons.IH [of t1] Cons.prems by fastforce
qed (simp add: room_def)

lemma show_returns: "vga_ok d \<Longrightarrow> 8 \<notin> set cs \<Longrightarrow> \<exists>d'. show_bytes cs d = Some d' \<and> vga_ok d'"
  using show_bytes_refines [of d cs] term_show_returns [of cs "terminal_of d"] by (cases "show_bytes cs d") auto

lemma show_keeps:
  assumes "vga_ok d" and "8 \<notin> set cs" and "at (terminal_of d) + room cs < 2000" and "k \<le> at (terminal_of d)"
  obtains d' where "show_bytes cs d = Some d'" "vga_ok d'" "take k (chars (terminal_of d')) = take k (chars (terminal_of d))"
    "at (terminal_of d) \<le> at (terminal_of d')" "at (terminal_of d') \<le> at (terminal_of d) + room cs"
  using show_bytes_refines [OF assms(1), of cs] term_show_keeps [OF assms(2-4)] by (cases "show_bytes cs d") auto

lemma hex_digit_range: "48 \<le> unat (hex_digit (x AND 0xf))"
proof -
  let ?y = "x AND 0xf"
  have "unat ?y \<le> 15"
    using word_and_le1 [of x "0xf"] by (simp add: word_le_nat_alt)
  then have "unat ?y \<in> set [0..<16]" and "?y = of_nat (unat ?y)"
    by simp_all
  then have "?y \<in> of_nat ` set [0..<16]"
    by blast
  then show ?thesis
    by (auto simp: hex_digit_def upt_rec)
qed

lemma put_int_text_chars: "c \<in> set (put_int_text v) \<Longrightarrow> 48 \<le> unat c" and put_int_text_length: "length (put_int_text v) \<le> 8"
proof -
  let ?ds = "dropWhile (\<lambda>c. c = 48) (put_int_buffer v)"
  have "c \<in> set ?ds \<Longrightarrow> 48 \<le> unat c"
    using hex_digit_range by (auto simp: put_int_buffer_def dest!: set_dropWhileD)
  then show "c \<in> set (put_int_text v) \<Longrightarrow> 48 \<le> unat c"
    by (auto simp: put_int_text_def Let_def split: if_splits)
  show "length (put_int_text v) \<le> 8"
    using length_dropWhile_le [of "\<lambda>c. c = 48" "put_int_buffer v"] by (simp add: put_int_text_def put_int_buffer_def Let_def)
qed

lemma names_after_updates:
  "\<forall>x\<in>set xs. P x \<Longrightarrow> \<forall>(i, n)\<in>set us. P n \<Longrightarrow> \<forall>x\<in>set (fold (\<lambda>(i, n) t. t[i := n]) us xs). P x"
proof (induction us arbitrary: xs)
  case (Cons u us)
  obtain i n where u: "u = (i, n)"
    by fastforce
  have "\<forall>x\<in>set (xs[i := n]). P x"
    using Cons.prems u set_update_subset_insert [of xs i n] by auto
  then show ?case
    using Cons.IH Cons.prems(2) u by simp
qed simp

lemma exception_names_printable:
  "\<forall>nm\<in>set (intr_name (exception_init c)). printable (str_bytes nm) \<and> length nm \<le> 40"
  unfolding exception_init_def
  by (simp, rule names_after_updates) (simp_all add: exception_names_def printable_def str_bytes_def)

lemma report_tail:
  assumes "vga_ok d3" and "at (terminal_of d3) \<le> 200"
  shows "\<exists>d'. (if vec_nr = 14 then show_bytes (str_bytes ''\<newline>page fault addr is '' @ put_int_text cr2) d3 else Some d3) \<bind>
      show_bytes (str_bytes ''!!!!!!!!!   excetion message end!!!\<newline>'') = Some d' \<and> vga_ok d' \<and>
    take (at (terminal_of d3)) (chars (terminal_of d')) = take (at (terminal_of d3)) (chars (terminal_of d3))"
proof -
  let ?k = "at (terminal_of d3)" and ?fault = "str_bytes ''\<newline>page fault addr is '' @ put_int_text cr2"
  let ?tail = "str_bytes ''!!!!!!!!!   excetion message end!!!\<newline>''"
  have int: "filter (\<lambda>c. c = 10 \<or> c = 13) (put_int_text cr2) = []" "8 \<notin> set (put_int_text cr2)"
    using put_int_text_chars [of _ cr2] by (force simp: filter_empty_conv)+
  have f: "8 \<notin> set ?fault" "room ?fault \<le> 200"
    using int put_int_text_length [of cr2] by (simp_all add: str_bytes_def room_def)
  have e: "8 \<notin> set ?tail" "room ?tail \<le> 200"
    by (simp_all add: str_bytes_def room_def)
  obtain d4 where d4: "(if vec_nr = 14 then show_bytes ?fault d3 else Some d3) = Some d4" "vga_ok d4"
      "take ?k (chars (terminal_of d4)) = take ?k (chars (terminal_of d3))" "?k \<le> at (terminal_of d4)" "at (terminal_of d4) \<le> 400"
  proof (cases "vec_nr = 14")
    case True
    have "?k + room ?fault < 2000"
      using assms(2) f(2) by linarith
    from show_keeps [OF assms(1) f(1) this order_refl] obtain d4 where "show_bytes ?fault d3 = Some d4" "vga_ok d4"
        "take ?k (chars (terminal_of d4)) = take ?k (chars (terminal_of d3))" "?k \<le> at (terminal_of d4)" "at (terminal_of d4) \<le> ?k + room ?fault" .
    then show thesis
      using that [of d4] True assms(2) f(2) by simp
  qed (use that [of d3] assms in auto)
  have "at (terminal_of d4) + room ?tail < 2000"
    using d4(5) e(2) by linarith
  from show_keeps [OF d4(2) e(1) this d4(4)] obtain d' where "show_bytes ?tail d4 = Some d'" "vga_ok d'"
      "take ?k (chars (terminal_of d')) = take ?k (chars (terminal_of d4))" .
  then show ?thesis
    unfolding d4(1) using d4(3) by auto
qed

text \<open>Whatever is on the screen, the report of an exception appears, and the name of the exception is in the second line from column 8 on.\<close>

theorem exception_report_shown:
  assumes "vga_ok d" and "unat vec_nr < IDT_DESC_CNT"
  shows "\<exists>d' nm. exception_report vec_nr cr2 (exception_init c) d = Some d' \<and> vga_ok d' \<and>
    rd (intr_name (exception_init c)) (unat vec_nr) = Some nm \<and> take (length nm) (drop 88 (chars (terminal_of d'))) = str_bytes nm"
proof -
  have at: "vga_ok (set_cursor n e)" if "vga_ok e" and "unat n < 2000" for n e
    using that by (simp add: vga_ok_def set_cursor_def)
  obtain d1 where d1: "show_bytes (replicate 320 0x20) (set_cursor 0 d) = Some d1" "vga_ok d1"
    using show_returns [OF at [OF assms(1)], of 0 "replicate 320 0x20"] by auto
  obtain d2 where d2: "show_bytes (str_bytes ''!!!!!!!!!   excetion message begin!!!\<newline>'') (set_cursor 0 d1) = Some d2" "vga_ok d2"
    using show_returns [OF at [OF d1(2)], of 0 "str_bytes ''!!!!!!!!!   excetion message begin!!!\<newline>''"] by (auto simp: str_bytes_def)
  define nm where "nm = intr_name (exception_init c) ! unat vec_nr"
  have "length (fold (\<lambda>(i, n) t. t[i := n]) us xs) = length xs" for us and xs :: "string list"
    by (induction us arbitrary: xs) auto
  then have "unat vec_nr < length (intr_name (exception_init c))"
    using assms(2) by (simp add: exception_init_def)
  then have nm: "rd (intr_name (exception_init c)) (unat vec_nr) = Some nm" "printable (str_bytes nm)" "length (str_bytes nm) \<le> 40"
    using exception_names_printable [of c] by (auto simp: nm_def rd_def str_bytes_def)
  let ?t2 = "terminal_of (set_cursor 88 d2)" and ?n = "length (str_bytes nm)"
  have t2: "at ?t2 = 88" "length (chars ?t2) = 2000"
    by (simp_all add: terminal_of_def set_cursor_def)
  have no8: "8 \<notin> set (str_bytes nm)"
    using nm(2) by (auto simp: printable_def)
  obtain d3 where d3: "show_bytes (str_bytes nm) (set_cursor 88 d2) = Some d3" "vga_ok d3" "at (terminal_of d3) = 88 + ?n"
      "take (88 + ?n) (chars (terminal_of d3)) = take 88 (chars ?t2) @ str_bytes nm"
    using show_returns [OF at [OF d2(2)] no8, of 88] show_bytes_refines [OF at [OF d2(2)], of 88 "str_bytes nm"]
      term_show_printable [OF nm(2), of ?t2] t2 nm(3) by auto
  obtain d' where "(if vec_nr = 14 then show_bytes (str_bytes ''\<newline>page fault addr is '' @ put_int_text cr2) d3 else Some d3) \<bind>
      show_bytes (str_bytes ''!!!!!!!!!   excetion message end!!!\<newline>'') = Some d'" "vga_ok d'"
      "take (88 + ?n) (chars (terminal_of d')) = take (88 + ?n) (chars (terminal_of d3))"
    using report_tail [OF d3(2), of vec_nr cr2] d3(3) nm(3) by auto
  moreover have "take (length nm) (drop 88 cs) = drop 88 (take (88 + ?n) cs)" for cs :: "u8 list"
    by (simp add: drop_take str_bytes_def)
  ultimately show ?thesis
    using d1 d2 nm(1) d3(1,4) t2(2) by (simp add: exception_report_def)
qed

end
