(* ===== verification/Syscalls.thy ===== *)
theory Syscalls
  imports Thread
begin

text \<open>
  The way of a system call from the user's stub to the kernel routine: src/user/syscall.c (the stubs), src/user/syscall_init.c (the table) and the
  handler of interrupt 0x80 in src/kernel/kernel.asm. A stub leaves the number and the arguments in registers; registers it does not
  name keep their values. The routines themselves are in the theories of their components; here they are names.
\<close>

section \<open>Numbers and the table\<close>

datatype SYSCALL_NR = SYS_GETPID | SYS_WRITE | SYS_MALLOC | SYS_FREE | SYS_FORK | SYS_READ | SYS_PUTCHAR | SYS_CLEAR | SYS_GETCWD | SYS_OPEN
  | SYS_CLOSE | SYS_LSEEK | SYS_UNLINK | SYS_MKDIR | SYS_OPENDIR | SYS_CLOSEDIR | SYS_CHDIR | SYS_RMDIR | SYS_READDIR | SYS_REWINDDIR |
  SYS_STAT | SYS_PS | SYS_EXECV | SYS_EXIT | SYS_WAIT

datatype sys_fn = Sys_getpid | Sys_write | Sys_malloc | Sys_free | Sys_fork | Sys_read | Sys_putchar | Cls_screen | Sys_getcwd | Sys_open |
  Sys_close | Sys_lseek | Sys_unlink | Sys_mkdir | Sys_opendir | Sys_closedir | Sys_chdir | Sys_rmdir | Sys_readdir | Sys_rewinddir |
  Sys_stat | Sys_ps | Sys_execv | Sys_exit | Sys_wait

text \<open>The values of the enumeration.\<close>

primrec syscall_no :: "SYSCALL_NR \<Rightarrow> nat" where
  "syscall_no SYS_GETPID = 0"
| "syscall_no SYS_WRITE = 1"
| "syscall_no SYS_MALLOC = 2"
| "syscall_no SYS_FREE = 3"
| "syscall_no SYS_FORK = 4"
| "syscall_no SYS_READ = 5"
| "syscall_no SYS_PUTCHAR = 6"
| "syscall_no SYS_CLEAR = 7"
| "syscall_no SYS_GETCWD = 8"
| "syscall_no SYS_OPEN = 9"
| "syscall_no SYS_CLOSE = 10"
| "syscall_no SYS_LSEEK = 11"
| "syscall_no SYS_UNLINK = 12"
| "syscall_no SYS_MKDIR = 13"
| "syscall_no SYS_OPENDIR = 14"
| "syscall_no SYS_CLOSEDIR = 15"
| "syscall_no SYS_CHDIR = 16"
| "syscall_no SYS_RMDIR = 17"
| "syscall_no SYS_READDIR = 18"
| "syscall_no SYS_REWINDDIR = 19"
| "syscall_no SYS_STAT = 20"
| "syscall_no SYS_PS = 21"
| "syscall_no SYS_EXECV = 22"
| "syscall_no SYS_EXIT = 23"
| "syscall_no SYS_WAIT = 24"

definition syscall_nr :: nat where "syscall_nr = 32"

text \<open>\<open>None\<close> is the null pointer.\<close>

type_synonym syscall_table = "sys_fn option list"

definition set_syscall :: "SYSCALL_NR \<Rightarrow> sys_fn \<Rightarrow> syscall_table \<Rightarrow> syscall_table option" where
  "set_syscall n f t = wr t (syscall_no n) (Some f)"

definition syscall_init :: "syscall_table \<Rightarrow> syscall_table option" where
  "syscall_init t = do {
     t1 \<leftarrow> set_syscall SYS_GETPID Sys_getpid t;
     t2 \<leftarrow> set_syscall SYS_WRITE Sys_write t1;
     t3 \<leftarrow> set_syscall SYS_MALLOC Sys_malloc t2;
     t4 \<leftarrow> set_syscall SYS_FREE Sys_free t3;
     t5 \<leftarrow> set_syscall SYS_FORK Sys_fork t4;
     t6 \<leftarrow> set_syscall SYS_READ Sys_read t5;
     t7 \<leftarrow> set_syscall SYS_PUTCHAR Sys_putchar t6;
     t8 \<leftarrow> set_syscall SYS_CLEAR Cls_screen t7;
     t9 \<leftarrow> set_syscall SYS_GETCWD Sys_getcwd t8;
     t10 \<leftarrow> set_syscall SYS_OPEN Sys_open t9;
     t11 \<leftarrow> set_syscall SYS_CLOSE Sys_close t10;
     t12 \<leftarrow> set_syscall SYS_LSEEK Sys_lseek t11;
     t13 \<leftarrow> set_syscall SYS_UNLINK Sys_unlink t12;
     t14 \<leftarrow> set_syscall SYS_MKDIR Sys_mkdir t13;
     t15 \<leftarrow> set_syscall SYS_OPENDIR Sys_opendir t14;
     t16 \<leftarrow> set_syscall SYS_CLOSEDIR Sys_closedir t15;
     t17 \<leftarrow> set_syscall SYS_CHDIR Sys_chdir t16;
     t18 \<leftarrow> set_syscall SYS_RMDIR Sys_rmdir t17;
     t19 \<leftarrow> set_syscall SYS_READDIR Sys_readdir t18;
     t20 \<leftarrow> set_syscall SYS_REWINDDIR Sys_rewinddir t19;
     t21 \<leftarrow> set_syscall SYS_STAT Sys_stat t20;
     t22 \<leftarrow> set_syscall SYS_PS Sys_ps t21;
     t23 \<leftarrow> set_syscall SYS_EXECV Sys_execv t22;
     t24 \<leftarrow> set_syscall SYS_EXIT Sys_exit t23;
     set_syscall SYS_WAIT Sys_wait t24
   }"

definition sys_getpid :: "'a kstate_scheme \<Rightarrow> u32" where
  "sys_getpid s = of_int (pid (tasks s (running_thread s)))"

section \<open>The stubs\<close>

record user_regs =
  eax :: u32
  ebx :: u32
  ecx :: u32
  edx :: u32

definition syscall0 :: "SYSCALL_NR \<Rightarrow> user_regs \<Rightarrow> user_regs" where
  "syscall0 n r = r\<lparr>eax := of_nat (syscall_no n)\<rparr>"

definition syscall1 :: "SYSCALL_NR \<Rightarrow> u32 \<Rightarrow> user_regs \<Rightarrow> user_regs" where
  "syscall1 n arg1 r = r\<lparr>eax := of_nat (syscall_no n), ebx := arg1\<rparr>"

definition syscall2 :: "SYSCALL_NR \<Rightarrow> u32 \<Rightarrow> u32 \<Rightarrow> user_regs \<Rightarrow> user_regs" where
  "syscall2 n arg1 arg2 r = r\<lparr>eax := of_nat (syscall_no n), ebx := arg1, ecx := arg2\<rparr>"

definition syscall3 :: "SYSCALL_NR \<Rightarrow> u32 \<Rightarrow> u32 \<Rightarrow> u32 \<Rightarrow> user_regs \<Rightarrow> user_regs" where
  "syscall3 n arg1 arg2 arg3 r = r\<lparr>eax := of_nat (syscall_no n), ebx := arg1, ecx := arg2, edx := arg3\<rparr>"

definition getpid :: "user_regs \<Rightarrow> user_regs" where
  "getpid = syscall0 SYS_GETPID"

definition write_call :: "u32 \<Rightarrow> u32 \<Rightarrow> u32 \<Rightarrow> user_regs \<Rightarrow> user_regs" where
  "write_call fd bf cnt = syscall3 SYS_WRITE fd bf cnt"

definition malloc_call :: "u32 \<Rightarrow> user_regs \<Rightarrow> user_regs" where
  "malloc_call sz = syscall1 SYS_MALLOC sz"

definition free_call :: "u32 \<Rightarrow> user_regs \<Rightarrow> user_regs" where
  "free_call ptr = syscall1 SYS_FREE ptr"

definition fork_call :: "user_regs \<Rightarrow> user_regs" where
  "fork_call = syscall0 SYS_FORK"

definition read_call :: "u32 \<Rightarrow> u32 \<Rightarrow> u32 \<Rightarrow> user_regs \<Rightarrow> user_regs" where
  "read_call fd bf cnt = syscall3 SYS_READ fd bf cnt"

definition putchar_call :: "u32 \<Rightarrow> user_regs \<Rightarrow> user_regs" where
  "putchar_call ch = syscall1 SYS_PUTCHAR ch"

definition clear_call :: "user_regs \<Rightarrow> user_regs" where
  "clear_call = syscall0 SYS_CLEAR"

definition getcwd_call :: "u32 \<Rightarrow> u32 \<Rightarrow> user_regs \<Rightarrow> user_regs" where
  "getcwd_call bf sz = syscall2 SYS_GETCWD bf sz"

definition open_call :: "u32 \<Rightarrow> u32 \<Rightarrow> user_regs \<Rightarrow> user_regs" where
  "open_call path flag = syscall2 SYS_OPEN path flag"

definition close_call :: "u32 \<Rightarrow> user_regs \<Rightarrow> user_regs" where
  "close_call fd = syscall1 SYS_CLOSE fd"

definition lseek_call :: "u32 \<Rightarrow> u32 \<Rightarrow> u32 \<Rightarrow> user_regs \<Rightarrow> user_regs" where
  "lseek_call fd off whence = syscall3 SYS_LSEEK fd off whence"

definition unlink_call :: "u32 \<Rightarrow> user_regs \<Rightarrow> user_regs" where
  "unlink_call path = syscall1 SYS_UNLINK path"

definition mkdir_call :: "u32 \<Rightarrow> user_regs \<Rightarrow> user_regs" where
  "mkdir_call path = syscall1 SYS_MKDIR path"

definition opendir_call :: "u32 \<Rightarrow> user_regs \<Rightarrow> user_regs" where
  "opendir_call path = syscall1 SYS_OPENDIR path"

definition closedir_call :: "u32 \<Rightarrow> user_regs \<Rightarrow> user_regs" where
  "closedir_call d = syscall1 SYS_CLOSEDIR d"

definition chdir_call :: "u32 \<Rightarrow> user_regs \<Rightarrow> user_regs" where
  "chdir_call path = syscall1 SYS_CHDIR path"

definition rmdir_call :: "u32 \<Rightarrow> user_regs \<Rightarrow> user_regs" where
  "rmdir_call path = syscall1 SYS_RMDIR path"

definition readdir_call :: "u32 \<Rightarrow> user_regs \<Rightarrow> user_regs" where
  "readdir_call d = syscall1 SYS_READDIR d"

definition rewinddir_call :: "u32 \<Rightarrow> user_regs \<Rightarrow> user_regs" where
  "rewinddir_call d = syscall1 SYS_REWINDDIR d"

definition stat_call :: "u32 \<Rightarrow> u32 \<Rightarrow> user_regs \<Rightarrow> user_regs" where
  "stat_call path bf = syscall2 SYS_STAT path bf"

definition ps_call :: "user_regs \<Rightarrow> user_regs" where
  "ps_call = syscall0 SYS_PS"

definition execv_call :: "u32 \<Rightarrow> u32 \<Rightarrow> user_regs \<Rightarrow> user_regs" where
  "execv_call path argv = syscall2 SYS_EXECV path argv"

definition exit_call :: "u32 \<Rightarrow> user_regs \<Rightarrow> user_regs" where
  "exit_call st = syscall1 SYS_EXIT st"

definition wait_call :: "u32 \<Rightarrow> user_regs \<Rightarrow> user_regs" where
  "wait_call st = syscall1 SYS_WAIT st"

section \<open>The handler of interrupt 0x80\<close>

text \<open>
  The handler pushes \<^verbatim>\<open>edx\<close>, \<^verbatim>\<open>ecx\<close> and \<^verbatim>\<open>ebx\<close> and calls the table entry that \<^verbatim>\<open>eax\<close> selects: the routine called and its
  arguments, first to last. There is no test of the number; an entry past the table or a null pointer is \<open>None\<close>.
\<close>

definition syscall_handler :: "syscall_table \<Rightarrow> user_regs \<Rightarrow> (sys_fn \<times> u32 \<times> u32 \<times> u32) option" where
  "syscall_handler t r = do {
     e \<leftarrow> rd t (unat (eax r));
     f \<leftarrow> e;
     Some (f, ebx r, ecx r, edx r)
   }"

lemmas syscall_stubs = syscall0_def syscall1_def syscall2_def syscall3_def getpid_def write_call_def malloc_call_def free_call_def fork_call_def read_call_def
  putchar_call_def clear_call_def getcwd_call_def open_call_def close_call_def lseek_call_def unlink_call_def mkdir_call_def opendir_call_def
  closedir_call_def chdir_call_def rmdir_call_def readdir_call_def rewinddir_call_def stat_call_def ps_call_def execv_call_def exit_call_def
  wait_call_def

text \<open>The table that \<^verbatim>\<open>syscall_init\<close> leaves in the cleared memory of the kernel.\<close>

definition full_table :: syscall_table where
  "full_table = map Some [Sys_getpid, Sys_write, Sys_malloc, Sys_free, Sys_fork, Sys_read, Sys_putchar, Cls_screen, Sys_getcwd, Sys_open, Sys_close,
    Sys_lseek, Sys_unlink, Sys_mkdir, Sys_opendir, Sys_closedir, Sys_chdir, Sys_rmdir, Sys_readdir, Sys_rewinddir, Sys_stat, Sys_ps,
    Sys_execv, Sys_exit, Sys_wait]
     @ replicate 7 None"

lemma syscall_init_table: "syscall_init (replicate 32 None) = Some full_table"
  by (simp add: syscall_init_def set_syscall_def wr_def full_table_def eval_nat_numeral)

text \<open>
  C26. Every system call reaches the routine of its name with its arguments in order: with the table that \<^verbatim>\<open>syscall_init\<close> fills, the handler of
  interrupt 0x80 calls, for the registers that a stub sets, the kernel routine that belongs to the stub.
\<close>

theorem syscall_dispatch:
  "\<exists>t. syscall_init (replicate syscall_nr None) = Some t \<and> length t = syscall_nr \<and>
    syscall_handler t (getpid r) = Some (Sys_getpid, ebx r, ecx r, edx r) \<and>
    syscall_handler t (write_call fd bf cnt r) = Some (Sys_write, fd, bf, cnt) \<and>
    syscall_handler t (malloc_call sz r) = Some (Sys_malloc, sz, ecx r, edx r) \<and>
    syscall_handler t (free_call ptr r) = Some (Sys_free, ptr, ecx r, edx r) \<and>
    syscall_handler t (fork_call r) = Some (Sys_fork, ebx r, ecx r, edx r) \<and>
    syscall_handler t (read_call fd bf cnt r) = Some (Sys_read, fd, bf, cnt) \<and>
    syscall_handler t (putchar_call ch r) = Some (Sys_putchar, ch, ecx r, edx r) \<and>
    syscall_handler t (clear_call r) = Some (Cls_screen, ebx r, ecx r, edx r) \<and>
    syscall_handler t (getcwd_call bf sz r) = Some (Sys_getcwd, bf, sz, edx r) \<and>
    syscall_handler t (open_call path flag r) = Some (Sys_open, path, flag, edx r) \<and>
    syscall_handler t (close_call fd r) = Some (Sys_close, fd, ecx r, edx r) \<and>
    syscall_handler t (lseek_call fd off whence r) = Some (Sys_lseek, fd, off, whence) \<and>
    syscall_handler t (unlink_call path r) = Some (Sys_unlink, path, ecx r, edx r) \<and>
    syscall_handler t (mkdir_call path r) = Some (Sys_mkdir, path, ecx r, edx r) \<and>
    syscall_handler t (opendir_call path r) = Some (Sys_opendir, path, ecx r, edx r) \<and>
    syscall_handler t (closedir_call d r) = Some (Sys_closedir, d, ecx r, edx r) \<and>
    syscall_handler t (chdir_call path r) = Some (Sys_chdir, path, ecx r, edx r) \<and>
    syscall_handler t (rmdir_call path r) = Some (Sys_rmdir, path, ecx r, edx r) \<and>
    syscall_handler t (readdir_call d r) = Some (Sys_readdir, d, ecx r, edx r) \<and>
    syscall_handler t (rewinddir_call d r) = Some (Sys_rewinddir, d, ecx r, edx r) \<and>
    syscall_handler t (stat_call path bf r) = Some (Sys_stat, path, bf, edx r) \<and>
    syscall_handler t (ps_call r) = Some (Sys_ps, ebx r, ecx r, edx r) \<and>
    syscall_handler t (execv_call path argv r) = Some (Sys_execv, path, argv, edx r) \<and>
    syscall_handler t (exit_call st r) = Some (Sys_exit, st, ecx r, edx r) \<and>
    syscall_handler t (wait_call st r) = Some (Sys_wait, st, ecx r, edx r)"
proof -
  have "length full_table = 32"
    by (simp add: full_table_def)
  then show ?thesis
    unfolding syscall_nr_def syscall_init_table
    by (intro exI [of _ full_table] conjI; simp add: syscall_handler_def syscall_stubs full_table_def rd_def)
qed

end
