(* ===== verification/Boot.thy ===== *)
theory Boot
  imports Keyboard Shell Interrupts Syscalls
begin

text \<open>
  Bringing the system up: \<^verbatim>\<open>ide_init\<close> (src/device/ide.c), \<^verbatim>\<open>init_all\<close> (src/kernel/init.c) and \<^verbatim>\<open>main\<close> with the first process
  (src/main/main.c). The progress messages that the routines called by \<^verbatim>\<open>init_all\<close> write before the file system exists are left out, those of
  \<^verbatim>\<open>ide_init\<close>, \<^verbatim>\<open>init_all\<close> and \<^verbatim>\<open>main\<close> themselves are modelled.
\<close>

section \<open>The disks\<close>

text \<open>The messages of \<^verbatim>\<open>identify_disk\<close> on what it found; the capacity is computed in 32 bits.\<close>

definition identify_report :: "disk \<Rightarrow> u8 list \<times> u8 list \<times> u32 \<Rightarrow> 'a fstate_scheme \<Rightarrow> 'a fstate_scheme option" where
  "identify_report hdd info s = do {
     let (sn, md, sectors) = info;
     s1 \<leftarrow> printk (msg ''   disk %s info:\<newline>      SN: %s\<newline>'') [AStr (disk_name hdd), AStr sn] s;
     s2 \<leftarrow> printk (msg ''      MODULE: %s\<newline>'') [AStr md] s1;
     s3 \<leftarrow> printk (msg ''      SECTORS: %d\<newline>'') [AInt sectors] s2;
     printk (msg ''      CAPACITY: %dMB\<newline>'') [AInt (sectors * 512 div 1024 div 1024)] s3
   }"

definition init_device :: "nat \<Rightarrow> u8 \<Rightarrow> u8 list \<Rightarrow> 'a fstate_scheme \<Rightarrow> 'a fstate_scheme option" where
  "init_device ch dev junk s = do {
     let hd0 = (devices s ch dev)\<lparr>my_channel := ch, dev_no := dev\<rparr>;
     (_, nm) \<leftarrow> sprintf (disk_name hd0) (msg ''sd%c'') [AInt (97 + of_nat ch * 2 + ucast dev)];
     let hdd = hd0\<lparr>disk_name := nm\<rparr>;
     let s1 = s\<lparr>devices := (devices s)(ch := (devices s ch)(dev := hdd))\<rparr>;
     (info, s1') \<leftarrow> identify_disk hdd junk s1;
     s2 \<leftarrow> identify_report hdd info s1';
     s3 \<leftarrow> (if dev \<noteq> 0 then partition_scan hdd 0 s2 else Some s2);
     Some (s3\<lparr>p_no := 0, l_no := 0\<rparr>)
   }"

definition init_channel :: "nat \<Rightarrow> u8 list \<Rightarrow> 'a fstate_scheme \<times> cpu \<Rightarrow> ('a fstate_scheme \<times> cpu) option" where
  "init_channel ch junk sc = do {
     let (s, c) = sc;
     ASSERT (ch < 2);
     let chan0 = channels s ch;
     (_, nm) \<leftarrow> sprintf (ch_name chan0) (msg ''ide%d'') [AInt (of_nat ch)];
     let (port, irq) = (if ch = 0 then (0x1f0, 0x20 + 14) else (0x170, 0x20 + 15));
     let chan = chan0\<lparr>ch_name := nm, port_base := port, irq_no := irq, expecting_intr := False\<rparr>;
     let s1 = lock_init (ch_lock chan) (s\<lparr>channels := (channels s)(ch := chan)\<rparr>);
     let s2 = sema_init (disk_done chan) 0 s1;
     c1 \<leftarrow> register_handler (irq_no chan) Intr_hd_handler c;
     s3 \<leftarrow> init_device ch 0 junk s2;
     s4 \<leftarrow> init_device ch 1 junk s3;
     Some (s4, c1)
   }"

fun init_channels :: "nat \<Rightarrow> nat \<Rightarrow> u8 list \<Rightarrow> 'a fstate_scheme \<times> cpu \<Rightarrow> ('a fstate_scheme \<times> cpu) option" where
  "init_channels 0 ch junk sc = Some sc"
| "init_channels (Suc m) ch junk sc = do {
     sc1 \<leftarrow> init_channel ch junk sc;
     init_channels m (Suc ch) junk sc1
   }"

text \<open>\<^verbatim>\<open>list_traversal(&partition_list, partition_info, ..)\<close>.\<close>

definition partition_info :: "part_ptr \<Rightarrow> 'a fstate_scheme \<Rightarrow> (bool \<times> 'a fstate_scheme) option" where
  "partition_info q s = do {
     let p = parts s q;
     s1 \<leftarrow> printk (msg ''   %s start_lba:0x%x, sec_cnt:0x%x\<newline>'') [AStr (part_name p), AInt (start_lba p), AInt (sec_cnt p)] s;
     Some (False, s1)
   }"

fun list_partitions :: "part_ptr list \<Rightarrow> 'a fstate_scheme \<Rightarrow> 'a fstate_scheme option" where
  "list_partitions [] s = Some s"
| "list_partitions (q # qs) s = do {
     (stop, s1) \<leftarrow> partition_info q s;
     if stop then Some s1 else list_partitions qs s1
   }"

text \<open>\<open>hd_cnt\<close> is the number of disks that the BIOS left at 0x475, \<open>junk\<close> the uninitialised buffer of \<^verbatim>\<open>identify_disk\<close>.\<close>

definition ide_init :: "u8 \<Rightarrow> u8 list \<Rightarrow> 'a fstate_scheme \<times> cpu \<Rightarrow> ('a fstate_scheme \<times> cpu) option" where
  "ide_init hd_cnt junk sc = do {
     let (s0, c) = sc;
     s \<leftarrow> printk (msg ''ide_init start\<newline>'') [] s0;
     ASSERT (hd_cnt > 0);
     let n = (unat hd_cnt + 2 - 1) div 2;
     (s1, c1) \<leftarrow> init_channels n 0 junk (s\<lparr>partition_list := [], channel_cnt := n\<rparr>, c);
     s2 \<leftarrow> printk (msg ''\<newline>   all partition info\<newline>'') [] s1;
     s3 \<leftarrow> list_partitions (partition_list s2) s2;
     s4 \<leftarrow> printk (msg ''ide_init done\<newline>'') [] s3;
     Some (s4, c1)
   }"

section \<open>Initialising everything\<close>

text \<open>What the kernel finds when it starts: addresses that the linker chose, what the loader and the BIOS left in memory, and uninitialised bytes.\<close>

record boot_env =
  entry_points :: "nat \<Rightarrow> u32"
  syscall_entry :: u32
  idt_address :: u32
  tss_address :: u32
  init_code :: u32
  mem_total :: u32
  disks_found :: u8
  bitmap_junk :: "u8 list"
  buf_junk :: "u8 list"

record 'a machine =
  kern :: "'a pstate_scheme"
  hw :: cpu
  keys :: kbd
  calls :: syscall_table

definition init_all :: "boot_env \<Rightarrow> 'a machine \<Rightarrow> 'a machine option" where
  "init_all e m = do {
     s0 \<leftarrow> put_str (msg ''init_all\<newline>'') (kern m);
     let c1 = idt_init (entry_points e) (syscall_entry e) (idt_address e) (hw m);
     s1 \<leftarrow> mem_init (mem_total e) (bitmap_junk e) s0;
     s2 \<leftarrow> thread_init (init_code e) s1;
     c2 \<leftarrow> timer_init c1;
     let s3 = console_init s2;
     let (k, s4) = keyboard_init (keys m) s3;
     c3 \<leftarrow> register_handler 0x21 Intr_keyboard_handler c2;
     let c4 = tss_init (tss_address e) c3;
     t \<leftarrow> syscall_init (calls m);
     let s5 = snd (intr_enable s4);
     (s6, c5) \<leftarrow> ide_init (disks_found e) (buf_junk e) (s5, c4);
     s7 \<leftarrow> filesys_init s6;
     Some \<lparr>kern = s7, hw = c5, keys = k, calls = t\<rparr>
   }"

text \<open>
  \<^verbatim>\<open>main\<close> up to its last, endless loop: the program image that lies at sector 300 of the first disk is copied into a file.
\<close>

definition main :: "boot_env \<Rightarrow> 'a machine \<Rightarrow> 'a machine option" where
  "main e m0 = do {
     k \<leftarrow> put_str (msg ''I am kernel\<newline>'') (kern m0);
     m \<leftarrow> init_all e (m0\<lparr>kern := k\<rparr>);
     (prog_buf, s1) \<leftarrow> sys_malloc 6184 (kern m);
     (image, s2) \<leftarrow> ide_read (devices s1 0 0) 300 ((6184 + 512 - 1) div 512) s1;
     (fd, s3) \<leftarrow> sys_open (msg ''/prog_no_arg'') (ucast (O_CREAT OR O_RDWR)) s2;
     s4 \<leftarrow> (if fd \<noteq> -1 then do {
          (n, s') \<leftarrow> sys_write fd image 6184 s3;
          if n = -1 then do {
            s'' \<leftarrow> printk (msg ''file write error!\<newline>'') [] s';
            spin s''
          } else Some s'
        } else Some s3);
     s5 \<leftarrow> console_put_str (msg ''[ForikOS@localhost /]$ '') (cls_screen s4);
     Some (m\<lparr>kern := s5\<rparr>)
   }"

text \<open>The first process: it forks, goes round for ever itself, and its child becomes the shell (\<open>shell_round\<close>).\<close>

datatype init_next = Spin | Run_shell

definition init_process :: "int \<Rightarrow> init_next" where
  "init_process ret_pid = (if ret_pid \<noteq> 0 then Spin else Run_shell)"

section \<open>The handlers\<close>

lemma handlers_registered:
  "\<exists>c'. (timer_init (idt_init entry sh a c) \<bind> register_handler 0x21 Intr_keyboard_handler) = Some c' \<and>
    idt_table c' = (replicate 0x81 General_intr_handler)[0x20 := Intr_timer_handler, 0x21 := Intr_keyboard_handler]"
proof -
  have "idt_table (outb p d u) = idt_table u" for p d u
    by (simp add: outb_def)
  then have "idt_table (frequency_set 0x40 0 3 2 COUNTER0_VALUE (idt_init entry sh a c)) = replicate 0x81 General_intr_handler"
    using idt_init_table [of entry sh a c] by (simp add: frequency_set_def Let_def)
  then show ?thesis
    by (simp add: timer_init_def register_handler_def wr_def)
qed

section \<open>The list of partitions\<close>

text \<open>One line for each partition that was found, in the order of the list; nothing but the screen changes.\<close>

definition partition_line :: "partition \<Rightarrow> u8 list" where
  "partition_line p = str_bytes ''   '' @ cstr (part_name p) 0 @ str_bytes '' start_lba:0x'' @ digits 16 (unat (start_lba p)) @
     str_bytes '', sec_cnt:0x'' @ digits 16 (unat (sec_cnt p)) @ [10]"

lemma partition_info_ok:
  assumes "console_free s" and "terminated (part_name (parts s q)) 0" and "length (part_name (parts s q)) = 8"
  shows "partition_info q s = Some (False, s\<lparr>screen := screen s @ partition_line (parts s q)\<rparr>)"
proof -
  let ?fmt = "msg ''   %s start_lba:0x%x, sec_cnt:0x%x\<newline>''" and ?p = "parts s q"
  let ?args = "[AStr (part_name ?p), AInt (start_lba ?p), AInt (sec_cnt ?p)]"
  have "terminated ?fmt 0" and "render (cstr ?fmt 0) ?args = Some (partition_line ?p)"
    using assms(2) by (simp_all add: msg_def str_bytes_def terminated_def cstr_def partition_line_def)
  moreover have "length (cstr (part_name ?p) 0) \<le> 8"
    using length_takeWhile_le [of _ "part_name ?p"] assms(3) by (simp add: cstr_def)
  then have "length (partition_line ?p) < 1024"
    using length_digits_word [of 16 "start_lba ?p"] length_digits_word [of 16 "sec_cnt ?p"] by (simp add: partition_line_def str_bytes_def)
  moreover have "0 \<notin> set (partition_line ?p)"
    using cstr_no_nul [of "part_name ?p" 0] by (simp add: partition_line_def str_bytes_def digits_nonzero)
  ultimately show ?thesis
    using printk_ok [OF _ _ _ _ assms(1)] by (simp add: partition_info_def)
qed

lemma list_partitions_ok:
  assumes "\<forall>q\<in>set qs. terminated (part_name (parts s q)) 0 \<and> length (part_name (parts s q)) = 8"
  shows "console_free s \<Longrightarrow> list_partitions qs s = Some (s\<lparr>screen := screen s @ concat (map (\<lambda>q. partition_line (parts s q)) qs)\<rparr>)"
  using assms by (induction qs arbitrary: s) (simp_all add: partition_info_ok)

text \<open>The capacity that is shown is right for disks of less than four gigabytes, and a disk of exactly that size is shown as 0 MB.\<close>

lemma capacity_shown: "unat n < 2 ^ 23 \<Longrightarrow> unat (n * 512 div 1024 div 1024 :: u32) = unat n * 512 div 2 ^ 20"
  by (simp add: unat_div unat_word_ariths div_mult2_eq [symmetric])

lemma capacity_wraps: "(2 ^ 23 :: u32) * 512 div 1024 div 1024 = 0"
  by simp

end
