(* ===== verification/Spec2Isabelle.thy ===== *)
theory Spec2Isabelle
  imports Lock_Machine Keyboard Fs_Calls Shell_Line Process_Life Task_Start Fork_Body Exec_Load Heap_Alloc Display Boot
begin

text \<open>
  Verification of the ForikOS kernel, a small 32-bit x86 operating system in C: threads and processes with paging, a disk driver with a file system,
  a keyboard and a shell.

  \<^bold>\<open>How the program is modelled.\<close> Every C function is a function of the same name on an explicit state; a function that can stop in an \<^verbatim>\<open>ASSERT\<close> or
  \<^verbatim>\<open>PANIC\<close>, that reads or writes outside an array, or that follows a null pointer returns an option, and \<open>None\<close> is that end. Integers have their
  width (\<open>u8\<close>, \<open>u16\<close>, \<open>u32\<close> are words), signed values that are only compared are \<open>int\<close>, loop counters that count down a fixed number of turns are
  \<open>nat\<close>. The state is a chain of records, each extending the one before with the variables of further files:
  \<^item> \<open>kstate\<close> (Thread): the list nodes in memory, the tasks, the running task, the interrupt flag, locks and semaphores, the words of physical memory and
    \<^verbatim>\<open>cr3\<close>;
  \<^item> \<open>mstate\<close> (Memory): the page pools, the kernel's address bitmap, the heap's arenas; and the pid pool (Pid);
  \<^item> \<open>dstate\<close> (Ide): channels, drives and their registers, partitions;
  \<^item> \<open>fstate\<close> (Inode): open inodes, directories, the file table, the screen and the lock of the console;
  \<^item> \<open>pstate\<close> (Task): the frames on kernel stacks.
  Pointers are addresses, and structures that the code links through embedded list nodes are linked here in the same way, through a map of nodes, so
  that a routine that breaks a link breaks it in the model. Page tables are words of physical memory which the model's \<open>mmu\<close> reads, and the code reaches
  them through the self-map, as in the source. A routine that gives up the processor is split where it does: \<open>sema_down\<close>, \<open>lock_acquire\<close>, the ring
  buffer and \<open>sys_wait\<close> report that the thread sleeps, and a second function is what it does when it runs again.

  \<^bold>\<open>Parts, theories and sources.\<close>
  \<^item> Forik_Prelude: bounds-checked array access and general lemmas. Cstring: src/lib/string.c. Bitmap: src/lib/bitmap.c. Klist: src/lib/list.c. Stdio:
    src/lib/stdio.c.
  \<^item> Paging: address translation and the pointers of src/mm/memory.c into page tables. Memory: the rest of src/mm/memory.c. Memory_Inv, Page_Alloc and
    Heap_Layout: invariants and correctness of allocation, of mapping and of the set-up. Heap_Blocks, Heap_Pages and Heap_Alloc: the block heap, its
    free lists, its pages and the invariant that \<^verbatim>\<open>sys_malloc\<close> and \<^verbatim>\<open>sys_free\<close> keep.
  \<^item> Thread: the scheduler of src/thread/thread.c with interrupt flag, address space switch and clock tick. Sched_Inv: its invariant and round robin.
    Sync: src/thread/sync.c. Lock_Machine: all interleavings of lock operations as a step relation. Pid: the pid pool.
  \<^item> Task: creating, starting, ending and listing threads (src/thread/thread.c). Task_Start: what a started thread looks like and that the lists stay
    in order. Process: src/user/process.c and src/user/fork.c. Address_Space: the directory of a new process. Fork_Copy, Fork_Body: the copy of a page and of all pages. Wait_Exit:
    src/user/wait_exit.c. Process_Life: ending and collecting children. Exec: src/user/exec.c. Exec_Load: the pages and bytes of a segment.
  \<^item> Ioqueue: src/device/ioqueue.c. Keyboard: src/device/keyboard.c. Ide: src/device/ide.c and the drive. Ide_Transfer: transfers.
  \<^item> Inode: src/fs/inode.c and the bitmap routines of src/fs/file.c. Dir: src/fs/dir.c. File: src/fs/file.c. Fs: src/fs/fs.c. Path: path names in
    src/fs/fs.c and src/shell/buildin_cmd.c. Inode_Disk, Fs_Format, File_Data, Fs_Alloc, Fs_Calls: inodes on the disk, the layout of a partition, file
    contents, allocation of blocks, directory entries and calls.
  \<^item> Interrupts: descriptor tables, interrupt controllers and timer (src/kernel/interrupt.c, src/user/tss.c, src/device/timer.c). Syscalls: the stubs,
    the table and the dispatch of system calls. Console: src/device/console.c, \<^verbatim>\<open>printk\<close> and \<^verbatim>\<open>panic_spin\<close>. Display: the text screen
    (src/lib/print.asm). Shell: src/shell and \<^verbatim>\<open>user_spin\<close>. Shell_Line: the parser of commands and the line editor. Boot: \<^verbatim>\<open>ide_init\<close>,
    \<^verbatim>\<open>init_all\<close> and \<^verbatim>\<open>main\<close>.

  \<^bold>\<open>Interfaces.\<close> Two contracts are locales with the client's lemmas proved once: \<open>fifo\<close> (Klist), a queue that gives back what was put in, interpreted by
  the linked lists and by the ring buffer; and \<open>index_pool\<close> (Bitmap), a pool of numbers of which none is handed out twice, interpreted by bitmaps, page
  frames, pids and the blocks of a partition.

  \<^bold>\<open>What is shown.\<close>
  \<^item> Concurrency: mutual exclusion and no lost wake-up for locks in every reachable state of every interleaving; no assertion of the lock routines fails;
    every ready thread runs within a bounded number of ticks; blocking and starting keep the lists in order; a thread that waits for a byte or for a
    child is woken.
  \<^item> Memory: allocation returns frames nobody uses, maps them and keeps the invariant; freeing undoes it; the page table routines change exactly the
    translation they should; the heap hands out no block twice, touches no block in use and keeps exactly the pages that hold one.
  \<^item> Processes: a new address space shares exactly the kernel's half; fork copies every page of the parent into frames of the child's own; a program's segment is where its
    header says; wait collects a child that has ended and gives back its resources.
  \<^item> Disk and files: sectors, inodes and file contents are read back as written; reading equals taking a range of the concatenated blocks; allocated blocks
    are distinct; an added directory entry is found.
  \<^item> Text: lists, paths, numbers, the command line and the line editor agree with their descriptions on sequences; what is
    written under the lock of the console appears as on a terminal, and the report of an exception or of a failed assertion appears.
  \<^item> Interrupts and calls: only the system call gate is open to user mode; every stub reaches its own routine.
  \<^item> Where the code does something else than it means to, the theorem states what it does: growing a file with indirect blocks never returns, deleting
    a directory entry misses the direct blocks, an inode from number 256 on overwrites another one; also proved are the timer's wrong divisor, the
    overrun of \<^verbatim>\<open>argv\<close>, the extra bit of the formatted bitmap, the halt when memory runs out, the fault at a backspace on a cleared screen and
    the capacity of large disks.

  \<^bold>\<open>Loops.\<close> Loops over lists, over directory entries and in the waiting routines are \<open>partial_function (option)\<close>: not returning is \<open>None\<close>, so a
  statement that such a routine returns \<open>Some\<close> includes that it terminates. Loops with a bound in the code recurse on that bound; no fuel is chosen.

  \<^bold>\<open>Not modelled.\<close> The boot sector, the loader and the interrupt entry points (assembly); the registers of the processor across a context switch; the
  TLB; the progress messages of the routines that \<^verbatim>\<open>init_all\<close> calls before the disks. The calls of the file system write
  to the console as a thread that finds its lock free; one that would sleep there has no result (the lock routines themselves are modelled with sleeping
  and waking in Sync and Lock_Machine). The screen is the list of the bytes written to it, and Display says what they look like. The scan codes that the keyboard
  delivers, the contents of the drives, the addresses that the linker chooses and uninitialised memory are arguments.
\<close>

end
